(* ===== verification/Prelude.thy ===== *)
theory Prelude
  imports Main "HOL-Library.Word" "HOL-Library.Monad_Syntax" "HOL-Library.Multiset"
begin

unbundle bit_operations_syntax

section \<open>Shared types, memory blocks and generic lemmas\<close>

text \<open>
  What every component of the development uses: the C integer types, the status codes of
  \<open>jxta_errno.h\<close>, the C library's block operations on an array (\<open>memmove\<close>, \<open>memset\<close>,
  indexed reads and writes) with a bounds check, and the lemmas about them.

  An array of C is a list whose length is the allocated length.  A read or a write outside
  of it is undefined behaviour of the program; here it is the result \<open>None\<close>, so that a
  theorem saying that an operation returns \<open>Some\<close> also says that it stays in bounds.
\<close>

type_synonym u8 = "8 word"
type_synonym u16 = "16 word"
type_synonym u32 = "32 word"
type_synonym u64 = "64 word"

text \<open>An address of an object; \<open>0\<close> is the null pointer.\<close>

type_synonym ptr = nat

abbreviation (input) NULL :: ptr where
  "NULL \<equiv> 0"

datatype status =
    JXTA_SUCCESS
  | JXTA_NOTIMP
  | JXTA_INVALID_ARGUMENT
  | JXTA_ITEM_NOTFOUND
  | JXTA_NOMEM
  | JXTA_TIMEOUT
  | JXTA_BUSY
  | JXTA_VIOLATION
  | JXTA_FAILED
  | JXTA_CONFIG_NOTFOUND
  | JXTA_IOERR
  | JXTA_ITEM_EXISTS
  | JXTA_NOT_CONFIGURED
  | JXTA_UNREACHABLE_DEST
  | JXTA_TTL_EXPIRED

named_theorems mem_simps \<open>block operations on arrays, evaluated under their bounds\<close>

subsection \<open>Reads, writes and block moves\<close>

definition mem_read :: "'a list \<Rightarrow> nat \<Rightarrow> 'a option" where
  "mem_read xs i = (if i < length xs then Some (xs ! i) else None)"

definition mem_write :: "'a list \<Rightarrow> nat \<Rightarrow> 'a \<Rightarrow> 'a list option" where
  "mem_write xs i x = (if i < length xs then Some (xs[i := x]) else None)"

text \<open>\<open>mem_store xs i ys\<close> copies the block \<open>ys\<close> over \<open>xs\<close> from position \<open>i\<close> on.\<close>

definition mem_store :: "'a list \<Rightarrow> nat \<Rightarrow> 'a list \<Rightarrow> 'a list option" where
  "mem_store xs i ys =
     (if i + length ys \<le> length xs
      then Some (take i xs @ ys @ drop (i + length ys) xs) else None)"

text \<open>\<open>mem_load xs i n\<close> reads \<open>n\<close> consecutive cells.\<close>

definition mem_load :: "'a list \<Rightarrow> nat \<Rightarrow> nat \<Rightarrow> 'a list option" where
  "mem_load xs i n = (if i + n \<le> length xs then Some (take n (drop i xs)) else None)"

definition memmove :: "'a list \<Rightarrow> nat \<Rightarrow> nat \<Rightarrow> nat \<Rightarrow> 'a list option" where
  "memmove xs dst src n = mem_load xs src n \<bind> mem_store xs dst"

definition memset :: "'a list \<Rightarrow> nat \<Rightarrow> 'a \<Rightarrow> nat \<Rightarrow> 'a list option" where
  "memset xs i x n = mem_store xs i (replicate n x)"

lemma mem_read_in [mem_simps]: "i < length xs \<Longrightarrow> mem_read xs i = Some (xs ! i)"
  by (simp add: mem_read_def)

lemma mem_read_out [mem_simps]: "length xs \<le> i \<Longrightarrow> mem_read xs i = None"
  by (simp add: mem_read_def)

lemma mem_write_in [mem_simps]: "i < length xs \<Longrightarrow> mem_write xs i x = Some (xs[i := x])"
  by (simp add: mem_write_def)

lemma mem_write_out [mem_simps]: "length xs \<le> i \<Longrightarrow> mem_write xs i x = None"
  by (simp add: mem_write_def)

lemma mem_store_in [mem_simps]:
  "i + length ys \<le> length xs \<Longrightarrow>
   mem_store xs i ys = Some (take i xs @ ys @ drop (i + length ys) xs)"
  by (simp add: mem_store_def)

lemma mem_load_in [mem_simps]: "i + n \<le> length xs \<Longrightarrow> mem_load xs i n = Some (take n (drop i xs))"
  by (simp add: mem_load_def)

lemma memmove_in [mem_simps]:
  "src + n \<le> length xs \<Longrightarrow> dst + n \<le> length xs \<Longrightarrow>
   memmove xs dst src n = Some (take dst xs @ take n (drop src xs) @ drop (dst + n) xs)"
  by (simp add: memmove_def mem_simps)

lemma memset_in [mem_simps]:
  "i + n \<le> length xs \<Longrightarrow> memset xs i x n = Some (take i xs @ replicate n x @ drop (i + n) xs)"
  by (simp add: memset_def mem_simps)

lemma mem_load_prefix: "mem_load (xs @ t) 0 (length xs) = Some xs"
  by (simp add: mem_load_def)

lemma mem_read_Some_iff: "mem_read xs i = Some x \<longleftrightarrow> i < length xs \<and> xs ! i = x"
  by (simp add: mem_read_def)

lemma mem_write_Some_iff: "mem_write xs i x = Some ys \<longleftrightarrow> i < length xs \<and> ys = xs[i := x]"
  by (auto simp: mem_write_def)

lemma mem_store_length: "mem_store xs i ys = Some zs \<Longrightarrow> length zs = length xs"
  by (auto simp: mem_store_def split: if_splits)

lemma memmove_length: "memmove xs dst src n = Some zs \<Longrightarrow> length zs = length xs"
  by (auto simp: memmove_def bind_eq_Some_conv mem_store_length)

lemma memset_length: "memset xs i x n = Some zs \<Longrightarrow> length zs = length xs"
  by (auto simp: memset_def mem_store_length)

subsection \<open>Lists\<close>

lemma take_list_update_drop:
  "i < length xs \<Longrightarrow> xs[i := x] = take i xs @ x # drop (Suc i) xs"
  by (simp add: upd_conv_take_nth_drop)

lemma take_append_exact: "length xs = n \<Longrightarrow> take n (xs @ ys) = xs"
  by simp

lemma count_list_append: "count_list (xs @ ys) x = count_list xs x + count_list ys x"
  by (induction xs) auto

lemma count_list_mset: "count_list xs x = count (mset xs) x"
  by (induction xs) auto

lemma mset_swap_nth:
  assumes "i < length xs" "j < length xs"
  shows "mset (xs[i := xs ! j, j := xs ! i]) = mset xs"
  using mset_swap [OF assms(2,1)] by simp

lemma filter_take_Suc_nth:
  "i < length xs \<Longrightarrow> filter P (take (Suc i) xs) = filter P (take i xs) @ (if P (xs ! i) then [xs ! i] else [])"
  by (simp add: take_Suc_conv_app_nth)

subsection \<open>Machine words\<close>

lemma unat_add_nowrap:
  fixes a b :: "'a::len word"
  assumes "unat a + unat b < 2 ^ LENGTH('a)"
  shows "unat (a + b) = unat a + unat b"
  using assms by (simp add: unat_word_ariths)

lemma unat_sub_nowrap:
  fixes a b :: "'a::len word"
  assumes "b \<le> a"
  shows "unat (a - b) = unat a - unat b"
  using assms by (rule unat_sub)

lemma unat_u32_less [simp]: "unat (a::u32) < 4294967296"
  using unsigned_less [of a, where ?'a = nat] by simp

end
