(* ===== verification/JObject.thy ===== *)
theory JObject
  imports Prelude
begin

section \<open>Reference-counted objects (src/src/jxta_object.c)\<close>

text \<open>
  Every JXTA structure starts with the header \<open>struct _jxta_object\<close>.  The model keeps the
  headers of all objects in a heap indexed by address.  The free function of an object is
  code of its owner; the heap records, in order, the addresses it was called on.

  The shipped configuration is modelled: the magic number check is compiled in
  (\<open>JXTA_OBJECT_CHECK_INITIALIZED_ENABLE\<close>), the tracker is not, and the macro
  \<open>JXTA_OBJECT_CHECK_VALID\<close> is the constant 1 (\<open>JXTA_OBJECT_CHECKING_ENABLE\<close> is 0).
  The global mutex serialises the operations, so each is one step on the heap; log
  messages have no effect on it.
\<close>

record jobject =
  bitset :: u32
  has_free :: bool
  initialized :: u32
  refCount :: int

record heap =
  objs :: "ptr \<Rightarrow> jobject"
  freed :: "ptr list"

definition JXTA_OBJECT_IMMUTABLE_FLAG :: u32 where
  "JXTA_OBJECT_IMMUTABLE_FLAG = 2"

definition JXTA_OBJECT_INITED_BIT :: u32 where
  "JXTA_OBJECT_INITED_BIT = 0x80000000"

definition JXTA_OBJECT_MAGIC_NUMBER :: u32 where
  "JXTA_OBJECT_MAGIC_NUMBER = 0x600DF00D"

definition MAX_REF_COUNT :: int where
  "MAX_REF_COUNT = 10000"

definition obj_update :: "ptr \<Rightarrow> (jobject \<Rightarrow> jobject) \<Rightarrow> heap \<Rightarrow> heap" where
  "obj_update p f h = h\<lparr>objs := (objs h)(p := f (objs h p))\<rparr>"

subsection \<open>Operations\<close>

definition jxta_object_increment_refcount :: "heap \<Rightarrow> ptr \<Rightarrow> int \<times> heap" where
  "jxta_object_increment_refcount h p =
     (let c = refCount (objs h p) + 1 in (c, obj_update p (\<lambda>ob. ob\<lparr>refCount := c\<rparr>) h))"

definition jxta_object_decrement_refcount :: "heap \<Rightarrow> ptr \<Rightarrow> int \<times> heap" where
  "jxta_object_decrement_refcount h p =
     (let c = refCount (objs h p) - 1 in (c, obj_update p (\<lambda>ob. ob\<lparr>refCount := c\<rparr>) h))"

definition jxta_object_get_refcount :: "heap \<Rightarrow> ptr \<Rightarrow> int" where
  "jxta_object_get_refcount h p = refCount (objs h p)"

definition jxta_object_check_initialized :: "heap \<Rightarrow> ptr \<Rightarrow> bool" where
  "jxta_object_check_initialized h p =
     (if p = NULL then False
      else if bitset (objs h p) AND JXTA_OBJECT_INITED_BIT = 0 then False
      else if initialized (objs h p) \<noteq> JXTA_OBJECT_MAGIC_NUMBER then False
      else True)"

definition jxta_object_check_uninitialized :: "heap \<Rightarrow> ptr \<Rightarrow> bool" where
  "jxta_object_check_uninitialized h p =
     (if p = NULL then False
      else if initialized (objs h p) = JXTA_OBJECT_MAGIC_NUMBER then False
      else True)"

definition jxta_object_set_initialized :: "heap \<Rightarrow> ptr \<Rightarrow> heap" where
  "jxta_object_set_initialized h p =
     (if p = NULL then h
      else obj_update p (\<lambda>ob. ob\<lparr>bitset := bitset ob OR JXTA_OBJECT_INITED_BIT,
                                 initialized := JXTA_OBJECT_MAGIC_NUMBER\<rparr>) h)"

definition jxta_object_set_uninitialized :: "heap \<Rightarrow> ptr \<Rightarrow> heap" where
  "jxta_object_set_uninitialized h p =
     (if p = NULL then h
      else obj_update p (\<lambda>ob. ob\<lparr>bitset := bitset ob AND NOT JXTA_OBJECT_INITED_BIT,
                                 initialized := 0\<rparr>) h)"

definition jxta_object_check_valid :: "heap \<Rightarrow> ptr \<Rightarrow> bool" where
  "jxta_object_check_valid h p =
     (if p = NULL then False
      else if \<not> jxta_object_check_initialized h p then False
      else refCount (objs h p) > 0 \<and> refCount (objs h p) < MAX_REF_COUNT)"

definition jxta_object_init :: "heap \<Rightarrow> ptr \<Rightarrow> u32 \<Rightarrow> bool \<Rightarrow> heap" where
  "jxta_object_init h p flags freefunc =
     jxta_object_set_initialized
       (obj_update p (\<lambda>ob. ob\<lparr>bitset := flags, has_free := freefunc, refCount := 1\<rparr>) h) p"

definition jxta_object_share :: "heap \<Rightarrow> ptr \<Rightarrow> ptr \<times> heap" where
  "jxta_object_share h p =
     (if p = NULL then (NULL, h)
      else if jxta_object_check_initialized h p then
        (p, if bitset (objs h p) AND JXTA_OBJECT_IMMUTABLE_FLAG = 0
            then snd (jxta_object_increment_refcount h p) else h)
      else (p, h))"

definition jxta_object_release :: "heap \<Rightarrow> ptr \<Rightarrow> int \<times> heap" where
  "jxta_object_release h p =
     (if p = NULL then (-1, h)
      else if bitset (objs h p) AND JXTA_OBJECT_IMMUTABLE_FLAG = 0 then
        (let (c, h1) = jxta_object_decrement_refcount h p in
         if c = 0 then
           (let h2 = jxta_object_set_uninitialized h1 p in
            (c, if has_free (objs h2 p) then h2\<lparr>freed := freed h2 @ [p]\<rparr> else h2))
         else (c, h1))
      else (1, h))"

text \<open>The heap after a share or a release, for callers that ignore the returned value.\<close>

definition share :: "ptr \<Rightarrow> heap \<Rightarrow> heap" where
  "share p h = snd (jxta_object_share h p)"

definition release :: "ptr \<Rightarrow> heap \<Rightarrow> heap" where
  "release p h = snd (jxta_object_release h p)"

subsection \<open>Life cycle\<close>

definition is_mutable :: "heap \<Rightarrow> ptr \<Rightarrow> bool" where
  "is_mutable h p \<longleftrightarrow> p \<noteq> NULL \<and> bitset (objs h p) AND JXTA_OBJECT_IMMUTABLE_FLAG = 0"

text \<open>An object that is alive: initialised, counted, and with at least one reference.\<close>

definition live :: "heap \<Rightarrow> ptr \<Rightarrow> bool" where
  "live h p \<longleftrightarrow> is_mutable h p \<and> jxta_object_check_initialized h p \<and> refCount (objs h p) > 0"

named_theorems heap_simps \<open>effect of the object operations on the heap\<close>

lemma inited_bit_test: "(x OR JXTA_OBJECT_INITED_BIT) AND JXTA_OBJECT_INITED_BIT = JXTA_OBJECT_INITED_BIT"
  by (simp add: word_bw_comms word_ao_absorbs)

lemma immutable_inited_disjoint:
  "(x OR JXTA_OBJECT_INITED_BIT) AND JXTA_OBJECT_IMMUTABLE_FLAG = x AND JXTA_OBJECT_IMMUTABLE_FLAG"
  by (simp add: JXTA_OBJECT_INITED_BIT_def JXTA_OBJECT_IMMUTABLE_FLAG_def word_ao_dist)

lemma immutable_not_inited_disjoint:
  "(x AND NOT JXTA_OBJECT_INITED_BIT) AND JXTA_OBJECT_IMMUTABLE_FLAG = x AND JXTA_OBJECT_IMMUTABLE_FLAG"
  by (simp add: JXTA_OBJECT_INITED_BIT_def JXTA_OBJECT_IMMUTABLE_FLAG_def and.assoc)

lemma refCount_share [heap_simps]:
  "refCount (objs (share p h) q) =
     refCount (objs h q) +
       (if p = q \<and> is_mutable h p \<and> jxta_object_check_initialized h p then 1 else 0)"
  by (simp add: share_def jxta_object_share_def jxta_object_increment_refcount_def is_mutable_def
      obj_update_def Let_def)

lemma refCount_release [heap_simps]:
  "refCount (objs (release p h) q) =
     refCount (objs h q) - (if p = q \<and> is_mutable h p then 1 else 0)"
  by (simp add: release_def jxta_object_release_def jxta_object_decrement_refcount_def is_mutable_def
      jxta_object_set_uninitialized_def obj_update_def Let_def)

lemma is_mutable_share [heap_simps]: "is_mutable (share p h) q = is_mutable h q"
  by (simp add: share_def jxta_object_share_def jxta_object_increment_refcount_def is_mutable_def
      obj_update_def Let_def)

lemma is_mutable_release [heap_simps]: "is_mutable (release p h) q = is_mutable h q"
  by (simp add: release_def jxta_object_release_def jxta_object_decrement_refcount_def is_mutable_def
      jxta_object_set_uninitialized_def obj_update_def Let_def immutable_not_inited_disjoint)

lemma check_initialized_share [heap_simps]:
  "jxta_object_check_initialized (share p h) q = jxta_object_check_initialized h q"
  by (simp add: share_def jxta_object_share_def jxta_object_increment_refcount_def
      jxta_object_check_initialized_def obj_update_def Let_def)

lemma check_initialized_release [heap_simps]:
  "jxta_object_check_initialized (release p h) q \<longleftrightarrow>
     jxta_object_check_initialized h q \<and> \<not> (p = q \<and> is_mutable h p \<and> refCount (objs h p) = 1)"
  by (auto simp: release_def jxta_object_release_def jxta_object_decrement_refcount_def is_mutable_def
      jxta_object_set_uninitialized_def jxta_object_check_initialized_def obj_update_def Let_def
      JXTA_OBJECT_MAGIC_NUMBER_def)

lemma freed_share [heap_simps]: "freed (share p h) = freed h"
  by (simp add: share_def jxta_object_share_def jxta_object_increment_refcount_def obj_update_def Let_def)

lemma has_free_share [heap_simps]: "has_free (objs (share p h) q) = has_free (objs h q)"
  by (simp add: share_def jxta_object_share_def jxta_object_increment_refcount_def obj_update_def Let_def)

lemma has_free_release [heap_simps]: "has_free (objs (release p h) q) = has_free (objs h q)"
  by (simp add: release_def jxta_object_release_def jxta_object_decrement_refcount_def
      jxta_object_set_uninitialized_def obj_update_def Let_def)

lemma freed_release [heap_simps]:
  "freed (release p h) =
     freed h @ (if is_mutable h p \<and> refCount (objs h p) = 1 \<and> has_free (objs h p) then [p] else [])"
  by (simp add: release_def jxta_object_release_def jxta_object_decrement_refcount_def is_mutable_def
      jxta_object_set_uninitialized_def obj_update_def Let_def)

lemma share_other [heap_simps]: "p \<noteq> q \<Longrightarrow> objs (share p h) q = objs h q"
  by (simp add: share_def jxta_object_share_def jxta_object_increment_refcount_def obj_update_def Let_def)

lemma release_other [heap_simps]: "p \<noteq> q \<Longrightarrow> objs (release p h) q = objs h q"
  by (simp add: release_def jxta_object_release_def jxta_object_decrement_refcount_def
      jxta_object_set_uninitialized_def obj_update_def Let_def)

lemma share_eq [heap_simps]: "jxta_object_share h p = (p, share p h)"
  by (simp add: share_def jxta_object_share_def)

lemma init_live:
  assumes "p \<noteq> NULL" "flags AND JXTA_OBJECT_IMMUTABLE_FLAG = 0"
  shows "live (jxta_object_init h p flags ff) p"
    and "refCount (objs (jxta_object_init h p flags ff) p) = 1"
  using assms
  by (simp_all add: live_def jxta_object_init_def jxta_object_set_initialized_def is_mutable_def
      jxta_object_check_initialized_def obj_update_def inited_bit_test immutable_inited_disjoint)
     (simp add: JXTA_OBJECT_INITED_BIT_def)

lemma share_keeps_live: "live h q \<Longrightarrow> live (share p h) q"
  by (simp add: live_def heap_simps)

lemma share_all_refCount:
  assumes "is_mutable h q" "jxta_object_check_initialized h q"
  shows "refCount (objs (fold share ps h) q) = refCount (objs h q) + int (count_list ps q)"
  using assms by (induction ps arbitrary: h) (auto simp: heap_simps)

lemma fold_share_is_mutable [heap_simps]: "is_mutable (fold share ps h) q = is_mutable h q"
  by (induction ps arbitrary: h) (simp_all add: heap_simps)

lemma fold_share_check_initialized [heap_simps]:
  "jxta_object_check_initialized (fold share ps h) q = jxta_object_check_initialized h q"
  by (induction ps arbitrary: h) (simp_all add: heap_simps)

lemma fold_release_is_mutable [heap_simps]: "is_mutable (fold release ps h) q = is_mutable h q"
  by (induction ps arbitrary: h) (simp_all add: heap_simps)

lemma release_all_refCount:
  assumes "is_mutable h q"
  shows "refCount (objs (fold release ps h) q) = refCount (objs h q) - int (count_list ps q)"
  using assms by (induction ps arbitrary: h) (auto simp: heap_simps)

lemma release_all_check_initialized:
  assumes "is_mutable h q" "jxta_object_check_initialized h q" "int (count_list ps q) < refCount (objs h q)"
  shows "jxta_object_check_initialized (fold release ps h) q"
  using assms by (induction ps arbitrary: h) (auto simp: heap_simps split: if_splits)

subsection \<open>A client's sequence of shares and releases\<close>

datatype refop = Share | Release

fun run_refops :: "ptr \<Rightarrow> refop list \<Rightarrow> heap \<Rightarrow> heap" where
  "run_refops p [] h = h"
| "run_refops p (Share # os) h = run_refops p os (share p h)"
| "run_refops p (Release # os) h = run_refops p os (release p h)"

fun balance :: "int \<Rightarrow> refop list \<Rightarrow> int" where
  "balance n [] = n"
| "balance n (Share # os) = balance (n + 1) os"
| "balance n (Release # os) = balance (n - 1) os"

text \<open>A run in which the client only uses the object while it still owns a reference.\<close>

fun disciplined :: "int \<Rightarrow> refop list \<Rightarrow> bool" where
  "disciplined n [] \<longleftrightarrow> True"
| "disciplined n (Share # os) \<longleftrightarrow> n > 0 \<and> disciplined (n + 1) os"
| "disciplined n (Release # os) \<longleftrightarrow> n > 0 \<and> disciplined (n - 1) os"

lemma disciplined_zero: "disciplined 0 os \<Longrightarrow> os = []"
  by (cases os rule: list.exhaust; cases "hd os") auto

lemma balance_nonneg: "disciplined n os \<Longrightarrow> 0 \<le> n \<Longrightarrow> 0 \<le> balance n os"
  by (induction n os rule: balance.induct) auto

lemma run_refops_effect:
  assumes "live h p" "has_free (objs h p)" "refCount (objs h p) = n" "disciplined n os"
  shows "refCount (objs (run_refops p os h) p) = balance n os \<and>
         freed (run_refops p os h) = freed h @ (if balance n os = 0 then [p] else []) \<and>
         (0 < balance n os \<longrightarrow> live (run_refops p os h) p) \<and>
         (balance n os = 0 \<longrightarrow> \<not> jxta_object_check_initialized (run_refops p os h) p)"
  using assms
proof (induction os arbitrary: h n)
  case Nil
  then show ?case by (simp add: live_def)
next
  case (Cons x os)
  show ?case
  proof (cases x)
    case Share
    have "live (share p h) p" "has_free (objs (share p h) p)" "refCount (objs (share p h) p) = n + 1"
      using Cons.prems by (auto simp: live_def heap_simps)
    from Cons.IH [OF this] Cons.prems Share show ?thesis
      by (simp add: heap_simps)
  next
    case Release
    show ?thesis
    proof (cases "n = 1")
      case True
      with Release Cons.prems have "os = []"
        using disciplined_zero by fastforce
      with True Release Cons.prems show ?thesis
        by (simp add: heap_simps live_def)
    next
      case False
      have "live (release p h) p" "has_free (objs (release p h) p)" "refCount (objs (release p h) p) = n - 1"
        using Cons.prems False Release by (auto simp: live_def heap_simps)
      from Cons.IH [OF this] Cons.prems Release False show ?thesis
        by (simp add: heap_simps)
    qed
  qed
qed

text \<open>
  C1: After initialisation, a client that shares and releases an object any number of times,
  only while it owns a reference, leaves a reference count of 1 plus shares minus releases;
  the free function is called exactly once if that count is 0 and never otherwise, and the
  object stays initialised exactly as long as a reference is left.
\<close>

theorem object_freed_exactly_once:
  assumes "p \<noteq> NULL" "flags AND JXTA_OBJECT_IMMUTABLE_FLAG = 0" "disciplined 1 os"
  shows "let h' = run_refops p os (jxta_object_init h p flags True) in
         jxta_object_get_refcount h' p = balance 1 os \<and>
         freed h' = freed h @ (if balance 1 os = 0 then [p] else []) \<and>
         (jxta_object_check_initialized h' p \<longleftrightarrow> 0 < balance 1 os)"
proof -
  let ?h1 = "jxta_object_init h p flags True"
  have "has_free (objs ?h1 p)" "freed ?h1 = freed h"
    by (simp_all add: jxta_object_init_def jxta_object_set_initialized_def obj_update_def)
  then show ?thesis
    using run_refops_effect [of ?h1 p 1 os] init_live [OF assms(1,2), of h True] assms(3)
      balance_nonneg [of 1 os]
    by (auto simp: jxta_object_get_refcount_def Let_def live_def)
qed

definition blank_heap :: heap where
  "blank_heap = \<lparr>objs = (\<lambda>_. \<lparr>bitset = 0, has_free = False, initialized = 0, refCount = 0\<rparr>), freed = []\<rparr>"

theorem object_freed_exactly_once_witness:
  "freed (run_refops 7 [Share, Release, Release] (jxta_object_init blank_heap 7 0 True)) = [7]"
  using object_freed_exactly_once [of 7 0 "[Share, Release, Release]" blank_heap]
  by (simp add: blank_heap_def Let_def)

end
