(* ===== verification/JVector.thy ===== *)
theory JVector
  imports JObject
begin

section \<open>Vectors of objects (src/src/jxta_vector.c)\<close>

text \<open>
  A vector is an array of object pointers of \<open>capacity\<close> cells, of which the first \<open>size\<close>
  are in use; both counters are C \<open>unsigned int\<close>s and wrap around.  An operation takes the
  heap of object headers and the vector, and returns \<open>None\<close> when the code would touch a
  cell outside of the array.  \<open>calloc\<close> is the parameter \<open>mem\<close>: it says whether an array
  of that many cells can be allocated.  The vector's mutex serialises the operations.
\<close>

definition INDEX_DEFAULT_SIZE :: u32 where
  "INDEX_DEFAULT_SIZE = 32"

definition INDEX_DEFAULT_INCREASE :: u32 where
  "INDEX_DEFAULT_INCREASE = 16"

record jxta_vector =
  vsize :: u32
  vcapacity :: u32
  elements :: "ptr list"

subsection \<open>Operations\<close>

definition jxta_vector_new :: "(nat \<Rightarrow> bool) \<Rightarrow> u32 \<Rightarrow> jxta_vector" where
  "jxta_vector_new mem initialSize =
     (let cap = (if initialSize = 0 then INDEX_DEFAULT_SIZE else initialSize) in
      \<lparr>vsize = 0, vcapacity = cap,
       elements = (if mem (unat cap) then replicate (unat cap) NULL else [])\<rparr>)"

definition jxta_vector_free :: "heap \<Rightarrow> jxta_vector \<Rightarrow> heap option" where
  "jxta_vector_free h v =
     do { xs \<leftarrow> mem_load (elements v) 0 (unat (vsize v));
          Some (fold release xs h) }"

definition increase_capacity :: "(nat \<Rightarrow> bool) \<Rightarrow> jxta_vector \<Rightarrow> u32 \<Rightarrow> (status \<times> jxta_vector) option" where
  "increase_capacity mem v additional =
     (if vcapacity v + additional < vcapacity v then Some (JXTA_INVALID_ARGUMENT, v)
      else if \<not> mem (unat (vcapacity v + additional)) then Some (JXTA_NOMEM, v)
      else let cap = vcapacity v + additional; new = replicate (unat cap) NULL in
        do { old \<leftarrow> mem_load (elements v) 0 (unat (vsize v));
             new' \<leftarrow> mem_store new 0 old;
             Some (JXTA_SUCCESS, v\<lparr>vcapacity := cap, elements := new'\<rparr>) })"

definition ensure_capacity :: "(nat \<Rightarrow> bool) \<Rightarrow> jxta_vector \<Rightarrow> u32 \<Rightarrow> (status \<times> jxta_vector) option" where
  "ensure_capacity mem v desired =
     (if vcapacity v < desired then
        (let additional = desired - vcapacity v in
         increase_capacity mem v
           (if additional < INDEX_DEFAULT_INCREASE then INDEX_DEFAULT_INCREASE else additional))
      else Some (JXTA_SUCCESS, v))"

definition move_index_forward ::
  "(nat \<Rightarrow> bool) \<Rightarrow> jxta_vector \<Rightarrow> u32 \<Rightarrow> u32 \<Rightarrow> (status \<times> jxta_vector) option" where
  "move_index_forward mem v at n =
     do { (res, v1) \<leftarrow> ensure_capacity mem v (vsize v + n);
          if res \<noteq> JXTA_SUCCESS then Some (res, v1)
          else do {
            xs \<leftarrow> (if at < vsize v1
                  then memmove (elements v1) (unat (at + n)) (unat at) (unat (vsize v1 - at))
                  else Some (elements v1));
            ys \<leftarrow> memset xs (unat at) NULL (unat n);
            Some (JXTA_SUCCESS, v1\<lparr>vsize := vsize v1 + n, elements := ys\<rparr>) } }"

definition move_index_backward :: "jxta_vector \<Rightarrow> u32 \<Rightarrow> jxta_vector option" where
  "move_index_backward v at =
     (let sz = vsize v - 1 in
      do { xs \<leftarrow> (if at < sz
                 then memmove (elements v) (unat at) (unat (at + 1)) (unat (sz - at))
                 else Some (elements v));
           ys \<leftarrow> mem_write xs (unat sz) NULL;
           Some (v\<lparr>vsize := sz, elements := ys\<rparr>) })"

text \<open>The status of \<open>move_index_forward\<close> is dropped by its two callers, as in the code.\<close>

definition add_object_at ::
  "(nat \<Rightarrow> bool) \<Rightarrow> heap \<Rightarrow> jxta_vector \<Rightarrow> ptr \<Rightarrow> u32 \<Rightarrow> (status \<times> heap \<times> jxta_vector) option" where
  "add_object_at mem h v ob at =
     do { (_, v1) \<leftarrow> move_index_forward mem v at 1;
          let (q, h1) = jxta_object_share h ob;
          xs \<leftarrow> mem_write (elements v1) (unat at) q;
          Some (JXTA_SUCCESS, h1, v1\<lparr>elements := xs\<rparr>) }"

definition jxta_vector_add_object_at ::
  "(nat \<Rightarrow> bool) \<Rightarrow> heap \<Rightarrow> jxta_vector \<Rightarrow> ptr \<Rightarrow> u32 \<Rightarrow> (status \<times> heap \<times> jxta_vector) option" where
  "jxta_vector_add_object_at mem h v ob at =
     (if at > vsize v then Some (JXTA_INVALID_ARGUMENT, h, v) else add_object_at mem h v ob at)"

definition jxta_vector_add_object_first ::
  "(nat \<Rightarrow> bool) \<Rightarrow> heap \<Rightarrow> jxta_vector \<Rightarrow> ptr \<Rightarrow> (status \<times> heap \<times> jxta_vector) option" where
  "jxta_vector_add_object_first mem h v ob = add_object_at mem h v ob 0"

definition jxta_vector_add_object_last ::
  "(nat \<Rightarrow> bool) \<Rightarrow> heap \<Rightarrow> jxta_vector \<Rightarrow> ptr \<Rightarrow> (status \<times> heap \<times> jxta_vector) option" where
  "jxta_vector_add_object_last mem h v ob = add_object_at mem h v ob (vsize v)"

text \<open>
  The copy loop of \<open>addall_objects_at\<close>: the source and the destination are different
  vectors here (the code refuses equal ones first, argument \<open>same\<close>).
\<close>

fun addall_loop :: "heap \<Rightarrow> ptr list \<Rightarrow> ptr list \<Rightarrow> nat \<Rightarrow> nat \<Rightarrow> nat \<Rightarrow> (heap \<times> ptr list) option" where
  "addall_loop h xs src at from 0 = Some (h, xs)"
| "addall_loop h xs src at from (Suc n) =
     do { p \<leftarrow> mem_read src from;
          let (q, h1) = jxta_object_share h p;
          ys \<leftarrow> mem_write xs at q;
          addall_loop h1 ys src (Suc at) (Suc from) n }"

definition addall_objects_at ::
  "(nat \<Rightarrow> bool) \<Rightarrow> heap \<Rightarrow> bool \<Rightarrow> jxta_vector \<Rightarrow> jxta_vector \<Rightarrow> u32 \<Rightarrow> u32 \<Rightarrow> u32
     \<Rightarrow> (status \<times> heap \<times> jxta_vector) option" where
  "addall_objects_at mem h same v obs at from cnt =
     (if same then Some (JXTA_INVALID_ARGUMENT, h, v)
      else do {
        (_, v1) \<leftarrow> move_index_forward mem v at cnt;
        (h1, xs) \<leftarrow> addall_loop h (elements v1) (elements obs) (unat at) (unat from) (unat cnt);
        Some (JXTA_SUCCESS, h1, v1\<lparr>elements := xs\<rparr>) })"

definition jxta_vector_addall_objects_at ::
  "(nat \<Rightarrow> bool) \<Rightarrow> heap \<Rightarrow> bool \<Rightarrow> jxta_vector \<Rightarrow> jxta_vector \<Rightarrow> u32 \<Rightarrow> (status \<times> heap \<times> jxta_vector) option" where
  "jxta_vector_addall_objects_at mem h same v obs at =
     (if at > vsize v then Some (JXTA_INVALID_ARGUMENT, h, v)
      else addall_objects_at mem h same v obs at 0 (vsize obs))"

definition jxta_vector_addall_objects_first ::
  "(nat \<Rightarrow> bool) \<Rightarrow> heap \<Rightarrow> bool \<Rightarrow> jxta_vector \<Rightarrow> jxta_vector \<Rightarrow> (status \<times> heap \<times> jxta_vector) option" where
  "jxta_vector_addall_objects_first mem h same v obs = addall_objects_at mem h same v obs 0 0 (vsize obs)"

definition jxta_vector_addall_objects_last ::
  "(nat \<Rightarrow> bool) \<Rightarrow> heap \<Rightarrow> bool \<Rightarrow> jxta_vector \<Rightarrow> jxta_vector \<Rightarrow> (status \<times> heap \<times> jxta_vector) option" where
  "jxta_vector_addall_objects_last mem h same v obs =
     addall_objects_at mem h same v obs (vsize v) 0 (vsize obs)"

definition jxta_vector_get_object_at ::
  "heap \<Rightarrow> jxta_vector \<Rightarrow> u32 \<Rightarrow> (status \<times> heap \<times> ptr option) option" where
  "jxta_vector_get_object_at h v at =
     (if at \<ge> vsize v \<or> vsize v = 0 then Some (JXTA_INVALID_ARGUMENT, h, None)
      else do { p \<leftarrow> mem_read (elements v) (unat at);
                Some (JXTA_SUCCESS, share p h, Some p) })"

text \<open>The loop of \<open>jxta_vector_remove_object\<close>; the fuel is the number of iterations left.\<close>

fun remove_object_loop :: "nat \<Rightarrow> heap \<Rightarrow> jxta_vector \<Rightarrow> ptr \<Rightarrow> u32 \<Rightarrow> nat \<Rightarrow> (nat \<times> heap \<times> jxta_vector) option" where
  "remove_object_loop 0 h v ob i num = (if i < vsize v then None else Some (num, h, v))"
| "remove_object_loop (Suc fuel) h v ob i num =
     (if i < vsize v then
        do { e \<leftarrow> mem_read (elements v) (unat i);
             if ob = e then
               do { v1 \<leftarrow> move_index_backward v i;
                    remove_object_loop fuel (release ob h) v1 ob i (num + 1) }
             else remove_object_loop fuel h v ob (i + 1) num }
      else Some (num, h, v))"

definition jxta_vector_remove_object :: "heap \<Rightarrow> jxta_vector \<Rightarrow> ptr \<Rightarrow> (nat \<times> heap \<times> jxta_vector) option" where
  "jxta_vector_remove_object h v ob = remove_object_loop (unat (vsize v)) h v ob 0 0"

text \<open>\<open>want\<close> says whether the caller passed a place for the removed object.\<close>

definition jxta_vector_remove_object_at ::
  "heap \<Rightarrow> jxta_vector \<Rightarrow> bool \<Rightarrow> u32 \<Rightarrow> (status \<times> heap \<times> jxta_vector \<times> ptr option) option" where
  "jxta_vector_remove_object_at h v want at =
     (if at \<ge> vsize v then Some (JXTA_INVALID_ARGUMENT, h, v, None)
      else do { p \<leftarrow> mem_read (elements v) (unat at);
                v1 \<leftarrow> move_index_backward v at;
                Some (if want then (JXTA_SUCCESS, h, v1, Some p)
                      else (JXTA_SUCCESS, release p h, v1, None)) })"

definition jxta_vector_size :: "jxta_vector \<Rightarrow> u32" where
  "jxta_vector_size v = vsize v"

definition jxta_vector_clone ::
  "(nat \<Rightarrow> bool) \<Rightarrow> heap \<Rightarrow> jxta_vector \<Rightarrow> u32 \<Rightarrow> u32 \<Rightarrow> (status \<times> heap \<times> jxta_vector option) option" where
  "jxta_vector_clone mem h source at len =
     (let len' = (if at + len > vsize source then vsize source - at else len) in
      if at > vsize source \<or> (at = vsize source \<and> len' \<noteq> 0) then Some (JXTA_INVALID_ARGUMENT, h, None)
      else do { (st, h1, d) \<leftarrow> addall_objects_at mem h False (jxta_vector_new mem len') source 0 at len';
                Some (st, h1, Some d) })"

definition jxta_vector_clear :: "heap \<Rightarrow> jxta_vector \<Rightarrow> (status \<times> heap \<times> jxta_vector) option" where
  "jxta_vector_clear h v =
     do { xs \<leftarrow> mem_load (elements v) 0 (unat (vsize v));
          Some (JXTA_SUCCESS, fold release xs h, v\<lparr>vsize := 0\<rparr>) }"

text \<open>The computed \<open>res\<close> of the next three operations is not what they return.\<close>

definition jxta_vector_swap_elements :: "jxta_vector \<Rightarrow> u32 \<Rightarrow> u32 \<Rightarrow> (status \<times> jxta_vector) option" where
  "jxta_vector_swap_elements v i j =
     (if i \<ge> vsize v \<or> j \<ge> vsize v then Some (JXTA_SUCCESS, v)
      else do { temp \<leftarrow> mem_read (elements v) (unat i);
                e \<leftarrow> mem_read (elements v) (unat j);
                xs \<leftarrow> mem_write (elements v) (unat i) e;
                ys \<leftarrow> mem_write xs (unat j) temp;
                Some (JXTA_SUCCESS, v\<lparr>elements := ys\<rparr>) })"

definition jxta_vector_move_element_first :: "jxta_vector \<Rightarrow> u32 \<Rightarrow> (status \<times> jxta_vector) option" where
  "jxta_vector_move_element_first v i =
     (if i \<ge> vsize v then Some (JXTA_SUCCESS, v)
      else if i > 0 then
        do { temp \<leftarrow> mem_read (elements v) (unat i);
             xs \<leftarrow> memmove (elements v) 1 0 (unat i);
             ys \<leftarrow> mem_write xs 0 temp;
             Some (JXTA_SUCCESS, v\<lparr>elements := ys\<rparr>) }
      else Some (JXTA_SUCCESS, v))"

definition jxta_vector_move_element_last :: "jxta_vector \<Rightarrow> u32 \<Rightarrow> (status \<times> jxta_vector) option" where
  "jxta_vector_move_element_last v i =
     (if i \<ge> vsize v then Some (JXTA_SUCCESS, v)
      else if i \<noteq> vsize v - 1 then
        do { temp \<leftarrow> mem_read (elements v) (unat i);
             xs \<leftarrow> memmove (elements v) (unat i) (unat (i + 1)) (unat (vsize v - i - 1));
             ys \<leftarrow> mem_write xs (unat (vsize v - 1)) temp;
             Some (JXTA_SUCCESS, v\<lparr>elements := ys\<rparr>) }
      else Some (JXTA_SUCCESS, v))"

definition address_equator :: "ptr \<Rightarrow> ptr \<Rightarrow> bool" where
  "address_equator a b \<longleftrightarrow> a = b"

text \<open>The search loop stops at the first hit, so later elements are not read.\<close>

fun contains_loop :: "(ptr \<Rightarrow> ptr \<Rightarrow> bool) \<Rightarrow> ptr list \<Rightarrow> ptr \<Rightarrow> nat \<Rightarrow> nat \<Rightarrow> bool option" where
  "contains_loop f xs ob i 0 = Some False"
| "contains_loop f xs ob i (Suc n) =
     do { e \<leftarrow> mem_read xs i;
          if f e ob then Some True else contains_loop f xs ob (Suc i) n }"

definition jxta_vector_contains :: "jxta_vector \<Rightarrow> ptr \<Rightarrow> (ptr \<Rightarrow> ptr \<Rightarrow> bool) option \<Rightarrow> bool option" where
  "jxta_vector_contains v ob func =
     contains_loop (case func of None \<Rightarrow> address_equator | Some f \<Rightarrow> f) (elements v) ob 0 (unat (vsize v))"

text \<open>
  The library's \<open>qsort\<close> is the parameter \<open>sorter\<close>, a function from the used part of the
  array to its reordering.
\<close>

definition jxta_vector_qsort :: "(ptr list \<Rightarrow> ptr list) \<Rightarrow> jxta_vector \<Rightarrow> (status \<times> jxta_vector) option" where
  "jxta_vector_qsort sorter v =
     do { xs \<leftarrow> mem_load (elements v) 0 (unat (vsize v));
          ys \<leftarrow> mem_store (elements v) 0 (sorter xs);
          Some (JXTA_SUCCESS, v\<lparr>elements := ys\<rparr>) }"

text \<open>
  The shuffle consumes the values of \<open>rand()\<close> in order; \<open>rmax\<close> is \<open>RAND_MAX\<close>.  The
  recursion counts the iterations still to come.
\<close>

fun shuffle_loop :: "nat \<Rightarrow> (nat \<Rightarrow> nat) \<Rightarrow> ptr list \<Rightarrow> nat \<Rightarrow> nat \<Rightarrow> nat \<Rightarrow> ptr list option" where
  "shuffle_loop rmax rnd xs sz each 0 = Some xs"
| "shuffle_loop rmax rnd xs sz each (Suc n) =
     (let swap = each + rnd each div (rmax div (sz - each) + 1) in
      do { temp \<leftarrow> mem_read xs swap;
           e \<leftarrow> mem_read xs each;
           ys \<leftarrow> mem_write xs swap e;
           zs \<leftarrow> mem_write ys each temp;
           shuffle_loop rmax rnd zs sz (Suc each) n })"

definition jxta_vector_shuffle :: "nat \<Rightarrow> (nat \<Rightarrow> nat) \<Rightarrow> jxta_vector \<Rightarrow> jxta_vector option" where
  "jxta_vector_shuffle rmax rnd v =
     (if vsize v > 1 then
        do { xs \<leftarrow> shuffle_loop rmax rnd (elements v) (unat (vsize v)) 0 (unat (vsize v) - 1);
             Some (v\<lparr>elements := xs\<rparr>) }
      else Some v)"

subsection \<open>The used part of the array and its invariant\<close>

definition vlist :: "jxta_vector \<Rightarrow> ptr list" where
  "vlist v = take (unat (vsize v)) (elements v)"

definition vector_ok :: "jxta_vector \<Rightarrow> bool" where
  "vector_ok v \<longleftrightarrow> length (elements v) = unat (vcapacity v) \<and> vsize v \<le> vcapacity v"

text \<open>The capacity after a reallocation that makes room for \<open>n\<close> more elements.\<close>

definition grown :: "jxta_vector \<Rightarrow> nat \<Rightarrow> nat" where
  "grown v n = unat (vcapacity v) + max 16 (unat (vsize v) + n - unat (vcapacity v))"

definition can_add :: "(nat \<Rightarrow> bool) \<Rightarrow> jxta_vector \<Rightarrow> nat \<Rightarrow> bool" where
  "can_add mem v n \<longleftrightarrow>
     unat (vsize v) + n \<le> unat (vcapacity v) \<or> (grown v n < 2 ^ 32 \<and> mem (grown v n))"

named_theorems vec_simps \<open>the vector operations through \<open>vlist\<close>\<close>

lemma length_vlist [vec_simps]: "vector_ok v \<Longrightarrow> length (vlist v) = unat (vsize v)"
  by (simp add: vlist_def vector_ok_def word_le_nat_alt)

lemma vlist_nth [vec_simps]: "i < unat (vsize v) \<Longrightarrow> vlist v ! i = elements v ! i"
  by (simp add: vlist_def)

lemma vector_ok_bounds:
  assumes "vector_ok v"
  shows "unat (vsize v) \<le> length (elements v)" "length (elements v) = unat (vcapacity v)"
  using assms by (simp_all add: vector_ok_def word_le_nat_alt)

lemma elements_split: "elements v = vlist v @ drop (unat (vsize v)) (elements v)"
  by (simp add: vlist_def)

lemma can_add_size: "can_add mem v n \<Longrightarrow> unat (vsize v) + n < 2 ^ 32"
  by (auto simp: can_add_def grown_def max_def intro: le_less_trans [OF _ unat_u32_less] split: if_splits)

lemma new_vector:
  assumes "mem (if n = 0 then 32 else unat n)"
  shows "vector_ok (jxta_vector_new mem n)" "vlist (jxta_vector_new mem n) = []"
    and "vsize (jxta_vector_new mem n) = 0"
    and "unat (vcapacity (jxta_vector_new mem n)) = (if n = 0 then 32 else unat n)"
  using assms by (auto simp: jxta_vector_new_def vector_ok_def vlist_def INDEX_DEFAULT_SIZE_def)

lemma ensure_capacity_ok:
  assumes ok: "vector_ok v" and room: "can_add mem v (unat n)"
  shows "\<exists>v'. ensure_capacity mem v (vsize v + n) = Some (JXTA_SUCCESS, v') \<and> vector_ok v' \<and>
           vsize v' = vsize v \<and> vlist v' = vlist v \<and>
           unat (vsize v) + unat n \<le> unat (vcapacity v') \<and>
           vcapacity v' \<le> vcapacity v' \<and>
           unat (vcapacity v') \<le> unat (vcapacity v) + max 16 (unat n)"
proof -
  have sum: "unat (vsize v + n) = unat (vsize v) + unat n"
    using can_add_size [OF room] by (simp add: unat_add_nowrap)
  show ?thesis
  proof (cases "vcapacity v < vsize v + n")
    case False
    with ok sum show ?thesis
      by (auto simp: ensure_capacity_def word_less_nat_alt)
  next
    case True
    define d where "d = (if vsize v + n - vcapacity v < 16 then 16 else vsize v + n - vcapacity v)"
    have less: "unat (vcapacity v) < unat (vsize v) + unat n"
      using True sum by (simp add: word_less_nat_alt)
    have diff: "unat (vsize v + n - vcapacity v) = unat (vsize v) + unat n - unat (vcapacity v)"
      using True sum by (simp add: unat_sub_nowrap)
    have d: "unat d = max 16 (unat (vsize v) + unat n - unat (vcapacity v))"
      using diff by (auto simp: d_def word_less_nat_alt max_def)
    have g: "grown v (unat n) < 2 ^ 32" "mem (grown v (unat n))"
      using room less by (auto simp: can_add_def)
    have cap: "unat (vcapacity v + d) = grown v (unat n)"
      using g d by (simp add: unat_add_nowrap grown_def)
    have nowrap: "\<not> vcapacity v + d < vcapacity v"
      using cap by (simp add: word_less_nat_alt grown_def)
    have load: "mem_load (elements v) 0 (unat (vsize v)) = Some (vlist v)"
      using vector_ok_bounds [OF ok] by (simp add: mem_simps vlist_def)
    have len: "length (vlist v) = unat (vsize v)"
      using ok by (rule length_vlist)
    have fits: "unat (vsize v) + unat n \<le> grown v (unat n)"
      using less by (auto simp: grown_def max_def)
    have le: "unat (vcapacity v) \<le> grown v (unat n)"
      by (simp add: grown_def)
    have sz: "unat (vsize v) \<le> unat (vcapacity v)"
      using vector_ok_bounds [OF ok] by simp
    have fits': "unat (vsize v) \<le> grown v (unat n)"
      using fits by simp
    have inc: "increase_capacity mem v d = Some (JXTA_SUCCESS,
        v\<lparr>vcapacity := vcapacity v + d,
          elements := vlist v @ drop (unat (vsize v)) (replicate (grown v (unat n)) NULL)\<rparr>)"
      using nowrap g load fits' len by (simp add: increase_capacity_def cap mem_simps)
    have "ensure_capacity mem v (vsize v + n) = increase_capacity mem v d"
      using True by (simp add: ensure_capacity_def INDEX_DEFAULT_INCREASE_def Let_def d_def)
    moreover have "grown v (unat n) \<le> unat (vcapacity v) + max 16 (unat n)"
      using sz by (auto simp: grown_def max_def)
    ultimately show ?thesis
      using inc fits fits' len cap
      by (simp add: vector_ok_def vlist_def word_le_nat_alt)
  qed
qed

lemma move_index_forward_ok:
  assumes ok: "vector_ok v" and room: "can_add mem v (unat n)" and at: "at \<le> vsize v"
  shows "\<exists>v'. move_index_forward mem v at n = Some (JXTA_SUCCESS, v') \<and> vector_ok v' \<and>
           unat (vsize v') = unat (vsize v) + unat n \<and>
           unat (vcapacity v') \<le> unat (vcapacity v) + max 16 (unat n) \<and>
           vlist v' = take (unat at) (vlist v) @ replicate (unat n) NULL @ drop (unat at) (vlist v)"
proof -
  obtain v1 where v1: "ensure_capacity mem v (vsize v + n) = Some (JXTA_SUCCESS, v1)"
      "vector_ok v1" "vsize v1 = vsize v" "vlist v1 = vlist v"
      "unat (vsize v) + unat n \<le> unat (vcapacity v1)"
      "unat (vcapacity v1) \<le> unat (vcapacity v) + max 16 (unat n)"
    using ensure_capacity_ok [OF ok room] by blast
  have sum: "unat (vsize v + n) = unat (vsize v) + unat n"
    using can_add_size [OF room] by (simp add: unat_add_nowrap)
  have atle: "unat at \<le> unat (vsize v)"
    using at by (simp add: word_le_nat_alt)
  have atsum: "unat (at + n) = unat at + unat n"
    using can_add_size [OF room] atle by (simp add: unat_add_nowrap)
  have len: "length (elements v1) = unat (vcapacity v1)"
    using v1(2) by (simp add: vector_ok_def)
  define xs where "xs = (if at < vsize v1
      then take (unat at + unat n) (elements v1) @ take (unat (vsize v) - unat at) (drop (unat at) (elements v1))
             @ drop (unat (vsize v) + unat n) (elements v1)
      else elements v1)"
  have moved: "(if at < vsize v1 then memmove (elements v1) (unat (at + n)) (unat at) (unat (vsize v1 - at))
                else Some (elements v1)) = Some xs"
    using atsum atle v1 len at
    by (auto simp: xs_def mem_simps unat_sub_nowrap word_less_nat_alt add.commute)
  have lenxs: "length xs = length (elements v1)"
    using len v1 atle by (auto simp: xs_def)
  have fill: "memset xs (unat at) NULL (unat n)
       = Some (take (unat at) xs @ replicate (unat n) NULL @ drop (unat at + unat n) xs)"
    using lenxs len v1(5) atle by (simp add: mem_simps)
  have view: "take (unat (vsize v) + unat n) (take (unat at) xs @ replicate (unat n) NULL @ drop (unat at + unat n) xs)
      = take (unat at) (vlist v) @ replicate (unat n) NULL @ drop (unat at) (vlist v)"
  proof (cases "at < vsize v1")
    case True
    have "vlist v = take (unat (vsize v)) (elements v1)"
      using v1(3,4) by (simp add: vlist_def)
    moreover have "take (unat at) xs = take (unat at) (elements v1)"
      using True atle len v1(5) by (simp add: xs_def min_absorb1 min_absorb2)
    moreover have "drop (unat at + unat n) xs =
        take (unat (vsize v) - unat at) (drop (unat at) (elements v1)) @ drop (unat (vsize v) + unat n) (elements v1)"
    proof -
      have b: "unat at + unat n \<le> length (elements v1)"
        "unat (vsize v) - unat at \<le> length (elements v1) - unat at"
        using atle len v1(5) by simp_all
      then show ?thesis
        using True by (simp add: xs_def min_absorb1 min_absorb2)
    qed
    ultimately show ?thesis
      using atle len v1(5) by (simp add: drop_take)
  next
    case False
    then have "unat at = unat (vsize v)"
      using atle v1(3) by (simp add: word_less_nat_alt)
    then show ?thesis
      using False len v1 vector_ok_bounds [OF ok] by (simp add: xs_def vlist_def min_absorb1)
  qed
  show ?thesis
    using v1 moved fill view sum lenxs len atle
    by (simp add: move_index_forward_def vlist_def vector_ok_def word_le_nat_alt)
qed

lemma move_index_backward_ok:
  assumes ok: "vector_ok v" and at: "at < vsize v"
  shows "\<exists>v'. move_index_backward v at = Some v' \<and> vector_ok v' \<and>
           unat (vsize v') = unat (vsize v) - 1 \<and> vcapacity v' = vcapacity v \<and>
           vlist v' = take (unat at) (vlist v) @ drop (Suc (unat at)) (vlist v)"
proof -
  have atl: "unat at < unat (vsize v)"
    using at by (simp add: word_less_nat_alt)
  have one: "(1::u32) \<le> vsize v"
    using atl by (simp add: word_le_nat_alt)
  have sz: "unat (vsize v - 1) = unat (vsize v) - 1"
    using one by (simp add: unat_sub_nowrap)
  have at1: "at < vsize v - 1 \<Longrightarrow> unat (at + 1) = Suc (unat at)"
    using le_less_trans [OF Suc_leI [OF atl] unat_u32_less] by (simp add: unat_add_nowrap)
  have cnt: "at < vsize v - 1 \<Longrightarrow> unat (vsize v - 1 - at) = unat (vsize v) - 1 - unat at"
    by (simp add: unat_sub_nowrap less_imp_le sz)
  have len: "unat (vsize v) \<le> length (elements v)" "length (elements v) = unat (vcapacity v)"
    using vector_ok_bounds [OF ok] by simp_all
  define xs where "xs = (if at < vsize v - 1
      then take (unat at) (elements v) @ take (unat (vsize v) - 1 - unat at) (drop (Suc (unat at)) (elements v))
             @ drop (unat (vsize v) - 1) (elements v)
      else elements v)"
  have moved: "(if at < vsize v - 1
      then memmove (elements v) (unat at) (unat (at + 1)) (unat (vsize v - 1 - at))
      else Some (elements v)) = Some xs"
    using at1 cnt sz atl len by (auto simp: xs_def mem_simps word_less_nat_alt)
  have lenxs: "length xs = length (elements v)"
    using sz atl len by (auto simp: xs_def word_less_nat_alt)
  have view: "take (unat (vsize v) - 1) xs = take (unat at) (vlist v) @ drop (Suc (unat at)) (vlist v)"
  proof (cases "at < vsize v - 1")
    case True
    then show ?thesis
      using sz atl len by (simp add: xs_def vlist_def word_less_nat_alt min_absorb1 min_absorb2 drop_take)
  next
    case False
    then have "unat at = unat (vsize v) - 1"
      using sz atl by (simp add: word_less_nat_alt)
    then show ?thesis
      using False atl len by (simp add: xs_def vlist_def min_absorb1)
  qed
  have wr: "mem_write xs (unat (vsize v - 1)) NULL = Some (xs[unat (vsize v) - 1 := NULL])"
    using sz lenxs len atl by (simp add: mem_simps)
  have "vsize v - 1 \<le> vcapacity v"
    using sz ok by (auto simp: vector_ok_def word_le_nat_alt)
  then show ?thesis
    using moved wr view sz lenxs len
    by (simp add: move_index_backward_def Let_def vector_ok_def vlist_def)
qed

subsection \<open>Behaviour of the operations\<close>

lemma add_object_at_ok:
  assumes ok: "vector_ok v" and room: "can_add mem v 1" and at: "at \<le> vsize v"
  shows "\<exists>v'. add_object_at mem h v ob at = Some (JXTA_SUCCESS, share ob h, v') \<and> vector_ok v' \<and>
           unat (vsize v') = Suc (unat (vsize v)) \<and>
           unat (vcapacity v') \<le> unat (vcapacity v) + 16 \<and>
           vlist v' = take (unat at) (vlist v) @ ob # drop (unat at) (vlist v)"
proof -
  obtain v1 where v1: "move_index_forward mem v at 1 = Some (JXTA_SUCCESS, v1)" "vector_ok v1"
      "unat (vsize v1) = unat (vsize v) + 1" "unat (vcapacity v1) \<le> unat (vcapacity v) + 16"
      "vlist v1 = take (unat at) (vlist v) @ replicate 1 NULL @ drop (unat at) (vlist v)"
    using move_index_forward_ok [OF ok, of mem 1 at] room at by (auto simp: max_def)
  have atle: "unat at \<le> unat (vsize v)"
    using at by (simp add: word_le_nat_alt)
  have lt: "unat at < length (elements v1)"
    using vector_ok_bounds [OF v1(2)] v1(3) atle by simp
  have len: "length (vlist v) = unat (vsize v)"
    using ok by (rule length_vlist)
  have "take (unat (vsize v1)) ((elements v1)[unat at := ob]) = (vlist v1)[unat at := ob]"
    by (simp add: vlist_def take_update_swap)
  also have "\<dots> = take (unat at) (vlist v) @ ob # drop (unat at) (vlist v)"
    using len atle by (simp add: v1(5) list_update_append)
  finally show ?thesis
    using v1 lt vector_ok_bounds [OF v1(2)]
    by (simp add: add_object_at_def mem_simps share_eq vlist_def vector_ok_def split_beta)
qed

lemma get_object_at_ok:
  assumes "vector_ok v"
  shows "jxta_vector_get_object_at h v at =
     (if unat at < length (vlist v) then Some (JXTA_SUCCESS, share (vlist v ! unat at) h, Some (vlist v ! unat at))
      else Some (JXTA_INVALID_ARGUMENT, h, None))"
  using assms vector_ok_bounds [OF assms]
  by (auto simp: jxta_vector_get_object_at_def length_vlist vlist_nth mem_simps word_le_nat_alt not_le)

lemma remove_object_at_ok:
  assumes ok: "vector_ok v" and at: "at < vsize v"
  shows "\<exists>v'. jxta_vector_remove_object_at h v want at =
           Some (JXTA_SUCCESS, if want then h else release (vlist v ! unat at) h, v',
                 if want then Some (vlist v ! unat at) else None) \<and>
           vector_ok v' \<and> vcapacity v' = vcapacity v \<and>
           vlist v' = take (unat at) (vlist v) @ drop (Suc (unat at)) (vlist v)"
proof -
  have "unat at < unat (vsize v)"
    using at by (simp add: word_less_nat_alt)
  then show ?thesis
    using move_index_backward_ok [OF ok at] at vector_ok_bounds [OF ok]
    by (auto simp: jxta_vector_remove_object_at_def mem_simps vlist_nth)
qed

lemma remove_object_loop_ok:
  assumes "vector_ok v" "unat i \<le> unat (vsize v)" "unat (vsize v) - unat i \<le> fuel"
  shows "\<exists>v'. remove_object_loop fuel h v ob i num =
           Some (num + count_list (drop (unat i) (vlist v)) ob,
                 (release ob ^^ count_list (drop (unat i) (vlist v)) ob) h, v') \<and>
           vector_ok v' \<and> vcapacity v' = vcapacity v \<and>
           vlist v' = take (unat i) (vlist v) @ filter (\<lambda>x. x \<noteq> ob) (drop (unat i) (vlist v))"
  using assms
proof (induction fuel arbitrary: h v i num)
  case 0
  then show ?case by (simp add: word_less_nat_alt length_vlist)
next
  case (Suc fuel)
  show ?case
  proof (cases "i < vsize v")
    case False
    with Suc.prems show ?thesis by (simp add: word_less_nat_alt length_vlist)
  next
    case True
    have il: "unat i < unat (vsize v)" "unat i < length (vlist v)" "unat i < length (elements v)"
      using True Suc.prems(1) vector_ok_bounds [OF Suc.prems(1)]
      by (simp_all add: word_less_nat_alt length_vlist)
    have dr: "drop (unat i) (vlist v) = vlist v ! unat i # drop (Suc (unat i)) (vlist v)"
      using il by (simp add: Cons_nth_drop_Suc)
    have inc: "unat (i + 1) = Suc (unat i)"
      using le_less_trans [OF Suc_leI [OF il(1)] unat_u32_less] by (simp add: unat_add_nowrap)
    show ?thesis
    proof (cases "ob = vlist v ! unat i")
      case hit: True
      obtain v1 where v1: "move_index_backward v i = Some v1" "vector_ok v1"
          "unat (vsize v1) = unat (vsize v) - 1" "vcapacity v1 = vcapacity v"
          "vlist v1 = take (unat i) (vlist v) @ drop (Suc (unat i)) (vlist v)"
        using move_index_backward_ok [OF Suc.prems(1) True] by blast
      have "drop (unat i) (vlist v1) = drop (Suc (unat i)) (vlist v)"
           "take (unat i) (vlist v1) = take (unat i) (vlist v)"
        using il v1(5) by simp_all
      moreover have "unat i \<le> unat (vsize v1)" "unat (vsize v1) - unat i \<le> fuel"
        using v1(3) il(1) Suc.prems(3) by linarith+
      ultimately show ?thesis
        using Suc.IH [OF v1(2), of i "release ob h" "num + 1"] v1 True hit il dr
        by (simp add: mem_simps vlist_nth funpow_swap1)
    next
      case miss: False
      have "take (Suc (unat i)) (vlist v) = take (unat i) (vlist v) @ [vlist v ! unat i]"
        using il by (simp add: take_Suc_conv_app_nth)
      moreover have "unat (i + 1) \<le> unat (vsize v)" "unat (vsize v) - unat (i + 1) \<le> fuel"
        using inc il(1) Suc.prems(3) by linarith+
      ultimately show ?thesis
        using Suc.IH [OF Suc.prems(1), of "i + 1" h num] inc True miss il dr
        by (simp add: mem_simps vlist_nth)
    qed
  qed
qed

lemma remove_object_ok:
  assumes "vector_ok v"
  shows "\<exists>v'. jxta_vector_remove_object h v ob =
           Some (count_list (vlist v) ob, (release ob ^^ count_list (vlist v) ob) h, v') \<and>
           vector_ok v' \<and> vcapacity v' = vcapacity v \<and> vlist v' = filter (\<lambda>x. x \<noteq> ob) (vlist v)"
  using remove_object_loop_ok [OF assms, of 0 "unat (vsize v)" h ob 0]
  by (simp add: jxta_vector_remove_object_def)

lemma clear_ok:
  assumes "vector_ok v"
  shows "\<exists>v'. jxta_vector_clear h v = Some (JXTA_SUCCESS, fold release (vlist v) h, v') \<and>
           vector_ok v' \<and> vcapacity v' = vcapacity v \<and> vlist v' = []"
  using vector_ok_bounds [OF assms] assms
  by (simp add: jxta_vector_clear_def mem_simps vlist_def vector_ok_def)

lemma view_elements:
  assumes "vector_ok v" "length xs = length (elements v)"
  shows "vector_ok (v\<lparr>elements := xs\<rparr>)" "vlist (v\<lparr>elements := xs\<rparr>) = take (unat (vsize v)) xs"
  using assms by (simp_all add: vector_ok_def vlist_def)

lemma swap_elements_ok:
  assumes ok: "vector_ok v"
  shows "\<exists>v'. jxta_vector_swap_elements v i j = Some (JXTA_SUCCESS, v') \<and> vector_ok v' \<and>
           vcapacity v' = vcapacity v \<and>
           vlist v' = (if unat i < length (vlist v) \<and> unat j < length (vlist v)
             then (vlist v)[unat i := vlist v ! unat j, unat j := vlist v ! unat i] else vlist v)"
proof (cases "i < vsize v \<and> j < vsize v")
  case True
  then have l: "unat i < unat (vsize v)" "unat j < unat (vsize v)"
    by (simp_all add: word_less_nat_alt)
  then show ?thesis
    using True True [THEN conjunct1, THEN not_le [THEN iffD2]] True [THEN conjunct2, THEN not_le [THEN iffD2]] vector_ok_bounds [OF ok] ok
    by (simp add: jxta_vector_swap_elements_def mem_simps view_elements length_vlist vlist_nth)
       (simp add: vlist_def take_update_swap)
next
  case False
  with ok show ?thesis
    by (auto simp: jxta_vector_swap_elements_def not_less length_vlist word_le_nat_alt)
qed

lemma move_element_first_ok:
  assumes ok: "vector_ok v"
  shows "\<exists>v'. jxta_vector_move_element_first v i = Some (JXTA_SUCCESS, v') \<and> vector_ok v' \<and>
           vcapacity v' = vcapacity v \<and>
           vlist v' = (if unat i < length (vlist v)
             then vlist v ! unat i # take (unat i) (vlist v) @ drop (Suc (unat i)) (vlist v) else vlist v)"
proof (cases "i < vsize v \<and> i > 0")
  case True
  then have l: "unat i < unat (vsize v)" "0 < unat i"
    by (simp_all add: word_less_nat_alt)
  let ?xs = "elements v ! unat i # take (unat i) (elements v) @ drop (Suc (unat i)) (elements v)"
  have len: "unat (vsize v) \<le> length (elements v)"
    using vector_ok_bounds [OF ok] by simp
  have "take 1 (elements v) @ take (unat i) (elements v) @ drop (Suc (unat i)) (elements v) \<noteq> []"
    using l len by auto
  then have wr: "mem_write (take 1 (elements v) @ take (unat i) (elements v) @ drop (Suc (unat i)) (elements v)) 0
      (elements v ! unat i) = Some ?xs"
    using l len by (cases "elements v") (simp_all add: mem_simps)
  have "take (unat (vsize v)) ?xs = vlist v ! unat i # take (unat i) (vlist v) @ drop (Suc (unat i)) (vlist v)"
    using l len by (simp add: vlist_def take_Cons' min_absorb1 drop_take)
  then show ?thesis
    using True True [THEN conjunct1, THEN not_le [THEN iffD2]] wr l len ok
    by (simp add: jxta_vector_move_element_first_def mem_simps view_elements length_vlist)
next
  case False
  then consider "vsize v \<le> i" | "i < vsize v" "\<not> i > 0"
    using not_less by blast
  then show ?thesis
  proof cases
    case 1
    with ok show ?thesis
      by (simp add: jxta_vector_move_element_first_def length_vlist word_le_nat_alt)
  next
    case 2
    then have "unat i = 0"
      by (simp add: word_gt_0)
    moreover have "jxta_vector_move_element_first v i = Some (JXTA_SUCCESS, v)"
      using 2 by (simp add: jxta_vector_move_element_first_def)
    ultimately show ?thesis
      using ok by (cases "vlist v") simp_all
  qed
qed

lemma move_element_last_ok:
  assumes ok: "vector_ok v"
  shows "\<exists>v'. jxta_vector_move_element_last v i = Some (JXTA_SUCCESS, v') \<and> vector_ok v' \<and>
           vcapacity v' = vcapacity v \<and>
           vlist v' = (if unat i < length (vlist v)
             then take (unat i) (vlist v) @ drop (Suc (unat i)) (vlist v) @ [vlist v ! unat i] else vlist v)"
proof (cases "i < vsize v")
  case False
  with ok show ?thesis
    by (simp add: jxta_vector_move_element_last_def length_vlist word_le_nat_alt not_less)
next
  case lt: True
  then have il: "unat i < unat (vsize v)"
    by (simp add: word_less_nat_alt)
  have one: "(1::u32) \<le> vsize v"
    using il by (simp add: word_le_nat_alt)
  have last: "unat (vsize v - 1) = unat (vsize v) - 1"
    using one by (simp add: unat_sub_nowrap)
  have len: "unat (vsize v) \<le> length (elements v)"
    using vector_ok_bounds [OF ok] by simp
  show ?thesis
  proof (cases "i = vsize v - 1")
    case True
    then have "unat i = unat (vsize v) - 1"
      using last by simp
    then have "vlist v = take (unat i) (vlist v) @ drop (Suc (unat i)) (vlist v) @ [vlist v ! unat i]"
      using ok il by (simp add: length_vlist id_take_nth_drop [of "unat i" "vlist v", symmetric]
          take_Suc_conv_app_nth [symmetric])
    with True ok il show ?thesis
      by (simp add: jxta_vector_move_element_last_def length_vlist)
  next
    case False
    have i1: "unat (i + 1) = Suc (unat i)"
      using le_less_trans [OF Suc_leI [OF il] unat_u32_less] by (simp add: unat_add_nowrap)
    have ne: "unat i \<noteq> unat (vsize v) - 1"
      using False last by (metis word_unat_eq_iff)
    have "i \<le> vsize v" "1 \<le> vsize v - i"
      using il by (simp_all add: word_le_nat_alt unat_sub_nowrap)
    then have cnt: "unat (vsize v - i - 1) = unat (vsize v) - Suc (unat i)"
      by (simp add: unat_sub_nowrap)
    define ys where "ys = take (unat i) (elements v) @
        take (unat (vsize v) - Suc (unat i)) (drop (Suc (unat i)) (elements v)) @
        drop (unat (vsize v) - 1) (elements v)"
    have mv: "memmove (elements v) (unat i) (unat (i + 1)) (unat (vsize v - i - 1)) = Some ys"
      using i1 cnt il len by (simp add: mem_simps ys_def)
    have lys: "length ys = length (elements v)"
      using il len by (auto simp: ys_def)
    have wr: "mem_write ys (unat (vsize v - 1)) (elements v ! unat i)
        = Some (ys[unat (vsize v) - 1 := elements v ! unat i])"
      using lys last il len by (simp add: mem_simps)
    have "take (unat (vsize v)) (ys[unat (vsize v) - 1 := elements v ! unat i])
        = take (unat (vsize v) - 1) ys @ [elements v ! unat i]"
      using il len lys take_Suc_conv_app_nth [of "unat (vsize v) - 1" "ys[unat (vsize v) - 1 := elements v ! unat i]"]
      by simp
    also have "take (unat (vsize v) - 1) ys = take (unat i) (vlist v) @ drop (Suc (unat i)) (vlist v)"
      using il len by (simp add: ys_def vlist_def min_absorb1 drop_take)
    finally show ?thesis
      using lt False mv wr lys ok il len
      by (simp add: jxta_vector_move_element_last_def mem_simps not_le [THEN iffD2] view_elements
          length_vlist vlist_nth)
  qed
qed

lemma addall_loop_ok:
  "from + n \<le> length src \<Longrightarrow> at + n \<le> length xs \<Longrightarrow>
   addall_loop h xs src at from n =
     Some (fold share (take n (drop from src)) h,
           take at xs @ take n (drop from src) @ drop (at + n) xs)"
proof (induction n arbitrary: h xs at "from")
  case 0
  then show ?case by simp
next
  case (Suc n)
  have "take (Suc n) (drop from src) = src ! from # take n (drop (Suc from) src)"
    using Suc.prems by (simp add: take_Suc_conv_app_nth Cons_nth_drop_Suc [symmetric])
  moreover have "take (Suc at) (xs[at := src ! from]) = take at xs @ [src ! from]"
    using Suc.prems by (simp add: take_Suc_conv_app_nth)
  ultimately show ?case
    using Suc.IH [of "Suc from" "Suc at" "xs[at := src ! from]" "share (src ! from) h"] Suc.prems
    by (simp add: mem_simps share_eq)
qed

lemma addall_objects_at_ok:
  assumes ok: "vector_ok v" and room: "can_add mem v (unat cnt)" and at: "at \<le> vsize v"
    and src: "unat from + unat cnt \<le> length (elements obs)"
  shows "\<exists>v'. addall_objects_at mem h False v obs at from cnt =
           Some (JXTA_SUCCESS, fold share (take (unat cnt) (drop (unat from) (elements obs))) h, v') \<and>
           vector_ok v' \<and>
           vlist v' = take (unat at) (vlist v) @ take (unat cnt) (drop (unat from) (elements obs)) @
                      drop (unat at) (vlist v)"
proof -
  let ?new = "take (unat cnt) (drop (unat from) (elements obs))"
  obtain v1 where v1: "move_index_forward mem v at cnt = Some (JXTA_SUCCESS, v1)" "vector_ok v1"
      "unat (vsize v1) = unat (vsize v) + unat cnt"
      "vlist v1 = take (unat at) (vlist v) @ replicate (unat cnt) NULL @ drop (unat at) (vlist v)"
    using move_index_forward_ok [OF ok room at] by blast
  have atle: "unat at \<le> unat (vsize v)"
    using at by (simp add: word_le_nat_alt)
  have lens: "length (vlist v) = unat (vsize v)" "unat (vsize v1) \<le> length (elements v1)"
    "length ?new = unat cnt"
    using ok src vector_ok_bounds [OF v1(2)] by (simp_all add: length_vlist)
  let ?xs = "take (unat at) (elements v1) @ ?new @ drop (unat at + unat cnt) (elements v1)"
  have loop: "addall_loop h (elements v1) (elements obs) (unat at) (unat from) (unat cnt) = Some (fold share ?new h, ?xs)"
    using src lens v1(3) atle by (simp add: addall_loop_ok)
  have "take (unat (vsize v1)) ?xs = take (unat at) (vlist v1) @ ?new @ drop (unat at + unat cnt) (vlist v1)"
    using lens v1(3) atle by (simp add: vlist_def min_absorb1 drop_take)
  also have "\<dots> = take (unat at) (vlist v) @ ?new @ drop (unat at) (vlist v)"
    using lens v1(4) atle by simp
  finally have "vlist (v1\<lparr>elements := ?xs\<rparr>) = take (unat at) (vlist v) @ ?new @ drop (unat at) (vlist v)"
    by (simp add: vlist_def)
  moreover have "vector_ok (v1\<lparr>elements := ?xs\<rparr>)"
    using v1(2,3) lens atle by (intro view_elements) auto
  ultimately show ?thesis
    using v1(1) loop by (simp add: addall_objects_at_def)
qed

lemma contains_loop_ok:
  "i + n \<le> length xs \<Longrightarrow> contains_loop f xs ob i n = Some (\<exists>e \<in> set (take n (drop i xs)). f e ob)"
proof (induction n arbitrary: i)
  case (Suc n)
  then have "take (Suc n) (drop i xs) = xs ! i # take n (drop (Suc i) xs)"
    by (simp add: Cons_nth_drop_Suc [symmetric])
  with Suc show ?case by (simp add: mem_simps)
qed simp

subsection \<open>The interface a client relies on: appending to a sequence\<close>

text \<open>Appends the objects of a list one after the other, stopping at the first failure.\<close>

fun add_each ::
  "(heap \<Rightarrow> 's \<Rightarrow> ptr \<Rightarrow> (status \<times> heap \<times> 's) option) \<Rightarrow> ptr list \<Rightarrow> heap \<Rightarrow> 's \<Rightarrow> (heap \<times> 's) option" where
  "add_each add [] h s = Some (h, s)"
| "add_each add (p # ps) h s = do { (_, h1, s1) \<leftarrow> add h s p; add_each add ps h1 s1 }"

locale object_sequence =
  fixes seq_list :: "'s \<Rightarrow> ptr list"
    and seq_ok :: "'s \<Rightarrow> bool"
    and spare :: "'s \<Rightarrow> nat"
    and add_last :: "heap \<Rightarrow> 's \<Rightarrow> ptr \<Rightarrow> (status \<times> heap \<times> 's) option"
  assumes add_last_law:
    "seq_ok s \<Longrightarrow> 0 < spare s \<Longrightarrow>
     \<exists>s'. add_last h s p = Some (JXTA_SUCCESS, share p h, s') \<and> seq_ok s' \<and>
          seq_list s' = seq_list s @ [p] \<and> spare s' = spare s - 1"
begin

lemma add_each_ok:
  "seq_ok s \<Longrightarrow> length ps \<le> spare s \<Longrightarrow>
   \<exists>s'. add_each add_last ps h s = Some (fold share ps h, s') \<and> seq_ok s' \<and>
        seq_list s' = seq_list s @ ps"
proof (induction ps arbitrary: h s)
  case Nil
  then show ?case by simp
next
  case (Cons p ps)
  then obtain s1 where "add_last h s p = Some (JXTA_SUCCESS, share p h, s1)" "seq_ok s1"
      "seq_list s1 = seq_list s @ [p]" "spare s1 = spare s - 1"
    using add_last_law [of s h p] by fastforce
  with Cons.IH [of s1 "share p h"] Cons.prems show ?case by simp
qed

end

definition vspare :: "jxta_vector \<Rightarrow> nat" where
  "vspare v = unat (vcapacity v) - unat (vsize v)"

lemma add_object_last_spare:
  assumes ok: "vector_ok v" and sp: "0 < vspare v"
  shows "\<exists>v'. jxta_vector_add_object_last mem h v ob = Some (JXTA_SUCCESS, share ob h, v') \<and>
           vector_ok v' \<and> vlist v' = vlist v @ [ob] \<and> vspare v' = vspare v - 1"
proof -
  have room: "unat (vsize v) + unat (1::u32) \<le> unat (vcapacity v)"
    using sp by (simp add: vspare_def)
  then have same: "ensure_capacity mem v (vsize v + 1) = Some (JXTA_SUCCESS, v)"
    using le_less_trans [OF room unat_u32_less]
    by (simp add: ensure_capacity_def word_less_nat_alt unat_add_nowrap not_less)
  have lt: "unat (vsize v) < length (elements v)"
    using room vector_ok_bounds [OF ok] by simp
  have sz: "unat (vsize v + 1) = Suc (unat (vsize v))"
    using le_less_trans [OF room unat_u32_less] by (simp add: unat_add_nowrap)
  show ?thesis
    using same lt sz vector_ok_bounds [OF ok]
    by (simp add: jxta_vector_add_object_last_def add_object_at_def move_index_forward_def mem_simps
        share_eq vlist_def vector_ok_def vspare_def word_le_nat_alt take_Suc_conv_app_nth nth_append)
qed

interpretation vec: object_sequence vlist vector_ok vspare "jxta_vector_add_object_last mem"
  by unfold_locales (rule add_object_last_spare)

subsection \<open>Runs of operations\<close>

datatype vop =
    AddAt u32 ptr
  | AddFirst ptr
  | AddLast ptr
  | RemoveAt u32
  | RemoveObject ptr
  | ClearAll
  | Swap u32 u32
  | MoveFirst u32
  | MoveLast u32

datatype vres = Status status | Count nat

fun vstep :: "vop \<Rightarrow> heap \<Rightarrow> jxta_vector \<Rightarrow> (vres \<times> heap \<times> jxta_vector) option" where
  "vstep (AddAt i p) h v =
     map_option (apfst Status) (jxta_vector_add_object_at (\<lambda>_. True) h v p i)"
| "vstep (AddFirst p) h v =
     map_option (apfst Status) (jxta_vector_add_object_first (\<lambda>_. True) h v p)"
| "vstep (AddLast p) h v =
     map_option (apfst Status) (jxta_vector_add_object_last (\<lambda>_. True) h v p)"
| "vstep (RemoveAt i) h v =
     map_option (\<lambda>(st, h1, v1, _). (Status st, h1, v1)) (jxta_vector_remove_object_at h v False i)"
| "vstep (RemoveObject p) h v = map_option (apfst Count) (jxta_vector_remove_object h v p)"
| "vstep ClearAll h v = map_option (apfst Status) (jxta_vector_clear h v)"
| "vstep (Swap i j) h v =
     map_option (\<lambda>(st, v1). (Status st, h, v1)) (jxta_vector_swap_elements v i j)"
| "vstep (MoveFirst i) h v =
     map_option (\<lambda>(st, v1). (Status st, h, v1)) (jxta_vector_move_element_first v i)"
| "vstep (MoveLast i) h v =
     map_option (\<lambda>(st, v1). (Status st, h, v1)) (jxta_vector_move_element_last v i)"

text \<open>The same operations on lists: what the interface promises.\<close>

fun lstep :: "vop \<Rightarrow> ptr list \<Rightarrow> vres \<times> ptr list" where
  "lstep (AddAt i p) xs =
     (if length xs < unat i then (Status JXTA_INVALID_ARGUMENT, xs)
      else (Status JXTA_SUCCESS, take (unat i) xs @ p # drop (unat i) xs))"
| "lstep (AddFirst p) xs = (Status JXTA_SUCCESS, p # xs)"
| "lstep (AddLast p) xs = (Status JXTA_SUCCESS, xs @ [p])"
| "lstep (RemoveAt i) xs =
     (if length xs \<le> unat i then (Status JXTA_INVALID_ARGUMENT, xs)
      else (Status JXTA_SUCCESS, take (unat i) xs @ drop (Suc (unat i)) xs))"
| "lstep (RemoveObject p) xs = (Count (count_list xs p), filter (\<lambda>x. x \<noteq> p) xs)"
| "lstep ClearAll xs = (Status JXTA_SUCCESS, [])"
| "lstep (Swap i j) xs =
     (Status JXTA_SUCCESS,
      if unat i < length xs \<and> unat j < length xs
      then xs[unat i := xs ! unat j, unat j := xs ! unat i] else xs)"
| "lstep (MoveFirst i) xs =
     (Status JXTA_SUCCESS,
      if unat i < length xs then xs ! unat i # take (unat i) xs @ drop (Suc (unat i)) xs else xs)"
| "lstep (MoveLast i) xs =
     (Status JXTA_SUCCESS,
      if unat i < length xs then take (unat i) xs @ drop (Suc (unat i)) xs @ [xs ! unat i] else xs)"

fun vrun :: "vop list \<Rightarrow> heap \<Rightarrow> jxta_vector \<Rightarrow> (vres list \<times> heap \<times> jxta_vector) option" where
  "vrun [] h v = Some ([], h, v)"
| "vrun (x # ops) h v =
     do { (r, h1, v1) \<leftarrow> vstep x h v; (rs, h2, v2) \<leftarrow> vrun ops h1 v1; Some (r # rs, h2, v2) }"

fun lrun :: "vop list \<Rightarrow> ptr list \<Rightarrow> vres list \<times> ptr list" where
  "lrun [] xs = ([], xs)"
| "lrun (x # ops) xs = (let (r, ys) = lstep x xs; (rs, zs) = lrun ops ys in (r # rs, zs))"

text \<open>References to an object beyond those the vector holds.\<close>

definition surplus :: "heap \<Rightarrow> ptr list \<Rightarrow> ptr \<Rightarrow> int" where
  "surplus h xs q = refCount (objs h q) - int (count_list xs q)"

definition tracked :: "heap \<Rightarrow> ptr list \<Rightarrow> ptr \<Rightarrow> bool" where
  "tracked h xs q \<longleftrightarrow> is_mutable h q \<and> jxta_object_check_initialized h q \<and> 0 < surplus h xs q"

text \<open>The heap after an operation: the references it takes, then the ones it drops.\<close>

fun refs_in :: "vop \<Rightarrow> ptr list \<Rightarrow> ptr list" where
  "refs_in (AddAt i p) xs = (if length xs < unat i then [] else [p])"
| "refs_in (AddFirst p) xs = [p]"
| "refs_in (AddLast p) xs = [p]"
| "refs_in _ xs = []"

fun refs_out :: "vop \<Rightarrow> ptr list \<Rightarrow> ptr list" where
  "refs_out (RemoveAt i) xs = (if length xs \<le> unat i then [] else [xs ! unat i])"
| "refs_out (RemoveObject p) xs = replicate (count_list xs p) p"
| "refs_out ClearAll xs = xs"
| "refs_out _ xs = []"

lemma fold_replicate_funpow: "fold f (replicate n x) = f x ^^ n"
  by (induction n) (simp_all add: funpow_swap1 fun_eq_iff)

lemma count_list_filter_neq: "count_list (filter (\<lambda>x. x \<noteq> p) xs) q = (if p = q then 0 else count_list xs q)"
  by (induction xs) auto

lemma count_lstep:
  "count_list (snd (lstep x xs)) q + count_list (refs_out x xs) q
     = count_list xs q + count_list (refs_in x xs) q"
proof (cases x)
  case (AddAt i p)
  show ?thesis
  proof (cases "length xs < unat i")
    case False
    then obtain t d where "xs = t @ d" "length t = unat i"
      by (metis append_take_drop_id length_take min.absorb2 not_less)
    with AddAt show ?thesis by (simp add: count_list_append)
  next
    case True
    with AddAt show ?thesis by simp
  qed
next
  case (RemoveAt i)
  show ?thesis
  proof (cases "unat i < length xs")
    case True
    then obtain t e d where "xs = t @ e # d" "length t = unat i"
      using id_take_nth_drop [OF True] by (metis length_take min.absorb2 less_imp_le)
    with RemoveAt show ?thesis by (simp add: count_list_append nth_append)
  next
    case False
    with RemoveAt show ?thesis by simp
  qed
next
  case (RemoveObject p)
  then show ?thesis
    by (induction xs) (auto simp: count_list_filter_neq)
next
  case (Swap i j)
  then show ?thesis
    using mset_swap_nth [of "unat i" xs "unat j"] by (simp add: count_list_mset)
next
  case (MoveFirst i)
  show ?thesis
  proof (cases "unat i < length xs")
    case True
    then obtain t e d where "xs = t @ e # d" "length t = unat i"
      using id_take_nth_drop [OF True] by (metis length_take min.absorb2 less_imp_le)
    with MoveFirst show ?thesis by (simp add: count_list_append nth_append)
  next
    case False
    with MoveFirst show ?thesis by simp
  qed
next
  case (MoveLast i)
  show ?thesis
  proof (cases "unat i < length xs")
    case True
    then obtain t e d where "xs = t @ e # d" "length t = unat i"
      using id_take_nth_drop [OF True] by (metis length_take min.absorb2 less_imp_le)
    with MoveLast show ?thesis by (simp add: count_list_append nth_append)
  next
    case False
    with MoveLast show ?thesis by simp
  qed
qed (simp_all add: count_list_append)

lemma vstep_ok:
  assumes ok: "vector_ok v" and cap: "unat (vcapacity v) + 16 < 2 ^ 32"
  shows "\<exists>v'. vstep x h v = Some (fst (lstep x (vlist v)),
             fold release (refs_out x (vlist v)) (fold share (refs_in x (vlist v)) h), v') \<and>
           vector_ok v' \<and> vlist v' = snd (lstep x (vlist v)) \<and>
           unat (vcapacity v') \<le> unat (vcapacity v) + 16"
proof -
  have "unat (vsize v) \<le> unat (vcapacity v)"
    using vector_ok_bounds [OF ok] by simp
  then have room: "can_add (\<lambda>_. True) v 1"
    using cap by (auto simp: can_add_def grown_def)
  have len: "length (vlist v) = unat (vsize v)"
    using ok by (rule length_vlist)
  have add: "\<exists>v'. add_object_at (\<lambda>_. True) h v p i = Some (JXTA_SUCCESS, share p h, v') \<and> vector_ok v' \<and>
      unat (vcapacity v') \<le> unat (vcapacity v) + 16 \<and>
      vlist v' = take (unat i) (vlist v) @ p # drop (unat i) (vlist v)" if "i \<le> vsize v" for p i
    using add_object_at_ok [OF ok room that] by fastforce
  show ?thesis
  proof (cases x)
    case (AddAt i p)
    with add [of i p] ok len show ?thesis
      by (auto simp: jxta_vector_add_object_at_def word_less_nat_alt word_le_nat_alt not_less)
  next
    case (AddFirst p)
    with add [of 0 p] show ?thesis
      by (auto simp: jxta_vector_add_object_first_def)
  next
    case (AddLast p)
    with add [of "vsize v" p] len show ?thesis
      by (auto simp: jxta_vector_add_object_last_def)
  next
    case (RemoveAt i)
    show ?thesis
    proof (cases "i < vsize v")
      case True
      with RemoveAt remove_object_at_ok [OF ok True, of h False] len show ?thesis
        by (auto simp: word_less_nat_alt)
    next
      case False
      with RemoveAt ok len show ?thesis
        by (auto simp: jxta_vector_remove_object_at_def not_less word_le_nat_alt)
    qed
  next
    case (RemoveObject p)
    with remove_object_ok [OF ok, of h p] show ?thesis
      by (auto simp: fold_replicate_funpow)
  next
    case ClearAll
    with clear_ok [OF ok, of h] show ?thesis by auto
  next
    case (Swap i j)
    with swap_elements_ok [OF ok, of i j] show ?thesis by auto
  next
    case (MoveFirst i)
    with move_element_first_ok [OF ok, of i] show ?thesis by auto
  next
    case (MoveLast i)
    with move_element_last_ok [OF ok, of i] show ?thesis by auto
  qed
qed

lemma surplus_step:
  fixes x :: vop
  assumes t: "tracked h xs q"
  defines "h' \<equiv> fold release (refs_out x xs) (fold share (refs_in x xs) h)"
  shows "surplus h' (snd (lstep x xs)) q = surplus h xs q" "tracked h' (snd (lstep x xs)) q"
proof -
  let ?h1 = "fold share (refs_in x xs) h"
  have m: "is_mutable ?h1 q" "jxta_object_check_initialized ?h1 q"
    using t by (simp_all add: tracked_def heap_simps)
  have c1: "refCount (objs ?h1 q) = refCount (objs h q) + int (count_list (refs_in x xs) q)"
    using t by (simp add: share_all_refCount tracked_def)
  have c2: "refCount (objs h' q) = refCount (objs ?h1 q) - int (count_list (refs_out x xs) q)"
    using m by (simp add: h'_def release_all_refCount)
  have cnt: "int (count_list (snd (lstep x xs)) q) + int (count_list (refs_out x xs) q)
      = int (count_list xs q) + int (count_list (refs_in x xs) q)"
    using count_lstep [of x xs q] by simp
  show s: "surplus h' (snd (lstep x xs)) q = surplus h xs q"
    using c1 c2 cnt by (simp add: surplus_def)
  have "int (count_list (refs_out x xs) q) < refCount (objs ?h1 q)"
    using c1 cnt t by (simp add: tracked_def surplus_def)
  then have "jxta_object_check_initialized h' q"
    using m by (simp add: h'_def release_all_check_initialized)
  with s t m show "tracked h' (snd (lstep x xs)) q"
    by (simp add: tracked_def h'_def heap_simps)
qed

lemma vrun_ok:
  assumes "vector_ok v" "unat (vcapacity v) + 16 * length ops < 2 ^ 32"
  shows "\<exists>h' v'. vrun ops h v = Some (fst (lrun ops (vlist v)), h', v') \<and> vector_ok v' \<and>
           vlist v' = snd (lrun ops (vlist v)) \<and>
           (\<forall>q. tracked h (vlist v) q \<longrightarrow>
              tracked h' (vlist v') q \<and> surplus h' (vlist v') q = surplus h (vlist v) q)"
  using assms
proof (induction ops arbitrary: h v)
  case Nil
  then show ?case by simp
next
  case (Cons x ops)
  let ?h1 = "fold release (refs_out x (vlist v)) (fold share (refs_in x (vlist v)) h)"
  obtain v1 where v1: "vstep x h v = Some (fst (lstep x (vlist v)), ?h1, v1)" "vector_ok v1"
      "vlist v1 = snd (lstep x (vlist v))" "unat (vcapacity v1) \<le> unat (vcapacity v) + 16"
    using vstep_ok [OF Cons.prems(1), of x h] Cons.prems(2) by auto
  have "unat (vcapacity v1) + 16 * length ops < 2 ^ 32"
    using v1(4) Cons.prems(2) by simp
  from Cons.IH [OF v1(2) this, of ?h1] obtain h' v' where
    run: "vrun ops ?h1 v1 = Some (fst (lrun ops (vlist v1)), h', v')" "vector_ok v'"
      "vlist v' = snd (lrun ops (vlist v1))"
      "\<forall>q. tracked ?h1 (vlist v1) q \<longrightarrow>
         tracked h' (vlist v') q \<and> surplus h' (vlist v') q = surplus ?h1 (vlist v1) q"
    by blast
  have "\<forall>q. tracked h (vlist v) q \<longrightarrow>
      tracked h' (vlist v') q \<and> surplus h' (vlist v') q = surplus h (vlist v) q"
    using run(4) surplus_step [of h "vlist v" _ x] v1(3) by simp
  with v1 run show ?case by (simp add: split_beta)
qed



text \<open>
  The vector never loses or leaks a reference.  For an object of which the client holds
  a reference beyond those stored in the vector, the reference count minus the number of
  occurrences in the vector is unchanged by every sequence of operations, and the object
  stays initialised.
\<close>

theorem vector_reference_balance:
  assumes "vector_ok v" "unat (vcapacity v) + 16 * length ops < 2 ^ 32" "tracked h (vlist v) q"
    and "vrun ops h v = Some (rs, h', v')"
  shows "refCount (objs h' q) - int (count_list (vlist v') q)
           = refCount (objs h q) - int (count_list (vlist v) q) \<and>
         jxta_object_check_initialized h' q"
  using vrun_ok [OF assms(1,2), of h] assms(3,4) by (auto simp: tracked_def surplus_def)

theorem vector_reference_balance_witness:
  "\<exists>rs h' v'. vrun [AddLast 5, AddLast 5, RemoveAt 0] (jxta_object_init blank_heap 5 0 True)
       (jxta_vector_new (\<lambda>_. True) 0) = Some (rs, h', v') \<and>
     refCount (objs h' 5) - int (count_list (vlist v') 5) = 1"
proof -
  let ?v = "jxta_vector_new (\<lambda>_. True) 0" and ?h = "jxta_object_init blank_heap 5 0 True"
  have v: "vector_ok ?v" "unat (vcapacity ?v) + 16 * length [AddLast 5, AddLast 5, RemoveAt 0] < 2 ^ 32"
    using new_vector [of "\<lambda>_. True" 0] by simp_all
  have "tracked ?h (vlist ?v) 5" "refCount (objs ?h 5) - int (count_list (vlist ?v) 5) = 1"
    using new_vector [of "\<lambda>_. True" 0] init_live [of 5 0 blank_heap True]
    by (simp_all add: tracked_def surplus_def live_def)
  moreover obtain rs h' v' where "vrun [AddLast 5, AddLast 5, RemoveAt 0] ?h ?v = Some (rs, h', v')"
    using vrun_ok [OF v, of ?h] by blast
  ultimately show ?thesis
    using vector_reference_balance [OF v] by auto
qed

subsection \<open>Copying and shuffling\<close>

lemma addall_loop_fault:
  "length src < from + n \<Longrightarrow> from \<le> length src \<Longrightarrow> addall_loop h xs src at from n = None"
proof (induction n arbitrary: h xs at "from")
  case (Suc n)
  show ?case
  proof (cases "from < length src \<and> at < length xs")
    case True
    with Suc.IH [of "Suc from"] Suc.prems show ?thesis by (simp add: mem_simps share_eq)
  next
    case False
    with Suc.prems show ?thesis
      by (cases "from < length src") (auto simp: mem_simps share_eq)
  qed
qed simp

lemma clone_copies:
  assumes ok: "vector_ok v" and at: "at < vsize v" and sum: "unat at + unat len < 2 ^ 32"
  shows "\<exists>v'. jxta_vector_clone (\<lambda>_. True) h v at len =
           Some (JXTA_SUCCESS, fold share (take (unat len) (drop (unat at) (vlist v))) h, Some v') \<and>
         vector_ok v' \<and> vlist v' = take (unat len) (drop (unat at) (vlist v))"
proof -
  have atl: "unat at < unat (vsize v)"
    using at by (simp add: word_less_nat_alt)
  have len_v: "unat (vsize v) \<le> length (elements v)" "length (elements v) = unat (vcapacity v)"
    using vector_ok_bounds [OF ok] by simp_all
  have ne: "at \<noteq> vsize v" "\<not> vsize v < at"
    using at by auto
  define n where "n = (if at + len > vsize v then vsize v - at else len)"
  have n: "unat n = min (unat len) (unat (vsize v) - unat at)"
    using sum atl less_imp_le [OF at]
    by (auto simp: n_def word_less_nat_alt unat_add_nowrap unat_sub_nowrap min_def)
  have part: "take (unat n) (drop (unat at) (elements v)) = take (unat len) (drop (unat at) (vlist v))"
    using n by (simp add: vlist_def drop_take)
  let ?w = "jxta_vector_new (\<lambda>_. True) n"
  have w: "vector_ok ?w" "vlist ?w = []" "vsize ?w = 0" "unat n \<le> unat (vcapacity ?w)"
    using new_vector [of "\<lambda>_. True" n] by (auto split: if_splits)
  have "can_add (\<lambda>_. True) ?w (unat n)"
    using w by (simp add: can_add_def)
  moreover have "unat at + unat n \<le> length (elements v)"
    using n atl len_v by (auto simp: min_def)
  ultimately obtain v' where "addall_objects_at (\<lambda>_. True) h False ?w v 0 at n =
      Some (JXTA_SUCCESS, fold share (take (unat n) (drop (unat at) (elements v))) h, v')"
    "vector_ok v'" "vlist v' = take (unat n) (drop (unat at) (elements v))"
    using addall_objects_at_ok [OF w(1), of "\<lambda>_. True" n 0 at v h] w(2,3) by auto
  with ne part show ?thesis
    by (simp add: jxta_vector_clone_def Let_def n_def)
qed

lemma clone_wraps:
  assumes ok: "vector_ok v" and at: "at < vsize v"
    and big: "2 ^ 32 \<le> unat at + unat len" "unat (vcapacity v) < unat len"
  shows "jxta_vector_clone mem h v at len = None"
proof -
  have atl: "unat at < unat (vsize v)"
    using at by (simp add: word_less_nat_alt)
  have len_v: "unat (vsize v) \<le> length (elements v)" "length (elements v) = unat (vcapacity v)"
    using vector_ok_bounds [OF ok] by simp_all
  have ne: "at \<noteq> vsize v" "\<not> vsize v < at"
    using at by auto
  have lt: "unat at < 2 ^ 32" "unat len < 2 ^ 32"
    by simp_all
  have "(unat at + unat len) mod 2 ^ 32 = (unat at + unat len - 2 ^ 32) mod 2 ^ 32"
    using big by (intro le_mod_geq) simp
  also have "\<dots> = unat at + unat len - 2 ^ 32"
    using lt by (intro mod_less) linarith
  finally have sum: "unat (at + len) = unat at + unat len - 2 ^ 32"
    by (simp add: unat_word_ariths)
  have "unat at + unat len - 2 ^ 32 \<le> unat (vsize v)"
    using lt atl by linarith
  with sum have "\<not> at + len > vsize v"
    by (simp add: word_less_nat_alt)
  moreover have "addall_loop h' xs (elements v) 0 (unat at) (unat len) = None" for h' xs
    using big atl len_v by (intro addall_loop_fault) auto
  ultimately show ?thesis
    using ne by (simp add: jxta_vector_clone_def addall_objects_at_def Let_def bind_eq_None_conv split_beta)
qed

text \<open>
  Cloning \<open>len\<close> elements from position \<open>at\<close> on gives a new well-formed vector that
  holds exactly the requested part of the source, cut at its end, each element with one more
  reference, as long as \<open>at + len\<close> does not wrap around; a position past the end is refused.
  When the sum wraps around (for example \<open>len\<close> = \<open>UINT_MAX\<close> with \<open>at\<close> > 0) the check
  does not cut the length and the copy runs past the source.
\<close>

theorem vector_clone_copies:
  assumes ok: "vector_ok v" and at: "at < vsize v"
  shows "(unat at + unat len < 2 ^ 32 \<longrightarrow>
           (\<exists>v'. jxta_vector_clone (\<lambda>_. True) h v at len =
                   Some (JXTA_SUCCESS, fold share (take (unat len) (drop (unat at) (vlist v))) h, Some v') \<and>
                 vector_ok v' \<and> vlist v' = take (unat len) (drop (unat at) (vlist v)))) \<and>
         (2 ^ 32 \<le> unat at + unat len \<and> unat (vcapacity v) < unat len \<longrightarrow>
           jxta_vector_clone mem h v at len = None)"
  using clone_copies [OF ok at, of len h] clone_wraps [OF ok at, of len mem h] by blast

theorem vector_clone_copies_witness:
  "\<exists>v'. jxta_vector_clone (\<lambda>_. True) blank_heap \<lparr>vsize = 3, vcapacity = 4, elements = [5, 6, 7, 0]\<rparr> 1 9 =
     Some (JXTA_SUCCESS, fold share [6, 7] blank_heap, Some v') \<and> vlist v' = [6, 7]"
  using vector_clone_copies [of "\<lparr>vsize = 3, vcapacity = 4, elements = [5, 6, 7, 0]\<rparr>" 1 9 blank_heap]
  by (auto simp: vector_ok_def vlist_def)

lemma rand_swap_bound:
  fixes r m k :: nat
  assumes "r \<le> m" "0 < k"
  shows "r div (m div k + 1) < k"
proof -
  have "m < k * (m div k + 1)"
    using dividend_less_div_times [OF assms(2), of m] by (simp add: mult.commute)
  with assms(1) have "r < k * (m div k + 1)"
    by simp
  then show ?thesis
    by (simp add: less_mult_imp_div_less)
qed

lemma shuffle_loop_ok:
  assumes "\<forall>i. rnd i \<le> rmax" "each + n < sz" "sz \<le> length xs"
  shows "\<exists>ys. shuffle_loop rmax rnd xs sz each n = Some ys \<and> length ys = length xs \<and>
           mset (take sz ys) = mset (take sz xs) \<and> drop sz ys = drop sz xs"
  using assms(2,3)
proof (induction n arbitrary: xs each)
  case 0
  then show ?case by simp
next
  case (Suc n)
  define j where "j = each + rnd each div (rmax div (sz - each) + 1)"
  have j: "j < sz" "each < sz"
    using rand_swap_bound [of "rnd each" rmax "sz - each"] assms(1) Suc.prems by (auto simp: j_def)
  let ?xs = "xs[j := xs ! each, each := xs ! j]"
  have "mset (take sz ?xs) = mset ((take sz xs)[j := take sz xs ! each, each := take sz xs ! j])"
    using j by (simp add: take_update_swap)
  also have "\<dots> = mset (take sz xs)"
    using j Suc.prems by (intro mset_swap_nth) simp_all
  finally have m: "mset (take sz ?xs) = mset (take sz xs)" .
  have d: "drop sz ?xs = drop sz xs"
    using j by simp
  from Suc.IH [of "Suc each" ?xs] Suc.prems obtain ys where
    "shuffle_loop rmax rnd ?xs sz (Suc each) n = Some ys" "length ys = length xs"
    "mset (take sz ys) = mset (take sz ?xs)" "drop sz ys = drop sz ?xs"
    by auto
  moreover have "shuffle_loop rmax rnd xs sz each (Suc n) = shuffle_loop rmax rnd ?xs sz (Suc each) n"
    using j Suc.prems unfolding j_def by (simp add: mem_simps Let_def)
  ultimately show ?case
    using m d by simp
qed

text \<open>
  For every sequence of values of \<open>rand()\<close> in its documented range, the shuffle only
  swaps cells in use (every random index is below the size) and the vector afterwards holds
  the same elements with the same multiplicities.
\<close>

theorem vector_shuffle_permutes:
  assumes ok: "vector_ok v" and rnd: "\<forall>i. rnd i \<le> rmax"
  shows "\<exists>v'. jxta_vector_shuffle rmax rnd v = Some v' \<and> vector_ok v' \<and> vsize v' = vsize v \<and>
           mset (vlist v') = mset (vlist v)"
proof (cases "vsize v > 1")
  case False
  with ok show ?thesis by (simp add: jxta_vector_shuffle_def)
next
  case True
  then have "1 < unat (vsize v)"
    by (simp add: word_less_nat_alt)
  with shuffle_loop_ok [OF rnd, of 0 "unat (vsize v) - 1" "unat (vsize v)" "elements v"]
    vector_ok_bounds [OF ok]
  obtain xs where "shuffle_loop rmax rnd (elements v) (unat (vsize v)) 0 (unat (vsize v) - 1) = Some xs"
      "length xs = length (elements v)" "mset (take (unat (vsize v)) xs) = mset (vlist v)"
    by (auto simp: vlist_def)
  with True ok show ?thesis
    by (simp add: jxta_vector_shuffle_def view_elements)
qed

theorem vector_shuffle_permutes_witness:
  "\<exists>v'. jxta_vector_shuffle 32767 (\<lambda>_. 32767) \<lparr>vsize = 3, vcapacity = 4, elements = [5, 6, 7, 0]\<rparr> = Some v' \<and>
     mset (vlist v') = mset [5, 6, 7]"
  using vector_shuffle_permutes [of "\<lparr>vsize = 3, vcapacity = 4, elements = [5, 6, 7, 0]\<rparr>" "\<lambda>_. 32767" 32767]
  by (auto simp: vector_ok_def vlist_def)

end
