(* ===== verification/ProbeTable.thy ===== *)
theory ProbeTable
  imports JVector
begin

section \<open>The open-addressing table shared by the two hash tables\<close>

text \<open>
  \<open>jxta_hashtable.c\<close> and \<open>jxta_objecthashtable.c\<close> hold the same table: an array of a
  power of two entries, probed from the slot of the hash value in odd steps until a blank
  entry.  A removed entry stays on the probing paths as a reusable entry.  This theory holds
  the table, \<open>findspot\<close> and the rehashing loop of \<open>grow\<close>, over any type of keys and any key
  comparison, and their correctness.

  An entry is not in use when its \<open>hashk\<close> is 0; then its key pointer is \<open>NULL\<close> (blank,
  \<open>NoKey\<close>) or the address of the table itself (reusable, \<open>Tombstone\<close>).
\<close>

datatype 'k slotkey = NoKey | Tombstone | Key 'k

record 'k entry =
  hashk :: nat
  key :: "'k slotkey"
  val :: ptr

record 'k table =
  tbl :: "'k entry list"
  modmask :: nat
  max_occupancy :: nat
  occupancy :: nat
  usage :: nat
  nb_hops :: nat
  nb_lookups :: nat

definition blank_entry :: "'k entry" where
  "blank_entry = \<lparr>hashk = 0, key = NoKey, val = NULL\<rparr>"

definition reusable_entry :: "'k entry" where
  "reusable_entry = \<lparr>hashk = 0, key = Tombstone, val = NULL\<rparr>"

subsection \<open>findspot\<close>

text \<open>The statistics of a finished lookup; \<open>nb_hops / nb_lookups\<close> is a sliding average.\<close>

definition lookup_stats :: "nat \<Rightarrow> 'k table \<Rightarrow> 'k table" where
  "lookup_stats hop_cnt t =
     (let l = nb_lookups t + 1; s = nb_hops t + hop_cnt in
      if l = 200 then t\<lparr>nb_hops := s div 2, nb_lookups := 100\<rparr>
      else t\<lparr>nb_hops := s, nb_lookups := l\<rparr>)"

text \<open>
  The loop of \<open>findspot\<close>: \<open>match\<close> compares a stored key with the one looked for, \<open>reuse\<close> is
  the first reusable entry seen.  The outer \<open>None\<close> is a read outside of the table, a
  comparison with something that is not a key, or the end of the fuel; the inner one is the
  null pointer the code returns.
\<close>

fun findspot_loop ::
  "nat \<Rightarrow> ('k \<Rightarrow> bool) \<Rightarrow> nat \<Rightarrow> bool \<Rightarrow> nat \<Rightarrow> nat \<Rightarrow> nat \<Rightarrow> nat option \<Rightarrow> nat \<Rightarrow> 'k table
     \<Rightarrow> ('k table \<times> nat option) option" where
  "findspot_loop 0 match hk adding slot increment curslot reuse hop_cnt t = None"
| "findspot_loop (Suc fuel) match hk adding slot increment curslot reuse hop_cnt t =
     do { curr \<leftarrow> mem_read (tbl t) curslot;
          let next = (\<lambda>reuse'.
            let curslot' = (curslot + increment) AND modmask t in
            if curslot' = slot then Some (t, None)
            else findspot_loop fuel match hk adding slot increment curslot' reuse' (hop_cnt + 1) t);
          if hashk curr = hk then
            (case key curr of
               Key k \<Rightarrow>
                 if match k then
                   (case (adding, reuse) of
                      (True, Some r) \<Rightarrow>
                        do { xs \<leftarrow> mem_write (tbl t) r (curr\<lparr>hashk := hk\<rparr>);
                             ys \<leftarrow> mem_write xs curslot reusable_entry;
                             Some ((lookup_stats hop_cnt t)\<lparr>tbl := ys\<rparr>, Some r) }
                    | _ \<Rightarrow> Some (lookup_stats hop_cnt t, Some curslot))
                 else next reuse
             | _ \<Rightarrow> None)
          else if hashk curr = 0 then
            (if key curr = NoKey then
               Some (lookup_stats hop_cnt t,
                     if \<not> adding then None
                     else (case reuse of Some r \<Rightarrow> Some r | None \<Rightarrow> Some curslot))
             else next (if adding \<and> reuse = None then Some curslot else reuse))
          else next reuse }"

definition probe_increment :: "nat \<Rightarrow> nat" where
  "probe_increment slot = (if odd slot then slot else slot + 1)"

definition findspot :: "('k \<Rightarrow> bool) \<Rightarrow> nat \<Rightarrow> bool \<Rightarrow> 'k table \<Rightarrow> ('k table \<times> nat option) option" where
  "findspot match hk adding t =
     (let slot = hk AND modmask t in
      findspot_loop (modmask t + 1) match hk adding slot (probe_increment slot) slot None 0 t)"

subsection \<open>Rehashing\<close>

text \<open>
  The loop of \<open>grow\<close> over the old entries; a null result of \<open>findspot\<close> ends it with the
  inner \<open>None\<close>.
\<close>

fun rehash :: "('k \<Rightarrow> 'k \<Rightarrow> bool) \<Rightarrow> 'k entry list \<Rightarrow> 'k table \<Rightarrow> 'k table option option" where
  "rehash eqv [] t = Some (Some t)"
| "rehash eqv (e # es) t =
     (if hashk e = 0 then rehash eqv es t
      else (case key e of
              Key k \<Rightarrow>
                do { (t1, ne) \<leftarrow> findspot (\<lambda>k'. eqv k' k) (hashk e) True t;
                     (case ne of
                        None \<Rightarrow> Some None
                      | Some j \<Rightarrow>
                          do { xs \<leftarrow> mem_write (tbl t1) j e;
                               rehash eqv es (t1\<lparr>tbl := xs, usage := usage t1 + 1, occupancy := occupancy t1 + 1\<rparr>) }) }
            | _ \<Rightarrow> None))"

text \<open>The threshold of a table of \<open>n\<close> entries, avoiding overflow for large ones.\<close>

definition occupancy_limit :: "nat \<Rightarrow> nat" where
  "occupancy_limit n = (if n > (2 ^ 32 - 1) div 7 then (n div 10) * 7 else (n * 7) div 10)"

definition grow_threshold :: "nat \<Rightarrow> nat" where
  "grow_threshold m = (if m > (2 ^ 32 - 1) div 3 then (m div 4) * 3 else (m * 3) div 4)"

subsection \<open>Probing paths\<close>

definition path :: "nat \<Rightarrow> nat \<Rightarrow> nat \<Rightarrow> nat" where
  "path n hk i = (hk mod n + i * probe_increment (hk mod n)) mod n"

lemma odd_probe_increment: "odd (probe_increment s)"
  by (simp add: probe_increment_def)

lemma and_mask_mod: "(x::nat) AND (2 ^ m - 1) = x mod 2 ^ m"
  by (metis mask_eq_exp_minus_1 take_bit_eq_mask take_bit_eq_mod)

lemma path_0: "path n hk 0 = hk mod n"
  by (simp add: path_def)

lemma path_Suc: "(path n hk i + probe_increment (hk mod n)) mod n = path n hk (Suc i)"
  by (simp add: path_def mod_simps algebra_simps)

lemma path_less: "0 < n \<Longrightarrow> path n hk i < n"
  by (simp add: path_def)

text \<open>An odd step is invertible modulo a power of two: a path does not meet itself early.\<close>

lemma path_inj:
  assumes n: "n = 2 ^ m" and "i < n" "j < n" "path n hk i = path n hk j"
  shows "i = j"
proof -
  let ?a = "probe_increment (hk mod n)"
  have "coprime ?a n"
    using odd_probe_increment by (simp add: n coprime_right_2_iff_odd)
  have "int (hk mod n + i * ?a) mod int n = int (hk mod n + j * ?a) mod int n"
    using arg_cong [OF assms(4), of int] by (simp only: path_def zmod_int)
  then have "int n dvd (int i - int j) * int ?a"
    by (simp add: mod_eq_dvd_iff algebra_simps)
  then have "int n dvd int i - int j"
    using \<open>coprime ?a n\<close> by (simp add: coprime_dvd_mult_left_iff coprime_commute)
  then have "int i mod int n = int j mod int n"
    by (simp add: mod_eq_dvd_iff)
  with assms(2,3) show ?thesis
    by simp
qed

lemma path_onto:
  assumes "n = 2 ^ m" "s < n"
  shows "\<exists>i < n. path n hk i = s"
proof -
  have "inj_on (path n hk) {..<n}"
    using path_inj [OF assms(1)] by (auto simp: inj_on_def)
  moreover have "path n hk ` {..<n} \<subseteq> {..<n}"
    using assms by (auto intro: path_less)
  ultimately have "path n hk ` {..<n} = {..<n}"
    by (metis card_image card_subset_eq finite_lessThan)
  with assms(2) have "s \<in> path n hk ` {..<n}" by simp
  then show ?thesis by blast
qed

lemma path_closes: "path n hk n = path n hk 0"
  by (simp add: path_def)

lemma path_return:
  assumes "n = 2 ^ m" "i < n"
  shows "path n hk (Suc i) = hk mod n \<longleftrightarrow> Suc i = n"
proof (cases "Suc i = n")
  case True
  then show ?thesis
    using path_closes [of n hk] by (simp add: path_0)
next
  case False
  then show ?thesis
    using path_inj [OF assms(1), of "Suc i" 0 hk] assms by (auto simp: path_0)
qed

subsection \<open>What findspot returns\<close>

definition in_use :: "'k entry \<Rightarrow> bool" where
  "in_use e \<longleftrightarrow> hashk e \<noteq> 0"

definition is_blank :: "'k entry \<Rightarrow> bool" where
  "is_blank e \<longleftrightarrow> hashk e = 0 \<and> key e = NoKey"

definition shape_ok :: "'k entry \<Rightarrow> bool" where
  "shape_ok e \<longleftrightarrow> (if hashk e = 0 then key e = NoKey \<or> key e = Tombstone else \<exists>k. key e = Key k)"

definition key_matches :: "('k \<Rightarrow> bool) \<Rightarrow> 'k slotkey \<Rightarrow> bool" where
  "key_matches match x = (case x of Key k \<Rightarrow> match k | _ \<Rightarrow> False)"

definition hit :: "('k \<Rightarrow> bool) \<Rightarrow> nat \<Rightarrow> 'k entry \<Rightarrow> bool" where
  "hit match hk e \<longleftrightarrow> hashk e = hk \<and> key_matches match (key e)"

definition geometry :: "'k table \<Rightarrow> bool" where
  "geometry t \<longleftrightarrow> (\<exists>m. length (tbl t) = 2 ^ m) \<and> modmask t = length (tbl t) - 1 \<and>
     (\<forall>e \<in> set (tbl t). shape_ok e)"

definition ent :: "'k table \<Rightarrow> nat \<Rightarrow> nat \<Rightarrow> 'k entry" where
  "ent t hk i = tbl t ! path (length (tbl t)) hk i"

definition stops :: "('k \<Rightarrow> bool) \<Rightarrow> nat \<Rightarrow> 'k table \<Rightarrow> nat \<Rightarrow> bool" where
  "stops match hk t i \<longleftrightarrow> hit match hk (ent t hk i) \<or> is_blank (ent t hk i)"

definition first_reuse :: "'k table \<Rightarrow> nat \<Rightarrow> bool \<Rightarrow> nat \<Rightarrow> nat option" where
  "first_reuse t hk adding i =
     (if adding
      then map_option (path (length (tbl t)) hk)
             (find (\<lambda>j. \<not> in_use (ent t hk j) \<and> \<not> is_blank (ent t hk j)) [0..<i])
      else None)"

text \<open>The result when the search stops at the \<open>m\<close>-th entry of the path.\<close>

definition found_at :: "('k \<Rightarrow> bool) \<Rightarrow> nat \<Rightarrow> bool \<Rightarrow> 'k table \<Rightarrow> nat \<Rightarrow> 'k table \<times> nat option" where
  "found_at match hk adding t m =
     (let cur = path (length (tbl t)) hk m; e = tbl t ! cur in
      case first_reuse t hk adding m of
        None \<Rightarrow> (lookup_stats m t, if hit match hk e \<or> adding then Some cur else None)
      | Some r \<Rightarrow>
          (if hit match hk e
           then ((lookup_stats m t)\<lparr>tbl := (tbl t)[r := e, cur := reusable_entry]\<rparr>, Some r)
           else (lookup_stats m t, Some r)))"

lemma find_snoc: "find P (xs @ [x]) = (case find P xs of None \<Rightarrow> if P x then Some x else None | Some y \<Rightarrow> Some y)"
  by (induction xs) auto

lemma first_reuse_Suc:
  "first_reuse t hk adding (Suc i) =
     (if adding \<and> first_reuse t hk adding i = None \<and> \<not> in_use (ent t hk i) \<and> \<not> is_blank (ent t hk i)
      then Some (path (length (tbl t)) hk i) else first_reuse t hk adding i)"
  by (simp add: first_reuse_def find_snoc split: option.split)

lemma first_reuse_not_adding [simp]: "first_reuse t hk False i = None"
  by (simp add: first_reuse_def)

lemma first_reuse_SomeD:
  assumes "first_reuse t hk adding i = Some r"
  shows "adding" "\<exists>j < i. r = path (length (tbl t)) hk j \<and> \<not> in_use (ent t hk j) \<and> \<not> is_blank (ent t hk j)"
  using assms by (auto simp: first_reuse_def find_Some_iff split: if_splits)

lemma find_upt_Cons: "i < n \<Longrightarrow> find P [i..<n] = (if P i then Some i else find P [Suc i..<n])"
  by (simp add: upt_conv_Cons)

lemma geometry_length: "geometry t \<Longrightarrow> 0 < length (tbl t)"
  by (auto simp: geometry_def)

lemma geometry_mask: "geometry t \<Longrightarrow> x AND modmask t = x mod length (tbl t)"
  by (auto simp: geometry_def and_mask_mod simp flip: One_nat_def)

lemma ent_shape: "geometry t \<Longrightarrow> shape_ok (ent t hk i)"
  using geometry_length path_less by (fastforce simp: geometry_def ent_def)

lemma lookup_stats_tbl [simp]:
  "tbl (lookup_stats m t) = tbl t" "modmask (lookup_stats m t) = modmask t"
  "usage (lookup_stats m t) = usage t" "occupancy (lookup_stats m t) = occupancy t"
  "max_occupancy (lookup_stats m t) = max_occupancy t"
  by (simp_all add: lookup_stats_def Let_def)

lemma findspot_loop_spec:
  assumes g: "geometry t" and hk: "hk \<noteq> 0"
  defines "n \<equiv> length (tbl t)"
  shows "i < n \<Longrightarrow> n - i \<le> fuel \<Longrightarrow>
    findspot_loop fuel match hk adding (hk mod n) (probe_increment (hk mod n)) (path n hk i)
        (first_reuse t hk adding i) i t =
      Some (case find (stops match hk t) [i..<n] of
              None \<Rightarrow> (t, None)
            | Some m \<Rightarrow> found_at match hk adding t m)"
proof (induction fuel arbitrary: i)
  case 0
  then show ?case by simp
next
  case (Suc fuel)
  let ?c = "path n hk i"
  have n: "0 < n" "\<exists>m. n = 2 ^ m"
    using g by (auto simp: geometry_def n_def)
  have c: "?c < length (tbl t)"
    using n path_less by (simp add: n_def)
  have e: "tbl t ! ?c = ent t hk i"
    by (simp add: ent_def n_def)
  have shape: "shape_ok (ent t hk i)"
    using g by (rule ent_shape)
  have step: "(?c + probe_increment (hk mod n)) AND modmask t = path n hk (Suc i)"
    using g by (simp add: geometry_mask path_Suc flip: n_def)
  have ret: "path n hk (Suc i) = hk mod n \<longleftrightarrow> Suc i = n"
    using path_return n(2) Suc.prems(1) by blast
  have next_ok: "(if path n hk (Suc i) = hk mod n then Some (t, None)
        else findspot_loop fuel match hk adding (hk mod n) (probe_increment (hk mod n)) (path n hk (Suc i))
               (first_reuse t hk adding (Suc i)) (i + 1) t)
      = Some (case find (stops match hk t) [Suc i..<n] of None \<Rightarrow> (t, None)
              | Some m \<Rightarrow> found_at match hk adding t m)"
    using Suc.IH [of "Suc i"] Suc.prems ret by (cases "Suc i = n") auto
  have reuse_lt: "first_reuse t hk adding i = Some r \<Longrightarrow> r < length (tbl t)" for r
    using first_reuse_SomeD(2) [of t hk adding i r] n path_less by (auto simp: n_def)
  show ?case
  proof (cases "stops match hk t i")
    case True
    then consider k where "hashk (ent t hk i) = hk" "key (ent t hk i) = Key k" "match k"
      | "hashk (ent t hk i) = 0" "key (ent t hk i) = NoKey"
      by (auto simp: stops_def hit_def is_blank_def key_matches_def split: slotkey.splits)
    then show ?thesis
    proof cases
      case 1
      have same: "(ent t hk i)\<lparr>hashk := hk\<rparr> = ent t hk i"
        by (rule entry.equality) (simp_all add: 1(1))
      from 1 have "hit match hk (ent t hk i)"
        by (simp add: hit_def key_matches_def)
      then have found: "found_at match hk adding t i =
          (case first_reuse t hk adding i of None \<Rightarrow> (lookup_stats i t, Some ?c)
           | Some r \<Rightarrow> ((lookup_stats i t)\<lparr>tbl := (tbl t)[r := ent t hk i, ?c := reusable_entry]\<rparr>, Some r))"
        using e by (simp add: found_at_def Let_def n_def split: option.split)
      show ?thesis
      proof (cases "first_reuse t hk adding i")
        case None
        with found 1 c e True Suc.prems(1) show ?thesis
          by (simp add: mem_simps find_upt_Cons split: bool.split)
      next
        case (Some r)
        then have adding
          by (rule first_reuse_SomeD)
        with Some found 1 c e True Suc.prems(1) reuse_lt [OF Some] show ?thesis
          by (simp add: mem_simps find_upt_Cons same)
      qed
    next
      case 2
      then have "\<not> hit match hk (ent t hk i)"
        using hk by (simp add: hit_def)
      then have found: "found_at match hk adding t i =
          (lookup_stats i t, if \<not> adding then None
             else (case first_reuse t hk adding i of Some r \<Rightarrow> Some r | None \<Rightarrow> Some ?c))"
        using e by (simp add: found_at_def Let_def n_def split: option.split)
      have "findspot_loop (Suc fuel) match hk adding (hk mod n) (probe_increment (hk mod n)) ?c
          (first_reuse t hk adding i) i t = Some (found_at match hk adding t i)"
        unfolding found using 2 c e hk by (simp add: mem_simps)
      with True Suc.prems(1) show ?thesis
        by (simp add: find_upt_Cons del: findspot_loop.simps)
    qed
  next
    case False
    then consider k where "hashk (ent t hk i) = hk" "key (ent t hk i) = Key k" "\<not> match k"
      | "hashk (ent t hk i) = 0" "key (ent t hk i) = Tombstone"
      | "hashk (ent t hk i) \<noteq> hk" "hashk (ent t hk i) \<noteq> 0"
      using shape hk
      by (auto simp: stops_def hit_def is_blank_def key_matches_def shape_ok_def split: slotkey.splits if_splits)
    then have "findspot_loop (Suc fuel) match hk adding (hk mod n) (probe_increment (hk mod n)) ?c
        (first_reuse t hk adding i) i t =
      (if path n hk (Suc i) = hk mod n then Some (t, None)
       else findspot_loop fuel match hk adding (hk mod n) (probe_increment (hk mod n)) (path n hk (Suc i))
              (first_reuse t hk adding (Suc i)) (i + 1) t)" (is "?L = ?R")
    proof cases
      case 1
      then have "first_reuse t hk adding (Suc i) = first_reuse t hk adding i"
        using hk by (simp add: first_reuse_Suc in_use_def)
      with 1 c e step show ?thesis
        by (simp add: mem_simps Let_def)
    next
      case 2
      then have "first_reuse t hk adding (Suc i) =
          (if adding \<and> first_reuse t hk adding i = None then Some ?c else first_reuse t hk adding i)"
        by (cases adding) (auto simp: first_reuse_Suc in_use_def is_blank_def n_def)
      with 2 c e step hk show ?thesis
        by (simp add: mem_simps Let_def)
    next
      case 3
      then have "first_reuse t hk adding (Suc i) = first_reuse t hk adding i"
        by (simp add: first_reuse_Suc in_use_def)
      with 3 c e step show ?thesis
        by (simp add: mem_simps Let_def)
    qed
    also note next_ok
    also have "find (stops match hk t) [Suc i..<n] = find (stops match hk t) [i..<n]"
      using False Suc.prems(1) by (simp add: find_upt_Cons)
    finally show ?thesis .
  qed
qed

lemma findspot_spec:
  assumes "geometry t" "hk \<noteq> 0"
  shows "findspot match hk adding t =
    Some (case find (stops match hk t) [0..<length (tbl t)] of
            None \<Rightarrow> (t, None)
          | Some m \<Rightarrow> found_at match hk adding t m)"
proof -
  have "modmask t + 1 = length (tbl t)" "0 < length (tbl t)"
    using assms(1) geometry_length [OF assms(1)] by (auto simp: geometry_def)
  moreover have "first_reuse t hk adding 0 = None"
    by (simp add: first_reuse_def)
  ultimately show ?thesis
    using findspot_loop_spec [OF assms, of 0 "length (tbl t)" match adding]
    by (simp add: findspot_def geometry_mask [OF assms(1)] path_0)
qed

subsection \<open>The table invariant and the map it stands for\<close>

definition entry_ok :: "('k \<Rightarrow> nat) \<Rightarrow> 'k entry \<Rightarrow> bool" where
  "entry_ok H e \<longleftrightarrow> shape_ok e \<and> (\<forall>k. in_use e \<and> key e = Key k \<longrightarrow> hashk e = H k)"

text \<open>An entry is found by the search: no blank entry precedes it on its path.\<close>

definition reachable :: "'k table \<Rightarrow> nat \<Rightarrow> nat \<Rightarrow> bool" where
  "reachable t hk j \<longleftrightarrow>
     (\<exists>i < length (tbl t). path (length (tbl t)) hk i = j \<and> (\<forall>i' < i. \<not> is_blank (ent t hk i')))"

definition holds :: "('k \<Rightarrow> 'k \<Rightarrow> bool) \<Rightarrow> 'k entry \<Rightarrow> 'k \<Rightarrow> bool" where
  "holds eqv e k \<longleftrightarrow> in_use e \<and> key_matches (\<lambda>k'. eqv k' k) (key e)"

definition table_ok :: "('k \<Rightarrow> nat) \<Rightarrow> ('k \<Rightarrow> 'k \<Rightarrow> bool) \<Rightarrow> 'k table \<Rightarrow> bool" where
  "table_ok H eqv t \<longleftrightarrow>
     geometry t \<and> 2 \<le> length (tbl t) \<and>
     (\<forall>j < length (tbl t). entry_ok H (tbl t ! j)) \<and>
     (\<forall>j < length (tbl t). in_use (tbl t ! j) \<longrightarrow> reachable t (hashk (tbl t ! j)) j) \<and>
     (\<forall>j < length (tbl t). \<forall>j' < length (tbl t). \<forall>k.
        holds eqv (tbl t ! j) k \<and> holds eqv (tbl t ! j') k \<longrightarrow> j = j') \<and>
     usage t = length (filter in_use (tbl t)) \<and>
     occupancy t = length (filter (\<lambda>e. \<not> is_blank e) (tbl t)) \<and>
     max_occupancy t = occupancy_limit (length (tbl t))"

definition table_lookup :: "('k \<Rightarrow> 'k \<Rightarrow> bool) \<Rightarrow> 'k table \<Rightarrow> 'k \<Rightarrow> ptr option" where
  "table_lookup eqv t k = map_option val (find (\<lambda>e. holds eqv e k) (tbl t))"

text \<open>A place where the key \<open>k\<close> may be written.\<close>

definition spot_for :: "('k \<Rightarrow> nat) \<Rightarrow> ('k \<Rightarrow> 'k \<Rightarrow> bool) \<Rightarrow> 'k table \<Rightarrow> 'k \<Rightarrow> nat \<Rightarrow> bool" where
  "spot_for H eqv t k r \<longleftrightarrow>
     r < length (tbl t) \<and> reachable t (H k) r \<and>
     (\<forall>j < length (tbl t). holds eqv (tbl t ! j) k \<longrightarrow> j = r) \<and>
     (in_use (tbl t ! r) \<longrightarrow> holds eqv (tbl t ! r) k)"

lemma length_filter_update:
  "i < length xs \<Longrightarrow>
   length (filter P (xs[i := x])) + (if P (xs ! i) then 1 else 0) =
   length (filter P xs) + (if P x then 1 else 0)"
proof (induction xs arbitrary: i)
  case (Cons a xs)
  then show ?case by (cases i) auto
qed simp

lemma table_ok_entryD:
  assumes "table_ok H eqv t" "j < length (tbl t)"
  shows "entry_ok H (tbl t ! j)" "in_use (tbl t ! j) \<Longrightarrow> reachable t (hashk (tbl t ! j)) j"
  using assms by (simp_all add: table_ok_def)

lemma table_ok_unique:
  assumes "table_ok H eqv t" "j < length (tbl t)" "j' < length (tbl t)"
    and "holds eqv (tbl t ! j) k" "holds eqv (tbl t ! j') k"
  shows "j = j'"
  using assms unfolding table_ok_def by blast

lemma table_ok_geometry: "table_ok H eqv t \<Longrightarrow> geometry t"
  by (simp add: table_ok_def)

lemma table_lookup_SomeI:
  assumes ok: "table_ok H eqv t" and j: "j < length (tbl t)" "holds eqv (tbl t ! j) k"
  shows "table_lookup eqv t k = Some (val (tbl t ! j))"
proof -
  have "find (\<lambda>e. holds eqv e k) (tbl t) \<noteq> None"
    using j by (metis find_None_iff nth_mem)
  then obtain e where e: "find (\<lambda>e. holds eqv e k) (tbl t) = Some e"
    by blast
  then obtain i where i: "i < length (tbl t)" "holds eqv (tbl t ! i) k" "e = tbl t ! i"
    by (auto simp: find_Some_iff)
  with table_ok_unique [OF ok i(1) j(1) i(2) j(2)] e show ?thesis
    by (simp add: table_lookup_def)
qed

lemma table_lookup_None_iff:
  "table_lookup eqv t k = None \<longleftrightarrow> (\<forall>j < length (tbl t). \<not> holds eqv (tbl t ! j) k)"
  by (auto simp: table_lookup_def find_None_iff in_set_conv_nth)

lemma table_lookup_eq:
  assumes ok: "table_ok H eqv t" and ok': "table_ok H eqv t'"
    and "\<And>v. (\<exists>j < length (tbl t'). holds eqv (tbl t' ! j) k \<and> val (tbl t' ! j) = v) \<longleftrightarrow>
             (\<exists>j < length (tbl t). holds eqv (tbl t ! j) k \<and> val (tbl t ! j) = v)"
  shows "table_lookup eqv t' k = table_lookup eqv t k"
proof (cases "table_lookup eqv t' k")
  case None
  with assms(3) show ?thesis by (metis table_lookup_None_iff)
next
  case (Some v)
  then obtain j where j: "j < length (tbl t')" "holds eqv (tbl t' ! j) k"
    by (metis option.distinct(1) table_lookup_None_iff)
  with assms(3) obtain i where "i < length (tbl t)" "holds eqv (tbl t ! i) k" "val (tbl t ! i) = val (tbl t' ! j)"
    by blast
  with j table_lookup_SomeI [OF ok] table_lookup_SomeI [OF ok'] show ?thesis by simp
qed

lemma reachable_mono:
  assumes "length (tbl t') = length (tbl t)"
    and "\<And>i. i < length (tbl t) \<Longrightarrow> is_blank (tbl t' ! i) \<Longrightarrow> is_blank (tbl t ! i)"
    and "reachable t hk j"
  shows "reachable t' hk j"
proof -
  have "0 < length (tbl t)"
    using assms(3) by (auto simp: reachable_def)
  then show ?thesis
    using assms path_less unfolding reachable_def ent_def by (metis (no_types, lifting))
qed

lemma not_blank_in_use: "in_use e \<Longrightarrow> \<not> is_blank e"
  by (simp add: in_use_def is_blank_def)

lemma reusable_entry_simps [simp]:
  "\<not> in_use reusable_entry" "\<not> is_blank reusable_entry" "shape_ok reusable_entry"
  "\<not> holds eqv reusable_entry k" "entry_ok H reusable_entry"
  by (simp_all add: reusable_entry_def in_use_def is_blank_def shape_ok_def holds_def entry_ok_def)

lemma geometry_update:
  assumes "geometry t" "shape_ok e"
  shows "geometry (t\<lparr>tbl := (tbl t)[j := e]\<rparr>)"
  using assms by (auto simp: geometry_def dest!: set_update_subset_insert [THEN subsetD])

lemma lookup_stats_ok [simp]:
  "table_ok H eqv (lookup_stats m t) = table_ok H eqv t"
  "table_lookup eqv (lookup_stats m t) k = table_lookup eqv t k"
  by (simp_all add: table_ok_def geometry_def reachable_def ent_def table_lookup_def)

text \<open>Writing an entry for \<open>k\<close> at its place.\<close>

definition entry_for :: "nat \<Rightarrow> 'k \<Rightarrow> ptr \<Rightarrow> 'k entry" where
  "entry_for hk k v = \<lparr>hashk = hk, key = Key k, val = v\<rparr>"

definition table_write :: "'k table \<Rightarrow> nat \<Rightarrow> nat \<Rightarrow> 'k \<Rightarrow> ptr \<Rightarrow> 'k table" where
  "table_write t r hk k v =
     t\<lparr>tbl := (tbl t)[r := entry_for hk k v],
       usage := usage t + (if in_use (tbl t ! r) then 0 else 1),
       occupancy := occupancy t + (if is_blank (tbl t ! r) then 1 else 0)\<rparr>"

definition table_delete :: "'k table \<Rightarrow> nat \<Rightarrow> 'k table" where
  "table_delete t r = t\<lparr>tbl := (tbl t)[r := reusable_entry], usage := usage t - 1\<rparr>"

text \<open>What the table relies on: the hash function and the key comparison it was given.\<close>

locale key_hashing =
  fixes H :: "'k \<Rightarrow> nat"
    and eqv :: "'k \<Rightarrow> 'k \<Rightarrow> bool"
  assumes eqv_refl: "eqv k k"
    and eqv_sym: "eqv a b \<Longrightarrow> eqv b a"
    and eqv_trans: "eqv a b \<Longrightarrow> eqv b c \<Longrightarrow> eqv a c"
    and eqv_hash: "eqv a b \<Longrightarrow> H a = H b"
begin

lemma holds_entry_for: "hk \<noteq> 0 \<Longrightarrow> holds eqv (entry_for hk k v) k2 \<longleftrightarrow> eqv k k2"
  by (simp add: holds_def entry_for_def in_use_def key_matches_def)

lemma holds_eqv: "eqv k k2 \<Longrightarrow> holds eqv e k \<longleftrightarrow> holds eqv e k2"
  by (auto simp: holds_def key_matches_def split: slotkey.splits intro: eqv_trans eqv_sym)

lemma holds_same_entry: "holds eqv e k \<Longrightarrow> holds eqv e k2 \<Longrightarrow> eqv k k2"
  by (auto simp: holds_def key_matches_def split: slotkey.splits intro: eqv_trans eqv_sym)

lemma holds_hash: "entry_ok H e \<Longrightarrow> holds eqv e k \<Longrightarrow> hashk e = H k \<and> hit (\<lambda>k'. eqv k' k) (H k) e"
  by (auto simp: holds_def key_matches_def entry_ok_def hit_def split: slotkey.splits dest: eqv_hash)

lemma hit_holds: "hit (\<lambda>k'. eqv k' k) (H k) e \<Longrightarrow> H k \<noteq> 0 \<Longrightarrow> holds eqv e k"
  by (simp add: hit_def holds_def in_use_def)

lemma table_write_ok:
  assumes ok: "table_ok H eqv t" and spot: "spot_for H eqv t k r" and hk: "H k \<noteq> 0"
  shows "table_ok H eqv (table_write t r (H k) k v)" (is "table_ok H eqv ?t'")
    and "table_lookup eqv (table_write t r (H k) k v) k2 =
           (if eqv k k2 then Some v else table_lookup eqv t k2)"
proof -
  let ?e = "entry_for (H k) k v"
  have r: "r < length (tbl t)" and reach_r: "reachable t (H k) r"
    using spot unfolding spot_for_def by blast+
  have len: "length (tbl ?t') = length (tbl t)"
    by (simp add: table_write_def)
  have nth: "tbl ?t' ! j = (if j = r then ?e else tbl t ! j)" if "j < length (tbl t)" for j
    using that r by (simp add: table_write_def nth_list_update)
  have e: "entry_ok H ?e" "in_use ?e" "\<not> is_blank ?e" "hashk ?e = H k" "shape_ok ?e"
    using hk by (simp_all add: entry_for_def entry_ok_def shape_ok_def in_use_def is_blank_def)
  have mono: "is_blank (tbl ?t' ! i) \<Longrightarrow> is_blank (tbl t ! i)" if "i < length (tbl t)" for i
    using nth [OF that] e by (auto split: if_splits)
  have reach: "reachable t hk j \<Longrightarrow> reachable ?t' hk j" for hk j
    using reachable_mono [OF len mono] by blast
  have holds': "holds eqv (tbl ?t' ! j) k3 \<longleftrightarrow>
      (if eqv k k3 then j = r else holds eqv (tbl t ! j) k3)" if j: "j < length (tbl t)" for j k3
  proof (cases "j = r")
    case True
    have "\<not> eqv k k3 \<Longrightarrow> \<not> holds eqv (tbl t ! r) k3"
      using spot holds_same_entry by (auto simp: spot_for_def holds_def)
    with True j show ?thesis
      using holds_entry_for [OF hk] by (simp add: nth)
  next
    case False
    with j spot have "\<not> holds eqv (tbl t ! j) k"
      by (auto simp: spot_for_def)
    with False j holds_eqv [of k k3 "tbl t ! j"] show ?thesis
      by (simp add: nth)
  qed
  have counts: "length (filter in_use (tbl ?t')) = usage t + (if in_use (tbl t ! r) then 0 else 1)"
    "length (filter (\<lambda>e. \<not> is_blank e) (tbl ?t')) = occupancy t + (if is_blank (tbl t ! r) then 1 else 0)"
    using length_filter_update [OF r, of in_use ?e] length_filter_update [OF r, of "\<lambda>e. \<not> is_blank e" ?e] e ok
    by (auto simp: table_write_def table_ok_def split: if_splits)
  have geo: "geometry ?t'"
    using geometry_update [OF table_ok_geometry [OF ok] e(5), of r]
    by (simp add: table_write_def geometry_def)
  show ok': "table_ok H eqv ?t'"
    unfolding table_ok_def
  proof (intro conjI allI impI)
    show "geometry ?t'" by (rule geo)
    show "2 \<le> length (tbl ?t')" using ok len by (simp add: table_ok_def)
    show "usage ?t' = length (filter in_use (tbl ?t'))"
      "occupancy ?t' = length (filter (\<lambda>e. \<not> is_blank e) (tbl ?t'))"
      using counts by (simp_all add: table_write_def)
    show "max_occupancy ?t' = occupancy_limit (length (tbl ?t'))"
      using ok len by (simp add: table_ok_def table_write_def)
  next
    fix j assume "j < length (tbl ?t')"
    then show "entry_ok H (tbl ?t' ! j)"
      using e table_ok_entryD(1) [OF ok] len nth by simp
  next
    fix j assume j: "j < length (tbl ?t')" "in_use (tbl ?t' ! j)"
    have "reachable t (hashk (tbl ?t' ! j)) j"
      using j e(4) reach_r table_ok_entryD(2) [OF ok, of j] len nth [of j]
      by (cases "j = r") simp_all
    then show "reachable ?t' (hashk (tbl ?t' ! j)) j"
      by (rule reach)
  next
    fix j j' k3
    assume "j < length (tbl ?t')" "j' < length (tbl ?t')"
      "holds eqv (tbl ?t' ! j) k3 \<and> holds eqv (tbl ?t' ! j') k3"
    then show "j = j'"
      using holds' [of j k3] holds' [of j' k3] table_ok_unique [OF ok] len by (auto split: if_splits)
  qed
  show "table_lookup eqv ?t' k2 = (if eqv k k2 then Some v else table_lookup eqv t k2)"
  proof (cases "eqv k k2")
    case True
    then show ?thesis
      using table_lookup_SomeI [OF ok', of r k2] holds' [OF r, of k2] r len nth [OF r]
      by (simp add: entry_for_def)
  next
    case False
    have "table_lookup eqv ?t' k2 = table_lookup eqv t k2"
    proof (rule table_lookup_eq [OF ok ok'])
      fix v'
      have "holds eqv (tbl ?t' ! j) k2 \<longleftrightarrow> holds eqv (tbl t ! j) k2" if "j < length (tbl t)" for j
        using holds' [OF that, of k2] False by simp
      moreover have "holds eqv (tbl t ! j) k2 \<Longrightarrow> tbl ?t' ! j = tbl t ! j" if "j < length (tbl t)" for j
        using holds' [OF that, of k2] nth [OF that] False holds_entry_for [OF hk, of k v k2]
        by (auto split: if_splits)
      ultimately show "(\<exists>j<length (tbl ?t'). holds eqv (tbl ?t' ! j) k2 \<and> val (tbl ?t' ! j) = v') \<longleftrightarrow>
          (\<exists>j<length (tbl t). holds eqv (tbl t ! j) k2 \<and> val (tbl t ! j) = v')"
        using len by metis
    qed
    with False show ?thesis by simp
  qed
qed

lemma table_delete_ok:
  assumes ok: "table_ok H eqv t" and r: "r < length (tbl t)" and h: "holds eqv (tbl t ! r) k"
  shows "table_ok H eqv (table_delete t r)" (is "table_ok H eqv ?t'")
    and "table_lookup eqv (table_delete t r) k2 =
           (if eqv k k2 then None else table_lookup eqv t k2)"
proof -
  have len: "length (tbl ?t') = length (tbl t)"
    by (simp add: table_delete_def)
  have nth: "tbl ?t' ! j = (if j = r then reusable_entry else tbl t ! j)" if "j < length (tbl t)" for j
    using that r by (simp add: table_delete_def nth_list_update)
  have use_r: "in_use (tbl t ! r)"
    using h by (simp add: holds_def)
  have reach: "reachable t hk j \<Longrightarrow> reachable ?t' hk j" for hk j
    using reachable_mono [OF len] nth by (metis reusable_entry_simps(2))
  have holds': "holds eqv (tbl ?t' ! j) k3 \<longleftrightarrow> j \<noteq> r \<and> holds eqv (tbl t ! j) k3" if "j < length (tbl t)" for j k3
    using nth [OF that] by simp
  have counts: "length (filter in_use (tbl ?t')) = usage t - 1"
    "length (filter (\<lambda>e. \<not> is_blank e) (tbl ?t')) = occupancy t"
    using length_filter_update [OF r, of in_use reusable_entry] use_r not_blank_in_use [OF use_r]
      length_filter_update [OF r, of "\<lambda>e. \<not> is_blank e" reusable_entry] ok
    by (auto simp: table_delete_def table_ok_def)
  have geo: "geometry ?t'"
    using geometry_update [OF table_ok_geometry [OF ok], of reusable_entry r]
    by (simp add: table_delete_def geometry_def)
  show ok': "table_ok H eqv ?t'"
    unfolding table_ok_def
  proof (intro conjI allI impI)
    show "geometry ?t'" by (rule geo)
    show "2 \<le> length (tbl ?t')" using ok len by (simp add: table_ok_def)
    show "usage ?t' = length (filter in_use (tbl ?t'))"
      "occupancy ?t' = length (filter (\<lambda>e. \<not> is_blank e) (tbl ?t'))"
      using counts by (simp_all add: table_delete_def)
    show "max_occupancy ?t' = occupancy_limit (length (tbl ?t'))"
      using ok len by (simp add: table_ok_def table_delete_def)
  next
    fix j assume "j < length (tbl ?t')"
    then show "entry_ok H (tbl ?t' ! j)"
      using table_ok_entryD(1) [OF ok] len nth by simp
  next
    fix j assume j: "j < length (tbl ?t')" "in_use (tbl ?t' ! j)"
    have "reachable t (hashk (tbl ?t' ! j)) j"
      using j table_ok_entryD(2) [OF ok, of j] len nth [of j] by (cases "j = r") simp_all
    then show "reachable ?t' (hashk (tbl ?t' ! j)) j"
      by (rule reach)
  next
    fix j j' k3
    assume "j < length (tbl ?t')" "j' < length (tbl ?t')"
      "holds eqv (tbl ?t' ! j) k3 \<and> holds eqv (tbl ?t' ! j') k3"
    then show "j = j'"
      using holds' [of j k3] holds' [of j' k3] table_ok_unique [OF ok] len by auto
  qed
  show "table_lookup eqv ?t' k2 = (if eqv k k2 then None else table_lookup eqv t k2)"
  proof (cases "eqv k k2")
    case True
    have "\<not> holds eqv (tbl ?t' ! j) k2" if j: "j < length (tbl t)" for j
      using holds' [OF j, of k2] table_ok_unique [OF ok j r] h holds_eqv [OF True] by blast
    with True len show ?thesis
      by (simp add: table_lookup_None_iff)
  next
    case False
    then have "\<not> holds eqv (tbl t ! r) k2"
      using holds_same_entry [OF h] by blast
    then have "table_lookup eqv ?t' k2 = table_lookup eqv t k2"
      using nth holds' len by (intro table_lookup_eq [OF ok ok']) metis
    with False show ?thesis by simp
  qed
qed

lemma find_stop_hit:
  assumes ok: "table_ok H eqv t" and j: "j < length (tbl t)" "holds eqv (tbl t ! j) k"
  shows "\<exists>m < length (tbl t). find (stops (\<lambda>k'. eqv k' k) (H k) t) [0..<length (tbl t)] = Some m \<and>
           path (length (tbl t)) (H k) m = j"
proof -
  let ?n = "length (tbl t)" and ?S = "stops (\<lambda>k'. eqv k' k) (H k) t"
  have e: "hashk (tbl t ! j) = H k" "hit (\<lambda>k'. eqv k' k) (H k) (tbl t ! j)" "in_use (tbl t ! j)"
    using holds_hash [OF table_ok_entryD(1) [OF ok j(1)] j(2)] j(2) by (simp_all add: holds_def)
  obtain i where i: "i < ?n" "path ?n (H k) i = j" "\<forall>i' < i. \<not> is_blank (ent t (H k) i')"
    using table_ok_entryD(2) [OF ok j(1) e(3)] e(1) by (auto simp: reachable_def)
  have "?S i"
    using e(2) i(2) by (simp add: stops_def ent_def)
  then have "find ?S [0..<?n] \<noteq> None"
    using i(1) by (auto simp: find_None_iff)
  then obtain m where m: "find ?S [0..<?n] = Some m"
    by blast
  then have m': "m < ?n" "?S m" "\<forall>i' < m. \<not> ?S i'"
    by (auto simp: find_Some_iff nth_upt)
  have "m \<le> i"
    using \<open>?S i\<close> m'(3) not_le by blast
  have "m = i"
  proof (rule ccontr)
    assume "m \<noteq> i"
    with \<open>m \<le> i\<close> i(3) have "hit (\<lambda>k'. eqv k' k) (H k) (ent t (H k) m)"
      using m'(2) by (auto simp: stops_def)
    then have "holds eqv (tbl t ! path ?n (H k) m) k"
      using e(1,3) hit_holds by (simp add: ent_def in_use_def)
    then have "path ?n (H k) m = path ?n (H k) i"
      using table_ok_unique [OF ok _ j(1) _ j(2)] i(2) j(1) path_less by (metis gr_implies_not0 neq0_conv)
    moreover obtain l where "?n = 2 ^ l"
      using ok by (auto simp: table_ok_def geometry_def)
    ultimately show False
      using path_inj i(1) m'(1) \<open>m \<noteq> i\<close> by blast
  qed
  with m m' i show ?thesis by blast
qed

lemma find_stop_absent:
  assumes hk: "H k \<noteq> 0" and none: "table_lookup eqv t k = None"
    and m: "find (stops (\<lambda>k'. eqv k' k) (H k) t) [0..<length (tbl t)] = Some m"
  shows "is_blank (ent t (H k) m)" "\<not> hit (\<lambda>k'. eqv k' k) (H k) (ent t (H k) m)"
proof -
  have "m < length (tbl t)" "stops (\<lambda>k'. eqv k' k) (H k) t m"
    using m by (auto simp: find_Some_iff)
  moreover have "\<not> hit (\<lambda>k'. eqv k' k) (H k) (ent t (H k) m)"
    using none hit_holds hk path_less [of "length (tbl t)" "H k" m] \<open>m < _\<close>
    unfolding table_lookup_None_iff ent_def by fastforce
  ultimately show "is_blank (ent t (H k) m)" "\<not> hit (\<lambda>k'. eqv k' k) (H k) (ent t (H k) m)"
    by (auto simp: stops_def)
qed

lemma findspot_get:
  assumes ok: "table_ok H eqv t" and hk: "H k \<noteq> 0"
  shows "\<exists>t' r. findspot (\<lambda>k'. eqv k' k) (H k) False t = Some (t', r) \<and> (t' = t \<or> (\<exists>m. t' = lookup_stats m t)) \<and>
    (case r of
       None \<Rightarrow> table_lookup eqv t k = None
     | Some j \<Rightarrow> j < length (tbl t) \<and> holds eqv (tbl t ! j) k \<and> table_lookup eqv t k = Some (val (tbl t ! j)))"
proof (cases "table_lookup eqv t k")
  case None
  then show ?thesis
    using findspot_spec [OF table_ok_geometry [OF ok] hk, of "\<lambda>k'. eqv k' k" False] find_stop_absent [OF hk None]
    by (auto simp: found_at_def ent_def split: option.split)
next
  case (Some v)
  then obtain j where j: "j < length (tbl t)" "holds eqv (tbl t ! j) k"
    by (metis option.distinct(1) table_lookup_None_iff)
  obtain m where m: "find (stops (\<lambda>k'. eqv k' k) (H k) t) [0..<length (tbl t)] = Some m"
      "path (length (tbl t)) (H k) m = j"
    using find_stop_hit [OF ok j] by blast
  have "hit (\<lambda>k'. eqv k' k) (H k) (tbl t ! j)"
    using holds_hash [OF table_ok_entryD(1) [OF ok j(1)] j(2)] by simp
  then show ?thesis
    using findspot_spec [OF table_ok_geometry [OF ok] hk, of "\<lambda>k'. eqv k' k" False] m j
      table_lookup_SomeI [OF ok j]
    by (auto simp: found_at_def)
qed

text \<open>Moving an entry to an earlier reusable one on its path is a deletion and a write.\<close>

lemma move_entry:
  assumes ok: "table_ok H eqv t" and c: "c < length (tbl t)" "holds eqv (tbl t ! c) k"
    and r: "r < length (tbl t)" "reachable t (H k) r" "\<not> in_use (tbl t ! r)" "\<not> is_blank (tbl t ! r)"
    and hk: "H k \<noteq> 0"
  defines "t' \<equiv> t\<lparr>tbl := (tbl t)[r := tbl t ! c, c := reusable_entry]\<rparr>"
  shows "table_ok H eqv t'" "spot_for H eqv t' k r" "table_lookup eqv t' k2 = table_lookup eqv t k2"
    "tbl t' ! r = tbl t ! c"
proof -
  have rc: "r \<noteq> c"
    using c(2) r(3) by (auto simp: holds_def)
  obtain k' where k': "key (tbl t ! c) = Key k'" "eqv k' k"
    using c(2) by (auto simp: holds_def key_matches_def split: slotkey.splits)
  have hash: "hashk (tbl t ! c) = H k'" "H k' = H k"
    using table_ok_entryD(1) [OF ok c(1)] c(2) k' eqv_hash by (auto simp: entry_ok_def holds_def)
  have e: "entry_for (H k') k' (val (tbl t ! c)) = tbl t ! c"
    using k'(1) hash(1) by (simp add: entry_for_def)
  have holdsk': "holds eqv (tbl t ! c) k'"
    using c(2) holds_eqv [OF k'(2)] by simp
  let ?d = "table_delete t c"
  have d: "table_ok H eqv ?d" "\<And>k2. table_lookup eqv ?d k2 = (if eqv k' k2 then None else table_lookup eqv t k2)"
    using table_delete_ok [OF ok c(1) holdsk'] by simp_all
  have d_nth: "tbl ?d ! r = tbl t ! r" "length (tbl ?d) = length (tbl t)"
    using rc by (simp_all add: table_delete_def)
  have "reachable ?d (H k') r"
  proof (rule reachable_mono [OF d_nth(2)])
    fix i assume "i < length (tbl t)" "is_blank (tbl ?d ! i)"
    then show "is_blank (tbl t ! i)"
      by (cases "i = c") (simp_all add: table_delete_def)
  next
    show "reachable t (H k') r"
      using r(2) hash(2) by simp
  qed
  moreover have "\<not> holds eqv (tbl ?d ! j) k'" if "j < length (tbl t)" for j
    using d(2) [of k'] eqv_refl d_nth(2) that by (auto simp: table_lookup_None_iff)
  ultimately have spot: "spot_for H eqv ?d k' r"
    using d_nth r(1,3) by (auto simp: spot_for_def)
  have hk': "H k' \<noteq> 0"
    using hk hash by simp
  let ?w = "table_write ?d r (H k') k' (val (tbl t ! c))"
  have pos: "0 < usage t"
  proof -
    have "tbl t ! c \<in> set (filter in_use (tbl t))"
      using c by (simp add: holds_def)
    then have "0 < length (filter in_use (tbl t))"
      by (simp only: length_greater_0_conv) (metis empty_iff empty_set)
    with ok show ?thesis by (simp add: table_ok_def)
  qed
  have w: "?w = t'"
    using d_nth r(3,4) rc pos e
    by (simp add: table_write_def table_delete_def t'_def list_update_swap)
  show ok': "table_ok H eqv t'"
    using table_write_ok(1) [OF d(1) spot hk', of "val (tbl t ! c)"] w by simp
  show nth: "tbl t' ! r = tbl t ! c"
    using rc r(1) by (simp add: t'_def)
  show "table_lookup eqv t' k2 = table_lookup eqv t k2"
  proof (cases "eqv k' k2")
    case True
    then have "holds eqv (tbl t ! c) k2"
      using holdsk' holds_eqv by blast
    then show ?thesis
      using table_write_ok(2) [OF d(1) spot hk', of "val (tbl t ! c)" k2] w True
        table_lookup_SomeI [OF ok c(1)] by simp
  next
    case False
    then show ?thesis
      using table_write_ok(2) [OF d(1) spot hk', of "val (tbl t ! c)" k2] w d(2) by simp
  qed
  have len: "length (tbl t') = length (tbl t)"
    by (simp add: t'_def)
  have "reachable t' (H k) r"
    using table_ok_entryD(2) [OF ok', of r] nth r(1) c(2) hash len by (simp add: holds_def)
  moreover have "j = r" if "j < length (tbl t')" "holds eqv (tbl t' ! j) k" for j
    using table_ok_unique [OF ok' that(1) _ that(2)] nth r(1) c(2) len by simp
  moreover have "r < length (tbl t')" "holds eqv (tbl t' ! r) k"
    using nth r(1) c(2) len by simp_all
  ultimately show "spot_for H eqv t' k r"
    unfolding spot_for_def by blast
qed

lemma first_reuse_reachable:
  assumes fr: "first_reuse t hk True m = Some r" and n: "0 < length (tbl t)" "m \<le> length (tbl t)"
    and clear: "\<forall>i < m. \<not> is_blank (ent t hk i)"
  shows "r < length (tbl t)" "reachable t hk r" "\<not> in_use (tbl t ! r)" "\<not> is_blank (tbl t ! r)"
proof -
  obtain j where "j < m" "r = path (length (tbl t)) hk j" "\<not> in_use (ent t hk j)" "\<not> is_blank (ent t hk j)"
    using first_reuse_SomeD(2) [OF fr] by blast
  with n clear show "r < length (tbl t)" "reachable t hk r" "\<not> in_use (tbl t ! r)" "\<not> is_blank (tbl t ! r)"
    by (auto simp: reachable_def ent_def path_less intro!: exI [of _ j])
qed

lemma lookup_stats_spot [simp]: "spot_for H eqv (lookup_stats m t) k r = spot_for H eqv t k r"
  by (simp add: spot_for_def reachable_def ent_def)

lemma lookup_stats_update:
  "(lookup_stats m t)\<lparr>tbl := xs\<rparr> = lookup_stats m (t\<lparr>tbl := xs\<rparr>)"
  by (simp add: lookup_stats_def Let_def)

lemma findspot_add:
  assumes ok: "table_ok H eqv t" and hk: "H k \<noteq> 0"
  shows "\<exists>t' r. findspot (\<lambda>k'. eqv k' k) (H k) True t = Some (t', r) \<and> table_ok H eqv t' \<and>
    length (tbl t') = length (tbl t) \<and> usage t' = usage t \<and> occupancy t' = occupancy t \<and>
    max_occupancy t' = max_occupancy t \<and> (\<forall>k2. table_lookup eqv t' k2 = table_lookup eqv t k2) \<and>
    (case r of
       None \<Rightarrow> occupancy t = length (tbl t) \<and> table_lookup eqv t k = None
     | Some j \<Rightarrow> spot_for H eqv t' k j \<and>
         table_lookup eqv t k = (if in_use (tbl t' ! j) then Some (val (tbl t' ! j)) else None))"
proof -
  let ?n = "length (tbl t)" and ?S = "stops (\<lambda>k'. eqv k' k) (H k) t"
  have n: "0 < ?n" "\<exists>l. ?n = 2 ^ l"
    using ok by (auto simp: table_ok_def geometry_def)
  note spec = findspot_spec [OF table_ok_geometry [OF ok] hk, of "\<lambda>k'. eqv k' k" True]
  show ?thesis
  proof (cases "table_lookup eqv t k")
    case (Some v)
    then obtain j where j: "j < ?n" "holds eqv (tbl t ! j) k"
      by (metis option.distinct(1) table_lookup_None_iff)
    obtain m where m: "m < ?n" "find ?S [0..<?n] = Some m" "path ?n (H k) m = j"
      using find_stop_hit [OF ok j] by blast
    have clear: "\<forall>i < m. \<not> is_blank (ent t (H k) i)"
      using m(2) by (auto simp: find_Some_iff stops_def nth_upt)
    have hitj: "hit (\<lambda>k'. eqv k' k) (H k) (tbl t ! j)" "in_use (tbl t ! j)"
      using holds_hash [OF table_ok_entryD(1) [OF ok j(1)] j(2)] j(2) by (simp_all add: holds_def)
    have v: "table_lookup eqv t k = Some (val (tbl t ! j))"
      by (rule table_lookup_SomeI [OF ok j])
    show ?thesis
    proof (cases "first_reuse t (H k) True m")
      case None
      have "reachable t (H k) j"
        using m clear by (auto simp: reachable_def)
      then have "spot_for H eqv t k j"
        using j table_ok_unique [OF ok _ j(1) _ j(2)] unfolding spot_for_def by blast
      with None spec m hitj v ok show ?thesis
        by (auto simp: found_at_def)
    next
      case (Some r)
      note r = first_reuse_reachable [OF Some n(1) less_imp_le [OF m(1)] clear]
      note mv = move_entry [OF ok j r hk]
      have "found_at (\<lambda>k'. eqv k' k) (H k) True t m =
          (lookup_stats m (t\<lparr>tbl := (tbl t)[r := tbl t ! j, j := reusable_entry]\<rparr>), Some r)"
        using Some m(3) hitj(1) by (simp add: found_at_def Let_def lookup_stats_update)
      with spec m(2) mv v hitj(2) show ?thesis
        by simp
    qed
  next
    case none: None
    show ?thesis
    proof (cases "find ?S [0..<?n]")
      case None
      have "\<not> is_blank (tbl t ! j)" if "j < ?n" for j
      proof -
        obtain l where l: "?n = 2 ^ l"
          using n(2) by blast
        obtain i where "i < ?n" "path ?n (H k) i = j"
          using path_onto [OF l \<open>j < ?n\<close>] by blast
        with None show ?thesis
          by (auto simp: find_None_iff stops_def ent_def)
      qed
      then have "filter (\<lambda>e. \<not> is_blank e) (tbl t) = tbl t"
        by (auto simp: filter_id_conv in_set_conv_nth)
      with None spec ok none show ?thesis
        by (auto simp: table_ok_def)
    next
      case (Some m)
      then have m: "m < ?n" "\<forall>i < m. \<not> is_blank (ent t (H k) i)"
        by (auto simp: find_Some_iff stops_def nth_upt)
      note bl = find_stop_absent [OF hk none Some]
      let ?r = "case first_reuse t (H k) True m of None \<Rightarrow> path ?n (H k) m | Some r \<Rightarrow> r"
      have r: "?r < ?n \<and> reachable t (H k) ?r \<and> \<not> in_use (tbl t ! ?r)"
      proof (cases "first_reuse t (H k) True m")
        case None
        have "\<not> in_use (ent t (H k) m)"
          using bl(1) not_blank_in_use by blast
        moreover have "reachable t (H k) (path ?n (H k) m)"
          using m by (auto simp: reachable_def)
        ultimately show ?thesis
          using None path_less n(1) by (simp add: ent_def)
      next
        case (Some r)
        show ?thesis
          using first_reuse_reachable [OF Some n(1) less_imp_le [OF m(1)] m(2)] Some by simp
      qed
      have "spot_for H eqv t k ?r"
        using r none unfolding spot_for_def table_lookup_None_iff by blast
      moreover have "found_at (\<lambda>k'. eqv k' k) (H k) True t m = (lookup_stats m t, Some ?r)"
        using bl(2) by (simp add: found_at_def Let_def ent_def split: option.split)
      ultimately show ?thesis
        using Some spec ok none r by auto
    qed
  qed
qed

text \<open>A table without reusable entries.\<close>

lemma filter_length_eqD:
  "(\<And>x. x \<in> set xs \<Longrightarrow> P x \<Longrightarrow> Q x) \<Longrightarrow> length (filter P xs) = length (filter Q xs) \<Longrightarrow>
   x \<in> set xs \<Longrightarrow> Q x \<Longrightarrow> P x"
proof (induction xs)
  case (Cons a xs)
  have le: "length (filter P xs) \<le> length (filter Q xs)"
  proof -
    have "filter P xs = filter P (filter Q xs)"
      using Cons.prems(1) by (auto intro: filter_cong)
    then show ?thesis
      by (metis length_filter_le)
  qed
  show ?case
    using Cons le by (auto split: if_splits)
qed simp

lemma no_reusable:
  assumes ok: "table_ok H eqv t" and eq: "occupancy t = usage t" and j: "j < length (tbl t)"
  shows "in_use (tbl t ! j) \<longleftrightarrow> \<not> is_blank (tbl t ! j)"
  using filter_length_eqD [of "tbl t" in_use "\<lambda>e. \<not> is_blank e" "tbl t ! j"] not_blank_in_use ok eq j
  by (auto simp: table_ok_def)

lemma rehash_ok:
  assumes "table_ok H eqv t" "occupancy t = usage t"
    and "\<forall>e \<in> set es. entry_ok H e"
    and "\<forall>k. length (filter (\<lambda>e. holds eqv e k) es) + (if table_lookup eqv t k = None then 0 else 1) \<le> 1"
    and "usage t + length (filter in_use es) \<le> length (tbl t)"
  shows "\<exists>t'. rehash eqv es t = Some (Some t') \<and> table_ok H eqv t' \<and> length (tbl t') = length (tbl t) \<and>
    usage t' = usage t + length (filter in_use es) \<and> occupancy t' = usage t' \<and>
    (\<forall>k. table_lookup eqv t' k =
       (case find (\<lambda>e. holds eqv e k) es of None \<Rightarrow> table_lookup eqv t k | Some e \<Rightarrow> Some (val e)))"
  using assms
proof (induction es arbitrary: t)
  case Nil
  then show ?case by simp
next
  case (Cons e es)
  show ?case
  proof (cases "in_use e")
    case False
    then have "\<not> holds eqv e k" for k
      by (simp add: holds_def)
    with False Cons show ?thesis by (simp add: in_use_def)
  next
    case True
    then obtain k where k: "key e = Key k" "hashk e = H k" "H k \<noteq> 0"
      using Cons.prems(3) by (auto simp: entry_ok_def shape_ok_def in_use_def)
    have e: "entry_for (H k) k (val e) = e"
      using k by (simp add: entry_for_def)
    have he: "holds eqv e k2 \<longleftrightarrow> eqv k k2" for k2
      using holds_entry_for [OF k(3), of k "val e" k2] e by simp
    have none: "table_lookup eqv t k = None"
      using Cons.prems(4) [THEN spec, of k] he eqv_refl by (auto split: if_splits)
    obtain t1 r where fs: "findspot (\<lambda>k'. eqv k' k) (H k) True t = Some (t1, r)" "table_ok H eqv t1"
        "length (tbl t1) = length (tbl t)" "usage t1 = usage t" "occupancy t1 = occupancy t"
        "\<forall>k2. table_lookup eqv t1 k2 = table_lookup eqv t k2"
        "case r of None \<Rightarrow> occupancy t = length (tbl t) \<and> table_lookup eqv t k = None
         | Some j \<Rightarrow> spot_for H eqv t1 k j \<and>
             table_lookup eqv t k = (if in_use (tbl t1 ! j) then Some (val (tbl t1 ! j)) else None)"
      using findspot_add [OF Cons.prems(1) k(3)] by blast
    have "r \<noteq> None"
      using fs(7) Cons.prems(2,5) True by (auto split: option.splits)
    then obtain j where j: "r = Some j" "spot_for H eqv t1 k j" "\<not> in_use (tbl t1 ! j)"
      using fs(7) none by (auto split: if_splits)
    have jl: "j < length (tbl t1)"
      using j(2) unfolding spot_for_def by blast
    have "is_blank (tbl t1 ! j)"
      using no_reusable [OF fs(2) _ jl] fs(4,5) Cons.prems(2) j(3) by simp
    then have w: "t1\<lparr>tbl := (tbl t1)[j := e], usage := usage t1 + 1, occupancy := occupancy t1 + 1\<rparr>
        = table_write t1 j (H k) k (val e)" (is "?t2 = _")
      using j(3) e by (simp add: table_write_def)
    note ok2 = table_write_ok [OF fs(2) j(2) k(3), of "val e", folded w]
    have cnt: "length (filter (\<lambda>e. holds eqv e k2) es) + (if table_lookup eqv ?t2 k2 = None then 0 else 1) \<le> 1" for k2
      using Cons.prems(4) [THEN spec, of k2] ok2(2) [of k2] fs(6) he [of k2] by (auto split: if_splits)
    have find: "find (\<lambda>e. holds eqv e k2) es = None" if "eqv k k2" for k2
      using cnt [of k2] ok2(2) [of k2] that by (auto simp: find_None_iff filter_empty_conv)
    have "\<exists>t'. rehash eqv es ?t2 = Some (Some t') \<and> table_ok H eqv t' \<and> length (tbl t') = length (tbl ?t2) \<and>
        usage t' = usage ?t2 + length (filter in_use es) \<and> occupancy t' = usage t' \<and>
        (\<forall>k. table_lookup eqv t' k =
          (case find (\<lambda>e. holds eqv e k) es of None \<Rightarrow> table_lookup eqv ?t2 k | Some e \<Rightarrow> Some (val e)))"
      using Cons.prems fs True by (intro Cons.IH ok2(1) allI cnt) simp_all
    then obtain t' where t': "rehash eqv es ?t2 = Some (Some t')" "table_ok H eqv t'"
        "length (tbl t') = length (tbl t)" "usage t' = usage t + length (filter in_use (e # es))"
        "occupancy t' = usage t'"
        "\<forall>k. table_lookup eqv t' k =
          (case find (\<lambda>e. holds eqv e k) es of None \<Rightarrow> table_lookup eqv ?t2 k | Some e \<Rightarrow> Some (val e))"
      using fs(3,4) True by auto
    have "rehash eqv (e # es) t = Some (Some t')"
      using k fs(1) j(1) jl t'(1) by (simp add: mem_simps)
    moreover have "table_lookup eqv t' k2 =
        (case find (\<lambda>e. holds eqv e k2) (e # es) of None \<Rightarrow> table_lookup eqv t k2 | Some e \<Rightarrow> Some (val e))" for k2
      using t'(6) ok2(2) [of k2] find [of k2] he [of k2] fs(6) by (cases "eqv k k2") (auto split: option.split)
    ultimately show ?thesis
      using t' by blast
  qed
qed

end

definition empty_entries :: "nat \<Rightarrow> 'k entry list" where
  "empty_entries n = replicate n blank_entry"

lemma empty_table_ok:
  assumes "tbl t = empty_entries n" "n = 2 ^ m" "2 \<le> n" "modmask t = n - 1" "usage t = 0" "occupancy t = 0"
    "max_occupancy t = occupancy_limit n"
  shows "table_ok H eqv t" "table_lookup eqv t k = None" "length (tbl t) = n"
  using assms
  by (auto simp: table_ok_def geometry_def empty_entries_def blank_entry_def shape_ok_def entry_ok_def
      in_use_def is_blank_def holds_def table_lookup_None_iff)

lemma usage_le_occupancy:
  assumes "table_ok H eqv t"
  shows "usage t \<le> occupancy t" "occupancy t \<le> length (tbl t)"
proof -
  have "filter in_use (tbl t) = filter in_use (filter (\<lambda>e. \<not> is_blank e) (tbl t))"
    by (auto intro: filter_cong dest: not_blank_in_use)
  then show "usage t \<le> occupancy t"
    using assms by (metis length_filter_le table_ok_def)
  show "occupancy t \<le> length (tbl t)"
    using assms by (simp add: table_ok_def)
qed

lemma occupancy_limit_less: "2 \<le> n \<Longrightarrow> occupancy_limit n < n"
  by (auto simp: occupancy_limit_def)

lemma old_table_keys_distinct:
  assumes ok: "table_ok H eqv t"
  shows "length (filter (\<lambda>e. holds eqv e k) (tbl t)) \<le> 1"
proof -
  let ?I = "{j. j < length (tbl t) \<and> holds eqv (tbl t ! j) k}"
  have "card ?I \<le> 1"
    using table_ok_unique [OF ok] by (intro card_le_Suc0_iff_eq [THEN iffD2, unfolded One_nat_def [symmetric]]) auto
  then show ?thesis
    by (simp add: length_filter_conv_card)
qed

end
