(* ===== verification/TableStore.thy ===== *)
theory TableStore
  imports ProbeTable
begin

section \<open>What a table of objects promises\<close>

text \<open>
  This theory completes the table with the multiset of its pairs, the facts about an
  insertion, a removal and a rehash that the operations of both hash tables use, the
  table's mutex, and the interface \<open>object_map\<close>: a store of objects under keys, seen by its
  clients as a map, that accounts for every reference it takes and drops.
\<close>

subsection \<open>The pairs of a table\<close>

fun the_key :: "'k slotkey \<Rightarrow> 'k" where
  "the_key (Key k) = k"
| "the_key _ = undefined"

definition pair_of :: "'k entry \<Rightarrow> 'k \<times> ptr" where
  "pair_of e = (the_key (key e), val e)"

definition pairs :: "'k table \<Rightarrow> ('k \<times> ptr) multiset" where
  "pairs t = mset (map pair_of (filter in_use (tbl t)))"

lemma mset_filter_update:
  "i < length xs \<Longrightarrow>
   mset (map f (filter P (xs[i := x]))) + (if P (xs ! i) then {#f (xs ! i)#} else {#}) =
   mset (map f (filter P xs)) + (if P x then {#f x#} else {#})"
proof (induction xs arbitrary: i)
  case (Cons a xs)
  show ?case
  proof (cases i)
    case (Suc j)
    with Cons.IH [of j] Cons.prems show ?thesis by (auto split: if_splits)
  qed simp
qed simp

lemma pairs_update:
  assumes "i < length (tbl t)"
  shows "pairs (t\<lparr>tbl := (tbl t)[i := e]\<rparr>) + (if in_use (tbl t ! i) then {#pair_of (tbl t ! i)#} else {#}) =
    pairs t + (if in_use e then {#pair_of e#} else {#})"
  using mset_filter_update [OF assms, of pair_of in_use e] by (simp add: pairs_def)

lemma pairs_cong: "tbl t = tbl t' \<Longrightarrow> pairs t = pairs t'"
  by (simp add: pairs_def)

lemma lookup_stats_pairs [simp]: "pairs (lookup_stats m t) = pairs t"
  by (rule pairs_cong) simp

lemma pairs_write:
  assumes "r < length (tbl t)" "hk \<noteq> 0"
  shows "pairs (table_write t r hk k v) + (if in_use (tbl t ! r) then {#pair_of (tbl t ! r)#} else {#}) =
    pairs t + {#(k, v)#}"
proof -
  have "pairs (table_write t r hk k v) = pairs (t\<lparr>tbl := (tbl t)[r := entry_for hk k v]\<rparr>)"
    by (rule pairs_cong) (simp add: table_write_def)
  then show ?thesis
    using pairs_update [OF assms(1), of "entry_for hk k v"] assms(2)
    by (simp add: entry_for_def in_use_def pair_of_def)
qed

lemma pairs_delete:
  assumes "r < length (tbl t)" "in_use (tbl t ! r)"
  shows "pairs t = add_mset (pair_of (tbl t ! r)) (pairs (table_delete t r))"
proof -
  have "pairs (table_delete t r) = pairs (t\<lparr>tbl := (tbl t)[r := reusable_entry]\<rparr>)"
    by (rule pairs_cong) (simp add: table_delete_def)
  then show ?thesis
    using pairs_update [OF assms(1), of reusable_entry] assms(2) by simp
qed

lemma pairs_move:
  assumes "r < length (tbl t)" "c < length (tbl t)" "in_use (tbl t ! c)" "\<not> in_use (tbl t ! r)"
  shows "pairs (t\<lparr>tbl := (tbl t)[r := tbl t ! c, c := reusable_entry]\<rparr>) = pairs t"
proof -
  have "r \<noteq> c" using assms by auto
  then show ?thesis
    using pairs_update [OF assms(1), of "tbl t ! c"] assms
      pairs_update [of c "t\<lparr>tbl := (tbl t)[r := tbl t ! c]\<rparr>" reusable_entry]
    by simp
qed

lemma findspot_pairs:
  assumes g: "geometry t" and hk: "hk \<noteq> 0" and f: "findspot match hk adding t = Some (t', r)"
  shows "pairs t' = pairs t"
proof (cases "find (stops match hk t) [0..<length (tbl t)]")
  case None
  then show ?thesis
    using findspot_spec [OF g hk, of match adding] f by simp
next
  case (Some m)
  have n: "0 < length (tbl t)"
    using geometry_length [OF g] by auto
  have found: "(t', r) = found_at match hk adding t m"
    using findspot_spec [OF g hk, of match adding] f Some by simp
  let ?c = "path (length (tbl t)) hk m"
  have c: "?c < length (tbl t)"
    using n by (rule path_less)
  show ?thesis
  proof (cases "first_reuse t hk adding m")
    case None
    with found show ?thesis by (auto simp: found_at_def Let_def)
  next
    case reuse: (Some r')
    then have "\<not> in_use (tbl t ! r')" "r' < length (tbl t)"
      using first_reuse_SomeD(2) [OF reuse] path_less [OF n] by (auto simp: ent_def)
    moreover have "in_use (tbl t ! ?c)" if "hit match hk (tbl t ! ?c)"
      using that hk by (simp add: hit_def in_use_def)
    ultimately show ?thesis
      using found reuse pairs_move [of r' t ?c] c
      by (auto simp: found_at_def lookup_stats_def Let_def pairs_def split: if_splits)
  qed
qed

subsection \<open>Insertion, removal, rehash\<close>

context key_hashing
begin

text \<open>A table with a blank entry always has a place for a key.\<close>

lemma insertion_place:
  assumes ok: "table_ok H eqv t" and hk: "H k \<noteq> 0" and room: "occupancy t < length (tbl t)"
  obtains t' j where "findspot (\<lambda>k'. eqv k' k) (H k) True t = Some (t', Some j)"
    and "table_ok H eqv t'" "j < length (tbl t')" "length (tbl t') = length (tbl t)"
    and "usage t' = usage t" "pairs t' = pairs t"
    and "\<forall>k2. table_lookup eqv t' k2 = table_lookup eqv t k2"
    and "table_lookup eqv t k = (if in_use (tbl t' ! j) then Some (val (tbl t' ! j)) else None)"
    and "\<And>v. table_ok H eqv (table_write t' j (H k) k v)"
    and "\<And>v k2. table_lookup eqv (table_write t' j (H k) k v) k2 =
           (if eqv k k2 then Some v else table_lookup eqv t k2)"
proof -
  obtain t' r where f: "findspot (\<lambda>k'. eqv k' k) (H k) True t = Some (t', r)" "table_ok H eqv t'"
      "length (tbl t') = length (tbl t)" "usage t' = usage t"
      "\<forall>k2. table_lookup eqv t' k2 = table_lookup eqv t k2"
      "case r of None \<Rightarrow> occupancy t = length (tbl t) \<and> table_lookup eqv t k = None
       | Some j \<Rightarrow> spot_for H eqv t' k j \<and>
           table_lookup eqv t k = (if in_use (tbl t' ! j) then Some (val (tbl t' ! j)) else None)"
    using findspot_add [OF ok hk] by blast
  then obtain j where j: "r = Some j" "spot_for H eqv t' k j"
      "table_lookup eqv t k = (if in_use (tbl t' ! j) then Some (val (tbl t' ! j)) else None)"
    using room by (cases r) auto
  have "j < length (tbl t')"
    using j(2) unfolding spot_for_def by blast
  moreover have "pairs t' = pairs t"
    using findspot_pairs [OF table_ok_geometry [OF ok] hk f(1)] .
  ultimately show ?thesis
    using that [of t' j] f j table_write_ok [OF f(2) j(2) hk] by simp
qed

lemma rehash_pairs:
  assumes "table_ok H eqv t" "\<forall>e \<in> set es. entry_ok H e" "rehash eqv es t = Some (Some t')"
    and "occupancy t = usage t"
    and "\<forall>k. length (filter (\<lambda>e. holds eqv e k) es) + (if table_lookup eqv t k = None then 0 else 1) \<le> 1"
    and "usage t + length (filter in_use es) \<le> length (tbl t)"
  shows "pairs t' = pairs t + mset (map pair_of (filter in_use es))"
  using assms
proof (induction es arbitrary: t)
  case Nil
  then show ?case by simp
next
  case (Cons e es)
  show ?case
  proof (cases "in_use e")
    case False
    then have "\<not> holds eqv e k" for k
      by (simp add: holds_def)
    with False Cons show ?thesis by (simp add: in_use_def)
  next
    case True
    then obtain k where k: "key e = Key k" "hashk e = H k" "H k \<noteq> 0"
      using Cons.prems(2) by (auto simp: entry_ok_def shape_ok_def in_use_def)
    have e: "entry_for (H k) k (val e) = e"
      using k by (simp add: entry_for_def)
    have he: "holds eqv e k2 \<longleftrightarrow> eqv k k2" for k2
      using holds_entry_for [OF k(3), of k "val e" k2] e by simp
    have none: "table_lookup eqv t k = None"
      using Cons.prems(5) [THEN spec, of k] he eqv_refl by (auto split: if_splits)
    have room: "occupancy t < length (tbl t)"
      using Cons.prems(4,6) True by simp
    obtain t1 j where p: "findspot (\<lambda>k'. eqv k' k) (H k) True t = Some (t1, Some j)"
        "table_ok H eqv t1" "j < length (tbl t1)" "length (tbl t1) = length (tbl t)"
        "usage t1 = usage t" "pairs t1 = pairs t"
        "\<forall>k2. table_lookup eqv t1 k2 = table_lookup eqv t k2"
        "table_lookup eqv t k = (if in_use (tbl t1 ! j) then Some (val (tbl t1 ! j)) else None)"
        "\<And>v. table_ok H eqv (table_write t1 j (H k) k v)"
        "\<And>v k2. table_lookup eqv (table_write t1 j (H k) k v) k2 =
           (if eqv k k2 then Some v else table_lookup eqv t k2)"
      by (rule insertion_place [OF Cons.prems(1) k(3) room]) blast
    have nu: "\<not> in_use (tbl t1 ! j)"
      using none p(8) by (auto split: if_splits)
    have occ: "occupancy t1 = usage t1"
      using findspot_add [OF Cons.prems(1) k(3)] p(1) Cons.prems(4) by auto
    have "is_blank (tbl t1 ! j)"
      using no_reusable [OF p(2) occ p(3)] nu by simp
    then have w: "t1\<lparr>tbl := (tbl t1)[j := e], usage := usage t1 + 1, occupancy := occupancy t1 + 1\<rparr>
        = table_write t1 j (H k) k (val e)" (is "?t2 = _")
      using nu e by (simp add: table_write_def)
    have "rehash eqv es ?t2 = Some (Some t')"
      using Cons.prems(3) k p(1,3) by (simp add: mem_simps)
    moreover have "length (filter (\<lambda>e. holds eqv e k2) es) + (if table_lookup eqv ?t2 k2 = None then 0 else 1) \<le> 1"
      for k2
      using Cons.prems(5) [THEN spec, of k2] p(10) [of "val e" k2] w he [of k2] by (auto split: if_splits)
    ultimately have "pairs t' = pairs ?t2 + mset (map pair_of (filter in_use es))"
    proof (intro Cons.IH allI)
      show "table_ok H eqv ?t2"
        using p(9) [of "val e"] by (simp only: w)
      show "usage ?t2 + length (filter in_use es) \<le> length (tbl ?t2)"
        using Cons.prems(6) p(4,5) True by simp
    qed (use Cons.prems(2) occ in simp_all)
    moreover have "pairs ?t2 = add_mset (pair_of e) (pairs t)"
      using pairs_write [OF p(3) k(3), of k "val e"] nu p(6) w k by (simp add: pair_of_def)
    ultimately show ?thesis
      using True by simp
  qed
qed

text \<open>Moving a whole table into an empty one that is large enough.\<close>

lemma rehash_into:
  assumes ok: "table_ok H eqv t" and n: "n = 2 ^ m" "2 \<le> n" "usage t \<le> n"
    and t0: "tbl t0 = empty_entries n" "modmask t0 = n - 1" "usage t0 = 0" "occupancy t0 = 0"
      "max_occupancy t0 = occupancy_limit n"
  shows "\<exists>t'. rehash eqv (tbl t) t0 = Some (Some t') \<and> table_ok H eqv t' \<and> length (tbl t') = n \<and>
    usage t' = usage t \<and> occupancy t' = usage t \<and> pairs t' = pairs t \<and>
    (\<forall>k. table_lookup eqv t' k = table_lookup eqv t k)"
proof -
  note e = empty_table_ok [OF t0(1) n(1,2) t0(2-5)]
  have es: "\<forall>e \<in> set (tbl t). entry_ok H e"
    using table_ok_entryD(1) [OF ok] by (auto simp: in_set_conv_nth)
  have cnt: "\<forall>k. length (filter (\<lambda>e. holds eqv e k) (tbl t)) + (if table_lookup eqv t0 k = None then 0 else 1) \<le> 1"
    using old_table_keys_distinct [OF ok] e(2) [where eqv = eqv] by simp
  have us: "usage t0 + length (filter in_use (tbl t)) \<le> length (tbl t0)" "length (filter in_use (tbl t)) = usage t"
    using ok n(3) t0(3) e(3) by (simp_all add: table_ok_def)
  have "pairs t0 = {#}"
    using t0(1) by (simp add: pairs_def empty_entries_def blank_entry_def in_use_def)
  moreover obtain t' where t': "rehash eqv (tbl t) t0 = Some (Some t')" "table_ok H eqv t'"
      "length (tbl t') = n" "usage t' = usage t" "occupancy t' = usage t"
      "\<forall>k. table_lookup eqv t' k =
       (case find (\<lambda>e. holds eqv e k) (tbl t) of None \<Rightarrow> table_lookup eqv t0 k | Some e \<Rightarrow> Some (val e))"
    using rehash_ok [OF e(1) _ es cnt us(1)] t0(3,4) us(2) e(3) by auto
  moreover have "pairs t' = pairs t0 + pairs t"
    using rehash_pairs [OF e(1) es t'(1) _ cnt us(1)] t0(3,4) by (simp add: pairs_def)
  moreover have "table_lookup eqv t' k = table_lookup eqv t k" for k
    using t'(6) e(2) [where eqv = eqv and k = k]
    by (simp add: table_lookup_def [of eqv t] split: option.split)
  ultimately show ?thesis
    by auto
qed

end

subsection \<open>The table with its mutex\<close>

text \<open>
  The nested mutex of a table: how often its owner holds it, or \<open>None\<close> for a table without
  one (a null pointer in the code).
\<close>

type_synonym mutex = "nat option"

definition mutex_lock :: "mutex \<Rightarrow> mutex" where
  "mutex_lock m = map_option Suc m"

definition mutex_unlock :: "mutex \<Rightarrow> mutex" where
  "mutex_unlock m = map_option (\<lambda>d. d - 1) m"

lemma unlock_lock [simp]: "mutex_unlock (mutex_lock m) = m"
  by (cases m) (simp_all add: mutex_lock_def mutex_unlock_def)

record 'k locked_table =
  entries :: "'k table"
  mutex :: mutex

text \<open>
  A count of entries held in an \<open>int\<close> loop variable: beyond \<open>INT_MAX\<close> it is negative and
  the loop has no iteration.
\<close>

definition int_count :: "nat \<Rightarrow> nat" where
  "int_count n = (if n mod 2 ^ 32 < 2 ^ 31 then n mod 2 ^ 32 else 0)"

definition table_capacity :: "'k table \<Rightarrow> nat" where
  "table_capacity t = (modmask t + 1) mod 2 ^ 32"

text \<open>The entries a loop with an \<open>int\<close> counter from \<open>modmask + 1\<close> down visits.\<close>

definition visited :: "'k table \<Rightarrow> 'k entry list option" where
  "visited t = mem_load (tbl t) 0 (int_count (modmask t + 1))"

subsection \<open>The invariant of a store\<close>

definition store_ok :: "('k \<Rightarrow> nat) \<Rightarrow> ('k \<Rightarrow> 'k \<Rightarrow> bool) \<Rightarrow> 'k locked_table \<Rightarrow> bool" where
  "store_ok H eqv s \<longleftrightarrow> table_ok H eqv (entries s) \<and> length (tbl (entries s)) \<le> 2 ^ 30"

definition store_lookup :: "('k \<Rightarrow> 'k \<Rightarrow> bool) \<Rightarrow> 'k locked_table \<Rightarrow> 'k \<Rightarrow> ptr option" where
  "store_lookup eqv s k = table_lookup eqv (entries s) k"

definition store_pairs :: "'k locked_table \<Rightarrow> ('k \<times> ptr) multiset" where
  "store_pairs s = pairs (entries s)"

text \<open>Keys that can be added before the entries could pass 2^30.\<close>

definition store_room :: "'k locked_table \<Rightarrow> nat" where
  "store_room s = 2 ^ 28 - usage (entries s)"

lemma int_count_small: "n \<le> 2 ^ 30 \<Longrightarrow> int_count n = n"
  by (simp add: int_count_def)

lemma table_capacity_small:
  assumes "table_ok H eqv t" "length (tbl t) \<le> 2 ^ 30"
  shows "modmask t + 1 = length (tbl t)" "table_capacity t = length (tbl t)"
    "int_count (table_capacity t) = length (tbl t)"
    "visited t = Some (tbl t)"
proof -
  show m: "modmask t + 1 = length (tbl t)"
    using assms by (auto simp: table_ok_def geometry_def)
  then show "table_capacity t = length (tbl t)" "int_count (table_capacity t) = length (tbl t)"
    using assms(2) by (simp_all add: table_capacity_def int_count_def)
  show "visited t = Some (tbl t)"
    using assms(2) by (simp only: visited_def int_count_small m) (simp add: mem_simps)
qed

lemma grow_threshold_le: "grow_threshold m \<le> m"
  by (auto simp: grow_threshold_def)

lemma grow_threshold_large:
  assumes "2 ^ 29 \<le> n"
  shows "2 ^ 28 \<le> grow_threshold (occupancy_limit n)"
proof -
  have "(n div 10) * 7 \<le> occupancy_limit n"
    by (auto simp: occupancy_limit_def)
  moreover have "53687091 \<le> n div 10"
    using assms by simp
  ultimately have "375809637 \<le> occupancy_limit n"
    by linarith
  then show ?thesis
    by (auto simp: grow_threshold_def)
qed

lemma power_two_double:
  fixes n :: nat
  assumes "n = 2 ^ m" "n < 2 ^ 29"
  shows "2 * n \<le> 2 ^ 29"
proof -
  have "m < 29"
    using assms power_less_imp_less_exp [of 2 m 29] by simp
  then have "Suc m \<le> 29" by simp
  then have "(2::nat) ^ Suc m \<le> 2 ^ 29"
    by (intro power_increasing) simp_all
  with assms show ?thesis by simp
qed

lemma new_mask: "0 < n \<Longrightarrow> n \<le> 2 ^ 30 \<Longrightarrow> (2 * n + 2 ^ 64 - 1) mod 2 ^ 32 = 2 * n - 1" for n :: nat
proof -
  assume n: "0 < n" "n \<le> 2 ^ 30"
  then have "2 * n + 2 ^ 64 - 1 = (2 * n - 1) + 2 ^ 32 * 2 ^ 32" by simp
  then have "(2 * n + 2 ^ 64 - 1) mod 2 ^ 32 = (2 * n - 1) mod 2 ^ 32"
    by (simp only: mod_mult_self2)
  with n show ?thesis by simp
qed

text \<open>
  The new size of a table that grows: it doubles only if more than three quarters of the
  occupancy limit are in use; in both cases there is a blank entry afterwards.
\<close>

definition grown_size :: "'k table \<Rightarrow> nat" where
  "grown_size t = (if usage t > grow_threshold (max_occupancy t) then 2 * length (tbl t) else length (tbl t))"

lemma grown_size_bounds:
  assumes ok: "table_ok H eqv t" and le: "length (tbl t) \<le> 2 ^ 30" and u: "usage t \<le> 2 ^ 28"
  shows "\<exists>m. grown_size t = 2 ^ m" "2 \<le> grown_size t" "usage t < grown_size t" "grown_size t \<le> 2 ^ 30"
proof -
  let ?n = "length (tbl t)"
  obtain m where m: "?n = 2 ^ m" and n2: "2 \<le> ?n" and mx: "max_occupancy t = occupancy_limit ?n"
    using ok by (auto simp: table_ok_def geometry_def)
  show "\<exists>m. grown_size t = 2 ^ m"
    using m by (metis grown_size_def power_Suc)
  show "2 \<le> grown_size t"
    using n2 by (simp add: grown_size_def)
  show "usage t < grown_size t"
    using usage_le_occupancy [OF ok] occupancy_limit_less [OF n2] grow_threshold_le [of "occupancy_limit ?n"] n2 mx
    by (auto simp: grown_size_def)
  have "?n < 2 ^ 29" if "usage t > grow_threshold (max_occupancy t)"
  proof (rule ccontr)
    assume "\<not> ?n < 2 ^ 29"
    then have "2 ^ 28 \<le> grow_threshold (max_occupancy t)"
      using grow_threshold_large [of ?n] mx by (simp only: not_less)
    with that u show False by linarith
  qed
  then show "grown_size t \<le> 2 ^ 30"
    using power_two_double [OF m] le by (auto simp: grown_size_def)
qed

lemma table_write_eq:
  assumes "table_ok H eqv t" "r < length (tbl t)"
  shows "table_write t r hk k v =
    (if hashk (tbl t ! r) \<noteq> 0 then t\<lparr>tbl := (tbl t)[r := entry_for hk k v]\<rparr>
     else t\<lparr>usage := usage t + 1,
            occupancy := (if key (tbl t ! r) = NoKey then occupancy t + 1 else occupancy t),
            tbl := (tbl t)[r := entry_for hk k v]\<rparr>)"
  using table_ok_entryD(1) [OF assms]
  by (auto simp: table_write_def entry_ok_def shape_ok_def in_use_def is_blank_def)

lemma record_entries: "\<lparr>entries = t, mutex = mutex s\<rparr> = s\<lparr>entries := t\<rparr>"
  by (cases s) simp

lemma store_visited:
  assumes "store_ok H eqv s"
  shows "visited (entries s) = Some (tbl (entries s))"
    "mem_load (tbl (entries s)) 0 (table_capacity (entries s)) = Some (tbl (entries s))"
  using assms table_capacity_small [of H eqv "entries s"] by (simp_all add: store_ok_def mem_simps)

subsection \<open>The size of a new table\<close>

text \<open>The loop that doubles \<open>real_size\<close>; a shift of 2^63 gives 0 and it never ends.\<close>

fun real_size_loop :: "nat \<Rightarrow> u64 \<Rightarrow> u64 \<Rightarrow> u64 option" where
  "real_size_loop 0 real_size initial_usage = None"
| "real_size_loop (Suc fuel) real_size initial_usage =
     (if real_size < initial_usage then real_size_loop fuel (push_bit 1 real_size) initial_usage
      else Some real_size)"

definition real_size_for :: "u64 \<Rightarrow> u64 option" where
  "real_size_for initial_usage =
     real_size_loop 65 1 (push_bit 1 (if initial_usage = 0 then 32 else initial_usage))"

text \<open>A table as the constructors build it.\<close>

definition fresh_table :: "nat \<Rightarrow> 'k table" where
  "fresh_table real_size =
     \<lparr>tbl = empty_entries real_size,
      modmask = (real_size - 1) mod 2 ^ 32,
      max_occupancy = occupancy_limit real_size,
      occupancy = 0, usage = 0, nb_hops = 0, nb_lookups = 0\<rparr>"

lemma unat_power_two_u64: "i < 64 \<Longrightarrow> unat (2 ^ i :: u64) = 2 ^ i"
proof -
  assume i: "i < 64"
  have "unat (2 ^ i :: u64) = unat (word_of_nat (2 ^ i) :: u64)"
    by simp
  also have "\<dots> = 2 ^ i mod 2 ^ 64"
    by (simp only: unat_of_nat) simp
  also have "\<dots> = 2 ^ i"
    using i power_strict_increasing [of i 64 "2::nat"] by (simp del: power_strict_increasing_iff)
  finally show ?thesis .
qed

lemma real_size_loop_step:
  assumes "2 ^ i < init"
  shows "real_size_loop (Suc fuel) (2 ^ i) init = real_size_loop fuel (2 ^ Suc i) init"
proof -
  have "push_bit 1 (2 ^ i :: u64) = 2 ^ Suc i"
    by (simp add: push_bit_eq_mult)
  with assms show ?thesis
    by (simp only: real_size_loop.simps if_True)
qed

lemma real_size_loop_ok:
  assumes "i \<le> j" "j < 64" "unat init \<le> 2 ^ j" "j - i < fuel"
  shows "\<exists>m. i \<le> m \<and> m \<le> j \<and> real_size_loop fuel (2 ^ i) init = Some (2 ^ m) \<and> unat init \<le> 2 ^ m \<and>
           (i < m \<longrightarrow> 2 ^ (m - 1) < unat init)"
  using assms
proof (induction fuel arbitrary: i)
  case 0
  then show ?case by simp
next
  case (Suc fuel)
  have u: "unat (2 ^ i :: u64) = 2 ^ i"
    using Suc.prems by (intro unat_power_two_u64) simp
  show ?case
  proof (cases "(2 ^ i :: u64) < init")
    case True
    then have lt: "2 ^ i < unat init"
      using u by (simp add: word_less_nat_alt)
    then have "i \<noteq> j"
      using Suc.prems(3) by auto
    then have "Suc i \<le> j" "j - Suc i < fuel"
      using Suc.prems by auto
    from Suc.IH [OF this(1) Suc.prems(2,3) this(2)] obtain m where
      "Suc i \<le> m" "m \<le> j" "real_size_loop fuel (2 ^ Suc i) init = Some (2 ^ m)" "unat init \<le> 2 ^ m"
      "Suc i < m \<longrightarrow> 2 ^ (m - 1) < unat init"
      by blast
    moreover have "m - 1 = i" if "m = Suc i"
      using that by simp
    ultimately show ?thesis
      using True lt real_size_loop_step [OF True, of fuel]
      by (intro exI [of _ m]) (metis Suc_leD le_neq_implies_less)
  next
    case False
    then have "unat init \<le> 2 ^ i"
      using u by (simp add: word_less_nat_alt)
    with False Suc.prems show ?thesis
      by (intro exI [of _ i]) simp
  qed
qed

lemma real_size_loop_endless:
  assumes "2 ^ 63 < unat init"
  shows "real_size_loop fuel 0 init = None" "i < 64 \<Longrightarrow> real_size_loop fuel (2 ^ i) init = None"
proof -
  have pos: "0 < init"
    using assms by (simp add: word_less_nat_alt)
  show z: "real_size_loop fuel 0 init = None" for fuel
    using pos by (induction fuel) simp_all
  show "i < 64 \<Longrightarrow> real_size_loop fuel (2 ^ i) init = None"
  proof (induction fuel arbitrary: i)
    case (Suc fuel)
    have "(2::nat) ^ i \<le> 2 ^ 63"
      using Suc.prems by (intro power_increasing) simp_all
    then have lt: "(2 ^ i :: u64) < init"
      using assms unat_power_two_u64 [OF Suc.prems] by (simp add: word_less_nat_alt)
    show ?case
    proof (cases "i = 63")
      case True
      then have "push_bit 1 (2 ^ i :: u64) = 0"
        by (simp add: push_bit_eq_mult)
      with lt z show ?thesis by simp
    next
      case False
      then have "Suc i < 64"
        using Suc.prems by simp
      from Suc.IH [OF this] real_size_loop_step [OF lt] show ?thesis
        by simp
    qed
  qed simp
qed

lemma real_size_for_ok:
  assumes "0 < unat u" "unat u \<le> 2 ^ 62"
  shows "\<exists>m. real_size_for u = Some (2 ^ m) \<and> m < 64 \<and> 2 * unat u \<le> 2 ^ m \<and> 2 ^ m < 4 * unat u"
proof -
  have two: "unat (push_bit 1 u) = 2 * unat u"
    using assms(2) by (simp add: push_bit_eq_mult unat_word_ariths)
  obtain m where m: "real_size_loop 65 (2 ^ 0) (push_bit 1 u) = Some (2 ^ m)" "m \<le> 63"
      "unat (push_bit 1 u) \<le> 2 ^ m" "0 < m \<longrightarrow> 2 ^ (m - 1) < unat (push_bit 1 u)"
    using real_size_loop_ok [of 0 63 "push_bit 1 u" 65] two assms(2) by auto
  have "m \<noteq> 0"
    using m(3) two assms(1) by (cases m) auto
  then have "(2::nat) ^ m = 2 * 2 ^ (m - 1)"
    by (cases m) simp_all
  with m two assms(1) \<open>m \<noteq> 0\<close> have "2 * unat u \<le> 2 ^ m" "2 ^ m < 4 * unat u"
    by auto
  moreover have "u \<noteq> 0"
    using assms(1) by auto
  ultimately show ?thesis
    using m by (auto simp: real_size_for_def)
qed

lemma real_size_for_endless:
  assumes "2 ^ 62 < unat u" "unat u < 2 ^ 63"
  shows "real_size_for u = None"
proof -
  have "unat (push_bit 1 u) = 2 * unat u"
    using assms(2) by (simp add: push_bit_eq_mult unat_word_ariths)
  then have "real_size_loop 65 (2 ^ 0) (push_bit 1 u) = None"
    using assms(1) by (intro real_size_loop_endless) simp_all
  moreover have "u \<noteq> 0"
    using assms(1) by auto
  ultimately show ?thesis
    by (simp add: real_size_for_def)
qed

text \<open>For a usage of at most 2^28 the loop ends and the fresh table is a well-formed empty store.\<close>

lemma fresh_table_ok:
  fixes H :: "'k \<Rightarrow> nat" and eqv :: "'k \<Rightarrow> 'k \<Rightarrow> bool"
  assumes "n = 2 ^ m" "2 \<le> n" "n \<le> 2 ^ 29"
  shows "store_ok H eqv \<lparr>entries = fresh_table n :: 'k table, mutex = mu\<rparr>"
    "store_lookup eqv \<lparr>entries = fresh_table n :: 'k table, mutex = mu\<rparr> = (\<lambda>_. None)"
    "store_pairs \<lparr>entries = fresh_table n :: 'k table, mutex = mu\<rparr> = {#}"
    "store_room \<lparr>entries = fresh_table n :: 'k table, mutex = mu\<rparr> = 2 ^ 28"
    "length (tbl (fresh_table n :: 'k table)) = n"
proof -
  let ?t = "fresh_table n :: 'k table"
  have "modmask ?t = n - 1"
    using assms(2,3) by (simp add: fresh_table_def)
  then have t: "table_ok H eqv ?t" "\<And>k. table_lookup eqv ?t k = None"
    using empty_table_ok(1,2) [of ?t n m] assms(1,2) by (simp_all add: fresh_table_def)
  show len: "length (tbl ?t) = n"
    by (simp add: fresh_table_def empty_entries_def)
  show "store_ok H eqv \<lparr>entries = ?t, mutex = mu\<rparr>"
    using t(1) len assms(3) by (simp add: store_ok_def)
  show "store_lookup eqv \<lparr>entries = ?t, mutex = mu\<rparr> = (\<lambda>_. None)"
    using t(2) by (simp add: store_lookup_def fun_eq_iff)
  show "store_pairs \<lparr>entries = ?t, mutex = mu\<rparr> = {#}" "store_room \<lparr>entries = ?t, mutex = mu\<rparr> = 2 ^ 28"
    by (simp_all add: store_pairs_def pairs_def store_room_def fresh_table_def empty_entries_def blank_entry_def
        in_use_def)
qed

lemma new_size:
  assumes le: "unat u \<le> 2 ^ 28"
  shows "\<exists>m. map_option unat (real_size_for u) = Some (2 ^ m) \<and> (2::nat) \<le> 2 ^ m \<and> (2::nat) ^ m \<le> 2 ^ 29 \<and>
    (u = 0 \<and> (2::nat) ^ m = 64 \<or> u \<noteq> 0 \<and> 2 * unat u \<le> 2 ^ m \<and> 2 ^ m < 4 * unat u)"
proof -
  define w where "w = (if u = 0 then 32 else u)"
  have w: "0 < unat w" "unat w \<le> 2 ^ 62" "unat w \<le> 2 ^ 28"
    using le by (auto simp: w_def unat_gt_0)
  obtain m where m: "real_size_for w = Some (2 ^ m)" "m < 64" "2 * unat w \<le> 2 ^ m" "2 ^ m < 4 * unat w"
    using real_size_for_ok [OF w(1,2)] by blast
  have "real_size_for u = real_size_for w"
    by (simp add: real_size_for_def w_def)
  then have size: "map_option unat (real_size_for u) = Some (2 ^ m)"
    using m(1,2) unat_power_two_u64 by simp
  have lt30: "(2::nat) ^ m < 2 ^ 30"
    using m(4) w(3) by simp
  then have "m \<le> 29"
    using power_less_imp_less_exp [OF _ lt30] by simp
  then have n: "(2::nat) ^ m \<le> 2 ^ 29"
    by (intro power_increasing) simp_all
  have two: "(2::nat) \<le> 2 ^ m"
    using m(3) w(1) by linarith
  have "u = 0 \<and> (2::nat) ^ m = 64 \<or> u \<noteq> 0 \<and> 2 * unat u \<le> 2 ^ m \<and> 2 ^ m < 4 * unat u"
  proof (cases "u = 0")
    case True
    have "(2::nat) ^ 6 \<le> 2 ^ m" "(2::nat) ^ m < 2 ^ 7"
      using m(3,4) True by (simp_all add: w_def)
    then have "6 \<le> m" "m < 7"
      using power_le_imp_le_exp [of "2::nat" 6 m] power_less_imp_less_exp [of "2::nat" m 7] by linarith+
    then have "m = 6" by simp
    with True show ?thesis by simp
  next
    case False
    with m show ?thesis by (simp add: w_def)
  qed
  with size n two show ?thesis
    by blast
qed

subsection \<open>Enumerating and clearing\<close>

definition values_of :: "'k entry list \<Rightarrow> ptr list" where
  "values_of es = map val (filter (\<lambda>e. hashk e \<noteq> 0) es)"

lemma length_values_of: "table_ok H eqv t \<Longrightarrow> length (values_of (tbl t)) = usage t"
  by (simp add: values_of_def table_ok_def in_use_def [abs_def])

definition keys_of :: "'k entry list \<Rightarrow> 'k list" where
  "keys_of es = map (\<lambda>e. the_key (key e)) (filter in_use es)"

lemma keys_of_distinct:
  assumes ok: "table_ok H (=) t"
  shows "distinct (keys_of (tbl t))" "set (keys_of (tbl t)) = {k. table_lookup (=) t k \<noteq> None}"
proof -
  have holds: "holds (=) e k \<longleftrightarrow> in_use e \<and> the_key (key e) = k" if "e \<in> set (tbl t)" for e k
    using that ok by (auto simp: holds_def key_matches_def table_ok_def geometry_def shape_ok_def in_use_def
        split: slotkey.split)
  have "count_list (keys_of (tbl t)) k = length (filter (\<lambda>e. holds (=) e k) (tbl t))" for k
  proof -
    have "count_list (map (\<lambda>e. the_key (key e)) (filter in_use es)) k = length (filter (\<lambda>e. holds (=) e k) es)"
      if "set es \<subseteq> set (tbl t)" for es
      using that holds by (induction es) auto
    then show ?thesis
      by (simp add: keys_of_def)
  qed
  then have "count_list (keys_of (tbl t)) k \<le> 1" for k
    using old_table_keys_distinct [OF ok, of k] by simp
  then show "distinct (keys_of (tbl t))"
    by (simp add: distinct_count_atmost_1 count_list_mset)
       (metis One_nat_def count_greater_zero_iff le_antisym less_eq_Suc_le not_in_iff set_mset_mset)
  show "set (keys_of (tbl t)) = {k. table_lookup (=) t k \<noteq> None}"
  proof (intro set_eqI iffI)
    fix k assume "k \<in> set (keys_of (tbl t))"
    then obtain e where "e \<in> set (tbl t)" "holds (=) e k"
      using holds by (auto simp: keys_of_def)
    then show "k \<in> {k. table_lookup (=) t k \<noteq> None}"
      by (auto simp: table_lookup_None_iff in_set_conv_nth)
  next
    fix k assume "k \<in> {k. table_lookup (=) t k \<noteq> None}"
    then obtain j where "j < length (tbl t)" "holds (=) (tbl t ! j) k"
      by (auto simp: table_lookup_None_iff)
    with holds [of "tbl t ! j" k] show "k \<in> set (keys_of (tbl t))"
      by (auto simp: keys_of_def intro!: image_eqI [of _ _ "tbl t ! j"])
  qed
qed

text \<open>A table after \<open>clear\<close>: every entry in use has become reusable.\<close>

lemma cleared_table_ok:
  fixes t :: "'k table"
  assumes ok: "table_ok H eqv t"
  defines "t' \<equiv> t\<lparr>tbl := map (\<lambda>e. if in_use e then reusable_entry else e) (tbl t), usage := 0\<rparr>"
  shows "table_ok H eqv t'" "table_lookup eqv t' k = None" "pairs t' = {#}"
proof -
  let ?f = "\<lambda>e. if in_use e then reusable_entry else e"
  have nu: "\<not> in_use (?f e)" "is_blank (?f e) = is_blank e" "shape_ok e \<Longrightarrow> shape_ok (?f e)"
    "entry_ok H e \<Longrightarrow> entry_ok H (?f e)" for e :: "'k entry"
    by (auto dest: not_blank_in_use)
  have geo: "geometry t'"
    using table_ok_geometry [OF ok] nu(3) by (auto simp: geometry_def t'_def)
  have none: "filter in_use (tbl t') = []"
    using nu(1) by (auto simp: t'_def filter_empty_conv)
  show look: "table_lookup eqv t' k = None" for k
    using nu(1) by (auto simp: table_lookup_None_iff t'_def holds_def)
  show "pairs t' = {#}"
    by (simp only: pairs_def none) simp
  have "filter (\<lambda>e. \<not> is_blank e) (map ?f es) = map ?f (filter (\<lambda>e. \<not> is_blank e) es)" for es :: "'k entry list"
    using nu(2) by (induction es) auto
  then have "length (filter (\<lambda>e. \<not> is_blank e) (tbl t')) = occupancy t'"
    using ok by (simp add: table_ok_def t'_def)
  with geo none ok nu show "table_ok H eqv t'"
    by (auto simp: table_ok_def t'_def holds_def)
qed


lemma vspare_new: "mem (unat (if n = 0 then 32 else n)) \<Longrightarrow> unat n \<le> vspare (jxta_vector_new mem n)"
  by (auto simp: vspare_def jxta_vector_new_def Let_def INDEX_DEFAULT_SIZE_def)

text \<open>A new vector that is given as many objects as the table has entries in use.\<close>

lemma collect_ok:
  assumes ok: "store_ok H eqv s" and vmem: "\<forall>n \<le> 2 ^ 30. vmem n" and len: "length ps = usage (entries s)"
  shows "\<exists>vals. add_each (jxta_vector_add_object_last vmem) ps h
      (jxta_vector_new vmem (of_nat (usage (entries s)))) = Some (fold share ps h, vals) \<and>
    vector_ok vals \<and> vlist vals = ps"
proof -
  let ?t = "entries s" and ?u = "of_nat (usage (entries s)) :: u32"
  have t: "table_ok H eqv ?t" "length (tbl ?t) \<le> 2 ^ 30"
    using ok by (simp_all add: store_ok_def)
  have u30: "usage ?t \<le> 2 ^ 30"
    using usage_le_occupancy [OF t(1)] t(2) by linarith
  then have u: "unat ?u = usage ?t"
    by (simp add: unat_of_nat)
  have m: "vmem (if ?u = 0 then 32 else unat ?u)"
    using vmem u u30 by auto
  note new = new_vector [of vmem ?u, OF m]
  have "unat ?u \<le> vspare (jxta_vector_new vmem ?u)"
    by (rule vspare_new) (use m in \<open>auto split: if_splits\<close>)
  then have "length ps \<le> vspare (jxta_vector_new vmem ?u)"
    using u len by simp
  from vec.add_each_ok [OF new(1) this, of vmem h] new(2) show ?thesis
    by auto
qed

lemma mset_keys_values:
  "mset (values_of (tbl (entries s))) = image_mset snd (store_pairs s)"
  "mset (keys_of (tbl (entries s))) = image_mset fst (store_pairs s)"
proof -
  have "(\<lambda>e. hashk e \<noteq> 0) = (in_use :: 'a entry \<Rightarrow> bool)"
    by (simp add: in_use_def fun_eq_iff)
  then show "mset (values_of (tbl (entries s))) = image_mset snd (store_pairs s)"
    by (simp only: values_of_def store_pairs_def pairs_def) (simp add: pair_of_def multiset.map_comp comp_def)
  show "mset (keys_of (tbl (entries s))) = image_mset fst (store_pairs s)"
    by (simp add: keys_of_def store_pairs_def pairs_def pair_of_def multiset.map_comp comp_def)
qed

subsection \<open>The same map, a key less, a key more\<close>

text \<open>The result of growing, of a lookup, of a removal and of an insertion.\<close>

definition grows_to :: "('k \<Rightarrow> nat) \<Rightarrow> ('k \<Rightarrow> 'k \<Rightarrow> bool) \<Rightarrow> 'k table \<Rightarrow> 'k table \<Rightarrow> bool" where
  "grows_to H eqv t t' \<longleftrightarrow> table_ok H eqv t' \<and> length (tbl t') = grown_size t \<and> usage t' = usage t \<and>
     occupancy t' = usage t \<and> pairs t' = pairs t \<and> (\<forall>k. table_lookup eqv t' k = table_lookup eqv t k)"

definition same_view ::
  "('k \<Rightarrow> nat) \<Rightarrow> ('k \<Rightarrow> 'k \<Rightarrow> bool) \<Rightarrow> 'k locked_table \<Rightarrow> 'k locked_table \<Rightarrow> bool" where
  "same_view H eqv s s' \<longleftrightarrow> store_ok H eqv s' \<and> mutex s' = mutex s \<and>
     store_lookup eqv s' = store_lookup eqv s \<and> store_pairs s' = store_pairs s \<and> store_room s' = store_room s"

definition removed ::
  "('k \<Rightarrow> nat) \<Rightarrow> ('k \<Rightarrow> 'k \<Rightarrow> bool) \<Rightarrow> 'k locked_table \<Rightarrow> 'k \<Rightarrow> 'k \<times> ptr \<Rightarrow> 'k locked_table \<Rightarrow> bool" where
  "removed H eqv s k p s' \<longleftrightarrow> store_ok H eqv s' \<and> mutex s' = mutex s \<and>
     store_lookup eqv s' = (\<lambda>k'. if eqv k k' then None else store_lookup eqv s k') \<and>
     store_pairs s = add_mset p (store_pairs s') \<and> store_room s \<le> store_room s'"

definition inserted ::
  "('k \<Rightarrow> nat) \<Rightarrow> ('k \<Rightarrow> 'k \<Rightarrow> bool) \<Rightarrow> 'k locked_table \<Rightarrow> 'k \<Rightarrow> ptr \<Rightarrow> ('k \<times> ptr) option \<Rightarrow>
     'k locked_table \<Rightarrow> bool" where
  "inserted H eqv s k v old s' \<longleftrightarrow> store_ok H eqv s' \<and> mutex s' = mutex s \<and>
     store_lookup eqv s' = (\<lambda>k'. if eqv k k' then Some v else store_lookup eqv s k') \<and>
     store_pairs s' + (case old of None \<Rightarrow> {#} | Some p \<Rightarrow> {#p#}) = add_mset (k, v) (store_pairs s) \<and>
     (case old of None \<Rightarrow> True | Some p \<Rightarrow> p \<in># store_pairs s) \<and> store_room s - 1 \<le> store_room s'"

lemma same_view_refl: "store_ok H eqv s \<Longrightarrow> same_view H eqv s s"
  by (simp add: same_view_def)

lemma same_view_lookup_stats:
  "store_ok H eqv s \<Longrightarrow> same_view H eqv s (s\<lparr>entries := lookup_stats m (entries s)\<rparr>)"
  by (simp add: same_view_def store_ok_def store_lookup_def fun_eq_iff store_pairs_def store_room_def)

lemma removed_same_view: "same_view H eqv s s1 \<Longrightarrow> removed H eqv s1 k p s2 \<Longrightarrow> removed H eqv s k p s2"
  by (simp add: removed_def same_view_def fun_eq_iff)

context key_hashing
begin

lemma rehash_grows_to:
  assumes ok: "table_ok H eqv t" and le: "length (tbl t) \<le> 2 ^ 30" and u: "usage t \<le> 2 ^ 28"
    and t1: "modmask t1 = grown_size t - 1" "max_occupancy t1 = occupancy_limit (grown_size t)"
  shows "\<exists>t'. rehash eqv (tbl t) (t1\<lparr>tbl := empty_entries (grown_size t), usage := 0, occupancy := 0\<rparr>) =
      Some (Some t') \<and> grows_to H eqv t t'"
proof -
  note g = grown_size_bounds [OF ok le u]
  obtain m where m: "grown_size t = 2 ^ m"
    using g(1) by blast
  show ?thesis
    using rehash_into [OF ok m g(2) less_imp_le [OF g(3)],
        of "t1\<lparr>tbl := empty_entries (grown_size t), usage := 0, occupancy := 0\<rparr>"] t1
    by (simp add: grows_to_def)
qed

lemma delete_ok:
  assumes ok: "store_ok H eqv s"
    and j: "j < length (tbl (entries s))" "holds eqv (tbl (entries s) ! j) k"
  shows "removed H eqv s k (pair_of (tbl (entries s) ! j)) (s\<lparr>entries := table_delete (entries s) j\<rparr>)"
proof -
  let ?t = "entries s" and ?s = "s\<lparr>entries := table_delete (entries s) j\<rparr>"
  have t: "table_ok H eqv ?t" "length (tbl ?t) \<le> 2 ^ 30"
    using ok by (simp_all add: store_ok_def)
  have "store_ok H eqv ?s"
    using table_delete_ok(1) [OF t(1) j] t(2) by (simp add: store_ok_def table_delete_def)
  moreover have "store_lookup eqv ?s = (\<lambda>k'. if eqv k k' then None else store_lookup eqv s k')"
    using table_delete_ok(2) [OF t(1) j] by (simp add: store_lookup_def fun_eq_iff)
  moreover have "in_use (tbl ?t ! j)"
    using j(2) by (simp add: holds_def)
  then have "store_pairs s = add_mset (pair_of (tbl ?t ! j)) (store_pairs ?s)"
    using pairs_delete [OF j(1)] by (simp add: store_pairs_def)
  moreover have "store_room s \<le> store_room ?s"
    by (simp add: store_room_def table_delete_def)
  ultimately show ?thesis
    by (simp add: removed_def)
qed

lemma lookup_table:
  assumes ok: "store_ok H eqv s" and hk: "H k \<noteq> 0"
  shows "\<exists>t' r. findspot (\<lambda>k'. eqv k' k) (H k) False (entries s) = Some (t', r) \<and>
    same_view H eqv s (s\<lparr>entries := t'\<rparr>) \<and>
    (case r of
       None \<Rightarrow> store_lookup eqv s k = None
     | Some j \<Rightarrow> j < length (tbl t') \<and> store_lookup eqv s k = Some (val (tbl t' ! j)) \<and>
         key (tbl t' ! j) = Key (the_key (key (tbl t' ! j))) \<and>
         removed H eqv s k (pair_of (tbl t' ! j)) (s\<lparr>entries := table_delete t' j\<rparr>))"
proof -
  have t: "table_ok H eqv (entries s)"
    using ok by (simp add: store_ok_def)
  obtain t' r where f: "findspot (\<lambda>k'. eqv k' k) (H k) False (entries s) = Some (t', r)"
      "t' = entries s \<or> (\<exists>m. t' = lookup_stats m (entries s))"
      "case r of None \<Rightarrow> table_lookup eqv (entries s) k = None
       | Some j \<Rightarrow> j < length (tbl (entries s)) \<and> holds eqv (tbl (entries s) ! j) k \<and>
           table_lookup eqv (entries s) k = Some (val (tbl (entries s) ! j))"
    using findspot_get [OF t hk] by blast
  have view: "same_view H eqv s (s\<lparr>entries := t'\<rparr>)"
    using f(2) same_view_lookup_stats [OF ok] same_view_refl [OF ok] by auto
  have tb: "tbl t' = tbl (entries s)"
    using f(2) by auto
  have "case r of
       None \<Rightarrow> store_lookup eqv s k = None
     | Some j \<Rightarrow> j < length (tbl t') \<and> store_lookup eqv s k = Some (val (tbl t' ! j)) \<and>
         key (tbl t' ! j) = Key (the_key (key (tbl t' ! j))) \<and>
         removed H eqv s k (pair_of (tbl t' ! j)) (s\<lparr>entries := table_delete t' j\<rparr>)"
  proof (cases r)
    case None
    with f(3) show ?thesis by (simp add: store_lookup_def)
  next
    case (Some j)
    then have j: "j < length (tbl t')" "holds eqv (tbl t' ! j) k" "store_lookup eqv s k = Some (val (tbl t' ! j))"
      using f(3) tb by (simp_all add: store_lookup_def)
    have "key (tbl t' ! j) = Key (the_key (key (tbl t' ! j)))"
      using j(2) by (auto simp: holds_def key_matches_def split: slotkey.splits)
    moreover have "removed H eqv (s\<lparr>entries := t'\<rparr>) k (pair_of (tbl t' ! j)) (s\<lparr>entries := table_delete t' j\<rparr>)"
      using delete_ok [of "s\<lparr>entries := t'\<rparr>" j k] view j by (simp add: same_view_def)
    from removed_same_view [OF view this] have
      "removed H eqv s k (pair_of (tbl t' ! j)) (s\<lparr>entries := table_delete t' j\<rparr>)" .
    ultimately show ?thesis
      using Some j by simp
  qed
  with f(1) view show ?thesis
    by blast
qed

text \<open>
  The search for the place of an insertion, after the table has grown (\<open>t1\<close>) if its
  occupancy was above the limit.
\<close>

lemma insertion_table:
  assumes ok: "store_ok H eqv s" and room: "0 < store_room s" and hk: "H k \<noteq> 0"
    and t1: "if occupancy (entries s) > max_occupancy (entries s) then grows_to H eqv (entries s) t1
             else t1 = entries s"
  shows "\<exists>t2 j. findspot (\<lambda>k'. eqv k' k) (H k) True t1 = Some (t2, Some j) \<and>
    table_ok H eqv t2 \<and> j < length (tbl t2) \<and> same_view H eqv s (s\<lparr>entries := t2\<rparr>) \<and>
    store_lookup eqv s k = (if in_use (tbl t2 ! j) then Some (val (tbl t2 ! j)) else None) \<and>
    (\<forall>v. inserted H eqv s k v (if in_use (tbl t2 ! j) then Some (pair_of (tbl t2 ! j)) else None)
           (s\<lparr>entries := table_write t2 j (H k) k v\<rparr>))"
proof -
  let ?t = "entries s"
  have t: "table_ok H eqv ?t" "length (tbl ?t) \<le> 2 ^ 30" "usage ?t \<le> 2 ^ 28"
    using ok room by (simp_all add: store_ok_def store_room_def)
  note g = grown_size_bounds [OF t]
  have "max_occupancy ?t < length (tbl ?t)"
    using t(1) occupancy_limit_less [of "length (tbl ?t)"] by (simp add: table_ok_def)
  then have r: "table_ok H eqv t1" "length (tbl t1) \<le> 2 ^ 30" "usage t1 = usage ?t"
    "occupancy t1 < length (tbl t1)" "pairs t1 = pairs ?t"
    "\<forall>k. table_lookup eqv t1 k = table_lookup eqv ?t k"
    using t1 t g(3,4) by (auto simp: grows_to_def split: if_splits)
  obtain t2 j where t2: "findspot (\<lambda>k'. eqv k' k) (H k) True t1 = Some (t2, Some j)"
    "table_ok H eqv t2" "j < length (tbl t2)" "length (tbl t2) = length (tbl t1)"
    "usage t2 = usage t1" "pairs t2 = pairs t1"
    "\<forall>k2. table_lookup eqv t2 k2 = table_lookup eqv t1 k2"
    "table_lookup eqv t1 k = (if in_use (tbl t2 ! j) then Some (val (tbl t2 ! j)) else None)"
    "\<And>v. table_ok H eqv (table_write t2 j (H k) k v)"
    "\<And>v k2. table_lookup eqv (table_write t2 j (H k) k v) k2 =
           (if eqv k k2 then Some v else table_lookup eqv t1 k2)"
    by (rule insertion_place [OF r(1) hk r(4)]) blast
  let ?old = "if in_use (tbl t2 ! j) then Some (pair_of (tbl t2 ! j)) else None"
  have view: "same_view H eqv s (s\<lparr>entries := t2\<rparr>)"
    using t2 r by (simp add: same_view_def store_ok_def store_lookup_def fun_eq_iff store_pairs_def store_room_def)
  have look: "store_lookup eqv s k = (if in_use (tbl t2 ! j) then Some (val (tbl t2 ! j)) else None)"
    using t2(8) r(6) by (simp add: store_lookup_def)
  have "pair_of (tbl t2 ! j) \<in># store_pairs s" if "in_use (tbl t2 ! j)"
  proof -
    have "pair_of (tbl t2 ! j) \<in># pairs t2"
      using that t2(3) by (auto simp: pairs_def)
    with t2(6) r(5) show ?thesis
      by (simp add: store_pairs_def)
  qed
  moreover have "pairs (table_write t2 j (H k) k v) + (case ?old of None \<Rightarrow> {#} | Some p \<Rightarrow> {#p#})
      = add_mset (k, v) (pairs ?t)" for v
    using pairs_write [OF t2(3) hk, of k v] t2(6) r(5) by auto
  ultimately have "inserted H eqv s k v ?old (s\<lparr>entries := table_write t2 j (H k) k v\<rparr>)" for v
    using t2(4,5,9,10) r(2,3,6)
    by (auto simp: inserted_def store_ok_def store_lookup_def fun_eq_iff store_pairs_def store_room_def
        table_write_def)
  with t2(1-3) view look show ?thesis
    by blast
qed

end

subsection \<open>The interface of a store of objects\<close>

datatype 'k store_op =
    Put 'k ptr
  | Replace 'k ptr
  | PutNew 'k ptr
  | Get 'k
  | Del 'k
  | Take 'k
  | DelCheck 'k ptr

fun key_of_op :: "'k store_op \<Rightarrow> 'k" where
  "key_of_op (Put k v) = k"
| "key_of_op (Replace k v) = k"
| "key_of_op (PutNew k v) = k"
| "key_of_op (Get k) = k"
| "key_of_op (Del k) = k"
| "key_of_op (Take k) = k"
| "key_of_op (DelCheck k v) = k"


type_synonym store_result = "status \<times> ptr option"

text \<open>The operations on a map; \<open>eqv\<close> says which keys are equal.\<close>

fun map_step ::
  "('k \<Rightarrow> 'k \<Rightarrow> bool) \<Rightarrow> 'k store_op \<Rightarrow> ('k \<Rightarrow> ptr option) \<Rightarrow> store_result \<times> ('k \<Rightarrow> ptr option)" where
  "map_step eqv (Put k v) m = ((JXTA_SUCCESS, None), \<lambda>k'. if eqv k k' then Some v else m k')"
| "map_step eqv (Replace k v) m = ((JXTA_SUCCESS, m k), \<lambda>k'. if eqv k k' then Some v else m k')"
| "map_step eqv (PutNew k v) m =
     (if m k = None then ((JXTA_SUCCESS, None), \<lambda>k'. if eqv k k' then Some v else m k')
      else ((JXTA_ITEM_EXISTS, None), m))"
| "map_step eqv (Get k) m =
     ((if m k = None then JXTA_ITEM_NOTFOUND else JXTA_SUCCESS, m k), m)"
| "map_step eqv (Del k) m =
     (if m k = None then ((JXTA_ITEM_NOTFOUND, None), m)
      else ((JXTA_SUCCESS, None), \<lambda>k'. if eqv k k' then None else m k'))"
| "map_step eqv (Take k) m =
     (if m k = None then ((JXTA_ITEM_NOTFOUND, None), m)
      else ((JXTA_SUCCESS, m k), \<lambda>k'. if eqv k k' then None else m k'))"
| "map_step eqv (DelCheck k v) m =
     (if m k = None then ((JXTA_ITEM_NOTFOUND, None), m)
      else if m k \<noteq> Some v then ((JXTA_VIOLATION, None), m)
      else ((JXTA_SUCCESS, None), \<lambda>k'. if eqv k k' then None else m k'))"

fun map_run ::
  "('k \<Rightarrow> 'k \<Rightarrow> bool) \<Rightarrow> 'k store_op list \<Rightarrow> ('k \<Rightarrow> ptr option) \<Rightarrow> store_result list \<times> ('k \<Rightarrow> ptr option)" where
  "map_run eqv [] m = ([], m)"
| "map_run eqv (x # xs) m =
     (let (r, m1) = map_step eqv x m; (rs, m2) = map_run eqv xs m1 in (r # rs, m2))"

fun store_run ::
  "('k store_op \<Rightarrow> heap \<Rightarrow> 's \<Rightarrow> (store_result \<times> heap \<times> 's) option) \<Rightarrow> 'k store_op list \<Rightarrow> heap \<Rightarrow> 's
     \<Rightarrow> (store_result list \<times> heap \<times> 's) option" where
  "store_run step [] h s = Some ([], h, s)"
| "store_run step (x # xs) h s =
     do { (r, h1, s1) \<leftarrow> step x h s; (rs, h2, s2) \<leftarrow> store_run step xs h1 s1; Some (r # rs, h2, s2) }"

text \<open>The references a result hands to the caller.\<close>

definition handed :: "store_result \<Rightarrow> ptr multiset" where
  "handed r = (case snd r of None \<Rightarrow> {#} | Some p \<Rightarrow> {#p#})"

definition handed_all :: "store_result list \<Rightarrow> ptr multiset" where
  "handed_all rs = sum_list (map handed rs)"

text \<open>
  References to \<open>q\<close> beyond those in the multiset \<open>M\<close>, and an object that has some: the one
  its user holds while it calls the operations.
\<close>

definition excess :: "heap \<Rightarrow> ptr multiset \<Rightarrow> ptr \<Rightarrow> int" where
  "excess h M q = refCount (objs h q) - int (count M q)"

definition owned :: "heap \<Rightarrow> ptr multiset \<Rightarrow> ptr \<Rightarrow> bool" where
  "owned h M q \<longleftrightarrow> is_mutable h q \<and> jxta_object_check_initialized h q \<and> 0 < excess h M q"

text \<open>The heap after an operation that drops the references \<open>outs\<close>, then takes \<open>ins\<close>.\<close>

definition exchange :: "ptr list \<Rightarrow> ptr list \<Rightarrow> heap \<Rightarrow> heap" where
  "exchange outs ins h = fold share ins (fold release outs h)"

lemma exchange_simps:
  "exchange [] [] h = h" "exchange [] [p] h = share p h" "exchange [p] [] h = release p h"
  "exchange [p] [q] h = share q (release p h)"
  by (simp_all add: exchange_def)

lemma exchange_excess:
  assumes own: "owned h M q" and bal: "M' + mset outs = M + mset ins" and le: "mset outs \<subseteq># M"
  shows "owned (exchange outs ins h) M' q" "excess (exchange outs ins h) M' q = excess h M q"
proof -
  let ?h1 = "fold release outs h"
  have cle: "count_list outs q \<le> count M q"
    using mset_subset_eq_count [OF le, of q] by (simp add: count_list_mset)
  have "int (count_list outs q) < refCount (objs h q)"
    using own cle by (simp add: owned_def excess_def)
  then have init: "jxta_object_check_initialized ?h1 q" "is_mutable ?h1 q"
    using own release_all_check_initialized [of h q outs] by (simp_all add: owned_def heap_simps)
  have "refCount (objs (exchange outs ins h) q)
      = refCount (objs h q) - int (count_list outs q) + int (count_list ins q)"
    using own init by (simp add: exchange_def share_all_refCount release_all_refCount owned_def)
  moreover have "count M' q + count_list outs q = count M q + count_list ins q"
    using arg_cong [OF bal, of "\<lambda>X. count X q"] by (simp add: count_list_mset)
  ultimately show e: "excess (exchange outs ins h) M' q = excess h M q"
    by (simp add: excess_def)
  then show "owned (exchange outs ins h) M' q"
    using own init by (simp add: owned_def exchange_def heap_simps)
qed

locale object_map =
  fixes eqv :: "'k \<Rightarrow> 'k \<Rightarrow> bool"
    and ok :: "'s \<Rightarrow> bool"
    and room :: "'s \<Rightarrow> nat"
    and lookup :: "'s \<Rightarrow> 'k \<Rightarrow> ptr option"
    and refs :: "'s \<Rightarrow> ptr multiset"
    and step :: "'k store_op \<Rightarrow> heap \<Rightarrow> 's \<Rightarrow> (store_result \<times> heap \<times> 's) option"
    and allowed :: "'k store_op \<Rightarrow> bool"
  assumes step_law:
    "ok s \<Longrightarrow> 0 < room s \<Longrightarrow> allowed x \<Longrightarrow>
     \<exists>outs ins s'. step x h s = Some (fst (map_step eqv x (lookup s)), exchange outs ins h, s') \<and>
       ok s' \<and> lookup s' = snd (map_step eqv x (lookup s)) \<and> room s - 1 \<le> room s' \<and>
       mset outs \<subseteq># refs s \<and>
       refs s' + handed (fst (map_step eqv x (lookup s))) + mset outs = refs s + mset ins"
begin

lemma run_refines_map:
  "ok s \<Longrightarrow> length xs \<le> room s \<Longrightarrow> \<forall>x \<in> set xs. allowed x \<Longrightarrow>
   \<exists>h' s'. store_run step xs h s = Some (fst (map_run eqv xs (lookup s)), h', s') \<and>
     ok s' \<and> lookup s' = snd (map_run eqv xs (lookup s)) \<and>
     (\<forall>M q. owned h (refs s + M) q \<longrightarrow>
        owned h' (refs s' + handed_all (fst (map_run eqv xs (lookup s))) + M) q \<and>
        excess h' (refs s' + handed_all (fst (map_run eqv xs (lookup s))) + M) q = excess h (refs s + M) q)"
proof (induction xs arbitrary: h s)
  case Nil
  then show ?case by (simp add: handed_all_def)
next
  case (Cons x xs)
  let ?r = "fst (map_step eqv x (lookup s))"
  obtain outs ins s1 where s1: "step x h s = Some (?r, exchange outs ins h, s1)" "ok s1"
      "lookup s1 = snd (map_step eqv x (lookup s))" "room s - 1 \<le> room s1" "mset outs \<subseteq># refs s"
      "refs s1 + handed ?r + mset outs = refs s + mset ins"
    using step_law [of s x h] Cons.prems by fastforce
  have len: "length xs \<le> room s1" and all: "\<forall>x \<in> set xs. allowed x"
    using s1(4) Cons.prems by auto
  let ?rs = "fst (map_run eqv xs (lookup s1))"
  obtain h' s' where run: "store_run step xs (exchange outs ins h) s1 = Some (?rs, h', s')" "ok s'"
      "lookup s' = snd (map_run eqv xs (lookup s1))"
      "\<forall>M q. owned (exchange outs ins h) (refs s1 + M) q \<longrightarrow>
        owned h' (refs s' + handed_all ?rs + M) q \<and>
        excess h' (refs s' + handed_all ?rs + M) q = excess (exchange outs ins h) (refs s1 + M) q"
    using Cons.IH [OF s1(2) len all, of "exchange outs ins h"] by blast
  have "owned h' (refs s' + handed_all (?r # ?rs) + M) q \<and>
      excess h' (refs s' + handed_all (?r # ?rs) + M) q = excess h (refs s + M) q"
    if own: "owned h (refs s + M) q" for M q
  proof -
    have bal: "refs s1 + (handed ?r + M) + mset outs = refs s + M + mset ins"
      using arg_cong [OF s1(6), of "\<lambda>X. X + M"] by (simp only: ac_simps)
    have le: "mset outs \<subseteq># refs s + M"
      using s1(5) by (simp add: subset_mset.add_increasing2)
    have split: "refs s' + handed_all (?r # ?rs) + M = refs s' + handed_all ?rs + (handed ?r + M)"
      by (simp add: handed_all_def ac_simps)
    from exchange_excess [OF own bal le] run(4) [THEN spec, of "handed ?r + M", THEN spec, of q]
    show ?thesis
      unfolding split by simp
  qed
  with s1 run show ?case
    by (simp add: split_beta)
qed

end

end
