(* ===== verification/HashTable.thy ===== *)
theory HashTable
  imports TableStore
begin

section \<open>Hash tables with byte string keys (src/src/jxta_hashtable.c)\<close>

text \<open>
  The keys are copied byte strings compared with their lengths.  An operation returns
  \<open>None\<close> where the code calls \<open>abort()\<close>, reads outside of the table or never returns.
  \<open>mem\<close> says which numbers of bytes \<open>malloc\<close> can provide; the counters are those of a
  64-bit build (\<open>size_t\<close> of 64 bits, \<open>unsigned int\<close> of 32).
\<close>

subsection \<open>The hash function\<close>

fun hash_loop :: "u8 list \<Rightarrow> u64 \<Rightarrow> u64" where
  "hash_loop [] h = h"
| "hash_loop (s # ss) h =
     (let h1 = h + ucast s;
          h2 = h1 + push_bit 10 h1;
          h3 = h2 XOR drop_bit 6 h2
      in hash_loop ss h3)"

definition hash :: "u8 list \<Rightarrow> u64" where
  "hash ks =
     (let h = hash_loop ks 0;
          h1 = h + push_bit 3 h;
          h2 = h1 XOR drop_bit 11 h1;
          h3 = h2 + push_bit 15 h2
      in if h3 \<noteq> 0 then h3 else 1)"

definition hashk_of :: "u8 list \<Rightarrow> nat" where
  "hashk_of ks = unat (hash ks)"

subsection \<open>Creation\<close>

type_synonym jxta_hashtable = "u8 list locked_table"

definition ENTRY_SIZE :: nat where
  "ENTRY_SIZE = 32"

definition jxta_hashtable_new_0 ::
  "(nat \<Rightarrow> bool) \<Rightarrow> bool \<Rightarrow> bool \<Rightarrow> u64 \<Rightarrow> bool \<Rightarrow> jxta_hashtable option option" where
  "jxta_hashtable_new_0 mem self_ok apr_ok initial_usage synchronized =
     do { real_size \<leftarrow> map_option unat (real_size_for initial_usage);
          Some (if \<not> self_ok then None
                else if \<not> mem (ENTRY_SIZE * real_size) then None
                else
                  (let t = fresh_table real_size in if \<not> synchronized then Some \<lparr>entries = t, mutex = None\<rparr>
                      else if \<not> apr_ok then None
                      else Some \<lparr>entries = t, mutex = Some 0\<rparr>)) }"

definition jxta_hashtable_new ::
  "(nat \<Rightarrow> bool) \<Rightarrow> bool \<Rightarrow> u64 \<Rightarrow> jxta_hashtable option option" where
  "jxta_hashtable_new mem self_ok initial_usage =
     jxta_hashtable_new_0 mem self_ok True initial_usage False"

subsection \<open>Growing\<close>

definition grow :: "(nat \<Rightarrow> bool) \<Rightarrow> u8 list table \<Rightarrow> u8 list table option" where
  "grow mem t =
     (let old_capacity = table_capacity t;
          t1 = (if usage t > grow_threshold (max_occupancy t) then
                  (let tmp = 2 * old_capacity in
                   t\<lparr>modmask := (tmp + 2 ^ 64 - 1) mod 2 ^ 32, max_occupancy := occupancy_limit tmp\<rparr>)
                else t);
          n = table_capacity t1
      in if \<not> mem (ENTRY_SIZE * n) then None
         else do { old \<leftarrow> mem_load (tbl t) 0 (int_count old_capacity);
                   r \<leftarrow> rehash (=) old (t1\<lparr>tbl := empty_entries n, usage := 0, occupancy := 0\<rparr>);
                   r })"

subsection \<open>Insertion\<close>

text \<open>
  The result: the boolean the code returns, the value written to \<open>*old_value\<close> (when
  \<open>want_old\<close> says that the pointer is not null), the heap and the table.
\<close>

definition jxta_hashtable_comboput ::
  "(nat \<Rightarrow> bool) \<Rightarrow> heap \<Rightarrow> jxta_hashtable \<Rightarrow> u8 list \<Rightarrow> ptr \<Rightarrow> bool \<Rightarrow> bool
     \<Rightarrow> (bool \<times> ptr option \<times> heap \<times> jxta_hashtable) option" where
  "jxta_hashtable_comboput mem h self k value want_old replace_allowed =
     (let hashk' = hashk_of k;
          m1 = mutex_lock (mutex self);
          t = entries self
      in do {
        t1 \<leftarrow> (if occupancy t > max_occupancy t then grow mem t else Some t);
        (t2, e) \<leftarrow> findspot (\<lambda>k'. k' = k) hashk' True t1;
        (t3, e') \<leftarrow> (if e = None then do { t' \<leftarrow> grow mem t2; findspot (\<lambda>k'. k' = k) hashk' True t' }
                    else Some (t2, e));
        j \<leftarrow> e';
        cur \<leftarrow> mem_read (tbl t3) j;
        if hashk cur \<noteq> 0 \<and> \<not> replace_allowed then
          Some (False, None, h, \<lparr>entries = t3, mutex = mutex_unlock m1\<rparr>)
        else
          (let (h1, old, t4) =
             (if hashk cur \<noteq> 0 then
                (if want_old then (h, Some (val cur), t3) else (release (val cur) h, None, t3))
              else (h, None, t3\<lparr>usage := usage t3 + 1,
                                occupancy := (if key cur = NoKey then occupancy t3 + 1 else occupancy t3)\<rparr>))
           in if \<not> mem (length k) then None
              else do { xs \<leftarrow> mem_write (tbl t4) j (entry_for hashk' k value);
                        Some (True, old, share value h1,
                              \<lparr>entries = t4\<lparr>tbl := xs\<rparr>, mutex = mutex_unlock m1\<rparr>) }) })"

definition jxta_hashtable_replace ::
  "(nat \<Rightarrow> bool) \<Rightarrow> heap \<Rightarrow> jxta_hashtable \<Rightarrow> u8 list \<Rightarrow> ptr \<Rightarrow> bool
     \<Rightarrow> (ptr option \<times> heap \<times> jxta_hashtable) option" where
  "jxta_hashtable_replace mem h self k value want_old =
     map_option snd (jxta_hashtable_comboput mem h self k value want_old True)"

definition jxta_hashtable_put ::
  "(nat \<Rightarrow> bool) \<Rightarrow> heap \<Rightarrow> jxta_hashtable \<Rightarrow> u8 list \<Rightarrow> ptr \<Rightarrow> (heap \<times> jxta_hashtable) option" where
  "jxta_hashtable_put mem h self k value =
     map_option (\<lambda>(_, _, h1, s1). (h1, s1)) (jxta_hashtable_comboput mem h self k value False True)"

definition jxta_hashtable_putnoreplace ::
  "(nat \<Rightarrow> bool) \<Rightarrow> heap \<Rightarrow> jxta_hashtable \<Rightarrow> u8 list \<Rightarrow> ptr \<Rightarrow> (bool \<times> heap \<times> jxta_hashtable) option" where
  "jxta_hashtable_putnoreplace mem h self k value =
     map_option (\<lambda>(b, _, h1, s1). (b, h1, s1)) (jxta_hashtable_comboput mem h self k value False False)"

subsection \<open>Lookup\<close>

definition jxta_hashtable_contains :: "jxta_hashtable \<Rightarrow> u8 list \<Rightarrow> (status \<times> jxta_hashtable) option" where
  "jxta_hashtable_contains self k =
     (let m1 = mutex_lock (mutex self) in
      do { (t1, e) \<leftarrow> findspot (\<lambda>k'. k' = k) (hashk_of k) False (entries self);
           Some (if e = None then JXTA_ITEM_NOTFOUND else JXTA_SUCCESS,
                 \<lparr>entries = t1, mutex = mutex_unlock m1\<rparr>) })"

text \<open>\<open>found_value\<close> is whether the output pointer is not null; the value found is shared.\<close>

definition jxta_hashtable_get ::
  "heap \<Rightarrow> jxta_hashtable \<Rightarrow> u8 list \<Rightarrow> bool \<Rightarrow> (status \<times> ptr option \<times> heap \<times> jxta_hashtable) option" where
  "jxta_hashtable_get h self k found_value =
     (if \<not> found_value then Some (JXTA_ITEM_NOTFOUND, None, h, self)
      else let m1 = mutex_lock (mutex self) in
        do { (t1, e) \<leftarrow> findspot (\<lambda>k'. k' = k) (hashk_of k) False (entries self);
             (case e of
                None \<Rightarrow> Some (JXTA_ITEM_NOTFOUND, None, h, \<lparr>entries = t1, mutex = mutex_unlock m1\<rparr>)
              | Some j \<Rightarrow>
                  do { cur \<leftarrow> mem_read (tbl t1) j;
                       let (v, h1) = jxta_object_share h (val cur);
                       Some (JXTA_SUCCESS, Some v, h1, \<lparr>entries = t1, mutex = mutex_unlock m1\<rparr>) }) })"

subsection \<open>Removal\<close>

definition jxta_hashtable_del ::
  "heap \<Rightarrow> jxta_hashtable \<Rightarrow> u8 list \<Rightarrow> bool \<Rightarrow> (status \<times> ptr option \<times> heap \<times> jxta_hashtable) option" where
  "jxta_hashtable_del h self k found_value =
     (let m1 = mutex_lock (mutex self) in
      do { (t1, e) \<leftarrow> findspot (\<lambda>k'. k' = k) (hashk_of k) False (entries self);
           (case e of
              None \<Rightarrow> Some (JXTA_ITEM_NOTFOUND, None, h, \<lparr>entries = t1, mutex = mutex_unlock m1\<rparr>)
            | Some j \<Rightarrow>
                do { cur \<leftarrow> mem_read (tbl t1) j;
                     let (out, h1) = (if found_value then (Some (val cur), h) else (None, release (val cur) h));
                     xs \<leftarrow> mem_write (tbl t1) j \<lparr>hashk = 0, key = Tombstone, val = NULL\<rparr>;
                     Some (JXTA_SUCCESS, out, h1,
                           \<lparr>entries = t1\<lparr>tbl := xs, usage := usage t1 - 1\<rparr>, mutex = mutex_unlock m1\<rparr>) }) })"

definition jxta_hashtable_delcheck ::
  "heap \<Rightarrow> jxta_hashtable \<Rightarrow> u8 list \<Rightarrow> ptr \<Rightarrow> (status \<times> heap \<times> jxta_hashtable) option" where
  "jxta_hashtable_delcheck h self k value =
     (let m1 = mutex_lock (mutex self) in
      do { (t1, e) \<leftarrow> findspot (\<lambda>k'. k' = k) (hashk_of k) False (entries self);
           (case e of
              None \<Rightarrow> Some (JXTA_ITEM_NOTFOUND, h, \<lparr>entries = t1, mutex = mutex_unlock m1\<rparr>)
            | Some j \<Rightarrow>
                do { cur \<leftarrow> mem_read (tbl t1) j;
                     if value \<noteq> val cur then
                       Some (JXTA_VIOLATION, h, \<lparr>entries = t1, mutex = mutex_unlock m1\<rparr>)
                     else do {
                       xs \<leftarrow> mem_write (tbl t1) j \<lparr>hashk = 0, key = Tombstone, val = NULL\<rparr>;
                       Some (JXTA_SUCCESS, release (val cur) h,
                             \<lparr>entries = t1\<lparr>tbl := xs, usage := usage t1 - 1\<rparr>, mutex = mutex_unlock m1\<rparr>) } }) })"

subsection \<open>Whole tables\<close>

definition jxta_hashtable_free :: "heap \<Rightarrow> jxta_hashtable \<Rightarrow> heap option" where
  "jxta_hashtable_free h self =
     do { es \<leftarrow> visited (entries self);
          Some (fold (\<lambda>e h. if hashk e = 0 then h else release (val e) h) es h) }"

fun clear_loop :: "'k entry list \<Rightarrow> heap \<Rightarrow> nat \<Rightarrow> 'k entry list \<times> heap \<times> nat" where
  "clear_loop [] h u = ([], h, u)"
| "clear_loop (e # es) h u =
     (let (e', h1, u1) =
        (if hashk e = 0 then (e, h, u)
         else (\<lparr>hashk = 0, key = Tombstone, val = NULL\<rparr>, release (val e) h, u - 1));
        (es', h2, u2) = clear_loop es h1 u1
      in (e' # es', h2, u2))"

definition jxta_hashtable_clear :: "heap \<Rightarrow> jxta_hashtable \<Rightarrow> (heap \<times> jxta_hashtable) option" where
  "jxta_hashtable_clear h self =
     (let m1 = mutex_lock (mutex self); t = entries self in
      do { es \<leftarrow> visited t;
           let (es', h1, u) = clear_loop es h (usage t);
           xs \<leftarrow> mem_store (tbl t) 0 es';
           Some (h1, \<lparr>entries = t\<lparr>tbl := xs, usage := u\<rparr>, mutex = mutex_unlock m1\<rparr>) })"

text \<open>
  The values of the entries in use, added to a new vector; the initial capacity is the
  usage, converted to \<open>unsigned int\<close>.  \<open>vmem\<close> is the allocator of the vector.
\<close>

definition jxta_hashtable_values_get ::
  "(nat \<Rightarrow> bool) \<Rightarrow> heap \<Rightarrow> jxta_hashtable \<Rightarrow> (heap \<times> jxta_vector \<times> jxta_hashtable) option" where
  "jxta_hashtable_values_get vmem h self =
     (let vals = jxta_vector_new vmem (of_nat (usage (entries self)));
          m1 = mutex_lock (mutex self)
      in do { es \<leftarrow> visited (entries self);
              (h1, vals1) \<leftarrow> add_each (jxta_vector_add_object_last vmem) (values_of es) h vals;
              Some (h1, vals1, self\<lparr>mutex := mutex_unlock m1\<rparr>) })"

text \<open>
  The copied keys; a key whose copy cannot be allocated is left out.  The array has
  \<open>usage + 1\<close> cells, the last for the null pointer.  The result is \<open>None\<close> when the array
  cannot be allocated.
\<close>

fun keys_loop :: "(nat \<Rightarrow> bool) \<Rightarrow> u8 list entry list \<Rightarrow> u8 list option list \<Rightarrow> nat
     \<Rightarrow> (u8 list option list \<times> nat) option" where
  "keys_loop mem [] ks i = Some (ks, i)"
| "keys_loop mem (e # es) ks i =
     (if hashk e = 0 then keys_loop mem es ks i
      else (case key e of
              Key k \<Rightarrow>
                (if \<not> mem (length k + 1) then keys_loop mem es ks i
                 else do { ks1 \<leftarrow> mem_write ks i (Some (k @ [0]));
                           keys_loop mem es ks1 (i + 1) })
            | _ \<Rightarrow> None))"

definition jxta_hashtable_keys_get ::
  "(nat \<Rightarrow> bool) \<Rightarrow> jxta_hashtable \<Rightarrow> (u8 list option list option \<times> jxta_hashtable) option" where
  "jxta_hashtable_keys_get mem self =
     (let t = entries self; m1 = mutex_lock (mutex self) in
      if \<not> mem (8 * (usage t + 1)) then Some (None, self)
      else do { es \<leftarrow> visited t;
                (ks, i) \<leftarrow> keys_loop mem es (replicate (usage t + 1) None) 0;
                ks1 \<leftarrow> mem_write ks i None;
                Some (Some ks1, self\<lparr>mutex := mutex_unlock m1\<rparr>) })"

text \<open>
  The average number of hops is the quotient of the last two, or 0 without lookups.
\<close>

definition jxta_hashtable_stats :: "jxta_hashtable \<Rightarrow> nat \<times> nat \<times> nat \<times> nat \<times> (nat \<times> nat) option" where
  "jxta_hashtable_stats self =
     (let t = entries self in
      (table_capacity t, usage t, occupancy t, max_occupancy t,
       if nb_lookups t \<noteq> 0 then Some (nb_hops t, nb_lookups t) else None))"


subsection \<open>The invariant\<close>

interpretation hk: key_hashing hashk_of "(=)"
  by unfold_locales auto

lemma hashk_of_nonzero [simp]: "hashk_of k \<noteq> 0"
  by (simp add: hashk_of_def hash_def Let_def unat_eq_0)

abbreviation hashtable_ok :: "jxta_hashtable \<Rightarrow> bool" where
  "hashtable_ok \<equiv> store_ok hashk_of (=)"

abbreviation hlookup :: "jxta_hashtable \<Rightarrow> u8 list \<Rightarrow> ptr option" where
  "hlookup \<equiv> store_lookup (=)"

abbreviation hroom :: "jxta_hashtable \<Rightarrow> nat" where
  "hroom \<equiv> store_room"

text \<open>The references the table holds: one for each entry in use.\<close>

definition hrefs :: "jxta_hashtable \<Rightarrow> ptr multiset" where
  "hrefs s = image_mset snd (store_pairs s)"

lemma grow_ok:
  assumes ok: "table_ok hashk_of (=) t" and le: "length (tbl t) \<le> 2 ^ 30" and u: "usage t \<le> 2 ^ 28"
    and mem: "mem (ENTRY_SIZE * grown_size t)"
  shows "\<exists>t'. grow mem t = Some t' \<and> grows_to hashk_of (=) t t'"
proof -
  let ?n = "length (tbl t)"
  note c = table_capacity_small [OF ok le]
  note g = grown_size_bounds [OF ok le u]
  have n0: "0 < ?n" and mx: "max_occupancy t = occupancy_limit ?n"
    using ok by (auto simp: table_ok_def geometry_def)
  define t1 where "t1 = (if usage t > grow_threshold (max_occupancy t)
    then t\<lparr>modmask := (2 * ?n + 2 ^ 64 - 1) mod 2 ^ 32, max_occupancy := occupancy_limit (2 * ?n)\<rparr> else t)"
  have t1: "modmask t1 = grown_size t - 1" "max_occupancy t1 = occupancy_limit (grown_size t)"
    using c(1) new_mask [OF n0 le] mx by (auto simp: t1_def grown_size_def)
  have cap: "table_capacity t1 = grown_size t"
    using t1(1) g by (simp add: table_capacity_def)
  have "grow mem t = (if \<not> mem (ENTRY_SIZE * table_capacity t1) then None
      else do { old \<leftarrow> mem_load (tbl t) 0 (int_count ?n);
                r \<leftarrow> rehash (=) old (t1\<lparr>tbl := empty_entries (table_capacity t1), usage := 0, occupancy := 0\<rparr>);
                r })"
    by (simp only: grow_def Let_def c(2) t1_def)
  also have "\<dots> = do { r \<leftarrow> rehash (=) (tbl t)
      (t1\<lparr>tbl := empty_entries (grown_size t), usage := 0, occupancy := 0\<rparr>); r }"
    using mem c(3) by (simp add: cap c(2) mem_simps)
  finally show ?thesis
    using hk.rehash_grows_to [OF ok le u t1] by auto
qed

subsection \<open>Each operation\<close>

text \<open>An allocator that provides every block the model can ask for.\<close>

definition ample :: "(nat \<Rightarrow> bool) \<Rightarrow> bool" where
  "ample mem \<longleftrightarrow> (\<forall>n \<le> 2 ^ 35. mem n)"

lemma ready_table:
  assumes ok: "hashtable_ok s" and room: "0 < hroom s" and mem: "ample mem"
  shows "\<exists>t1. (if occupancy (entries s) > max_occupancy (entries s) then grow mem (entries s)
       else Some (entries s)) = Some t1 \<and>
     (if occupancy (entries s) > max_occupancy (entries s) then grows_to hashk_of (=) (entries s) t1
      else t1 = entries s)"
proof -
  have t: "table_ok hashk_of (=) (entries s)" "length (tbl (entries s)) \<le> 2 ^ 30" "usage (entries s) \<le> 2 ^ 28"
    using ok room by (simp_all add: store_ok_def store_room_def)
  have "mem (ENTRY_SIZE * grown_size (entries s))"
    using mem grown_size_bounds(4) [OF t] by (simp add: ample_def ENTRY_SIZE_def)
  from grow_ok [OF t, of mem, OF this] show ?thesis
    by auto
qed

lemma comboput_ok:
  assumes ok: "hashtable_ok s" and room: "0 < hroom s" and mem: "ample mem" and len: "length k \<le> 2 ^ 35"
  shows "\<exists>s'. jxta_hashtable_comboput mem h s k v want_old replace_allowed =
      (case hlookup s k of
         None \<Rightarrow> Some (True, None, share v h, s')
       | Some old \<Rightarrow>
           if \<not> replace_allowed then Some (False, None, h, s')
           else if want_old then Some (True, Some old, share v h, s')
           else Some (True, None, share v (release old h), s')) \<and>
    (if hlookup s k \<noteq> None \<and> \<not> replace_allowed then same_view hashk_of (=) s s'
     else (\<exists>p. map_option snd p = hlookup s k \<and> inserted hashk_of (=) s k v p s'))"
proof -
  obtain t1 where t1: "(if occupancy (entries s) > max_occupancy (entries s) then grow mem (entries s)
       else Some (entries s)) = Some t1"
    "if occupancy (entries s) > max_occupancy (entries s) then grows_to hashk_of (=) (entries s) t1
     else t1 = entries s"
    using ready_table [OF ok room mem] by blast
  obtain t2 j where t2: "findspot (\<lambda>k'. k' = k) (hashk_of k) True t1 = Some (t2, Some j)"
    "table_ok hashk_of (=) t2" "j < length (tbl t2)" "same_view hashk_of (=) s (s\<lparr>entries := t2\<rparr>)"
    "hlookup s k = (if in_use (tbl t2 ! j) then Some (val (tbl t2 ! j)) else None)"
    "inserted hashk_of (=) s k v (if in_use (tbl t2 ! j) then Some (pair_of (tbl t2 ! j)) else None)
           (s\<lparr>entries := table_write t2 j (hashk_of k) k v\<rparr>)"
    using hk.insertion_table [OF ok room hashk_of_nonzero t1(2), of k] by blast
  let ?w = "table_write t2 j (hashk_of k) k v"
  have memk: "mem (length k)"
    using mem len by (simp add: ample_def)
  have steps: "jxta_hashtable_comboput mem h s k v want_old replace_allowed =
    (if in_use (tbl t2 ! j) then
       if \<not> replace_allowed then Some (False, None, h, s\<lparr>entries := t2\<rparr>)
       else if want_old then Some (True, Some (val (tbl t2 ! j)), share v h, s\<lparr>entries := ?w\<rparr>)
       else Some (True, None, share v (release (val (tbl t2 ! j)) h), s\<lparr>entries := ?w\<rparr>)
     else Some (True, None, share v h, s\<lparr>entries := ?w\<rparr>))"
    using t1(1) t2(1,3) memk table_write_eq [OF t2(2,3), where hk = "hashk_of k" and k = k and v = v]
    by (simp add: jxta_hashtable_comboput_def Let_def mem_simps in_use_def record_entries)
  show ?thesis
  proof (cases "in_use (tbl t2 ! j) \<and> \<not> replace_allowed")
    case True
    then show ?thesis
      using steps t2(4,5) by (intro exI [of _ "s\<lparr>entries := t2\<rparr>"]) simp
  next
    case False
    have "map_option snd (if in_use (tbl t2 ! j) then Some (pair_of (tbl t2 ! j)) else None) = hlookup s k"
      using t2(5) by (simp add: pair_of_def)
    with t2(6) have ins: "\<exists>p. map_option snd p = hlookup s k \<and> inserted hashk_of (=) s k v p (s\<lparr>entries := ?w\<rparr>)"
      by blast
    have "\<not> (hlookup s k \<noteq> None \<and> \<not> replace_allowed)"
      using False t2(5) by auto
    with ins show ?thesis
      using steps t2(5) False
      by (intro exI [of _ "s\<lparr>entries := ?w\<rparr>"]) (simp del: map_option_eq_Some)
  qed
qed

lemma removal_table:
  assumes ok: "hashtable_ok s"
  shows "\<exists>t' r. findspot (\<lambda>k'. k' = k) (hashk_of k) False (entries s) = Some (t', r) \<and>
    same_view hashk_of (=) s (s\<lparr>entries := t'\<rparr>) \<and>
    (case r of None \<Rightarrow> hlookup s k = None
     | Some j \<Rightarrow> j < length (tbl t') \<and> hlookup s k = Some (val (tbl t' ! j)) \<and>
         (\<exists>p. snd p = val (tbl t' ! j) \<and> removed hashk_of (=) s k p (s\<lparr>entries := table_delete t' j\<rparr>)))"
proof -
  obtain t' r where f: "findspot (\<lambda>k'. k' = k) (hashk_of k) False (entries s) = Some (t', r)"
    "same_view hashk_of (=) s (s\<lparr>entries := t'\<rparr>)"
    "case r of None \<Rightarrow> hlookup s k = None
     | Some j \<Rightarrow> j < length (tbl t') \<and> hlookup s k = Some (val (tbl t' ! j)) \<and>
         key (tbl t' ! j) = Key (the_key (key (tbl t' ! j))) \<and>
         removed hashk_of (=) s k (pair_of (tbl t' ! j)) (s\<lparr>entries := table_delete t' j\<rparr>)"
    using hk.lookup_table [OF ok hashk_of_nonzero, of k] by blast
  have "\<exists>p. snd p = val (tbl t' ! j) \<and> removed hashk_of (=) s k p (s\<lparr>entries := table_delete t' j\<rparr>)"
    if "r = Some j" for j
    using f(3) that by (intro exI [of _ "pair_of (tbl t' ! j)"]) (simp add: pair_of_def)
  with f show ?thesis
    by (intro exI [of _ t'] exI [of _ r]) (simp split: option.splits)
qed

lemma get_ok:
  assumes ok: "hashtable_ok s"
  shows "\<exists>s'. jxta_hashtable_get h s k True =
      Some (case hlookup s k of None \<Rightarrow> (JXTA_ITEM_NOTFOUND, None, h, s')
            | Some v \<Rightarrow> (JXTA_SUCCESS, Some v, share v h, s')) \<and> same_view hashk_of (=) s s'"
proof -
  obtain t' r where "findspot (\<lambda>k'. k' = k) (hashk_of k) False (entries s) = Some (t', r)"
    "same_view hashk_of (=) s (s\<lparr>entries := t'\<rparr>)"
    "case r of None \<Rightarrow> hlookup s k = None
     | Some j \<Rightarrow> j < length (tbl t') \<and> hlookup s k = Some (val (tbl t' ! j)) \<and>
         (\<exists>p. snd p = val (tbl t' ! j) \<and> removed hashk_of (=) s k p (s\<lparr>entries := table_delete t' j\<rparr>))"
    using removal_table [OF ok] by blast
  then show ?thesis
    by (cases r) (simp_all add: jxta_hashtable_get_def Let_def mem_simps share_eq record_entries)
qed

lemma contains_ok:
  assumes ok: "hashtable_ok s"
  shows "\<exists>s'. jxta_hashtable_contains s k =
      Some (if hlookup s k = None then JXTA_ITEM_NOTFOUND else JXTA_SUCCESS, s') \<and> same_view hashk_of (=) s s'"
proof -
  obtain t' r where "findspot (\<lambda>k'. k' = k) (hashk_of k) False (entries s) = Some (t', r)"
    "same_view hashk_of (=) s (s\<lparr>entries := t'\<rparr>)"
    "case r of None \<Rightarrow> hlookup s k = None
     | Some j \<Rightarrow> j < length (tbl t') \<and> hlookup s k = Some (val (tbl t' ! j)) \<and>
         (\<exists>p. snd p = val (tbl t' ! j) \<and> removed hashk_of (=) s k p (s\<lparr>entries := table_delete t' j\<rparr>))"
    using removal_table [OF ok] by blast
  then show ?thesis
    by (cases r) (simp_all add: jxta_hashtable_contains_def Let_def record_entries)
qed

lemma del_ok:
  assumes ok: "hashtable_ok s"
  shows "\<exists>s'. jxta_hashtable_del h s k want =
      Some (case hlookup s k of None \<Rightarrow> (JXTA_ITEM_NOTFOUND, None, h, s')
            | Some v \<Rightarrow> (JXTA_SUCCESS, if want then Some v else None, if want then h else release v h, s')) \<and>
    (case hlookup s k of None \<Rightarrow> same_view hashk_of (=) s s'
     | Some v \<Rightarrow> \<exists>p. snd p = v \<and> removed hashk_of (=) s k p s')"
proof -
  obtain t' r where "findspot (\<lambda>k'. k' = k) (hashk_of k) False (entries s) = Some (t', r)"
    "same_view hashk_of (=) s (s\<lparr>entries := t'\<rparr>)"
    "case r of None \<Rightarrow> hlookup s k = None
     | Some j \<Rightarrow> j < length (tbl t') \<and> hlookup s k = Some (val (tbl t' ! j)) \<and>
         (\<exists>p. snd p = val (tbl t' ! j) \<and> removed hashk_of (=) s k p (s\<lparr>entries := table_delete t' j\<rparr>))"
    using removal_table [OF ok] by blast
  then show ?thesis
    by (cases r) (simp_all add: jxta_hashtable_del_def Let_def mem_simps table_delete_def reusable_entry_def record_entries)
qed

lemma delcheck_ok:
  assumes ok: "hashtable_ok s"
  shows "\<exists>s'. jxta_hashtable_delcheck h s k v =
      Some (if hlookup s k = None then (JXTA_ITEM_NOTFOUND, h, s')
            else if hlookup s k \<noteq> Some v then (JXTA_VIOLATION, h, s')
            else (JXTA_SUCCESS, release v h, s')) \<and>
    (if hlookup s k = Some v then \<exists>p. snd p = v \<and> removed hashk_of (=) s k p s'
     else same_view hashk_of (=) s s')"
proof -
  obtain t' r where "findspot (\<lambda>k'. k' = k) (hashk_of k) False (entries s) = Some (t', r)"
    "same_view hashk_of (=) s (s\<lparr>entries := t'\<rparr>)"
    "case r of None \<Rightarrow> hlookup s k = None
     | Some j \<Rightarrow> j < length (tbl t') \<and> hlookup s k = Some (val (tbl t' ! j)) \<and>
         (\<exists>p. snd p = val (tbl t' ! j) \<and> removed hashk_of (=) s k p (s\<lparr>entries := table_delete t' j\<rparr>))"
    using removal_table [OF ok] by blast
  then show ?thesis
    by (cases r) (auto simp: jxta_hashtable_delcheck_def Let_def mem_simps table_delete_def reusable_entry_def record_entries)
qed

subsection \<open>Runs of operations\<close>

fun hashtable_step ::
  "u8 list store_op \<Rightarrow> heap \<Rightarrow> jxta_hashtable \<Rightarrow> (store_result \<times> heap \<times> jxta_hashtable) option" where
  "hashtable_step (Put k v) h s =
     map_option (\<lambda>(h1, s1). ((JXTA_SUCCESS, None), h1, s1)) (jxta_hashtable_put (\<lambda>_. True) h s k v)"
| "hashtable_step (Replace k v) h s =
     map_option (\<lambda>(old, h1, s1). ((JXTA_SUCCESS, old), h1, s1)) (jxta_hashtable_replace (\<lambda>_. True) h s k v True)"
| "hashtable_step (PutNew k v) h s =
     map_option (\<lambda>(b, h1, s1). ((if b then JXTA_SUCCESS else JXTA_ITEM_EXISTS, None), h1, s1))
       (jxta_hashtable_putnoreplace (\<lambda>_. True) h s k v)"
| "hashtable_step (Get k) h s = map_option (\<lambda>(st, p, h1, s1). ((st, p), h1, s1)) (jxta_hashtable_get h s k True)"
| "hashtable_step (Del k) h s = map_option (\<lambda>(st, p, h1, s1). ((st, p), h1, s1)) (jxta_hashtable_del h s k False)"
| "hashtable_step (Take k) h s = map_option (\<lambda>(st, p, h1, s1). ((st, p), h1, s1)) (jxta_hashtable_del h s k True)"
| "hashtable_step (DelCheck k v) h s =
     map_option (\<lambda>(st, h1, s1). ((st, None), h1, s1)) (jxta_hashtable_delcheck h s k v)"

text \<open>The law of the interface for one step, with the references dropped and taken.\<close>

definition step_meets ::
  "u8 list store_op \<Rightarrow> heap \<Rightarrow> jxta_hashtable \<Rightarrow> ptr list \<Rightarrow> ptr list \<Rightarrow> jxta_hashtable \<Rightarrow> bool" where
  "step_meets x h s outs ins s' \<longleftrightarrow>
     hashtable_step x h s = Some (fst (map_step (=) x (hlookup s)), exchange outs ins h, s') \<and>
     hashtable_ok s' \<and> mutex s' = mutex s \<and> hlookup s' = snd (map_step (=) x (hlookup s)) \<and>
     hroom s - 1 \<le> hroom s' \<and> mset outs \<subseteq># hrefs s \<and>
     hrefs s' + handed (fst (map_step (=) x (hlookup s))) + mset outs = hrefs s + mset ins"

lemma inserted_refs:
  assumes "inserted hashk_of (=) s k v p s'"
  shows "hashtable_ok s'" "mutex s' = mutex s" "hroom s - 1 \<le> hroom s'"
    "hlookup s' = (\<lambda>k'. if k = k' then Some v else hlookup s k')"
    "p = None \<Longrightarrow> hrefs s' = add_mset v (hrefs s)"
    "p = Some q \<Longrightarrow> snd q \<in># hrefs s \<and> add_mset (snd q) (hrefs s') = add_mset v (hrefs s)"
proof -
  show "hashtable_ok s'" "mutex s' = mutex s" "hroom s - 1 \<le> hroom s'"
    "hlookup s' = (\<lambda>k'. if k = k' then Some v else hlookup s k')"
    using assms by (simp_all add: inserted_def)
  have eq: "store_pairs s' + (case p of None \<Rightarrow> {#} | Some p \<Rightarrow> {#p#}) = add_mset (k, v) (store_pairs s)"
    using assms by (simp add: inserted_def)
  show "p = None \<Longrightarrow> hrefs s' = add_mset v (hrefs s)"
    using eq by (simp add: hrefs_def)
  show "p = Some q \<Longrightarrow> snd q \<in># hrefs s \<and> add_mset (snd q) (hrefs s') = add_mset v (hrefs s)"
    using arg_cong [OF eq, of "image_mset snd"] assms by (auto simp: hrefs_def inserted_def)
qed

lemma removed_refs:
  assumes "removed hashk_of (=) s k p s'"
  shows "hashtable_ok s'" "mutex s' = mutex s" "hroom s - 1 \<le> hroom s'"
    "hlookup s' = (\<lambda>k'. if k = k' then None else hlookup s k')"
    "hrefs s = add_mset (snd p) (hrefs s')"
  using assms by (auto simp: removed_def hrefs_def intro: le_trans [OF diff_le_self])

lemma same_view_refs:
  assumes "same_view hashk_of (=) s s'"
  shows "hashtable_ok s'" "mutex s' = mutex s" "hroom s' = hroom s" "hlookup s' = hlookup s" "hrefs s' = hrefs s"
  using assms by (simp_all add: same_view_def hrefs_def)

lemma put_meets:
  assumes ok: "hashtable_ok s" and room: "0 < hroom s" and len: "length k \<le> 2 ^ 35"
    and x: "x = Put k v \<or> x = Replace k v \<or> x = PutNew k v"
  shows "\<exists>outs ins s'. step_meets x h s outs ins s'"
proof -
  have mem: "ample (\<lambda>_. True)"
    by (simp add: ample_def)
  define want where "want = (x = Replace k v)"
  define repl where "repl = (x \<noteq> PutNew k v)"
  obtain s' where s': "jxta_hashtable_comboput (\<lambda>_. True) h s k v want repl =
      (case hlookup s k of
         None \<Rightarrow> Some (True, None, share v h, s')
       | Some old \<Rightarrow>
           if \<not> repl then Some (False, None, h, s')
           else if want then Some (True, Some old, share v h, s')
           else Some (True, None, share v (release old h), s'))"
    "if hlookup s k \<noteq> None \<and> \<not> repl then same_view hashk_of (=) s s'
     else (\<exists>p. map_option snd p = hlookup s k \<and> inserted hashk_of (=) s k v p s')"
    using comboput_ok [OF ok room mem len, of h v want repl] by blast
  note put_defs = step_meets_def jxta_hashtable_put_def jxta_hashtable_replace_def
    jxta_hashtable_putnoreplace_def want_def repl_def exchange_simps handed_def
  show ?thesis
  proof (cases "hlookup s k")
    case None
    with s'(2) have "inserted hashk_of (=) s k v None s'"
      by simp
    note ins = inserted_refs(1-5) [OF this]
    have "step_meets x h s [] [v] s'"
      using s'(1) x None ins by (auto simp: put_defs)
    then show ?thesis by blast
  next
    case (Some old)
    show ?thesis
    proof (cases repl)
      case False
      with s'(2) Some have "same_view hashk_of (=) s s'"
        by simp
      note same = same_view_refs [OF this]
      have "step_meets x h s [] [] s'"
        using s'(1) x Some same False by (auto simp: put_defs)
      then show ?thesis by blast
    next
      case True
      with s'(2) Some obtain q where q: "snd q = old" "inserted hashk_of (=) s k v (Some q) s'"
        by auto
      note ins = inserted_refs(1-4) [OF q(2)] inserted_refs(6) [OF q(2) refl]
      have "step_meets x h s (if want then [] else [old]) [v] s'"
        using s'(1) x Some ins q(1) True by (auto simp: put_defs)
      then show ?thesis by blast
    qed
  qed
qed

lemma lookup_meets:
  assumes ok: "hashtable_ok s"
    and x: "x = Get k \<or> x = Del k \<or> x = Take k \<or> x = DelCheck k v"
  shows "\<exists>outs ins s'. step_meets x h s outs ins s'"
  using x
proof (elim disjE)
  assume x: "x = Get k"
  obtain s' where s': "jxta_hashtable_get h s k True =
      Some (case hlookup s k of None \<Rightarrow> (JXTA_ITEM_NOTFOUND, None, h, s')
            | Some v \<Rightarrow> (JXTA_SUCCESS, Some v, share v h, s'))" "same_view hashk_of (=) s s'"
    using get_ok [OF ok, of h k] by blast
  have "step_meets x h s [] (case hlookup s k of None \<Rightarrow> [] | Some v \<Rightarrow> [v]) s'"
    using x s'(1) same_view_refs [OF s'(2)]
    by (auto simp: step_meets_def handed_def exchange_simps split: option.split)
  then show ?thesis by blast
next
  assume x: "x = Del k"
  obtain s' where s': "jxta_hashtable_del h s k False =
      Some (case hlookup s k of None \<Rightarrow> (JXTA_ITEM_NOTFOUND, None, h, s')
            | Some v \<Rightarrow> (JXTA_SUCCESS, None, release v h, s'))"
    "case hlookup s k of None \<Rightarrow> same_view hashk_of (=) s s'
     | Some v \<Rightarrow> \<exists>p. snd p = v \<and> removed hashk_of (=) s k p s'"
    using del_ok [OF ok, of h k False, unfolded if_False] by blast
  have "step_meets x h s (case hlookup s k of None \<Rightarrow> [] | Some v \<Rightarrow> [v]) [] s'"
    using x s' by (auto simp: step_meets_def handed_def exchange_simps split: option.splits
        dest: removed_refs same_view_refs)
  then show ?thesis by blast
next
  assume x: "x = Take k"
  obtain s' where s': "jxta_hashtable_del h s k True =
      Some (case hlookup s k of None \<Rightarrow> (JXTA_ITEM_NOTFOUND, None, h, s')
            | Some v \<Rightarrow> (JXTA_SUCCESS, Some v, h, s'))"
    "case hlookup s k of None \<Rightarrow> same_view hashk_of (=) s s'
     | Some v \<Rightarrow> \<exists>p. snd p = v \<and> removed hashk_of (=) s k p s'"
    using del_ok [OF ok, of h k True, unfolded if_True] by blast
  have "step_meets x h s [] [] s'"
    using x s' by (auto simp: step_meets_def handed_def exchange_simps split: option.splits
        dest: removed_refs same_view_refs)
  then show ?thesis by blast
next
  assume x: "x = DelCheck k v"
  obtain s' where s': "jxta_hashtable_delcheck h s k v =
      Some (if hlookup s k = None then (JXTA_ITEM_NOTFOUND, h, s')
            else if hlookup s k \<noteq> Some v then (JXTA_VIOLATION, h, s')
            else (JXTA_SUCCESS, release v h, s'))"
    "if hlookup s k = Some v then \<exists>p. snd p = v \<and> removed hashk_of (=) s k p s'
     else same_view hashk_of (=) s s'"
    using delcheck_ok [OF ok, of h k v] by blast
  have "step_meets x h s (if hlookup s k = Some v then [v] else []) [] s'"
    using x s' by (auto simp: step_meets_def handed_def exchange_simps split: if_splits
        dest: removed_refs same_view_refs)
  then show ?thesis by blast
qed

lemma hashtable_step_meets:
  assumes "hashtable_ok s" "0 < hroom s" "length (key_of_op x) \<le> 2 ^ 35"
  shows "\<exists>outs ins s'. step_meets x h s outs ins s'"
proof (cases x)
  case (Put k v)
  with put_meets [OF assms(1,2), of k x v h] assms(3) show ?thesis by simp
next
  case (Replace k v)
  with put_meets [OF assms(1,2), of k x v h] assms(3) show ?thesis by simp
next
  case (PutNew k v)
  with put_meets [OF assms(1,2), of k x v h] assms(3) show ?thesis by simp
qed (use lookup_meets [OF assms(1), of x _ _ h] in blast)+

interpretation hashtable: object_map "(=)" hashtable_ok hroom hlookup hrefs hashtable_step
  "\<lambda>x. length (key_of_op x) \<le> 2 ^ 35"
proof
  fix s :: jxta_hashtable and x :: "u8 list store_op" and h
  assume "hashtable_ok s" "0 < hroom s" "length (key_of_op x) \<le> 2 ^ 35"
  from hashtable_step_meets [OF this, of h]
  show "\<exists>outs ins s'. hashtable_step x h s = Some (fst (map_step (=) x (hlookup s)), exchange outs ins h, s') \<and>
     hashtable_ok s' \<and> hlookup s' = snd (map_step (=) x (hlookup s)) \<and> hroom s - 1 \<le> hroom s' \<and>
     mset outs \<subseteq># hrefs s \<and>
     hrefs s' + handed (fst (map_step (=) x (hlookup s))) + mset outs = hrefs s + mset ins"
    unfolding step_meets_def by blast
qed


subsection \<open>Creation and runs\<close>

text \<open>
  For an expected usage of at most 2^28 the constructor returns an empty table that
  satisfies the invariant, whose size is the least power of two that is at least twice the
  usage (64 for the default 0), with its mutex free; for a usage above 2^62 (and below 2^63)
  the loop that computes the size never ends.
\<close>

theorem hashtable_new_empty:
  assumes "mem (ENTRY_SIZE * 2 ^ 29)" "\<forall>m n. m \<le> n \<and> mem n \<longrightarrow> mem m"
  shows "(unat u \<le> 2 ^ 28 \<longrightarrow>
     (\<exists>s n. jxta_hashtable_new_0 mem True True u sync = Some (Some s) \<and> hashtable_ok s \<and>
        length (tbl (entries s)) = n \<and> hlookup s = (\<lambda>_. None) \<and> hrefs s = {#} \<and> hroom s = 2 ^ 28 \<and>
        mutex s = (if sync then Some 0 else None) \<and>
        (u = 0 \<and> n = 64 \<or> u \<noteq> 0 \<and> 2 * unat u \<le> n \<and> n < 4 * unat u))) \<and>
   (2 ^ 62 < unat u \<and> unat u < 2 ^ 63 \<longrightarrow> jxta_hashtable_new_0 mem self_ok apr_ok u sync = None)"
proof (intro conjI impI)
  assume "unat u \<le> 2 ^ 28"
  from new_size [OF this] obtain m where m: "map_option unat (real_size_for u) = Some (2 ^ m)"
      "(2::nat) \<le> 2 ^ m" "(2::nat) ^ m \<le> 2 ^ 29"
      "u = 0 \<and> (2::nat) ^ m = 64 \<or> u \<noteq> 0 \<and> 2 * unat u \<le> 2 ^ m \<and> 2 ^ m < 4 * unat u"
    by blast
  let ?s = "\<lparr>entries = fresh_table (2 ^ m), mutex = (if sync then Some 0 else None)\<rparr> :: jxta_hashtable"
  have "mem (ENTRY_SIZE * 2 ^ m)"
    using assms m(3) by (meson mult_le_mono2)
  then have "jxta_hashtable_new_0 mem True True u sync = Some (Some ?s)"
    unfolding jxta_hashtable_new_0_def m(1) by (simp add: Let_def)
  moreover have "hashtable_ok ?s" "hlookup ?s = (\<lambda>_. None)" "hrefs ?s = {#}" "hroom ?s = 2 ^ 28"
    "length (tbl (entries ?s)) = 2 ^ m"
    by (simp_all add: fresh_table_ok [OF refl m(2,3)] hrefs_def)
  ultimately show "\<exists>s n. jxta_hashtable_new_0 mem True True u sync = Some (Some s) \<and> hashtable_ok s \<and>
        length (tbl (entries s)) = n \<and> hlookup s = (\<lambda>_. None) \<and> hrefs s = {#} \<and> hroom s = 2 ^ 28 \<and>
        mutex s = (if sync then Some 0 else None) \<and>
        (u = 0 \<and> n = 64 \<or> u \<noteq> 0 \<and> 2 * unat u \<le> n \<and> n < 4 * unat u)"
    using m(4) by (intro exI [of _ ?s] exI [of _ "2 ^ m"]) simp
next
  assume "2 ^ 62 < unat u \<and> unat u < 2 ^ 63"
  then show "jxta_hashtable_new_0 mem self_ok apr_ok u sync = None"
    using real_size_for_endless [of u] by (simp add: jxta_hashtable_new_0_def)
qed

theorem hashtable_new_empty_witness:
  "\<exists>s. jxta_hashtable_new_0 (\<lambda>_. True) True True 100 True = Some (Some s) \<and> hlookup s = (\<lambda>_. None) \<and>
     length (tbl (entries s)) < 400"
  using hashtable_new_empty [of "\<lambda>_. True" 100 True True True] by auto

text \<open>
  C3: Any sequence of insertions, replacements, lookups and removals on a well-formed table
  (with room for the insertions below the 2^28 limit) never aborts, leaves the table or loops,
  returns exactly the results of the same operations on a map, keeps the invariant, and the
  table then stands for that map.
\<close>

theorem hashtable_refines_map:
  assumes "hashtable_ok s" "length xs \<le> hroom s" "\<forall>x \<in> set xs. length (key_of_op x) \<le> 2 ^ 35"
  shows "\<exists>h' s'. store_run hashtable_step xs h s = Some (fst (map_run (=) xs (hlookup s)), h', s') \<and>
    hashtable_ok s' \<and> hlookup s' = snd (map_run (=) xs (hlookup s))"
  using hashtable.run_refines_map [OF assms, of h] by blast

definition small_table :: jxta_hashtable where
  "small_table = \<lparr>entries = fresh_table 2, mutex = Some 0\<rparr>"

lemma small_table_ok:
  "hashtable_ok small_table" "hlookup small_table = (\<lambda>_. None)" "hrefs small_table = {#}"
  "hroom small_table = 2 ^ 28"
  by (simp_all add: fresh_table_ok [of 2 1] small_table_def hrefs_def)

theorem hashtable_refines_map_witness:
  "\<exists>h' s'. store_run hashtable_step [Put [1] 5, Put [2] 6, Put [3] 7, Del [2], Get [3], Get [2]] blank_heap small_table =
      Some ([(JXTA_SUCCESS, None), (JXTA_SUCCESS, None), (JXTA_SUCCESS, None), (JXTA_SUCCESS, None),
             (JXTA_SUCCESS, Some 7), (JXTA_ITEM_NOTFOUND, None)], h', s')"
  using hashtable_refines_map [of small_table "[Put [1] 5, Put [2] 6, Put [3] 7, Del [2], Get [3], Get [2]]" blank_heap]
    small_table_ok by auto

text \<open>
  C4: The table neither loses nor leaks references.  For an object of which the client holds
  a reference beyond those in the table, the reference count minus the number of entries
  holding the object minus the references handed out by lookups and removals is unchanged by
  every sequence of operations, and the object stays initialised.
\<close>

theorem hashtable_reference_balance:
  assumes "hashtable_ok s" "length xs \<le> hroom s" "\<forall>x \<in> set xs. length (key_of_op x) \<le> 2 ^ 35"
    and "owned h (hrefs s) q" "store_run hashtable_step xs h s = Some (rs, h', s')"
  shows "refCount (objs h' q) - int (count (hrefs s' + handed_all rs) q) =
      refCount (objs h q) - int (count (hrefs s) q) \<and>
    jxta_object_check_initialized h' q"
proof -
  from hashtable.run_refines_map [OF assms(1-3), of h] assms(5)
  have "\<forall>M q. owned h (hrefs s + M) q \<longrightarrow>
        owned h' (hrefs s' + handed_all rs + M) q \<and>
        excess h' (hrefs s' + handed_all rs + M) q = excess h (hrefs s + M) q"
    by auto
  from this [THEN spec, of "{#}", THEN spec, of q] assms(4) show ?thesis
    by (simp add: owned_def excess_def)
qed

theorem hashtable_reference_balance_witness:
  "\<exists>rs h' s'. store_run hashtable_step [Put [1] 5, Replace [1] 5, Get [1]] (jxta_object_init blank_heap 5 0 True)
       small_table = Some (rs, h', s') \<and>
     refCount (objs h' 5) - int (count (hrefs s' + handed_all rs) 5) = 1"
proof -
  let ?ops = "[Put [1] 5, Replace [1] 5, Get [1]]" and ?h = "jxta_object_init blank_heap 5 0 True"
  have s: "length ?ops \<le> hroom small_table" "\<forall>x \<in> set ?ops. length (key_of_op x) \<le> 2 ^ 35"
    by (simp_all add: small_table_ok)
  obtain rs h' s' where run: "store_run hashtable_step ?ops ?h small_table = Some (rs, h', s')"
    using hashtable.run_refines_map [OF small_table_ok(1) s, of ?h] by blast
  have "owned ?h (hrefs small_table) 5" "refCount (objs ?h 5) - int (count (hrefs small_table) 5) = 1"
    using init_live [of 5 0 blank_heap True] by (simp_all add: small_table_ok owned_def excess_def live_def)
  with hashtable_reference_balance [OF small_table_ok(1) s _ run] run show ?thesis
    by auto
qed

subsection \<open>Emptying and enumerating\<close>

lemma clear_loop_eq:
  "clear_loop es h u =
     (map (\<lambda>e. if in_use e then reusable_entry else e) es, fold release (values_of es) h,
      u - length (filter in_use es))"
  by (induction es arbitrary: h u)
     (simp_all add: in_use_def values_of_def reusable_entry_def Let_def)

lemma values_of_refs: "mset (values_of (tbl (entries s))) = hrefs s"
  by (simp add: mset_keys_values hrefs_def)

lemma free_loop_eq:
  "fold (\<lambda>e h. if hashk e = 0 then h else release (val e) h) es h = fold release (values_of es) h"
  by (induction es arbitrary: h) (simp_all add: values_of_def)

lemma hashtable_clear_ok:
  assumes ok: "hashtable_ok s"
  shows "\<exists>s'. jxta_hashtable_clear h s = Some (fold release (values_of (tbl (entries s))) h, s') \<and>
    hashtable_ok s' \<and> mutex s' = mutex s \<and> hlookup s' = (\<lambda>_. None) \<and> hrefs s' = {#} \<and>
    occupancy (entries s') = occupancy (entries s)"
proof -
  let ?t = "entries s"
  have t: "table_ok hashk_of (=) ?t" "length (tbl ?t) \<le> 2 ^ 30"
    using ok by (simp_all add: store_ok_def)
  have "usage ?t = length (filter in_use (tbl ?t))"
    using t(1) by (simp add: table_ok_def)
  then have "jxta_hashtable_clear h s = Some (fold release (values_of (tbl ?t)) h,
      s\<lparr>entries := ?t\<lparr>tbl := map (\<lambda>e. if in_use e then reusable_entry else e) (tbl ?t), usage := 0\<rparr>\<rparr>)"
    by (simp add: jxta_hashtable_clear_def Let_def table_capacity_small [OF t] clear_loop_eq mem_simps record_entries)
  with cleared_table_ok [OF t(1)] t(2) show ?thesis
    by (simp add: store_ok_def store_lookup_def hrefs_def store_pairs_def fun_eq_iff)
qed

text \<open>
  Clearing a table and freeing it drop exactly one reference for every entry in use: the
  count of each object decreases by the number of entries that hold it.  After clearing, the
  table is well formed and empty, and its occupancy is unchanged (the entries are reusable).
\<close>

theorem hashtable_clear_free_release:
  assumes ok: "hashtable_ok s"
  shows "\<exists>h' s'. jxta_hashtable_clear h s = Some (h', s') \<and> jxta_hashtable_free h s = Some h' \<and>
    (\<forall>q. is_mutable h q \<longrightarrow> refCount (objs h' q) = refCount (objs h q) - int (count (hrefs s) q)) \<and>
    hashtable_ok s' \<and> hlookup s' = (\<lambda>_. None) \<and> hrefs s' = {#} \<and> mutex s' = mutex s \<and>
    occupancy (entries s') = occupancy (entries s)"
proof -
  have t: "table_ok hashk_of (=) (entries s)" "length (tbl (entries s)) \<le> 2 ^ 30"
    using ok by (simp_all add: store_ok_def)
  have "jxta_hashtable_free h s = Some (fold release (values_of (tbl (entries s))) h)"
    by (simp add: jxta_hashtable_free_def table_capacity_small [OF t] free_loop_eq)
  moreover have "count_list (values_of (tbl (entries s))) q = count (hrefs s) q" for q
    using values_of_refs [of s] by (simp add: count_list_mset)
  ultimately show ?thesis
    using hashtable_clear_ok [OF ok, of h] release_all_refCount by auto
qed

theorem hashtable_clear_free_release_witness:
  "\<exists>h s h' s'. store_run hashtable_step [Put [1] 5, Put [2] 5] (jxta_object_init blank_heap 5 0 True) small_table
       = Some ([(JXTA_SUCCESS, None), (JXTA_SUCCESS, None)], h, s) \<and>
     jxta_hashtable_clear h s = Some (h', s') \<and> hlookup s' = (\<lambda>_. None)"
proof -
  obtain h s where run: "store_run hashtable_step [Put [1] 5, Put [2] 5] (jxta_object_init blank_heap 5 0 True) small_table
       = Some ([(JXTA_SUCCESS, None), (JXTA_SUCCESS, None)], h, s)" "hashtable_ok s"
    using hashtable.run_refines_map [OF small_table_ok(1), of "[Put [1] 5, Put [2] 5]"
        "jxta_object_init blank_heap 5 0 True"] small_table_ok by auto
  with hashtable_clear_free_release [OF run(2), of h] show ?thesis
    by blast
qed

lemma values_get_ok:
  assumes ok: "hashtable_ok s" and vmem: "\<forall>n \<le> 2 ^ 30. vmem n"
  shows "\<exists>vals. jxta_hashtable_values_get vmem h s =
      Some (fold share (values_of (tbl (entries s))) h, vals, s) \<and>
    vector_ok vals \<and> vlist vals = values_of (tbl (entries s))"
proof -
  have "table_ok hashk_of (=) (entries s)"
    using ok by (simp add: store_ok_def)
  from collect_ok [OF ok vmem length_values_of [OF this], of h] store_visited(1) [OF ok] show ?thesis
    by (auto simp: jxta_hashtable_values_get_def Let_def)
qed

lemma keys_loop_ok:
  assumes "\<forall>e \<in> set es. shape_ok e" "\<forall>k \<in> set (keys_of es). mem (length k + 1)"
    and "i + length (filter in_use es) \<le> length ks"
  shows "keys_loop mem es ks i =
    Some (take i ks @ map (\<lambda>k. Some (k @ [0])) (keys_of es) @ drop (i + length (filter in_use es)) ks,
          i + length (filter in_use es))"
  using assms
proof (induction es arbitrary: ks i)
  case Nil
  then show ?case by (simp add: keys_of_def)
next
  case (Cons e es)
  show ?case
  proof (cases "in_use e")
    case False
    with Cons show ?thesis by (simp add: in_use_def keys_of_def)
  next
    case True
    then obtain k where k: "key e = Key k" "hashk e \<noteq> 0"
      using Cons.prems(1) by (auto simp: shape_ok_def in_use_def)
    have i: "i < length ks"
      using Cons.prems(3) True by simp
    have m: "mem (length k + 1)"
      using Cons.prems(2) True k by (simp add: keys_of_def)
    let ?ks = "ks[i := Some (k @ [0])]"
    have "keys_loop mem es ?ks (Suc i) =
      Some (take (Suc i) ?ks @ map (\<lambda>k. Some (k @ [0])) (keys_of es) @ drop (Suc i + length (filter in_use es)) ?ks,
          Suc i + length (filter in_use es))"
      using Cons.prems True by (intro Cons.IH) (simp_all add: keys_of_def)
    moreover have "take (Suc i) ?ks = take i ks @ [Some (k @ [0])]"
      using i by (simp add: take_Suc_conv_app_nth)
    ultimately show ?thesis
      using True k i m by (simp add: mem_simps keys_of_def)
  qed
qed

text \<open>
  Enumerating a table gives every stored value in a new vector, one more reference taken
  for each, and every key exactly once, copied and terminated by a zero byte, in an array that
  ends with the null pointer; neither loop writes outside of what was allocated.
\<close>

theorem hashtable_enumerates:
  assumes ok: "hashtable_ok s" and vmem: "\<forall>n \<le> 2 ^ 30. vmem n"
    and mem: "mem (8 * (usage (entries s) + 1))" "\<forall>k. hlookup s k \<noteq> None \<longrightarrow> mem (length k + 1)"
  shows "(\<exists>h' vals. jxta_hashtable_values_get vmem h s = Some (h', vals, s) \<and> vector_ok vals \<and>
       mset (vlist vals) = hrefs s \<and> h' = fold share (vlist vals) h) \<and>
    (\<exists>ks. jxta_hashtable_keys_get mem s = Some (Some (map (\<lambda>k. Some (k @ [0])) ks @ [None]), s) \<and>
       distinct ks \<and> set ks = dom (hlookup s))"
proof (rule conjI)
  show "\<exists>h' vals. jxta_hashtable_values_get vmem h s = Some (h', vals, s) \<and> vector_ok vals \<and>
       mset (vlist vals) = hrefs s \<and> h' = fold share (vlist vals) h"
    using values_get_ok [OF ok vmem, of h] values_of_refs [of s] by metis
  let ?t = "entries s"
  have t: "table_ok hashk_of (=) ?t" "length (tbl ?t) \<le> 2 ^ 30"
    using ok by (simp_all add: store_ok_def)
  note keys = keys_of_distinct [OF t(1)]
  have dom: "set (keys_of (tbl ?t)) = dom (hlookup s)"
    using keys(2) by (auto simp: store_lookup_def dom_def)
  have us: "length (filter in_use (tbl ?t)) = usage ?t"
    using t(1) by (simp add: table_ok_def)
  have shapes: "\<forall>e \<in> set (tbl ?t). shape_ok e"
    using t(1) by (auto simp: table_ok_def geometry_def)
  have "keys_loop mem (tbl ?t) (replicate (usage ?t + 1) None) 0 =
      Some (map (\<lambda>k. Some (k @ [0])) (keys_of (tbl ?t)) @ [None], usage ?t)"
  proof -
    have "\<forall>k \<in> set (keys_of (tbl ?t)). mem (length k + 1)"
      using mem(2) dom by (auto simp: dom_def)
    from keys_loop_ok [OF shapes this, of 0 "replicate (usage ?t + 1) None"] us
    have "keys_loop mem (tbl ?t) (replicate (usage ?t + 1) None) 0 =
      Some (map (\<lambda>k. Some (k @ [0])) (keys_of (tbl ?t)) @ drop (usage ?t) (replicate (usage ?t + 1) None), usage ?t)"
      by (simp del: replicate_Suc drop_replicate)
    also have "drop (usage ?t) (replicate (usage ?t + 1) None) = [None :: u8 list option]"
      by (simp only: drop_replicate) simp
    finally show ?thesis .
  qed
  moreover have "length (keys_of (tbl ?t)) = usage ?t"
    using us by (simp add: keys_of_def)
  ultimately have "jxta_hashtable_keys_get mem s = Some (Some (map (\<lambda>k. Some (k @ [0])) (keys_of (tbl ?t)) @ [None]), s)"
    using mem(1) by (simp add: jxta_hashtable_keys_get_def Let_def table_capacity_small [OF t] mem_simps
        list_update_append)
  with keys(1) dom show "\<exists>ks. jxta_hashtable_keys_get mem s = Some (Some (map (\<lambda>k. Some (k @ [0])) ks @ [None]), s) \<and>
       distinct ks \<and> set ks = dom (hlookup s)"
    by blast
qed

theorem hashtable_enumerates_witness:
  "\<exists>ks. jxta_hashtable_keys_get (\<lambda>_. True) small_table = Some (Some (map (\<lambda>k. Some (k @ [0])) ks @ [None]), small_table) \<and>
     set ks = {}"
  using hashtable_enumerates [OF small_table_ok(1), of "\<lambda>_. True" "\<lambda>_. True"] small_table_ok(2) by auto

end
