(* ===== verification/ObjectHashTable.thy ===== *)
theory ObjectHashTable
  imports TableStore
begin

section \<open>Hash tables with object keys (src/src/jxta_objecthashtable.c)\<close>

text \<open>
  The keys are shared objects; the functions \<open>hash\<close> and \<open>equals\<close> that the owner of the table
  gives to its constructor are the first arguments of the operations.  The code gives
  \<open>JXTA_NOMEM\<close> where the other table aborts.  An operation returns \<open>None\<close> where the code
  reads outside of the table or would rehash a table without room, which is excluded below.

  When \<open>hash\<close> returns 0, the operations return \<open>JXTA_INVALID_ARGUMENT\<close> after they have taken
  the mutex and do not give it back, as in the code.
\<close>

type_synonym jxta_objecthashtable = "ptr locked_table"

definition OBJECT_ENTRY_SIZE :: nat where
  "OBJECT_ENTRY_SIZE = 24"

subsection \<open>Creation and growth\<close>

definition jxta_objecthashtable_new ::
  "(nat \<Rightarrow> bool) \<Rightarrow> bool \<Rightarrow> bool \<Rightarrow> u64 \<Rightarrow> jxta_objecthashtable option option" where
  "jxta_objecthashtable_new mem self_ok apr_ok initial_usage =
     do { real_size \<leftarrow> map_option unat (real_size_for initial_usage);
          Some (if \<not> self_ok then None
                else if \<not> mem (OBJECT_ENTRY_SIZE * real_size) then None
                else if \<not> apr_ok then None
                else Some \<lparr>entries = fresh_table real_size, mutex = Some 0\<rparr>) }"

definition object_findspot ::
  "(ptr \<Rightarrow> ptr \<Rightarrow> bool) \<Rightarrow> ptr table \<Rightarrow> u32 \<Rightarrow> ptr \<Rightarrow> bool \<Rightarrow> (ptr table \<times> nat option) option" where
  "object_findspot equals t hashk' k adding = findspot (\<lambda>k'. equals k' k) (unat hashk') adding t"

definition object_grow ::
  "(nat \<Rightarrow> bool) \<Rightarrow> (ptr \<Rightarrow> ptr \<Rightarrow> bool) \<Rightarrow> ptr table \<Rightarrow> (status \<times> ptr table) option" where
  "object_grow mem equals t =
     (let new_modmask =
        (if usage t > grow_threshold (max_occupancy t)
         then (2 * table_capacity t + 2 ^ 32 - 1) mod 2 ^ 32 else modmask t)
      in if \<not> mem (OBJECT_ENTRY_SIZE * (new_modmask + 1)) then Some (JXTA_NOMEM, t)
         else do {
           old \<leftarrow> mem_load (tbl t) 0 (table_capacity t);
           r \<leftarrow> rehash equals old
             (t\<lparr>modmask := new_modmask, max_occupancy := occupancy_limit (new_modmask + 1),
                tbl := empty_entries (new_modmask + 1), usage := 0, occupancy := 0\<rparr>);
           t' \<leftarrow> r;
           Some (JXTA_SUCCESS, t') })"

subsection \<open>Insertion\<close>

text \<open>\<open>unlocked m1 t\<close> is the state in which an operation leaves the table through its exit.\<close>

definition unlocked :: "mutex \<Rightarrow> 'k table \<Rightarrow> 'k locked_table" where
  "unlocked m1 t = \<lparr>entries = t, mutex = mutex_unlock m1\<rparr>"

definition jxta_objecthashtable_comboput ::
  "(nat \<Rightarrow> bool) \<Rightarrow> (ptr \<Rightarrow> u32) \<Rightarrow> (ptr \<Rightarrow> ptr \<Rightarrow> bool) \<Rightarrow> heap \<Rightarrow> jxta_objecthashtable \<Rightarrow> ptr \<Rightarrow> ptr \<Rightarrow> bool \<Rightarrow> bool
     \<Rightarrow> (status \<times> ptr option \<times> heap \<times> jxta_objecthashtable) option" where
  "jxta_objecthashtable_comboput mem hash equals h self k value want_old replace_ok =
     (let m1 = mutex_lock (mutex self); t = entries self; hashk' = hash k in
      if hashk' = 0 then Some (JXTA_INVALID_ARGUMENT, None, h, self\<lparr>mutex := m1\<rparr>)
      else do {
        (res, t1) \<leftarrow> (if occupancy t > max_occupancy t then object_grow mem equals t else Some (JXTA_SUCCESS, t));
        if res \<noteq> JXTA_SUCCESS then Some (res, None, h, unlocked m1 t1)
        else do {
          (t2, e) \<leftarrow> object_findspot equals t1 hashk' k True;
          (res2, t3, e') \<leftarrow>
            (if e = None then do {
               (r, t') \<leftarrow> object_grow mem equals t2;
               if r \<noteq> JXTA_SUCCESS then Some (r, t', None)
               else do { (t'', e'') \<leftarrow> object_findspot equals t' hashk' k True;
                         Some (if e'' = None then JXTA_NOMEM else JXTA_SUCCESS, t'', e'') } }
             else Some (JXTA_SUCCESS, t2, e));
          if res2 \<noteq> JXTA_SUCCESS then Some (res2, None, h, unlocked m1 t3)
          else do {
            j \<leftarrow> e';
            cur \<leftarrow> mem_read (tbl t3) j;
            if hashk cur \<noteq> 0 \<and> \<not> replace_ok then Some (JXTA_ITEM_EXISTS, None, h, unlocked m1 t3)
            else
              (let (h1, old, t4) =
                 (if hashk cur \<noteq> 0 then
                    (let h0 = release (the_key (key cur)) h in
                     if want_old then (h0, Some (val cur), t3) else (release (val cur) h0, None, t3))
                  else (h, None, t3\<lparr>usage := usage t3 + 1,
                                    occupancy := (if key cur = NoKey then occupancy t3 + 1 else occupancy t3)\<rparr>))
               in do { xs \<leftarrow> mem_write (tbl t4) j (entry_for (unat hashk') k value);
                       Some (JXTA_SUCCESS, old, share value (share k h1), unlocked m1 (t4\<lparr>tbl := xs\<rparr>)) }) } } })"

definition jxta_objecthashtable_replace where
  "jxta_objecthashtable_replace mem hash equals h self k value want_old =
     jxta_objecthashtable_comboput mem hash equals h self k value want_old True"

definition jxta_objecthashtable_put where
  "jxta_objecthashtable_put mem hash equals h self k value =
     map_option (\<lambda>(st, _, h1, s1). (st, h1, s1))
       (jxta_objecthashtable_comboput mem hash equals h self k value False True)"

definition jxta_objecthashtable_putnoreplace where
  "jxta_objecthashtable_putnoreplace mem hash equals h self k value =
     map_option (\<lambda>(st, _, h1, s1). (st, h1, s1))
       (jxta_objecthashtable_comboput mem hash equals h self k value False False)"

subsection \<open>Lookup and removal\<close>

definition jxta_objecthashtable_get ::
  "(ptr \<Rightarrow> u32) \<Rightarrow> (ptr \<Rightarrow> ptr \<Rightarrow> bool) \<Rightarrow> heap \<Rightarrow> jxta_objecthashtable \<Rightarrow> ptr \<Rightarrow> bool
     \<Rightarrow> (status \<times> ptr option \<times> heap \<times> jxta_objecthashtable) option" where
  "jxta_objecthashtable_get hash equals h self k found_value =
     (let m1 = mutex_lock (mutex self); hashk' = hash k in
      if hashk' = 0 then Some (JXTA_INVALID_ARGUMENT, None, h, self\<lparr>mutex := m1\<rparr>)
      else do {
        (t1, e) \<leftarrow> object_findspot equals (entries self) hashk' k False;
        (case e of
           None \<Rightarrow> Some (JXTA_ITEM_NOTFOUND, None, h, unlocked m1 t1)
         | Some j \<Rightarrow>
             do { cur \<leftarrow> mem_read (tbl t1) j;
                  if found_value then Some (JXTA_SUCCESS, Some (val cur), share (val cur) h, unlocked m1 t1)
                  else Some (JXTA_SUCCESS, None, h, unlocked m1 t1) }) })"

definition jxta_objecthashtable_del ::
  "(ptr \<Rightarrow> u32) \<Rightarrow> (ptr \<Rightarrow> ptr \<Rightarrow> bool) \<Rightarrow> heap \<Rightarrow> jxta_objecthashtable \<Rightarrow> ptr \<Rightarrow> bool
     \<Rightarrow> (status \<times> ptr option \<times> heap \<times> jxta_objecthashtable) option" where
  "jxta_objecthashtable_del hash equals h self k found_value =
     (let m1 = mutex_lock (mutex self); hashk' = hash k in
      if hashk' = 0 then Some (JXTA_INVALID_ARGUMENT, None, h, self\<lparr>mutex := m1\<rparr>)
      else do {
        (t1, e) \<leftarrow> object_findspot equals (entries self) hashk' k False;
        (case e of
           None \<Rightarrow> Some (JXTA_ITEM_NOTFOUND, None, h, unlocked m1 t1)
         | Some j \<Rightarrow>
             do { cur \<leftarrow> mem_read (tbl t1) j;
                  let (out, h1) = (if found_value then (Some (val cur), h) else (None, release (val cur) h));
                  let h2 = release (the_key (key cur)) h1;
                  xs \<leftarrow> mem_write (tbl t1) j \<lparr>hashk = 0, key = Tombstone, val = NULL\<rparr>;
                  Some (JXTA_SUCCESS, out, h2, unlocked m1 (t1\<lparr>tbl := xs, usage := usage t1 - 1\<rparr>)) }) })"

definition jxta_objecthashtable_delcheck ::
  "(ptr \<Rightarrow> u32) \<Rightarrow> (ptr \<Rightarrow> ptr \<Rightarrow> bool) \<Rightarrow> heap \<Rightarrow> jxta_objecthashtable \<Rightarrow> ptr \<Rightarrow> ptr
     \<Rightarrow> (status \<times> heap \<times> jxta_objecthashtable) option" where
  "jxta_objecthashtable_delcheck hash equals h self k value =
     (let m1 = mutex_lock (mutex self); hashk' = hash k in
      if hashk' = 0 then Some (JXTA_INVALID_ARGUMENT, h, self\<lparr>mutex := m1\<rparr>)
      else do {
        (t1, e) \<leftarrow> object_findspot equals (entries self) hashk' k False;
        (case e of
           None \<Rightarrow> Some (JXTA_ITEM_NOTFOUND, h, unlocked m1 t1)
         | Some j \<Rightarrow>
             do { cur \<leftarrow> mem_read (tbl t1) j;
                  if value \<noteq> val cur then Some (JXTA_VIOLATION, h, unlocked m1 t1)
                  else do {
                    let h2 = release (the_key (key cur)) (release (val cur) h);
                    xs \<leftarrow> mem_write (tbl t1) j \<lparr>hashk = 0, key = Tombstone, val = NULL\<rparr>;
                    Some (JXTA_SUCCESS, h2, unlocked m1 (t1\<lparr>tbl := xs, usage := usage t1 - 1\<rparr>)) } }) })"

subsection \<open>Whole tables\<close>

text \<open>The loops count with a \<open>size_t\<close> from \<open>modmask + 1\<close> down.\<close>

definition object_visited :: "ptr table \<Rightarrow> ptr entry list option" where
  "object_visited t = mem_load (tbl t) 0 (table_capacity t)"

definition Jxta_objecthashtable_free :: "heap \<Rightarrow> jxta_objecthashtable \<Rightarrow> heap option" where
  "Jxta_objecthashtable_free h self =
     do { es \<leftarrow> object_visited (entries self);
          Some (fold (\<lambda>e h. if hashk e = 0 then h else release (val e) (release (the_key (key e)) h)) es h) }"

definition jxta_objecthashtable_values_get ::
  "(nat \<Rightarrow> bool) \<Rightarrow> heap \<Rightarrow> jxta_objecthashtable \<Rightarrow> (heap \<times> jxta_vector \<times> jxta_objecthashtable) option" where
  "jxta_objecthashtable_values_get vmem h self =
     (let vals = jxta_vector_new vmem (of_nat (usage (entries self)));
          m1 = mutex_lock (mutex self)
      in do { es \<leftarrow> object_visited (entries self);
              (h1, vals1) \<leftarrow> add_each (jxta_vector_add_object_last vmem) (values_of es) h vals;
              Some (h1, vals1, unlocked m1 (entries self)) })"

definition jxta_objecthashtable_keys_get ::
  "(nat \<Rightarrow> bool) \<Rightarrow> heap \<Rightarrow> jxta_objecthashtable \<Rightarrow> (heap \<times> jxta_vector \<times> jxta_objecthashtable) option" where
  "jxta_objecthashtable_keys_get vmem h self =
     (let keys = jxta_vector_new vmem (of_nat (usage (entries self)));
          m1 = mutex_lock (mutex self)
      in do { es \<leftarrow> object_visited (entries self);
              (h1, keys1) \<leftarrow> add_each (jxta_vector_add_object_last vmem) (keys_of es) h keys;
              Some (h1, keys1, unlocked m1 (entries self)) })"

text \<open>
  The diagnostic lookup, with the comparison as the code has it: the first entry whose key is
  not equal to the one asked for.  \<open>deref\<close> is what \<open>equals\<close> returns for the address of the
  table itself, which the code passes for a reusable entry.
\<close>

fun stupid_loop ::
  "(ptr \<Rightarrow> ptr \<Rightarrow> bool) \<Rightarrow> bool \<Rightarrow> ptr \<Rightarrow> ptr entry list \<Rightarrow> status \<times> ptr option" where
  "stupid_loop equals deref k [] = (JXTA_ITEM_NOTFOUND, None)"
| "stupid_loop equals deref k (e # es) =
     (case key e of
        NoKey \<Rightarrow> stupid_loop equals deref k es
      | Tombstone \<Rightarrow> if \<not> deref then (JXTA_ITEM_NOTFOUND, None) else stupid_loop equals deref k es
      | Key k' \<Rightarrow> if \<not> equals k' k then (JXTA_SUCCESS, Some (val e)) else stupid_loop equals deref k es)"

definition jxta_objecthashtable_stupid_lookup ::
  "(ptr \<Rightarrow> u32) \<Rightarrow> (ptr \<Rightarrow> ptr \<Rightarrow> bool) \<Rightarrow> bool \<Rightarrow> jxta_objecthashtable \<Rightarrow> ptr \<Rightarrow> (status \<times> ptr option) option" where
  "jxta_objecthashtable_stupid_lookup hash equals deref self k =
     (if hash k = 0 then Some (JXTA_INVALID_ARGUMENT, None)
      else do { es \<leftarrow> object_visited (entries self); Some (stupid_loop equals deref k es) })"

definition jxta_objecthashtable_stats ::
  "jxta_objecthashtable \<Rightarrow> nat \<times> nat \<times> nat \<times> nat \<times> (nat \<times> nat) option" where
  "jxta_objecthashtable_stats self =
     (let t = entries self in
      (table_capacity t, usage t, occupancy t, max_occupancy t,
       if nb_lookups t \<noteq> 0 then Some (nb_hops t, nb_lookups t) else None))"

fun simplehash_loop :: "u8 list \<Rightarrow> u32 \<Rightarrow> u32" where
  "simplehash_loop [] h = h"
| "simplehash_loop (s # ss) h =
     (let h1 = h + ucast s;
          h2 = h1 + push_bit 10 h1;
          h3 = h2 XOR drop_bit 6 h2
      in simplehash_loop ss h3)"

definition jxta_objecthashtable_simplehash :: "u8 list \<Rightarrow> u32" where
  "jxta_objecthashtable_simplehash ks =
     (let h = simplehash_loop ks (- 1);
          h1 = h + push_bit 3 h;
          h2 = h1 XOR drop_bit 11 h1;
          h3 = h2 + push_bit 15 h2
      in if h3 \<noteq> 0 then h3 else 1)"

subsection \<open>The keys and the invariant\<close>

text \<open>What the table relies on: \<open>equals\<close> is an equivalence that \<open>hash\<close> respects.\<close>

locale object_keys =
  fixes hash :: "ptr \<Rightarrow> u32"
    and equals :: "ptr \<Rightarrow> ptr \<Rightarrow> bool"
  assumes equals_refl: "equals k k"
    and equals_sym: "equals a b \<Longrightarrow> equals b a"
    and equals_trans: "equals a b \<Longrightarrow> equals b c \<Longrightarrow> equals a c"
    and equals_hash: "equals a b \<Longrightarrow> hash a = hash b"

definition object_hashk :: "(ptr \<Rightarrow> u32) \<Rightarrow> ptr \<Rightarrow> nat" where
  "object_hashk hash k = unat (hash k)"

sublocale object_keys \<subseteq> ok: key_hashing "object_hashk hash" equals
  by unfold_locales
     (auto simp: object_hashk_def intro: equals_refl equals_sym dest: equals_hash elim: equals_trans)

text \<open>The references the table holds: the key and the value of each entry in use.\<close>

definition orefs :: "jxta_objecthashtable \<Rightarrow> ptr multiset" where
  "orefs s = image_mset fst (store_pairs s) + image_mset snd (store_pairs s)"

fun objecthashtable_step ::
  "(ptr \<Rightarrow> u32) \<Rightarrow> (ptr \<Rightarrow> ptr \<Rightarrow> bool) \<Rightarrow> ptr store_op \<Rightarrow> heap \<Rightarrow> jxta_objecthashtable
     \<Rightarrow> (store_result \<times> heap \<times> jxta_objecthashtable) option" where
  "objecthashtable_step hash equals (Put k v) h s =
     map_option (\<lambda>(st, h1, s1). ((st, None), h1, s1)) (jxta_objecthashtable_put (\<lambda>_. True) hash equals h s k v)"
| "objecthashtable_step hash equals (Replace k v) h s =
     map_option (\<lambda>(st, old, h1, s1). ((st, old), h1, s1))
       (jxta_objecthashtable_replace (\<lambda>_. True) hash equals h s k v True)"
| "objecthashtable_step hash equals (PutNew k v) h s =
     map_option (\<lambda>(st, h1, s1). ((st, None), h1, s1))
       (jxta_objecthashtable_putnoreplace (\<lambda>_. True) hash equals h s k v)"
| "objecthashtable_step hash equals (Get k) h s =
     map_option (\<lambda>(st, p, h1, s1). ((st, p), h1, s1)) (jxta_objecthashtable_get hash equals h s k True)"
| "objecthashtable_step hash equals (Del k) h s =
     map_option (\<lambda>(st, p, h1, s1). ((st, p), h1, s1)) (jxta_objecthashtable_del hash equals h s k False)"
| "objecthashtable_step hash equals (Take k) h s =
     map_option (\<lambda>(st, p, h1, s1). ((st, p), h1, s1)) (jxta_objecthashtable_del hash equals h s k True)"
| "objecthashtable_step hash equals (DelCheck k v) h s =
     map_option (\<lambda>(st, h1, s1). ((st, None), h1, s1)) (jxta_objecthashtable_delcheck hash equals h s k v)"

lemma new_mask_32: "0 < n \<Longrightarrow> n \<le> 2 ^ 30 \<Longrightarrow> (2 * n + 2 ^ 32 - 1) mod 2 ^ 32 = 2 * n - 1" for n :: nat
proof -
  assume n: "0 < n" "n \<le> 2 ^ 30"
  then have "2 * n + 2 ^ 32 - 1 = (2 * n - 1) + 2 ^ 32" by simp
  then have "(2 * n + 2 ^ 32 - 1) mod 2 ^ 32 = (2 * n - 1) mod 2 ^ 32"
    by (simp only: mod_add_self2)
  with n show ?thesis by simp
qed

lemma unlocked_eq: "unlocked (mutex_lock (mutex s)) t = s\<lparr>entries := t\<rparr>"
  by (cases s) (simp add: unlocked_def)

context object_keys
begin

abbreviation ostore_ok :: "jxta_objecthashtable \<Rightarrow> bool" where
  "ostore_ok \<equiv> store_ok (object_hashk hash) equals"

abbreviation olookup :: "jxta_objecthashtable \<Rightarrow> ptr \<Rightarrow> ptr option" where
  "olookup \<equiv> store_lookup equals"

lemma hashk_nonzero: "hash k \<noteq> 0 \<Longrightarrow> object_hashk hash k \<noteq> 0"
  by (simp add: object_hashk_def unat_eq_0)

lemma object_grow_ok:
  assumes okt: "table_ok (object_hashk hash) equals t" and le: "length (tbl t) \<le> 2 ^ 30" and u: "usage t \<le> 2 ^ 28"
    and mem: "mem (OBJECT_ENTRY_SIZE * grown_size t)"
  shows "\<exists>t'. object_grow mem equals t = Some (JXTA_SUCCESS, t') \<and> grows_to (object_hashk hash) equals t t'"
proof -
  let ?n = "length (tbl t)"
  note c = table_capacity_small [OF okt le]
  note g = grown_size_bounds [OF okt le u]
  have n0: "0 < ?n"
    using okt by (auto simp: table_ok_def)
  define mask where "mask = (if usage t > grow_threshold (max_occupancy t)
    then (2 * ?n + 2 ^ 32 - 1) mod 2 ^ 32 else modmask t)"
  have mask: "mask = grown_size t - 1" "mask + 1 = grown_size t"
    using c(1) new_mask_32 [OF n0 le] g(2) by (auto simp: mask_def grown_size_def)
  let ?t1 = "t\<lparr>modmask := mask, max_occupancy := occupancy_limit (mask + 1)\<rparr>"
  have "object_grow mem equals t = (if \<not> mem (OBJECT_ENTRY_SIZE * (mask + 1)) then Some (JXTA_NOMEM, t)
      else do { old \<leftarrow> mem_load (tbl t) 0 ?n;
                r \<leftarrow> rehash equals old (?t1\<lparr>tbl := empty_entries (mask + 1), usage := 0, occupancy := 0\<rparr>);
                t' \<leftarrow> r; Some (JXTA_SUCCESS, t') })"
    by (simp only: object_grow_def Let_def c(2) mask_def)
  also have "\<dots> = do { r \<leftarrow> rehash equals (tbl t)
        (?t1\<lparr>tbl := empty_entries (grown_size t), usage := 0, occupancy := 0\<rparr>);
      t' \<leftarrow> r; Some (JXTA_SUCCESS, t') }"
    using mem by (simp only: mask(2)) (simp add: mem_simps)
  finally show ?thesis
    using ok.rehash_grows_to [OF okt le u, of ?t1] mask by auto
qed

lemma object_ready_table:
  assumes ok: "ostore_ok s" and room: "0 < store_room s" and mem: "\<forall>n \<le> 2 ^ 35. mem n"
  shows "\<exists>t1. (if occupancy (entries s) > max_occupancy (entries s) then object_grow mem equals (entries s)
       else Some (JXTA_SUCCESS, entries s)) = Some (JXTA_SUCCESS, t1) \<and>
     (if occupancy (entries s) > max_occupancy (entries s)
      then grows_to (object_hashk hash) equals (entries s) t1 else t1 = entries s)"
proof -
  have t: "table_ok (object_hashk hash) equals (entries s)" "length (tbl (entries s)) \<le> 2 ^ 30"
    "usage (entries s) \<le> 2 ^ 28"
    using ok room by (simp_all add: store_ok_def store_room_def)
  have "mem (OBJECT_ENTRY_SIZE * grown_size (entries s))"
    using mem grown_size_bounds(4) [OF t] by (simp add: OBJECT_ENTRY_SIZE_def)
  from object_grow_ok [OF t, of mem, OF this] show ?thesis
    by auto
qed

lemma object_comboput_ok:
  assumes ok: "ostore_ok s" and room: "0 < store_room s" and mem: "\<forall>n \<le> 2 ^ 35. mem n" and hk: "hash k \<noteq> 0"
  shows "\<exists>s' p. jxta_objecthashtable_comboput mem hash equals h s k v want_old replace_ok =
      (case p of
         None \<Rightarrow> Some (JXTA_SUCCESS, None, share v (share k h), s')
       | Some (k0, old) \<Rightarrow>
           if \<not> replace_ok then Some (JXTA_ITEM_EXISTS, None, h, s')
           else if want_old then Some (JXTA_SUCCESS, Some old, share v (share k (release k0 h)), s')
           else Some (JXTA_SUCCESS, None, share v (share k (release old (release k0 h))), s')) \<and>
    map_option snd p = olookup s k \<and>
    (if p \<noteq> None \<and> \<not> replace_ok then same_view (object_hashk hash) equals s s'
     else inserted (object_hashk hash) equals s k v p s')"
proof -
  obtain t1 where t1: "(if occupancy (entries s) > max_occupancy (entries s) then object_grow mem equals (entries s)
       else Some (JXTA_SUCCESS, entries s)) = Some (JXTA_SUCCESS, t1)"
     "if occupancy (entries s) > max_occupancy (entries s)
      then grows_to (object_hashk hash) equals (entries s) t1 else t1 = entries s"
    using object_ready_table [OF ok room mem] by blast
  obtain t2 j where t2: "findspot (\<lambda>k'. equals k' k) (object_hashk hash k) True t1 = Some (t2, Some j)"
    "table_ok (object_hashk hash) equals t2" "j < length (tbl t2)"
    "same_view (object_hashk hash) equals s (s\<lparr>entries := t2\<rparr>)"
    "olookup s k = (if in_use (tbl t2 ! j) then Some (val (tbl t2 ! j)) else None)"
    "inserted (object_hashk hash) equals s k v (if in_use (tbl t2 ! j) then Some (pair_of (tbl t2 ! j)) else None)
           (s\<lparr>entries := table_write t2 j (object_hashk hash k) k v\<rparr>)"
    using ok.insertion_table [OF ok room hashk_nonzero [OF hk] t1(2)] by blast
  let ?w = "table_write t2 j (object_hashk hash k) k v" and ?e = "tbl t2 ! j"
  have steps: "jxta_objecthashtable_comboput mem hash equals h s k v want_old replace_ok =
    (if in_use ?e then
       if \<not> replace_ok then Some (JXTA_ITEM_EXISTS, None, h, s\<lparr>entries := t2\<rparr>)
       else if want_old then
         Some (JXTA_SUCCESS, Some (val ?e), share v (share k (release (the_key (key ?e)) h)), s\<lparr>entries := ?w\<rparr>)
       else Some (JXTA_SUCCESS, None,
         share v (share k (release (val ?e) (release (the_key (key ?e)) h))), s\<lparr>entries := ?w\<rparr>)
     else Some (JXTA_SUCCESS, None, share v (share k h), s\<lparr>entries := ?w\<rparr>))"
    using t1(1) t2(1,3) hk table_write_eq [OF t2(2,3), where hk = "object_hashk hash k" and k = k and v = v]
    by (simp add: jxta_objecthashtable_comboput_def Let_def mem_simps in_use_def unlocked_eq object_findspot_def
        flip: object_hashk_def)
  let ?p = "if in_use ?e then Some (pair_of ?e) else None"
  have "map_option snd ?p = olookup s k"
    using t2(5) by (simp add: pair_of_def)
  with steps t2(4,6) show ?thesis
    by (intro exI [of _ "if in_use ?e \<and> \<not> replace_ok then s\<lparr>entries := t2\<rparr> else s\<lparr>entries := ?w\<rparr>"] exI [of _ ?p])
       (cases "in_use ?e"; cases replace_ok; simp add: pair_of_def)
qed

lemma object_lookup_table:
  assumes ok: "ostore_ok s" and hk: "hash k \<noteq> 0"
  shows "\<exists>t' r. object_findspot equals (entries s) (hash k) k False = Some (t', r) \<and>
    same_view (object_hashk hash) equals s (s\<lparr>entries := t'\<rparr>) \<and>
    (case r of
       None \<Rightarrow> olookup s k = None
     | Some j \<Rightarrow> j < length (tbl t') \<and> olookup s k = Some (val (tbl t' ! j)) \<and>
         removed (object_hashk hash) equals s k (the_key (key (tbl t' ! j)), val (tbl t' ! j))
           (s\<lparr>entries := table_delete t' j\<rparr>))"
  using ok.lookup_table [OF ok hashk_nonzero [OF hk]] unfolding object_findspot_def object_hashk_def pair_of_def
  by (fastforce split: option.splits)

lemma object_get_ok:
  assumes ok: "ostore_ok s" and hk: "hash k \<noteq> 0"
  shows "\<exists>s'. jxta_objecthashtable_get hash equals h s k True =
      Some (case olookup s k of None \<Rightarrow> (JXTA_ITEM_NOTFOUND, None, h, s')
            | Some v \<Rightarrow> (JXTA_SUCCESS, Some v, share v h, s')) \<and> same_view (object_hashk hash) equals s s'"
proof -
  obtain t' r where "object_findspot equals (entries s) (hash k) k False = Some (t', r)"
    "same_view (object_hashk hash) equals s (s\<lparr>entries := t'\<rparr>)"
    "case r of None \<Rightarrow> olookup s k = None
     | Some j \<Rightarrow> j < length (tbl t') \<and> olookup s k = Some (val (tbl t' ! j)) \<and>
         removed (object_hashk hash) equals s k (the_key (key (tbl t' ! j)), val (tbl t' ! j))
           (s\<lparr>entries := table_delete t' j\<rparr>)"
    using object_lookup_table [OF ok hk] by blast
  with hk show ?thesis
    by (cases r) (simp_all add: jxta_objecthashtable_get_def Let_def mem_simps unlocked_eq)
qed

lemma object_del_ok:
  assumes ok: "ostore_ok s" and hk: "hash k \<noteq> 0"
  shows "\<exists>s' p. jxta_objecthashtable_del hash equals h s k want =
      Some (case p of None \<Rightarrow> (JXTA_ITEM_NOTFOUND, None, h, s')
            | Some (k0, v) \<Rightarrow> (JXTA_SUCCESS, if want then Some v else None,
                release k0 (if want then h else release v h), s')) \<and>
    map_option snd p = olookup s k \<and>
    (case p of None \<Rightarrow> same_view (object_hashk hash) equals s s'
     | Some q \<Rightarrow> removed (object_hashk hash) equals s k q s')"
proof -
  obtain t' r where f: "object_findspot equals (entries s) (hash k) k False = Some (t', r)"
    "same_view (object_hashk hash) equals s (s\<lparr>entries := t'\<rparr>)"
    "case r of None \<Rightarrow> olookup s k = None
     | Some j \<Rightarrow> j < length (tbl t') \<and> olookup s k = Some (val (tbl t' ! j)) \<and>
         removed (object_hashk hash) equals s k (the_key (key (tbl t' ! j)), val (tbl t' ! j))
           (s\<lparr>entries := table_delete t' j\<rparr>)"
    using object_lookup_table [OF ok hk] by blast
  show ?thesis
  proof (cases r)
    case None
    with f hk show ?thesis
      by (intro exI [of _ "s\<lparr>entries := t'\<rparr>"] exI [of _ None])
         (simp add: jxta_objecthashtable_del_def Let_def unlocked_eq)
  next
    case (Some j)
    with f hk show ?thesis
      by (intro exI [of _ "s\<lparr>entries := table_delete t' j\<rparr>"]
          exI [of _ "Some (the_key (key (tbl t' ! j)), val (tbl t' ! j))"])
         (simp add: jxta_objecthashtable_del_def Let_def mem_simps table_delete_def reusable_entry_def unlocked_eq)
  qed
qed

lemma object_delcheck_ok:
  assumes ok: "ostore_ok s" and hk: "hash k \<noteq> 0"
  shows "\<exists>s' p. jxta_objecthashtable_delcheck hash equals h s k v =
      Some (case p of None \<Rightarrow> (JXTA_ITEM_NOTFOUND, h, s')
            | Some (k0, v0) \<Rightarrow> if v0 \<noteq> v then (JXTA_VIOLATION, h, s')
                else (JXTA_SUCCESS, release k0 (release v h), s')) \<and>
    map_option snd p = olookup s k \<and>
    (if olookup s k = Some v then removed (object_hashk hash) equals s k (the p) s'
     else same_view (object_hashk hash) equals s s')"
proof -
  obtain t' r where f: "object_findspot equals (entries s) (hash k) k False = Some (t', r)"
    "same_view (object_hashk hash) equals s (s\<lparr>entries := t'\<rparr>)"
    "case r of None \<Rightarrow> olookup s k = None
     | Some j \<Rightarrow> j < length (tbl t') \<and> olookup s k = Some (val (tbl t' ! j)) \<and>
         removed (object_hashk hash) equals s k (the_key (key (tbl t' ! j)), val (tbl t' ! j))
           (s\<lparr>entries := table_delete t' j\<rparr>)"
    using object_lookup_table [OF ok hk] by blast
  show ?thesis
  proof (cases r)
    case None
    with f hk show ?thesis
      by (intro exI [of _ "s\<lparr>entries := t'\<rparr>"] exI [of _ None])
         (simp add: jxta_objecthashtable_delcheck_def Let_def unlocked_eq)
  next
    case (Some j)
    with f hk show ?thesis
      by (intro exI [of _ "if val (tbl t' ! j) = v then s\<lparr>entries := table_delete t' j\<rparr> else s\<lparr>entries := t'\<rparr>"]
          exI [of _ "Some (the_key (key (tbl t' ! j)), val (tbl t' ! j))"])
         (auto simp: jxta_objecthashtable_delcheck_def Let_def mem_simps table_delete_def reusable_entry_def unlocked_eq)
  qed
qed

end

subsection \<open>The table as a map of objects\<close>

definition object_step_meets ::
  "(ptr \<Rightarrow> u32) \<Rightarrow> (ptr \<Rightarrow> ptr \<Rightarrow> bool) \<Rightarrow> ptr store_op \<Rightarrow> heap \<Rightarrow> jxta_objecthashtable \<Rightarrow> ptr list \<Rightarrow> ptr list
     \<Rightarrow> jxta_objecthashtable \<Rightarrow> bool" where
  "object_step_meets hash equals x h s outs ins s' \<longleftrightarrow>
     objecthashtable_step hash equals x h s =
       Some (fst (map_step equals x (store_lookup equals s)), exchange outs ins h, s') \<and>
     store_ok (object_hashk hash) equals s' \<and> mutex s' = mutex s \<and>
     store_lookup equals s' = snd (map_step equals x (store_lookup equals s)) \<and>
     store_room s - 1 \<le> store_room s' \<and> mset outs \<subseteq># orefs s \<and>
     orefs s' + handed (fst (map_step equals x (store_lookup equals s))) + mset outs = orefs s + mset ins"

lemma inserted_orefs:
  assumes "inserted H eqv s k v p s'"
  shows "store_ok H eqv s'" "mutex s' = mutex s" "store_room s - 1 \<le> store_room s'"
    "store_lookup eqv s' = (\<lambda>k'. if eqv k k' then Some v else store_lookup eqv s k')"
    "p = None \<Longrightarrow> orefs s' = orefs s + {#k, v#}"
    "p = Some (k0, old) \<Longrightarrow> {#k0, old#} \<subseteq># orefs s \<and> orefs s' + {#k0, old#} = orefs s + {#k, v#}"
proof -
  show "store_ok H eqv s'" "mutex s' = mutex s" "store_room s - 1 \<le> store_room s'"
    "store_lookup eqv s' = (\<lambda>k'. if eqv k k' then Some v else store_lookup eqv s k')"
    using assms by (simp_all add: inserted_def)
  have eq: "store_pairs s' + (case p of None \<Rightarrow> {#} | Some p \<Rightarrow> {#p#}) = add_mset (k, v) (store_pairs s)"
    using assms by (simp add: inserted_def)
  show "p = None \<Longrightarrow> orefs s' = orefs s + {#k, v#}"
    using eq by (simp add: orefs_def)
  assume p: "p = Some (k0, old)"
  then obtain R where R: "store_pairs s = add_mset (k0, old) R"
    using assms by (auto simp: inserted_def dest: multi_member_split)
  with eq p have "store_pairs s' = add_mset (k, v) R"
    by simp
  with R show "{#k0, old#} \<subseteq># orefs s \<and> orefs s' + {#k0, old#} = orefs s + {#k, v#}"
    by (simp add: orefs_def)
qed

lemma removed_orefs:
  assumes "removed H eqv s k (k0, v) s'"
  shows "store_ok H eqv s'" "mutex s' = mutex s" "store_room s - 1 \<le> store_room s'"
    "store_lookup eqv s' = (\<lambda>k'. if eqv k k' then None else store_lookup eqv s k')"
    "orefs s = orefs s' + {#k0, v#}"
  using assms by (auto simp: removed_def orefs_def intro: le_trans [OF diff_le_self])

lemma same_view_orefs:
  assumes "same_view H eqv s s'"
  shows "store_ok H eqv s'" "mutex s' = mutex s" "store_room s' = store_room s"
    "store_lookup eqv s' = store_lookup eqv s" "orefs s' = orefs s"
  using assms by (simp_all add: same_view_def orefs_def)

context object_keys
begin

lemma object_put_meets:
  assumes ok: "ostore_ok s" and room: "0 < store_room s" and hk: "hash k \<noteq> 0"
    and x: "x = Put k v \<or> x = Replace k v \<or> x = PutNew k v"
  shows "\<exists>outs ins s'. object_step_meets hash equals x h s outs ins s'"
proof -
  define want where "want = (x = Replace k v)"
  define repl where "repl = (x \<noteq> PutNew k v)"
  obtain s' p where s': "jxta_objecthashtable_comboput (\<lambda>_. True) hash equals h s k v want repl =
      (case p of
         None \<Rightarrow> Some (JXTA_SUCCESS, None, share v (share k h), s')
       | Some (k0, old) \<Rightarrow>
           if \<not> repl then Some (JXTA_ITEM_EXISTS, None, h, s')
           else if want then Some (JXTA_SUCCESS, Some old, share v (share k (release k0 h)), s')
           else Some (JXTA_SUCCESS, None, share v (share k (release old (release k0 h))), s'))"
    "map_option snd p = olookup s k"
    "if p \<noteq> None \<and> \<not> repl then same_view (object_hashk hash) equals s s'
     else inserted (object_hashk hash) equals s k v p s'"
    using object_comboput_ok [OF ok room _ hk, of "\<lambda>_. True" h v want repl] by blast
  note put_defs = object_step_meets_def jxta_objecthashtable_put_def jxta_objecthashtable_replace_def
    jxta_objecthashtable_putnoreplace_def want_def repl_def exchange_def handed_def
  show ?thesis
  proof (cases p)
    case None
    with s'(3) have "inserted (object_hashk hash) equals s k v None s'"
      by simp
    note ins = inserted_orefs(1-5) [OF this]
    have "olookup s k = None"
      using s'(2) None by simp
    then have "object_step_meets hash equals x h s [] [k, v] s'"
      using s'(1) x None ins by (auto simp: put_defs)
    then show ?thesis by blast
  next
    case (Some q)
    obtain k0 old where q: "q = (k0, old)"
      by (cases q)
    have look: "olookup s k = Some old"
      using s'(2) Some q by simp
    show ?thesis
    proof (cases repl)
      case False
      with s'(3) Some have "same_view (object_hashk hash) equals s s'"
        by simp
      note same = same_view_orefs [OF this]
      have "object_step_meets hash equals x h s [] [] s'"
        using s'(1) x Some q look same False by (auto simp: put_defs)
      then show ?thesis by blast
    next
      case True
      with s'(3) Some q have i: "inserted (object_hashk hash) equals s k v (Some (k0, old)) s'"
        by simp
      note ins = inserted_orefs(1-4) [OF i] inserted_orefs(6) [OF i refl]
      have sub: "{#k0#} \<subseteq># orefs s"
        using ins(5) by (meson insert_subset_eq_iff mset_subset_eq_add_left subset_mset.trans
            empty_le single_subset_iff mset_subset_eqD union_single_eq_member)
      have "object_step_meets hash equals x h s (if want then [k0] else [k0, old]) [k, v] s'"
        using s'(1) x Some q look ins True sub by (auto simp: put_defs)
      then show ?thesis by blast
    qed
  qed
qed

lemma object_lookup_meets:
  assumes ok: "ostore_ok s" and hk: "hash k \<noteq> 0"
    and x: "x = Get k \<or> x = Del k \<or> x = Take k \<or> x = DelCheck k v"
  shows "\<exists>outs ins s'. object_step_meets hash equals x h s outs ins s'"
  using x
proof (elim disjE)
  assume x: "x = Get k"
  obtain s' where s': "jxta_objecthashtable_get hash equals h s k True =
      Some (case olookup s k of None \<Rightarrow> (JXTA_ITEM_NOTFOUND, None, h, s')
            | Some v \<Rightarrow> (JXTA_SUCCESS, Some v, share v h, s'))" "same_view (object_hashk hash) equals s s'"
    using object_get_ok [OF ok hk] by blast
  have "object_step_meets hash equals x h s [] (case olookup s k of None \<Rightarrow> [] | Some v \<Rightarrow> [v]) s'"
    using x s'(1) same_view_orefs [OF s'(2)]
    by (auto simp: object_step_meets_def handed_def exchange_def split: option.split)
  then show ?thesis by blast
next
  assume x: "x = Del k"
  obtain s' p where s': "jxta_objecthashtable_del hash equals h s k False =
      Some (case p of None \<Rightarrow> (JXTA_ITEM_NOTFOUND, None, h, s')
            | Some (k0, v) \<Rightarrow> (JXTA_SUCCESS, None, release k0 (release v h), s'))"
    "map_option snd p = olookup s k"
    "case p of None \<Rightarrow> same_view (object_hashk hash) equals s s'
     | Some q \<Rightarrow> removed (object_hashk hash) equals s k q s'"
    using object_del_ok [OF ok hk, of h False, unfolded if_False] by blast
  have "object_step_meets hash equals x h s (case p of None \<Rightarrow> [] | Some (k0, v) \<Rightarrow> [v, k0]) [] s'"
    using x s' by (cases p) (auto simp: object_step_meets_def handed_def exchange_def add_mset_commute
        dest!: sym [of "Some _"] dest: removed_orefs same_view_orefs)
  then show ?thesis by blast
next
  assume x: "x = Take k"
  obtain s' p where s': "jxta_objecthashtable_del hash equals h s k True =
      Some (case p of None \<Rightarrow> (JXTA_ITEM_NOTFOUND, None, h, s')
            | Some (k0, v) \<Rightarrow> (JXTA_SUCCESS, Some v, release k0 h, s'))"
    "map_option snd p = olookup s k"
    "case p of None \<Rightarrow> same_view (object_hashk hash) equals s s'
     | Some q \<Rightarrow> removed (object_hashk hash) equals s k q s'"
    using object_del_ok [OF ok hk, of h True, unfolded if_True] by blast
  have "object_step_meets hash equals x h s (case p of None \<Rightarrow> [] | Some (k0, v) \<Rightarrow> [k0]) [] s'"
    using x s' by (cases p) (auto simp: object_step_meets_def handed_def exchange_def add_mset_commute
        dest!: sym [of "Some _"] dest: removed_orefs same_view_orefs)
  then show ?thesis by blast
next
  assume x: "x = DelCheck k v"
  obtain s' p where s': "jxta_objecthashtable_delcheck hash equals h s k v =
      Some (case p of None \<Rightarrow> (JXTA_ITEM_NOTFOUND, h, s')
            | Some (k0, v0) \<Rightarrow> if v0 \<noteq> v then (JXTA_VIOLATION, h, s')
                else (JXTA_SUCCESS, release k0 (release v h), s'))"
    "map_option snd p = olookup s k"
    "if olookup s k = Some v then removed (object_hashk hash) equals s k (the p) s'
     else same_view (object_hashk hash) equals s s'"
    using object_delcheck_ok [OF ok hk, of h v] by blast
  have "object_step_meets hash equals x h s
      (case p of None \<Rightarrow> [] | Some (k0, v0) \<Rightarrow> if v0 = v then [v, k0] else []) [] s'"
    using x s' by (cases p) (auto simp: object_step_meets_def handed_def exchange_def add_mset_commute
        dest!: sym [of "Some _"] dest: removed_orefs same_view_orefs split: if_splits)
  then show ?thesis by blast
qed

lemma object_step_meets_ok:
  assumes "ostore_ok s" "0 < store_room s" "hash (key_of_op x) \<noteq> 0"
  shows "\<exists>outs ins s'. object_step_meets hash equals x h s outs ins s'"
proof (cases x)
  case (Put k v)
  with object_put_meets [OF assms(1,2), of k x v h] assms(3) show ?thesis by simp
next
  case (Replace k v)
  with object_put_meets [OF assms(1,2), of k x v h] assms(3) show ?thesis by simp
next
  case (PutNew k v)
  with object_put_meets [OF assms(1,2), of k x v h] assms(3) show ?thesis by simp
qed (use object_lookup_meets [OF assms(1), of _ x _ h] assms(3) in auto)

end

sublocale object_keys \<subseteq> store: object_map equals "store_ok (object_hashk hash) equals" store_room
  "store_lookup equals" orefs "objecthashtable_step hash equals" "\<lambda>x. hash (key_of_op x) \<noteq> 0"
proof
  fix s :: jxta_objecthashtable and x h
  assume "store_ok (object_hashk hash) equals s" "0 < store_room s" "hash (key_of_op x) \<noteq> 0"
  from object_step_meets_ok [OF this, of h]
  show "\<exists>outs ins s'. objecthashtable_step hash equals x h s =
       Some (fst (map_step equals x (store_lookup equals s)), exchange outs ins h, s') \<and>
     store_ok (object_hashk hash) equals s' \<and>
     store_lookup equals s' = snd (map_step equals x (store_lookup equals s)) \<and> store_room s - 1 \<le> store_room s' \<and>
     mset outs \<subseteq># orefs s \<and>
     orefs s' + handed (fst (map_step equals x (store_lookup equals s))) + mset outs = orefs s + mset ins"
    unfolding object_step_meets_def by blast
qed

context object_keys
begin

lemmas run_as_map = store.run_refines_map

end

text \<open>The references dropped by freeing the entries, in order.\<close>

definition entry_refs :: "ptr entry list \<Rightarrow> ptr list" where
  "entry_refs es = concat (map (\<lambda>e. [the_key (key e), val e]) (filter in_use es))"

lemma free_entries_eq:
  "fold (\<lambda>e h. if hashk e = 0 then h else release (val e) (release (the_key (key e)) h)) es h =
   fold release (entry_refs es) h"
  by (induction es arbitrary: h) (simp_all add: entry_refs_def in_use_def)

lemma mset_entry_refs: "mset (entry_refs es) = mset (keys_of es) + mset (values_of es)"
  by (induction es) (simp_all add: entry_refs_def keys_of_def values_of_def in_use_def)

subsection \<open>Properties\<close>

text \<open>
  C5: With \<open>equals\<close> an equivalence that \<open>hash\<close> respects and keys whose hash is not 0, any
  sequence of operations on a well-formed table (with room below the 2^28 limit) stays inside
  the table, never runs out of slots, and returns exactly the statuses and values of the same
  operations on a map whose keys are compared with \<open>equals\<close>.
\<close>

theorem objecthashtable_refines_map:
  assumes "object_keys hash equals" "store_ok (object_hashk hash) equals s" "length xs \<le> store_room s"
    and "\<forall>x \<in> set xs. hash (key_of_op x) \<noteq> 0"
  shows "\<exists>h' s'. store_run (objecthashtable_step hash equals) xs h s =
      Some (fst (map_run equals xs (store_lookup equals s)), h', s') \<and>
    store_ok (object_hashk hash) equals s' \<and>
    store_lookup equals s' = snd (map_run equals xs (store_lookup equals s))"
  using object_keys.run_as_map [OF assms, of h] by blast

definition small_object_table :: jxta_objecthashtable where
  "small_object_table = \<lparr>entries = fresh_table 2, mutex = Some 0\<rparr>"

lemma small_object_table_ok:
  "store_ok H equals small_object_table" "store_lookup equals small_object_table = (\<lambda>_. None)"
  "orefs small_object_table = {#}" "store_room small_object_table = 2 ^ 28"
  by (simp_all add: fresh_table_ok [of 2 1] small_object_table_def orefs_def)

text \<open>Keys compared by their parity class modulo 10.\<close>

lemma example_keys: "object_keys (\<lambda>k. of_nat (k mod 10) + 1) (\<lambda>a b. a mod 10 = b mod 10)"
  by unfold_locales auto

lemma example_hash_nonzero: "of_nat (k mod 10) + 1 \<noteq> (0 :: u32)"
proof -
  have "unat (of_nat (k mod 10) + 1 :: u32) = k mod 10 + 1"
    by (simp add: unat_word_ariths unat_of_nat)
  then show ?thesis
    by auto
qed

theorem objecthashtable_refines_map_witness:
  "\<exists>h' s'. store_run (objecthashtable_step (\<lambda>k. of_nat (k mod 10) + 1) (\<lambda>a b. a mod 10 = b mod 10))
      [Put 11 5, Put 12 6, PutNew 21 7, Get 31, Del 2, Get 12] blank_heap small_object_table =
      Some ([(JXTA_SUCCESS, None), (JXTA_SUCCESS, None), (JXTA_ITEM_EXISTS, None), (JXTA_SUCCESS, Some 5),
             (JXTA_SUCCESS, None), (JXTA_ITEM_NOTFOUND, None)], h', s')"
proof -
  let ?xs = "[Put 11 5, Put 12 6, PutNew 21 7, Get 31, Del 2, Get 12] :: ptr store_op list"
  have "length ?xs \<le> store_room small_object_table"
    by (simp add: small_object_table_ok)
  moreover have "\<forall>x \<in> set ?xs. of_nat (key_of_op x mod 10) + 1 \<noteq> (0 :: u32)"
    by (simp add: example_hash_nonzero)
  ultimately show ?thesis
    using objecthashtable_refines_map [OF example_keys small_object_table_ok(1), of ?xs blank_heap]
    by (auto simp: small_object_table_ok(2) simp del: store_run.simps)
qed

text \<open>
  The table holds exactly one reference to the key and one to the value of each entry:
  for an object that the client owns a reference of, the reference count minus those and
  minus the references handed out is unchanged by every sequence of operations, and the
  object stays initialised.
\<close>

theorem objecthashtable_reference_balance:
  assumes "object_keys hash equals" "store_ok (object_hashk hash) equals s" "length xs \<le> store_room s"
    and "\<forall>x \<in> set xs. hash (key_of_op x) \<noteq> 0"
    and "owned h (orefs s) q" "store_run (objecthashtable_step hash equals) xs h s = Some (rs, h', s')"
  shows "refCount (objs h' q) - int (count (orefs s' + handed_all rs) q) =
      refCount (objs h q) - int (count (orefs s) q) \<and>
    jxta_object_check_initialized h' q"
proof -
  from object_keys.run_as_map [OF assms(1-4), of h] assms(6)
  have "\<forall>M q. owned h (orefs s + M) q \<longrightarrow>
        owned h' (orefs s' + handed_all rs + M) q \<and>
        excess h' (orefs s' + handed_all rs + M) q = excess h (orefs s + M) q"
    by auto
  from this [THEN spec, of "{#}", THEN spec, of q] assms(5) show ?thesis
    by (simp add: owned_def excess_def)
qed

theorem objecthashtable_reference_balance_witness:
  "\<exists>rs h' s'. store_run (objecthashtable_step (\<lambda>k. of_nat (k mod 10) + 1) (\<lambda>a b. a mod 10 = b mod 10))
      [Put 5 5, Put 15 5, Take 25] (jxta_object_init blank_heap 5 0 True) small_object_table = Some (rs, h', s') \<and>
     refCount (objs h' 5) - int (count (orefs s' + handed_all rs) 5) = 1"
proof -
  let ?xs = "[Put 5 5, Put 15 5, Take 25] :: ptr store_op list" and ?h = "jxta_object_init blank_heap 5 0 True"
  let ?hash = "\<lambda>k. of_nat (k mod 10) + 1 :: u32" and ?eq = "\<lambda>a b :: ptr. a mod 10 = b mod 10"
  have s: "length ?xs \<le> store_room small_object_table" "\<forall>x \<in> set ?xs. ?hash (key_of_op x) \<noteq> 0"
    by (simp_all add: small_object_table_ok example_hash_nonzero)
  obtain rs h' s' where run: "store_run (objecthashtable_step ?hash ?eq) ?xs ?h small_object_table = Some (rs, h', s')"
    using object_keys.run_as_map [OF example_keys small_object_table_ok(1) s, of ?h] by blast
  have "owned ?h (orefs small_object_table) 5" "refCount (objs ?h 5) - int (count (orefs small_object_table) 5) = 1"
    using init_live [of 5 0 blank_heap True] by (simp_all add: small_object_table_ok owned_def excess_def live_def)
  with objecthashtable_reference_balance [OF example_keys small_object_table_ok(1) s _ run] run show ?thesis
    by auto
qed

text \<open>
  An operation returns with the mutex held as often as before, except when the hash of
  its key is 0: then it returns \<open>JXTA_INVALID_ARGUMENT\<close>, changes nothing else, and leaves
  the mutex locked once more.
\<close>

theorem objecthashtable_mutex_discipline:
  assumes keys: "object_keys hash equals" and ok: "store_ok (object_hashk hash) equals s" and room: "0 < store_room s"
  shows "\<exists>r h' s'. objecthashtable_step hash equals x h s = Some (r, h', s') \<and>
    (hash (key_of_op x) \<noteq> 0 \<longrightarrow> mutex s' = mutex s) \<and>
    (hash (key_of_op x) = 0 \<longrightarrow> r = (JXTA_INVALID_ARGUMENT, None) \<and> h' = h \<and>
       s' = s\<lparr>mutex := map_option Suc (mutex s)\<rparr>)"
proof (cases "hash (key_of_op x) = 0")
  case True
  then show ?thesis
    by (cases x) (simp_all add: jxta_objecthashtable_put_def jxta_objecthashtable_replace_def
        jxta_objecthashtable_putnoreplace_def jxta_objecthashtable_comboput_def jxta_objecthashtable_get_def
        jxta_objecthashtable_del_def jxta_objecthashtable_delcheck_def Let_def mutex_lock_def)
next
  case False
  with object_keys.object_step_meets_ok [OF keys ok room, of x h] show ?thesis
    by (auto simp: object_step_meets_def)
qed

theorem objecthashtable_mutex_discipline_witness:
  "\<exists>s'. objecthashtable_step (\<lambda>_. 0) (=) (Get 3) blank_heap small_object_table =
     Some ((JXTA_INVALID_ARGUMENT, None), blank_heap, s') \<and> mutex s' = Some 1"
proof -
  have "object_keys (\<lambda>_. 0) (=)"
    by unfold_locales auto
  from objecthashtable_mutex_discipline [OF this small_object_table_ok(1), of "Get 3" blank_heap]
  show ?thesis
    by (auto simp: small_object_table_ok) (simp add: small_object_table_def)
qed

text \<open>
  Enumerating a table gives all its keys, and all its values, in new vectors with one
  more reference each; freeing it drops exactly the references it holds.
\<close>

theorem objecthashtable_enumerates:
  assumes ok: "store_ok (object_hashk hash) equals s" and vmem: "\<forall>n \<le> 2 ^ 30. vmem n"
  shows "\<exists>keys vals. jxta_objecthashtable_keys_get vmem h s = Some (fold share (vlist keys) h, keys, s) \<and>
      jxta_objecthashtable_values_get vmem h s = Some (fold share (vlist vals) h, vals, s) \<and>
      vector_ok keys \<and> vector_ok vals \<and> mset (vlist keys) + mset (vlist vals) = orefs s \<and>
      (\<exists>h'. Jxta_objecthashtable_free h s = Some h' \<and>
        (\<forall>q. is_mutable h q \<longrightarrow> refCount (objs h' q) = refCount (objs h q) - int (count (orefs s) q)))"
proof -
  let ?es = "tbl (entries s)"
  have t: "table_ok (object_hashk hash) equals (entries s)"
    using ok by (simp add: store_ok_def)
  have visit: "object_visited (entries s) = Some ?es"
    using store_visited(2) [OF ok] by (simp add: object_visited_def)
  have len: "length (keys_of ?es) = usage (entries s)" "length (values_of ?es) = usage (entries s)"
    using t length_values_of [OF t] by (simp_all add: keys_of_def table_ok_def)
  obtain keys where keys: "add_each (jxta_vector_add_object_last vmem) (keys_of ?es) h
      (jxta_vector_new vmem (of_nat (usage (entries s)))) = Some (fold share (keys_of ?es) h, keys)"
      "vector_ok keys" "vlist keys = keys_of ?es"
    using collect_ok [OF ok vmem len(1), of h] by blast
  obtain vals where vals: "add_each (jxta_vector_add_object_last vmem) (values_of ?es) h
      (jxta_vector_new vmem (of_nat (usage (entries s)))) = Some (fold share (values_of ?es) h, vals)"
      "vector_ok vals" "vlist vals = values_of ?es"
    using collect_ok [OF ok vmem len(2), of h] by blast
  have "jxta_objecthashtable_keys_get vmem h s = Some (fold share (vlist keys) h, keys, s)"
    "jxta_objecthashtable_values_get vmem h s = Some (fold share (vlist vals) h, vals, s)"
    using keys vals visit
    by (simp_all add: jxta_objecthashtable_keys_get_def jxta_objecthashtable_values_get_def Let_def unlocked_eq)
  moreover have refs: "mset (keys_of ?es) + mset (values_of ?es) = orefs s"
    using mset_keys_values [of s] by (simp add: orefs_def)
  moreover have "Jxta_objecthashtable_free h s = Some (fold release (entry_refs ?es) h)"
    using visit by (simp add: Jxta_objecthashtable_free_def free_entries_eq)
  moreover have "count_list (entry_refs ?es) q = count (orefs s) q" for q
    using refs by (simp add: count_list_mset mset_entry_refs)
  then have "\<forall>q. is_mutable h q \<longrightarrow>
      refCount (objs (fold release (entry_refs ?es) h) q) = refCount (objs h q) - int (count (orefs s) q)"
    by (simp add: release_all_refCount)
  ultimately show ?thesis
    using keys vals by auto
qed

theorem objecthashtable_enumerates_witness:
  "\<exists>keys vals. jxta_objecthashtable_keys_get (\<lambda>_. True) blank_heap small_object_table =
      Some (fold share (vlist keys) blank_heap, keys, small_object_table) \<and>
    mset (vlist keys) + mset (vlist vals) = {#}"
  using objecthashtable_enumerates [where hash = "\<lambda>_. 1" and equals = "(=)" and s = small_object_table
      and vmem = "\<lambda>_. True" and h = blank_heap]
  by (auto simp: small_object_table_ok)

end
