(* ===== verification/ByteVector.thy ===== *)
theory ByteVector
  imports ObjectHashTable
begin

section \<open>Byte vectors (src/src/jxta_bytevector.c)\<close>

text \<open>
  A byte vector is a block of \<open>capacity\<close> bytes of which \<open>size\<close> are in use.  Sizes are
  \<open>size_t\<close> (64 bits), positions are \<open>unsigned int\<close> (32 bits).  The block is \<open>None\<close> for a null
  pointer.  An operation returns \<open>None\<close> where the code accesses a byte outside of a block.
  Blocks given as arguments are lists of bytes; source and target vectors are different ones.
\<close>

text \<open>
  \<open>malloc\<close> and \<open>realloc\<close>: which sizes can be had, and the indeterminate content of a fresh
  block at each position.
\<close>

record allocator =
  can_alloc :: "nat \<Rightarrow> bool"
  fresh_byte :: "nat \<Rightarrow> u8"

record jxta_bytevector =
  content :: "u8 list option"
  bsize :: u64
  bcapacity :: u64
  bmutex :: mutex

definition BYTES_DEFAULT_SIZE :: u64 where
  "BYTES_DEFAULT_SIZE = 128"

definition BYTES_DEFAULT_INCREASE :: u64 where
  "BYTES_DEFAULT_INCREASE = 64"

subsection \<open>Creation\<close>

definition jxta_bytevector_new_1 :: "allocator \<Rightarrow> bool \<Rightarrow> u64 \<Rightarrow> jxta_bytevector option" where
  "jxta_bytevector_new_1 A self_ok initialSize =
     (if \<not> self_ok then None
      else Some \<lparr>content = (if can_alloc A (unat (initialSize + 1))
                            then Some (replicate (unat (initialSize + 1)) 0) else None),
                 bsize = 0, bcapacity = initialSize, bmutex = None\<rparr>)"

definition jxta_bytevector_new_0 :: "allocator \<Rightarrow> bool \<Rightarrow> jxta_bytevector option" where
  "jxta_bytevector_new_0 A self_ok = jxta_bytevector_new_1 A self_ok BYTES_DEFAULT_SIZE"

text \<open>The reallocation of a block: its content up to the new size, then indeterminate bytes.\<close>

definition realloc :: "allocator \<Rightarrow> u8 list \<Rightarrow> nat \<Rightarrow> u8 list option" where
  "realloc A bs n =
     (if can_alloc A n then Some (take n bs @ map (fresh_byte A) [length bs..<n]) else None)"

definition jxta_bytevector_new_2 ::
  "allocator \<Rightarrow> bool \<Rightarrow> u8 list option \<Rightarrow> u64 \<Rightarrow> u64 \<Rightarrow> jxta_bytevector option" where
  "jxta_bytevector_new_2 A self_ok initialPtr initialSize initialCapacity =
     do { p \<leftarrow> initialPtr;
          if initialCapacity = 0 then None
          else if initialCapacity < initialSize then None
          else if \<not> self_ok then None
          else do {
            q \<leftarrow> (if initialCapacity > initialSize then realloc A p (unat initialCapacity) else Some p);
            Some \<lparr>content = Some q, bsize = initialSize, bcapacity = initialCapacity, bmutex = None\<rparr> } }"

definition jxta_bytevector_new_3 :: "bool \<Rightarrow> u8 list option \<Rightarrow> u64 \<Rightarrow> jxta_bytevector option" where
  "jxta_bytevector_new_3 self_ok p len =
     (if \<not> self_ok then None
      else Some \<lparr>content = p, bsize = len, bcapacity = len, bmutex = None\<rparr>)"

definition jxta_bytevector_set_synchronized :: "bool \<Rightarrow> jxta_bytevector \<Rightarrow> status \<times> jxta_bytevector" where
  "jxta_bytevector_set_synchronized apr_ok v =
     (if bmutex v \<noteq> None then (JXTA_SUCCESS, v)
      else if \<not> apr_ok then (JXTA_NOMEM, v)
      else (JXTA_SUCCESS, v\<lparr>bmutex := Some 0\<rparr>))"

definition block :: "jxta_bytevector \<Rightarrow> u8 list" where
  "block v = (case content v of None \<Rightarrow> [] | Some bs \<Rightarrow> bs)"

definition lock_bytes :: "jxta_bytevector \<Rightarrow> jxta_bytevector" where
  "lock_bytes v = v\<lparr>bmutex := mutex_lock (bmutex v)\<rparr>"

definition unlock_bytes :: "jxta_bytevector \<Rightarrow> jxta_bytevector" where
  "unlock_bytes v = v\<lparr>bmutex := mutex_unlock (bmutex v)\<rparr>"

subsection \<open>Capacity\<close>

definition bytes_ensure_capacity :: "allocator \<Rightarrow> jxta_bytevector \<Rightarrow> u64 \<Rightarrow> (status \<times> jxta_bytevector) option" where
  "bytes_ensure_capacity A v requiredSize =
     (if requiredSize < bcapacity v then Some (JXTA_SUCCESS, v)
      else
        (let required = (if requiredSize > bcapacity v + BYTES_DEFAULT_INCREASE then requiredSize
                         else bcapacity v + BYTES_DEFAULT_INCREASE);
             new = (case content v of
                      None \<Rightarrow> if can_alloc A (unat required) then Some (map (fresh_byte A) [0..<unat required])
                              else None
                    | Some bs \<Rightarrow> realloc A bs (unat required))
         in case new of
              None \<Rightarrow> Some (JXTA_NOMEM, v)
            | Some bs \<Rightarrow>
                do { bs' \<leftarrow> memset bs (unat (bcapacity v)) 0 (unat (required - bcapacity v));
                     Some (JXTA_SUCCESS, v\<lparr>content := Some bs', bcapacity := required\<rparr>) }))"

definition jxta_bytevector_clear :: "allocator \<Rightarrow> jxta_bytevector \<Rightarrow> u64 \<Rightarrow> (status \<times> jxta_bytevector) option" where
  "jxta_bytevector_clear A v initialSize =
     (let n = (if initialSize = 0 then BYTES_DEFAULT_SIZE else initialSize);
          v1 = (lock_bytes v)\<lparr>content := None, bcapacity := 0, bsize := 0\<rparr>
      in do { (res, v2) \<leftarrow> bytes_ensure_capacity A v1 n; Some (res, unlock_bytes v2) })"

definition jxta_bytevector_content_ptr :: "jxta_bytevector \<Rightarrow> u8 list option" where
  "jxta_bytevector_content_ptr v = content v"

subsection \<open>Insertion\<close>

text \<open>\<open>bytes\<close> is \<open>None\<close> for a null pointer: the new bytes are then zeros.\<close>

definition jxta_bytevector_add_bytes_at ::
  "allocator \<Rightarrow> jxta_bytevector \<Rightarrow> u8 list option \<Rightarrow> u32 \<Rightarrow> u64 \<Rightarrow> (status \<times> jxta_bytevector) option" where
  "jxta_bytevector_add_bytes_at A v bytes at_index len =
     (let v0 = lock_bytes v; at = ucast at_index :: u64 in
      if at > bsize v0 then Some (JXTA_INVALID_ARGUMENT, unlock_bytes v0)
      else do {
        (res, v1) \<leftarrow> bytes_ensure_capacity A v0 (bsize v0 + len);
        if res \<noteq> JXTA_SUCCESS then Some (res, unlock_bytes v1)
        else do {
          bs1 \<leftarrow> (if bsize v1 \<ge> len
                  then memmove (block v1) (unat (at + len)) (unat at) (unat (bsize v1 - at))
                  else Some (block v1));
          bs2 \<leftarrow> (case bytes of
                    Some b \<Rightarrow> do { src \<leftarrow> mem_load b 0 (unat len); mem_store bs1 (unat at) src }
                  | None \<Rightarrow> memset bs1 (unat at) 0 (unat len));
          Some (JXTA_SUCCESS, unlock_bytes (v1\<lparr>content := Some bs2, bsize := bsize v1 + len\<rparr>)) } })"

definition jxta_bytevector_add_byte_at ::
  "allocator \<Rightarrow> jxta_bytevector \<Rightarrow> u8 \<Rightarrow> u32 \<Rightarrow> (status \<times> jxta_bytevector) option" where
  "jxta_bytevector_add_byte_at A v byte at_index = jxta_bytevector_add_bytes_at A v (Some [byte]) at_index 1"

definition jxta_bytevector_add_byte_first ::
  "allocator \<Rightarrow> jxta_bytevector \<Rightarrow> u8 \<Rightarrow> (status \<times> jxta_bytevector) option" where
  "jxta_bytevector_add_byte_first A v byte = jxta_bytevector_add_byte_at A v byte 0"

text \<open>The second lock where an unlock is meant, and the truncation of the size, are the code's.\<close>

definition jxta_bytevector_add_byte_last ::
  "allocator \<Rightarrow> jxta_bytevector \<Rightarrow> u8 \<Rightarrow> (status \<times> jxta_bytevector) option" where
  "jxta_bytevector_add_byte_last A v byte =
     do { (err, v1) \<leftarrow> jxta_bytevector_add_byte_at A (lock_bytes v) byte (ucast (bsize v));
          Some (err, lock_bytes v1) }"

definition jxta_bytevector_add_bytevector_at ::
  "allocator \<Rightarrow> jxta_bytevector \<Rightarrow> jxta_bytevector \<Rightarrow> u32 \<Rightarrow> (status \<times> jxta_bytevector) option" where
  "jxta_bytevector_add_bytevector_at A v bytes dstindex =
     do { (err, v1) \<leftarrow> jxta_bytevector_add_bytes_at A (lock_bytes v) (content bytes) dstindex (bsize bytes);
          Some (err, unlock_bytes v1) }"

definition jxta_bytevector_add_partial_bytevector_at ::
  "allocator \<Rightarrow> jxta_bytevector \<Rightarrow> jxta_bytevector \<Rightarrow> u32 \<Rightarrow> u64 \<Rightarrow> u32 \<Rightarrow> (status \<times> jxta_bytevector) option" where
  "jxta_bytevector_add_partial_bytevector_at A v bytes srcIndex len dstindex =
     (let src = ucast srcIndex :: u64 in
      if src \<ge> bsize bytes then Some (JXTA_INVALID_ARGUMENT, unlock_bytes (lock_bytes v))
      else
        (let n = (if len \<le> bsize bytes - src then len else bsize bytes - src) in
         do { (err, v1) \<leftarrow> jxta_bytevector_add_bytes_at A (lock_bytes v) (Some (drop (unat src) (block bytes))) dstindex n;
              Some (err, unlock_bytes v1) }))"

subsection \<open>Removal\<close>

definition jxta_bytevector_remove_bytes_at ::
  "jxta_bytevector \<Rightarrow> u32 \<Rightarrow> u64 \<Rightarrow> (status \<times> jxta_bytevector) option" where
  "jxta_bytevector_remove_bytes_at v at_index len =
     (let v0 = lock_bytes v; at = ucast at_index :: u64 in
      if at \<ge> bsize v0 then Some (JXTA_INVALID_ARGUMENT, unlock_bytes v0)
      else
        (let n = (if bsize v0 - at > len then len else bsize v0 - at) in
         do { bs \<leftarrow> memmove (block v0) (unat at) (unat (at + n)) (unat (bsize v0 - at - n));
              Some (JXTA_SUCCESS, unlock_bytes (v0\<lparr>content := Some bs, bsize := bsize v0 - n\<rparr>)) }))"

definition jxta_bytevector_remove_byte_at :: "jxta_bytevector \<Rightarrow> u32 \<Rightarrow> (status \<times> jxta_bytevector) option" where
  "jxta_bytevector_remove_byte_at v at_index = jxta_bytevector_remove_bytes_at v at_index 1"

subsection \<open>Streams\<close>

text \<open>
  A \<open>ReadFunc\<close> is given the number of bytes wanted and returns its status and the bytes it
  has written to the buffer; a \<open>WriteFunc\<close> is given the bytes and returns a status.
\<close>

type_synonym read_func = "u64 \<Rightarrow> status \<times> u8 list"
type_synonym write_func = "u8 list \<Rightarrow> status"

definition jxta_bytevector_add_from_stream_at ::
  "allocator \<Rightarrow> jxta_bytevector \<Rightarrow> read_func option \<Rightarrow> u64 \<Rightarrow> u32 \<Rightarrow> (status \<times> jxta_bytevector) option" where
  "jxta_bytevector_add_from_stream_at A v func len at_index =
     (case func of
        None \<Rightarrow> Some (JXTA_INVALID_ARGUMENT, v)
      | Some f \<Rightarrow>
          do { (err, v1) \<leftarrow> jxta_bytevector_add_bytes_at A (lock_bytes v) None at_index len;
               if err \<noteq> JXTA_SUCCESS then Some (err, unlock_bytes v1)
               else
                 (let (err2, got) = f len in
                  do { bs \<leftarrow> mem_store (block v1) (unat at_index) got;
                       let v2 = v1\<lparr>content := Some bs\<rparr>;
                       if err2 \<noteq> JXTA_SUCCESS
                       then do { (_, v3) \<leftarrow> jxta_bytevector_remove_bytes_at v2 at_index len;
                                 Some (err2, unlock_bytes v3) }
                       else Some (err2, unlock_bytes v2) }) })"

definition jxta_bytevector_set_from_stream_at ::
  "jxta_bytevector \<Rightarrow> read_func option \<Rightarrow> u64 \<Rightarrow> u32 \<Rightarrow> (status \<times> jxta_bytevector) option" where
  "jxta_bytevector_set_from_stream_at v func len at_index =
     (case func of
        None \<Rightarrow> Some (JXTA_INVALID_ARGUMENT, v)
      | Some f \<Rightarrow>
          if len > bcapacity v - ucast at_index then Some (JXTA_INVALID_ARGUMENT, v)
          else
            (let (err, got) = f len in
             do { bs \<leftarrow> mem_store (block v) (unat at_index) got;
                  let v1 = (lock_bytes v)\<lparr>content := Some bs, bsize := bsize v + len\<rparr>;
                  if err \<noteq> JXTA_SUCCESS
                  then do { (_, v2) \<leftarrow> jxta_bytevector_remove_bytes_at v1 at_index len;
                            Some (err, unlock_bytes v2) }
                  else Some (err, unlock_bytes v1) }))"

definition jxta_bytevector_write ::
  "jxta_bytevector \<Rightarrow> write_func option \<Rightarrow> u32 \<Rightarrow> u64 \<Rightarrow> status option" where
  "jxta_bytevector_write v func at_index len =
     (case func of
        None \<Rightarrow> Some JXTA_INVALID_ARGUMENT
      | Some f \<Rightarrow>
          (let at = ucast at_index :: u64 in
           if at \<ge> bsize v then Some JXTA_INVALID_ARGUMENT
           else
             (let n = (if bsize v - at > len then len else bsize v - at) in
              do { bs \<leftarrow> mem_load (block v) (unat at) (unat n); Some (f bs) })))"

subsection \<open>Reading\<close>

text \<open>\<open>room\<close> is the length of the caller's buffer, or \<open>None\<close> if the pointer is null.\<close>

definition jxta_bytevector_get_bytes_at_1 ::
  "jxta_bytevector \<Rightarrow> nat option \<Rightarrow> u32 \<Rightarrow> u64 \<Rightarrow> (status \<times> u8 list \<times> u64) option" where
  "jxta_bytevector_get_bytes_at_1 v room at_index len =
     (case room of
        None \<Rightarrow> Some (JXTA_INVALID_ARGUMENT, [], len)
      | Some r \<Rightarrow>
          (let at = ucast at_index :: u64 in
           if at \<ge> bsize v then Some (JXTA_INVALID_ARGUMENT, [], len)
           else
             (let n = (if bsize v - at > len then len else bsize v - at) in
              if r < unat n then None
              else do { bs \<leftarrow> mem_load (block v) (unat at) (unat n); Some (JXTA_SUCCESS, bs, n) })))"

definition jxta_bytevector_get_bytes_at ::
  "jxta_bytevector \<Rightarrow> nat option \<Rightarrow> u32 \<Rightarrow> u64 \<Rightarrow> (status \<times> u8 list) option" where
  "jxta_bytevector_get_bytes_at v room at_index len =
     map_option (\<lambda>(st, bs, _). (st, bs)) (jxta_bytevector_get_bytes_at_1 v room at_index len)"

definition jxta_bytevector_get_byte_at :: "jxta_bytevector \<Rightarrow> nat option \<Rightarrow> u32 \<Rightarrow> (status \<times> u8 list) option" where
  "jxta_bytevector_get_byte_at v room at_index = jxta_bytevector_get_bytes_at v room at_index 1"

definition jxta_bytevector_get_bytevector_at ::
  "allocator \<Rightarrow> bool \<Rightarrow> jxta_bytevector \<Rightarrow> u32 \<Rightarrow> u64 \<Rightarrow> (status \<times> jxta_bytevector option) option" where
  "jxta_bytevector_get_bytevector_at A self_ok source at_index len =
     (let at = ucast at_index :: u64 in
      if at \<ge> bsize source then Some (JXTA_INVALID_ARGUMENT, None)
      else
        (let n = (if bsize source - at > len then len else bsize source - at) in
         case jxta_bytevector_new_1 A self_ok n of
           None \<Rightarrow> Some (JXTA_NOMEM, None)
         | Some d \<Rightarrow>
             do { (err, d1) \<leftarrow> jxta_bytevector_add_bytes_at A d (Some (drop (unat at) (block source))) 0 n;
                  Some (err, Some d1) }))"

definition jxta_bytevector_size :: "jxta_bytevector \<Rightarrow> u64" where
  "jxta_bytevector_size v = bsize v"

text \<open>\<open>same\<close> is whether the two pointers are equal.\<close>

definition jxta_bytevector_equals :: "bool \<Rightarrow> jxta_bytevector \<Rightarrow> jxta_bytevector \<Rightarrow> bool option" where
  "jxta_bytevector_equals same v1 v2 =
     (if same then Some True
      else if bsize v1 \<noteq> bsize v2 then Some False
      else do { a \<leftarrow> mem_load (block v1) 0 (unat (bsize v1));
                b \<leftarrow> mem_load (block v2) 0 (unat (bsize v1));
                Some (a = b) })"

definition jxta_bytevector_hashcode :: "jxta_bytevector \<Rightarrow> u32 option" where
  "jxta_bytevector_hashcode v =
     do { bs \<leftarrow> mem_load (block v) 0 (unat (bsize v)); Some (jxta_objecthashtable_simplehash bs) }"


subsection \<open>The bytes in use\<close>

definition bview :: "jxta_bytevector \<Rightarrow> u8 list" where
  "bview v = take (unat (bsize v)) (block v)"

definition bytes_ok :: "jxta_bytevector \<Rightarrow> bool" where
  "bytes_ok v \<longleftrightarrow> content v \<noteq> None \<and> unat (bsize v) \<le> unat (bcapacity v) \<and> unat (bcapacity v) \<le> length (block v)"

text \<open>The bytes of the block beyond those in use are zeros.\<close>

definition clean :: "jxta_bytevector \<Rightarrow> bool" where
  "clean v \<longleftrightarrow> (\<forall>i. unat (bsize v) \<le> i \<and> i < length (block v) \<longrightarrow> block v ! i = 0)"

text \<open>The allocator can provide the block for \<open>n\<close> more bytes, and no size wraps around.\<close>

definition can_extend :: "allocator \<Rightarrow> jxta_bytevector \<Rightarrow> nat \<Rightarrow> bool" where
  "can_extend A v n \<longleftrightarrow> unat (bcapacity v) + 64 < 2 ^ 64 \<and> unat (bsize v) + n < 2 ^ 64 \<and>
     can_alloc A (max (unat (bsize v) + n) (unat (bcapacity v) + 64))"

lemma lock_bytes_simps [simp]:
  "bsize (lock_bytes v) = bsize v" "bcapacity (lock_bytes v) = bcapacity v" "content (lock_bytes v) = content v"
  "block (lock_bytes v) = block v" "bmutex (lock_bytes v) = mutex_lock (bmutex v)"
  "bsize (unlock_bytes v) = bsize v" "bcapacity (unlock_bytes v) = bcapacity v"
  "content (unlock_bytes v) = content v" "block (unlock_bytes v) = block v"
  "bmutex (unlock_bytes v) = mutex_unlock (bmutex v)"
  by (simp_all add: lock_bytes_def unlock_bytes_def block_def)

lemma lock_bytes_view [simp]: "bview (lock_bytes v) = bview v" "clean (lock_bytes v) = clean v"
  by (simp_all add: bview_def clean_def)

lemma block_update [simp]: "block (v\<lparr>content := Some bs\<rparr>) = bs" "block (v\<lparr>bsize := n\<rparr>) = block v"
  "block (v\<lparr>bcapacity := n\<rparr>) = block v"
  by (simp_all add: block_def)

lemma length_bview: "bytes_ok v \<Longrightarrow> length (bview v) = unat (bsize v)"
  by (simp add: bytes_ok_def bview_def)

lemma ensure_capacity_bytes:
  assumes ok: "bytes_ok v" and ext: "can_extend A v n" and req: "unat req = unat (bsize v) + n"
  shows "\<exists>v'. bytes_ensure_capacity A v req = Some (JXTA_SUCCESS, v') \<and> bytes_ok v' \<and>
    bsize v' = bsize v \<and> bmutex v' = bmutex v \<and> bview v' = bview v \<and>
    unat (bsize v) + n \<le> unat (bcapacity v') \<and> (clean v \<longrightarrow> clean v')"
proof (cases "req < bcapacity v")
  case True
  then show ?thesis
    using ok req by (simp add: bytes_ensure_capacity_def word_less_nat_alt)
next
  case False
  obtain bs where bs: "content v = Some bs" "block v = bs"
    using ok by (auto simp: bytes_ok_def block_def)
  have cap64: "unat (bcapacity v + BYTES_DEFAULT_INCREASE) = unat (bcapacity v) + 64"
    using ext by (simp add: BYTES_DEFAULT_INCREASE_def can_extend_def unat_add_nowrap)
  define r where "r = (if req > bcapacity v + BYTES_DEFAULT_INCREASE then req else bcapacity v + BYTES_DEFAULT_INCREASE)"
  have r: "unat r = max (unat (bsize v) + n) (unat (bcapacity v) + 64)"
    using cap64 req by (auto simp: r_def word_less_nat_alt)
  then have le: "bcapacity v \<le> r" "can_alloc A (unat r)"
    using ext by (simp_all add: word_le_nat_alt can_extend_def)
  then have diff: "unat (r - bcapacity v) = unat r - unat (bcapacity v)"
    by (simp add: unat_sub_nowrap)
  let ?new = "take (unat r) bs @ map (fresh_byte A) [length bs..<unat r]"
  let ?bs = "take (unat (bcapacity v)) ?new @ replicate (unat r - unat (bcapacity v)) 0"
  have len: "length ?new = unat r"
    by simp
  have cap: "unat (bcapacity v) \<le> length bs" "unat (bcapacity v) \<le> unat r" "unat (bsize v) \<le> unat (bcapacity v)"
    using ok bs r by (auto simp: bytes_ok_def)
  have "memset ?new (unat (bcapacity v)) 0 (unat r - unat (bcapacity v)) = Some ?bs"
    using len cap(2) by (simp add: memset_in)
  then have e: "bytes_ensure_capacity A v req = Some (JXTA_SUCCESS, v\<lparr>content := Some ?bs, bcapacity := r\<rparr>)"
    using False bs le(2) diff
    by (simp add: bytes_ensure_capacity_def Let_def realloc_def flip: r_def)
  have tk: "take (unat (bcapacity v)) ?new = take (unat (bcapacity v)) bs"
    using cap by (simp add: min_def)
  have view: "bview (v\<lparr>content := Some ?bs, bcapacity := r\<rparr>) = bview v"
    using cap bs by (simp only: tk) (simp add: bview_def min_def)
  have ok': "bytes_ok (v\<lparr>content := Some ?bs, bcapacity := r\<rparr>)"
    using cap by (simp only: tk) (simp add: bytes_ok_def min_def)
  have "clean (v\<lparr>content := Some ?bs, bcapacity := r\<rparr>)" if "clean v"
    using that cap bs by (simp only: tk) (auto simp: clean_def nth_append min_def)
  then show ?thesis
    using e view ok' r by (intro exI [of _ "v\<lparr>content := Some ?bs, bcapacity := r\<rparr>"]) simp
qed


subsection \<open>What each operation does to the bytes\<close>

lemma unat_ucast_32_64 [simp]: "unat (ucast (a :: u32) :: u64) = unat a"
  by (simp add: unsigned_ucast_eq take_bit_nat_eq_self le_less_trans [OF less_imp_le [OF unat_u32_less]])

lemma add_bytes_ok:
  assumes ok: "bytes_ok v" and at: "unat at \<le> unat (bsize v)" and len: "length bs = unat len"
    and ext: "can_extend A v (unat len)"
  shows "\<exists>v'. jxta_bytevector_add_bytes_at A v (Some bs) at len = Some (JXTA_SUCCESS, v') \<and>
    bytes_ok v' \<and> bmutex v' = bmutex v \<and> unat (bsize v') = unat (bsize v) + unat len \<and>
    (unat len \<le> unat (bsize v) \<or> unat at = unat (bsize v) \<longrightarrow>
       bview v' = take (unat at) (bview v) @ bs @ drop (unat at) (bview v) \<and> (clean v \<longrightarrow> clean v')) \<and>
    (unat (bsize v) < unat len \<and> clean v \<longrightarrow>
       bview v' = take (unat at) (bview v) @ bs @ replicate (unat (bsize v) - unat at) 0)"
proof -
  let ?s = "unat (bsize v)" and ?a = "unat at" and ?l = "unat len"
  have req: "unat (bsize v + len) = ?s + ?l"
    using ext by (simp add: can_extend_def unat_add_nowrap)
  have ok0: "bytes_ok (lock_bytes v)" "can_extend A (lock_bytes v) ?l"
    using ok ext by (simp_all add: bytes_ok_def can_extend_def)
  obtain v1 where v1: "bytes_ensure_capacity A (lock_bytes v) (bsize v + len) = Some (JXTA_SUCCESS, v1)" "bytes_ok v1"
      "bsize v1 = bsize v" "bmutex v1 = mutex_lock (bmutex v)" "bview v1 = bview v" "?s + ?l \<le> unat (bcapacity v1)"
      "clean v \<longrightarrow> clean v1"
    using ensure_capacity_bytes [OF ok0, of "bsize v + len"] req by auto
  let ?b = "block v1"
  have b: "?s + ?l \<le> length ?b"
    using v1(2,6) by (auto simp: bytes_ok_def)
  have atl: "unat (ucast at + len :: u64) = ?a + ?l" "unat (bsize v - ucast at :: u64) = ?s - ?a"
    using at ext by (simp_all add: can_extend_def unat_add_nowrap unat_sub_nowrap word_le_nat_alt)
  define bs1 where "bs1 = (if ?l \<le> ?s then take (?a + ?l) ?b @ take (?s - ?a) (drop ?a ?b) @ drop (?s + ?l) ?b else ?b)"
  have l1: "length bs1 = length ?b"
    using b at by (auto simp: bs1_def)
  have m1: "(if bsize v1 \<ge> len then memmove ?b (?a + ?l) ?a (?s - ?a) else Some ?b) = Some bs1"
    using b at v1(3) by (simp add: bs1_def mem_simps word_le_nat_alt add.commute)
  define bs2 where "bs2 = take ?a bs1 @ bs @ drop (?a + ?l) bs1"
  have m2: "mem_store bs1 ?a bs = Some bs2"
    using l1 b at len by (simp add: mem_simps bs2_def)
  let ?v' = "unlock_bytes (v1\<lparr>content := Some bs2, bsize := bsize v + len\<rparr>)"
  have run: "jxta_bytevector_add_bytes_at A v (Some bs) at len = Some (JXTA_SUCCESS, ?v')"
    using v1(1,3) at m1 m2 atl len
    by (cases "len \<le> bsize v")
       (simp_all add: jxta_bytevector_add_bytes_at_def Let_def word_less_nat_alt mem_simps)
  have l2: "length bs2 = length ?b"
    using l1 b at len by (simp add: bs2_def)
  have ok': "bytes_ok ?v'" "bmutex ?v' = bmutex v" "unat (bsize ?v') = ?s + ?l"
    using v1(2,4,6) l2 req by (simp_all add: bytes_ok_def)
  have view1: "bview v = take ?s ?b"
    using v1(3,5) by (simp add: bview_def)
  have view: "bview ?v' = take (?s + ?l) bs2"
    using req by (simp add: bview_def)
  have start: "take ?a bs1 = take ?a (bview v)"
    using at b by (auto simp: bs1_def view1 min_def)
  have insert: "bview ?v' = take ?a (bview v) @ bs @ drop ?a (bview v)" if "?l \<le> ?s \<or> ?a = ?s"
  proof (cases "?l \<le> ?s")
    case True
    then have "drop (?a + ?l) bs1 = take (?s - ?a) (drop ?a ?b) @ drop (?s + ?l) ?b"
      using b at by (simp add: bs1_def)
    then have "bs2 = take ?a (bview v) @ bs @ take (?s - ?a) (drop ?a ?b) @ drop (?s + ?l) ?b"
      using start by (simp add: bs2_def)
    moreover have "drop ?a (bview v) = take (?s - ?a) (drop ?a ?b)"
      by (simp add: view1 drop_take)
    ultimately have "bs2 = (take ?a (bview v) @ bs @ drop ?a (bview v)) @ drop (?s + ?l) ?b"
      by simp
    moreover have "length (take ?a (bview v) @ bs @ drop ?a (bview v)) = ?s + ?l"
      using length_bview [OF ok] at len by simp
    ultimately show ?thesis
      using view take_append_exact by metis
  next
    case False
    with that have "?a = ?s" by simp
    with view start at b len show ?thesis
      by (simp add: bs2_def view1 min_def)
  qed
  have lost: "bview ?v' = take ?a (bview v) @ bs @ replicate (?s - ?a) 0" if "?s < ?l" "clean v"
  proof -
    have "take (?s - ?a) (drop (?a + ?l) ?b) = replicate (?s - ?a) 0"
      using that v1(3,7) b at by (intro nth_equalityI) (auto simp: clean_def)
    then show ?thesis
      using that(1) view start at b len by (simp add: bs2_def bs1_def min_def)
  qed
  have "clean ?v'" if "clean v" "?l \<le> ?s \<or> ?a = ?s"
  proof -
    have tail: "drop (?s + ?l) bs2 = drop (?s + ?l) ?b"
      using at b len that(2) by (auto simp: bs2_def bs1_def)
    have "bs2 ! i = 0" if "?s + ?l \<le> i" "i < length bs2" for i
    proof -
      have "bs2 ! i = drop (?s + ?l) bs2 ! (i - (?s + ?l))"
        using that l2 by simp
      also have "\<dots> = ?b ! i"
        using that l2 by (simp only: tail) simp
      finally show ?thesis
        using v1(3,7) \<open>clean v\<close> that l2 by (simp add: clean_def)
    qed
    then show ?thesis
      using req by (simp add: clean_def)
  qed
  with run ok' insert lost show ?thesis
    by blast
qed

lemma remove_bytes_ok:
  assumes ok: "bytes_ok v" and at: "unat at < unat (bsize v)"
  shows "\<exists>v'. jxta_bytevector_remove_bytes_at v at len = Some (JXTA_SUCCESS, v') \<and> bytes_ok v' \<and> bmutex v' = bmutex v \<and>
    bview v' = take (unat at) (bview v) @ drop (unat at + unat len) (bview v)"
proof -
  let ?s = "unat (bsize v)" and ?a = "unat at"
  have sub: "unat (bsize v - ucast at :: u64) = ?s - ?a"
    using at by (simp add: unat_sub_nowrap word_le_nat_alt)
  define n where "n = (if bsize v - ucast at > len then len else bsize v - ucast at)"
  have n: "unat n = min (unat len) (?s - ?a)"
    using sub by (auto simp: n_def word_less_nat_alt)
  have b: "?s \<le> length (block v)"
    using ok by (simp add: bytes_ok_def)
  have s64: "?s < 2 ^ 64"
    using unsigned_less [of "bsize v", where ?'a = nat] by simp
  have an: "unat (ucast at + n :: u64) = ?a + unat n"
    using n at s64 by (simp add: unat_add_nowrap min_def)
  have rest: "unat (bsize v - ucast at - n) = ?s - ?a - unat n" "unat (bsize v - n) = ?s - unat n"
    using n sub at by (simp_all add: unat_sub_nowrap word_le_nat_alt min_def)
  let ?bs = "take ?a (block v) @ take (?s - ?a - unat n) (drop (?a + unat n) (block v)) @ drop (?s - unat n) (block v)"
  have m: "memmove (block v) ?a (?a + unat n) (?s - ?a - unat n) = Some ?bs"
    using n at b by (simp add: mem_simps min_def)
  let ?v' = "unlock_bytes ((lock_bytes v)\<lparr>content := Some ?bs, bsize := bsize v - n\<rparr>)"
  have run: "jxta_bytevector_remove_bytes_at v at len = Some (JXTA_SUCCESS, ?v')"
  proof -
    have "jxta_bytevector_remove_bytes_at v at len =
        do { bs \<leftarrow> memmove (block v) ?a (unat (ucast at + n :: u64)) (unat (bsize v - ucast at - n));
             Some (JXTA_SUCCESS, unlock_bytes ((lock_bytes v)\<lparr>content := Some bs, bsize := bsize v - n\<rparr>)) }"
      using at by (simp add: jxta_bytevector_remove_bytes_at_def Let_def word_le_nat_alt not_le n_def)
    then show ?thesis
      by (simp only: an rest(1) m) simp
  qed
  have "length ?bs = length (block v)"
    using n at b by (auto simp: min_def)
  then have ok': "bytes_ok ?v'" "bmutex ?v' = bmutex v"
    using ok rest(2) by (auto simp: bytes_ok_def)
  have "bview ?v' = take (?s - unat n) ?bs"
    using rest(2) by (simp add: bview_def)
  also have "\<dots> = take ?a (block v) @ take (?s - ?a - unat n) (drop (?a + unat n) (block v))"
  proof -
    have "unat n \<le> ?s - ?a"
      using n by simp
    moreover have "?s - ?a - unat n \<le> length (block v) - (?a + unat n)" "?a \<le> length (block v)"
      using b at by linarith+
    ultimately have "length (take ?a (block v) @ take (?s - ?a - unat n) (drop (?a + unat n) (block v))) = ?s - unat n"
      using at by (simp add: min_absorb2)
    from take_append_exact [OF this] show ?thesis
      by simp
  qed
  also have "\<dots> = take ?a (bview v) @ drop (?a + unat len) (bview v)"
  proof (cases "unat len \<le> ?s - ?a")
    case True
    with n at show ?thesis
      by (simp add: bview_def drop_take min_def)
  next
    case False
    then have "?s \<le> ?a + unat len"
      by linarith
    with False n at show ?thesis
      by (simp add: bview_def min_def)
  qed
  finally show ?thesis
    using run ok' by blast
qed

lemma get_bytes_ok:
  assumes ok: "bytes_ok v" and at: "unat at < unat (bsize v)" and room: "unat len \<le> r"
  shows "jxta_bytevector_get_bytes_at v (Some r) at len =
    Some (JXTA_SUCCESS, take (unat len) (drop (unat at) (bview v)))"
proof -
  let ?s = "unat (bsize v)" and ?a = "unat at"
  have sub: "unat (bsize v - ucast at :: u64) = ?s - ?a"
    using at by (simp add: unat_sub_nowrap word_le_nat_alt)
  define n where "n = (if bsize v - ucast at > len then len else bsize v - ucast at)"
  have n: "unat n = min (unat len) (?s - ?a)"
    using sub by (auto simp: n_def word_less_nat_alt)
  have b: "?s \<le> length (block v)"
    using ok by (simp add: bytes_ok_def)
  have "take (unat n) (drop ?a (block v)) = take (unat len) (drop ?a (bview v))"
    using n by (simp add: bview_def drop_take min_def)
  then show ?thesis
    using at n b room
    by (simp add: jxta_bytevector_get_bytes_at_def jxta_bytevector_get_bytes_at_1_def Let_def word_le_nat_alt not_le
        mem_simps flip: n_def)
qed


subsection \<open>Properties\<close>

lemma new_bytes_ok:
  assumes "can_alloc A (unat n + 1)" "unat n + 1 < 2 ^ 64"
  shows "\<exists>v. jxta_bytevector_new_1 A True n = Some v \<and> bytes_ok v \<and> clean v \<and> bview v = [] \<and>
    bcapacity v = n \<and> bmutex v = None"
proof -
  have "unat (n + 1) = unat n + 1"
    using assms(2) by (simp add: unat_add_nowrap)
  with assms(1) show ?thesis
    by (simp add: jxta_bytevector_new_1_def bytes_ok_def clean_def bview_def block_def nth_Cons')
qed

text \<open>
  C6: Inserting \<open>len\<close> bytes at a position up to the size, with enough memory, stays inside
  the block, keeps the invariant and the mutex, and inserts exactly those bytes when \<open>len\<close> is
  at most the size or the position is the end.  Otherwise the tail is not moved: in a vector
  whose unused bytes are zeros, the bytes after the position are overwritten and replaced
  by zeros.
\<close>

theorem bytevector_insert:
  assumes "bytes_ok v" "unat at \<le> unat (bsize v)" "length bs = unat len" "can_extend A v (unat len)"
  shows "\<exists>v'. jxta_bytevector_add_bytes_at A v (Some bs) at len = Some (JXTA_SUCCESS, v') \<and>
    bytes_ok v' \<and> bmutex v' = bmutex v \<and> unat (bsize v') = unat (bsize v) + unat len \<and>
    (unat len \<le> unat (bsize v) \<or> unat at = unat (bsize v) \<longrightarrow>
       bview v' = take (unat at) (bview v) @ bs @ drop (unat at) (bview v)) \<and>
    (unat (bsize v) < unat len \<and> clean v \<longrightarrow>
       bview v' = take (unat at) (bview v) @ bs @ replicate (unat (bsize v) - unat at) 0)"
  using add_bytes_ok [OF assms] by blast

definition all_alloc :: allocator where
  "all_alloc = \<lparr>can_alloc = (\<lambda>_. True), fresh_byte = (\<lambda>_. 0xAA)\<rparr>"

definition two_bytes :: jxta_bytevector where
  "two_bytes = \<lparr>content = Some [1, 2, 0, 0], bsize = 2, bcapacity = 3, bmutex = None\<rparr>"

lemma two_bytes_ok: "bytes_ok two_bytes" "clean two_bytes" "bview two_bytes = [1, 2]"
  by (auto simp: two_bytes_def bytes_ok_def clean_def bview_def block_def nth_Cons' less_Suc_eq)

theorem bytevector_insert_witness:
  "\<exists>v'. jxta_bytevector_add_bytes_at all_alloc two_bytes (Some [7, 8, 9]) 1 3 = Some (JXTA_SUCCESS, v') \<and>
     bview v' = [1, 7, 8, 9, 0]"
proof -
  have "can_extend all_alloc two_bytes (unat (3 :: u64))"
    by (simp add: can_extend_def all_alloc_def two_bytes_def)
  from bytevector_insert [OF two_bytes_ok(1) _ _ this, of 1 "[7, 8, 9]"] two_bytes_ok
  show ?thesis
    by (auto simp: two_bytes_def)
qed

text \<open>
  Bytes appended to a vector are read back unchanged, and removing them again restores
  the content: insertion at the end, reading and removal are inverse to each other.
\<close>

theorem bytevector_append_roundtrip:
  assumes ok: "bytes_ok v" and at: "unat at = unat (bsize v)" and len: "length bs = unat len" "bs \<noteq> []"
    and ext: "can_extend A v (unat len)" and room: "unat len \<le> r"
  shows "\<exists>v' v''. jxta_bytevector_add_bytes_at A v (Some bs) at len = Some (JXTA_SUCCESS, v') \<and>
    jxta_bytevector_get_bytes_at v' (Some r) at len = Some (JXTA_SUCCESS, bs) \<and>
    jxta_bytevector_remove_bytes_at v' at len = Some (JXTA_SUCCESS, v'') \<and> bytes_ok v'' \<and> bview v'' = bview v"
proof -
  obtain v' where v': "jxta_bytevector_add_bytes_at A v (Some bs) at len = Some (JXTA_SUCCESS, v')" "bytes_ok v'"
      "unat (bsize v') = unat (bsize v) + unat len" "bview v' = bview v @ bs"
    using add_bytes_ok [OF ok _ len(1) ext, of at] at length_bview [OF ok] by auto
  have lt: "unat at < unat (bsize v')"
    using v'(3) at len by (cases bs) auto
  have "jxta_bytevector_get_bytes_at v' (Some r) at len = Some (JXTA_SUCCESS, bs)"
    using get_bytes_ok [OF v'(2) lt room] v'(4) at len(1) length_bview [OF ok] by simp
  moreover obtain v'' where "jxta_bytevector_remove_bytes_at v' at len = Some (JXTA_SUCCESS, v'')" "bytes_ok v''"
      "bview v'' = take (unat at) (bview v') @ drop (unat at + unat len) (bview v')"
    using remove_bytes_ok [OF v'(2) lt] by blast
  ultimately show ?thesis
    using v'(1,4) at len(1) length_bview [OF ok] by simp
qed

theorem bytevector_append_roundtrip_witness:
  "\<exists>v'. jxta_bytevector_add_bytes_at all_alloc two_bytes (Some [7, 8, 9]) 2 3 = Some (JXTA_SUCCESS, v') \<and>
     jxta_bytevector_get_bytes_at v' (Some 16) 2 3 = Some (JXTA_SUCCESS, [7, 8, 9])"
proof -
  have "can_extend all_alloc two_bytes (unat (3 :: u64))"
    by (simp add: can_extend_def all_alloc_def two_bytes_def)
  from bytevector_append_roundtrip [OF two_bytes_ok(1) _ _ _ this, of 2 "[7, 8, 9]" 16] show ?thesis
    by (auto simp: two_bytes_def)
qed

text \<open>
  Appending one byte with \<open>jxta_bytevector_add_byte_last\<close> appends it, but leaves the
  mutex of a synchronised vector held twice more than before.
\<close>

theorem bytevector_add_byte_last_keeps_lock:
  assumes ok: "bytes_ok v" and small: "unat (bsize v) < 2 ^ 32" and ext: "can_extend A v 1"
  shows "\<exists>v'. jxta_bytevector_add_byte_last A v b = Some (JXTA_SUCCESS, v') \<and> bytes_ok v' \<and>
    bview v' = bview v @ [b] \<and> bmutex v' = map_option (\<lambda>d. d + 2) (bmutex v)"
proof -
  have at: "unat (ucast (bsize v) :: u32) = unat (bsize v)"
    using small by (simp add: unsigned_ucast_eq take_bit_nat_eq_self)
  have ok': "bytes_ok (lock_bytes v)" "can_extend A (lock_bytes v) (unat (1 :: u64))"
    using ok ext by (simp_all add: bytes_ok_def can_extend_def)
  obtain v' where "jxta_bytevector_add_bytes_at A (lock_bytes v) (Some [b]) (ucast (bsize v)) 1 = Some (JXTA_SUCCESS, v')"
      "bytes_ok v'" "bmutex v' = mutex_lock (bmutex v)" "bview v' = bview v @ [b]"
    using add_bytes_ok [OF ok'(1) _ _ ok'(2), of "ucast (bsize v)" "[b]"] at length_bview [OF ok] by auto
  then show ?thesis
    by (auto simp: jxta_bytevector_add_byte_last_def jxta_bytevector_add_byte_at_def bytes_ok_def mutex_lock_def
        option.map_comp comp_def)
qed

theorem bytevector_add_byte_last_keeps_lock_witness:
  "\<exists>v'. jxta_bytevector_add_byte_last all_alloc (two_bytes\<lparr>bmutex := Some 0\<rparr>) 3 = Some (JXTA_SUCCESS, v') \<and>
     bview v' = [1, 2, 3] \<and> bmutex v' = Some 2"
proof -
  let ?v = "two_bytes\<lparr>bmutex := Some 0\<rparr>"
  have v: "bytes_ok ?v" "bview ?v = [1, 2]" "unat (bsize ?v) < 2 ^ 32" "can_extend all_alloc ?v 1"
    by (auto simp: two_bytes_def bytes_ok_def bview_def block_def can_extend_def all_alloc_def)
  from bytevector_add_byte_last_keeps_lock [OF v(1,3,4), of 3] v(2) show ?thesis
    by auto
qed

text \<open>
  C7: \<open>jxta_bytevector_equals\<close> and \<open>jxta_bytevector_hashcode\<close> satisfy what a hash table with
  object keys asks for: vectors are equal exactly if their bytes are, equal vectors have the
  same hash code, and no hash code is 0.
\<close>

theorem bytevector_keys:
  assumes "bytes_ok v1" "bytes_ok v2"
  shows "\<exists>h1 h2. jxta_bytevector_equals False v1 v2 = Some (bview v1 = bview v2) \<and>
    jxta_bytevector_hashcode v1 = Some h1 \<and> jxta_bytevector_hashcode v2 = Some h2 \<and>
    (bview v1 = bview v2 \<longrightarrow> h1 = h2) \<and> h1 \<noteq> 0"
proof -
  have load: "mem_load (block v) 0 (unat (bsize v)) = Some (bview v)" if "bytes_ok v" for v
    using that by (simp add: bytes_ok_def bview_def mem_simps)
  have "jxta_objecthashtable_simplehash ks \<noteq> 0" for ks
    by (simp add: jxta_objecthashtable_simplehash_def Let_def)
  moreover have "jxta_bytevector_equals False v1 v2 = Some (bview v1 = bview v2)"
  proof (cases "bsize v1 = bsize v2")
    case True
    then show ?thesis
      using load [OF assms(1)] load [OF assms(2)] by (simp add: jxta_bytevector_equals_def)
  next
    case False
    then have "unat (bsize v1) \<noteq> unat (bsize v2)"
      by (simp add: word_unat_eq_iff)
    then have "bview v1 \<noteq> bview v2"
      using length_bview [OF assms(1)] length_bview [OF assms(2)] by metis
    with False show ?thesis
      by (simp add: jxta_bytevector_equals_def)
  qed
  ultimately show ?thesis
    using load [OF assms(1)] load [OF assms(2)] by (simp add: jxta_bytevector_hashcode_def)
qed

theorem bytevector_keys_witness:
  "jxta_bytevector_equals False two_bytes (two_bytes\<lparr>content := Some [1, 2, 9]\<rparr>) = Some True"
  using bytevector_keys [of two_bytes "two_bytes\<lparr>content := Some [1, 2, 9]\<rparr>"] two_bytes_ok
  by (auto simp: two_bytes_def bytes_ok_def bview_def block_def)

end
