(* ===== verification/CString.thy ===== *)
theory CString
  imports Prelude "HOL-Library.Char_ord"
begin

section \<open>C strings\<close>

text \<open>
  The functions of the C library on character strings that the program uses, in the C locale.
  A C string is a block of bytes with a zero byte; \<open>cstr\<close> is its text, the bytes before it.
  Texts that are no block of their own (the text of a string object, the text passed with a
  length) are plain lists of bytes.
\<close>

type_synonym ctext = "u8 list"

named_theorems text_simps \<open>texts and characters, evaluated\<close>

definition str :: "string \<Rightarrow> u8 list" where
  "str s = map of_char s"

lemma str_simps [simp]: "str [] = []" "str (c # cs) = of_char c # str cs"
  by (simp_all add: str_def)

lemma length_str [simp]: "length (str s) = length s"
  by (simp add: str_def)

definition strlen :: "u8 list \<Rightarrow> nat option" where
  "strlen s = (if 0 \<in> set s then Some (length (takeWhile (\<lambda>c. c \<noteq> 0) s)) else None)"

text \<open>\<open>isspace\<close>, \<open>tolower\<close> and the digits.\<close>

definition isspace :: "u8 \<Rightarrow> bool" where
  "isspace c \<longleftrightarrow> c = 32 \<or> (9 \<le> c \<and> c \<le> 13)"

definition tolower :: "u8 \<Rightarrow> u8" where
  "tolower c = (if 65 \<le> c \<and> c \<le> 90 then c + 32 else c)"

definition isdigit :: "u8 \<Rightarrow> bool" where
  "isdigit c \<longleftrightarrow> 48 \<le> c \<and> c \<le> 57"

definition isxdigit :: "u8 \<Rightarrow> bool" where
  "isxdigit c \<longleftrightarrow> isdigit c \<or> (65 \<le> c \<and> c \<le> 70) \<or> (97 \<le> c \<and> c \<le> 102)"

text \<open>The text of a block.\<close>

definition cstr :: "u8 list \<Rightarrow> u8 list" where
  "cstr s = takeWhile (\<lambda>c. c \<noteq> 0) s"

text \<open>\<open>strcmp\<close> on blocks: the difference of the first bytes that differ, or 0.\<close>

fun strcmp :: "u8 list \<Rightarrow> u8 list \<Rightarrow> int option" where
  "strcmp (a # as) (b # bs) =
     (if a \<noteq> b then Some (uint a - uint b) else if a = 0 then Some 0 else strcmp as bs)"
| "strcmp _ _ = None"

text \<open>
  \<open>strncmp\<close> and \<open>strncasecmp\<close> on texts (the terminating zero of a text is implied), 0 for
  equality.
\<close>

fun strncmp :: "u8 list \<Rightarrow> u8 list \<Rightarrow> nat \<Rightarrow> int" where
  "strncmp as bs 0 = 0"
| "strncmp [] [] (Suc n) = 0"
| "strncmp (a # as) [] (Suc n) = uint a"
| "strncmp [] (b # bs) (Suc n) = - uint b"
| "strncmp (a # as) (b # bs) (Suc n) =
     (if a \<noteq> b then uint a - uint b else if a = 0 then 0 else strncmp as bs n)"

definition strncasecmp :: "u8 list \<Rightarrow> u8 list \<Rightarrow> nat \<Rightarrow> int" where
  "strncasecmp as bs n = strncmp (map tolower as) (map tolower bs) n"

text \<open>The value of a hexadecimal digit.\<close>

definition hexval :: "u8 \<Rightarrow> nat" where
  "hexval c = (if isdigit c then unat c - 48 else if 97 \<le> c then unat c - 87 else unat c - 55)"

text \<open>
  \<open>strtoul\<close> in base 16: white space, a sign, an optional \<open>0x\<close> in front of a digit, digits;
  a value out of range gives \<open>ULONG_MAX\<close>, a minus sign negates in \<open>unsigned long\<close>.
\<close>

definition hex_prefix :: "u8 list \<Rightarrow> u8 list" where
  "hex_prefix s = (case s of a # b # c # t \<Rightarrow> if a = 48 \<and> (b = 120 \<or> b = 88) \<and> isxdigit c then c # t else s | _ \<Rightarrow> s)"

definition strtoul16 :: "u8 list \<Rightarrow> u64" where
  "strtoul16 s =
     (let s1 = dropWhile isspace s;
          neg = (case s1 of c # _ \<Rightarrow> c = 45 | [] \<Rightarrow> False);
          s2 = (case s1 of c # t \<Rightarrow> if c = 45 \<or> c = 43 then t else s1 | [] \<Rightarrow> s1);
          n = foldl (\<lambda>a c. 16 * a + hexval c) 0 (takeWhile isxdigit (hex_prefix s2))
      in if 2 ^ 64 \<le> n then - 1 else if neg then - word_of_nat n else word_of_nat n)"

text \<open>\<open>%02X\<close> of a byte.\<close>

definition hex_digit :: "u8 \<Rightarrow> u8" where
  "hex_digit d = (if d < 10 then 48 + d else 55 + d)"

definition print_02X :: "u8 \<Rightarrow> u8 list" where
  "print_02X b = [hex_digit (drop_bit 4 b), hex_digit (b AND 15)]"

subsection \<open>Lemmas\<close>

lemma strlen_Some: "strlen cs = Some n \<longleftrightarrow> 0 \<in> set cs \<and> n = length (takeWhile (\<lambda>c. c \<noteq> 0) cs)"
  by (auto simp: strlen_def)

lemma strlen_take: "strlen cs = Some n \<Longrightarrow> take n cs = takeWhile (\<lambda>c. c \<noteq> 0) cs \<and> n \<le> length cs"
  by (auto simp: strlen_Some length_takeWhile_le takeWhile_eq_take [symmetric])

lemma cstr_block: "0 \<notin> set s \<Longrightarrow> cstr (s @ 0 # t) = s"
  by (induction s) (auto simp: cstr_def)

lemma cstr_id: "0 \<notin> set s \<Longrightarrow> cstr s = s"
  by (induction s) (auto simp: cstr_def)

lemma strlen_block: "0 \<notin> set s \<Longrightarrow> strlen (s @ 0 # t) = Some (length s)"
  using cstr_block [of s t] by (simp add: strlen_def cstr_def)

lemma strcmp_ok:
  "0 \<in> set a \<Longrightarrow> 0 \<in> set b \<Longrightarrow> \<exists>r. strcmp a b = Some r \<and> (r = 0 \<longleftrightarrow> cstr a = cstr b)"
proof (induction a b rule: strcmp.induct)
  case (1 a as b bs)
  then show ?case
    by (cases "a = b"; cases "a = 0") (auto simp: cstr_def word_uint_eq_iff)
qed auto

lemma strncmp_pos [simp]:
  "0 < n \<Longrightarrow> strncmp (a # as) (b # bs) n =
     (if a \<noteq> b then uint a - uint b else if a = 0 then 0 else strncmp as bs (n - 1))"
  "0 < n \<Longrightarrow> strncmp (a # as) [] n = uint a"
  "0 < n \<Longrightarrow> strncmp [] (b # bs) n = - uint b"
  by (cases n; simp)+

lemma strncmp_refl: "strncmp s s n = 0"
  by (induction s arbitrary: n; case_tac n) auto

lemma strncmp_self_prefix: "n \<le> length s \<Longrightarrow> strncmp s (s @ t) n = 0"
proof (induction s arbitrary: n)
  case (Cons a s)
  then show ?case
    by (cases n) auto
qed simp

text \<open>Printing a byte and reading the two digits back.\<close>

lemma hex_digits_cases: "d < 16 \<Longrightarrow> (d :: u8) \<in> set [0, 1, 2, 3, 4, 5, 6, 7, 8, 9, 10, 11, 12, 13, 14, 15]"
proof -
  assume "d < 16"
  then have "unat d < 16"
    by (simp add: word_less_nat_alt)
  then have "unat d \<in> set [0..<16]"
    by simp
  then have "word_of_nat (unat d) \<in> set (map (word_of_nat :: nat \<Rightarrow> u8) [0..<16])"
    unfolding set_map by (rule imageI)
  then show ?thesis
    by (simp add: upt_rec)
qed

lemma hex_digit_table:
  "\<forall>d \<in> set [0, 1, 2, 3, 4, 5, 6, 7, 8, 9, 10, 11, 12, 13, 14, 15 :: u8].
     isxdigit (hex_digit d) \<and> \<not> isspace (hex_digit d) \<and> hex_digit d \<noteq> 45 \<and> hex_digit d \<noteq> 43 \<and> hex_digit d \<noteq> 0 \<and>
     hexval (hex_digit d) = unat d"
  by (simp add: hex_digit_def isxdigit_def isdigit_def isspace_def hexval_def)

lemmas hex_digit_props = hex_digit_table [THEN bspec, OF hex_digits_cases]

lemma byte_nibbles: "drop_bit 4 (b :: u8) < 16" "b AND 15 < 16"
proof -
  have "unat b < 256"
    using unsigned_less [of b, where ?'a = nat] by simp
  then show "drop_bit 4 b < 16"
    by (simp add: word_less_nat_alt unat_drop_bit_eq drop_bit_eq_div [of 4 "unat b"])
  show "b AND 15 < 16"
    using word_and_le1 [of b 15] by (simp add: word_less_nat_alt word_le_nat_alt)
qed

lemma strtoul_print_02X: "ucast (strtoul16 (print_02X b @ [0])) = b"
proof -
  let ?h = "drop_bit 4 b" and ?l = "b AND 15"
  have lt: "unat b < 256"
    using unsigned_less [of b, where ?'a = nat] by simp
  note h = byte_nibbles(1) [of b] and l = byte_nibbles(2) [of b]
  have l': "?l = take_bit 4 b"
    by (simp add: take_bit_eq_mask mask_eq_exp_minus_1)
  have s1: "dropWhile isspace (print_02X b @ [0]) = print_02X b @ [0]"
    using hex_digit_props [OF h] by (simp add: print_02X_def)
  have p: "hex_prefix (print_02X b @ [0]) = print_02X b @ [0]"
    by (simp add: print_02X_def hex_prefix_def isxdigit_def isdigit_def)
  have t: "takeWhile isxdigit (print_02X b @ [0]) = print_02X b"
    using hex_digit_props [OF h] hex_digit_props [OF l]
    by (simp add: print_02X_def isxdigit_def [of 0] isdigit_def [of 0])
  have v: "16 * unat ?h + unat ?l = unat b"
    unfolding l' using mult_div_mod_eq [of 16 "unat b"]
    by (simp add: unat_drop_bit_eq drop_bit_eq_div [of 4 "unat b"] unsigned_take_bit_eq take_bit_eq_mod [of 4 "unat b"])
  have "strtoul16 (print_02X b @ [0]) = word_of_nat (unat b)"
    using s1 p t v hex_digit_props [OF h] hex_digit_props [OF l] lt
    by (simp add: strtoul16_def Let_def) (simp add: print_02X_def)
  then have "ucast (strtoul16 (print_02X b @ [0])) = (ucast (ucast b :: u64) :: u8)"
    by simp
  also have "\<dots> = b"
    by (rule bit_word_eqI) (simp add: bit_simps)
  finally show ?thesis .
qed

end
