(* ===== verification/JStringBuf.thy ===== *)
theory JStringBuf
  imports ByteVector CString
begin

section \<open>Strings (src/src/jstring.c)\<close>

text \<open>
  A string is a buffer of \<open>bufsize\<close> characters of which \<open>length\<close> are in use; it is not kept
  terminated, \<open>jstring_get_string\<close> writes the terminating zero.  Sizes are \<open>size_t\<close>s, written
  as natural numbers with the wrap-around of the additions and doublings written out.  The
  code does not check the results of \<open>malloc\<close> and \<open>realloc\<close> for the buffer: a null buffer
  is \<open>None\<close>, and using it is the result \<open>None\<close> of an operation.  A C string is the list of the
  bytes of its block; \<open>strlen\<close> runs out of it when no byte is zero.
\<close>

record jstring =
  jlength :: nat
  bufsize :: nat
  jbuf :: "u8 list option"

definition DEFAULTBUFSIZE :: nat where
  "DEFAULTBUFSIZE = 128"

subsection \<open>Buffers\<close>

definition resizeBuf :: "allocator \<Rightarrow> u8 list option \<Rightarrow> nat \<Rightarrow> u8 list option" where
  "resizeBuf A p n = realloc A (case p of None \<Rightarrow> [] | Some b \<Rightarrow> b) n"

definition newCharBuf :: "allocator \<Rightarrow> nat \<Rightarrow> u8 list option" where
  "newCharBuf A n = (if can_alloc A n then Some (replicate n 0) else None)"

subsection \<open>Creation\<close>

definition jstring_new_1 :: "allocator \<Rightarrow> bool \<Rightarrow> nat \<Rightarrow> jstring option" where
  "jstring_new_1 A self_ok bufsize' =
     (if \<not> self_ok then None
      else (let n = (if bufsize' \<le> 0 then DEFAULTBUFSIZE else (bufsize' + 1) mod 2 ^ 64) in
            Some \<lparr>jlength = 0, bufsize = n, jbuf = newCharBuf A n\<rparr>))"

definition jstring_new_0 :: "allocator \<Rightarrow> bool \<Rightarrow> jstring option" where
  "jstring_new_0 A self_ok = jstring_new_1 A self_ok DEFAULTBUFSIZE"

subsection \<open>Appending\<close>

text \<open>
  The loop that doubles the buffer size; 65 rounds are enough, after 64 the size is 0 and the
  loop never ends.
\<close>

fun bufsize_loop :: "nat \<Rightarrow> nat \<Rightarrow> nat \<Rightarrow> nat option" where
  "bufsize_loop 0 sz need = None"
| "bufsize_loop (Suc fuel) sz need =
     (if sz \<le> need then bufsize_loop fuel ((sz * 2) mod 2 ^ 64) need else Some sz)"

definition jstring_append_0 :: "allocator \<Rightarrow> jstring \<Rightarrow> u8 list option \<Rightarrow> nat \<Rightarrow> jstring option" where
  "jstring_append_0 A js newstring len =
     (case newstring of
        None \<Rightarrow> Some js
      | Some s \<Rightarrow>
          do { sz \<leftarrow> bufsize_loop 65 (bufsize js) ((jlength js + len + 1) mod 2 ^ 64);
               b \<leftarrow> resizeBuf A (jbuf js) sz;
               src \<leftarrow> mem_load s 0 len;
               b1 \<leftarrow> mem_store b (jlength js) src;
               Some (js\<lparr>jlength := (jlength js + len) mod 2 ^ 64, bufsize := sz, jbuf := Some b1\<rparr>) })"

definition jstring_append_1 :: "allocator \<Rightarrow> jstring \<Rightarrow> jstring \<Rightarrow> jstring option" where
  "jstring_append_1 A jsorig jsnew = jstring_append_0 A jsorig (jbuf jsnew) (jlength jsnew)"

definition jstring_append_2 :: "allocator \<Rightarrow> jstring \<Rightarrow> u8 list option \<Rightarrow> jstring option" where
  "jstring_append_2 A js s =
     (case s of
        None \<Rightarrow> Some js
      | Some cs \<Rightarrow> do { n \<leftarrow> strlen cs; jstring_append_0 A js (Some cs) n })"

fun jstring_concat :: "allocator \<Rightarrow> jstring \<Rightarrow> u8 list option list \<Rightarrow> jstring option" where
  "jstring_concat A js [] = Some js"
| "jstring_concat A js (s # ss) = do { js1 \<leftarrow> jstring_append_2 A js s; jstring_concat A js1 ss }"

definition jstring_new_2 :: "allocator \<Rightarrow> bool \<Rightarrow> u8 list option \<Rightarrow> jstring option option" where
  "jstring_new_2 A self_ok s =
     (case s of
        None \<Rightarrow> Some None
      | Some cs \<Rightarrow>
          do { n \<leftarrow> strlen cs;
               (case jstring_new_1 A self_ok n of
                  None \<Rightarrow> Some None
                | Some js \<Rightarrow> map_option Some (jstring_append_0 A js (Some cs) n)) })"

text \<open>An empty vector gives no string: \<open>jxta_bytevector_get_bytes_at\<close> refuses position 0.\<close>

definition jstring_new_3 :: "allocator \<Rightarrow> bool \<Rightarrow> jxta_bytevector option \<Rightarrow> jstring option option" where
  "jstring_new_3 A self_ok bytes =
     (case bytes of
        None \<Rightarrow> Some None
      | Some v \<Rightarrow>
          (let n = unat (jxta_bytevector_size v) in
           case jstring_new_1 A self_ok n of
             None \<Rightarrow> Some None
           | Some js \<Rightarrow>
               do { b \<leftarrow> jbuf js;
                    (st, got) \<leftarrow> jxta_bytevector_get_bytes_at v (Some (length b)) 0 (jxta_bytevector_size v);
                    if st \<noteq> JXTA_SUCCESS then Some None
                    else do { b1 \<leftarrow> mem_store b 0 got;
                              Some (Some (js\<lparr>jlength := n, jbuf := Some b1\<rparr>)) } }))"

subsection \<open>Access\<close>

definition jstring_length :: "jstring \<Rightarrow> nat" where
  "jstring_length js = jlength js"

definition jstring_capacity :: "jstring \<Rightarrow> nat" where
  "jstring_capacity js = bufsize js"

text \<open>The result is the block, terminated, and the string it stays the buffer of.\<close>

definition jstring_get_string :: "allocator \<Rightarrow> jstring \<Rightarrow> (u8 list \<times> jstring) option" where
  "jstring_get_string A js =
     (let js1 = (if jlength js = bufsize js
                 then js\<lparr>jbuf := resizeBuf A (jbuf js) ((bufsize js + 1) mod 2 ^ 64),
                         bufsize := (bufsize js + 1) mod 2 ^ 64\<rparr>
                 else js)
      in do { b \<leftarrow> jbuf js1; b1 \<leftarrow> mem_write b (jlength js1) 0; Some (b1, js1\<lparr>jbuf := Some b1\<rparr>) })"

definition jstring_clone :: "allocator \<Rightarrow> bool \<Rightarrow> jstring \<Rightarrow> (jstring \<times> jstring) option" where
  "jstring_clone A self_ok orig =
     do { js \<leftarrow> jstring_new_1 A self_ok (bufsize orig);
          (s, orig1) \<leftarrow> jstring_get_string A orig;
          js1 \<leftarrow> jstring_append_2 A js (Some s);
          Some (js1, orig1) }"

definition jstring_equals :: "allocator \<Rightarrow> jstring \<Rightarrow> jstring \<Rightarrow> int option" where
  "jstring_equals A me you =
     do { (a, _) \<leftarrow> jstring_get_string A me; (b, _) \<leftarrow> jstring_get_string A you; strcmp a b }"

subsection \<open>Trimming\<close>

text \<open>
  The first loop counts in the unsigned int \<open>st\<close> and moves the pointer \<open>v\<close> beside it; it wraps
  and never ends on a string of more than 2^32 spaces, where the fuel, one round for every
  character and one more, runs out.
\<close>

fun lead_loop :: "nat \<Rightarrow> u8 list \<Rightarrow> nat \<Rightarrow> nat \<Rightarrow> nat \<Rightarrow> (nat \<times> nat) option" where
  "lead_loop 0 b len st v = None"
| "lead_loop (Suc fuel) b len st v =
     (if st < len
      then do { c \<leftarrow> mem_read b st;
                if isspace c then lead_loop fuel b len ((st + 1) mod 2 ^ 32) (v + 1) else Some (st, v) }
      else Some (st, v))"

fun trail_loop :: "u8 list \<Rightarrow> nat \<Rightarrow> nat \<Rightarrow> nat \<Rightarrow> nat option" where
  "trail_loop b st v 0 = Some 0"
| "trail_loop b st v (Suc len) =
     (if st < Suc len
      then do { c \<leftarrow> mem_read b (v + (Suc len - st - 1)); if isspace c then trail_loop b st v len else Some (Suc len) }
      else Some (Suc len))"

definition jstring_trim :: "jstring \<Rightarrow> jstring option" where
  "jstring_trim js =
     do { b \<leftarrow> jbuf js;
          (st, v) \<leftarrow> lead_loop (jlength js + 1) b (jlength js) 0 0;
          len \<leftarrow> trail_loop b st v (jlength js);
          if st > 0 \<or> len < jlength js then
            do { b1 \<leftarrow> memmove b 0 v (len - st);
                 b2 \<leftarrow> mem_write b1 (len - st) 0;
                 Some (js\<lparr>jlength := len - st, jbuf := Some b2\<rparr>) }
          else Some js }"

subsection \<open>Resetting and output\<close>

text \<open>\<open>want\<close> is whether the caller asks for the old buffer.\<close>

definition jstring_reset :: "allocator \<Rightarrow> jstring \<Rightarrow> bool \<Rightarrow> (status \<times> u8 list option \<times> jstring) option" where
  "jstring_reset A js want =
     (let new = \<lparr>jlength = 0, bufsize = DEFAULTBUFSIZE, jbuf = newCharBuf A DEFAULTBUFSIZE\<rparr> in
      if want then do { (s, _) \<leftarrow> jstring_get_string A js; Some (JXTA_SUCCESS, Some s, new) }
      else do { _ \<leftarrow> jbuf js; Some (JXTA_SUCCESS, None, new) })"

definition jstring_write :: "jstring \<Rightarrow> u8 list option" where
  "jstring_write js = do { b \<leftarrow> jbuf js; mem_load b 0 (jlength js) }"

definition jstring_writefunc_appender ::
  "allocator \<Rightarrow> jstring \<Rightarrow> u8 list option \<Rightarrow> nat \<Rightarrow> (int \<times> status \<times> jstring) option" where
  "jstring_writefunc_appender A js buf len =
     (case buf of
        None \<Rightarrow> Some (-1, JXTA_INVALID_ARGUMENT, js)
      | Some _ \<Rightarrow> do { js1 \<leftarrow> jstring_append_0 A js buf len; Some (sint (word_of_nat len :: 32 word), JXTA_SUCCESS, js1) })"

subsection \<open>The invariant and the text\<close>

definition jstring_ok :: "jstring \<Rightarrow> bool" where
  "jstring_ok js \<longleftrightarrow> (\<exists>b. jbuf js = Some b \<and> length b = bufsize js) \<and> jlength js < bufsize js \<and> bufsize js < 2 ^ 64"

definition jtext :: "jstring \<Rightarrow> u8 list" where
  "jtext js = (case jbuf js of None \<Rightarrow> [] | Some b \<Rightarrow> take (jlength js) b)"

text \<open>An allocator that can provide every size below 2^63.\<close>

definition big_alloc :: "allocator \<Rightarrow> bool" where
  "big_alloc A \<longleftrightarrow> (\<forall>n < 2 ^ 63. can_alloc A n)"

lemma jtext_length: "jstring_ok js \<Longrightarrow> length (jtext js) = jlength js"
  by (auto simp: jstring_ok_def jtext_def)

lemma bufsize_loop_ok:
  assumes "0 < sz" "sz * 2 ^ k > need" "k < fuel" "need < 2 ^ 62" "sz < 2 ^ 63"
  shows "\<exists>sz'. bufsize_loop fuel sz need = Some sz' \<and> sz \<le> sz' \<and> need < sz' \<and>
    sz' \<le> max sz (2 * need)"
  using assms
proof (induction fuel arbitrary: sz k)
  case 0
  then show ?case by simp
next
  case (Suc fuel)
  show ?case
  proof (cases "sz \<le> need")
    case False
    then show ?thesis by simp
  next
    case True
    then have "sz * 2 < 2 ^ 63"
      using Suc.prems by simp
    then have "(sz * 2) mod 2 ^ 64 = sz * 2"
      by simp
    moreover obtain k' where k: "k = Suc k'"
      using True Suc.prems(2) by (cases k) auto
    obtain sz' where "bufsize_loop fuel (sz * 2) need = Some sz'" "sz * 2 \<le> sz'" "need < sz'"
        "sz' \<le> max (sz * 2) (2 * need)"
      using Suc.IH [of "sz * 2" k'] Suc.prems k \<open>sz * 2 < 2 ^ 63\<close> by (auto simp: mult.assoc)
    ultimately show ?thesis
      using True by auto
  qed
qed

lemma append_0_ok:
  assumes ok: "jstring_ok js" and A: "big_alloc A" and len: "n \<le> length s"
    and small: "bufsize js < 2 ^ 62" "jlength js + n + 1 < 2 ^ 61"
  shows "\<exists>js'. jstring_append_0 A js (Some s) n = Some js' \<and> jstring_ok js' \<and> jtext js' = jtext js @ take n s \<and>
    bufsize js' \<le> max (bufsize js) (2 * (jlength js + n + 1))"
proof -
  let ?need = "jlength js + n + 1"
  obtain b where b: "jbuf js = Some b" "length b = bufsize js" "jlength js < bufsize js"
    using ok by (auto simp: jstring_ok_def)
  have "?need < bufsize js * 2 ^ 62"
    using small(2) b(3) by (simp add: order_less_le_trans)
  moreover have "0 < bufsize js" "(62::nat) < 65" "?need < 2 ^ 62" "bufsize js < 2 ^ 63"
    using small b(3) by simp_all
  ultimately obtain sz where sz: "bufsize_loop 65 (bufsize js) ?need = Some sz" "bufsize js \<le> sz" "?need < sz"
      "sz \<le> max (bufsize js) (2 * ?need)"
    using bufsize_loop_ok [of "bufsize js" ?need 62 65] by blast
  have lt: "sz < 2 ^ 63"
    using sz(4) small by (auto simp: max_def split: if_splits)
  define b1 where "b1 = b @ map (fresh_byte A) [length b..<sz]"
  have re: "resizeBuf A (jbuf js) sz = Some b1"
    using A lt b sz(2) by (simp add: resizeBuf_def realloc_def big_alloc_def b1_def)
  have l1: "length b1 = sz"
    using b sz(2) by (simp add: b1_def)
  have t1: "take (jlength js) b1 = jtext js"
    using b by (simp add: b1_def jtext_def)
  let ?b2 = "take (jlength js) b1 @ take n s @ drop (jlength js + n) b1"
  have st: "mem_store b1 (jlength js) (take n s) = Some ?b2"
    using l1 sz(3) len by (simp add: mem_simps min_def)
  have "(jlength js + n + 1) mod 2 ^ 64 = ?need" "(jlength js + n) mod 2 ^ 64 = jlength js + n"
    using small(2) by simp_all
  then have run: "jstring_append_0 A js (Some s) n =
      Some (js\<lparr>jlength := jlength js + n, bufsize := sz, jbuf := Some ?b2\<rparr>)"
    using sz(1) re st len by (simp add: jstring_append_0_def mem_simps)
  have l2: "length ?b2 = sz"
    using l1 sz(3) len b(3) by (simp add: min_def)
  have "take (jlength js + n) ?b2 = jtext js @ take n s"
    using jtext_length [OF ok] t1 len by simp
  then have "jtext (js\<lparr>jlength := jlength js + n, bufsize := sz, jbuf := Some ?b2\<rparr>) = jtext js @ take n s"
    by (simp add: jtext_def)
  moreover have "jstring_ok (js\<lparr>jlength := jlength js + n, bufsize := sz, jbuf := Some ?b2\<rparr>)"
    using l2 sz(3) lt by (simp add: jstring_ok_def)
  ultimately show ?thesis
    using run sz(4) by auto
qed

lemma append_2_ok:
  assumes "jstring_ok js" "big_alloc A" "0 \<in> set cs"
    and "bufsize js < 2 ^ 62" "jlength js + length cs + 1 < 2 ^ 61"
  shows "\<exists>js'. jstring_append_2 A js (Some cs) = Some js' \<and> jstring_ok js' \<and> jtext js' = jtext js @ cstr cs \<and>
    bufsize js' \<le> max (bufsize js) (2 * (jlength js + length (cstr cs) + 1))"
proof -
  have le: "length (cstr cs) \<le> length cs"
    by (simp add: cstr_def length_takeWhile_le)
  have n: "strlen cs = Some (length (cstr cs))"
    using assms(3) by (simp add: strlen_Some cstr_def)
  then have "take (length (cstr cs)) cs = cstr cs"
    using strlen_take by (simp add: cstr_def)
  then show ?thesis
    using append_0_ok [of js A "length (cstr cs)" cs] assms le n by (simp add: jstring_append_2_def)
qed

text \<open>The terminated block of \<open>jstring_get_string\<close>.\<close>

lemma get_string_ok:
  assumes "jstring_ok js"
  shows "\<exists>b. jstring_get_string A js = Some (b, js\<lparr>jbuf := Some b\<rparr>) \<and> length b = bufsize js \<and>
    take (jlength js) b = jtext js \<and> b ! jlength js = 0 \<and> 0 \<in> set b \<and> cstr b = cstr (jtext js)"
proof -
  obtain b where b: "jbuf js = Some b" "length b = bufsize js" "jlength js < length b"
    using assms by (auto simp: jstring_ok_def)
  let ?b = "b[jlength js := 0]"
  have split: "?b = jtext js @ 0 # drop (Suc (jlength js)) b"
    using b by (simp add: take_list_update_drop jtext_def)
  have "cstr ?b = cstr (jtext js)"
    unfolding split by (simp add: cstr_def takeWhile_tail)
  moreover have "0 \<in> set ?b"
    unfolding split by simp
  ultimately show ?thesis
    using b by (auto simp: jstring_get_string_def mem_simps jtext_def)
qed

subsection \<open>Trimming\<close>

definition strip_right :: "u8 list \<Rightarrow> u8 list" where
  "strip_right s = rev (dropWhile isspace (rev s))"

lemma strip_right_snoc: "strip_right (s @ [c]) = (if isspace c then strip_right s else s @ [c])"
  by (simp add: strip_right_def)

lemma strip_right_length: "length (strip_right s) \<le> length s"
  by (metis length_dropWhile_le length_rev strip_right_def)

lemma strip_right_prefix: "take (length (strip_right s)) s = strip_right s"
proof (induction s rule: rev_induct)
  case (snoc c s)
  then show ?case
    using strip_right_length [of s] by (simp add: strip_right_snoc)
qed (simp add: strip_right_def)

lemma lead_loop_ok:
  assumes "len \<le> length b" "len < 2 ^ 32" "st \<le> len" "len - st < fuel"
  shows "lead_loop fuel b len st st =
    (let n = st + length (takeWhile isspace (drop st (take len b))) in Some (n, n))"
  using assms
proof (induction fuel arbitrary: st)
  case 0
  then show ?case by simp
next
  case (Suc fuel)
  show ?case
  proof (cases "st < len")
    case True
    then have d: "drop st (take len b) = b ! st # drop (Suc st) (take len b)"
      using Suc.prems(1) by (simp add: Cons_nth_drop_Suc [symmetric])
    have "(st + 1) mod 2 ^ 32 = Suc st"
      using True Suc.prems(2) by simp
    then show ?thesis
      using True Suc.prems Suc.IH [of "Suc st"] by (simp add: d mem_simps Let_def)
  next
    case False
    then show ?thesis
      using Suc.prems by simp
  qed
qed

lemma trail_loop_ok:
  assumes "len \<le> length b" "st \<le> len"
  shows "trail_loop b st st len = Some (st + length (strip_right (drop st (take len b))))"
  using assms
proof (induction len)
  case 0
  then show ?case by (simp add: strip_right_def)
next
  case (Suc len)
  show ?case
  proof (cases "st < Suc len")
    case True
    have "drop st (take (Suc len) b) = drop st (take len b) @ [b ! len]"
      using True Suc.prems by (simp add: take_Suc_conv_app_nth)
    then show ?thesis
      using True Suc by (auto simp: mem_simps strip_right_snoc)
  next
    case False
    then show ?thesis
      using Suc.prems by (simp add: strip_right_def)
  qed
qed

lemma dropWhile_as_drop: "dropWhile P xs = drop (length (takeWhile P xs)) xs"
  by (metis append_eq_conv_conj takeWhile_dropWhile_id)

lemma jstring_trim_ok:
  assumes ok: "jstring_ok js" and len: "jlength js < 2 ^ 32"
  shows "\<exists>js'. jstring_trim js = Some js' \<and> jtext js' = strip_right (dropWhile isspace (jtext js)) \<and>
    jstring_ok js' \<and> bufsize js' = bufsize js"
proof -
  obtain b where b: "jbuf js = Some b" "length b = bufsize js" "jlength js < length b" "bufsize js < 2 ^ 64"
    using ok by (auto simp: jstring_ok_def)
  let ?t = "take (jlength js) b"
  let ?st = "length (takeWhile isspace ?t)"
  let ?r = "strip_right (drop ?st ?t)"
  have t: "jtext js = ?t"
    by (simp add: jtext_def b(1))
  have st: "?st \<le> jlength js"
    using length_takeWhile_le [of isspace ?t] b(3) by simp
  have rl: "take (length ?r) (drop ?st ?t) = ?r"
    by (rule strip_right_prefix)
  have "length ?r \<le> length (drop ?st ?t)"
    by (rule strip_right_length)
  then have le: "?st + length ?r \<le> jlength js"
    using st b(3) by simp
  have r: "take (length ?r) (drop ?st b) = ?r"
    using rl le by (simp add: drop_take min_def split: if_splits)
  have lead: "lead_loop (jlength js + 1) b (jlength js) 0 0 = Some (?st, ?st)"
    using lead_loop_ok [of "jlength js" b 0 "jlength js + 1"] b(3) len by (simp add: Let_def)
  have trail: "trail_loop b ?st ?st (jlength js) = Some (?st + length ?r)"
    using trail_loop_ok [of "jlength js" b ?st] st b(3) by simp
  show ?thesis
  proof (cases "?st > 0 \<or> ?st + length ?r < jlength js")
    case False
    then have "?r = ?t"
      using r b(3) le by (metis add_0 drop0 not_gr_zero order_antisym_conv linorder_not_less)
    then show ?thesis
      using False lead trail b ok t by (simp add: jstring_trim_def dropWhile_as_drop)
  next
    case True
    let ?b2 = "(?r @ drop (length ?r) b)[length ?r := 0]"
    have "jstring_trim js = Some (js\<lparr>jlength := length ?r, jbuf := Some ?b2\<rparr>)"
      using True lead trail b le r by (simp add: jstring_trim_def mem_simps)
    moreover have "jtext (js\<lparr>jlength := length ?r, jbuf := Some ?b2\<rparr>) = strip_right (dropWhile isspace (jtext js))"
      using t by (simp add: jtext_def dropWhile_as_drop)
    moreover have "jstring_ok (js\<lparr>jlength := length ?r, jbuf := Some ?b2\<rparr>)"
      using b le by (simp add: jstring_ok_def)
    ultimately show ?thesis
      by simp
  qed
qed

subsection \<open>Concatenation\<close>

lemma concat_ok:
  assumes "jstring_ok js" "big_alloc A" "\<forall>cs \<in> set css. 0 \<in> set cs"
    and "bufsize js < 2 ^ 60" "jlength js + sum_list (map length css) + 1 < 2 ^ 58"
  shows "\<exists>js'. jstring_concat A js (map Some css) = Some js' \<and> jstring_ok js' \<and>
    jtext js' = jtext js @ concat (map cstr css)"
  using assms
proof (induction css arbitrary: js)
  case Nil
  then show ?case by simp
next
  case (Cons cs css)
  have le: "length (cstr cs) \<le> length cs"
    by (simp add: cstr_def length_takeWhile_le)
  obtain js1 where js1: "jstring_append_2 A js (Some cs) = Some js1" "jstring_ok js1" "jtext js1 = jtext js @ cstr cs"
      "bufsize js1 \<le> max (bufsize js) (2 * (jlength js + length (cstr cs) + 1))"
    using append_2_ok [of js A cs] Cons.prems by auto
  have l1: "jlength js1 = jlength js + length (cstr cs)"
    using jtext_length [OF js1(2)] jtext_length [OF Cons.prems(1)] js1(3) by simp
  have small: "bufsize js1 < 2 ^ 60" "jlength js1 + sum_list (map length css) + 1 < 2 ^ 58"
    using js1(4) l1 le Cons.prems(4,5) by (auto simp: max_def split: if_splits)
  obtain js' where "jstring_concat A js1 (map Some css) = Some js'" "jstring_ok js'"
      "jtext js' = jtext js1 @ concat (map cstr css)"
    using Cons.IH [OF js1(2) Cons.prems(2) _ small] Cons.prems(3) by auto
  then show ?case
    using js1(1,3) by simp
qed

lemma new_1_ok:
  assumes "big_alloc A" "n < 2 ^ 62"
  shows "\<exists>js. jstring_new_1 A True n = Some js \<and> jstring_ok js \<and> jtext js = [] \<and> jlength js = 0 \<and> bufsize js \<le> n + 128"
proof -
  have "can_alloc A (n + 1)" "can_alloc A 128"
    using assms by (simp_all add: big_alloc_def)
  then show ?thesis
    using assms(2) by (simp add: jstring_new_1_def newCharBuf_def jstring_ok_def jtext_def DEFAULTBUFSIZE_def Let_def)
qed

text \<open>A string with the bytes of a text and a buffer of a given size, for the examples.\<close>

definition jstr :: "u8 list \<Rightarrow> nat \<Rightarrow> jstring" where
  "jstr t n = \<lparr>jlength = length t, bufsize = n, jbuf = Some (t @ replicate (n - length t) 0)\<rparr>"

lemma jstr_ok: "length t < n \<Longrightarrow> n < 2 ^ 64 \<Longrightarrow> jstring_ok (jstr t n) \<and> jtext (jstr t n) = t"
  by (simp add: jstr_def jstring_ok_def jtext_def)

definition any_alloc :: allocator where
  "any_alloc = \<lparr>can_alloc = (\<lambda>_. True), fresh_byte = (\<lambda>_. 205)\<rparr>"

lemma any_alloc_big: "big_alloc any_alloc"
  by (simp add: big_alloc_def any_alloc_def)

subsection \<open>Properties\<close>

text \<open>
  Concatenation.  \<open>jstring_concat\<close> on a sound string and C strings (blocks with a zero
  byte) of ordinary length returns: the doubling of the buffer ends, no access leaves a
  block, and the text is the old text followed by each argument up to its first zero, in
  order; the result is sound again.
\<close>

theorem jstring_concat_appends:
  assumes "jstring_ok js" "big_alloc A" "\<forall>cs \<in> set css. 0 \<in> set cs"
    and "bufsize js < 2 ^ 60" "jlength js + sum_list (map length css) + 1 < 2 ^ 58"
  shows "\<exists>js'. jstring_concat A js (map Some css) = Some js' \<and> jstring_ok js' \<and>
    jtext js' = jtext js @ concat (map (takeWhile (\<lambda>c. c \<noteq> 0)) css)"
  using concat_ok [OF assms] by (simp add: cstr_def [abs_def])

theorem jstring_concat_appends_witness:
  "\<exists>js'. jstring_concat any_alloc (jstr [65] 2) (map Some [[66, 0, 67], [68, 69, 0]]) = Some js' \<and> jstring_ok js' \<and>
    jtext js' = [65, 66, 68, 69]"
  using jstring_concat_appends [of "jstr [65] 2" any_alloc "[[66, 0, 67], [68, 69, 0]]"]
  by (simp add: jstr_ok any_alloc_big) (simp add: jstr_def)

text \<open>
  Trimming.  \<open>jstring_trim\<close> on a sound string shorter than 2^32 returns, stays inside the
  buffer, keeps the string sound, and leaves exactly the text without the white space of
  \<open>isspace\<close> at both ends.
\<close>

theorem jstring_trim_strips:
  assumes "jstring_ok js" "jlength js < 2 ^ 32"
  shows "\<exists>js'. jstring_trim js = Some js' \<and> jstring_ok js' \<and> bufsize js' = bufsize js \<and>
    jtext js' = rev (dropWhile isspace (rev (dropWhile isspace (jtext js))))"
  using jstring_trim_ok [OF assms] by (auto simp: strip_right_def)

theorem jstring_trim_strips_witness:
  "\<exists>js'. jstring_trim (jstr [32, 9, 65, 32, 66, 10] 8) = Some js' \<and> jstring_ok js' \<and> bufsize js' = 8 \<and>
    jtext js' = [65, 32, 66]"
  using jstring_trim_strips [of "jstr [32, 9, 65, 32, 66, 10] 8"]
  by (simp add: jstr_ok) (simp add: jstr_def isspace_def)

text \<open>
  Cloning and comparing.  \<open>jstring_clone\<close> gives a sound string whose text is the text of
  the original up to its first zero byte, and keeps the text of the original;
  \<open>jstring_equals\<close> compares two strings in the way of \<open>strcmp\<close>: its result is 0 exactly when
  the texts agree up to their first zero byte.
\<close>

theorem jstring_clone_equals:
  assumes "jstring_ok js" "big_alloc A" "bufsize js < 2 ^ 59" "jstring_ok you"
  shows "(\<exists>copy js'. jstring_clone A True js = Some (copy, js') \<and> jstring_ok copy \<and> jtext js' = jtext js \<and>
      jtext copy = takeWhile (\<lambda>c. c \<noteq> 0) (jtext js)) \<and>
    (\<exists>r. jstring_equals A js you = Some r \<and>
      (r = 0 \<longleftrightarrow> takeWhile (\<lambda>c. c \<noteq> 0) (jtext js) = takeWhile (\<lambda>c. c \<noteq> 0) (jtext you)))"
proof -
  obtain b where b: "jstring_get_string A js = Some (b, js\<lparr>jbuf := Some b\<rparr>)" "length b = bufsize js"
      "take (jlength js) b = jtext js" "0 \<in> set b" "cstr b = cstr (jtext js)"
    using get_string_ok [OF assms(1)] by blast
  obtain c where c: "jstring_get_string A you = Some (c, you\<lparr>jbuf := Some c\<rparr>)" "0 \<in> set c" "cstr c = cstr (jtext you)"
    using get_string_ok [OF assms(4)] by blast
  obtain n where n: "jstring_new_1 A True (bufsize js) = Some n" "jstring_ok n" "jtext n = []" "jlength n = 0"
      "bufsize n \<le> bufsize js + 128"
    using new_1_ok [OF assms(2), of "bufsize js"] assms(3) by auto
  have "bufsize n < 2 ^ 62" "jlength n + length b + 1 < 2 ^ 61"
    using n(4,5) b(2) assms(3) by auto
  from append_2_ok [OF n(2) assms(2) b(4) this]
  obtain copy where "jstring_append_2 A n (Some b) = Some copy" "jstring_ok copy" "jtext copy = cstr b"
    using n(3) by auto
  then have "jstring_clone A True js = Some (copy, js\<lparr>jbuf := Some b\<rparr>) \<and> jstring_ok copy \<and>
      jtext (js\<lparr>jbuf := Some b\<rparr>) = jtext js \<and> jtext copy = cstr (jtext js)"
    using b n(1) by (simp add: jstring_clone_def jtext_def)
  moreover obtain r where "jstring_equals A js you = Some r" "r = 0 \<longleftrightarrow> cstr (jtext js) = cstr (jtext you)"
    using strcmp_ok [OF b(4) c(2)] b c by (auto simp: jstring_equals_def)
  ultimately show ?thesis
    by (auto simp: cstr_def)
qed

theorem jstring_clone_equals_witness:
  "(\<exists>copy js'. jstring_clone any_alloc True (jstr [65, 0, 66] 4) = Some (copy, js') \<and> jstring_ok copy \<and>
      jtext js' = [65, 0, 66] \<and> jtext copy = [65]) \<and>
    (\<exists>r. jstring_equals any_alloc (jstr [65, 0, 66] 4) (jstr [65] 2) = Some r \<and> r = 0)"
  using jstring_clone_equals [of "jstr [65, 0, 66] 4" any_alloc "jstr [65] 2"]
  by (simp add: jstr_ok any_alloc_big) (simp add: jstr_def)

end
