(* ===== verification/JxtaId.thy ===== *)
theory JxtaId
  imports CString ObjectHashTable
begin

section \<open>JXTA identifiers (src/src/jxta_id.c, jxta_id_uuid.c, jxta_id_jxta.c)\<close>

text \<open>
  An identifier is an immutable object of one of two formats: 64 bytes of the \<open>uuid\<close> format,
  or a unique text of the \<open>jxta\<close> format, which is either one of the three static well-known
  objects or a dynamic object.  Functions with the same name in the two format files carry
  the prefix \<open>uuid_\<close> or \<open>jxta_\<close> here; \<open>id_vtable\<close> is the table of functions each format
  exports and the operations of \<open>jxta_id.c\<close> go through it.  References to identifiers and the
  strings built are not counted here; a string object is its text.

  \<open>malloc\<close> and \<open>apr_uuid_get\<close> are the parameters \<open>id_world\<close>.  A result is \<open>None\<close> where the code
  accesses memory outside of an array; otherwise it is the status and the identifier, if the
  operation assigned one.
\<close>

datatype well_known = NullID | WorldNetPeerGroupID | DefaultNetPeerGroupID

datatype jxta_id = IdUuid "u8 list" | IdStatic well_known | IdJxta "u8 list"

datatype id_format = Uuid_format | Jxta_format

record id_world =
  id_alloc :: bool
  id_uuid :: "u8 list"

type_synonym id_result = "(status \<times> jxta_id option) option"

definition formatter :: "jxta_id \<Rightarrow> id_format" where
  "formatter i = (case i of IdUuid _ \<Rightarrow> Uuid_format | _ \<Rightarrow> Jxta_format)"

subsection \<open>The jxta format\<close>

definition well_known_value :: "well_known \<Rightarrow> u8 list" where
  "well_known_value w =
     (case w of NullID \<Rightarrow> str ''Null'' | WorldNetPeerGroupID \<Rightarrow> str ''WorldGroup''
      | DefaultNetPeerGroupID \<Rightarrow> str ''NetGroup'')"

definition uniquevalue :: "jxta_id \<Rightarrow> u8 list" where
  "uniquevalue i = (case i of IdStatic w \<Rightarrow> well_known_value w | IdJxta v \<Rightarrow> v | IdUuid _ \<Rightarrow> [])"

definition wellKnownIds :: "jxta_id list" where
  "wellKnownIds = [IdStatic NullID, IdStatic WorldNetPeerGroupID, IdStatic DefaultNetPeerGroupID]"

definition jxta_equals :: "jxta_id \<Rightarrow> jxta_id \<Rightarrow> bool" where
  "jxta_equals i j \<longleftrightarrow>
     i = j \<or> (formatter i = formatter j \<and> formatter i = Jxta_format \<and> uniquevalue i = uniquevalue j)"

fun jxta_well_known_loop :: "jxta_id list \<Rightarrow> jxta_id \<Rightarrow> jxta_id" where
  "jxta_well_known_loop [] i = i"
| "jxta_well_known_loop (w # ws) i = (if jxta_equals w i then w else jxta_well_known_loop ws i)"

definition jxta_translateToWellKnown :: "jxta_id \<Rightarrow> jxta_id" where
  "jxta_translateToWellKnown i = jxta_well_known_loop wellKnownIds i"

text \<open>\<open>strncpy\<close> stops at a zero byte.\<close>

definition jxta_new_from_str :: "id_world \<Rightarrow> u8 list option \<Rightarrow> nat \<Rightarrow> id_result" where
  "jxta_new_from_str E s len =
     (case s of
        None \<Rightarrow> Some (JXTA_INVALID_ARGUMENT, None)
      | Some t \<Rightarrow>
          if \<not> id_alloc E then Some (JXTA_NOMEM, None)
          else do { v \<leftarrow> mem_load t 0 len;
                    Some (JXTA_SUCCESS, Some (jxta_translateToWellKnown (IdJxta (cstr v)))) })"

definition jxta_getUniqueportion :: "jxta_id \<Rightarrow> status \<times> u8 list" where
  "jxta_getUniqueportion i = (JXTA_SUCCESS, str ''jxta'' @ str ''-'' @ uniquevalue i)"

definition jxta_hashcode :: "jxta_id \<Rightarrow> u32" where
  "jxta_hashcode i = jxta_objecthashtable_simplehash (uniquevalue i)"

text \<open>All constructors of the jxta format return \<open>JXTA_NOTIMP\<close>.\<close>

definition jxta_newPeergroupid1 :: "id_world \<Rightarrow> id_result" where
  "jxta_newPeergroupid1 E = Some (JXTA_NOTIMP, None)"

definition jxta_newPeergroupid2 :: "id_world \<Rightarrow> u8 list \<Rightarrow> nat \<Rightarrow> id_result" where
  "jxta_newPeergroupid2 E seed len = Some (JXTA_NOTIMP, None)"

definition jxta_newPeerid1 :: "id_world \<Rightarrow> jxta_id \<Rightarrow> id_result" where
  "jxta_newPeerid1 E pg = Some (JXTA_NOTIMP, None)"

definition jxta_newPeerid2 :: "id_world \<Rightarrow> jxta_id \<Rightarrow> u8 list \<Rightarrow> nat \<Rightarrow> id_result" where
  "jxta_newPeerid2 E pg seed len = Some (JXTA_NOTIMP, None)"

definition jxta_newCodatid1 :: "id_world \<Rightarrow> jxta_id \<Rightarrow> id_result" where
  "jxta_newCodatid1 E pg = Some (JXTA_NOTIMP, None)"

definition jxta_newCodatid2 :: "id_world \<Rightarrow> jxta_id \<Rightarrow> id_result" where
  "jxta_newCodatid2 E pg = Some (JXTA_NOTIMP, None)"

definition jxta_newPipeid1 :: "id_world \<Rightarrow> jxta_id \<Rightarrow> id_result" where
  "jxta_newPipeid1 E pg = Some (JXTA_NOTIMP, None)"

definition jxta_newPipeid2 :: "id_world \<Rightarrow> jxta_id \<Rightarrow> u8 list \<Rightarrow> nat \<Rightarrow> id_result" where
  "jxta_newPipeid2 E pg seed len = Some (JXTA_NOTIMP, None)"

definition jxta_newModuleclassid1 :: "id_world \<Rightarrow> id_result" where
  "jxta_newModuleclassid1 E = Some (JXTA_NOTIMP, None)"

definition jxta_newModuleclassid2 :: "id_world \<Rightarrow> jxta_id \<Rightarrow> id_result" where
  "jxta_newModuleclassid2 E base = Some (JXTA_NOTIMP, None)"

definition jxta_newModulespecid :: "id_world \<Rightarrow> jxta_id \<Rightarrow> id_result" where
  "jxta_newModulespecid E mcid = Some (JXTA_NOTIMP, None)"

subsection \<open>The uuid format: layout\<close>

definition IDBYTEARRAYSIZE :: nat where "IDBYTEARRAYSIZE = 64"
definition UUIDSIZE :: nat where "UUIDSIZE = 16"
definition FLAGSIZE :: nat where "FLAGSIZE = 1"
definition FLAGSOFFSET :: nat where "FLAGSOFFSET = IDBYTEARRAYSIZE - FLAGSIZE"

definition FLAGCODATID :: u8 where "FLAGCODATID = 1"
definition FLAGPEERGROUPID :: u8 where "FLAGPEERGROUPID = 2"
definition FLAGPEERID :: u8 where "FLAGPEERID = 3"
definition FLAGPIPEID :: u8 where "FLAGPIPEID = 4"
definition FLAGMODULECLASSID :: u8 where "FLAGMODULECLASSID = 5"
definition FLAGMODULESPECID :: u8 where "FLAGMODULESPECID = 6"

lemmas uuid_layout =
  IDBYTEARRAYSIZE_def UUIDSIZE_def FLAGSIZE_def FLAGSOFFSET_def FLAGCODATID_def FLAGPEERGROUPID_def
  FLAGPEERID_def FLAGPIPEID_def FLAGMODULECLASSID_def FLAGMODULESPECID_def

definition worldPeerGroupID :: "u8 list" where
  "worldPeerGroupID =
     [0x59, 0x61, 0x62, 0x61, 0x64, 0x61, 0x62, 0x61, 0x4A, 0x78, 0x74, 0x61, 0x50, 0x32, 0x50, 0x33,
      0x00, 0x00, 0x00, 0x00, 0x00, 0x00, 0x00, 0x00, 0x00, 0x00, 0x00, 0x00, 0x00, 0x00, 0x00, 0x00,
      0x00, 0x00, 0x00, 0x00, 0x00, 0x00, 0x00, 0x00, 0x00, 0x00, 0x00, 0x00, 0x00, 0x00, 0x00, 0x00,
      0x00, 0x00, 0x00, 0x00, 0x00, 0x00, 0x00, 0x00, 0x00, 0x00, 0x00, 0x00, 0x00, 0x00, 0x00, 0x02]"

definition defaultNetPeerGroupID :: "u8 list" where
  "defaultNetPeerGroupID =
     [0x59, 0x61, 0x62, 0x61, 0x64, 0x61, 0x62, 0x61, 0x4E, 0x50, 0x47, 0x20, 0x50, 0x32, 0x50, 0x33,
      0x00, 0x00, 0x00, 0x00, 0x00, 0x00, 0x00, 0x00, 0x00, 0x00, 0x00, 0x00, 0x00, 0x00, 0x00, 0x00,
      0x00, 0x00, 0x00, 0x00, 0x00, 0x00, 0x00, 0x00, 0x00, 0x00, 0x00, 0x00, 0x00, 0x00, 0x00, 0x00,
      0x00, 0x00, 0x00, 0x00, 0x00, 0x00, 0x00, 0x00, 0x00, 0x00, 0x00, 0x00, 0x00, 0x00, 0x00, 0x02]"

definition translateTbl :: "(jxta_id \<times> jxta_id) list" where
  "translateTbl =
     [(IdUuid defaultNetPeerGroupID, IdStatic DefaultNetPeerGroupID),
      (IdUuid worldPeerGroupID, IdStatic WorldNetPeerGroupID)]"

text \<open>
  The comparison of the uuid format reads both objects as uuid objects.  Two objects of the
  jxta format are compared by the address of their unique text, which is where the data of
  a uuid object begins: they are equal for the same static object, and a dynamic object
  never equals a static one.  (Two dynamic objects are never compared by it.)
\<close>

definition uuid_equals :: "jxta_id \<Rightarrow> jxta_id \<Rightarrow> bool" where
  "uuid_equals i j =
     (case (i, j) of (IdUuid a, IdUuid b) \<Rightarrow> a = b | (IdStatic v, IdStatic w) \<Rightarrow> v = w | _ \<Rightarrow> False)"

fun uuid_translate_loop :: "(jxta_id \<times> jxta_id) list \<Rightarrow> jxta_id \<Rightarrow> jxta_id" where
  "uuid_translate_loop [] i = i"
| "uuid_translate_loop ((from, to) # ps) i = (if uuid_equals from i then to else uuid_translate_loop ps i)"

definition uuid_translateToWellKnown :: "jxta_id \<Rightarrow> jxta_id" where
  "uuid_translateToWellKnown i = uuid_translate_loop translateTbl i"

definition uuid_translateFromWellKnown :: "jxta_id \<Rightarrow> jxta_id" where
  "uuid_translateFromWellKnown i = uuid_translate_loop (map prod.swap translateTbl) i"

subsection \<open>The uuid format: constructors\<close>

text \<open>The cleared data of a new identifier with its type.\<close>

definition uuid_blank :: "u8 \<Rightarrow> u8 list" where
  "uuid_blank flag = (replicate IDBYTEARRAYSIZE 0)[FLAGSOFFSET := flag]"

text \<open>Version 4, IETF variant and multicast bit of the uuid at an offset.\<close>

definition uuid_version :: "nat \<Rightarrow> u8 list \<Rightarrow> u8 list" where
  "uuid_version off d =
     (let d1 = d[off + 6 := (d ! (off + 6) AND 0x0F) OR 0x40];
          d2 = d1[off + 8 := (d1 ! (off + 8) AND 0x3F) OR 0x80]
      in d2[off + 10 := (d2 ! (off + 10) AND 0x3F) OR 0x80])"

definition uuid_data :: "jxta_id \<Rightarrow> u8 list option" where
  "uuid_data i = (case i of IdUuid d \<Rightarrow> Some d | _ \<Rightarrow> None)"

definition uuid_newPeergroupid2 :: "id_world \<Rightarrow> u8 list \<Rightarrow> nat \<Rightarrow> id_result" where
  "uuid_newPeergroupid2 E seed len =
     (if \<not> id_alloc E then Some (JXTA_NOMEM, None)
      else do {
        bytes \<leftarrow> mem_load seed 0 (if len > UUIDSIZE then UUIDSIZE else len);
        d \<leftarrow> mem_store (uuid_blank FLAGPEERGROUPID) 0 bytes;
        Some (JXTA_SUCCESS, Some (IdUuid (uuid_version 0 d))) })"

definition uuid_newPeergroupid1 :: "id_world \<Rightarrow> id_result" where
  "uuid_newPeergroupid1 E =
     (if length (id_uuid E) \<noteq> UUIDSIZE then Some (JXTA_FAILED, None)
      else uuid_newPeergroupid2 E (id_uuid E) UUIDSIZE)"

definition uuid_newPeerid2 :: "id_world \<Rightarrow> jxta_id \<Rightarrow> u8 list \<Rightarrow> nat \<Rightarrow> id_result" where
  "uuid_newPeerid2 E pg seed len =
     (case uuid_data (uuid_translateFromWellKnown pg) of
        None \<Rightarrow> Some (JXTA_INVALID_ARGUMENT, None)
      | Some g \<Rightarrow>
          if \<not> id_alloc E then Some (JXTA_NOMEM, None)
          else do {
            group \<leftarrow> mem_load g 0 UUIDSIZE;
            d1 \<leftarrow> mem_store (uuid_blank FLAGPEERID) 0 group;
            bytes \<leftarrow> mem_load seed 0 (if len > UUIDSIZE then UUIDSIZE else len);
            d2 \<leftarrow> mem_store d1 UUIDSIZE bytes;
            Some (JXTA_SUCCESS, Some (IdUuid (uuid_version UUIDSIZE d2))) })"

definition uuid_newPeerid1 :: "id_world \<Rightarrow> jxta_id \<Rightarrow> id_result" where
  "uuid_newPeerid1 E pg =
     (if length (id_uuid E) \<noteq> UUIDSIZE then Some (JXTA_FAILED, None)
      else uuid_newPeerid2 E pg (id_uuid E) UUIDSIZE)"

definition uuid_newCodatid1 :: "id_world \<Rightarrow> jxta_id \<Rightarrow> id_result" where
  "uuid_newCodatid1 E pg =
     (case uuid_data (uuid_translateFromWellKnown pg) of
        None \<Rightarrow> Some (JXTA_INVALID_ARGUMENT, None)
      | Some g \<Rightarrow>
          if \<not> id_alloc E then Some (JXTA_NOMEM, None)
          else do {
            group \<leftarrow> mem_load g 0 UUIDSIZE;
            d1 \<leftarrow> mem_store (uuid_blank FLAGCODATID) 0 group;
            if length (id_uuid E) \<noteq> UUIDSIZE then Some (JXTA_FAILED, None)
            else do { d2 \<leftarrow> mem_store d1 UUIDSIZE (id_uuid E); Some (JXTA_SUCCESS, Some (IdUuid d2)) } })"

definition uuid_newCodatid2 :: "id_world \<Rightarrow> jxta_id \<Rightarrow> id_result" where
  "uuid_newCodatid2 E pg = Some (JXTA_NOTIMP, None)"

definition uuid_newPipeid2 :: "id_world \<Rightarrow> jxta_id \<Rightarrow> u8 list \<Rightarrow> nat \<Rightarrow> id_result" where
  "uuid_newPipeid2 E pg seed len =
     (case uuid_data (uuid_translateFromWellKnown pg) of
        None \<Rightarrow> Some (JXTA_INVALID_ARGUMENT, None)
      | Some g \<Rightarrow>
          if \<not> id_alloc E then Some (JXTA_NOMEM, None)
          else do {
            group \<leftarrow> mem_load g 0 UUIDSIZE;
            d1 \<leftarrow> mem_store (uuid_blank FLAGPIPEID) 0 group;
            bytes \<leftarrow> mem_load seed 0 (if len > UUIDSIZE then UUIDSIZE else len);
            d2 \<leftarrow> mem_store d1 UUIDSIZE bytes;
            Some (JXTA_SUCCESS, Some (IdUuid (uuid_version UUIDSIZE d2))) })"

definition uuid_newPipeid1 :: "id_world \<Rightarrow> jxta_id \<Rightarrow> id_result" where
  "uuid_newPipeid1 E pg =
     (if length (id_uuid E) \<noteq> UUIDSIZE then Some (JXTA_FAILED, None)
      else uuid_newPipeid2 E pg (id_uuid E) UUIDSIZE)"

definition uuid_newModuleclassid1 :: "id_world \<Rightarrow> id_result" where
  "uuid_newModuleclassid1 E =
     (if \<not> id_alloc E then Some (JXTA_NOMEM, None)
      else if length (id_uuid E) \<noteq> UUIDSIZE then Some (JXTA_FAILED, None)
      else do { d \<leftarrow> mem_store (uuid_blank FLAGMODULECLASSID) 0 (id_uuid E);
                Some (JXTA_SUCCESS, Some (IdUuid d)) })"

definition uuid_newModuleclassid2 :: "id_world \<Rightarrow> jxta_id \<Rightarrow> id_result" where
  "uuid_newModuleclassid2 E base =
     (case uuid_data base of
        None \<Rightarrow> Some (JXTA_INVALID_ARGUMENT, None)
      | Some b \<Rightarrow>
          if \<not> id_alloc E then Some (JXTA_NOMEM, None)
          else do {
            cls \<leftarrow> mem_load b 0 UUIDSIZE;
            d1 \<leftarrow> mem_store (uuid_blank FLAGMODULECLASSID) 0 cls;
            if length (id_uuid E) \<noteq> UUIDSIZE then Some (JXTA_FAILED, None)
            else do { d2 \<leftarrow> mem_store d1 UUIDSIZE (id_uuid E); Some (JXTA_SUCCESS, Some (IdUuid d2)) } })"

definition uuid_newModulespecid :: "id_world \<Rightarrow> jxta_id \<Rightarrow> id_result" where
  "uuid_newModulespecid E mcid =
     (case uuid_data mcid of
        None \<Rightarrow> Some (JXTA_INVALID_ARGUMENT, None)
      | Some b \<Rightarrow>
          if \<not> id_alloc E then Some (JXTA_NOMEM, None)
          else do {
            cls \<leftarrow> mem_load b 0 UUIDSIZE;
            d1 \<leftarrow> mem_store (uuid_blank FLAGMODULESPECID) 0 cls;
            if length (id_uuid E) \<noteq> UUIDSIZE then Some (JXTA_FAILED, None)
            else do { d2 \<leftarrow> mem_store d1 UUIDSIZE (id_uuid E); Some (JXTA_SUCCESS, Some (IdUuid d2)) } })"

subsection \<open>The uuid format: parsing and printing\<close>

text \<open>The loop over all bytes but the flags: byte \<open>i\<close> and \<open>n\<close> more to come.\<close>

fun uuid_bytes_loop :: "u8 list \<Rightarrow> nat \<Rightarrow> nat \<Rightarrow> u8 list \<Rightarrow> u8 list option" where
  "uuid_bytes_loop s i 0 d = Some d"
| "uuid_bytes_loop s i (Suc n) d =
     do { a \<leftarrow> mem_read s (2 * i);
          b \<leftarrow> mem_read s (2 * i + 1);
          d1 \<leftarrow> mem_write d i (ucast (strtoul16 [a, b, 0]));
          uuid_bytes_loop s (i + 1) n d1 }"

definition uuid_new_from_str :: "id_world \<Rightarrow> u8 list option \<Rightarrow> nat \<Rightarrow> id_result" where
  "uuid_new_from_str E s len =
     (case s of
        None \<Rightarrow> Some (JXTA_INVALID_ARGUMENT, None)
      | Some t \<Rightarrow>
          if len < 2 * FLAGSIZE \<or> len mod 2 \<noteq> 0 then Some (JXTA_INVALID_ARGUMENT, None)
          else if \<not> id_alloc E then Some (JXTA_NOMEM, None)
          else do {
            d1 \<leftarrow> uuid_bytes_loop t 0 (len div 2 - FLAGSIZE) (replicate IDBYTEARRAYSIZE 0);
            a \<leftarrow> mem_read t (len - 2);
            b \<leftarrow> mem_read t (len - 1);
            d2 \<leftarrow> mem_write d1 FLAGSOFFSET (ucast (strtoul16 [a, b, 0]));
            Some (JXTA_SUCCESS, Some (uuid_translateToWellKnown (IdUuid d2))) })"

fun lastByte :: "u8 list \<Rightarrow> nat \<Rightarrow> nat" where
  "lastByte d 0 = 0"
| "lastByte d (Suc n) = (if d ! Suc n \<noteq> 0 then Suc n else lastByte d n)"

definition uuid_text :: "u8 list \<Rightarrow> u8 list" where
  "uuid_text d =
     concat (map print_02X (take (lastByte d (FLAGSOFFSET - 1) + 1) d)) @ print_02X (d ! FLAGSOFFSET)"

definition uuid_getUniqueportion :: "jxta_id \<Rightarrow> status \<times> u8 list" where
  "uuid_getUniqueportion i =
     (let j = uuid_translateToWellKnown i in
      case j of IdUuid d \<Rightarrow> (JXTA_SUCCESS, str ''uuid'' @ str ''-'' @ uuid_text d) | _ \<Rightarrow> jxta_getUniqueportion j)"

definition uuid_hashcode :: "jxta_id \<Rightarrow> u32" where
  "uuid_hashcode i = (case i of IdUuid d \<Rightarrow> jxta_objecthashtable_simplehash d | _ \<Rightarrow> 0)"

subsection \<open>The formats\<close>

record id_vtable =
  fmt :: "u8 list"
  fmt_newPeergroupid1 :: "id_world \<Rightarrow> id_result"
  fmt_newPeergroupid2 :: "id_world \<Rightarrow> u8 list \<Rightarrow> nat \<Rightarrow> id_result"
  fmt_newPeerid1 :: "id_world \<Rightarrow> jxta_id \<Rightarrow> id_result"
  fmt_newPeerid2 :: "id_world \<Rightarrow> jxta_id \<Rightarrow> u8 list \<Rightarrow> nat \<Rightarrow> id_result"
  fmt_newCodatid1 :: "id_world \<Rightarrow> jxta_id \<Rightarrow> id_result"
  fmt_newCodatid2 :: "id_world \<Rightarrow> jxta_id \<Rightarrow> id_result"
  fmt_newPipeid1 :: "id_world \<Rightarrow> jxta_id \<Rightarrow> id_result"
  fmt_newPipeid2 :: "id_world \<Rightarrow> jxta_id \<Rightarrow> u8 list \<Rightarrow> nat \<Rightarrow> id_result"
  fmt_newModuleclassid1 :: "id_world \<Rightarrow> id_result"
  fmt_newModuleclassid2 :: "id_world \<Rightarrow> jxta_id \<Rightarrow> id_result"
  fmt_newModulespecid :: "id_world \<Rightarrow> jxta_id \<Rightarrow> id_result"
  fmt_from_str :: "id_world \<Rightarrow> u8 list option \<Rightarrow> nat \<Rightarrow> id_result"
  fmt_getUniqueportion :: "jxta_id \<Rightarrow> status \<times> u8 list"
  fmt_equals :: "jxta_id \<Rightarrow> jxta_id \<Rightarrow> bool"
  fmt_hashcode :: "jxta_id \<Rightarrow> u32"

definition uuid_format :: id_vtable where
  "uuid_format =
     \<lparr>fmt = str ''uuid'',
      fmt_newPeergroupid1 = uuid_newPeergroupid1, fmt_newPeergroupid2 = uuid_newPeergroupid2,
      fmt_newPeerid1 = uuid_newPeerid1, fmt_newPeerid2 = uuid_newPeerid2,
      fmt_newCodatid1 = uuid_newCodatid1, fmt_newCodatid2 = uuid_newCodatid2,
      fmt_newPipeid1 = uuid_newPipeid1, fmt_newPipeid2 = uuid_newPipeid2,
      fmt_newModuleclassid1 = uuid_newModuleclassid1, fmt_newModuleclassid2 = uuid_newModuleclassid2,
      fmt_newModulespecid = uuid_newModulespecid, fmt_from_str = uuid_new_from_str,
      fmt_getUniqueportion = uuid_getUniqueportion, fmt_equals = uuid_equals, fmt_hashcode = uuid_hashcode\<rparr>"

definition jxta_format :: id_vtable where
  "jxta_format =
     \<lparr>fmt = str ''jxta'',
      fmt_newPeergroupid1 = jxta_newPeergroupid1, fmt_newPeergroupid2 = jxta_newPeergroupid2,
      fmt_newPeerid1 = jxta_newPeerid1, fmt_newPeerid2 = jxta_newPeerid2,
      fmt_newCodatid1 = jxta_newCodatid1, fmt_newCodatid2 = jxta_newCodatid2,
      fmt_newPipeid1 = jxta_newPipeid1, fmt_newPipeid2 = jxta_newPipeid2,
      fmt_newModuleclassid1 = jxta_newModuleclassid1, fmt_newModuleclassid2 = jxta_newModuleclassid2,
      fmt_newModulespecid = jxta_newModulespecid, fmt_from_str = jxta_new_from_str,
      fmt_getUniqueportion = jxta_getUniqueportion, fmt_equals = jxta_equals, fmt_hashcode = jxta_hashcode\<rparr>"

definition format_of :: "id_format \<Rightarrow> id_vtable" where
  "format_of f = (case f of Uuid_format \<Rightarrow> uuid_format | Jxta_format \<Rightarrow> jxta_format)"

lemmas id_formats = format_of_def uuid_format_def jxta_format_def

definition newInstances :: id_format where
  "newInstances = Uuid_format"

definition idformats :: "id_format list" where
  "idformats = [Uuid_format, Jxta_format]"

subsection \<open>The operations of jxta\_id.c\<close>

text \<open>\<open>None\<close> as an argument stands for a null pointer or an invalid object.\<close>

definition invalid :: id_result where
  "invalid = Some (JXTA_INVALID_ARGUMENT, None)"

definition jxta_id_get_default_id_format :: "u8 list" where
  "jxta_id_get_default_id_format = fmt (format_of newInstances)"

definition jxta_id_get_id_formats :: "u8 list list" where
  "jxta_id_get_id_formats = map (\<lambda>f. fmt (format_of f)) idformats"

text \<open>The format that makes an identifier of a group: that of the group, or the default.\<close>

definition maker :: "jxta_id \<Rightarrow> id_vtable" where
  "maker pg = format_of (if formatter pg = Jxta_format then newInstances else formatter pg)"

definition jxta_id_peergroupid_new_1 :: "id_world \<Rightarrow> id_result" where
  "jxta_id_peergroupid_new_1 E = fmt_newPeergroupid1 (format_of newInstances) E"

definition jxta_id_peergroupid_new_2 :: "id_world \<Rightarrow> u8 list option \<Rightarrow> nat \<Rightarrow> id_result" where
  "jxta_id_peergroupid_new_2 E seed len =
     (case seed of None \<Rightarrow> invalid
      | Some s \<Rightarrow> if len < 4 then invalid else fmt_newPeergroupid2 (format_of newInstances) E s len)"

definition jxta_id_peerid_new_1 :: "id_world \<Rightarrow> jxta_id option \<Rightarrow> id_result" where
  "jxta_id_peerid_new_1 E pg = (case pg of None \<Rightarrow> invalid | Some g \<Rightarrow> fmt_newPeerid1 (maker g) E g)"

definition jxta_id_peerid_new_2 :: "id_world \<Rightarrow> jxta_id option \<Rightarrow> u8 list option \<Rightarrow> nat \<Rightarrow> id_result" where
  "jxta_id_peerid_new_2 E pg seed len =
     (case pg of None \<Rightarrow> invalid
      | Some g \<Rightarrow> (case seed of None \<Rightarrow> invalid
                 | Some s \<Rightarrow> if len < 4 then invalid else fmt_newPeerid2 (maker g) E g s len))"

definition jxta_id_codatid_new_1 :: "id_world \<Rightarrow> jxta_id option \<Rightarrow> id_result" where
  "jxta_id_codatid_new_1 E pg = (case pg of None \<Rightarrow> invalid | Some g \<Rightarrow> fmt_newCodatid1 (maker g) E g)"

definition jxta_id_codatid_new_2 :: "id_world \<Rightarrow> jxta_id option \<Rightarrow> bool \<Rightarrow> id_result" where
  "jxta_id_codatid_new_2 E pg have_read_func =
     (case pg of None \<Rightarrow> invalid
      | Some g \<Rightarrow> if \<not> have_read_func then invalid else fmt_newCodatid2 (maker g) E g)"

definition jxta_id_pipeid_new_1 :: "id_world \<Rightarrow> jxta_id option \<Rightarrow> id_result" where
  "jxta_id_pipeid_new_1 E pg = (case pg of None \<Rightarrow> invalid | Some g \<Rightarrow> fmt_newPipeid1 (maker g) E g)"

definition jxta_id_pipeid_new_2 :: "id_world \<Rightarrow> jxta_id option \<Rightarrow> u8 list option \<Rightarrow> nat \<Rightarrow> id_result" where
  "jxta_id_pipeid_new_2 E pg seed len =
     (case pg of None \<Rightarrow> invalid
      | Some g \<Rightarrow> (case seed of None \<Rightarrow> invalid
                 | Some s \<Rightarrow> if len < 4 then invalid else fmt_newPipeid2 (maker g) E g s len))"

definition jxta_id_moduleclassid_new_1 :: "id_world \<Rightarrow> id_result" where
  "jxta_id_moduleclassid_new_1 E = fmt_newModuleclassid1 (format_of newInstances) E"

definition jxta_id_moduleclassid_new_2 :: "id_world \<Rightarrow> jxta_id option \<Rightarrow> id_result" where
  "jxta_id_moduleclassid_new_2 E base =
     (case base of None \<Rightarrow> invalid | Some b \<Rightarrow> fmt_newModuleclassid2 (format_of (formatter b)) E b)"

definition jxta_id_modulespecid_new :: "id_world \<Rightarrow> jxta_id option \<Rightarrow> id_result" where
  "jxta_id_modulespecid_new E mcid =
     (case mcid of None \<Rightarrow> invalid | Some b \<Rightarrow> fmt_newModulespecid (format_of (formatter b)) E b)"

definition jxta_id_PREFIX :: "u8 list" where
  "jxta_id_PREFIX = str ''urn:jxta:''"

definition jxta_id_PREFIX_LENGTH :: nat where
  "jxta_id_PREFIX_LENGTH = 9"

fun find_format :: "id_format list \<Rightarrow> u8 list \<Rightarrow> nat \<Rightarrow> id_format option" where
  "find_format [] name offset = None"
| "find_format (f # fs) name offset =
     (if strncmp (fmt (format_of f)) name offset = 0 then Some f else find_format fs name offset)"

text \<open>\<open>len\<close> bytes of the argument must be readable.\<close>

definition jxta_id_from_str :: "id_world \<Rightarrow> u8 list \<Rightarrow> nat \<Rightarrow> id_result" where
  "jxta_id_from_str E id_str len =
     do { s \<leftarrow> mem_load id_str 0 len;
          if jxta_id_PREFIX_LENGTH > len then Some (JXTA_INVALID_ARGUMENT, None)
          else if strncasecmp s jxta_id_PREFIX jxta_id_PREFIX_LENGTH \<noteq> 0 then Some (JXTA_INVALID_ARGUMENT, None)
          else (let name = drop jxta_id_PREFIX_LENGTH s;
                    len1 = len - jxta_id_PREFIX_LENGTH;
                    offset = length (takeWhile (\<lambda>c. c \<noteq> 45) name)
                in if offset \<ge> len1 then Some (JXTA_INVALID_ARGUMENT, None)
                   else (case find_format idformats name offset of
                           Some f \<Rightarrow> fmt_from_str (format_of f) E (Some (drop (offset + 1) name)) (len1 - (offset + 1))
                         | None \<Rightarrow> Some (JXTA_NOTIMP, None))) }"

definition jxta_id_from_cstr :: "id_world \<Rightarrow> u8 list \<Rightarrow> id_result" where
  "jxta_id_from_cstr E id_cstr = do { n \<leftarrow> strlen id_cstr; jxta_id_from_str E id_cstr n }"

definition jxta_id_from_jstring :: "id_world \<Rightarrow> u8 list option \<Rightarrow> id_result" where
  "jxta_id_from_jstring E jid =
     (case jid of None \<Rightarrow> invalid | Some text \<Rightarrow> jxta_id_from_str E (text @ [0]) (length text))"

definition jxta_id_get_idformat :: "jxta_id option \<Rightarrow> u8 list option" where
  "jxta_id_get_idformat jid = map_option (\<lambda>i. fmt (format_of (formatter i))) jid"

definition jxta_id_get_uniqueportion :: "jxta_id option \<Rightarrow> status \<times> u8 list option" where
  "jxta_id_get_uniqueportion jid =
     (case jid of None \<Rightarrow> (JXTA_INVALID_ARGUMENT, None)
      | Some i \<Rightarrow> map_prod id Some (fmt_getUniqueportion (format_of (formatter i)) i))"

definition jxta_id_to_jstring :: "bool \<Rightarrow> jxta_id option \<Rightarrow> status \<times> u8 list option" where
  "jxta_id_to_jstring jstring_ok jid =
     (case jid of None \<Rightarrow> (JXTA_INVALID_ARGUMENT, None)
      | Some i \<Rightarrow>
          (let (result, unique) = fmt_getUniqueportion (format_of (formatter i)) i in
           if result \<noteq> JXTA_SUCCESS then (result, None)
           else if \<not> jstring_ok then (JXTA_NOMEM, None)
           else (result, Some (jxta_id_PREFIX @ unique))))"

text \<open>The result is the block of a C string.\<close>

definition jxta_id_to_cstr :: "bool \<Rightarrow> jxta_id \<Rightarrow> status \<times> u8 list option" where
  "jxta_id_to_cstr pool_ok i =
     (let (result, unique) = fmt_getUniqueportion (format_of (formatter i)) i in
      if result \<noteq> JXTA_SUCCESS then (result, None)
      else if \<not> pool_ok then (JXTA_NOMEM, None)
      else (result, Some (jxta_id_PREFIX @ unique @ [0])))"

definition jxta_id_equals :: "jxta_id option \<Rightarrow> jxta_id option \<Rightarrow> bool" where
  "jxta_id_equals i j =
     (if i = j then True
      else (case (i, j) of (Some a, Some b) \<Rightarrow> fmt_equals (format_of (formatter a)) a b | _ \<Rightarrow> False))"

definition jxta_id_hashcode :: "jxta_id option \<Rightarrow> u32" where
  "jxta_id_hashcode i = (case i of None \<Rightarrow> 0 | Some a \<Rightarrow> fmt_hashcode (format_of (formatter a)) a)"

subsection \<open>Identifiers in canonical form\<close>

text \<open>What the constructors and parsers build.\<close>

definition id_ok :: "jxta_id \<Rightarrow> bool" where
  "id_ok i = (case i of IdUuid d \<Rightarrow> length d = IDBYTEARRAYSIZE | IdJxta v \<Rightarrow> 0 \<notin> set v | IdStatic _ \<Rightarrow> True)"

text \<open>The object a parser returns for an identifier: a static object for a well-known one.\<close>

definition canonical :: "jxta_id \<Rightarrow> jxta_id" where
  "canonical i = (case i of IdUuid _ \<Rightarrow> uuid_translateToWellKnown i | _ \<Rightarrow> jxta_translateToWellKnown i)"

lemma uuid_to_cases:
  "uuid_translateToWellKnown (IdUuid d) = IdUuid d \<or>
   (\<exists>w. uuid_translateToWellKnown (IdUuid d) = IdStatic w \<and> (IdUuid d, IdStatic w) \<in> set translateTbl)"
  by (auto simp: uuid_translateToWellKnown_def translateTbl_def uuid_equals_def)

lemma print_nth:
  "i < length bs \<Longrightarrow>
   (concat (map print_02X bs) @ t) ! (2 * i) = hex_digit (drop_bit 4 (bs ! i)) \<and>
   (concat (map print_02X bs) @ t) ! Suc (2 * i) = hex_digit (bs ! i AND 15)"
proof (induction bs arbitrary: i)
  case (Cons b bs)
  then show ?case
    by (cases i) (auto simp: print_02X_def)
qed simp

lemma length_print: "length (concat (map print_02X bs)) = 2 * length bs"
  by (induction bs) (auto simp: print_02X_def)

lemma zero_print: "0 \<notin> set (concat (map print_02X bs))"
proof -
  have "0 \<notin> set (print_02X b)" for b
    using hex_digit_props [of "drop_bit 4 b"] hex_digit_props [of "b AND 15"] byte_nibbles [of b]
    by (auto simp: print_02X_def)
  then show ?thesis
    by auto
qed

lemma uuid_bytes_loop_print:
  assumes "i + n \<le> length bs" "i + n \<le> length d"
  shows "uuid_bytes_loop (concat (map print_02X bs) @ t) i n d =
    Some (take i d @ take n (drop i bs) @ drop (i + n) d)"
  using assms
proof (induction n arbitrary: i d)
  case (Suc n)
  let ?s = "concat (map print_02X bs) @ t"
  have lt: "2 * i + 1 < length ?s" "i < length d" "i < length bs"
    using Suc.prems by (simp_all add: length_print)
  have "ucast (strtoul16 [?s ! (2 * i), ?s ! Suc (2 * i), 0]) = bs ! i"
    using print_nth [OF lt(3), of t] strtoul_print_02X [of "bs ! i"] by (simp add: print_02X_def)
  then have "uuid_bytes_loop ?s i (Suc n) d = uuid_bytes_loop ?s (Suc i) n (d[i := bs ! i])"
    using lt by (simp add: mem_simps)
  also have "\<dots> = Some (take (Suc i) (d[i := bs ! i]) @ take n (drop (Suc i) bs) @ drop (Suc i + n) (d[i := bs ! i]))"
    using Suc.IH [of "Suc i" "d[i := bs ! i]"] Suc.prems by simp
  also have "take (Suc i) (d[i := bs ! i]) = take i d @ [bs ! i]"
    using lt by (simp add: take_Suc_conv_app_nth)
  also have "take (Suc n) (drop i bs) = bs ! i # take n (drop (Suc i) bs)"
    using lt by (simp add: Cons_nth_drop_Suc [symmetric])
  ultimately show ?case
    by simp
qed simp

lemma uuid_bytes_loop_bounds:
  assumes "2 * (i + n) \<le> length s" "i \<le> length d"
  shows "uuid_bytes_loop s i n d = None \<longleftrightarrow> length d < i + n"
    and "uuid_bytes_loop s i n d = Some d' \<Longrightarrow> length d' = length d"
  using assms
proof (induction n arbitrary: i d)
  case (Suc n)
  {
    case 1
    then show ?case
      using Suc.IH(1) [of "Suc i"] by (cases "i < length d") (auto simp: mem_simps)
  next
    case 2
    then show ?case
      using Suc.IH(2) [of "Suc i"] by (cases "i < length d") (auto simp: mem_simps)
  }
qed simp_all

lemma lastByte_zeros: "lastByte d n < k \<Longrightarrow> k \<le> n \<Longrightarrow> d ! k = 0"
  by (induction n) (auto split: if_splits simp: le_Suc_eq)

lemma lastByte_le: "lastByte d n \<le> n"
  by (induction n) auto

text \<open>The text of 64 bytes of data, parsed.\<close>

lemma uuid_text_parse:
  assumes len: "length d = 64" and alloc: "id_alloc E"
  shows "uuid_new_from_str E (Some (uuid_text d @ t)) (length (uuid_text d)) =
    Some (JXTA_SUCCESS, Some (uuid_translateToWellKnown (IdUuid d)))"
proof -
  define k where "k = lastByte d 62 + 1"
  let ?bs = "take k d @ [d ! 63]"
  have k: "k \<le> 63"
    using lastByte_le [of d 62] by (simp add: k_def)
  have tx: "uuid_text d = concat (map print_02X ?bs)"
    by (simp add: uuid_text_def uuid_layout k_def)
  have l: "length (uuid_text d) = 2 * (k + 1)"
    using k len by (simp add: tx length_print del: map_append concat_append)
  then have sizes: "\<not> length (uuid_text d) < 2" "length (uuid_text d) mod 2 = 0" "length (uuid_text d) div 2 - 1 = k"
      "length (uuid_text d) - 2 = 2 * k" "length (uuid_text d) - 1 = Suc (2 * k)" "Suc (2 * k) < length (uuid_text d)"
    by simp_all
  let ?d1 = "take k d @ replicate (64 - k) 0"
  have loop: "uuid_bytes_loop (uuid_text d @ t) 0 k (replicate 64 0) = Some ?d1"
    unfolding tx using uuid_bytes_loop_print [of 0 k ?bs "replicate 64 0" t] k len by simp
  have nth: "(uuid_text d @ t) ! (2 * k) = hex_digit (drop_bit 4 (d ! 63))"
    "(uuid_text d @ t) ! Suc (2 * k) = hex_digit (d ! 63 AND 15)"
    unfolding tx using print_nth [of k ?bs t] k len by (simp_all add: nth_append)
  have flag: "ucast (strtoul16 [(uuid_text d @ t) ! (2 * k), (uuid_text d @ t) ! Suc (2 * k), 0]) = d ! 63"
    unfolding nth using strtoul_print_02X [of "d ! 63"] by (simp add: print_02X_def)
  have d: "?d1[63 := d ! 63] = d"
  proof (rule nth_equalityI)
    show "length (?d1[63 := d ! 63]) = length d"
      using k len by simp
  next
    fix i
    assume "i < length (?d1[63 := d ! 63])"
    then show "?d1[63 := d ! 63] ! i = d ! i"
      using k len lastByte_zeros [of d 62 i] by (auto simp: nth_list_update nth_append k_def)
  qed
  have "uuid_new_from_str E (Some (uuid_text d @ t)) (length (uuid_text d)) =
      Some (JXTA_SUCCESS, Some (uuid_translateToWellKnown (IdUuid (?d1[63 := d ! 63]))))"
    using alloc loop flag k len sizes by (simp add: uuid_new_from_str_def uuid_layout mem_simps)
  then show ?thesis
    by (simp only: d)
qed

lemma uuid_text_no_zero: "0 \<notin> set (uuid_text d)"
  using zero_print [of "take (lastByte d (FLAGSOFFSET - 1) + 1) d"] zero_print [of "[d ! FLAGSOFFSET]"]
  by (auto simp: uuid_text_def)

lemma well_known_value_inj [simp]: "well_known_value v = well_known_value w \<longleftrightarrow> v = w"
  by (cases v; cases w; simp add: well_known_value_def)

lemma jxta_translate_static:
  "uniquevalue i = well_known_value w \<Longrightarrow> formatter i = Jxta_format \<Longrightarrow> jxta_translateToWellKnown i = IdStatic w"
  by (cases w) (auto simp: jxta_translateToWellKnown_def wellKnownIds_def jxta_equals_def formatter_def uniquevalue_def)

lemma canonical_static: "canonical (IdStatic w) = IdStatic w"
  by (simp add: canonical_def jxta_translate_static uniquevalue_def formatter_def)

lemma canonical_jxta: "i = IdJxta v \<or> i = IdStatic w \<Longrightarrow> jxta_translateToWellKnown (IdJxta (uniquevalue i)) = canonical i"
  using canonical_static [of w] jxta_translate_static [of "IdJxta (well_known_value w)" w]
  by (auto simp: uniquevalue_def formatter_def) (simp add: canonical_def)

lemma unique_no_zero: "id_ok i \<Longrightarrow> 0 \<notin> set (uniquevalue i)"
  by (cases i) (auto simp: id_ok_def uniquevalue_def well_known_value_def split: well_known.splits)

text \<open>Parsing a text with a format name.\<close>

lemma from_str_format:
  assumes "f = Uuid_format \<or> f = Jxta_format"
  shows "jxta_id_from_str E (jxta_id_PREFIX @ fmt (format_of f) @ 45 # u @ t) (14 + length u) =
    fmt_from_str (format_of f) E (Some u) (length u)"
proof -
  let ?s = "jxta_id_PREFIX @ fmt (format_of f) @ 45 # u"
  have "length ?s = 14 + length u" "?s @ t = jxta_id_PREFIX @ fmt (format_of f) @ 45 # u @ t"
    using assms by (auto simp: jxta_id_PREFIX_def id_formats)
  then have load: "mem_load (jxta_id_PREFIX @ fmt (format_of f) @ 45 # u @ t) 0 (14 + length u) = Some ?s"
    using mem_load_prefix [of ?s t] by (simp only:)
  have pre: "strncasecmp (jxta_id_PREFIX @ s) jxta_id_PREFIX 9 = 0" for s
    by (simp add: strncasecmp_def jxta_id_PREFIX_def tolower_def)
  have "find_format idformats (fmt (format_of f) @ 45 # u) 4 = Some f"
    using assms by (auto simp: idformats_def id_formats)
  moreover have "takeWhile (\<lambda>c. c \<noteq> 45) (fmt (format_of f) @ 45 # u) = fmt (format_of f)" "length (fmt (format_of f)) = 4"
    using assms by (auto simp: id_formats)
  ultimately show ?thesis
    using pre by (simp add: jxta_id_from_str_def load jxta_id_PREFIX_LENGTH_def Let_def) (simp add: jxta_id_PREFIX_def)
qed

lemma unique_portion:
  assumes "id_ok i"
  shows "\<exists>f u. fmt_getUniqueportion (format_of (formatter i)) i = (JXTA_SUCCESS, fmt (format_of f) @ 45 # u) \<and>
    0 \<notin> set u \<and> (\<forall>E. id_alloc E \<longrightarrow> fmt_from_str (format_of f) E (Some u) (length u) = Some (JXTA_SUCCESS, Some (canonical i)))"
proof -
  have jxta: ?thesis if "j = IdJxta v \<or> j = IdStatic w" "id_ok j" "canonical j = canonical i"
      "fmt_getUniqueportion (format_of (formatter i)) i = jxta_getUniqueportion j" for j v w
  proof (intro exI conjI)
    show "fmt_getUniqueportion (format_of (formatter i)) i = (JXTA_SUCCESS, fmt (format_of Jxta_format) @ 45 # uniquevalue j)"
      using that(4) by (simp add: jxta_getUniqueportion_def id_formats)
    show "0 \<notin> set (uniquevalue j)"
      using unique_no_zero that(2) by blast
    then show "\<forall>E. id_alloc E \<longrightarrow> fmt_from_str (format_of Jxta_format) E (Some (uniquevalue j)) (length (uniquevalue j)) =
        Some (JXTA_SUCCESS, Some (canonical i))"
      using canonical_jxta [OF that(1)] that(3) by (simp add: id_formats jxta_new_from_str_def mem_simps cstr_id)
  qed
  show ?thesis
  proof (cases i)
    case (IdUuid d)
    show ?thesis
    proof (cases "uuid_translateToWellKnown (IdUuid d) = IdUuid d")
      case True
      show ?thesis
      proof (intro exI conjI)
        show "fmt_getUniqueportion (format_of (formatter i)) i = (JXTA_SUCCESS, fmt (format_of Uuid_format) @ 45 # uuid_text d)"
          using IdUuid True by (simp add: formatter_def id_formats uuid_getUniqueportion_def)
        show "0 \<notin> set (uuid_text d)"
          by (rule uuid_text_no_zero)
        show "\<forall>E. id_alloc E \<longrightarrow> fmt_from_str (format_of Uuid_format) E (Some (uuid_text d)) (length (uuid_text d)) =
            Some (JXTA_SUCCESS, Some (canonical i))"
          using uuid_text_parse [of d _ "[]"] assms IdUuid True
          by (simp add: id_formats canonical_def id_ok_def IDBYTEARRAYSIZE_def)
      qed
    next
      case False
      then obtain w where w: "uuid_translateToWellKnown (IdUuid d) = IdStatic w"
        using uuid_to_cases by blast
      show ?thesis
        by (rule jxta [of "IdStatic w" _ w])
           (use IdUuid w in \<open>simp_all add: formatter_def id_formats uuid_getUniqueportion_def id_ok_def canonical_static,
            simp add: canonical_def\<close>)
    qed
  next
    case (IdStatic w)
    then show ?thesis
      using assms by (intro jxta [of i _ w]) (auto simp: formatter_def id_formats)
  next
    case (IdJxta v)
    then show ?thesis
      using assms by (intro jxta [of i v]) (auto simp: formatter_def id_formats)
  qed
qed

lemma to_cstr_from_cstr:
  assumes "id_ok i" "id_alloc E"
  shows "\<exists>s. jxta_id_to_cstr True i = (JXTA_SUCCESS, Some s) \<and>
    jxta_id_from_cstr E s = Some (JXTA_SUCCESS, Some (canonical i))"
proof -
  obtain f u where fu: "fmt_getUniqueportion (format_of (formatter i)) i = (JXTA_SUCCESS, fmt (format_of f) @ 45 # u)"
      "0 \<notin> set u" "fmt_from_str (format_of f) E (Some u) (length u) = Some (JXTA_SUCCESS, Some (canonical i))"
    using unique_portion [OF assms(1)] assms(2) by blast
  let ?s = "jxta_id_PREFIX @ fmt (format_of f) @ 45 # u"
  have f: "f = Uuid_format \<or> f = Jxta_format"
    by (cases f) auto
  then have "0 \<notin> set ?s" "length ?s = 14 + length u"
    using fu(2) by (auto simp: jxta_id_PREFIX_def id_formats)
  then have "strlen (?s @ [0]) = Some (14 + length u)"
    using strlen_block [of ?s "[]"] by simp
  then have "jxta_id_from_cstr E (?s @ [0]) = Some (JXTA_SUCCESS, Some (canonical i))"
    using from_str_format [OF f, of E u "[0]"] fu(3) by (simp add: jxta_id_from_cstr_def)
  then show ?thesis
    using fu(1) by (simp add: jxta_id_to_cstr_def)
qed

subsection \<open>Identifiers as keys\<close>

lemma id_equals_refl: "jxta_id_equals i i"
  by (simp add: jxta_id_equals_def)

lemma id_equals_iff:
  "jxta_id_equals (Some i) (Some j) \<longleftrightarrow>
     i = j \<or> (formatter i = Jxta_format \<and> formatter j = Jxta_format \<and> uniquevalue i = uniquevalue j)"
  by (cases i; cases j) (auto simp: jxta_id_equals_def formatter_def id_formats uuid_equals_def jxta_equals_def)

lemma id_equals_hash: "jxta_id_equals i j \<Longrightarrow> jxta_id_hashcode i = jxta_id_hashcode j"
proof (cases i; cases j)
  fix a b
  assume "jxta_id_equals i j" "i = Some a" "j = Some b"
  then show ?thesis
    by (cases a; cases b) (auto simp: id_equals_iff jxta_id_hashcode_def formatter_def id_formats jxta_hashcode_def)
qed (auto simp: jxta_id_equals_def)

lemma id_equals_None: "jxta_id_equals None j \<longleftrightarrow> j = None" "jxta_id_equals j None \<longleftrightarrow> j = None"
  by (cases j; simp add: jxta_id_equals_def)+

lemma id_hash_nonzero: "jxta_id_hashcode (Some i) \<noteq> 0"
proof -
  have "jxta_objecthashtable_simplehash ks \<noteq> 0" for ks
    by (simp add: jxta_objecthashtable_simplehash_def Let_def)
  then show ?thesis
    by (cases i) (auto simp: jxta_id_hashcode_def formatter_def id_formats uuid_hashcode_def jxta_hashcode_def)
qed

text \<open>
  A table of objects that is keyed by identifiers: \<open>ids\<close> tells the identifier at an address.
\<close>

interpretation id_keys: object_keys "\<lambda>p. jxta_id_hashcode (ids p)" "\<lambda>p q. jxta_id_equals (ids p) (ids q)"
  for ids :: "ptr \<Rightarrow> jxta_id option"
proof
  fix k a b c
  show "jxta_id_equals (ids k) (ids k)"
    by (rule id_equals_refl)
  show "jxta_id_equals (ids a) (ids b) \<Longrightarrow> jxta_id_equals (ids b) (ids a)"
    by (cases "ids a"; cases "ids b") (auto simp: id_equals_iff id_equals_None)
  show "jxta_id_equals (ids a) (ids b) \<Longrightarrow> jxta_id_equals (ids b) (ids c) \<Longrightarrow> jxta_id_equals (ids a) (ids c)"
    by (cases "ids a"; cases "ids b"; cases "ids c") (auto simp: id_equals_iff id_equals_None)
  show "jxta_id_equals (ids a) (ids b) \<Longrightarrow> jxta_id_hashcode (ids a) = jxta_id_hashcode (ids b)"
    by (rule id_equals_hash)
qed

subsection \<open>Properties\<close>

text \<open>
  C8: Printing and parsing.  The C string of every well-formed identifier (64 bytes of data,
  or a unique text without zero bytes) is parsed again, without any access outside of an
  array, into the same identifier, or into the static object of a well-known one.
\<close>

theorem id_roundtrip:
  assumes "id_ok i" "id_alloc E"
  shows "\<exists>s. jxta_id_to_cstr True i = (JXTA_SUCCESS, Some s) \<and>
    jxta_id_from_cstr E s = Some (JXTA_SUCCESS, Some (canonical i)) \<and> jxta_id_equals (Some (canonical (canonical i))) (Some (canonical i))"
proof -
  have "canonical (canonical i) = canonical i"
  proof (cases i)
    case (IdUuid d)
    then show ?thesis
      using uuid_to_cases [of d] canonical_static by (auto simp: canonical_def)
  next
    case (IdJxta v)
    then have "canonical i = IdJxta v \<or> (\<exists>w. canonical i = IdStatic w)"
      by (auto simp: canonical_def jxta_translateToWellKnown_def wellKnownIds_def)
    then show ?thesis
      using IdJxta canonical_static by auto
  qed (simp add: canonical_static)
  then show ?thesis
    using to_cstr_from_cstr [OF assms] by (auto simp: id_equals_refl)
qed

definition sample_world :: id_world where
  "sample_world = \<lparr>id_alloc = True, id_uuid = [1, 2, 3, 4, 5, 6, 7, 8, 9, 10, 11, 12, 13, 14, 15, 16]\<rparr>"

theorem id_roundtrip_witness:
  "\<exists>s. jxta_id_to_cstr True (IdUuid (replicate 63 0xAB @ [3])) = (JXTA_SUCCESS, Some s) \<and>
    jxta_id_from_cstr sample_world s = Some (JXTA_SUCCESS, Some (IdUuid (replicate 63 0xAB @ [3])))"
proof -
  have "id_ok (IdUuid (replicate 63 0xAB @ [3]))" "id_alloc sample_world"
    by (simp_all add: id_ok_def uuid_layout sample_world_def)
  moreover have "canonical (IdUuid (replicate 63 0xAB @ [3])) = IdUuid (replicate 63 0xAB @ [3])"
    by (simp add: canonical_def uuid_translateToWellKnown_def translateTbl_def uuid_equals_def numeral_eq_Suc
        defaultNetPeerGroupID_def worldPeerGroupID_def)
  ultimately show ?thesis
    using id_roundtrip [of "IdUuid (replicate 63 0xAB @ [3])" sample_world] by auto
qed

text \<open>
  C9: The parser trusts the length of its input.  A uuid text with an even number of digits is
  parsed inside the data array exactly if it has at most 130 digits; with more of them bytes
  are written behind the 64 bytes of the identifier.
\<close>

theorem id_from_str_bounds:
  assumes "even (length u)" "2 \<le> length u" "id_alloc E"
  shows "jxta_id_from_str E (str ''urn:jxta:uuid-'' @ u) (14 + length u) = None \<longleftrightarrow> 130 < length u"
proof -
  obtain n where n: "length u = 2 * n + 2"
    using assms(1,2) by (metis add.commute dvd_def le_add_diff_inverse2 dvd_diff_nat dvd_refl)
  have "uuid_new_from_str E (Some u) (length u) = None \<longleftrightarrow> 64 < n"
  proof (cases "uuid_bytes_loop u 0 n (replicate 64 0)")
    case None
    then show ?thesis
      using uuid_bytes_loop_bounds(1) [of 0 n u "replicate 64 0"] n assms(3)
      by (simp add: uuid_new_from_str_def uuid_layout)
  next
    case (Some d)
    then have "length d = 64" "\<not> 64 < n"
      using uuid_bytes_loop_bounds [of 0 n u "replicate 64 0"] n by auto
    with Some show ?thesis
      using n assms(3) by (simp add: uuid_new_from_str_def uuid_layout mem_simps)
  qed
  moreover have "str ''urn:jxta:uuid-'' @ u = jxta_id_PREFIX @ fmt (format_of Uuid_format) @ 45 # u @ []"
    by (simp add: jxta_id_PREFIX_def id_formats)
  then have "jxta_id_from_str E (str ''urn:jxta:uuid-'' @ u) (14 + length u) = uuid_new_from_str E (Some u) (length u)"
    using from_str_format [of Uuid_format E u "[]"] by (simp only: id_formats) (simp add: id_formats)
  ultimately show ?thesis
    using n by auto
qed

theorem id_from_str_bounds_witness:
  "jxta_id_from_str sample_world (str ''urn:jxta:uuid-'' @ replicate 132 48) (14 + length (replicate 132 (48 :: u8))) = None"
  using id_from_str_bounds [of "replicate 132 48" sample_world] by (simp add: sample_world_def)

lemma uuid_version_props:
  assumes "length d = 64" "off + 10 < 63"
  shows "length (uuid_version off d) = 64" "uuid_version off d ! 63 = d ! 63"
    "take off (uuid_version off d) = take off d"
    "uuid_version off d ! (off + 6) AND 0xF0 = 0x40" "uuid_version off d ! (off + 8) AND 0xC0 = 0x80"
    "j \<noteq> off + 6 \<Longrightarrow> j \<noteq> off + 8 \<Longrightarrow> j \<noteq> off + 10 \<Longrightarrow> uuid_version off d ! j = d ! j"
proof -
  have nib: "((x AND 0x0F) OR 0x40) AND 0xF0 = (0x40 :: u8)" for x
    by (simp add: bit.conj_disj_distrib2 and.assoc)
  have var: "((x AND 0x3F) OR 0x80) AND 0xC0 = (0x80 :: u8)" for x
    by (simp add: bit.conj_disj_distrib2 and.assoc)
  show "length (uuid_version off d) = 64" "uuid_version off d ! 63 = d ! 63"
    "take off (uuid_version off d) = take off d"
    "uuid_version off d ! (off + 6) AND 0xF0 = 0x40" "uuid_version off d ! (off + 8) AND 0xC0 = 0x80"
    "j \<noteq> off + 6 \<Longrightarrow> j \<noteq> off + 8 \<Longrightarrow> j \<noteq> off + 10 \<Longrightarrow> uuid_version off d ! j = d ! j"
    using assms nib var by (simp_all add: uuid_version_def Let_def)
qed

text \<open>The data of an identifier that belongs to a group.\<close>

definition belongs_to :: "u8 list \<Rightarrow> u8 \<Rightarrow> u8 list \<Rightarrow> nat \<Rightarrow> u8 list \<Rightarrow> bool" where
  "belongs_to g flag seed len d \<longleftrightarrow>
     length d = 64 \<and> take 16 d = take 16 g \<and> d ! 63 = flag \<and> d ! 22 AND 0xF0 = 0x40 \<and> d ! 24 AND 0xC0 = 0x80 \<and>
     (\<forall>i < min len 16. i \<notin> {6, 8, 10} \<longrightarrow> d ! (16 + i) = seed ! i)"

lemma group_member:
  assumes g: "length g = 64" and len: "len \<le> length seed"
  shows "\<exists>d1 d2. mem_load g 0 16 = Some (take 16 g) \<and> mem_store (uuid_blank flag) 0 (take 16 g) = Some d1 \<and>
    mem_load seed 0 (if len > 16 then 16 else len) = Some (take (min len 16) seed) \<and>
    mem_store d1 16 (take (min len 16) seed) = Some d2 \<and> belongs_to g flag seed len (uuid_version 16 d2)"
proof -
  let ?m = "min len 16"
  let ?d1 = "take 16 g @ drop 16 (uuid_blank flag)"
  let ?d2 = "take 16 g @ take ?m seed @ drop (16 + ?m) ?d1"
  have blank: "length (uuid_blank flag) = 64" "uuid_blank flag ! 63 = flag"
    by (simp_all add: uuid_blank_def uuid_layout)
  have l2: "length ?d2 = 64"
    using g len blank by (simp add: min_def)
  have d63: "?d2 ! 63 = flag"
    using g len blank by (simp add: nth_append min_def)
  have seed: "?d2 ! (16 + i) = seed ! i" if "i < ?m" for i
    using that g len by (simp add: nth_append)
  note v = uuid_version_props [OF l2, of 16]
  have "belongs_to g flag seed len (uuid_version 16 ?d2)"
    unfolding belongs_to_def using v(1-5) v(6) [of "16 + _"] d63 seed g by auto
  moreover have "mem_store (uuid_blank flag) 0 (take 16 g) = Some ?d1" "mem_store ?d1 16 (take ?m seed) = Some ?d2"
    using g len blank by (simp_all add: mem_simps min_def)
  moreover have "mem_load g 0 16 = Some (take 16 g)" "mem_load seed 0 (if len > 16 then 16 else len) = Some (take ?m seed)"
    using g len by (simp_all add: mem_simps min_def)
  ultimately show ?thesis
    by blast
qed

text \<open>
  New peer and pipe identifiers.  Made for a group whose identifier is a uuid or one of the
  well-known groups, they carry the 16 bytes of the group in front, the type in the last
  byte, the version and variant of a random uuid, and the bytes of the seed elsewhere; for
  the null identifier and other texts of the jxta format they are refused.
\<close>

theorem peer_and_pipe_ids:
  assumes "id_alloc E" "4 \<le> len" "len \<le> length seed" "uuid_data (uuid_translateFromWellKnown pg) = Some g" "length g = 64"
  shows "(\<exists>d. jxta_id_peerid_new_2 E (Some pg) (Some seed) len = Some (JXTA_SUCCESS, Some (IdUuid d)) \<and>
      belongs_to g FLAGPEERID seed len d) \<and>
    (\<exists>d. jxta_id_pipeid_new_2 E (Some pg) (Some seed) len = Some (JXTA_SUCCESS, Some (IdUuid d)) \<and>
      belongs_to g FLAGPIPEID seed len d) \<and>
    jxta_id_peerid_new_2 E (Some (IdStatic NullID)) (Some seed) len = Some (JXTA_INVALID_ARGUMENT, None) \<and>
    jxta_id_pipeid_new_2 E (Some (IdStatic NullID)) (Some seed) len = Some (JXTA_INVALID_ARGUMENT, None)"
proof -
  have mk: "fmt_newPeerid2 (maker i) = uuid_newPeerid2" "fmt_newPipeid2 (maker i) = uuid_newPipeid2" for i
    by (cases i; simp add: maker_def formatter_def newInstances_def id_formats)+
  have null: "uuid_data (uuid_translateFromWellKnown (IdStatic NullID)) = None"
    by (simp add: uuid_data_def uuid_translateFromWellKnown_def translateTbl_def uuid_equals_def)
  from group_member [OF assms(5,3), of FLAGPEERID] group_member [OF assms(5,3), of FLAGPIPEID] show ?thesis
    using assms(1,2,4) null
    by (auto simp: jxta_id_peerid_new_2_def jxta_id_pipeid_new_2_def mk uuid_newPeerid2_def uuid_newPipeid2_def
        UUIDSIZE_def)
qed

theorem peer_and_pipe_ids_witness:
  "\<exists>d. jxta_id_peerid_new_2 sample_world (Some (IdStatic DefaultNetPeerGroupID)) (Some [9, 8, 7, 6]) 4 =
      Some (JXTA_SUCCESS, Some (IdUuid d)) \<and> take 16 d = take 16 defaultNetPeerGroupID \<and> d ! 63 = 3 \<and> d ! 17 = 8"
proof -
  have "uuid_data (uuid_translateFromWellKnown (IdStatic DefaultNetPeerGroupID)) = Some defaultNetPeerGroupID"
    by (simp add: uuid_data_def uuid_translateFromWellKnown_def translateTbl_def uuid_equals_def)
  moreover have "length defaultNetPeerGroupID = 64"
    by (simp add: defaultNetPeerGroupID_def)
  ultimately obtain d where
    "jxta_id_peerid_new_2 sample_world (Some (IdStatic DefaultNetPeerGroupID)) (Some [9, 8, 7, 6]) 4 =
      Some (JXTA_SUCCESS, Some (IdUuid d))" "belongs_to defaultNetPeerGroupID FLAGPEERID [9, 8, 7, 6] 4 d"
    using peer_and_pipe_ids [of sample_world 4 "[9, 8, 7, 6]"] by (auto simp: sample_world_def)
  moreover from this(2) have "d ! (16 + 1) = [9, 8, 7, 6] ! 1"
    unfolding belongs_to_def by (metis (no_types, lifting) empty_iff insert_iff min_less_iff_conj one_eq_numeral_iff
        one_less_numeral_iff semiring_norm(76,84,85,86,87))
  ultimately show ?thesis
    by (auto simp: belongs_to_def FLAGPEERID_def)
qed

end
