(* ===== verification/GroupRegistry.thy ===== *)
theory GroupRegistry
  imports JxtaId
begin

section \<open>The registry of peer groups (src/src/jxta_peergroup.c)\<close>

text \<open>
  The global registry that allows one instance of each peer group: an object hash table keyed
  by group identifiers with \<open>jxta_id_hashcode\<close> and \<open>jxta_id_equals\<close>.  \<open>ids\<close> tells the
  identifier stored at an address.  Here the identifiers of \<open>JxtaId\<close> and the table of
  \<open>ObjectHashTable\<close> are composed, through the interpretation \<open>id_keys\<close>.  The interface that
  \<open>jxta_lookup_group_instance\<close> returns is the registered object itself, shared, as the
  standard groups implement it (\<open>jxta_service_get_interface_impl\<close>).
\<close>

abbreviation id_hash :: "(ptr \<Rightarrow> jxta_id option) \<Rightarrow> ptr \<Rightarrow> u32" where
  "id_hash ids \<equiv> \<lambda>p. jxta_id_hashcode (ids p)"

abbreviation id_eq :: "(ptr \<Rightarrow> jxta_id option) \<Rightarrow> ptr \<Rightarrow> ptr \<Rightarrow> bool" where
  "id_eq ids \<equiv> \<lambda>p q. jxta_id_equals (ids p) (ids q)"

definition registry_init :: "(nat \<Rightarrow> bool) \<Rightarrow> bool \<Rightarrow> bool \<Rightarrow> jxta_objecthashtable option option" where
  "registry_init mem self_ok apr_ok = jxta_objecthashtable_new mem self_ok apr_ok 4"

definition jxta_register_group_instance ::
  "(ptr \<Rightarrow> jxta_id option) \<Rightarrow> heap \<Rightarrow> jxta_objecthashtable \<Rightarrow> ptr \<Rightarrow> ptr \<Rightarrow> (status \<times> heap \<times> jxta_objecthashtable) option" where
  "jxta_register_group_instance ids h reg gid pg =
     jxta_objecthashtable_putnoreplace (\<lambda>_. True) (id_hash ids) (id_eq ids) h reg gid pg"

definition jxta_unregister_group_instance ::
  "(ptr \<Rightarrow> jxta_id option) \<Rightarrow> heap \<Rightarrow> jxta_objecthashtable \<Rightarrow> ptr \<Rightarrow> ptr \<Rightarrow> (status \<times> heap \<times> jxta_objecthashtable) option" where
  "jxta_unregister_group_instance ids h reg gid pg =
     jxta_objecthashtable_delcheck (id_hash ids) (id_eq ids) h reg gid pg"

definition jxta_service_get_interface_impl :: "heap \<Rightarrow> ptr \<Rightarrow> ptr \<times> heap" where
  "jxta_service_get_interface_impl h self = (self, share self h)"

definition jxta_lookup_group_instance ::
  "(ptr \<Rightarrow> jxta_id option) \<Rightarrow> heap \<Rightarrow> jxta_objecthashtable \<Rightarrow> ptr
     \<Rightarrow> (status \<times> ptr option \<times> heap \<times> jxta_objecthashtable) option" where
  "jxta_lookup_group_instance ids h reg gid =
     do { (res, tmp, h1, reg1) \<leftarrow> jxta_objecthashtable_get (id_hash ids) (id_eq ids) h reg gid True;
          (case tmp of
             None \<Rightarrow> Some (res, None, h1, reg1)
           | Some p \<Rightarrow>
               (let (pg, h2) = jxta_service_get_interface_impl h1 p in Some (res, Some pg, release p h2, reg1))) }"

definition jxta_get_registered_groups ::
  "(nat \<Rightarrow> bool) \<Rightarrow> heap \<Rightarrow> jxta_objecthashtable option \<Rightarrow> (heap \<times> jxta_vector \<times> jxta_objecthashtable) option option" where
  "jxta_get_registered_groups vmem h reg =
     (case reg of None \<Rightarrow> Some None | Some r \<Rightarrow> map_option Some (jxta_objecthashtable_values_get vmem h r))"

subsection \<open>What the registry promises\<close>

text \<open>A client's operations, and the same operations on a map from identifiers to groups.\<close>

datatype registry_op = Register ptr ptr | Unregister ptr ptr | Lookup ptr

fun op_gid :: "registry_op \<Rightarrow> ptr" where
  "op_gid (Register g p) = g"
| "op_gid (Unregister g p) = g"
| "op_gid (Lookup g) = g"

fun registry_step ::
  "(ptr \<Rightarrow> jxta_id option) \<Rightarrow> registry_op \<Rightarrow> heap \<Rightarrow> jxta_objecthashtable
     \<Rightarrow> (store_result \<times> heap \<times> jxta_objecthashtable) option" where
  "registry_step ids (Register g p) h reg =
     map_option (\<lambda>(st, h1, r1). ((st, None), h1, r1)) (jxta_register_group_instance ids h reg g p)"
| "registry_step ids (Unregister g p) h reg =
     map_option (\<lambda>(st, h1, r1). ((st, None), h1, r1)) (jxta_unregister_group_instance ids h reg g p)"
| "registry_step ids (Lookup g) h reg =
     map_option (\<lambda>(st, p, h1, r1). ((st, p), h1, r1)) (jxta_lookup_group_instance ids h reg g)"

fun registry_run ::
  "(ptr \<Rightarrow> jxta_id option) \<Rightarrow> registry_op list \<Rightarrow> heap \<Rightarrow> jxta_objecthashtable
     \<Rightarrow> (store_result list \<times> heap \<times> jxta_objecthashtable) option" where
  "registry_run ids [] h reg = Some ([], h, reg)"
| "registry_run ids (x # xs) h reg =
     do { (r, h1, reg1) \<leftarrow> registry_step ids x h reg;
          (rs, h2, reg2) \<leftarrow> registry_run ids xs h1 reg1;
          Some (r # rs, h2, reg2) }"

text \<open>What two equal identifiers share: the format and the data or the unique text.\<close>

definition id_key :: "jxta_id \<Rightarrow> id_format \<times> u8 list" where
  "id_key i = (formatter i, case i of IdUuid d \<Rightarrow> d | _ \<Rightarrow> uniquevalue i)"

fun group_step :: "(ptr \<Rightarrow> jxta_id option) \<Rightarrow> registry_op \<Rightarrow> (id_format \<times> u8 list \<rightharpoonup> ptr)
    \<Rightarrow> store_result \<times> (id_format \<times> u8 list \<rightharpoonup> ptr)" where
  "group_step ids (Register g p) m =
     (let k = id_key (the (ids g)) in
      case m k of None \<Rightarrow> ((JXTA_SUCCESS, None), m(k \<mapsto> p)) | Some q \<Rightarrow> ((JXTA_ITEM_EXISTS, None), m))"
| "group_step ids (Unregister g p) m =
     (let k = id_key (the (ids g)) in
      case m k of None \<Rightarrow> ((JXTA_ITEM_NOTFOUND, None), m)
      | Some q \<Rightarrow> if p = q then ((JXTA_SUCCESS, None), m(k := None)) else ((JXTA_VIOLATION, None), m))"
| "group_step ids (Lookup g) m =
     (case m (id_key (the (ids g))) of
        None \<Rightarrow> ((JXTA_ITEM_NOTFOUND, None), m) | Some q \<Rightarrow> ((JXTA_SUCCESS, Some q), m))"

fun group_run :: "(ptr \<Rightarrow> jxta_id option) \<Rightarrow> registry_op list \<Rightarrow> (id_format \<times> u8 list \<rightharpoonup> ptr)
    \<Rightarrow> store_result list \<times> (id_format \<times> u8 list \<rightharpoonup> ptr)" where
  "group_run ids [] m = ([], m)"
| "group_run ids (x # xs) m =
     (let (r, m1) = group_step ids x m; (rs, m2) = group_run ids xs m1 in (r # rs, m2))"

lemma id_equals_key: "jxta_id_equals (Some i) (Some j) \<longleftrightarrow> id_key i = id_key j"
  by (cases i; cases j) (auto simp: id_equals_iff id_key_def formatter_def uniquevalue_def)

abbreviation registry_ok :: "(ptr \<Rightarrow> jxta_id option) \<Rightarrow> jxta_objecthashtable \<Rightarrow> bool" where
  "registry_ok ids \<equiv> store_ok (object_hashk (id_hash ids)) (id_eq ids)"

definition represents :: "(ptr \<Rightarrow> jxta_id option) \<Rightarrow> jxta_objecthashtable \<Rightarrow> (id_format \<times> u8 list \<rightharpoonup> ptr) \<Rightarrow> bool" where
  "represents ids reg m \<longleftrightarrow> (\<forall>p i. ids p = Some i \<longrightarrow> store_lookup (id_eq ids) reg p = m (id_key i))"

text \<open>The table operation behind each registry operation.\<close>

fun table_op :: "registry_op \<Rightarrow> ptr store_op" where
  "table_op (Register g p) = PutNew g p"
| "table_op (Unregister g p) = DelCheck g p"
| "table_op (Lookup g) = Get g"

lemma table_op_gid: "key_of_op (table_op x) = op_gid x"
  by (cases x) auto

lemma registry_step_table:
  assumes "objecthashtable_step (id_hash ids) (id_eq ids) (table_op x) h reg = Some (r, h1, reg1)"
  shows "\<exists>h2. registry_step ids x h reg = Some (r, h2, reg1)"
  using assms
  by (cases x) (auto simp: jxta_register_group_instance_def jxta_unregister_group_instance_def
      jxta_lookup_group_instance_def jxta_service_get_interface_impl_def split: option.splits)

lemma group_step_table:
  assumes "represents ids reg m" "ids (op_gid x) = Some i"
  shows "fst (map_step (id_eq ids) (table_op x) (store_lookup (id_eq ids) reg)) = fst (group_step ids x m)"
    and "store_lookup (id_eq ids) reg1 = snd (map_step (id_eq ids) (table_op x) (store_lookup (id_eq ids) reg)) \<Longrightarrow>
      represents ids reg1 (snd (group_step ids x m))"
proof -
  have look: "store_lookup (id_eq ids) reg (op_gid x) = m (id_key i)"
    using assms by (simp add: represents_def)
  then show "fst (map_step (id_eq ids) (table_op x) (store_lookup (id_eq ids) reg)) = fst (group_step ids x m)"
    using assms(2) by (cases x) (auto simp: Let_def split: option.splits)
  assume "store_lookup (id_eq ids) reg1 = snd (map_step (id_eq ids) (table_op x) (store_lookup (id_eq ids) reg))"
  then show "represents ids reg1 (snd (group_step ids x m))"
    using assms look by (cases x) (auto simp: represents_def Let_def id_equals_key split: option.splits)
qed

lemma registry_run_ok:
  assumes "registry_ok ids reg" "length xs \<le> store_room reg" "\<forall>x \<in> set xs. ids (op_gid x) \<noteq> None" "represents ids reg m"
  shows "\<exists>h' reg'. registry_run ids xs h reg = Some (fst (group_run ids xs m), h', reg') \<and> registry_ok ids reg' \<and>
    represents ids reg' (snd (group_run ids xs m))"
  using assms
proof (induction xs arbitrary: h reg m)
  case Nil
  then show ?case by simp
next
  case (Cons x xs)
  obtain i where i: "ids (op_gid x) = Some i"
    using Cons.prems(3) by auto
  then have "id_hash ids (key_of_op (table_op x)) \<noteq> 0"
    by (simp add: table_op_gid id_hash_nonzero)
  then obtain h1 reg1 where st: "objecthashtable_step (id_hash ids) (id_eq ids) (table_op x) h reg =
        Some (fst (map_step (id_eq ids) (table_op x) (store_lookup (id_eq ids) reg)), h1, reg1)" "registry_ok ids reg1"
      "store_lookup (id_eq ids) reg1 = snd (map_step (id_eq ids) (table_op x) (store_lookup (id_eq ids) reg))"
      "store_room reg - 1 \<le> store_room reg1"
    using id_keys.store.step_law [of ids reg "table_op x" h] Cons.prems(1,2) by auto
  note gs = group_step_table [OF Cons.prems(4) i]
  obtain h2 where step: "registry_step ids x h reg = Some (fst (group_step ids x m), h2, reg1)"
    using registry_step_table [OF st(1)] gs(1) by auto
  have "length xs \<le> store_room reg1" "\<forall>x \<in> set xs. ids (op_gid x) \<noteq> None"
    using st(4) Cons.prems(2,3) by auto
  from Cons.IH [OF st(2) this gs(2) [OF st(3)], of h2] show ?case
    using step by (auto simp: split_beta Let_def)
qed

lemma registry_init_ok:
  assumes "mem (OBJECT_ENTRY_SIZE * 8)"
  shows "\<exists>reg. registry_init mem True True = Some (Some reg) \<and> registry_ok ids reg \<and> store_room reg = 2 ^ 28 \<and>
    represents ids reg Map.empty"
proof -
  obtain m where m: "map_option unat (real_size_for 4) = Some (2 ^ m)" "(2::nat) \<le> 2 ^ m" "(2::nat) ^ m \<le> 2 ^ 29"
      "8 \<le> (2::nat) ^ m" "(2::nat) ^ m < 16"
    using new_size [of 4] by auto
  have "(2::nat) ^ m = 8"
  proof -
    have "m = 3"
      using m(4,5) power_strict_increasing_iff [of "2::nat" m 4] power_increasing_iff [of "2::nat" 3 m] by simp
    then show ?thesis
      by simp
  qed
  moreover note fresh_table_ok [where ?'k = ptr, OF refl m(2,3)]
  ultimately show ?thesis
    using assms m(1) by (auto simp: registry_init_def jxta_objecthashtable_new_def represents_def)
qed

subsection \<open>Properties\<close>

text \<open>
  C10: One instance of each group.  From its initialisation on, for any sequence of up to 2^28
  registrations, removals and lookups with valid identifiers, the registry returns exactly
  what a map from identifiers to groups returns: a second registration of a group is refused
  while one is registered, a lookup returns the registered instance, and only the instance
  itself is removed.
\<close>

theorem registry_refines_map:
  assumes "mem (OBJECT_ENTRY_SIZE * 8)" "length xs \<le> 2 ^ 28" "\<forall>x \<in> set xs. ids (op_gid x) \<noteq> None"
  shows "\<exists>reg h' reg'. registry_init mem True True = Some (Some reg) \<and>
    registry_run ids xs h reg = Some (fst (group_run ids xs Map.empty), h', reg') \<and>
    represents ids reg' (snd (group_run ids xs Map.empty))"
proof -
  obtain reg where "registry_init mem True True = Some (Some reg)" "registry_ok ids reg" "store_room reg = 2 ^ 28"
      "represents ids reg Map.empty"
    using registry_init_ok [of mem ids] assms(1) by blast
  with registry_run_ok [of ids reg xs Map.empty h] assms(2,3) show ?thesis
    by auto
qed

theorem registry_refines_map_witness:
  "\<exists>reg h' reg'. registry_init (\<lambda>_. True) True True = Some (Some reg) \<and>
    registry_run (\<lambda>p. Some (if p < 10 then IdStatic DefaultNetPeerGroupID else IdJxta [65]))
      [Register 1 100, Register 2 200, Lookup 3, Lookup 11, Unregister 4 200, Unregister 5 100, Lookup 6] blank_heap reg =
      Some ([(JXTA_SUCCESS, None), (JXTA_ITEM_EXISTS, None), (JXTA_SUCCESS, Some 100), (JXTA_ITEM_NOTFOUND, None),
             (JXTA_VIOLATION, None), (JXTA_SUCCESS, None), (JXTA_ITEM_NOTFOUND, None)], h', reg')"
proof -
  have ne: "id_key (IdStatic DefaultNetPeerGroupID) \<noteq> id_key (IdJxta [65])"
    by (simp add: id_key_def uniquevalue_def well_known_value_def)
  show ?thesis
    using registry_refines_map [of "\<lambda>_. True"
        "[Register 1 100, Register 2 200, Lookup 3, Lookup 11, Unregister 4 200, Unregister 5 100, Lookup 6]"
        "\<lambda>p. Some (if p < 10 then IdStatic DefaultNetPeerGroupID else IdJxta [65])" blank_heap] ne
    by (auto simp del: registry_run.simps)
qed

end
