(* ===== verification/ByteStream.thy ===== *)
theory ByteStream
  imports JStringBuf
begin

section \<open>Byte streams\<close>

text \<open>
  Messages are read and written through functions that their caller hands over
  (\<open>ReadFunc\<close>, \<open>WriteFunc\<close>).  Here are the two interfaces, with the laws their clients rely
  on, and the streams of the program that provide them: the buffer of the multicast
  transport (src/src/jxta_tcp_multicast.c), read and written; a string object written by
  \<open>get_message_to_jstring\<close> (src/src/jxta_message.c); and the counter \<open>msg_wireformat_size\<close>.
  Numbers on the wire are big-endian.  An operation returns \<open>None\<close> where the code accesses
  memory outside of a block.
\<close>

type_synonym 's stream_read = "nat \<Rightarrow> 's \<Rightarrow> (status \<times> u8 list \<times> 's) option"

type_synonym 's stream_write = "u8 list \<Rightarrow> 's \<Rightarrow> (status \<times> 's) option"

subsection \<open>Numbers in network order\<close>

text \<open>The \<open>n\<close> bytes of a number, the most significant first, and the number of bytes.\<close>

fun be_encode :: "nat \<Rightarrow> nat \<Rightarrow> u8 list" where
  "be_encode 0 x = []"
| "be_encode (Suc n) x = word_of_nat (x div 256 ^ n) # be_encode n x"

definition be_decode :: "u8 list \<Rightarrow> nat" where
  "be_decode bs = foldl (\<lambda>a b. 256 * a + unat b) 0 bs"

lemma length_be_encode [simp]: "length (be_encode n x) = n"
  by (induction n) auto

lemma be_decode_append: "foldl (\<lambda>a b. 256 * a + unat (b :: u8)) c bs = c * 256 ^ length bs + be_decode bs"
proof (induction bs arbitrary: c)
  case (Cons b bs)
  show ?case
    using Cons [of "256 * c + unat b"] Cons [of "unat b"] by (simp add: be_decode_def algebra_simps)
qed (simp add: be_decode_def)

lemma be_roundtrip [simp]: "be_decode (be_encode n x) = x mod 256 ^ n"
proof (induction n)
  case (Suc n)
  have "be_decode (be_encode (Suc n) x) = unat (word_of_nat (x div 256 ^ n) :: u8) * 256 ^ n + be_decode (be_encode n x)"
    using be_decode_append [of "unat (word_of_nat (x div 256 ^ n) :: u8)" "be_encode n x"] by (simp add: be_decode_def)
  also have "\<dots> = x div 256 ^ n mod 256 * 256 ^ n + x mod 256 ^ n"
    using Suc by (simp add: unat_of_nat)
  also have "\<dots> = x mod 256 ^ Suc n"
    using mod_mult2_eq [of x "256 ^ n" 256] by (simp add: mult.commute)
  finally show ?case .
qed (simp add: be_decode_def)

lemma be_decode_less: "be_decode bs < 256 ^ length bs"
proof (induction bs)
  case (Cons b bs)
  have "unat b < 256"
    using unsigned_less [of b, where ?'a = nat] by simp
  then have "unat b * 256 ^ length bs \<le> 255 * 256 ^ length bs"
    by (intro mult_le_mono1) simp
  then have "unat b * 256 ^ length bs + be_decode bs < 256 ^ Suc (length bs)"
    using Cons by (simp only: length_Cons power_Suc)
  then show ?case
    using be_decode_append [of "unat b" bs] by (simp add: be_decode_def)
qed (simp add: be_decode_def)

subsection \<open>The interfaces\<close>

text \<open>A source of bytes: \<open>rest s\<close> are the bytes not read yet.\<close>

locale byte_source =
  fixes rd :: "'s stream_read"
    and ok :: "'s \<Rightarrow> bool"
    and rest :: "'s \<Rightarrow> u8 list"
  assumes read_law:
      "ok s \<Longrightarrow> n \<le> length (rest s) \<Longrightarrow>
       \<exists>s'. rd n s = Some (JXTA_SUCCESS, take n (rest s), s') \<and> ok s' \<and> rest s' = drop n (rest s)"
    and short_law:
      "ok s \<Longrightarrow> length (rest s) < n \<Longrightarrow>
       \<exists>st bs s'. rd n s = Some (st, bs, s') \<and> st \<noteq> JXTA_SUCCESS \<and> ok s' \<and> rest s' = rest s"
begin

lemma read_prefix:
  assumes "ok s" "rest s = bs @ t" "n = length bs"
  shows "\<exists>s'. rd n s = Some (JXTA_SUCCESS, bs, s') \<and> ok s' \<and> rest s' = t"
  using read_law [of s n] assms by simp

lemma read_cases:
  assumes "ok s"
  obtains (got) s' where "n \<le> length (rest s)" "rd n s = Some (JXTA_SUCCESS, take n (rest s), s')" "ok s'"
      "rest s' = drop n (rest s)"
    | (short) st bs s' where "length (rest s) < n" "rd n s = Some (st, bs, s')" "st \<noteq> JXTA_SUCCESS" "ok s'" "rest s' = rest s"
  using read_law [OF assms, of n] short_law [OF assms, of n] by (meson linorder_not_le)

end

text \<open>A sink of bytes: what was written to it and how many bytes it can still take.\<close>

locale byte_sink =
  fixes wr :: "'s stream_write"
    and ok :: "'s \<Rightarrow> bool"
    and written :: "'s \<Rightarrow> u8 list"
    and room :: "'s \<Rightarrow> nat"
  assumes write_law:
    "ok s \<Longrightarrow> length bs \<le> room s \<Longrightarrow>
     \<exists>s'. wr bs s = Some (JXTA_SUCCESS, s') \<and> ok s' \<and> written s' = written s @ bs \<and> room s - length bs \<le> room s'"

text \<open>A function that writes several blocks, up to the first that fails.\<close>

fun write_all :: "'s stream_write \<Rightarrow> u8 list list \<Rightarrow> 's \<Rightarrow> (status \<times> 's) option" where
  "write_all wr [] s = Some (JXTA_SUCCESS, s)"
| "write_all wr (b # bs) s =
     do { (res, s1) \<leftarrow> wr b s; if res \<noteq> JXTA_SUCCESS then Some (res, s1) else write_all wr bs s1 }"

context byte_sink
begin

lemma write_all_ok:
  "ok s \<Longrightarrow> length (concat bs) \<le> room s \<Longrightarrow>
   \<exists>s'. write_all wr bs s = Some (JXTA_SUCCESS, s') \<and> ok s' \<and> written s' = written s @ concat bs \<and>
     room s - length (concat bs) \<le> room s'"
proof (induction bs arbitrary: s)
  case (Cons b bs)
  obtain s1 where s1: "wr b s = Some (JXTA_SUCCESS, s1)" "ok s1" "written s1 = written s @ b" "room s - length b \<le> room s1"
    using write_law [of s b] Cons.prems by auto
  moreover have "length (concat bs) \<le> room s1"
    using s1(4) Cons.prems by simp
  ultimately obtain s' where "write_all wr bs s1 = Some (JXTA_SUCCESS, s')" "ok s'" "written s' = written s1 @ concat bs"
      "room s1 - length (concat bs) \<le> room s'"
    using Cons.IH [of s1] by blast
  then show ?case
    using s1 by simp
qed simp

end

lemma write_all_append:
  "write_all wr (as @ bs) s =
     do { (res, s1) \<leftarrow> write_all wr as s; if res \<noteq> JXTA_SUCCESS then Some (res, s1) else write_all wr bs s1 }"
proof (induction as arbitrary: s)
  case (Cons a as)
  then show ?case
    by (cases "wr a s") auto
qed simp

subsection \<open>The buffer of the multicast transport\<close>

record STREAM =
  data_buf :: "u8 list"
  d_index :: nat
  d_len :: nat
  d_size :: nat

definition stream_init :: "STREAM \<Rightarrow> STREAM" where
  "stream_init s = s\<lparr>data_buf := replicate (d_size s) 0, d_index := 0, d_len := 0\<rparr>"

text \<open>\<open>fresh\<close> is the content of the new block; a failed second allocation leaks the first.\<close>

definition stream_new :: "bool \<Rightarrow> bool \<Rightarrow> (nat \<Rightarrow> u8) \<Rightarrow> nat \<Rightarrow> STREAM option" where
  "stream_new self_ok buf_ok fresh n =
     (if \<not> self_ok \<or> \<not> buf_ok then None
      else Some (stream_init \<lparr>data_buf = map fresh [0..<n], d_index = 0, d_len = 0, d_size = n\<rparr>))"

definition tcp_multicast_read_stream_n :: "nat \<Rightarrow> STREAM \<Rightarrow> (status \<times> u8 list \<times> STREAM) option" where
  "tcp_multicast_read_stream_n n s =
     (if d_len s < n then Some (JXTA_FAILED, [], s)
      else do { bs \<leftarrow> mem_load (data_buf s) (d_index s) n;
                Some (JXTA_SUCCESS, bs, s\<lparr>d_index := d_index s + n, d_len := d_len s - n\<rparr>) })"

definition tcp_multicast_write_stream :: "u8 list \<Rightarrow> STREAM \<Rightarrow> (status \<times> STREAM) option" where
  "tcp_multicast_write_stream bs s =
     (if d_index s + length bs \<ge> d_size s then Some (JXTA_FAILED, s)
      else do { b \<leftarrow> mem_store (data_buf s) (d_index s) bs;
                Some (JXTA_SUCCESS, s\<lparr>data_buf := b, d_index := d_index s + length bs, d_len := d_len s + length bs\<rparr>) })"

definition read_from_tcp_multicast_stream :: "STREAM stream_read" where
  "read_from_tcp_multicast_stream = tcp_multicast_read_stream_n"

definition write_to_tcp_multicast_stream :: "STREAM stream_write" where
  "write_to_tcp_multicast_stream = tcp_multicast_write_stream"

text \<open>The counter of the transports: \<open>apr_int64_t\<close>, as a natural number below 2^63 here.\<close>

definition msg_wireformat_size :: "nat stream_write" where
  "msg_wireformat_size bs n = Some (JXTA_SUCCESS, n + length bs)"

lemma write_all_size: "write_all msg_wireformat_size bs n = Some (JXTA_SUCCESS, n + length (concat bs))"
  by (induction bs arbitrary: n) (auto simp: msg_wireformat_size_def)

definition stream_unread :: "STREAM \<Rightarrow> u8 list" where
  "stream_unread s = take (d_len s) (drop (d_index s) (data_buf s))"

definition stream_written :: "STREAM \<Rightarrow> u8 list" where
  "stream_written s = take (d_index s) (data_buf s)"

definition in_stream_ok :: "STREAM \<Rightarrow> bool" where
  "in_stream_ok s \<longleftrightarrow> length (data_buf s) = d_size s \<and> d_index s + d_len s \<le> d_size s"

definition out_stream_ok :: "STREAM \<Rightarrow> bool" where
  "out_stream_ok s \<longleftrightarrow> length (data_buf s) = d_size s \<and> d_index s < d_size s"

definition stream_room :: "STREAM \<Rightarrow> nat" where
  "stream_room s = d_size s - d_index s - 1"

interpretation mcast_in: byte_source read_from_tcp_multicast_stream in_stream_ok stream_unread
proof
  fix s n
  assume "in_stream_ok s" "n \<le> length (stream_unread s)"
  then show "\<exists>s'. read_from_tcp_multicast_stream n s = Some (JXTA_SUCCESS, take n (stream_unread s), s') \<and>
      in_stream_ok s' \<and> stream_unread s' = drop n (stream_unread s)"
    by (auto simp: in_stream_ok_def stream_unread_def read_from_tcp_multicast_stream_def
        tcp_multicast_read_stream_n_def mem_simps min_def drop_take add.commute split: if_splits)
next
  fix s n
  assume "in_stream_ok s" "length (stream_unread s) < n"
  then show "\<exists>st bs s'. read_from_tcp_multicast_stream n s = Some (st, bs, s') \<and> st \<noteq> JXTA_SUCCESS \<and> in_stream_ok s' \<and>
      stream_unread s' = stream_unread s"
    by (auto simp: in_stream_ok_def stream_unread_def read_from_tcp_multicast_stream_def
        tcp_multicast_read_stream_n_def min_def split: if_splits)
qed

interpretation mcast_out: byte_sink write_to_tcp_multicast_stream out_stream_ok stream_written stream_room
proof
  fix s and bs :: "u8 list"
  assume "out_stream_ok s" "length bs \<le> stream_room s"
  then show "\<exists>s'. write_to_tcp_multicast_stream bs s = Some (JXTA_SUCCESS, s') \<and> out_stream_ok s' \<and>
      stream_written s' = stream_written s @ bs \<and> stream_room s - length bs \<le> stream_room s'"
    by (auto simp: out_stream_ok_def stream_room_def stream_written_def write_to_tcp_multicast_stream_def
        tcp_multicast_write_stream_def mem_simps min_def)
qed

subsection \<open>A string object as a sink\<close>

definition get_message_to_jstring :: "allocator \<Rightarrow> jstring stream_write" where
  "get_message_to_jstring A bs js =
     do { js1 \<leftarrow> jstring_append_0 A js (Some bs) (length bs); Some (JXTA_SUCCESS, js1) }"

definition jstring_sink_ok :: "allocator \<Rightarrow> jstring \<Rightarrow> bool" where
  "jstring_sink_ok A js \<longleftrightarrow> big_alloc A \<and> jstring_ok js \<and> bufsize js < 2 ^ 60 \<and> jlength js < 2 ^ 58"

definition jstring_room :: "jstring \<Rightarrow> nat" where
  "jstring_room js = 2 ^ 58 - 1 - jlength js"

interpretation jstring_out: byte_sink "get_message_to_jstring A" "jstring_sink_ok A" jtext jstring_room
  for A
proof
  fix js and bs :: "u8 list"
  assume ok: "jstring_sink_ok A js" and room: "length bs \<le> jstring_room js"
  show "\<exists>js'. get_message_to_jstring A bs js = Some (JXTA_SUCCESS, js') \<and> jstring_sink_ok A js' \<and>
      jtext js' = jtext js @ bs \<and> jstring_room js - length bs \<le> jstring_room js'"
  proof -
    have len: "jlength js + length bs + 1 \<le> 2 ^ 58"
      using room ok by (auto simp: jstring_room_def jstring_sink_ok_def)
    then obtain js' where js': "jstring_append_0 A js (Some bs) (length bs) = Some js'" "jstring_ok js'" "jtext js' = jtext js @ bs"
        "bufsize js' \<le> max (bufsize js) (2 * (jlength js + length bs + 1))"
      using append_0_ok [of js A "length bs" bs] ok by (auto simp: jstring_sink_ok_def)
    have "bufsize js' < 2 ^ 60"
      using js'(4) ok len by (auto simp: jstring_sink_ok_def max_def split: if_splits)
    moreover have "jlength js' = jlength js + length bs"
      using jtext_length [of js] jtext_length [of js'] ok js' by (simp add: jstring_sink_ok_def)
    ultimately show ?thesis
      using js' ok len by (auto simp: jstring_sink_ok_def get_message_to_jstring_def jstring_room_def)
  qed
qed

end
