(* ===== verification/QoS.thy ===== *)
theory QoS
  imports CString ObjectHashTable
begin

section \<open>Quality of service settings (src/src/jxta_qos.c, src/src/jxta_util_priv.c)\<close>

text \<open>
  A QoS object is a map from names to values (texts) that can be made immutable; messages
  carry one for their priority, time to live and lifespan.  It travels as XML text.  The hash
  table, the XML parser and the printing of numbers are of the APR library: the table is a
  map; \<open>iter\<close> gives its entries in the order of the iteration; \<open>parse\<close> is the parser, with
  the tree it builds; \<open>ltoa\<close> prints a \<open>long\<close>.  An operation returns \<open>None\<close> where the code uses
  a null pointer.  The nested mutex is always given back and is a lock count.
\<close>

record jxta_qos =
  qos_ht :: "(ctext \<rightharpoonup> ctext) option"
  qos_mutex :: mutex
  qos_immutable :: bool

text \<open>
  An element of a parsed document: its name, the first piece of its character data, and its
  children.
\<close>

datatype xml_elem = XmlElem (xml_name: ctext) (xml_cdata: "ctext option") (xml_children: "xml_elem list")

text \<open>\<open>strtol\<close> in base 10: the value, clamped to \<open>long\<close>, and the text behind the number.\<close>

definition strtol10 :: "ctext \<Rightarrow> int \<times> ctext" where
  "strtol10 v =
     (let s1 = dropWhile isspace v;
          neg = (case s1 of c # _ \<Rightarrow> c = 45 | [] \<Rightarrow> False);
          s2 = (case s1 of c # t \<Rightarrow> if c = 45 \<or> c = 43 then t else s1 | [] \<Rightarrow> s1);
          ds = takeWhile isdigit s2;
          n = foldl (\<lambda>a c. 10 * a + (uint c - 48)) 0 ds;
          k = (if neg then - n else n)
      in if ds = [] then (0, v)
         else (max (- (2 ^ 63)) (min (2 ^ 63 - 1) k), dropWhile isdigit s2))"

subsection \<open>Creation\<close>

definition qos_lock :: "jxta_qos \<Rightarrow> jxta_qos" where
  "qos_lock q = q\<lparr>qos_mutex := mutex_lock (qos_mutex q)\<rparr>"

definition qos_unlock :: "jxta_qos \<Rightarrow> jxta_qos" where
  "qos_unlock q = q\<lparr>qos_mutex := mutex_unlock (qos_mutex q)\<rparr>"

text \<open>\<open>pool_ok\<close>, \<open>hash_ok\<close> and \<open>mutex_ok\<close>: the allocations and the creation of the mutex.\<close>

definition jxta_qos_create :: "bool \<Rightarrow> bool \<Rightarrow> bool \<Rightarrow> status \<times> jxta_qos option" where
  "jxta_qos_create pool_ok hash_ok mutex_ok =
     (if \<not> pool_ok \<or> \<not> hash_ok then (JXTA_NOMEM, None)
      else if \<not> mutex_ok then (JXTA_FAILED, None)
      else (JXTA_SUCCESS, Some \<lparr>qos_ht = Some Map.empty, qos_mutex = Some 0, qos_immutable = False\<rparr>))"

text \<open>The loop over the children of \<open>QoS_Setting\<close>; the table is made for the first setting.\<close>

fun qos_children :: "xml_elem list \<Rightarrow> (ctext \<rightharpoonup> ctext) option \<Rightarrow> (ctext \<rightharpoonup> ctext) option option" where
  "qos_children [] ht = Some ht"
| "qos_children (e # es) ht =
     (if xml_name e \<noteq> str ''QoS'' then qos_children es ht
      else case xml_children e of
        [] \<Rightarrow> None
      | ve # _ \<Rightarrow>
          if xml_name ve \<noteq> str ''Value'' then qos_children es ht
          else do { k \<leftarrow> xml_cdata e; v \<leftarrow> xml_cdata ve;
                    qos_children es (Some ((case ht of None \<Rightarrow> Map.empty | Some m \<Rightarrow> m)(k \<mapsto> v))) })"

definition xml_to_qos_setting ::
  "bool \<Rightarrow> (ctext \<Rightarrow> xml_elem option) \<Rightarrow> ctext \<Rightarrow> (status \<times> (ctext \<rightharpoonup> ctext) option) option" where
  "xml_to_qos_setting parser_ok parse xml =
     (if \<not> parser_ok then Some (JXTA_FAILED, None)
      else case parse xml of
        None \<Rightarrow> Some (JXTA_INVALID_ARGUMENT, None)
      | Some root \<Rightarrow>
          if xml_name root \<noteq> str ''QoS_Setting'' then Some (JXTA_INVALID_ARGUMENT, None)
          else do { ht \<leftarrow> qos_children (xml_children root) None; Some (JXTA_SUCCESS, ht) })"

definition jxta_qos_create_1 ::
  "bool \<Rightarrow> bool \<Rightarrow> bool \<Rightarrow> (ctext \<Rightarrow> xml_elem option) \<Rightarrow> ctext \<Rightarrow> (status \<times> jxta_qos option) option" where
  "jxta_qos_create_1 pool_ok parser_ok mutex_ok parse xml =
     (if \<not> pool_ok then Some (JXTA_NOMEM, None)
      else do { (rv, ht) \<leftarrow> xml_to_qos_setting parser_ok parse xml;
                if rv \<noteq> JXTA_SUCCESS then Some (rv, None)
                else if \<not> mutex_ok then Some (JXTA_FAILED, None)
                else Some (JXTA_SUCCESS, Some \<lparr>qos_ht = ht, qos_mutex = Some 0, qos_immutable = False\<rparr>) })"

text \<open>The copy is mutable; the copy of a null table crashes.\<close>

definition jxta_qos_clone :: "bool \<Rightarrow> bool \<Rightarrow> bool \<Rightarrow> jxta_qos \<Rightarrow> (status \<times> jxta_qos option) option" where
  "jxta_qos_clone pool_ok copy_ok mutex_ok src =
     (if \<not> pool_ok then Some (JXTA_NOMEM, None)
      else do { m \<leftarrow> qos_ht (qos_lock src);
                if \<not> copy_ok then Some (JXTA_NOMEM, None)
                else if \<not> mutex_ok then Some (JXTA_FAILED, None)
                else Some (JXTA_SUCCESS, Some \<lparr>qos_ht = Some m, qos_mutex = Some 0, qos_immutable = False\<rparr>) })"

definition jxta_qos_set_immutable :: "jxta_qos \<Rightarrow> status \<times> jxta_qos" where
  "jxta_qos_set_immutable q = (JXTA_SUCCESS, q\<lparr>qos_immutable := True\<rparr>)"

definition jxta_qos_is_immutable :: "jxta_qos \<Rightarrow> bool" where
  "jxta_qos_is_immutable q = qos_immutable q"

subsection \<open>Settings\<close>

definition jxta_qos_set :: "jxta_qos \<Rightarrow> ctext \<Rightarrow> ctext \<Rightarrow> (status \<times> jxta_qos) option" where
  "jxta_qos_set me name v =
     (let q = qos_lock me in
      if qos_immutable q then Some (JXTA_FAILED, qos_unlock q)
      else do { m \<leftarrow> qos_ht q; Some (JXTA_SUCCESS, qos_unlock (q\<lparr>qos_ht := Some (m(name \<mapsto> v))\<rparr>)) })"

definition jxta_qos_add :: "jxta_qos \<Rightarrow> ctext \<Rightarrow> ctext \<Rightarrow> (status \<times> jxta_qos) option" where
  "jxta_qos_add me name v =
     (let q = qos_lock me in
      if qos_immutable q then Some (JXTA_FAILED, qos_unlock q)
      else do { m \<leftarrow> qos_ht q;
                if m name \<noteq> None then Some (JXTA_BUSY, qos_unlock q)
                else Some (JXTA_SUCCESS, qos_unlock (q\<lparr>qos_ht := Some (m(name \<mapsto> v))\<rparr>)) })"

definition jxta_qos_get :: "jxta_qos \<Rightarrow> ctext \<Rightarrow> (status \<times> ctext option) option" where
  "jxta_qos_get me name =
     do { m \<leftarrow> qos_ht (qos_lock me);
          Some (if m name \<noteq> None then JXTA_SUCCESS else JXTA_ITEM_NOTFOUND, m name) }"

definition jxta_qos_set_long :: "(int \<Rightarrow> ctext) \<Rightarrow> jxta_qos \<Rightarrow> ctext \<Rightarrow> int \<Rightarrow> (status \<times> jxta_qos) option" where
  "jxta_qos_set_long ltoa me name v =
     (let q = qos_lock me in
      if qos_immutable q then Some (JXTA_FAILED, qos_unlock q)
      else do { m \<leftarrow> qos_ht q; Some (JXTA_SUCCESS, qos_unlock (q\<lparr>qos_ht := Some (m(name \<mapsto> ltoa v))\<rparr>)) })"

definition jxta_qos_add_long :: "(int \<Rightarrow> ctext) \<Rightarrow> jxta_qos \<Rightarrow> ctext \<Rightarrow> int \<Rightarrow> (status \<times> jxta_qos) option" where
  "jxta_qos_add_long ltoa me name v =
     (let q = qos_lock me in
      if qos_immutable q then Some (JXTA_FAILED, qos_unlock q)
      else do { m \<leftarrow> qos_ht q;
                if m name \<noteq> None then Some (JXTA_BUSY, qos_unlock q)
                else Some (JXTA_SUCCESS, qos_unlock (q\<lparr>qos_ht := Some (m(name \<mapsto> ltoa v))\<rparr>)) })"

text \<open>
  A value with something behind its number is refused; a value without any number is
  accepted, as 0.  The number is assigned in both cases.
\<close>

definition jxta_qos_get_long :: "jxta_qos \<Rightarrow> ctext \<Rightarrow> (status \<times> int option) option" where
  "jxta_qos_get_long me name =
     do { m \<leftarrow> qos_ht (qos_lock me);
          Some (case m name of
                  None \<Rightarrow> (JXTA_ITEM_NOTFOUND, None)
                | Some v \<Rightarrow> (let (n, tmp) = strtol10 v in
                     (if tmp \<noteq> v \<and> tmp \<noteq> [] then JXTA_INVALID_ARGUMENT else JXTA_SUCCESS, Some n))) }"

subsection \<open>Printing\<close>

definition qos_entry_xml :: "ctext \<times> ctext \<Rightarrow> ctext" where
  "qos_entry_xml e = str ''<QoS>'' @ fst e @ str ''<Value>'' @ snd e @ str ''</Value></QoS>''"

definition qos_setting_to_xml :: "((ctext \<rightharpoonup> ctext) \<Rightarrow> (ctext \<times> ctext) list) \<Rightarrow> (ctext \<rightharpoonup> ctext) \<Rightarrow> status \<times> ctext" where
  "qos_setting_to_xml iter m =
     (JXTA_SUCCESS,
      if iter m = [] then []
      else str ''<QoS_Setting>'' @ concat (map qos_entry_xml (iter m)) @ str ''</QoS_Setting>'')"

definition jxta_qos_setting_to_xml ::
  "((ctext \<rightharpoonup> ctext) \<Rightarrow> (ctext \<times> ctext) list) \<Rightarrow> jxta_qos \<Rightarrow> (status \<times> ctext) option" where
  "jxta_qos_setting_to_xml iter me = do { m \<leftarrow> qos_ht (qos_lock me); Some (qos_setting_to_xml iter m) }"

fun qos_names_xml :: "ctext list \<Rightarrow> ctext" where
  "qos_names_xml [] = []"
| "qos_names_xml (n # ns) = str ''<QoS>'' @ n @ str ''</QoS>'' @ qos_names_xml ns"

text \<open>The list of capabilities ends at an empty name.\<close>

definition qos_support_to_xml :: "ctext list \<Rightarrow> status \<times> ctext" where
  "qos_support_to_xml capability_list =
     (let names = takeWhile (\<lambda>n. n \<noteq> []) capability_list in
      (JXTA_SUCCESS,
       if names = [] then [] else str ''<QoS_Support>'' @ qos_names_xml names @ str ''</QoS_Support>''))"

definition xml_to_qos_support :: "ctext \<Rightarrow> status" where
  "xml_to_qos_support xml = JXTA_NOTIMP"

subsection \<open>Lemmas\<close>

lemmas qos_defs = jxta_qos_set_def jxta_qos_add_def jxta_qos_get_def jxta_qos_set_long_def
  jxta_qos_add_long_def jxta_qos_get_long_def qos_lock_def qos_unlock_def mutex_lock_def mutex_unlock_def

text \<open>What APR documents of its functions.\<close>

definition ltoa_law :: "(int \<Rightarrow> ctext) \<Rightarrow> bool" where
  "ltoa_law ltoa \<longleftrightarrow> (\<forall>v. - (2 ^ 63) \<le> v \<and> v < 2 ^ 63 \<longrightarrow> strtol10 (ltoa v) = (v, []) \<and> ltoa v \<noteq> [])"

definition iter_law :: "((ctext \<rightharpoonup> ctext) \<Rightarrow> (ctext \<times> ctext) list) \<Rightarrow> (ctext \<rightharpoonup> ctext) \<Rightarrow> bool" where
  "iter_law iter m \<longleftrightarrow> map_of (iter m) = m \<and> distinct (map fst (iter m))"

text \<open>The tree of a printed setting.\<close>

definition qos_tree :: "(ctext \<times> ctext) list \<Rightarrow> xml_elem" where
  "qos_tree kvs =
     XmlElem (str ''QoS_Setting'') None
       (map (\<lambda>(k, v). XmlElem (str ''QoS'') (Some k) [XmlElem (str ''Value'') (Some v) []]) kvs)"

definition parse_law :: "(ctext \<Rightarrow> xml_elem option) \<Rightarrow> (ctext \<times> ctext) list \<Rightarrow> bool" where
  "parse_law parse kvs \<longleftrightarrow>
     parse (str ''<QoS_Setting>'' @ concat (map qos_entry_xml kvs) @ str ''</QoS_Setting>'') = Some (qos_tree kvs)"

lemma qos_children_tree:
  "distinct (map fst kvs) \<Longrightarrow> kvs \<noteq> [] \<or> ht \<noteq> None \<Longrightarrow> \<forall>m. ht = Some m \<longrightarrow> dom m \<inter> fst ` set kvs = {} \<Longrightarrow>
   qos_children (xml_children (qos_tree kvs)) ht =
     Some (Some ((case ht of None \<Rightarrow> Map.empty | Some m \<Rightarrow> m) ++ map_of kvs))"
proof (induction kvs arbitrary: ht)
  case Nil
  then show ?case
    by (auto simp: qos_tree_def)
next
  case (Cons kv kvs)
  obtain k v where kv: "kv = (k, v)"
    by (cases kv)
  let ?m = "case ht of None \<Rightarrow> Map.empty | Some m \<Rightarrow> m"
  have "qos_children (xml_children (qos_tree (kv # kvs))) ht = qos_children (xml_children (qos_tree kvs)) (Some (?m(k \<mapsto> v)))"
    by (simp add: qos_tree_def kv)
  also have "\<dots> = Some (Some (?m(k \<mapsto> v) ++ map_of kvs))"
    using Cons.prems kv by (subst Cons.IH) (auto simp: rev_image_eqI split: option.splits)
  also have "?m(k \<mapsto> v) ++ map_of kvs = ?m ++ map_of (kv # kvs)"
    using Cons.prems(1) kv by (simp add: map_add_upd_left dom_map_of_conv_image_fst)
  finally show ?case .
qed

lemma qos_roundtrip_lemma:
  assumes "qos_ht q = Some m" "iter_law iter m" "m \<noteq> Map.empty" "parse_law parse (iter m)"
  shows "\<exists>xml q'. jxta_qos_setting_to_xml iter q = Some (JXTA_SUCCESS, xml) \<and>
    jxta_qos_create_1 True True True parse xml = Some (JXTA_SUCCESS, Some q') \<and>
    qos_ht q' = Some m \<and> \<not> qos_immutable q'"
proof -
  have kvs: "map_of (iter m) = m" "distinct (map fst (iter m))" "iter m \<noteq> []"
    using assms(2,3) by (auto simp: iter_law_def)
  have "qos_children (xml_children (qos_tree (iter m))) None = Some (Some m)"
    using qos_children_tree [OF kvs(2), of None] kvs by simp
  then show ?thesis
    using assms(1,4) kvs(3)
    by (simp add: jxta_qos_setting_to_xml_def qos_lock_def qos_setting_to_xml_def jxta_qos_create_1_def
        xml_to_qos_setting_def parse_law_def jxta_qos_is_immutable_def) (simp add: qos_tree_def)
qed

subsection \<open>Properties\<close>


text \<open>A QoS object with one setting, and the parser and iteration it needs.\<close>

definition sample_qos :: jxta_qos where
  "sample_qos = \<lparr>qos_ht = Some [str ''jxtaMsg:TTL'' \<mapsto> str ''5''], qos_mutex = Some 0, qos_immutable = True\<rparr>"


text \<open>
  Numeric settings.  In a mutable object a number written is read back and other settings
  are unchanged, and adding a setting that exists returns \<open>JXTA_BUSY\<close>; an immutable object
  refuses both and does not change; the mutex is given back in each case.
\<close>

theorem qos_long_settings:
  assumes q: "qos_ht q = Some m" and l: "ltoa_law ltoa" and v: "- (2 ^ 63) \<le> v" "v < 2 ^ 63"
  shows "\<exists>q'. jxta_qos_set_long ltoa q name v = Some (if qos_immutable q then JXTA_FAILED else JXTA_SUCCESS, q') \<and>
    qos_mutex q' = qos_mutex q \<and> qos_immutable q' = qos_immutable q \<and>
    (if qos_immutable q then q' = q
     else jxta_qos_get_long q' name = Some (JXTA_SUCCESS, Some v) \<and>
       (\<forall>other. other = name \<or> jxta_qos_get q' other = jxta_qos_get q other) \<and>
       jxta_qos_add_long ltoa q' name w = Some (JXTA_BUSY, q'))"
proof -
  have "strtol10 (ltoa v) = (v, [])" "ltoa v \<noteq> []"
    using l v by (auto simp: ltoa_law_def)
  moreover have "map_option (\<lambda>d. d - 1) (map_option Suc mu) = mu" for mu :: mutex
    by (simp add: option.map_comp comp_def option.map_ident)
  ultimately show ?thesis
    using q by (simp add: qos_defs Let_def)
qed

text \<open>A decimal printer, for the examples.\<close>

fun digits10 :: "nat \<Rightarrow> nat \<Rightarrow> ctext" where
  "digits10 0 n = []"
| "digits10 (Suc f) n = (if n < 10 then [] else digits10 f (n div 10)) @ [48 + word_of_nat (n mod 10)]"

definition print10 :: "int \<Rightarrow> ctext" where
  "print10 v = (if v < 0 then [45] else []) @ digits10 20 (nat \<bar>v\<bar>)"

lemma digit_char:
  assumes "d < 10"
  shows "isdigit (48 + word_of_nat d)" "uint (48 + word_of_nat d :: u8) = 48 + int d"
proof -
  have u: "unat (48 + word_of_nat d :: u8) = 48 + d"
    using assms by (simp add: unat_word_ariths unat_of_nat)
  then show "isdigit (48 + word_of_nat d)"
    using assms by (simp add: isdigit_def word_le_nat_alt)
  show "uint (48 + word_of_nat d :: u8) = 48 + int d"
    using u by (metis of_nat_add of_nat_numeral uint_nat)
qed

lemma digits10_ok:
  "n < 10 ^ f \<Longrightarrow> 0 < f \<Longrightarrow>
   digits10 f n \<noteq> [] \<and> (\<forall>c \<in> set (digits10 f n). isdigit c) \<and>
   foldl (\<lambda>a c. 10 * a + (uint c - 48)) 0 (digits10 f n) = int n"
proof (induction f arbitrary: n)
  case (Suc f)
  have d: "n mod 10 < 10"
    by simp
  show ?case
  proof (cases "n < 10")
    case True
    then show ?thesis
      using digit_char [of n] by simp
  next
    case False
    then have "0 < f" "n div 10 < 10 ^ f"
      using Suc.prems(1) by (auto intro: gr0I)
    from Suc.IH [OF this(2,1)] show ?thesis
      using False digit_char [OF d] by (auto simp: zmod_int zdiv_int)
  qed
qed simp

lemma print10_law: "ltoa_law print10"
  unfolding ltoa_law_def
proof (intro allI impI)
  fix v :: int
  assume v: "- (2 ^ 63) \<le> v \<and> v < 2 ^ 63"
  let ?d = "digits10 20 (nat \<bar>v\<bar>)"
  have "nat \<bar>v\<bar> < 10 ^ 20"
    using v by auto
  from digits10_ok [OF this] have d: "?d \<noteq> []" "\<forall>c \<in> set ?d. isdigit c"
      "foldl (\<lambda>a c. 10 * a + (uint c - 48)) 0 ?d = \<bar>v\<bar>"
    by auto
  obtain c t where ct: "?d = c # t"
    using d(1) by (cases ?d) auto
  then have c: "\<not> isspace c" "c \<noteq> 45" "c \<noteq> 43"
    using d(2) by (auto simp: isdigit_def isspace_def word_le_nat_alt)
  have tw: "isdigit c" "dropWhile isdigit t = []" and tk: "takeWhile isdigit t = t"
    using d(2) ct by (auto simp: takeWhile_eq_all_conv dropWhile_eq_Nil_conv)
  have sp: "\<not> isspace 45"
    by (simp add: isspace_def)
  show "strtol10 (print10 v) = (v, []) \<and> print10 v \<noteq> []"
    using v d(3) tw c sp unfolding print10_def ct
    by (auto simp: strtol10_def Let_def tk)
qed

theorem qos_long_settings_witness:
  "\<exists>q'. jxta_qos_set_long print10 (sample_qos\<lparr>qos_immutable := False\<rparr>) (str ''jxtaMsg:TTL'') (- 42) = Some (JXTA_SUCCESS, q') \<and>
    jxta_qos_get_long q' (str ''jxtaMsg:TTL'') = Some (JXTA_SUCCESS, Some (- 42))"
  using qos_long_settings [of "sample_qos\<lparr>qos_immutable := False\<rparr>" "[str ''jxtaMsg:TTL'' \<mapsto> str ''5'']" print10 "- 42"
      "str ''jxtaMsg:TTL''"] print10_law
  by (auto simp: sample_qos_def)

end
