(* ===== verification/MessageWire.thy ===== *)
theory MessageWire
  imports ByteStream QoS
begin

section \<open>The wire format of messages (src/src/jxta_message.c)\<close>

text \<open>
  A message is a sequence of elements: a namespace, a name, an optional MIME type, a value and
  an optional signature, which is an element itself.  Two versions of the binary format are
  written and read.  In version 1 the namespaces are numbered by one byte, elements are
  grouped by namespace and signatures are dropped; in version 2 namespaces and MIME types are
  numbered by 16 bits in one table.

  Texts are C strings, given by the bytes before their terminating zero; the value of an
  element is the content of its byte vector (\<open>bview\<close>); the elements of a message are the list
  that its vector holds.  \<open>A\<close> is the allocator of the blocks whose sizes come from the wire; the
  other allocations succeed here.  A result is \<open>None\<close> where the code reads or writes outside of
  a block, uses a null pointer or never ends.
\<close>

datatype jxta_message_element =
  Element (el_ns: ctext) (el_name: ctext) (el_mime: "ctext option") (el_value: "u8 list")
    (el_sig: "jxta_message_element option")

record jxta_message =
  melements :: "jxta_message_element list"
  mqos :: "jxta_qos option"

definition MESSAGE_EMPTYNS :: ctext where "MESSAGE_EMPTYNS = []"
definition MESSAGE_JXTANS :: ctext where "MESSAGE_JXTANS = str ''jxta''"
definition MESSAGE_QOS_SETTING_NAME :: ctext where "MESSAGE_QOS_SETTING_NAME = str ''QoS_Setting''"
definition MESSAGE_JXTABINARYWIRE_MIME :: ctext where "MESSAGE_JXTABINARYWIRE_MIME = str ''application/x-jxta-msg''"

definition JXTAMSG_MSGMAGICSIG :: "u8 list" where "JXTAMSG_MSGMAGICSIG = str ''jxmg''"
definition JXTAMSG_ELMMAGICSIG :: "u8 list" where "JXTAMSG_ELMMAGICSIG = str ''jxel''"

definition JXTAMSG_MSGVERS1 :: u8 where "JXTAMSG_MSGVERS1 = 0"
definition JXTAMSG_MSGVERS2 :: u8 where "JXTAMSG_MSGVERS2 = 1"
definition JXTAMSG_MSGVERS :: u8 where "JXTAMSG_MSGVERS = 0"
definition JXTAMSG1_ELMFLAG_TYPE :: u8 where "JXTAMSG1_ELMFLAG_TYPE = 1"
definition JXTAMSG2_ELMFLAG_UINT64_LENS :: u8 where "JXTAMSG2_ELMFLAG_UINT64_LENS = 1"
definition JXTAMSG2_ELMFLAG_NAME_LITERAL :: u8 where "JXTAMSG2_ELMFLAG_NAME_LITERAL = 2"
definition JXTAMSG2_ELMFLAG_TYPE :: u8 where "JXTAMSG2_ELMFLAG_TYPE = 4"
definition JXTAMSG2_ELMFLAG_SIGNATURE :: u8 where "JXTAMSG2_ELMFLAG_SIGNATURE = 8"
definition JXTAMSG2_ELMFLAG_ENCODINGS :: u8 where "JXTAMSG2_ELMFLAG_ENCODINGS = 16"
definition JXTAMSG2_ELMFLAG_ENCODED_SIGNED :: u8 where "JXTAMSG2_ELMFLAG_ENCODED_SIGNED = 32"
definition JXTAMSG_NAMES_LITERAL_IDX :: nat where "JXTAMSG_NAMES_LITERAL_IDX = 65535"

lemmas msg_consts =
  MESSAGE_EMPTYNS_def MESSAGE_JXTANS_def JXTAMSG_MSGVERS1_def JXTAMSG_MSGVERS2_def JXTAMSG_MSGVERS_def
  JXTAMSG1_ELMFLAG_TYPE_def JXTAMSG2_ELMFLAG_UINT64_LENS_def JXTAMSG2_ELMFLAG_NAME_LITERAL_def
  JXTAMSG2_ELMFLAG_TYPE_def JXTAMSG2_ELMFLAG_SIGNATURE_def JXTAMSG2_ELMFLAG_ENCODINGS_def
  JXTAMSG2_ELMFLAG_ENCODED_SIGNED_def JXTAMSG_NAMES_LITERAL_IDX_def

definition jxta_message_element_get_mime_type :: "jxta_message_element \<Rightarrow> ctext" where
  "jxta_message_element_get_mime_type e =
     (case el_mime e of None \<Rightarrow> str ''application/octet-stream'' | Some m \<Rightarrow> m)"

subsection \<open>Strings and names\<close>

text \<open>The length is cast to 16 bits, all bytes of the string are written.\<close>

definition string_write :: "'s stream_write \<Rightarrow> ctext \<Rightarrow> 's \<Rightarrow> (status \<times> 's) option" where
  "string_write wr s st = write_all wr [be_encode 2 (length s), s] st"

definition string_write4 :: "'s stream_write \<Rightarrow> ctext \<Rightarrow> 's \<Rightarrow> (status \<times> 's) option" where
  "string_write4 wr s st = write_all wr [be_encode 4 (length s), s] st"

text \<open>\<open>None\<close> for a null pointer; the block is a C string from then on.\<close>

definition string_read :: "allocator \<Rightarrow> 's stream_read \<Rightarrow> 's \<Rightarrow> (ctext option \<times> 's) option" where
  "string_read A rd s =
     do { (res, bs, s1) \<leftarrow> rd 2 s;
          if res \<noteq> JXTA_SUCCESS then Some (None, s1)
          else (let len = be_decode bs in
            if \<not> can_alloc A (len + 1) then Some (None, s1)
            else do { (res, bytes, s2) \<leftarrow> rd len s1;
                      if res \<noteq> JXTA_SUCCESS then Some (None, s2) else Some (Some (cstr bytes), s2) }) }"

text \<open>\<open>len + 1\<close> wraps in 32 bits.\<close>

definition string_read4 :: "allocator \<Rightarrow> 's stream_read \<Rightarrow> 's \<Rightarrow> (ctext option \<times> 's) option" where
  "string_read4 A rd s =
     do { (res, bs, s1) \<leftarrow> rd 4 s;
          if res \<noteq> JXTA_SUCCESS then Some (None, s1)
          else (let len = be_decode bs in
            if \<not> can_alloc A ((len + 1) mod 2 ^ 32) then Some (None, s1)
            else if (len + 1) mod 2 ^ 32 < len then None
            else do { (res, bytes, s2) \<leftarrow> rd len s1;
                      if res \<noteq> JXTA_SUCCESS then Some (None, s2) else Some (Some (cstr bytes), s2) }) }"

text \<open>The search counts in 16 bits; with \<open>names_count + 1\<close> rounds it is over or it never ends.\<close>

fun lookup_token_loop :: "nat \<Rightarrow> ctext \<Rightarrow> ctext list \<Rightarrow> nat \<Rightarrow> nat option" where
  "lookup_token_loop 0 name names i = None"
| "lookup_token_loop (Suc fuel) name names i =
     (if i < length names
      then (if name = names ! i then Some i else lookup_token_loop fuel name names ((i + 1) mod 65536))
      else Some JXTAMSG_NAMES_LITERAL_IDX)"

definition lookup_name_token :: "ctext \<Rightarrow> ctext list \<Rightarrow> nat option" where
  "lookup_name_token name names = lookup_token_loop (length names + 1) name names 0"

definition lookup_name_string :: "nat \<Rightarrow> ctext list \<Rightarrow> ctext option" where
  "lookup_name_string token names = (if token \<ge> length names then None else Some (names ! token))"

definition name_read :: "allocator \<Rightarrow> 's stream_read \<Rightarrow> ctext list \<Rightarrow> 's \<Rightarrow> (ctext option \<times> 's) option" where
  "name_read A rd names s =
     do { (res, bs, s1) \<leftarrow> rd 2 s;
          if res \<noteq> JXTA_SUCCESS then Some (None, s1)
          else (let name_idx = be_decode bs in
            if name_idx = JXTAMSG_NAMES_LITERAL_IDX then string_read A rd s1
            else Some (lookup_name_string name_idx names, s1)) }"

text \<open>A name is added behind the others if none of them equals it.\<close>

fun add_name :: "ctext \<Rightarrow> ctext list \<Rightarrow> ctext list" where
  "add_name name [] = [name]"
| "add_name name (n # ns) = (if name = n then n # ns else n # add_name name ns)"

subsection \<open>Elements\<close>

definition jxta_message_element_new_3 ::
  "ctext option \<Rightarrow> ctext option \<Rightarrow> ctext option \<Rightarrow> u8 list \<Rightarrow> jxta_message_element option \<Rightarrow> jxta_message_element option" where
  "jxta_message_element_new_3 ns ncname mime v sig =
     (case (ns, ncname) of (Some n, Some c) \<Rightarrow> Some (Element n c mime v sig) | _ \<Rightarrow> None)"

text \<open>The value vector of an element that is read: created, extended and filled.\<close>

definition read_value ::
  "allocator \<Rightarrow> 's stream_read \<Rightarrow> u64 \<Rightarrow> 's \<Rightarrow> (status \<times> u8 list \<times> 's) option" where
  "read_value A rd len s =
     (case jxta_bytevector_new_1 A True len of
        None \<Rightarrow> Some (JXTA_NOMEM, [], s)
      | Some v \<Rightarrow>
          do { (err, v1) \<leftarrow> jxta_bytevector_add_bytes_at A (lock_bytes v) None 0 len;
               if err \<noteq> JXTA_SUCCESS then Some (err, [], s)
               else do {
                 (res, bytes, s1) \<leftarrow> rd (unat len) s;
                 (err, v2) \<leftarrow> jxta_bytevector_add_from_stream_at A v (Some (\<lambda>_. (res, bytes))) len 0;
                 if err \<noteq> JXTA_SUCCESS then Some (err, [], s1)
                 else if len \<noteq> jxta_bytevector_size v2 then Some (JXTA_IOERR, [], s1)
                 else Some (JXTA_SUCCESS, bview v2, s1) } })"

text \<open>The namespace number of version 1 is used without a check.\<close>

definition read_v1_element ::
  "allocator \<Rightarrow> 's stream_read \<Rightarrow> ctext list \<Rightarrow> 's \<Rightarrow> (status \<times> jxta_message_element option \<times> 's) option" where
  "read_v1_element A rd names s =
     do { (res, magic, s) \<leftarrow> rd 4 s;
          if res \<noteq> JXTA_SUCCESS then Some (res, None, s)
          else if magic \<noteq> JXTAMSG_ELMMAGICSIG then Some (JXTA_IOERR, None, s)
          else do { (res, nsb, s) \<leftarrow> rd 1 s;
          if res \<noteq> JXTA_SUCCESS then Some (res, None, s)
          else do { (res, fl, s) \<leftarrow> rd 1 s;
          if res \<noteq> JXTA_SUCCESS then Some (res, None, s)
          else do { (name, s) \<leftarrow> string_read A rd s;
          if name = None then Some (JXTA_IOERR, None, s)
          else do { (mime, s) \<leftarrow> (if hd fl AND JXTAMSG1_ELMFLAG_TYPE \<noteq> 0 then string_read A rd s else Some (None, s));
          if hd fl AND JXTAMSG1_ELMFLAG_TYPE \<noteq> 0 \<and> mime = None then Some (JXTA_IOERR, None, s)
          else do { (res, lenb, s) \<leftarrow> rd 4 s;
          if res \<noteq> JXTA_SUCCESS then Some (res, None, s)
          else do { (res, v, s) \<leftarrow> read_value A rd (word_of_nat (be_decode lenb)) s;
          if res \<noteq> JXTA_SUCCESS then Some (res, None, s)
          else do { ns \<leftarrow> mem_read names (unat (hd nsb));
                    let el = jxta_message_element_new_3 (Some ns) name mime v None;
                    if el = None then Some (JXTA_NOMEM, None, s) else Some (JXTA_SUCCESS, el, s) } } } } } } } }"

text \<open>
  Version 2; the recursion for the signature is bounded by the depth of the stack.  With an
  unsupported flag the status is that of the last read, success, without an element.
\<close>

fun read_v2_element ::
  "nat \<Rightarrow> allocator \<Rightarrow> 's stream_read \<Rightarrow> ctext list \<Rightarrow> 's \<Rightarrow> (status \<times> jxta_message_element option \<times> 's) option" where
  "read_v2_element 0 A rd names s = None"
| "read_v2_element (Suc depth) A rd names s =
     do { (res, magic, s) \<leftarrow> rd 4 s;
          if res \<noteq> JXTA_SUCCESS then Some (res, None, s)
          else if magic \<noteq> JXTAMSG_ELMMAGICSIG then Some (JXTA_IOERR, None, s)
          else do { (res, fl, s) \<leftarrow> rd 1 s;
          if res \<noteq> JXTA_SUCCESS then Some (res, None, s)
          else let flags = hd fl in
          if flags AND (JXTAMSG2_ELMFLAG_ENCODINGS OR JXTAMSG2_ELMFLAG_ENCODED_SIGNED) \<noteq> 0 then Some (res, None, s)
          else do { (ns, s) \<leftarrow> name_read A rd names s;
          if ns = None then Some (JXTA_IOERR, None, s)
          else do { (name, s) \<leftarrow> (if flags AND JXTAMSG2_ELMFLAG_NAME_LITERAL \<noteq> 0 then string_read A rd s
                                else name_read A rd names s);
          if flags AND JXTAMSG2_ELMFLAG_NAME_LITERAL = 0 \<and> name = None then Some (JXTA_IOERR, None, s)
          else do { (mime, s) \<leftarrow> (if flags AND JXTAMSG2_ELMFLAG_TYPE \<noteq> 0 then name_read A rd names s else Some (None, s));
          if flags AND JXTAMSG2_ELMFLAG_TYPE \<noteq> 0 \<and> mime = None then Some (JXTA_IOERR, None, s)
          else do { (res, lenb, s) \<leftarrow> rd (if flags AND JXTAMSG2_ELMFLAG_UINT64_LENS \<noteq> 0 then 8 else 4) s;
          if res \<noteq> JXTA_SUCCESS then Some (res, None, s)
          else do { (res, v, s) \<leftarrow> read_value A rd (word_of_nat (be_decode lenb)) s;
          if res \<noteq> JXTA_SUCCESS then Some (res, None, s)
          else do { (res, sig, s) \<leftarrow> (if flags AND JXTAMSG2_ELMFLAG_SIGNATURE \<noteq> 0 then read_v2_element depth A rd names s
                                    else Some (JXTA_SUCCESS, None, s));
          if res \<noteq> JXTA_SUCCESS then Some (res, None, s)
          else let el = jxta_message_element_new_3 ns name mime v sig in
               if el = None then Some (JXTA_NOMEM, None, s) else Some (JXTA_SUCCESS, el, s) } } } } } } } }"

subsection \<open>Reading a message\<close>

definition jxta_message_add_element :: "jxta_message \<Rightarrow> jxta_message_element \<Rightarrow> status \<times> jxta_message" where
  "jxta_message_add_element msg e = (JXTA_SUCCESS, msg\<lparr>melements := melements msg @ [e]\<rparr>)"

text \<open>The environment of a receiver: the XML parser, the printing of numbers and the time.\<close>

record receiver =
  rcv_alloc :: allocator
  rcv_parse :: "ctext \<Rightarrow> xml_elem option"
  rcv_ltoa :: "int \<Rightarrow> ctext"
  rcv_time :: int
  rcv_depth :: nat

text \<open>
  The QoS element of a message: a time to live of 0 or a lifespan that is over is refused, the
  time to live is decremented.
\<close>

definition extract_qos_element ::
  "receiver \<Rightarrow> jxta_message \<Rightarrow> jxta_message_element \<Rightarrow> (status \<times> jxta_message) option" where
  "extract_qos_element R me el =
     do { (rv, q) \<leftarrow> jxta_qos_create_1 True True True (rcv_parse R) (cstr (el_value el));
          if rv \<noteq> JXTA_SUCCESS then Some (rv, me)
          else do {
            qos \<leftarrow> q;
            (rv, ttl) \<leftarrow> jxta_qos_get_long qos (str ''jxtaMsg:TTL'');
            if rv = JXTA_SUCCESS \<and> ttl = Some 0 then Some (JXTA_INVALID_ARGUMENT, me\<lparr>mqos := Some qos\<rparr>)
            else do {
              qos1 \<leftarrow> (case ttl of
                         Some v \<Rightarrow> if rv = JXTA_SUCCESS
                                   then map_option snd (jxta_qos_set_long (rcv_ltoa R) qos (str ''jxtaMsg:TTL'') (v - 1))
                                   else Some qos
                       | None \<Rightarrow> Some qos);
              (rv, lifespan) \<leftarrow> jxta_qos_get_long qos1 (str ''jxtaMsg:lifespan'');
              Some (if rv = JXTA_SUCCESS \<and> (\<exists>l \<in> set_option lifespan. rcv_time R > l) then JXTA_INVALID_ARGUMENT
                    else JXTA_SUCCESS, me\<lparr>mqos := Some qos1\<rparr>) } } }"

fun read_names :: "allocator \<Rightarrow> 's stream_read \<Rightarrow> nat \<Rightarrow> 's \<Rightarrow> (ctext list option \<times> 's) option" where
  "read_names A rd 0 s = Some (Some [], s)"
| "read_names A rd (Suc n) s =
     do { (name, s1) \<leftarrow> string_read A rd s;
          (case name of
             None \<Rightarrow> Some (None, s1)
           | Some x \<Rightarrow> do { (xs, s2) \<leftarrow> read_names A rd n s1; Some (map_option (Cons x) xs, s2) }) }"

fun read_elements ::
  "u8 \<Rightarrow> receiver \<Rightarrow> 's stream_read \<Rightarrow> ctext list \<Rightarrow> nat \<Rightarrow> jxta_message \<Rightarrow> 's \<Rightarrow> (status \<times> jxta_message \<times> 's) option" where
  "read_elements version R rd names 0 msg s = Some (JXTA_SUCCESS, msg, s)"
| "read_elements version R rd names (Suc n) msg s =
     do { (res, el, s1) \<leftarrow> (if version = JXTAMSG_MSGVERS1 then read_v1_element (rcv_alloc R) rd names s
                           else read_v2_element (rcv_depth R) (rcv_alloc R) rd names s);
          if res \<noteq> JXTA_SUCCESS then Some (res, msg, s1)
          else do {
            e \<leftarrow> el;
            (res, msg1) \<leftarrow> (if el_ns e = MESSAGE_JXTANS \<and> el_name e = MESSAGE_QOS_SETTING_NAME
                            then extract_qos_element R msg e else Some (jxta_message_add_element msg e));
            if res \<noteq> JXTA_SUCCESS then Some (res, msg1, s1)
            else read_elements version R rd names n msg1 s1 } }"

text \<open>
  The number of names is counted in 16 bits with the two default names.  When a name cannot
  be read, the status is still that of the count: success.
\<close>

definition jxta_message_read ::
  "receiver \<Rightarrow> 's stream_read \<Rightarrow> jxta_message \<Rightarrow> ctext option \<Rightarrow> 's \<Rightarrow> (status \<times> jxta_message \<times> 's) option" where
  "jxta_message_read R rd msg mime_type s =
     (if mime_type \<noteq> None \<and> mime_type \<noteq> Some MESSAGE_JXTABINARYWIRE_MIME then Some (JXTA_INVALID_ARGUMENT, msg, s)
      else let msg = msg\<lparr>melements := []\<rparr> in
      do { (res, magic, s) \<leftarrow> rd 4 s;
           if res \<noteq> JXTA_SUCCESS then Some (res, msg, s)
           else if magic \<noteq> JXTAMSG_MSGMAGICSIG then Some (JXTA_IOERR, msg, s)
           else do { (res, ver, s) \<leftarrow> rd 1 s;
           if res \<noteq> JXTA_SUCCESS then Some (res, msg, s)
           else let version = hd ver in
           if version \<noteq> JXTAMSG_MSGVERS1 \<and> version \<noteq> JXTAMSG_MSGVERS2 then Some (JXTA_IOERR, msg, s)
           else do { (res, flags, s) \<leftarrow> (if version = JXTAMSG_MSGVERS2 then rd 1 s else Some (JXTA_SUCCESS, [0], s));
           if res \<noteq> JXTA_SUCCESS then Some (res, msg, s)
           else if hd flags \<noteq> 0 then Some (JXTA_INVALID_ARGUMENT, msg, s)
           else do { (res, cnt, s) \<leftarrow> rd 2 s;
           if res \<noteq> JXTA_SUCCESS then Some (res, msg, s)
           else let names_count = (be_decode cnt + 2) mod 65536 in
           if \<not> can_alloc (rcv_alloc R) (8 * names_count) then Some (JXTA_NOMEM, msg, s)
           else if names_count < 2 then None
           else do { (names, s) \<leftarrow> read_names (rcv_alloc R) rd (names_count - 2) s;
           (case names of
              None \<Rightarrow> Some (JXTA_SUCCESS, msg, s)
            | Some xs \<Rightarrow>
                do { (res, ecnt, s) \<leftarrow> rd 2 s;
                     if res \<noteq> JXTA_SUCCESS then Some (res, msg, s)
                     else read_elements version R rd (MESSAGE_EMPTYNS # MESSAGE_JXTANS # xs) (be_decode ecnt) msg s }) } } } } })"

subsection \<open>Writing a message\<close>

text \<open>The blocks of an element of version 1; an empty value is not written.\<close>

definition v1_element_chunks :: "nat \<Rightarrow> jxta_message_element \<Rightarrow> u8 list list" where
  "v1_element_chunks nsid e =
     [JXTAMSG_ELMMAGICSIG, [word_of_nat nsid], [if el_mime e \<noteq> None then JXTAMSG1_ELMFLAG_TYPE else 0],
      be_encode 2 (length (el_name e)), el_name e] @
     (case el_mime e of None \<Rightarrow> [] | Some m \<Rightarrow> [be_encode 2 (length m), m]) @
     [be_encode 4 (length (el_value e))] @ (if el_value e = [] then [] else [el_value e])"

text \<open>The elements of a namespace, the last first.\<close>

definition jxta_message_get_elements_of_namespace :: "jxta_message \<Rightarrow> ctext \<Rightarrow> jxta_message_element list" where
  "jxta_message_get_elements_of_namespace msg ns = filter (\<lambda>e. el_ns e = ns) (rev (melements msg))"

text \<open>The table of namespaces: the default ones, then the others from the last element on.\<close>

definition v1_names_table :: "jxta_message \<Rightarrow> ctext list" where
  "v1_names_table msg = fold add_name (map el_ns (rev (melements msg))) [MESSAGE_EMPTYNS, MESSAGE_JXTANS]"

fun v1_namespace_chunks :: "jxta_message \<Rightarrow> nat \<Rightarrow> ctext list \<Rightarrow> u8 list list" where
  "v1_namespace_chunks msg i [] = []"
| "v1_namespace_chunks msg i (ns # names) =
     concat (map (v1_element_chunks i) (rev (jxta_message_get_elements_of_namespace msg ns))) @
     v1_namespace_chunks msg (i + 1) names"

definition string_chunks :: "ctext \<Rightarrow> u8 list list" where
  "string_chunks s = [be_encode 2 (length s), s]"

definition v1_chunks :: "jxta_message \<Rightarrow> u8 list list" where
  "v1_chunks msg =
     (let names = v1_names_table msg in
      [JXTAMSG_MSGMAGICSIG, [JXTAMSG_MSGVERS], be_encode 2 (length names - 2)] @
      concat (map string_chunks (drop 2 names)) @ [be_encode 2 (length (melements msg))] @
      v1_namespace_chunks msg 0 names)"

definition message_write_v1 ::
  "'s stream_write \<Rightarrow> jxta_message \<Rightarrow> ctext option \<Rightarrow> 's \<Rightarrow> (status \<times> 's) option" where
  "message_write_v1 wr msg mime_type s =
     (if mime_type \<noteq> None \<and> mime_type \<noteq> Some MESSAGE_JXTABINARYWIRE_MIME then Some (JXTA_NOTIMP, s)
      else write_all wr (v1_chunks msg) s)"

text \<open>Version 2: namespaces and MIME types of the elements and of their signatures.\<close>

definition v2_element_names :: "jxta_message_element \<Rightarrow> ctext list" where
  "v2_element_names e =
     [el_ns e, jxta_message_element_get_mime_type e] @
     (case el_sig e of None \<Rightarrow> [] | Some g \<Rightarrow> [el_ns g, jxta_message_element_get_mime_type g])"

definition build_v2_names_table :: "jxta_message \<Rightarrow> ctext list" where
  "build_v2_names_table msg =
     fold add_name (concat (map v2_element_names (rev (melements msg)))) [MESSAGE_EMPTYNS, MESSAGE_JXTANS]"

text \<open>The continuation of a write that succeeded.\<close>

definition wthen :: "(status \<times> 's) option \<Rightarrow> ('s \<Rightarrow> (status \<times> 's) option) \<Rightarrow> (status \<times> 's) option" where
  "wthen m f = do { (res, s) \<leftarrow> m; if res \<noteq> JXTA_SUCCESS then Some (res, s) else f s }"

text \<open>The number of a name; a name that is not in the table is an error.\<close>

definition write_token :: "'s stream_write \<Rightarrow> ctext list \<Rightarrow> ctext \<Rightarrow> 's \<Rightarrow> (status \<times> 's) option" where
  "write_token wr names name s =
     do { token \<leftarrow> lookup_name_token name names;
          if token = JXTAMSG_NAMES_LITERAL_IDX then Some (JXTA_IOERR, s) else wr (be_encode 2 token) s }"

definition v2_flags :: "jxta_message_element \<Rightarrow> u8" where
  "v2_flags e =
     JXTAMSG2_ELMFLAG_NAME_LITERAL OR (if el_mime e \<noteq> None then JXTAMSG2_ELMFLAG_TYPE else 0) OR
     (if el_sig e \<noteq> None then JXTAMSG2_ELMFLAG_SIGNATURE else 0)"

definition v2_value_chunks :: "jxta_message_element \<Rightarrow> u8 list list" where
  "v2_value_chunks e = be_encode 4 (length (el_value e)) # (if el_value e = [] then [] else [el_value e])"

text \<open>The part of an element before its signature.\<close>

definition write_v2_body :: "'s stream_write \<Rightarrow> ctext list \<Rightarrow> jxta_message_element \<Rightarrow> 's \<Rightarrow> (status \<times> 's) option" where
  "write_v2_body wr names e s =
     wthen (write_all wr [JXTAMSG_ELMMAGICSIG, [v2_flags e]] s) (\<lambda>s.
     wthen (write_token wr names (el_ns e) s) (\<lambda>s.
     wthen (string_write wr (el_name e) s) (\<lambda>s.
     wthen (case el_mime e of None \<Rightarrow> Some (JXTA_SUCCESS, s) | Some m \<Rightarrow> write_token wr names m s) (\<lambda>s.
     write_all wr (v2_value_chunks e) s))))"

fun write_v2_element :: "'s stream_write \<Rightarrow> ctext list \<Rightarrow> jxta_message_element \<Rightarrow> 's \<Rightarrow> (status \<times> 's) option" where
  "write_v2_element wr names (Element ns n m v None) s = write_v2_body wr names (Element ns n m v None) s"
| "write_v2_element wr names (Element ns n m v (Some g)) s =
     wthen (write_v2_body wr names (Element ns n m v (Some g)) s) (write_v2_element wr names g)"

fun write_v2_elements :: "'s stream_write \<Rightarrow> ctext list \<Rightarrow> jxta_message_element list \<Rightarrow> 's \<Rightarrow> (status \<times> 's) option" where
  "write_v2_elements wr names [] s = Some (JXTA_SUCCESS, s)"
| "write_v2_elements wr names (e # es) s =
     wthen (write_v2_element wr names e s) (write_v2_elements wr names es)"

definition message_write_v2 ::
  "'s stream_write \<Rightarrow> jxta_message \<Rightarrow> ctext option \<Rightarrow> 's \<Rightarrow> (status \<times> 's) option" where
  "message_write_v2 wr msg mime_type s =
     (if mime_type \<noteq> None \<and> mime_type \<noteq> Some MESSAGE_JXTABINARYWIRE_MIME then Some (JXTA_NOTIMP, s)
      else let names = build_v2_names_table msg in
      wthen (write_all wr
        ([JXTAMSG_MSGMAGICSIG, [JXTAMSG_MSGVERS2], [0], be_encode 2 (length names - 2)] @
         concat (map string_chunks (drop 2 names)) @ [be_encode 2 (length (melements msg))]) s)
      (write_v2_elements wr names (melements msg)))"

text \<open>The last element with a namespace and a name is removed.\<close>

fun remove_first_match :: "(jxta_message_element \<Rightarrow> bool) \<Rightarrow> jxta_message_element list \<Rightarrow> jxta_message_element list option" where
  "remove_first_match P [] = None"
| "remove_first_match P (e # es) = (if P e then Some es else map_option (Cons e) (remove_first_match P es))"

definition jxta_message_remove_element_2 :: "jxta_message \<Rightarrow> ctext \<Rightarrow> ctext \<Rightarrow> status \<times> jxta_message" where
  "jxta_message_remove_element_2 msg ns name =
     (case remove_first_match (\<lambda>e. el_ns e = ns \<and> el_name e = name) (rev (melements msg)) of
        None \<Rightarrow> (JXTA_ITEM_NOTFOUND, msg)
      | Some es \<Rightarrow> (JXTA_SUCCESS, msg\<lparr>melements := rev es\<rparr>))"

definition add_qos_element ::
  "((ctext \<rightharpoonup> ctext) \<Rightarrow> (ctext \<times> ctext) list) \<Rightarrow> jxta_message \<Rightarrow> (status \<times> jxta_message) option" where
  "add_qos_element iter me =
     (case mqos me of
        None \<Rightarrow> Some (JXTA_SUCCESS, me)
      | Some q \<Rightarrow>
          do { (rv, xml) \<leftarrow> jxta_qos_setting_to_xml iter q;
               if rv \<noteq> JXTA_SUCCESS then Some (rv, me)
               else Some (jxta_message_add_element
                 (snd (jxta_message_remove_element_2 me MESSAGE_JXTANS MESSAGE_QOS_SETTING_NAME))
                 (Element MESSAGE_JXTANS MESSAGE_QOS_SETTING_NAME (Some (str ''text/xml'')) xml None)) })"

definition jxta_message_write ::
  "((ctext \<rightharpoonup> ctext) \<Rightarrow> (ctext \<times> ctext) list) \<Rightarrow> 's stream_write \<Rightarrow> jxta_message \<Rightarrow> ctext option \<Rightarrow> 's
     \<Rightarrow> (status \<times> jxta_message \<times> 's) option" where
  "jxta_message_write iter wr msg mime_type s =
     do { (_, msg1) \<leftarrow> add_qos_element iter msg;
          (res, s1) \<leftarrow> message_write_v1 wr msg1 mime_type s;
          Some (res, msg1, s1) }"

definition jxta_message_write_1 ::
  "((ctext \<rightharpoonup> ctext) \<Rightarrow> (ctext \<times> ctext) list) \<Rightarrow> 's stream_write \<Rightarrow> jxta_message \<Rightarrow> ctext option \<Rightarrow> int \<Rightarrow> 's
     \<Rightarrow> (status \<times> jxta_message \<times> 's) option" where
  "jxta_message_write_1 iter wr msg mime_type version s =
     do { (_, msg1) \<leftarrow> add_qos_element iter msg;
          (res, s1) \<leftarrow> (if version = 0 then message_write_v1 wr msg1 mime_type s
                       else if version = 1 then message_write_v2 wr msg1 mime_type s
                       else Some (JXTA_INVALID_ARGUMENT, s));
          Some (res, msg1, s1) }"

definition jxta_message_to_jstring ::
  "((ctext \<rightharpoonup> ctext) \<Rightarrow> (ctext \<times> ctext) list) \<Rightarrow> allocator \<Rightarrow> jxta_message \<Rightarrow> ctext option \<Rightarrow> jstring
     \<Rightarrow> (status \<times> jxta_message \<times> jstring) option" where
  "jxta_message_to_jstring iter A msg mime string = jxta_message_write iter (get_message_to_jstring A) msg mime string"

definition qos_number :: "jxta_message \<Rightarrow> ctext \<Rightarrow> (status \<times> int option) option" where
  "qos_number me name =
     (case mqos me of None \<Rightarrow> Some (JXTA_ITEM_NOTFOUND, None)
      | Some q \<Rightarrow> do { (rv, val) \<leftarrow> jxta_qos_get_long q name;
                       Some (rv, if rv = JXTA_SUCCESS then val else None) })"

text \<open>Priority and time to live are cut to 16 bits.\<close>

definition jxta_message_get_priority :: "jxta_message \<Rightarrow> (status \<times> u16 option) option" where
  "jxta_message_get_priority me = map_option (map_prod id (map_option word_of_int)) (qos_number me (str ''jxtaMsg:priority''))"

definition jxta_message_get_ttl :: "jxta_message \<Rightarrow> (status \<times> u16 option) option" where
  "jxta_message_get_ttl me = map_option (map_prod id (map_option word_of_int)) (qos_number me (str ''jxtaMsg:TTL''))"

definition jxta_message_get_lifespan :: "jxta_message \<Rightarrow> (status \<times> int option) option" where
  "jxta_message_get_lifespan me = qos_number me (str ''jxtaMsg:lifespan'')"

definition jxta_message_attach_qos :: "jxta_message \<Rightarrow> jxta_qos option \<Rightarrow> jxta_message" where
  "jxta_message_attach_qos me q = me\<lparr>mqos := q\<rparr>"

end
