(* ===== verification/MessageRead.thy ===== *)
theory MessageRead
  imports MessageWire
begin

section \<open>Reading what was written: strings, values and elements\<close>

text \<open>
  The readers of src/src/jxta_message.c on a source whose unread bytes begin with what the
  writers produce.  The lemmas are proved once for every byte source, inside the locale, and
  used for the buffer of the multicast transport in the theory of the message properties.
\<close>

text \<open>A text that the 16-bit length can carry.\<close>

definition text16 :: "ctext \<Rightarrow> bool" where
  "text16 s \<longleftrightarrow> length s < 65536 \<and> 0 \<notin> set s"

lemma msg_magic: "length JXTAMSG_MSGMAGICSIG = 4" "length JXTAMSG_ELMMAGICSIG = 4"
  by (simp_all add: JXTAMSG_MSGMAGICSIG_def JXTAMSG_ELMMAGICSIG_def)

lemma text16_mod [simp]: "text16 s \<Longrightarrow> length s mod 65536 = length s"
  by (simp add: text16_def)

subsection \<open>The value vector\<close>

lemma unat_small_u64: "n < 2 ^ 64 \<Longrightarrow> unat (word_of_nat n :: u64) = n"
  by (simp add: unat_of_nat)

text \<open>Bytes that are added from a null pointer are zeros.\<close>

lemma add_null_bytes: "jxta_bytevector_add_bytes_at A v None at len =
    jxta_bytevector_add_bytes_at A v (Some (replicate (unat len) 0)) at len"
proof -
  have "mem_load (replicate (unat len) (0 :: u8)) 0 (unat len) = Some (replicate (unat len) 0)"
    by (simp add: mem_load_def)
  then show ?thesis
    by (simp add: jxta_bytevector_add_bytes_at_def memset_def cong: if_cong)
qed

lemma big_alloc_extend:
  assumes "big_alloc A" "unat (bsize v) + n < 2 ^ 62" "unat (bcapacity v) < 2 ^ 62"
  shows "can_extend A v n"
  using assms by (auto simp: can_extend_def big_alloc_def max_def)

lemma stream_value_ok:
  assumes A: "big_alloc A" and len: "unat len < 2 ^ 60" and bytes: "length bytes = unat len"
  shows "\<exists>v v1 v2. jxta_bytevector_new_1 A True len = Some v \<and>
    jxta_bytevector_add_bytes_at A (lock_bytes v) None 0 len = Some (JXTA_SUCCESS, v1) \<and>
    jxta_bytevector_add_from_stream_at A v (Some (\<lambda>_. (JXTA_SUCCESS, bytes))) len 0 = Some (JXTA_SUCCESS, v2) \<and>
    jxta_bytevector_size v2 = len \<and> bview v2 = bytes"
proof -
  obtain v where v: "jxta_bytevector_new_1 A True len = Some v" "bytes_ok v" "clean v" "bview v = []" "bcapacity v = len"
    using new_bytes_ok [of A len] A len by (auto simp: big_alloc_def)
  have z: "unat (bsize v) = 0"
    using length_bview [OF v(2)] v(4) by simp
  have l: "bytes_ok (lock_bytes v)" "can_extend A (lock_bytes v) (unat len)"
    using v(2) big_alloc_extend [OF A, of "lock_bytes v" "unat len"] z v(5) len by (simp_all add: bytes_ok_def)
  obtain v1 where v1: "jxta_bytevector_add_bytes_at A (lock_bytes v) None 0 len = Some (JXTA_SUCCESS, v1)" "bytes_ok v1"
      "unat (bsize v1) = unat len"
    using add_bytes_ok [OF l(1), of 0 "replicate (unat len) 0" len A] l(2) z by (auto simp: add_null_bytes)
  have st: "mem_store (block v1) 0 bytes = Some (bytes @ drop (unat len) (block v1))"
    using v1 bytes by (simp add: mem_simps bytes_ok_def)
  define v2 where "v2 = unlock_bytes (v1\<lparr>content := Some (bytes @ drop (unat len) (block v1))\<rparr>)"
  have "jxta_bytevector_add_from_stream_at A v (Some (\<lambda>_. (JXTA_SUCCESS, bytes))) len 0 = Some (JXTA_SUCCESS, v2)"
    using v1(1) st by (simp add: jxta_bytevector_add_from_stream_at_def v2_def)
  moreover have "bsize v2 = len"
    using v1(3) by (simp add: v2_def word_unat_eq_iff)
  moreover have "bview v2 = bytes"
    using v1(3) bytes by (simp add: v2_def bview_def unlock_bytes_def block_def)
  ultimately show ?thesis
    using v(1) v1(1) by (auto simp: jxta_bytevector_size_def)
qed

context byte_source
begin

lemma read_value_ok:
  assumes "ok s" "rest s = v @ t" "length v < 2 ^ 60" "big_alloc A" "n = length v"
  shows "\<exists>s'. read_value A rd (word_of_nat n) s = Some (JXTA_SUCCESS, v, s') \<and> ok s' \<and> rest s' = t"
proof -
  have n: "unat (word_of_nat n :: u64) = length v"
    using assms(3,5) by (simp add: unat_of_nat)
  then have lt: "unat (word_of_nat n :: u64) < 2 ^ 60"
    using assms(3) by simp
  obtain s' where s': "rd (length v) s = Some (JXTA_SUCCESS, v, s')" "ok s'" "rest s' = t"
    using read_prefix [OF assms(1,2)] by blast
  obtain w w1 w2 where w: "jxta_bytevector_new_1 A True (word_of_nat n) = Some w"
      "jxta_bytevector_add_bytes_at A (lock_bytes w) None 0 (word_of_nat n) = Some (JXTA_SUCCESS, w1)"
      "jxta_bytevector_add_from_stream_at A w (Some (\<lambda>_. (JXTA_SUCCESS, v))) (word_of_nat n) 0 = Some (JXTA_SUCCESS, w2)"
      "jxta_bytevector_size w2 = word_of_nat n" "bview w2 = v"
    using stream_value_ok [OF assms(4) lt n [symmetric]] by blast
  show ?thesis
    unfolding read_value_def w(1) option.case using s' w(2-5) by (simp add: n)
qed

lemma string_read_ok:
  assumes "ok s" "rest s = be_encode 2 (length x) @ x @ t" "text16 x" "big_alloc A"
  shows "\<exists>s'. string_read A rd s = Some (Some x, s') \<and> ok s' \<and> rest s' = t"
proof -
  obtain s1 where s1: "rd 2 s = Some (JXTA_SUCCESS, be_encode 2 (length x), s1)" "ok s1" "rest s1 = x @ t"
    using read_prefix [OF assms(1,2), of 2] by auto
  obtain s2 where s2: "rd (length x) s1 = Some (JXTA_SUCCESS, x, s2)" "ok s2" "rest s2 = t"
    using read_prefix [OF s1(2,3)] by blast
  have "can_alloc A (length x + 1)"
    using assms(3,4) by (simp add: text16_def big_alloc_def)
  then show ?thesis
    using s1 s2 assms(3) by (simp add: string_read_def cstr_id text16_def)
qed

lemma name_read_ok:
  assumes "ok s" "rest s = be_encode 2 i @ t" "i < length names" "length names < 65536"
  shows "\<exists>s'. name_read A rd names s = Some (Some (names ! i), s') \<and> ok s' \<and> rest s' = t"
proof -
  obtain s1 where s1: "rd 2 s = Some (JXTA_SUCCESS, be_encode 2 i, s1)" "ok s1" "rest s1 = t"
    using read_prefix [OF assms(1,2), of 2] by auto
  then show ?thesis
    using assms(3,4) by (simp add: name_read_def lookup_name_string_def msg_consts)
qed

lemma read_names_ok:
  "ok s \<Longrightarrow> rest s = concat (concat (map string_chunks xs)) @ t \<Longrightarrow> \<forall>x \<in> set xs. text16 x \<Longrightarrow> big_alloc A \<Longrightarrow>
   \<exists>s'. read_names A rd (length xs) s = Some (Some xs, s') \<and> ok s' \<and> rest s' = t"
proof (induction xs arbitrary: s)
  case (Cons x xs)
  obtain s1 where s1: "string_read A rd s = Some (Some x, s1)" "ok s1"
      "rest s1 = concat (concat (map string_chunks xs)) @ t"
    using string_read_ok [OF Cons.prems(1), of x "concat (concat (map string_chunks xs)) @ t" A] Cons.prems
    unfolding list.map concat.simps string_chunks_def by auto
  then show ?case
    using Cons.IH [OF s1(2,3)] Cons.prems by auto
qed simp

subsection \<open>An element of version 1\<close>

text \<open>What the reader makes of an element: its signature is lost, its namespace is that of the number.\<close>

lemma read_v1_element_any:
  assumes "ok s" "rest s = concat (v1_element_chunks i e) @ t" "big_alloc A"
    and "i < 256" "text16 (el_name e)" "\<forall>m \<in> set_option (el_mime e). text16 m"
    and "length (el_value e) < 2 ^ 32"
  shows "\<exists>s'. read_v1_element A rd names s =
      map_option (\<lambda>ns. (JXTA_SUCCESS, Some (Element ns (el_name e) (el_mime e) (el_value e) None), s')) (mem_read names i) \<and>
    ok s' \<and> rest s' = t"
proof -
  let ?f = "if el_mime e \<noteq> None then JXTAMSG1_ELMFLAG_TYPE else 0 :: u8"
  let ?m = "case el_mime e of None \<Rightarrow> [] | Some m \<Rightarrow> be_encode 2 (length m) @ m"
  let ?v = "be_encode 4 (length (el_value e))"
  have r: "rest s = JXTAMSG_ELMMAGICSIG @ [word_of_nat i] @ [?f] @ be_encode 2 (length (el_name e)) @ el_name e @ ?m @ ?v @
      el_value e @ t"
    using assms(2) by (auto simp: v1_element_chunks_def split: option.splits)
  obtain s1 where s1: "rd 4 s = Some (JXTA_SUCCESS, JXTAMSG_ELMMAGICSIG, s1)" "ok s1"
      "rest s1 = [word_of_nat i] @ [?f] @ be_encode 2 (length (el_name e)) @ el_name e @ ?m @ ?v @ el_value e @ t"
    using read_prefix [OF assms(1) r, of 4] by (auto simp: msg_magic)
  obtain s2 where s2: "rd 1 s1 = Some (JXTA_SUCCESS, [word_of_nat i], s2)" "ok s2"
      "rest s2 = [?f] @ be_encode 2 (length (el_name e)) @ el_name e @ ?m @ ?v @ el_value e @ t"
    using read_prefix [OF s1(2,3), of 1] by auto
  obtain s3 where s3: "rd 1 s2 = Some (JXTA_SUCCESS, [?f], s3)" "ok s3"
      "rest s3 = be_encode 2 (length (el_name e)) @ el_name e @ ?m @ ?v @ el_value e @ t"
    using read_prefix [OF s2(2,3), of 1] by auto
  obtain s4 where s4: "string_read A rd s3 = Some (Some (el_name e), s4)" "ok s4" "rest s4 = ?m @ ?v @ el_value e @ t"
    using string_read_ok [OF s3(2,3) assms(5,3)] by auto
  obtain s5 where s5: "(if el_mime e \<noteq> None then string_read A rd s4 else Some (None, s4)) = Some (el_mime e, s5)" "ok s5"
      "rest s5 = ?v @ el_value e @ t"
    using string_read_ok [OF s4(2), of _ "?v @ el_value e @ t" A] s4 assms(3,6) by (cases "el_mime e") auto
  obtain s6 where s6: "rd 4 s5 = Some (JXTA_SUCCESS, ?v, s6)" "ok s6" "rest s6 = el_value e @ t"
    using read_prefix [OF s5(2,3), of 4] by auto
  obtain s7 where s7: "read_value A rd (word_of_nat (length (el_value e))) s6 = Some (JXTA_SUCCESS, el_value e, s7)" "ok s7"
      "rest s7 = t"
    using read_value_ok [OF s6(2,3) _ assms(3) refl] assms(7) by auto
  have i: "unat (word_of_nat i :: u8) = i"
    using assms(4) by (simp add: unat_of_nat)
  show ?thesis
    using s1 s2 s3 s4 s5 s6 s7 i assms(7)
    by (cases "el_mime e") (auto simp: read_v1_element_def msg_consts mem_read_def jxta_message_element_new_3_def)
qed

lemma read_v1_element_ok:
  assumes "ok s" "rest s = concat (v1_element_chunks i e) @ t" "big_alloc A"
    and "i < length names" "i < 256" "text16 (el_name e)" "\<forall>m \<in> set_option (el_mime e). text16 m"
    and "length (el_value e) < 2 ^ 32"
  shows "\<exists>s'. read_v1_element A rd names s =
      Some (JXTA_SUCCESS, Some (Element (names ! i) (el_name e) (el_mime e) (el_value e) None), s') \<and> ok s' \<and> rest s' = t"
  using read_v1_element_any [OF assms(1-3,5-8), of names] assms(4) by (simp add: mem_read_def)

end

subsection \<open>Names as numbers\<close>

definition name_idx :: "ctext list \<Rightarrow> ctext \<Rightarrow> nat" where
  "name_idx names x = length (takeWhile (\<lambda>y. y \<noteq> x) names)"

lemma name_idx:
  assumes "x \<in> set names"
  shows "name_idx names x < length names" "names ! name_idx names x = x"
  using assms by (induction names) (auto simp: name_idx_def)

lemma token_loop:
  "length (drop i names) < fuel \<Longrightarrow> length names \<le> 65535 \<Longrightarrow> x \<in> set (drop i names) \<Longrightarrow>
   lookup_token_loop fuel x names i = Some (i + name_idx (drop i names) x)"
proof (induction fuel arbitrary: i)
  case (Suc fuel)
  have i: "i < length names"
    using Suc.prems(3) by (metis drop_eq_Nil linorder_not_le empty_iff list.set(1))
  then have d: "drop i names = names ! i # drop (Suc i) names"
    by (rule Cons_nth_drop_Suc [symmetric])
  show ?case
  proof (cases "x = names ! i")
    case True
    then show ?thesis
      using i by (simp add: d name_idx_def)
  next
    case False
    have "lookup_token_loop fuel x names (Suc i) = Some (Suc i + name_idx (drop (Suc i) names) x)"
      using Suc.IH [of "Suc i"] Suc.prems False by (simp add: d)
    then show ?thesis
      using i False Suc.prems(2) by (simp add: d name_idx_def)
  qed
qed simp

lemma token_loop_absent:
  "length (drop i names) < fuel \<Longrightarrow> length names \<le> 65535 \<Longrightarrow> x \<notin> set (drop i names) \<Longrightarrow>
   lookup_token_loop fuel x names i = Some JXTAMSG_NAMES_LITERAL_IDX"
proof (induction fuel arbitrary: i)
  case (Suc fuel)
  show ?case
  proof (cases "i < length names")
    case True
    then have "drop i names = names ! i # drop (Suc i) names"
      by (rule Cons_nth_drop_Suc [symmetric])
    then show ?thesis
      using Suc.IH [of "Suc i"] Suc.prems True by simp
  qed simp
qed simp

lemma lookup_present: "length names \<le> 65535 \<Longrightarrow> x \<in> set names \<Longrightarrow> lookup_name_token x names = Some (name_idx names x)"
  using token_loop [of 0 names "length names + 1" x] by (simp add: lookup_name_token_def)

lemma lookup_absent: "length names \<le> 65535 \<Longrightarrow> x \<notin> set names \<Longrightarrow> lookup_name_token x names = Some 65535"
  using token_loop_absent [of 0 names "length names + 1" x] by (simp add: lookup_name_token_def msg_consts)

text \<open>The table a message is written with has no name twice, and the default names first.\<close>

lemma set_add_name: "set (add_name x ns) = insert x (set ns)"
  by (induction ns) auto

lemma distinct_add_name: "distinct (add_name x ns) = distinct ns"
  by (induction ns) (auto simp: set_add_name)

lemma add_name_eq: "add_name x ns = (if x \<in> set ns then ns else ns @ [x])"
  by (induction ns) auto

lemma fold_add_name: "\<exists>t. fold add_name xs ns = ns @ t \<and> set (ns @ t) = set xs \<union> set ns \<and> (distinct ns \<longrightarrow> distinct (ns @ t))"
proof (induction xs arbitrary: ns)
  case (Cons x xs)
  show ?case
  proof (cases "x \<in> set ns")
    case True
    then show ?thesis
      using Cons [of ns] by (auto simp: add_name_eq [of x ns])
  next
    case False
    obtain t where "fold add_name xs (ns @ [x]) = (ns @ [x]) @ t" "set ((ns @ [x]) @ t) = set xs \<union> set (ns @ [x])"
        "distinct (ns @ [x]) \<longrightarrow> distinct ((ns @ [x]) @ t)"
      using Cons by blast
    then show ?thesis
      using False by (intro exI [of _ "x # t"]) (auto simp: add_name_eq [of x ns])
  qed
qed simp

subsection \<open>An element of version 2\<close>

text \<open>The blocks an element is written as when its names are in the table.\<close>

definition v2_body_chunks :: "ctext list \<Rightarrow> jxta_message_element \<Rightarrow> u8 list list" where
  "v2_body_chunks names e =
     [JXTAMSG_ELMMAGICSIG, [v2_flags e], be_encode 2 (name_idx names (el_ns e)), be_encode 2 (length (el_name e)), el_name e] @
     (case el_mime e of None \<Rightarrow> [] | Some m \<Rightarrow> [be_encode 2 (name_idx names m)]) @ v2_value_chunks e"

fun v2_chunks :: "ctext list \<Rightarrow> jxta_message_element \<Rightarrow> u8 list list" where
  "v2_chunks names (Element ns n m v None) = v2_body_chunks names (Element ns n m v None)"
| "v2_chunks names (Element ns n m v (Some g)) = v2_body_chunks names (Element ns n m v (Some g)) @ v2_chunks names g"

text \<open>An element that version 2 can carry: short texts, names in the table, a short value; its depth.\<close>

definition v2_body_fits :: "ctext list \<Rightarrow> jxta_message_element \<Rightarrow> bool" where
  "v2_body_fits names e \<longleftrightarrow> text16 (el_name e) \<and> el_ns e \<in> set names \<and> set_option (el_mime e) \<subseteq> set names \<and>
     length (el_value e) < 2 ^ 32"

fun v2_fits :: "ctext list \<Rightarrow> jxta_message_element \<Rightarrow> bool" where
  "v2_fits names (Element ns n m v None) = v2_body_fits names (Element ns n m v None)"
| "v2_fits names (Element ns n m v (Some g)) = (v2_body_fits names (Element ns n m v (Some g)) \<and> v2_fits names g)"

fun sig_depth :: "jxta_message_element \<Rightarrow> nat" where
  "sig_depth (Element ns n m v None) = 0"
| "sig_depth (Element ns n m v (Some g)) = Suc (sig_depth g)"

lemma wthen_write_all: "wthen (write_all wr xs s) (write_all wr ys) = write_all wr (xs @ ys) s"
  by (simp add: wthen_def write_all_append)

lemma wthen_success [simp]: "wthen (Some (JXTA_SUCCESS, s)) f = f s"
  by (simp add: wthen_def)

lemma write_all_single: "write_all wr [b] s = wr b s"
proof (cases "wr b s")
  case (Some p)
  then show ?thesis
    by (cases p) simp
qed simp

lemma write_token_present:
  assumes "length names \<le> 65535" "x \<in> set names"
  shows "write_token wr names x = write_all wr [be_encode 2 (name_idx names x)]"
proof -
  have "name_idx names x \<noteq> JXTAMSG_NAMES_LITERAL_IDX"
    using name_idx(1) [OF assms(2)] assms(1) by (simp add: msg_consts)
  then show ?thesis
    by (intro ext) (simp add: write_token_def lookup_present [OF assms] write_all_single del: write_all.simps be_encode.simps)
qed

lemma write_v2_body_chunks:
  assumes "length names \<le> 65535" "v2_body_fits names e"
  shows "write_v2_body wr names e s = write_all wr (v2_body_chunks names e) s"
proof -
  have ns: "write_token wr names (el_ns e) = write_all wr [be_encode 2 (name_idx names (el_ns e))]"
    using assms by (simp add: write_token_present v2_body_fits_def)
  have m: "(case el_mime e of None \<Rightarrow> Some (JXTA_SUCCESS, s) | Some m \<Rightarrow> write_token wr names m s) =
      write_all wr (case el_mime e of None \<Rightarrow> [] | Some m \<Rightarrow> [be_encode 2 (name_idx names m)]) s" for s
    using assms by (auto simp: write_token_present v2_body_fits_def split: option.split)
  show ?thesis
    unfolding write_v2_body_def ns m string_write_def v2_body_chunks_def wthen_write_all
    by (simp only: append.simps append_assoc)
qed

lemma write_v2_element_chunks:
  "length names \<le> 65535 \<Longrightarrow> v2_fits names e \<Longrightarrow> write_v2_element wr names e s = write_all wr (v2_chunks names e) s"
proof (induction names e arbitrary: s rule: v2_chunks.induct)
  case (2 names ns n m v g)
  then have "write_v2_element wr names g = write_all wr (v2_chunks names g)"
    by (intro ext) simp
  then show ?case
    using 2 by (simp add: write_v2_body_chunks wthen_write_all)
qed (simp add: write_v2_body_chunks)

lemma write_v2_elements_chunks:
  "length names \<le> 65535 \<Longrightarrow> \<forall>e \<in> set es. v2_fits names e \<Longrightarrow>
   write_v2_elements wr names es s = write_all wr (concat (map (v2_chunks names) es)) s"
proof (induction es arbitrary: s)
  case (Cons e es)
  then have "write_v2_elements wr names es = write_all wr (concat (map (v2_chunks names) es))"
    by (intro ext) simp
  then show ?case
    using Cons.prems by (simp add: write_v2_element_chunks wthen_write_all)
qed simp

lemma v2_flag_bits:
  "v2_flags e AND (JXTAMSG2_ELMFLAG_ENCODINGS OR JXTAMSG2_ELMFLAG_ENCODED_SIGNED) = 0"
  "v2_flags e AND JXTAMSG2_ELMFLAG_NAME_LITERAL \<noteq> 0"
  "v2_flags e AND JXTAMSG2_ELMFLAG_UINT64_LENS = 0"
  "(v2_flags e AND JXTAMSG2_ELMFLAG_TYPE \<noteq> 0) = (el_mime e \<noteq> None)"
  "(v2_flags e AND JXTAMSG2_ELMFLAG_SIGNATURE \<noteq> 0) = (el_sig e \<noteq> None)"
  by (simp_all add: v2_flags_def msg_consts)

context byte_source
begin

text \<open>The reader of version 2 up to the signature.\<close>

lemma read_v2_body_ok:
  assumes "ok s" "rest s = concat (v2_body_chunks names e) @ t" "big_alloc A" "length names \<le> 65535" "v2_body_fits names e"
  shows "\<exists>s'. ok s' \<and> rest s' = t \<and> read_v2_element (Suc depth) A rd names s =
     do { (res, sig, s) \<leftarrow> (if el_sig e \<noteq> None then read_v2_element depth A rd names s' else Some (JXTA_SUCCESS, None, s'));
          if res \<noteq> JXTA_SUCCESS then Some (res, None, s)
          else Some (JXTA_SUCCESS, Some (Element (el_ns e) (el_name e) (el_mime e) (el_value e) sig), s) }"
proof -
  let ?n = "be_encode 2 (length (el_name e))"
  let ?m = "case el_mime e of None \<Rightarrow> [] | Some m \<Rightarrow> be_encode 2 (name_idx names m)"
  let ?v = "be_encode 4 (length (el_value e))"
  have r: "rest s = JXTAMSG_ELMMAGICSIG @ [v2_flags e] @ be_encode 2 (name_idx names (el_ns e)) @ ?n @ el_name e @ ?m @ ?v @
      el_value e @ t"
    using assms(2) by (auto simp: v2_body_chunks_def v2_value_chunks_def split: option.splits)
  obtain s1 where s1: "rd 4 s = Some (JXTA_SUCCESS, JXTAMSG_ELMMAGICSIG, s1)" "ok s1"
      "rest s1 = [v2_flags e] @ be_encode 2 (name_idx names (el_ns e)) @ ?n @ el_name e @ ?m @ ?v @ el_value e @ t"
    using read_prefix [OF assms(1) r, of 4] by (auto simp: msg_magic)
  obtain s2 where s2: "rd 1 s1 = Some (JXTA_SUCCESS, [v2_flags e], s2)" "ok s2"
      "rest s2 = be_encode 2 (name_idx names (el_ns e)) @ ?n @ el_name e @ ?m @ ?v @ el_value e @ t"
    using read_prefix [OF s1(2,3), of 1] by auto
  obtain s3 where s3: "name_read A rd names s2 = Some (Some (el_ns e), s3)" "ok s3"
      "rest s3 = ?n @ el_name e @ ?m @ ?v @ el_value e @ t"
    using name_read_ok [OF s2(2,3), of names A] name_idx [of "el_ns e" names] assms(4,5) by (auto simp: v2_body_fits_def)
  obtain s4 where s4: "string_read A rd s3 = Some (Some (el_name e), s4)" "ok s4" "rest s4 = ?m @ ?v @ el_value e @ t"
    using string_read_ok [OF s3(2,3) _ assms(3)] assms(5) by (auto simp: v2_body_fits_def)
  obtain s5 where s5: "(if el_mime e \<noteq> None then name_read A rd names s4 else Some (None, s4)) = Some (el_mime e, s5)" "ok s5"
      "rest s5 = ?v @ el_value e @ t"
    using name_read_ok [OF s4(2), of "name_idx names (the (el_mime e))" "?v @ el_value e @ t" names A] s4(2,3)
      name_idx [of "the (el_mime e)" names] assms(4,5) by (cases "el_mime e") (auto simp: v2_body_fits_def)
  obtain s6 where s6: "rd 4 s5 = Some (JXTA_SUCCESS, ?v, s6)" "ok s6" "rest s6 = el_value e @ t"
    using read_prefix [OF s5(2,3), of 4] by auto
  have len: "length (el_value e) mod 4294967296 = length (el_value e)"
    using assms(5) by (simp add: v2_body_fits_def)
  obtain s7 where s7: "read_value A rd (word_of_nat (length (el_value e))) s6 = Some (JXTA_SUCCESS, el_value e, s7)" "ok s7"
      "rest s7 = t"
    using read_value_ok [OF s6(2,3) _ assms(3) refl] assms(5) by (auto simp: v2_body_fits_def)
  have "read_v2_element (Suc depth) A rd names s =
     do { (res, sig, s) \<leftarrow> (if el_sig e \<noteq> None then read_v2_element depth A rd names s7 else Some (JXTA_SUCCESS, None, s7));
          if res \<noteq> JXTA_SUCCESS then Some (res, None, s)
          else Some (JXTA_SUCCESS, Some (Element (el_ns e) (el_name e) (el_mime e) (el_value e) sig), s) }"
    using s1(1) s2(1) s3(1) s4(1) s5(1) s6(1) s7(1)
    by (cases "el_mime e") (simp_all add: v2_flag_bits Let_def jxta_message_element_new_3_def len cong: if_cong del: be_encode.simps)
  then show ?thesis
    using s7(2,3) by blast
qed

lemma read_v2_element_ok:
  "ok s \<Longrightarrow> rest s = concat (v2_chunks names e) @ t \<Longrightarrow> big_alloc A \<Longrightarrow> length names \<le> 65535 \<Longrightarrow> v2_fits names e \<Longrightarrow>
   sig_depth e < depth \<Longrightarrow>
   \<exists>s'. read_v2_element depth A rd names s = Some (JXTA_SUCCESS, Some e, s') \<and> ok s' \<and> rest s' = t"
proof (induction names e arbitrary: s depth rule: v2_chunks.induct)
  case (1 names ns n m v)
  then obtain d where d: "depth = Suc d"
    by (cases depth) auto
  show ?case
    using read_v2_body_ok [OF 1(1), of names "Element ns n m v None" t A d] 1 by (auto simp: d simp del: read_v2_element.simps)
next
  case (2 names ns n m v g)
  then obtain d where d: "depth = Suc d" "sig_depth g < d"
    by (cases depth) auto
  obtain s1 where s1: "ok s1" "rest s1 = concat (v2_chunks names g) @ t"
      "read_v2_element depth A rd names s =
       do { (res, sig, s) \<leftarrow> read_v2_element d A rd names s1;
            if res \<noteq> JXTA_SUCCESS then Some (res, None, s) else Some (JXTA_SUCCESS, Some (Element ns n m v sig), s) }"
    using read_v2_body_ok [OF 2(2), of names "Element ns n m v (Some g)" "concat (v2_chunks names g) @ t" A d] 2
    by (auto simp: d(1) simp del: read_v2_element.simps cong: if_cong)
  obtain s2 where "read_v2_element d A rd names s1 = Some (JXTA_SUCCESS, Some g, s2)" "ok s2" "rest s2 = t"
    using 2(1) [OF s1(1,2) 2(4,5) _ d(2)] 2(6) by auto
  then show ?case
    using s1(3) by simp
qed

end

end
