(* ===== verification/MessageProps.thy ===== *)
theory MessageProps
  imports MessageRead
begin

section \<open>Messages on the wire: round trips, quality of service and malformed input\<close>

text \<open>
  The composition of the writers and readers of src/src/jxta_message.c through the buffer of
  the multicast transport: what a receiver makes of the bytes that a sender has written, for
  both versions of the format, what happens to the QoS settings on the way, and what the
  reader does with malformed messages.
\<close>

subsection \<open>Sequences of elements\<close>

definition is_qos_element :: "jxta_message_element \<Rightarrow> bool" where
  "is_qos_element e \<longleftrightarrow> el_ns e = MESSAGE_JXTANS \<and> el_name e = MESSAGE_QOS_SETTING_NAME"

text \<open>The header of a message: magic bytes, version, table of names, number of elements.\<close>

definition header_bytes :: "u8 \<Rightarrow> ctext list \<Rightarrow> nat \<Rightarrow> u8 list" where
  "header_bytes version xs n =
     JXTAMSG_MSGMAGICSIG @ (if version = JXTAMSG_MSGVERS1 then [version] else [version, 0]) @
     be_encode 2 (length xs) @ concat (concat (map string_chunks xs)) @ be_encode 2 n"

text \<open>The reader of one element in a version.\<close>

definition read_element ::
  "u8 \<Rightarrow> receiver \<Rightarrow> 's stream_read \<Rightarrow> ctext list \<Rightarrow> 's \<Rightarrow> (status \<times> jxta_message_element option \<times> 's) option" where
  "read_element version R rd names s =
     (if version = JXTAMSG_MSGVERS1 then read_v1_element (rcv_alloc R) rd names s
      else read_v2_element (rcv_depth R) (rcv_alloc R) rd names s)"

context byte_source
begin

lemma read_elements_ok:
  "ok s \<Longrightarrow> rest s = concat (map enc es) @ t \<Longrightarrow>
   \<forall>e \<in> set es. \<not> is_qos_element (dec e) \<and>
     (\<forall>s t. ok s \<and> rest s = enc e @ t \<longrightarrow>
        (\<exists>s'. read_element version R rd names s = Some (JXTA_SUCCESS, Some (dec e), s') \<and> ok s' \<and> rest s' = t)) \<Longrightarrow>
   \<exists>s'. ok s' \<and> rest s' = t \<and> read_elements version R rd names (length es + n) msg s =
     read_elements version R rd names n (msg\<lparr>melements := melements msg @ map dec es\<rparr>) s'"
proof (induction es arbitrary: s msg)
  case (Cons e es)
  have step: "\<exists>s'. read_element version R rd names s = Some (JXTA_SUCCESS, Some (dec e), s') \<and> ok s' \<and> rest s' = u"
    if "ok s" "rest s = enc e @ u" for s u
    using Cons.prems(3) that by simp
  obtain s1 where s1: "read_element version R rd names s = Some (JXTA_SUCCESS, Some (dec e), s1)" "ok s1"
      "rest s1 = concat (map enc es) @ t"
    using step [OF Cons.prems(1), of "concat (map enc es) @ t"] Cons.prems(2) by auto
  have not_qos: "\<not> (el_ns (dec e) = MESSAGE_JXTANS \<and> el_name (dec e) = MESSAGE_QOS_SETTING_NAME)"
    using Cons.prems(3) by (simp add: is_qos_element_def)
  let ?m = "msg\<lparr>melements := melements msg @ [dec e]\<rparr>"
  obtain s2 where s2: "ok s2" "rest s2 = t" "read_elements version R rd names (length es + n) ?m s1 =
      read_elements version R rd names n (?m\<lparr>melements := melements ?m @ map dec es\<rparr>) s2"
    using Cons.IH [OF s1(2,3), of ?m] Cons.prems(3) by auto
  have "read_elements version R rd names (length (e # es) + n) msg s = read_elements version R rd names (length es + n) ?m s1"
    using s1(1) not_qos by (auto simp: read_element_def jxta_message_add_element_def)
  then show ?case
    using s2 by auto
qed auto

lemma read_header_ok:
  assumes "ok s" "rest s = header_bytes version xs n @ t" "big_alloc (rcv_alloc R)"
    and "version = JXTAMSG_MSGVERS1 \<or> version = JXTAMSG_MSGVERS2"
    and "length xs + 2 \<le> 65535" "\<forall>x \<in> set xs. text16 x" "n < 65536"
  shows "\<exists>s'. ok s' \<and> rest s' = t \<and> jxta_message_read R rd msg None s =
    read_elements version R rd (MESSAGE_EMPTYNS # MESSAGE_JXTANS # xs) n (msg\<lparr>melements := []\<rparr>) s'"
proof -
  let ?tl = "concat (concat (map string_chunks xs)) @ be_encode 2 n @ t"
  let ?fl = "if version = JXTAMSG_MSGVERS1 then [] else [0 :: u8]"
  have r: "rest s = JXTAMSG_MSGMAGICSIG @ [version] @ ?fl @ be_encode 2 (length xs) @ ?tl"
    using assms(2) by (simp add: header_bytes_def)
  obtain s1 where s1: "rd 4 s = Some (JXTA_SUCCESS, JXTAMSG_MSGMAGICSIG, s1)" "ok s1"
      "rest s1 = [version] @ ?fl @ be_encode 2 (length xs) @ ?tl"
    using read_prefix [OF assms(1) r, of 4] by (auto simp: msg_magic)
  obtain s2 where s2: "rd 1 s1 = Some (JXTA_SUCCESS, [version], s2)" "ok s2" "rest s2 = ?fl @ be_encode 2 (length xs) @ ?tl"
    using read_prefix [OF s1(2,3), of 1] by auto
  obtain s3 where s3: "(if version = JXTAMSG_MSGVERS2 then rd 1 s2 else Some (JXTA_SUCCESS, [0], s2)) = Some (JXTA_SUCCESS, [0], s3)"
      "ok s3" "rest s3 = be_encode 2 (length xs) @ ?tl"
    using read_prefix [OF s2(2,3), of 1] s2 assms(4) by (auto simp: msg_consts)
  obtain s4 where s4: "rd 2 s3 = Some (JXTA_SUCCESS, be_encode 2 (length xs), s4)" "ok s4" "rest s4 = ?tl"
    using read_prefix [OF s3(2,3), of 2] by auto
  obtain s5 where s5: "read_names (rcv_alloc R) rd (length xs) s4 = Some (Some xs, s5)" "ok s5" "rest s5 = be_encode 2 n @ t"
    using read_names_ok [OF s4(2,3) assms(6,3)] by auto
  obtain s6 where s6: "rd 2 s5 = Some (JXTA_SUCCESS, be_encode 2 n, s6)" "ok s6" "rest s6 = t"
    using read_prefix [OF s5(2,3), of 2] by auto
  have al: "can_alloc (rcv_alloc R) (8 * (length xs + 2))"
    using assms(3,5) by (simp add: big_alloc_def)
  have v: "version = JXTAMSG_MSGVERS1 \<or> version = JXTAMSG_MSGVERS2"
    by (rule assms(4))
  have "jxta_message_read R rd msg None s =
    read_elements version R rd (MESSAGE_EMPTYNS # MESSAGE_JXTANS # xs) n (msg\<lparr>melements := []\<rparr>) s6"
    using s1(1) s2(1) s3(1) s4(1) s5(1) s6(1) al assms(5,7) v
    by (simp add: jxta_message_read_def Let_def del: be_encode.simps) auto
  then show ?thesis
    using s6 by blast
qed

end

subsection \<open>Version 1\<close>

definition drop_sig :: "jxta_message_element \<Rightarrow> jxta_message_element" where
  "drop_sig e = Element (el_ns e) (el_name e) (el_mime e) (el_value e) None"

text \<open>The elements grouped by namespace, in the order of the table of names.\<close>

definition by_namespace :: "jxta_message \<Rightarrow> jxta_message_element list" where
  "by_namespace msg = concat (map (\<lambda>ns. filter (\<lambda>e. el_ns e = ns) (melements msg)) (v1_names_table msg))"

definition el_fits :: "jxta_message_element \<Rightarrow> bool" where
  "el_fits e \<longleftrightarrow> text16 (el_ns e) \<and> text16 (el_name e) \<and> (\<forall>m \<in> set_option (el_mime e). text16 m) \<and>
     length (el_value e) < 2 ^ 32"

definition v1_fits :: "jxta_message \<Rightarrow> bool" where
  "v1_fits msg \<longleftrightarrow> length (v1_names_table msg) \<le> 256 \<and> length (melements msg) < 65536 \<and>
     (\<forall>e \<in> set (melements msg). el_fits e \<and> \<not> is_qos_element e)"

lemma namespace_elements: "rev (jxta_message_get_elements_of_namespace msg ns) = filter (\<lambda>e. el_ns e = ns) (melements msg)"
  by (simp add: jxta_message_get_elements_of_namespace_def rev_filter [symmetric])

lemma name_idx_distinct: "distinct (pre @ n # suf) \<Longrightarrow> name_idx (pre @ n # suf) n = length pre"
  by (induction pre) (auto simp: name_idx_def)

lemma v1_table:
  obtains t where "v1_names_table msg = MESSAGE_EMPTYNS # MESSAGE_JXTANS # t" "distinct (v1_names_table msg)"
    "set (v1_names_table msg) = el_ns ` set (melements msg) \<union> {MESSAGE_EMPTYNS, MESSAGE_JXTANS}"
proof -
  obtain t where "v1_names_table msg = [MESSAGE_EMPTYNS, MESSAGE_JXTANS] @ t"
      "set (v1_names_table msg) = set (map el_ns (rev (melements msg))) \<union> {MESSAGE_EMPTYNS, MESSAGE_JXTANS}"
      "distinct (v1_names_table msg)"
    using fold_add_name [of "map el_ns (rev (melements msg))" "[MESSAGE_EMPTYNS, MESSAGE_JXTANS]"]
    by (auto simp: v1_names_table_def msg_consts)
  then show thesis
    using that by auto
qed

lemma mset_grouped:
  "distinct names \<Longrightarrow> f ` set es \<subseteq> set names \<Longrightarrow>
   mset (concat (map (\<lambda>n. filter (\<lambda>e. f e = n) es) names)) = mset es"
proof (induction names arbitrary: es)
  case (Cons n names)
  let ?r = "filter (\<lambda>e. f e \<noteq> n) es"
  have "map (\<lambda>m. filter (\<lambda>e. f e = m) es) names = map (\<lambda>m. filter (\<lambda>e. f e = m) ?r) names"
    using Cons.prems(1) by (auto intro!: filter_cong)
  then have "mset (concat (map (\<lambda>m. filter (\<lambda>e. f e = m) es) names)) = mset ?r"
    using Cons by (simp only:) (rule Cons.IH, auto)
  then show ?case
    by (simp add: multiset_partition [of "mset es" "\<lambda>e. f e = n", symmetric])
qed simp

lemma mset_by_namespace: "mset (by_namespace msg) = mset (melements msg)"
proof -
  obtain t where "distinct (v1_names_table msg)"
      "set (v1_names_table msg) = el_ns ` set (melements msg) \<union> {MESSAGE_EMPTYNS, MESSAGE_JXTANS}"
    by (rule v1_table)
  then show ?thesis
    unfolding by_namespace_def by (intro mset_grouped) auto
qed

lemma v1_namespace_bytes:
  assumes "distinct (pre @ names)"
  shows "concat (v1_namespace_chunks msg (length pre) names) =
    concat (map (\<lambda>e. concat (v1_element_chunks (name_idx (pre @ names) (el_ns e)) e))
      (concat (map (\<lambda>ns. filter (\<lambda>e. el_ns e = ns) (melements msg)) names)))"
  using assms
proof (induction names arbitrary: pre)
  case (Cons n names)
  let ?es = "filter (\<lambda>e. el_ns e = n) (melements msg)"
  have "map (\<lambda>e. concat (v1_element_chunks (name_idx (pre @ n # names) (el_ns e)) e)) ?es =
      map (\<lambda>e. concat (v1_element_chunks (length pre) e)) ?es"
    using name_idx_distinct [OF Cons.prems] by (auto simp del: v1_names_table_def)
  moreover have "concat (concat (map (v1_element_chunks i) es)) = concat (map (\<lambda>e. concat (v1_element_chunks i e)) es)" for i es
    by (induction es) auto
  ultimately have "concat (concat (map (v1_element_chunks (length pre)) ?es)) =
      concat (map (\<lambda>e. concat (v1_element_chunks (name_idx (pre @ n # names) (el_ns e)) e)) ?es)"
    by presburger
  then show ?case
    using Cons.IH [of "pre @ [n]"] Cons.prems by (simp add: namespace_elements)
qed simp

lemma v1_bytes:
  "concat (v1_chunks msg) = header_bytes JXTAMSG_MSGVERS1 (drop 2 (v1_names_table msg)) (length (by_namespace msg)) @
     concat (map (\<lambda>e. concat (v1_element_chunks (name_idx (v1_names_table msg) (el_ns e)) e)) (by_namespace msg))"
proof -
  have "distinct ([] @ v1_names_table msg)"
    by (rule v1_table [of msg]) simp
  moreover have "length (by_namespace msg) = length (melements msg)"
    by (rule mset_eq_length [OF mset_by_namespace])
  ultimately show ?thesis
    using v1_namespace_bytes [of "[]" "v1_names_table msg" msg]
    by (simp add: v1_chunks_def header_bytes_def by_namespace_def msg_consts Let_def)
qed

text \<open>The buffer of a receiver: what the sender has written, from the beginning.\<close>

definition received :: "STREAM \<Rightarrow> STREAM" where
  "received s = s\<lparr>d_index := 0, d_len := d_index s\<rparr>"

lemma received_ok:
  assumes "out_stream_ok s"
  shows "in_stream_ok (received s)" "stream_unread (received s) = stream_written s"
  using assms by (auto simp: out_stream_ok_def in_stream_ok_def received_def stream_unread_def stream_written_def)

lemma write_all_fresh:
  assumes "out_stream_ok s" "d_index s = 0" "length (concat bs) < d_size s"
  shows "\<exists>s'. write_all write_to_tcp_multicast_stream bs s = Some (JXTA_SUCCESS, s') \<and>
    in_stream_ok (received s') \<and> stream_unread (received s') = concat bs"
proof -
  obtain s' where "write_all write_to_tcp_multicast_stream bs s = Some (JXTA_SUCCESS, s')" "out_stream_ok s'"
      "stream_written s' = stream_written s @ concat bs"
    using mcast_out.write_all_ok [OF assms(1), of bs] assms(2,3) by (fastforce simp: stream_room_def)
  then show ?thesis
    using received_ok [of s'] assms(2) by (auto simp: stream_written_def)
qed

lemma read_v1_ok:
  assumes fits: "v1_fits msg" and A: "big_alloc (rcv_alloc R)"
    and s: "in_stream_ok s" "stream_unread s = concat (v1_chunks msg)"
  shows "\<exists>r. jxta_message_read R read_from_tcp_multicast_stream m None s =
      Some (JXTA_SUCCESS, m\<lparr>melements := map drop_sig (by_namespace msg)\<rparr>, r) \<and> stream_unread r = []"
proof -
  let ?names = "v1_names_table msg" and ?rd = read_from_tcp_multicast_stream
  let ?enc = "\<lambda>e. concat (v1_element_chunks (name_idx ?names (el_ns e)) e)"
  obtain t where t: "?names = MESSAGE_EMPTYNS # MESSAGE_JXTANS # t"
      "set ?names = el_ns ` set (melements msg) \<union> {MESSAGE_EMPTYNS, MESSAGE_JXTANS}"
    by (rule v1_table)
  have set: "set (by_namespace msg) = set (melements msg)" "length (by_namespace msg) = length (melements msg)"
    using mset_eq_setD [OF mset_by_namespace] mset_eq_length [OF mset_by_namespace] by blast+
  have t16: "\<forall>x \<in> set ?names. text16 x"
    using assms(1) t(2) by (auto simp: v1_fits_def el_fits_def text16_def msg_consts)
  obtain r1 where r1: "in_stream_ok r1" "stream_unread r1 = concat (map ?enc (by_namespace msg)) @ []"
      "jxta_message_read R ?rd m None s =
        read_elements JXTAMSG_MSGVERS1 R ?rd ?names (length (by_namespace msg)) (m\<lparr>melements := []\<rparr>) r1"
    using mcast_in.read_header_ok [OF s(1), of JXTAMSG_MSGVERS1 t "length (by_namespace msg)" _ R m] s(2) assms(1,2) t16 set
    by (auto simp: v1_bytes t(1) v1_fits_def)
  have el: "\<exists>q'. read_element JXTAMSG_MSGVERS1 R ?rd ?names q = Some (JXTA_SUCCESS, Some (drop_sig e), q') \<and>
      in_stream_ok q' \<and> stream_unread q' = u"
    if e: "e \<in> set (by_namespace msg)" and q: "in_stream_ok q" "stream_unread q = ?enc e @ u" for e q u
    using mcast_in.read_v1_element_ok [OF q assms(2), where names = ?names] name_idx [of "el_ns e" ?names] e assms(1) t(2)
    by (auto simp: read_element_def set drop_sig_def v1_fits_def el_fits_def)
  obtain r where "stream_unread r = []" "read_elements JXTAMSG_MSGVERS1 R ?rd ?names (length (by_namespace msg) + 0) (m\<lparr>melements := []\<rparr>) r1 =
      read_elements JXTAMSG_MSGVERS1 R ?rd ?names 0 (m\<lparr>melements := map drop_sig (by_namespace msg)\<rparr>) r"
    using mcast_in.read_elements_ok [OF r1(1,2), of drop_sig JXTAMSG_MSGVERS1 R ?names 0 "m\<lparr>melements := []\<rparr>"] el assms(1)
    by (auto simp: set v1_fits_def is_qos_element_def drop_sig_def)
  then show ?thesis
    using r1(3) by auto
qed

text \<open>
  C12: A message of version 1 with at most 256 namespaces, whose texts and values fit, is written
  and read back inside both buffers: the receiver gets every element, grouped by namespace and
  in its order within the namespace, but without its signature.
\<close>

theorem message_v1_roundtrip:
  assumes "v1_fits msg" "mqos msg = None" "big_alloc (rcv_alloc R)"
    and s: "out_stream_ok s" "d_index s = 0" "length (concat (v1_chunks msg)) < d_size s"
  shows "\<exists>s' r. jxta_message_write iter write_to_tcp_multicast_stream msg None s = Some (JXTA_SUCCESS, msg, s') \<and>
    jxta_message_read R read_from_tcp_multicast_stream m None (received s') =
      Some (JXTA_SUCCESS, m\<lparr>melements := map drop_sig (by_namespace msg)\<rparr>, r) \<and>
    stream_unread r = [] \<and> mset (by_namespace msg) = mset (melements msg)"
proof -
  obtain s' where s': "write_all write_to_tcp_multicast_stream (v1_chunks msg) s = Some (JXTA_SUCCESS, s')"
      "in_stream_ok (received s')" "stream_unread (received s') = concat (v1_chunks msg)"
    using write_all_fresh [OF s] by blast
  then show ?thesis
    using read_v1_ok [OF assms(1,3) s'(2,3), of m] assms(2)
    by (auto simp: jxta_message_write_def add_qos_element_def message_write_v1_def mset_by_namespace)
qed

subsection \<open>Version 2\<close>

text \<open>A signature one level deep, whose names are in the table as well.\<close>

definition v2_msg_fits :: "jxta_message \<Rightarrow> bool" where
  "v2_msg_fits msg \<longleftrightarrow> length (build_v2_names_table msg) \<le> 65535 \<and> length (melements msg) < 65536 \<and>
     (\<forall>e \<in> set (melements msg). el_fits e \<and> (\<forall>g \<in> set_option (el_sig e). el_fits g \<and> el_sig g = None))"

lemma v2_table:
  obtains t where "build_v2_names_table msg = MESSAGE_EMPTYNS # MESSAGE_JXTANS # t"
    "set (build_v2_names_table msg) = (\<Union>e \<in> set (melements msg). set (v2_element_names e)) \<union> {MESSAGE_EMPTYNS, MESSAGE_JXTANS}"
proof -
  obtain t where "build_v2_names_table msg = [MESSAGE_EMPTYNS, MESSAGE_JXTANS] @ t"
      "set (build_v2_names_table msg) =
         set (concat (map v2_element_names (rev (melements msg)))) \<union> {MESSAGE_EMPTYNS, MESSAGE_JXTANS}"
    using fold_add_name [of "concat (map v2_element_names (rev (melements msg)))" "[MESSAGE_EMPTYNS, MESSAGE_JXTANS]"]
    by (auto simp: build_v2_names_table_def)
  then show thesis
    using that by auto
qed

lemma v2_body_fits_table: "el_fits e \<Longrightarrow> {el_ns e, jxta_message_element_get_mime_type e} \<subseteq> set names \<Longrightarrow> v2_body_fits names e"
  by (cases "el_mime e") (auto simp: el_fits_def v2_body_fits_def jxta_message_element_get_mime_type_def)

lemma v2_fits_table:
  assumes "el_fits e" "\<forall>g \<in> set_option (el_sig e). el_fits g \<and> el_sig g = None" "set (v2_element_names e) \<subseteq> set names"
  shows "v2_fits names e" "sig_depth e < 2"
proof -
  obtain ns n m v sg where e: "e = Element ns n m v sg"
    by (cases e)
  show "v2_fits names e"
  proof (cases sg)
    case None
    then show ?thesis
      using assms v2_body_fits_table [of e names] by (simp add: e v2_element_names_def)
  next
    case (Some g)
    obtain gn gm gt gv where g: "g = Element gn gm gt gv None"
      using assms(2) Some e by (cases g) auto
    then show ?thesis
      using assms Some v2_body_fits_table [of e names] v2_body_fits_table [of g names] by (simp add: e v2_element_names_def)
  qed
  show "sig_depth e < 2"
    using assms(2) by (cases sg; cases "the sg") (auto simp: e)
qed

lemma v2_names_text16:
  assumes "v2_msg_fits msg" "x \<in> set (build_v2_names_table msg)"
  shows "text16 x"
proof -
  have mt: "text16 (jxta_message_element_get_mime_type e)" if "el_fits e" for e
    using that by (cases "el_mime e") (auto simp: el_fits_def jxta_message_element_get_mime_type_def text16_def)
  have "\<forall>x \<in> set (v2_element_names e). text16 x" if "e \<in> set (melements msg)" for e
    using assms(1) that mt by (cases "el_sig e") (auto simp: v2_element_names_def v2_msg_fits_def el_fits_def)
  moreover have "x \<in> (\<Union>e \<in> set (melements msg). set (v2_element_names e)) \<union> {MESSAGE_EMPTYNS, MESSAGE_JXTANS}"
    using assms(2) v2_table [of msg] by metis
  moreover have "text16 MESSAGE_EMPTYNS" "text16 MESSAGE_JXTANS"
    by (simp_all add: text16_def msg_consts)
  ultimately show ?thesis
    by blast
qed

lemma v2_message_fits:
  assumes "v2_msg_fits msg" "e \<in> set (melements msg)"
  shows "v2_fits (build_v2_names_table msg) e" "sig_depth e < 2"
proof -
  have "set (v2_element_names e) \<subseteq> set (build_v2_names_table msg)"
    using assms(2) v2_table [of msg] by blast
  then show "v2_fits (build_v2_names_table msg) e" "sig_depth e < 2"
    using v2_fits_table [of e "build_v2_names_table msg"] assms by (auto simp: v2_msg_fits_def)
qed

definition v2_bytes :: "jxta_message \<Rightarrow> u8 list" where
  "v2_bytes msg = header_bytes JXTAMSG_MSGVERS2 (drop 2 (build_v2_names_table msg)) (length (melements msg)) @
     concat (concat (map (v2_chunks (build_v2_names_table msg)) (melements msg)))"

lemma write_v2_ok:
  assumes "v2_msg_fits msg" and s: "out_stream_ok s" "d_index s = 0" "length (v2_bytes msg) < d_size s"
  shows "\<exists>s'. message_write_v2 write_to_tcp_multicast_stream msg None s = Some (JXTA_SUCCESS, s') \<and>
    in_stream_ok (received s') \<and> stream_unread (received s') = v2_bytes msg"
proof -
  let ?t = "build_v2_names_table msg" and ?wr = write_to_tcp_multicast_stream
  let ?h = "[JXTAMSG_MSGMAGICSIG, [JXTAMSG_MSGVERS2], [0], be_encode 2 (length ?t - 2)] @
         concat (map string_chunks (drop 2 ?t)) @ [be_encode 2 (length (melements msg))]"
  have w: "write_v2_elements ?wr ?t (melements msg) = write_all ?wr (concat (map (v2_chunks ?t) (melements msg)))"
    using v2_message_fits [OF assms(1)] assms(1) by (intro ext write_v2_elements_chunks) (auto simp: v2_msg_fits_def)
  have "concat (?h @ concat (map (v2_chunks ?t) (melements msg))) = v2_bytes msg"
    by (simp add: v2_bytes_def header_bytes_def msg_consts)
  then show ?thesis
    using write_all_fresh [OF s(1,2), of "?h @ concat (map (v2_chunks ?t) (melements msg))"] s(3)
    by (simp only: message_write_v2_def w Let_def wthen_write_all) simp
qed

lemma read_v2_ok:
  assumes "v2_msg_fits msg" "melements msg = es @ qs" "\<forall>e \<in> set es. \<not> is_qos_element e" "big_alloc (rcv_alloc R)" "2 \<le> rcv_depth R"
    and s: "in_stream_ok s" "stream_unread s = v2_bytes msg"
  shows "\<exists>r. in_stream_ok r \<and> stream_unread r = concat (concat (map (v2_chunks (build_v2_names_table msg)) qs)) \<and>
    jxta_message_read R read_from_tcp_multicast_stream m None s =
      read_elements JXTAMSG_MSGVERS2 R read_from_tcp_multicast_stream (build_v2_names_table msg) (length qs)
        (m\<lparr>melements := es\<rparr>) r"
proof -
  let ?names = "build_v2_names_table msg" and ?rd = read_from_tcp_multicast_stream
  let ?enc = "\<lambda>e. concat (v2_chunks ?names e)"
  have enc: "concat (concat (map (v2_chunks ?names) xs)) = concat (map ?enc xs)" for xs
    by (induction xs) auto
  obtain t where t: "?names = MESSAGE_EMPTYNS # MESSAGE_JXTANS # t"
    by (rule v2_table)
  have t16: "\<forall>x \<in> set t. text16 x"
    using v2_names_text16 [OF assms(1)] t by simp
  have small: "length t + 2 \<le> 65535" "length (melements msg) < 65536"
    using assms(1) t by (auto simp: v2_msg_fits_def)
  have bytes: "stream_unread s = header_bytes JXTAMSG_MSGVERS2 t (length (melements msg)) @ concat (map ?enc (es @ qs))"
    using s(2) enc [of "es @ qs"] assms(2) t by (simp add: v2_bytes_def)
  obtain r1 where r1: "in_stream_ok r1" "stream_unread r1 = concat (map ?enc es) @ concat (map ?enc qs)"
      "jxta_message_read R ?rd m None s =
        read_elements JXTAMSG_MSGVERS2 R ?rd ?names (length es + length qs) (m\<lparr>melements := []\<rparr>) r1"
    using mcast_in.read_header_ok [OF s(1) bytes assms(4) _ small(1) t16 small(2), of m] assms(2)
    by (auto simp: t)
  have el: "\<exists>q'. read_element JXTAMSG_MSGVERS2 R ?rd ?names q = Some (JXTA_SUCCESS, Some e, q') \<and>
      in_stream_ok q' \<and> stream_unread q' = u"
    if e: "e \<in> set es" and q: "in_stream_ok q" "stream_unread q = ?enc e @ u" for e q u
  proof -
    have "v2_fits ?names e" "sig_depth e < rcv_depth R" "length ?names \<le> 65535"
      using v2_message_fits [OF assms(1), of e] e assms by (auto simp: v2_msg_fits_def)
    then show ?thesis
      using mcast_in.read_v2_element_ok [OF q assms(4)] by (simp add: read_element_def msg_consts)
  qed
  show ?thesis
    using mcast_in.read_elements_ok [OF r1(1,2), of id JXTAMSG_MSGVERS2 R ?names "length qs" "m\<lparr>melements := []\<rparr>"] el assms(3)
    by (auto simp: r1(3) enc)
qed

text \<open>
  C13: A message of version 2 whose texts, values and table of names fit, with signatures one
  level deep, is written and read back inside both buffers unchanged, signatures included.
\<close>

theorem message_v2_roundtrip:
  assumes "v2_msg_fits msg" "\<forall>e \<in> set (melements msg). \<not> is_qos_element e" "mqos msg = None"
    and "big_alloc (rcv_alloc R)" "2 \<le> rcv_depth R"
    and s: "out_stream_ok s" "d_index s = 0" "length (v2_bytes msg) < d_size s"
  shows "\<exists>s' r. jxta_message_write_1 iter write_to_tcp_multicast_stream msg None 1 s = Some (JXTA_SUCCESS, msg, s') \<and>
    jxta_message_read R read_from_tcp_multicast_stream m None (received s') =
      Some (JXTA_SUCCESS, m\<lparr>melements := melements msg\<rparr>, r) \<and> stream_unread r = []"
proof -
  obtain s' where s': "message_write_v2 write_to_tcp_multicast_stream msg None s = Some (JXTA_SUCCESS, s')"
      "in_stream_ok (received s')" "stream_unread (received s') = v2_bytes msg"
    using write_v2_ok [OF assms(1) s] by blast
  then show ?thesis
    using read_v2_ok [OF assms(1) _ assms(2,4,5) s'(2,3), of "[]" m] assms(3)
    by (auto simp: jxta_message_write_1_def add_qos_element_def)
qed

subsection \<open>Quality of service\<close>

definition TTL_name :: ctext where "TTL_name = str ''jxtaMsg:TTL''"
definition lifespan_name :: ctext where "lifespan_name = str ''jxtaMsg:lifespan''"

text \<open>What a receiver is to make of the settings: the status, and the settings it keeps.\<close>

definition long_setting :: "(ctext \<rightharpoonup> ctext) \<Rightarrow> ctext \<Rightarrow> int option" where
  "long_setting m k =
     (case m k of None \<Rightarrow> None
      | Some v \<Rightarrow> (let (n, more) = strtol10 v in if more \<noteq> v \<and> more \<noteq> [] then None else Some n))"

definition received_qos :: "receiver \<Rightarrow> (ctext \<rightharpoonup> ctext) \<Rightarrow> status \<times> (ctext \<rightharpoonup> ctext)" where
  "received_qos R m =
     (if long_setting m TTL_name = Some 0 then (JXTA_INVALID_ARGUMENT, m)
      else (if \<exists>l \<in> set_option (long_setting m lifespan_name). l < rcv_time R then JXTA_INVALID_ARGUMENT else JXTA_SUCCESS,
            case long_setting m TTL_name of None \<Rightarrow> m | Some v \<Rightarrow> m(TTL_name \<mapsto> rcv_ltoa R (v - 1))))"

lemma get_long_setting:
  assumes "qos_ht q = Some m"
  shows "\<exists>st v. jxta_qos_get_long q k = Some (st, v) \<and>
    (st = JXTA_SUCCESS \<longrightarrow> v = long_setting m k \<and> v \<noteq> None) \<and> (st \<noteq> JXTA_SUCCESS \<longrightarrow> long_setting m k = None)"
  using assms by (auto simp: qos_defs long_setting_def split: option.split prod.split)

lemma extract_qos_ok:
  assumes "jxta_qos_create_1 True True True (rcv_parse R) (cstr (el_value el)) = Some (JXTA_SUCCESS, Some q)"
    and q: "qos_ht q = Some m" "\<not> qos_immutable q"
  shows "\<exists>q'. extract_qos_element R me el = Some (fst (received_qos R m), me\<lparr>mqos := Some q'\<rparr>) \<and>
    qos_ht q' = Some (snd (received_qos R m))"
proof -
  obtain st v where get: "jxta_qos_get_long q TTL_name = Some (st, v)"
      "st = JXTA_SUCCESS \<longrightarrow> v = long_setting m TTL_name \<and> v \<noteq> None"
      "st \<noteq> JXTA_SUCCESS \<longrightarrow> long_setting m TTL_name = None"
    using get_long_setting [OF q(1)] by blast
  let ?m = "case long_setting m TTL_name of None \<Rightarrow> m | Some v \<Rightarrow> m(TTL_name \<mapsto> rcv_ltoa R (v - 1))"
  obtain q1 where q1: "(case v of Some v \<Rightarrow> if st = JXTA_SUCCESS
        then map_option snd (jxta_qos_set_long (rcv_ltoa R) q TTL_name (v - 1)) else Some q | None \<Rightarrow> Some q) = Some q1"
      "qos_ht q1 = Some ?m"
    using get(2,3) q by (cases "st = JXTA_SUCCESS"; cases v) (auto simp: jxta_qos_set_long_def qos_lock_def qos_unlock_def split: option.splits)
  have ls: "long_setting ?m lifespan_name = long_setting m lifespan_name"
    by (auto simp: long_setting_def TTL_name_def lifespan_name_def split: option.splits)
  obtain st2 w where get2: "jxta_qos_get_long q1 lifespan_name = Some (st2, w)"
      "st2 = JXTA_SUCCESS \<longrightarrow> w = long_setting m lifespan_name" "st2 \<noteq> JXTA_SUCCESS \<longrightarrow> long_setting m lifespan_name = None"
    using get_long_setting [OF q1(2), of lifespan_name] ls by auto
  show ?thesis
  proof (cases "st = JXTA_SUCCESS \<and> v = Some 0")
    case True
    then show ?thesis
      using assms(1) get q(1) by (auto simp: extract_qos_element_def received_qos_def TTL_name_def)
  next
    case False
    then have "long_setting m TTL_name \<noteq> Some 0"
      using get(2,3) by (cases "st = JXTA_SUCCESS") auto
    moreover have "extract_qos_element R me el = Some (if st2 = JXTA_SUCCESS \<and> (\<exists>l \<in> set_option w. l < rcv_time R)
        then JXTA_INVALID_ARGUMENT else JXTA_SUCCESS, me\<lparr>mqos := Some q1\<rparr>)"
      unfolding extract_qos_element_def TTL_name_def [symmetric] lifespan_name_def [symmetric]
      using assms(1) get(1) q1(1) get2(1) by (simp add: if_not_P [OF False])
    ultimately show ?thesis
      using get2(2,3) q1(2) by (auto simp: received_qos_def)
  qed
qed

definition qos_element :: "((ctext \<rightharpoonup> ctext) \<Rightarrow> (ctext \<times> ctext) list) \<Rightarrow> (ctext \<rightharpoonup> ctext) \<Rightarrow> jxta_message_element" where
  "qos_element iter m =
     Element MESSAGE_JXTANS MESSAGE_QOS_SETTING_NAME (Some (str ''text/xml'')) (snd (qos_setting_to_xml iter m)) None"

lemma remove_first_match_none: "\<forall>e \<in> set es. \<not> P e \<Longrightarrow> remove_first_match P es = None"
  by (induction es) auto

lemma add_qos_element_ok:
  assumes "mqos msg = Some q" "qos_ht q = Some m" "\<forall>e \<in> set (melements msg). \<not> is_qos_element e"
  shows "add_qos_element iter msg = Some (JXTA_SUCCESS, msg\<lparr>melements := melements msg @ [qos_element iter m]\<rparr>)"
proof -
  have "remove_first_match (\<lambda>e. el_ns e = MESSAGE_JXTANS \<and> el_name e = MESSAGE_QOS_SETTING_NAME) (rev (melements msg)) = None"
    using assms(3) by (intro remove_first_match_none) (simp add: is_qos_element_def)
  then show ?thesis
    using assms(1,2)
    by (simp add: add_qos_element_def jxta_qos_setting_to_xml_def qos_setting_to_xml_def qos_lock_def qos_element_def
        jxta_message_add_element_def jxta_message_remove_element_2_def)
qed

text \<open>
  One hop of a message with QoS settings, in version 2: the sender adds the printed settings
  as an element, and the receiver gets the elements of the message without it, and the settings
  with the time to live decremented; it refuses the message when the time to live was 0 or the
  lifespan is over, and keeps the settings in both cases.  (APR and the XML parser as documented.)
\<close>

theorem message_qos_hop:
  assumes q: "mqos msg = Some q" "qos_ht q = Some m" "m \<noteq> Map.empty" "iter_law iter m" "parse_law (rcv_parse R) (iter m)"
    and plain: "\<forall>e \<in> set (melements msg). \<not> is_qos_element e" "0 \<notin> set (el_value (qos_element iter m))"
    and fits: "v2_msg_fits (msg\<lparr>melements := melements msg @ [qos_element iter m]\<rparr>)"
      "length (v2_bytes (msg\<lparr>melements := melements msg @ [qos_element iter m]\<rparr>)) < d_size s"
    and env: "out_stream_ok s" "d_index s = 0" "big_alloc (rcv_alloc R)" "2 \<le> rcv_depth R"
  shows "\<exists>s' r q'. jxta_message_write_1 iter write_to_tcp_multicast_stream msg None 1 s =
      Some (JXTA_SUCCESS, msg\<lparr>melements := melements msg @ [qos_element iter m]\<rparr>, s') \<and>
    jxta_message_read R read_from_tcp_multicast_stream m0 None (received s') =
      Some (fst (received_qos R m), m0\<lparr>melements := melements msg, mqos := Some q'\<rparr>, r) \<and>
    qos_ht q' = Some (snd (received_qos R m))"
proof -
  let ?e = "qos_element iter m" and ?rd = read_from_tcp_multicast_stream
  let ?msg = "msg\<lparr>melements := melements msg @ [?e]\<rparr>"
  let ?names = "build_v2_names_table ?msg"
  obtain s' where s': "message_write_v2 write_to_tcp_multicast_stream ?msg None s = Some (JXTA_SUCCESS, s')"
      "in_stream_ok (received s')" "stream_unread (received s') = v2_bytes ?msg"
    using write_v2_ok [OF fits(1) env(1,2) fits(2)] by blast
  obtain r1 where r1: "in_stream_ok r1" "stream_unread r1 = concat (v2_chunks ?names ?e) @ []"
      "jxta_message_read R ?rd m0 None (received s') =
        read_elements JXTAMSG_MSGVERS2 R ?rd ?names 1 (m0\<lparr>melements := melements msg\<rparr>) r1"
    using read_v2_ok [OF fits(1) _ plain(1) env(3,4) s'(2,3), of "[?e]" m0] by auto
  have "v2_fits ?names ?e" "sig_depth ?e < rcv_depth R" "length ?names \<le> 65535"
    using v2_message_fits [OF fits(1), of ?e] env(4) fits(1) by (auto simp: v2_msg_fits_def)
  then obtain r where r: "read_v2_element (rcv_depth R) (rcv_alloc R) ?rd ?names r1 = Some (JXTA_SUCCESS, Some ?e, r)"
    using mcast_in.read_v2_element_ok [OF r1(1,2) env(3)] by blast
  obtain xml q2 where "jxta_qos_setting_to_xml iter q = Some (JXTA_SUCCESS, xml)"
      "jxta_qos_create_1 True True True (rcv_parse R) xml = Some (JXTA_SUCCESS, Some q2)" "qos_ht q2 = Some m" "\<not> qos_immutable q2"
    using qos_roundtrip_lemma [OF q(2,4,3,5)] by blast
  moreover have "xml = cstr (el_value ?e)" if "jxta_qos_setting_to_xml iter q = Some (JXTA_SUCCESS, xml)" for xml
    using that q(2) plain(2) by (simp add: jxta_qos_setting_to_xml_def qos_lock_def qos_element_def cstr_id)
  ultimately obtain q' where q': "extract_qos_element R (m0\<lparr>melements := melements msg\<rparr>) ?e =
      Some (fst (received_qos R m), m0\<lparr>melements := melements msg, mqos := Some q'\<rparr>)" "qos_ht q' = Some (snd (received_qos R m))"
    using extract_qos_ok [of R ?e q2 m "m0\<lparr>melements := melements msg\<rparr>"] by auto
  have "el_ns ?e = MESSAGE_JXTANS \<and> el_name ?e = MESSAGE_QOS_SETTING_NAME"
    by (simp add: qos_element_def)
  then have "read_elements JXTAMSG_MSGVERS2 R ?rd ?names 1 (m0\<lparr>melements := melements msg\<rparr>) r1 =
      Some (fst (received_qos R m), m0\<lparr>melements := melements msg, mqos := Some q'\<rparr>, r)"
    using r q'(1) by (simp add: msg_consts)
  then show ?thesis
    using s'(1) r1(3) q'(2) add_qos_element_ok [OF q(1,2) plain(1)] by (auto simp: jxta_message_write_1_def)
qed

subsection \<open>Malformed messages\<close>

context byte_source
begin

text \<open>The magic bytes and the version.\<close>

lemma read_start:
  assumes "ok s" "rest s = JXTAMSG_MSGMAGICSIG @ [JXTAMSG_MSGVERS1] @ be_encode 2 c @ t" "big_alloc (rcv_alloc R)"
    and "(c + 2) mod 65536 = n" "c < 65536"
  shows "\<exists>s'. ok s' \<and> rest s' = t \<and> jxta_message_read R rd msg None s =
    (if n < 2 then None
     else do { (names, s) \<leftarrow> read_names (rcv_alloc R) rd (n - 2) s';
               (case names of
                  None \<Rightarrow> Some (JXTA_SUCCESS, msg\<lparr>melements := []\<rparr>, s)
                | Some xs \<Rightarrow>
                    do { (res, ecnt, s) \<leftarrow> rd 2 s;
                         if res \<noteq> JXTA_SUCCESS then Some (res, msg\<lparr>melements := []\<rparr>, s)
                         else read_elements JXTAMSG_MSGVERS1 R rd (MESSAGE_EMPTYNS # MESSAGE_JXTANS # xs) (be_decode ecnt)
                           (msg\<lparr>melements := []\<rparr>) s }) })"
proof -
  obtain s1 where s1: "rd 4 s = Some (JXTA_SUCCESS, JXTAMSG_MSGMAGICSIG, s1)" "ok s1"
      "rest s1 = [JXTAMSG_MSGVERS1] @ be_encode 2 c @ t"
    using read_prefix [OF assms(1,2), of 4] by (auto simp: msg_magic)
  obtain s2 where s2: "rd 1 s1 = Some (JXTA_SUCCESS, [JXTAMSG_MSGVERS1], s2)" "ok s2" "rest s2 = be_encode 2 c @ t"
    using read_prefix [OF s1(2,3), of 1] by auto
  obtain s3 where s3: "rd 2 s2 = Some (JXTA_SUCCESS, be_encode 2 c, s3)" "ok s3" "rest s3 = t"
    using read_prefix [OF s2(2,3), of 2] by auto
  have "can_alloc (rcv_alloc R) (8 * n)"
    using assms(3,4) by (auto simp: big_alloc_def)
  then show ?thesis
    using s1(1) s2(1) s3 assms(4,5)
    by (intro exI [of _ s3]) (simp add: jxta_message_read_def msg_consts Let_def del: be_encode.simps cong: if_cong option.case_cong)
qed

lemma string_read_short:
  assumes "ok s" "length (rest s) < 2"
  shows "\<exists>s'. string_read A rd s = Some (None, s')"
  using read_cases [OF assms(1), of 2] assms(2) by (cases rule: read_cases [OF assms(1), of 2]) (auto simp: string_read_def)

lemma read_v2_unsupported:
  assumes "ok s" "rest s = JXTAMSG_ELMMAGICSIG @ f # t"
    and "f AND (JXTAMSG2_ELMFLAG_ENCODINGS OR JXTAMSG2_ELMFLAG_ENCODED_SIGNED) \<noteq> 0"
  shows "\<exists>s'. read_v2_element (Suc depth) A rd names s = Some (JXTA_SUCCESS, None, s')"
proof -
  obtain s1 where s1: "rd 4 s = Some (JXTA_SUCCESS, JXTAMSG_ELMMAGICSIG, s1)" "ok s1" "rest s1 = [f] @ t"
    using read_prefix [OF assms(1,2), of 4] by (auto simp: msg_magic)
  obtain s2 where "rd 1 s1 = Some (JXTA_SUCCESS, [f], s2)"
    using read_prefix [OF s1(2,3), of 1] by auto
  then show ?thesis
    using s1(1) assms(3) by simp
qed

end

definition mcast_buffer :: "u8 list \<Rightarrow> STREAM" where
  "mcast_buffer bs = \<lparr>data_buf = bs, d_index = 0, d_len = length bs, d_size = length bs\<rparr>"

lemma mcast_buffer_ok: "in_stream_ok (mcast_buffer bs)" "stream_unread (mcast_buffer bs) = bs"
  by (simp_all add: mcast_buffer_def in_stream_ok_def stream_unread_def)

text \<open>
  C14: Four malformed messages are not refused.  With 65534 or 65535 names the counter of names
  wraps around and the default names are stored behind the table; a name that cannot be read
  ends the message with success and no elements; an element of version 1 whose namespace number
  is not in the table reads behind it; and an element of version 2 with an unsupported flag is
  reported as read, so that the missing element is dereferenced.
\<close>

theorem message_malformed:
  assumes A: "big_alloc (rcv_alloc R)" and d: "1 \<le> rcv_depth R"
    and c: "c = 65534 \<or> c = 65535" and k: "0 < k" "k < 65534" "length u < 2"
    and e: "el_fits e" "2 \<le> i" "i < 256"
    and f: "f AND (JXTAMSG2_ELMFLAG_ENCODINGS OR JXTAMSG2_ELMFLAG_ENCODED_SIGNED) \<noteq> 0"
  shows "jxta_message_read R read_from_tcp_multicast_stream m None
      (mcast_buffer (JXTAMSG_MSGMAGICSIG @ [JXTAMSG_MSGVERS1] @ be_encode 2 c @ t)) = None \<and>
    (\<exists>s. jxta_message_read R read_from_tcp_multicast_stream m None
      (mcast_buffer (JXTAMSG_MSGMAGICSIG @ [JXTAMSG_MSGVERS1] @ be_encode 2 k @ u)) = Some (JXTA_SUCCESS, m\<lparr>melements := []\<rparr>, s)) \<and>
    jxta_message_read R read_from_tcp_multicast_stream m None
      (mcast_buffer (header_bytes JXTAMSG_MSGVERS1 [] 1 @ concat (v1_element_chunks i e) @ t)) = None \<and>
    jxta_message_read R read_from_tcp_multicast_stream m None
      (mcast_buffer (header_bytes JXTAMSG_MSGVERS2 [] 1 @ JXTAMSG_ELMMAGICSIG @ f # t)) = None"
proof (intro conjI)
  let ?rd = read_from_tcp_multicast_stream and ?names = "[MESSAGE_EMPTYNS, MESSAGE_JXTANS]"
  show "jxta_message_read R ?rd m None (mcast_buffer (JXTAMSG_MSGMAGICSIG @ [JXTAMSG_MSGVERS1] @ be_encode 2 c @ t)) = None"
    using mcast_in.read_start [OF mcast_buffer_ok A refl, of c t m] c by auto
  obtain s1 where s1: "in_stream_ok s1" "length (stream_unread s1) < 2"
      "jxta_message_read R ?rd m None (mcast_buffer (JXTAMSG_MSGMAGICSIG @ [JXTAMSG_MSGVERS1] @ be_encode 2 k @ u)) =
       do { (names, s) \<leftarrow> read_names (rcv_alloc R) ?rd k s1;
               (case names of
                  None \<Rightarrow> Some (JXTA_SUCCESS, m\<lparr>melements := []\<rparr>, s)
                | Some xs \<Rightarrow>
                    do { (res, ecnt, s) \<leftarrow> ?rd 2 s;
                         if res \<noteq> JXTA_SUCCESS then Some (res, m\<lparr>melements := []\<rparr>, s)
                         else read_elements JXTAMSG_MSGVERS1 R ?rd (MESSAGE_EMPTYNS # MESSAGE_JXTANS # xs) (be_decode ecnt)
                           (m\<lparr>melements := []\<rparr>) s }) }"
    using mcast_in.read_start [OF mcast_buffer_ok A refl, of k u m] k by auto
  obtain k' s2 where "k = Suc k'" "string_read (rcv_alloc R) ?rd s1 = Some (None, s2)"
    using mcast_in.string_read_short [OF s1(1,2), of "rcv_alloc R"] k(1) by (cases k) auto
  then show "\<exists>s. jxta_message_read R ?rd m None (mcast_buffer (JXTAMSG_MSGMAGICSIG @ [JXTAMSG_MSGVERS1] @ be_encode 2 k @ u)) =
      Some (JXTA_SUCCESS, m\<lparr>melements := []\<rparr>, s)"
    using s1(3) by simp
  obtain s3 where s3: "in_stream_ok s3" "stream_unread s3 = concat (v1_element_chunks i e) @ t"
      "jxta_message_read R ?rd m None (mcast_buffer (header_bytes JXTAMSG_MSGVERS1 [] 1 @ concat (v1_element_chunks i e) @ t)) =
       read_elements JXTAMSG_MSGVERS1 R ?rd ?names 1 (m\<lparr>melements := []\<rparr>) s3"
    using mcast_in.read_header_ok [OF mcast_buffer_ok A, of JXTAMSG_MSGVERS1 "[]" 1 "concat (v1_element_chunks i e) @ t" m] by auto
  show "jxta_message_read R ?rd m None
      (mcast_buffer (header_bytes JXTAMSG_MSGVERS1 [] 1 @ concat (v1_element_chunks i e) @ t)) = None"
    using mcast_in.read_v1_element_any [OF s3(1,2) A e(3), of ?names] e s3(3) by (auto simp: el_fits_def mem_read_def)
  obtain s4 where s4: "in_stream_ok s4" "stream_unread s4 = JXTAMSG_ELMMAGICSIG @ f # t"
      "jxta_message_read R ?rd m None (mcast_buffer (header_bytes JXTAMSG_MSGVERS2 [] 1 @ JXTAMSG_ELMMAGICSIG @ f # t)) =
       read_elements JXTAMSG_MSGVERS2 R ?rd ?names 1 (m\<lparr>melements := []\<rparr>) s4"
    using mcast_in.read_header_ok [OF mcast_buffer_ok A, of JXTAMSG_MSGVERS2 "[]" 1 "JXTAMSG_ELMMAGICSIG @ f # t" m] by auto
  obtain depth where dep: "rcv_depth R = Suc depth"
    using d by (cases "rcv_depth R") auto
  have v: "JXTAMSG_MSGVERS2 \<noteq> JXTAMSG_MSGVERS1"
    by (simp add: msg_consts)
  show "jxta_message_read R ?rd m None (mcast_buffer (header_bytes JXTAMSG_MSGVERS2 [] 1 @ JXTAMSG_ELMMAGICSIG @ f # t)) = None"
    using mcast_in.read_v2_unsupported [OF s4(1,2) f, of depth "rcv_alloc R" ?names] v
    using s4(3) by (auto simp: dep simp del: read_v2_element.simps)
qed

subsection \<open>Examples\<close>

definition sample_receiver :: receiver where
  "sample_receiver = \<lparr>rcv_alloc = all_alloc, rcv_parse = (\<lambda>_. Some (qos_tree [(TTL_name, str ''5'')])), rcv_ltoa = print10,
     rcv_time = 100, rcv_depth = 4\<rparr>"

definition sample_element :: jxta_message_element where
  "sample_element = Element (str ''app'') (str ''data'') (Some (str ''text/xml'')) [0, 1]
     (Some (Element [] (str ''sig'') None [7] None))"

definition sample_message :: jxta_message where
  "sample_message = \<lparr>melements = [sample_element, Element MESSAGE_JXTANS (str ''x'') None [] None], mqos = None\<rparr>"

definition sample_stream :: STREAM where
  "sample_stream = \<lparr>data_buf = replicate 400 0, d_index = 0, d_len = 0, d_size = 400\<rparr>"

lemmas sample_defs = sample_message_def sample_element_def sample_receiver_def sample_stream_def

lemma sample_env: "big_alloc (rcv_alloc sample_receiver)" "rcv_depth sample_receiver = 4" "out_stream_ok sample_stream"
    "d_index sample_stream = 0" "d_size sample_stream = 400"
  by (simp_all add: sample_defs big_alloc_def all_alloc_def out_stream_ok_def)

lemma sample_tables:
  "v1_names_table sample_message = [MESSAGE_EMPTYNS, MESSAGE_JXTANS, str ''app'']"
  "build_v2_names_table sample_message =
     [MESSAGE_EMPTYNS, MESSAGE_JXTANS, str ''application/octet-stream'', str ''app'', str ''text/xml'']"
  by (simp_all add: sample_defs v1_names_table_def build_v2_names_table_def v2_element_names_def msg_consts
      jxta_message_element_get_mime_type_def)

theorem message_v1_roundtrip_witness:
  "\<exists>s' r. jxta_message_write (\<lambda>_. []) write_to_tcp_multicast_stream sample_message None sample_stream =
      Some (JXTA_SUCCESS, sample_message, s') \<and>
    jxta_message_read sample_receiver read_from_tcp_multicast_stream \<lparr>melements = [], mqos = None\<rparr> None (received s') =
      Some (JXTA_SUCCESS, \<lparr>melements = map drop_sig (rev (melements sample_message)), mqos = None\<rparr>, r)"
proof -
  have "v1_fits sample_message" "mqos sample_message = None" "length (concat (v1_chunks sample_message)) < 400"
      "by_namespace sample_message = rev (melements sample_message)"
    unfolding v1_fits_def v1_chunks_def by_namespace_def sample_tables
    by (simp_all add: sample_defs el_fits_def text16_def is_qos_element_def msg_consts MESSAGE_QOS_SETTING_NAME_def
        JXTAMSG_MSGMAGICSIG_def JXTAMSG_ELMMAGICSIG_def string_chunks_def namespace_elements v1_element_chunks_def Let_def
        drop_sig_def)
  then show ?thesis
    using message_v1_roundtrip [of sample_message sample_receiver sample_stream "\<lambda>_. []" "\<lparr>melements = [], mqos = None\<rparr>"] sample_env
    by auto
qed

theorem message_v2_roundtrip_witness:
  "\<exists>s' r. jxta_message_write_1 (\<lambda>_. []) write_to_tcp_multicast_stream sample_message None 1 sample_stream =
      Some (JXTA_SUCCESS, sample_message, s') \<and>
    jxta_message_read sample_receiver read_from_tcp_multicast_stream \<lparr>melements = [], mqos = None\<rparr> None (received s') =
      Some (JXTA_SUCCESS, sample_message, r)"
proof -
  have "v2_msg_fits sample_message" "mqos sample_message = None" "\<forall>e \<in> set (melements sample_message). \<not> is_qos_element e"
      "length (v2_bytes sample_message) < 400"
    unfolding v2_msg_fits_def v2_bytes_def sample_tables
    by (simp_all add: sample_defs el_fits_def text16_def is_qos_element_def msg_consts MESSAGE_QOS_SETTING_NAME_def
        JXTAMSG_MSGMAGICSIG_def JXTAMSG_ELMMAGICSIG_def string_chunks_def v2_body_chunks_def v2_value_chunks_def header_bytes_def
        Let_def)
  moreover have "(\<lparr>melements = [], mqos = None\<rparr>\<lparr>melements := melements sample_message\<rparr>) = sample_message"
    by (simp add: sample_message_def)
  ultimately show ?thesis
    using message_v2_roundtrip [of sample_message sample_receiver sample_stream "\<lambda>_. []" "\<lparr>melements = [], mqos = None\<rparr>"] sample_env
    by auto
qed

definition sample_xml :: ctext where
  "sample_xml = str ''<QoS_Setting><QoS>jxtaMsg:TTL<Value>5</Value></QoS></QoS_Setting>''"

lemma sample_xml: "length sample_xml = 65" "0 \<notin> set sample_xml"
  by (simp add: sample_xml_def del: str_simps) (simp add: sample_xml_def)

lemma sample_settings:
  "long_setting [TTL_name \<mapsto> str ''5''] TTL_name = Some 5" "long_setting [TTL_name \<mapsto> str ''5''] lifespan_name = None"
  "print10 4 = str ''4''"
proof -
  show "long_setting [TTL_name \<mapsto> str ''5''] TTL_name = Some 5"
    by (simp add: long_setting_def strtol10_def isspace_def isdigit_def)
  show "long_setting [TTL_name \<mapsto> str ''5''] lifespan_name = None"
    by (simp add: long_setting_def TTL_name_def lifespan_name_def)
  have "digits10 (Suc 19) 4 = str ''4''"
    unfolding digits10.simps by simp
  then show "print10 4 = str ''4''"
    by (simp add: print10_def)
qed

theorem message_qos_hop_witness:
  "\<exists>msg s' r q'. jxta_message_write_1 (\<lambda>_. [(TTL_name, str ''5'')]) write_to_tcp_multicast_stream
      (sample_message\<lparr>mqos := Some sample_qos\<rparr>) None 1 sample_stream = Some (JXTA_SUCCESS, msg, s') \<and>
    jxta_message_read sample_receiver read_from_tcp_multicast_stream sample_message None (received s') =
      Some (JXTA_SUCCESS, sample_message\<lparr>mqos := Some q'\<rparr>, r) \<and> qos_ht q' = Some [TTL_name \<mapsto> str ''4'']"
proof -
  let ?m = "[TTL_name \<mapsto> str ''5'']" and ?iter = "\<lambda>_ :: ctext \<rightharpoonup> ctext. [(TTL_name, str ''5'')]"
  let ?msg = "sample_message\<lparr>mqos := Some sample_qos\<rparr>"
  let ?sent = "?msg\<lparr>melements := melements ?msg @ [qos_element ?iter ?m]\<rparr>"
  have e: "qos_element ?iter ?m = Element MESSAGE_JXTANS MESSAGE_QOS_SETTING_NAME (Some (str ''text/xml''))
      sample_xml None"
    by (simp add: qos_element_def qos_setting_to_xml_def qos_entry_xml_def TTL_name_def sample_xml_def)
  have t: "build_v2_names_table ?sent =
      [MESSAGE_EMPTYNS, MESSAGE_JXTANS, str ''text/xml'', str ''application/octet-stream'', str ''app'']"
    unfolding e by (simp add: sample_defs build_v2_names_table_def v2_element_names_def msg_consts
        jxta_message_element_get_mime_type_def)
  have "v2_msg_fits ?sent"
    unfolding v2_msg_fits_def t unfolding e by (simp add: sample_defs sample_xml el_fits_def text16_def msg_consts
        MESSAGE_QOS_SETTING_NAME_def)
  moreover have "length (v2_bytes ?sent) < 400"
    unfolding v2_bytes_def t unfolding e
    by (simp add: sample_defs sample_xml msg_consts MESSAGE_QOS_SETTING_NAME_def msg_magic string_chunks_def v2_body_chunks_def
        v2_value_chunks_def header_bytes_def Let_def del: be_encode.simps)
  moreover have "0 \<notin> set (el_value (qos_element ?iter ?m))" "\<forall>x \<in> set (melements ?msg). \<not> is_qos_element x"
    unfolding e by (simp_all add: sample_defs sample_xml is_qos_element_def msg_consts MESSAGE_QOS_SETTING_NAME_def)
  moreover have "received_qos sample_receiver ?m = (JXTA_SUCCESS, [TTL_name \<mapsto> str ''4''])"
    using sample_settings by (simp add: received_qos_def sample_receiver_def)
  moreover have "iter_law ?iter ?m" "parse_law (rcv_parse sample_receiver) (?iter ?m)" "qos_ht sample_qos = Some ?m" "?m \<noteq> Map.empty"
    by (auto simp: iter_law_def parse_law_def sample_receiver_def sample_qos_def TTL_name_def)
  ultimately show ?thesis
    using message_qos_hop [of ?msg sample_qos ?m ?iter sample_receiver sample_stream sample_message] sample_env by auto
qed

theorem message_malformed_witness:
  "jxta_message_read sample_receiver read_from_tcp_multicast_stream sample_message None
      (mcast_buffer (JXTAMSG_MSGMAGICSIG @ [JXTAMSG_MSGVERS1] @ be_encode 2 65535 @ [])) = None \<and>
    jxta_message_read sample_receiver read_from_tcp_multicast_stream sample_message None
      (mcast_buffer (header_bytes JXTAMSG_MSGVERS1 [] 1 @ concat (v1_element_chunks 200 sample_element) @ [])) = None"
  using message_malformed [of sample_receiver 65535 3 "[]" sample_element 200 16 sample_message "[]"] sample_env
  by (simp add: sample_element_def el_fits_def text16_def msg_consts)

end
