(* ===== verification/EndpointAddress.thy ===== *)
theory EndpointAddress
  imports ByteVector JxtaId
begin

section \<open>Endpoint addresses (src/src/jxta_endpoint_address.c)\<close>

text \<open>
  An address has a protocol, an address of the protocol and, both optional, the name of a
  service and its parameters.  The fields are C strings, given by their texts; \<open>None\<close> is the null
  pointer.  The printer fills a block of the size that \<open>jxta_endpoint_address_size\<close> computes;
  its copies are bounds checked.  The URI parser of APR and its comparison of texts are
  arguments.
\<close>

record endpoint_address =
  protocol_name :: ctext
  protocol_address :: ctext
  service_name :: "ctext option"
  service_params :: "ctext option"

text \<open>The parts of a URI that \<open>apr_uri_parse\<close> fills in.\<close>

record apr_uri =
  uri_scheme :: "ctext option"
  uri_hostname :: "ctext option"
  uri_port_str :: "ctext option"
  uri_path :: "ctext option"
  uri_query :: "ctext option"
  uri_fragment :: "ctext option"

subsection \<open>Construction\<close>

definition jxta_endpoint_address_new_2 ::
  "ctext option \<Rightarrow> ctext option \<Rightarrow> ctext option \<Rightarrow> ctext option \<Rightarrow> endpoint_address option" where
  "jxta_endpoint_address_new_2 protocol address name params =
     (case (protocol, address) of
        (Some p, Some a) \<Rightarrow>
          Some \<lparr>protocol_name = p, protocol_address = a, service_name = name, service_params = params\<rparr>
      | _ \<Rightarrow> None)"

text \<open>Slashes and colons before the service name are skipped.\<close>

fun trim_uri :: "ctext \<Rightarrow> ctext" where
  "trim_uri [] = []"
| "trim_uri (c # cs) = (if c = 58 \<or> c = 47 then trim_uri cs else c # cs)"

definition uri_host :: "apr_uri \<Rightarrow> ctext \<Rightarrow> ctext" where
  "uri_host uri h =
     (case uri_port_str uri of
        Some port \<Rightarrow> if length port > 0 then h @ [58] @ port else h
      | None \<Rightarrow> h)"

text \<open>The rest of the URI behind the host, in a block of \<open>tmp_size\<close> bytes with its zero.\<close>

definition uri_rest :: "apr_uri \<Rightarrow> ctext" where
  "uri_rest uri =
     (case uri_path uri of None \<Rightarrow> [] | Some p \<Rightarrow> trim_uri p) @
     (case uri_query uri of None \<Rightarrow> [] | Some q \<Rightarrow> 63 # q) @
     (case uri_fragment uri of None \<Rightarrow> [] | Some f \<Rightarrow> 35 # f)"

text \<open>\<open>strchr\<close>: the position of the first slash.\<close>

definition slash_at :: "ctext \<Rightarrow> nat option" where
  "slash_at tmp = (let n = length (takeWhile (\<lambda>c. c \<noteq> 47) tmp) in if n < length tmp then Some n else None)"

definition jxta_endpoint_address_new ::
  "(ctext \<Rightarrow> apr_uri) \<Rightarrow> bool \<Rightarrow> bool \<Rightarrow> ctext \<Rightarrow> endpoint_address option" where
  "jxta_endpoint_address_new parse pool_ok self_ok s =
     (if \<not> pool_ok then None
      else
        (let uri = parse s in
         case (uri_scheme uri, uri_hostname uri) of
           (Some sch, Some h) \<Rightarrow>
             if \<not> self_ok then None
             else
               (let tmp = uri_rest uri;
                    cut = slash_at tmp;
                    params = (case cut of Some n \<Rightarrow> Some (drop (n + 1) tmp) | None \<Rightarrow> None);
                    name = (case cut of Some n \<Rightarrow> take n tmp | None \<Rightarrow> tmp)
                in Some \<lparr>protocol_name = sch, protocol_address = uri_host uri h,
                         service_name = (if name = [] then None else Some name), service_params = params\<rparr>)
         | _ \<Rightarrow> None))"

definition jxta_endpoint_address_new_3 ::
  "jxta_id \<Rightarrow> ctext option \<Rightarrow> ctext option \<Rightarrow> endpoint_address option" where
  "jxta_endpoint_address_new_3 peer_id name params =
     (case snd (jxta_id_get_uniqueportion (Some peer_id)) of
        None \<Rightarrow> None
      | Some tmp \<Rightarrow> jxta_endpoint_address_new_2 (Some (str ''jxta'')) (Some tmp) name params)"

definition jxta_endpoint_address_new_4 ::
  "bool \<Rightarrow> endpoint_address \<Rightarrow> ctext option \<Rightarrow> ctext option \<Rightarrow> endpoint_address option" where
  "jxta_endpoint_address_new_4 alloc_ok base name params =
     (if \<not> alloc_ok then None
      else Some \<lparr>protocol_name = protocol_name base, protocol_address = protocol_address base,
                 service_name = name, service_params = params\<rparr>)"

subsection \<open>Printing\<close>

text \<open>Parameters without a service name are neither counted nor printed.\<close>

definition jxta_endpoint_address_size :: "endpoint_address \<Rightarrow> nat" where
  "jxta_endpoint_address_size a =
     length (protocol_name a) + 3 + length (protocol_address a) +
     (case service_name a of
        None \<Rightarrow> 0
      | Some n \<Rightarrow> 1 + length n + (case service_params a of None \<Rightarrow> 0 | Some p \<Rightarrow> 1 + length p)) + 1"

text \<open>\<open>memcpy\<close> to the buffer at a position that advances.\<close>

fun copy_all :: "u8 list \<Rightarrow> nat \<Rightarrow> ctext list \<Rightarrow> u8 list option" where
  "copy_all buf i [] = Some buf"
| "copy_all buf i (t # ts) = do { b \<leftarrow> mem_store buf i t; copy_all b (i + length t) ts }"

definition to_cstr :: "endpoint_address \<Rightarrow> u8 list \<Rightarrow> u8 list option" where
  "to_cstr me buf =
     copy_all buf 0
       ([protocol_name me, str ''://'', protocol_address me] @
        (case service_name me of
           None \<Rightarrow> []
         | Some n \<Rightarrow> [[47], n] @ (case service_params me of None \<Rightarrow> [] | Some p \<Rightarrow> [[47], p])) @
        [[0]])"

text \<open>The result \<open>Some None\<close> is a null pointer, for an allocation that fails.\<close>

definition jxta_endpoint_address_to_string :: "allocator \<Rightarrow> endpoint_address \<Rightarrow> u8 list option option" where
  "jxta_endpoint_address_to_string A a =
     (if \<not> can_alloc A (jxta_endpoint_address_size a) then Some None
      else map_option Some (to_cstr a (replicate (jxta_endpoint_address_size a) 0)))"

definition jxta_endpoint_address_to_pstr :: "bool \<Rightarrow> endpoint_address \<Rightarrow> u8 list option option" where
  "jxta_endpoint_address_to_pstr pool_ok me =
     (if \<not> pool_ok then Some None
      else map_option Some (to_cstr me (replicate (jxta_endpoint_address_size me) 0)))"

definition jxta_endpoint_address_get_transport_addr :: "allocator \<Rightarrow> endpoint_address \<Rightarrow> u8 list option option" where
  "jxta_endpoint_address_get_transport_addr A me =
     (let n = length (protocol_name me) + 3 + length (protocol_address me) + 1 in
      if \<not> can_alloc A n then Some None
      else map_option Some (copy_all (replicate n 0) 0 [protocol_name me, str ''://'', protocol_address me, [0]]))"

definition jxta_endpoint_address_get_recipient_cstr :: "allocator \<Rightarrow> endpoint_address \<Rightarrow> u8 list option option" where
  "jxta_endpoint_address_get_recipient_cstr A a =
     (case service_name a of
        None \<Rightarrow> Some None
      | Some name \<Rightarrow>
          (let n = 1 + length name + (case service_params a of Some p \<Rightarrow> length p + 1 | None \<Rightarrow> 0) + 1 in
           if \<not> can_alloc A n then Some None
           else map_option Some (copy_all (replicate n 0) 0
             ([str ''/'', name] @ (case service_params a of Some p \<Rightarrow> [str ''/'', p] | None \<Rightarrow> []) @ [[0]]))))"

definition jxta_endpoint_address_get_protocol_name :: "endpoint_address \<Rightarrow> ctext" where
  "jxta_endpoint_address_get_protocol_name a = protocol_name a"

definition jxta_endpoint_address_get_protocol_address :: "endpoint_address \<Rightarrow> ctext" where
  "jxta_endpoint_address_get_protocol_address a = protocol_address a"

definition jxta_endpoint_address_get_service_name :: "endpoint_address \<Rightarrow> ctext option" where
  "jxta_endpoint_address_get_service_name a = service_name a"

definition jxta_endpoint_address_get_service_params :: "endpoint_address \<Rightarrow> ctext option" where
  "jxta_endpoint_address_get_service_params a = service_params a"

subsection \<open>Comparison\<close>

text \<open>\<open>natcmp\<close> is \<open>apr_strnatcasecmp\<close>, \<open>same\<close> that both are the same object.\<close>

definition string_compare :: "(ctext \<Rightarrow> ctext \<Rightarrow> int) \<Rightarrow> ctext option \<Rightarrow> ctext option \<Rightarrow> bool" where
  "string_compare natcmp v1 v2 =
     (case (v1, v2) of
        (None, None) \<Rightarrow> True
      | (Some a, Some b) \<Rightarrow> natcmp a b = 0
      | _ \<Rightarrow> False)"

definition jxta_endpoint_address_equals ::
  "bool \<Rightarrow> (ctext \<Rightarrow> ctext \<Rightarrow> int) \<Rightarrow> endpoint_address option \<Rightarrow> endpoint_address option \<Rightarrow> bool" where
  "jxta_endpoint_address_equals same natcmp addr1 addr2 =
     (case (addr1, addr2) of
        (Some a, Some b) \<Rightarrow> same \<or>
          string_compare natcmp (Some (protocol_name a)) (Some (protocol_name b)) \<and>
          string_compare natcmp (Some (protocol_address a)) (Some (protocol_address b)) \<and>
          string_compare natcmp (service_name a) (service_name b) \<and>
          string_compare natcmp (service_params a) (service_params b)
      | _ \<Rightarrow> False)"

definition jxta_endpoint_address_transport_addr_equals :: "bool \<Rightarrow> endpoint_address \<Rightarrow> endpoint_address \<Rightarrow> bool" where
  "jxta_endpoint_address_transport_addr_equals same a b \<longleftrightarrow> same \<or>
     map tolower (protocol_name a) = map tolower (protocol_name b) \<and>
     map tolower (protocol_address a) = map tolower (protocol_address b)"

subsection \<open>Lemmas\<close>

text \<open>The text of an address.\<close>

definition ea_rest :: "endpoint_address \<Rightarrow> ctext" where
  "ea_rest a =
     (case service_name a of
        None \<Rightarrow> []
      | Some n \<Rightarrow> 47 # n @ (case service_params a of None \<Rightarrow> [] | Some p \<Rightarrow> 47 # p))"

definition ea_text :: "endpoint_address \<Rightarrow> ctext" where
  "ea_text a = protocol_name a @ str ''://'' @ protocol_address a @ ea_rest a"

lemma copy_all_ok:
  "i + length (concat ts) \<le> length buf \<Longrightarrow>
   copy_all buf i ts = Some (take i buf @ concat ts @ drop (i + length (concat ts)) buf)"
proof (induction ts arbitrary: buf i)
  case (Cons t ts)
  let ?b = "take i buf @ t @ drop (i + length t) buf"
  have "copy_all ?b (i + length t) ts =
      Some (take (i + length t) ?b @ concat ts @ drop (i + length t + length (concat ts)) ?b)"
    using Cons.prems by (intro Cons.IH) simp
  then show ?case
    using Cons.prems by (simp add: mem_simps add.commute add.left_commute)
qed simp

lemma size_text: "jxta_endpoint_address_size a = length (ea_text a) + 1"
  by (auto simp: jxta_endpoint_address_size_def ea_text_def ea_rest_def split: option.split)

lemma to_cstr_ok: "to_cstr a (replicate (jxta_endpoint_address_size a) 0) = Some (ea_text a @ [0])"
proof -
  define ts where "ts = [protocol_name a, str ''://'', protocol_address a] @
        (case service_name a of None \<Rightarrow> [] | Some n \<Rightarrow> [[47], n] @ (case service_params a of None \<Rightarrow> [] | Some p \<Rightarrow> [[47], p])) @ [[0]]"
  have "concat ts = ea_text a @ [0]"
    by (auto simp: ts_def ea_text_def ea_rest_def split: option.split)
  then show ?thesis
    using copy_all_ok [of 0 ts "replicate (jxta_endpoint_address_size a) 0"]
    unfolding to_cstr_def ts_def [symmetric] by (simp add: size_text)
qed

text \<open>
  The addresses that are read back: a service name that is not empty, without slashes, and does
  not begin with a colon; no parameters without a service name; no zero bytes.
\<close>

definition ea_printable :: "endpoint_address \<Rightarrow> bool" where
  "ea_printable a \<longleftrightarrow> 0 \<notin> set (ea_text a) \<and>
     (case service_name a of
        None \<Rightarrow> service_params a = None
      | Some n \<Rightarrow> n \<noteq> [] \<and> 47 \<notin> set n \<and> hd n \<noteq> 58)"

text \<open>
  What is documented of \<open>apr_uri_parse\<close>, for one address: the parts of the text before and
  behind the host, and the path, query and fragment as they stand there.
\<close>

definition uri_law :: "(ctext \<Rightarrow> apr_uri) \<Rightarrow> endpoint_address \<Rightarrow> bool" where
  "uri_law parse a \<longleftrightarrow>
     (let u = parse (ea_text a) in
      uri_scheme u = Some (protocol_name a) \<and>
      (case uri_hostname u of None \<Rightarrow> False | Some h \<Rightarrow> uri_host u h = protocol_address a) \<and>
      (uri_path u = None \<longrightarrow> uri_query u = None \<and> uri_fragment u = None) \<and>
      (case uri_path u of None \<Rightarrow> [] | Some p \<Rightarrow> p) @ (case uri_query u of None \<Rightarrow> [] | Some q \<Rightarrow> 63 # q) @
        (case uri_fragment u of None \<Rightarrow> [] | Some f \<Rightarrow> 35 # f) = ea_rest a \<and>
      (\<forall>p. uri_path u = Some p \<longrightarrow> p \<noteq> []))"

lemma slash_at_none: "47 \<notin> set n \<Longrightarrow> slash_at n = None"
  by (induction n) (auto simp: slash_at_def Let_def)

lemma slash_at_some:
  assumes "47 \<notin> set n"
  shows "slash_at (n @ 47 # p) = Some (length n)"
proof -
  have "takeWhile (\<lambda>c. c \<noteq> 47) (n @ 47 # p) = n"
    using assms by (induction n) auto
  then show ?thesis
    by (simp add: slash_at_def)
qed

lemma trim_uri_stop: "n = [] \<or> hd n \<noteq> 58 \<and> hd n \<noteq> 47 \<Longrightarrow> trim_uri n = n"
  by (cases n) auto

lemma uri_rest_text:
  assumes "ea_printable a" "uri_law parse a"
  shows "uri_rest (parse (ea_text a)) =
    (case service_name a of None \<Rightarrow> [] | Some n \<Rightarrow> n @ (case service_params a of None \<Rightarrow> [] | Some p \<Rightarrow> 47 # p))"
proof -
  let ?u = "parse (ea_text a)"
  let ?q = "(case uri_query ?u of None \<Rightarrow> [] | Some q \<Rightarrow> 63 # q) @ (case uri_fragment ?u of None \<Rightarrow> [] | Some f \<Rightarrow> 35 # f)"
  have law: "uri_path ?u = None \<longrightarrow> uri_query ?u = None \<and> uri_fragment ?u = None" "\<forall>p. uri_path ?u = Some p \<longrightarrow> p \<noteq> []"
      "(case uri_path ?u of None \<Rightarrow> [] | Some p \<Rightarrow> p) @ ?q = ea_rest a"
    using assms(2) by (auto simp: uri_law_def Let_def)
  show ?thesis
  proof (cases "service_name a")
    case None
    then have "uri_path ?u = None"
      using law(2,3) by (cases "uri_path ?u") (auto simp: ea_rest_def)
    then show ?thesis
      using law(1) None by (simp add: uri_rest_def)
  next
    case (Some n)
    let ?r = "n @ (case service_params a of None \<Rightarrow> [] | Some p \<Rightarrow> 47 # p)"
    have n: "n \<noteq> []" "47 \<notin> set n" "hd n \<noteq> 58"
      using assms(1) Some by (auto simp: ea_printable_def)
    then have hd: "hd ?r \<noteq> 58 \<and> hd ?r \<noteq> 47"
      by (cases n) auto
    obtain p where p: "uri_path ?u = Some (47 # p)" "p @ ?q = ?r"
      using law Some by (cases "uri_path ?u"; cases "the (uri_path ?u)") (auto simp: ea_rest_def)
    have "trim_uri p = p"
      using hd p(2) by (intro trim_uri_stop) (metis append_Cons hd_append2 list.sel(1))
    then show ?thesis
      using p Some by (simp add: uri_rest_def)
  qed
qed

lemma address_parsed:
  assumes "ea_printable a" "uri_law parse a"
  shows "jxta_endpoint_address_new parse True True (ea_text a) = Some a"
proof -
  obtain h where u: "uri_scheme (parse (ea_text a)) = Some (protocol_name a)" "uri_hostname (parse (ea_text a)) = Some h"
      "uri_host (parse (ea_text a)) h = protocol_address a"
    using assms(2) by (auto simp: uri_law_def Let_def split: option.splits)
  have "n \<noteq> [] \<and> 47 \<notin> set n" if "service_name a = Some n" for n
    using assms(1) that by (auto simp: ea_printable_def)
  then show ?thesis
    using u assms(1) uri_rest_text [OF assms]
    by (cases "service_name a"; cases "service_params a")
      (auto simp: jxta_endpoint_address_new_def Let_def slash_at_none slash_at_some slash_at_none [of "[]", simplified] ea_printable_def)
qed

subsection \<open>Printed and parsed\<close>

text \<open>
  An address is printed into a block of exactly the size that is computed for it, and the
  text, parsed by a URI parser that splits it as documented, gives the same address.
\<close>

lemma endpoint_address_roundtrip:
  assumes "can_alloc A (jxta_endpoint_address_size a)" "ea_printable a" "uri_law parse a"
  shows "\<exists>cs. jxta_endpoint_address_to_string A a = Some (Some cs) \<and> length cs = jxta_endpoint_address_size a \<and>
    strlen cs = Some (jxta_endpoint_address_size a - 1) \<and> jxta_endpoint_address_new parse True True (cstr cs) = Some a"
proof -
  have "0 \<notin> set (ea_text a)"
    using assms(2) by (simp add: ea_printable_def)
  then show ?thesis
    using assms(1) address_parsed [OF assms(2,3)]
    by (simp add: jxta_endpoint_address_to_string_def to_cstr_ok cstr_block strlen_block) (simp add: size_text)
qed

text \<open>A parser for texts without a port, a query and a fragment, for the examples.\<close>

definition plain_uri :: "ctext \<Rightarrow> apr_uri" where
  "plain_uri s =
     (let sch = takeWhile (\<lambda>c. c \<noteq> 58) s; r = drop (length sch + 3) s; h = takeWhile (\<lambda>c. c \<noteq> 47) r; p = drop (length h) r
      in \<lparr>uri_scheme = Some sch, uri_hostname = Some h, uri_port_str = None, uri_path = (if p = [] then None else Some p),
           uri_query = None, uri_fragment = None\<rparr>)"

definition sample_address :: endpoint_address where
  "sample_address = \<lparr>protocol_name = str ''jxta'', protocol_address = str ''uuid-0A'',
     service_name = Some (str ''EndpointService:Net''), service_params = Some (str ''RdvWalk/Net'')\<rparr>"

lemma sample_address_law:
  "can_alloc all_alloc (jxta_endpoint_address_size sample_address)" "ea_printable sample_address"
  "uri_law plain_uri sample_address" "jxta_endpoint_address_size sample_address = 47"
  by (simp_all add: sample_address_def all_alloc_def ea_printable_def uri_law_def plain_uri_def ea_text_def ea_rest_def Let_def
      uri_host_def jxta_endpoint_address_size_def)

end
