(* ===== verification/Message.thy ===== *)
theory Message
  imports MessageWire EndpointAddress
begin

section \<open>Messages and their elements (src/src/jxta_message.c)\<close>

text \<open>
  The operations on a message that are not about the wire: creation and copying, elements by
  namespace and name, qualified names, and the source and destination addresses that travel
  as elements.  A message is the list of its elements, as in the theory of the wire format.
\<close>

subsection \<open>Messages\<close>

definition jxta_message_new :: "bool \<Rightarrow> bool \<Rightarrow> bool \<Rightarrow> jxta_message option" where
  "jxta_message_new self_ok pool_ok elements_ok =
     (if \<not> self_ok \<or> \<not> pool_ok \<or> \<not> elements_ok then None else Some \<lparr>melements = [], mqos = None\<rparr>)"

definition jxta_message_create :: "bool \<Rightarrow> bool \<Rightarrow> status \<times> jxta_message option" where
  "jxta_message_create self_ok elements_ok =
     (if \<not> self_ok then (JXTA_NOMEM, None)
      else if \<not> elements_ok then (JXTA_NOMEM, None)
      else (JXTA_SUCCESS, Some \<lparr>melements = [], mqos = None\<rparr>))"

text \<open>The QoS object is copied; the status of the copy is ignored.\<close>

definition jxta_message_clone :: "bool \<Rightarrow> bool \<Rightarrow> bool \<Rightarrow> jxta_message \<Rightarrow> jxta_message option option" where
  "jxta_message_clone new_ok qos_ok mutex_ok old =
     (if \<not> new_ok then Some None
      else case mqos old of
        None \<Rightarrow> Some (Some \<lparr>melements = melements old, mqos = None\<rparr>)
      | Some q \<Rightarrow>
          do { (_, q') \<leftarrow> jxta_qos_clone qos_ok qos_ok mutex_ok q;
               Some (Some \<lparr>melements = melements old, mqos = q'\<rparr>) })"

definition jxta_message_get_elements :: "jxta_message \<Rightarrow> jxta_message_element list" where
  "jxta_message_get_elements msg = melements msg"

definition jxta_message_qos :: "jxta_message \<Rightarrow> jxta_qos option" where
  "jxta_message_qos me = mqos me"

subsection \<open>Elements by name\<close>

text \<open>The search begins with the last element.\<close>

definition jxta_message_get_element_2 ::
  "jxta_message \<Rightarrow> ctext \<Rightarrow> ctext \<Rightarrow> status \<times> jxta_message_element option" where
  "jxta_message_get_element_2 msg ns name =
     (case find (\<lambda>e. el_ns e = ns \<and> el_name e = name) (rev (melements msg)) of
        None \<Rightarrow> (JXTA_ITEM_NOTFOUND, None)
      | Some e \<Rightarrow> (JXTA_SUCCESS, Some e))"

text \<open>
  \<open>parseqname\<close>: a colon in the text ends the namespace and begins the name; without one the
  namespace is the empty one.  The result is \<open>None\<close> without memory.
\<close>

definition parseqname :: "allocator \<Rightarrow> ctext option \<Rightarrow> (ctext \<times> ctext) option" where
  "parseqname A srcqname =
     (case srcqname of
        None \<Rightarrow> None
      | Some s \<Rightarrow>
          if 58 \<notin> set s
          then (if can_alloc A (length s + length MESSAGE_EMPTYNS + 2) then Some (MESSAGE_EMPTYNS, s) else None)
          else (if can_alloc A (length s + 1)
                then Some (takeWhile (\<lambda>c. c \<noteq> 58) s, tl (dropWhile (\<lambda>c. c \<noteq> 58) s)) else None))"

definition jxta_message_get_element_1 ::
  "allocator \<Rightarrow> jxta_message \<Rightarrow> ctext option \<Rightarrow> status \<times> jxta_message_element option" where
  "jxta_message_get_element_1 A msg qname =
     (case parseqname A qname of
        None \<Rightarrow> (JXTA_NOMEM, None)
      | Some (ns, name) \<Rightarrow> jxta_message_get_element_2 msg ns name)"

definition jxta_message_remove_element_1 ::
  "allocator \<Rightarrow> jxta_message \<Rightarrow> ctext option \<Rightarrow> status \<times> jxta_message" where
  "jxta_message_remove_element_1 A msg qname =
     (if qname = None then (JXTA_INVALID_ARGUMENT, msg)
      else case parseqname A qname of
        None \<Rightarrow> (JXTA_NOMEM, msg)
      | Some (ns, name) \<Rightarrow> jxta_message_remove_element_2 msg ns name)"

text \<open>An element by its pointer: \<open>same i\<close> says whether the \<open>i\<close>-th slot of the vector holds it.\<close>

definition jxta_message_remove_element :: "jxta_message \<Rightarrow> (nat \<Rightarrow> bool) \<Rightarrow> status \<times> jxta_message" where
  "jxta_message_remove_element msg same =
     (case find same (rev [0..<length (melements msg)]) of
        None \<Rightarrow> (JXTA_ITEM_NOTFOUND, msg)
      | Some i \<Rightarrow> (JXTA_SUCCESS, msg\<lparr>melements := take i (melements msg) @ drop (Suc i) (melements msg)\<rparr>))"

subsection \<open>Elements\<close>

text \<open>\<open>v\<close> is a block of at least \<open>len\<close> bytes, or \<open>None\<close> for a null pointer.\<close>

definition jxta_message_element_new_2 ::
  "allocator \<Rightarrow> ctext option \<Rightarrow> ctext option \<Rightarrow> ctext option \<Rightarrow> u8 list option \<Rightarrow> u64 \<Rightarrow> jxta_message_element option
     \<Rightarrow> jxta_message_element option option" where
  "jxta_message_element_new_2 A ns ncname mime v len sig =
     (if v = None \<and> len \<noteq> 0 then Some None
      else case jxta_bytevector_new_1 A True len of
        None \<Rightarrow> Some None
      | Some vec \<Rightarrow>
          (case v of
             None \<Rightarrow> Some (jxta_message_element_new_3 ns ncname mime (bview vec) sig)
           | Some bytes \<Rightarrow>
               do { (st, vec1) \<leftarrow> jxta_bytevector_add_bytes_at A vec (Some bytes) 0 len;
                    Some (if st \<noteq> JXTA_SUCCESS then None
                          else jxta_message_element_new_3 ns ncname mime (bview vec1) sig) }))"

definition jxta_message_element_new_1 ::
  "allocator \<Rightarrow> ctext option \<Rightarrow> ctext option \<Rightarrow> u8 list option \<Rightarrow> u64 \<Rightarrow> jxta_message_element option
     \<Rightarrow> jxta_message_element option option" where
  "jxta_message_element_new_1 A qname mime v len sig =
     (case parseqname A qname of
        None \<Rightarrow> Some None
      | Some (ns, ncname) \<Rightarrow> jxta_message_element_new_2 A (Some ns) (Some ncname) mime v len sig)"

definition jxta_message_element_get_namespace :: "jxta_message_element \<Rightarrow> ctext" where
  "jxta_message_element_get_namespace e = el_ns e"

definition jxta_message_element_get_name :: "jxta_message_element \<Rightarrow> ctext" where
  "jxta_message_element_get_name e = el_name e"

definition jxta_message_element_get_value :: "jxta_message_element \<Rightarrow> u8 list" where
  "jxta_message_element_get_value e = el_value e"

definition jxta_message_element_get_signature :: "jxta_message_element \<Rightarrow> jxta_message_element option" where
  "jxta_message_element_get_signature e = el_sig e"

subsection \<open>Source and destination\<close>

definition MESSAGE_SOURCE_NS :: ctext where "MESSAGE_SOURCE_NS = str ''jxta''"
definition MESSAGE_DESTINATION_NS :: ctext where "MESSAGE_DESTINATION_NS = str ''jxta''"
definition MESSAGE_SOURCE_NAME :: ctext where "MESSAGE_SOURCE_NAME = str ''EndpointSourceAddress''"
definition MESSAGE_DESTINATION_NAME :: ctext where "MESSAGE_DESTINATION_NAME = str ''EndpointDestinationAddress''"

text \<open>The byte vector of a value.\<close>

definition value_vector :: "u8 list \<Rightarrow> jxta_bytevector" where
  "value_vector v = \<lparr>content = Some v, bsize = word_of_nat (length v), bcapacity = word_of_nat (length v), bmutex = None\<rparr>"

text \<open>The address in the value of an element; \<open>Some None\<close> is a null pointer.\<close>

definition element_address ::
  "allocator \<Rightarrow> (ctext \<Rightarrow> apr_uri) \<Rightarrow> jxta_message_element \<Rightarrow> endpoint_address option option" where
  "element_address A parse e =
     (let v = value_vector (el_value e); len = jxta_bytevector_size v in
      if \<not> can_alloc A (unat len + 1) then Some None
      else do {
        (st, bytes) \<leftarrow> jxta_bytevector_get_bytes_at v (Some (unat len + 1)) 0 len;
        Some (if st \<noteq> JXTA_SUCCESS then None
              else jxta_endpoint_address_new parse True True (cstr (bytes @ [0]))) })"

definition jxta_message_get_source ::
  "allocator \<Rightarrow> (ctext \<Rightarrow> apr_uri) \<Rightarrow> jxta_message \<Rightarrow> endpoint_address option option" where
  "jxta_message_get_source A parse msg =
     (case jxta_message_get_element_2 msg MESSAGE_SOURCE_NS MESSAGE_SOURCE_NAME of
        (JXTA_SUCCESS, Some e) \<Rightarrow> element_address A parse e
      | _ \<Rightarrow> Some None)"

definition jxta_message_get_destination ::
  "allocator \<Rightarrow> (ctext \<Rightarrow> apr_uri) \<Rightarrow> jxta_message \<Rightarrow> endpoint_address option option" where
  "jxta_message_get_destination A parse msg =
     (case jxta_message_get_element_2 msg MESSAGE_DESTINATION_NS MESSAGE_DESTINATION_NAME of
        (JXTA_SUCCESS, Some e) \<Rightarrow> element_address A parse e
      | _ \<Rightarrow> Some None)"

text \<open>The element of an address replaces the one the message has.\<close>

definition set_address ::
  "allocator \<Rightarrow> ctext \<Rightarrow> ctext \<Rightarrow> jxta_message \<Rightarrow> endpoint_address \<Rightarrow> (status \<times> jxta_message) option" where
  "set_address A ns name msg addr =
     do { el_value \<leftarrow> jxta_endpoint_address_to_string A addr;
          (case el_value of
             None \<Rightarrow> Some (JXTA_FAILED, msg)
           | Some cs \<Rightarrow>
               do { n \<leftarrow> strlen cs;
                    el \<leftarrow> jxta_message_element_new_2 A (Some ns) (Some name) (Some (str ''text/plain'')) (Some cs) (word_of_nat n) None;
                    Some (case el of
                            None \<Rightarrow> (JXTA_FAILED, msg)
                          | Some e \<Rightarrow> jxta_message_add_element (snd (jxta_message_remove_element_2 msg ns name)) e) }) }"

definition jxta_message_set_source ::
  "allocator \<Rightarrow> jxta_message \<Rightarrow> endpoint_address \<Rightarrow> (status \<times> jxta_message) option" where
  "jxta_message_set_source A = set_address A MESSAGE_SOURCE_NS MESSAGE_SOURCE_NAME"

definition jxta_message_set_destination ::
  "allocator \<Rightarrow> jxta_message \<Rightarrow> endpoint_address \<Rightarrow> (status \<times> jxta_message) option" where
  "jxta_message_set_destination A = set_address A MESSAGE_DESTINATION_NS MESSAGE_DESTINATION_NAME"

subsection \<open>Lemmas\<close>

lemma get_element_last:
  "jxta_message_get_element_2 (msg\<lparr>melements := es @ [Element ns name mime v sig]\<rparr>) ns name =
     (JXTA_SUCCESS, Some (Element ns name mime v sig))"
  by (simp add: jxta_message_get_element_2_def)

lemma find_snoc_other: "\<not> P e \<Longrightarrow> find P (e # es) = find P es"
  by simp

text \<open>The other elements, those that are not found by a name.\<close>

definition others :: "ctext \<Rightarrow> ctext \<Rightarrow> jxta_message_element list \<Rightarrow> jxta_message_element list" where
  "others ns name = filter (\<lambda>e. \<not> (el_ns e = ns \<and> el_name e = name))"

lemma remove_first_match_others:
  "remove_first_match P es = Some rs \<Longrightarrow> filter (\<lambda>e. \<not> P e) rs = filter (\<lambda>e. \<not> P e) es"
  by (induction es arbitrary: rs) (auto split: if_splits)

lemma remove_first_match_find: "remove_first_match P es = Some rs \<Longrightarrow> (\<And>e. Q e \<Longrightarrow> \<not> P e) \<Longrightarrow> find Q rs = find Q es"
  by (induction es arbitrary: rs) (auto split: if_splits)

lemma remove_element_2_others:
  "others ns name (melements (snd (jxta_message_remove_element_2 msg ns name))) = others ns name (melements msg)"
proof (cases "remove_first_match (\<lambda>e. el_ns e = ns \<and> el_name e = name) (rev (melements msg))")
  case (Some rs)
  then have "others ns name rs = others ns name (rev (melements msg))"
    using remove_first_match_others [OF Some] by (simp add: others_def)
  then have "rev (others ns name rs) = others ns name (melements msg)"
    by (simp add: others_def rev_filter)
  then show ?thesis
    using Some by (simp add: jxta_message_remove_element_2_def others_def rev_filter)
qed (simp add: jxta_message_remove_element_2_def)

lemma remove_element_2_find:
  assumes "ns' \<noteq> ns \<or> name' \<noteq> name"
  shows "jxta_message_get_element_2 (snd (jxta_message_remove_element_2 msg ns name)) ns' name' =
    jxta_message_get_element_2 msg ns' name'"
proof (cases "remove_first_match (\<lambda>e. el_ns e = ns \<and> el_name e = name) (rev (melements msg))")
  case (Some rs)
  have "find (\<lambda>e. el_ns e = ns' \<and> el_name e = name') rs = find (\<lambda>e. el_ns e = ns' \<and> el_name e = name') (rev (melements msg))"
    using assms by (intro remove_first_match_find [OF Some]) auto
  then show ?thesis
    using Some by (simp add: jxta_message_remove_element_2_def jxta_message_get_element_2_def)
qed (simp add: jxta_message_remove_element_2_def)

lemma new_2_ok:
  assumes A: "big_alloc A" and len: "n < 2 ^ 60" "n \<le> length bytes"
  shows "jxta_message_element_new_2 A (Some ns) (Some name) mime (Some bytes) (word_of_nat n) sig =
    Some (Some (Element ns name mime (take n bytes) sig))"
proof -
  have n: "unat (word_of_nat n :: u64) = n"
    using len by (simp add: unat_of_nat)
  obtain vec where vec: "jxta_bytevector_new_1 A True (word_of_nat n) = Some vec" "bytes_ok vec" "bview vec = []"
      "bcapacity vec = word_of_nat n"
    using new_bytes_ok [of A "word_of_nat n"] A len n by (auto simp: big_alloc_def)
  have z: "unat (bsize vec) = 0"
    using length_bview [OF vec(2)] vec(3) by simp
  have "can_extend A vec n"
    using A vec(4) z len n by (auto simp: can_extend_def big_alloc_def)
  then obtain v1 where v1: "jxta_bytevector_add_bytes_at A vec (Some (take n bytes)) 0 (word_of_nat n) = Some (JXTA_SUCCESS, v1)"
      "bview v1 = take n bytes"
    using add_bytes_ok [OF vec(2), of 0 "take n bytes" "word_of_nat n" A] n z vec(3) len by auto
  have "mem_load bytes 0 n = mem_load (take n bytes) 0 n"
    using len by (simp add: mem_load_def)
  then have "jxta_bytevector_add_bytes_at A vec (Some bytes) 0 (word_of_nat n) = Some (JXTA_SUCCESS, v1)"
    using v1(1) n by (simp add: jxta_bytevector_add_bytes_at_def cong: if_cong)
  then show ?thesis
    using vec(1) v1(2) by (simp add: jxta_message_element_new_2_def jxta_message_element_new_3_def)
qed

lemma element_address_ok:
  assumes "big_alloc A" "ea_printable a" "uri_law parse a" "length (ea_text a) < 2 ^ 60"
  shows "element_address A parse (Element ns name mime (ea_text a) sig) = Some (Some a)"
proof -
  let ?v = "value_vector (ea_text a)"
  have n: "unat (word_of_nat (length (ea_text a)) :: u64) = length (ea_text a)"
    using assms(4) by (simp add: unat_of_nat)
  have pos: "0 < length (ea_text a)" and z: "0 \<notin> set (ea_text a)"
    using assms(2) by (simp_all add: ea_text_def ea_printable_def)
  have "jxta_bytevector_get_bytes_at ?v (Some (length (ea_text a) + 1)) 0 (bsize ?v) = Some (JXTA_SUCCESS, ea_text a)"
    using get_bytes_ok [of ?v 0 "bsize ?v" "length (ea_text a) + 1"] n pos
    by (simp add: value_vector_def bytes_ok_def bview_def block_def)
  then show ?thesis
    using assms(1,4) n address_parsed [OF assms(2,3)]
    by (simp add: element_address_def jxta_bytevector_size_def value_vector_def big_alloc_def cstr_block [OF z] Let_def)
qed

lemma set_address_ok:
  assumes "big_alloc A" "ea_printable a" "length (ea_text a) < 2 ^ 60"
  shows "set_address A ns name msg a = Some (JXTA_SUCCESS, msg\<lparr>melements :=
    melements (snd (jxta_message_remove_element_2 msg ns name)) @ [Element ns name (Some (str ''text/plain'')) (ea_text a) None]\<rparr>)"
proof -
  have z: "0 \<notin> set (ea_text a)"
    using assms(2) by (simp add: ea_printable_def)
  have "can_alloc A (jxta_endpoint_address_size a)"
    using assms(1,3) by (simp add: size_text big_alloc_def)
  moreover have "(snd (jxta_message_remove_element_2 msg ns name))\<lparr>melements := x\<rparr> = msg\<lparr>melements := x\<rparr>" for x
    by (simp add: jxta_message_remove_element_2_def split: option.split)
  ultimately show ?thesis
    using new_2_ok [OF assms(1), of "length (ea_text a)" "ea_text a @ [0]"] assms(3)
    by (simp add: set_address_def jxta_endpoint_address_to_string_def to_cstr_ok strlen_block [OF z] jxta_message_add_element_def)
qed

lemma find_append_other: "\<not> P x \<Longrightarrow> find P (rev (es @ [x])) = find P (rev es)"
  by simp

subsection \<open>Properties\<close>

text \<open>
  Source and destination of a message: after both are set, each is read back as the same
  address (through its exactly sized text, the value of its element and the URI parser), they
  do not replace each other, and the other elements and the QoS settings of the message are
  unchanged.
\<close>

theorem message_addresses:
  assumes "big_alloc A" "ea_printable a" "uri_law parse a" "length (ea_text a) < 2 ^ 60"
    and "ea_printable b" "uri_law parse b" "length (ea_text b) < 2 ^ 60"
  shows "\<exists>m1 m2. jxta_message_set_source A msg a = Some (JXTA_SUCCESS, m1) \<and>
    jxta_message_set_destination A m1 b = Some (JXTA_SUCCESS, m2) \<and>
    jxta_message_get_source A parse m2 = Some (Some a) \<and> jxta_message_get_destination A parse m2 = Some (Some b) \<and>
    filter (\<lambda>e. \<not> (el_ns e = MESSAGE_SOURCE_NS \<and> el_name e \<in> {MESSAGE_SOURCE_NAME, MESSAGE_DESTINATION_NAME})) (melements m2) =
      filter (\<lambda>e. \<not> (el_ns e = MESSAGE_SOURCE_NS \<and> el_name e \<in> {MESSAGE_SOURCE_NAME, MESSAGE_DESTINATION_NAME})) (melements msg) \<and>
    jxta_message_qos m2 = jxta_message_qos msg"
proof -
  let ?ns = MESSAGE_SOURCE_NS and ?P = "\<lambda>e. \<not> (el_ns e = MESSAGE_SOURCE_NS \<and> el_name e \<in> {MESSAGE_SOURCE_NAME, MESSAGE_DESTINATION_NAME})"
  let ?rm = "\<lambda>m name. melements (snd (jxta_message_remove_element_2 m ?ns name))"
  define m1 where "m1 = msg\<lparr>melements := ?rm msg MESSAGE_SOURCE_NAME @
    [Element ?ns MESSAGE_SOURCE_NAME (Some (str ''text/plain'')) (ea_text a) None]\<rparr>"
  define m2 where "m2 = m1\<lparr>melements := ?rm m1 MESSAGE_DESTINATION_NAME @
    [Element ?ns MESSAGE_DESTINATION_NAME (Some (str ''text/plain'')) (ea_text b) None]\<rparr>"
  have neq: "MESSAGE_SOURCE_NAME \<noteq> MESSAGE_DESTINATION_NAME"
    by (simp add: MESSAGE_SOURCE_NAME_def MESSAGE_DESTINATION_NAME_def)
  have ns: "MESSAGE_DESTINATION_NS = MESSAGE_SOURCE_NS"
    by (simp add: MESSAGE_SOURCE_NS_def MESSAGE_DESTINATION_NS_def)
  have set: "jxta_message_set_source A msg a = Some (JXTA_SUCCESS, m1)"
      "jxta_message_set_destination A m1 b = Some (JXTA_SUCCESS, m2)"
    using set_address_ok [OF assms(1,2,4)] set_address_ok [OF assms(1,5,7)]
    by (simp_all only: jxta_message_set_source_def jxta_message_set_destination_def ns m1_def m2_def)
  have "jxta_message_get_element_2 m2 ?ns MESSAGE_SOURCE_NAME = jxta_message_get_element_2 m1 ?ns MESSAGE_SOURCE_NAME"
    using remove_element_2_find [of ?ns ?ns MESSAGE_SOURCE_NAME MESSAGE_DESTINATION_NAME m1] neq
    by (simp add: m2_def jxta_message_get_element_2_def del: str_simps)
  then have src: "jxta_message_get_source A parse m2 = Some (Some a)"
    using element_address_ok [OF assms(1-4)]
    by (simp add: jxta_message_get_source_def m1_def get_element_last del: str_simps)
  have dst: "jxta_message_get_destination A parse m2 = Some (Some b)"
    using element_address_ok [OF assms(1,5-7)]
    by (simp add: jxta_message_get_destination_def ns m2_def get_element_last del: str_simps)
  have keep: "filter ?P (?rm m name) = filter ?P (melements m)" if "name \<in> {MESSAGE_SOURCE_NAME, MESSAGE_DESTINATION_NAME}" for m name
  proof -
    have f: "filter ?P (others ?ns name xs) = filter ?P xs" for xs
      using that unfolding others_def filter_filter by (intro filter_cong) auto
    have "filter ?P (?rm m name) = filter ?P (others ?ns name (?rm m name))"
      by (rule f [symmetric])
    also have "\<dots> = filter ?P (others ?ns name (melements m))"
      by (simp only: remove_element_2_others)
    also have "\<dots> = filter ?P (melements m)"
      by (rule f)
    finally show ?thesis .
  qed
  have "filter ?P (melements m2) = filter ?P (melements msg)"
    using keep [of MESSAGE_SOURCE_NAME msg] keep [of MESSAGE_DESTINATION_NAME m1] by (simp add: m1_def m2_def del: str_simps)
  moreover have "jxta_message_qos m2 = jxta_message_qos msg"
    by (simp add: jxta_message_qos_def m1_def m2_def)
  ultimately show ?thesis
    using set src dst by blast
qed

theorem message_addresses_witness:
  "\<exists>m1 m2. jxta_message_set_source all_alloc \<lparr>melements = [], mqos = None\<rparr> sample_address = Some (JXTA_SUCCESS, m1) \<and>
    jxta_message_set_destination all_alloc m1 sample_address = Some (JXTA_SUCCESS, m2) \<and>
    jxta_message_get_source all_alloc plain_uri m2 = Some (Some sample_address)"
proof -
  have "big_alloc all_alloc" "length (ea_text sample_address) < 2 ^ 60"
    using sample_address_law(4) by (simp_all add: big_alloc_def all_alloc_def size_text)
  then show ?thesis
    using message_addresses [of all_alloc sample_address plain_uri sample_address "\<lparr>melements = [], mqos = None\<rparr>"]
      sample_address_law by blast
qed

end
