(* ===== verification/Multicast.thy ===== *)
theory Multicast
  imports MessageProps Message
begin

section \<open>Message packets and the multicast transport\<close>

text \<open>
  The packet header in front of a message (src/src/jxta_tcp_message_packet_header.c), the
  packets of the multicast transport and what a receiver does with one
  (src/src/jxta_tcp_multicast.c).  The sockets are arguments: what \<open>sendto\<close> answers, and the
  bytes that \<open>recvfrom\<close> has stored.  The slots of the header table are \<open>None\<close> while they are
  not initialised.
\<close>

subsection \<open>The packet header\<close>

definition MESSAGE_PACKET_HEADER_COUNT :: nat where "MESSAGE_PACKET_HEADER_COUNT = 3"
definition CONTENT_TYPE_HEADER :: nat where "CONTENT_TYPE_HEADER = 0"
definition CONTENT_LENGTH_HEADER :: nat where "CONTENT_LENGTH_HEADER = 1"
definition SRC_EA_HEADER :: nat where "SRC_EA_HEADER = 2"
definition APP_MSG :: ctext where "APP_MSG = str ''application/x-jxta-msg''"

definition MESSAGE_PACKET_HEADER :: "ctext list" where
  "MESSAGE_PACKET_HEADER = [str ''content-type'', str ''content-length'', str ''srcEA'']"

lemmas header_consts = MESSAGE_PACKET_HEADER_COUNT_def CONTENT_TYPE_HEADER_def CONTENT_LENGTH_HEADER_def SRC_EA_HEADER_def

record packet_headers =
  saw :: "bool list"
  hvalues :: "u8 list option list"
  src_addr :: "ctext option"

definition no_headers :: packet_headers where
  "no_headers = \<lparr>saw = [False, False, False], hvalues = [None, None, None], src_addr = None\<rparr>"

text \<open>The header whose name begins with the text that was read, in any case of the letters.\<close>

definition packet_header_nb :: "ctext \<Rightarrow> nat \<Rightarrow> nat option" where
  "packet_header_nb name n =
     find (\<lambda>i. strncasecmp name (MESSAGE_PACKET_HEADER ! i) n = 0) [0..<MESSAGE_PACKET_HEADER_COUNT]"

text \<open>
  The loop over the headers, with a bound on its rounds: each of them reads at least one byte.
  A header that is out of place makes the loop free all values, of which some may not be
  initialised.
\<close>

fun header_loop ::
  "nat \<Rightarrow> allocator \<Rightarrow> 's stream_read \<Rightarrow> nat \<Rightarrow> packet_headers \<Rightarrow> 's \<Rightarrow> (status \<times> packet_headers \<times> 's) option" where
  "header_loop 0 A rd header_count h s = None"
| "header_loop (Suc fuel) A rd header_count h s =
     do { (res, b, s) \<leftarrow> rd 1 s;
          if res \<noteq> JXTA_SUCCESS then Some (JXTA_IOERR, h, s)
          else if hd b = 0
          then (if saw h ! CONTENT_TYPE_HEADER \<and> saw h ! CONTENT_LENGTH_HEADER \<and>
                   (header_count = 2 \<or> header_count = 3 \<and> saw h ! SRC_EA_HEADER)
                then Some (JXTA_SUCCESS, h, s)
                else header_loop fuel A rd header_count h s)
          else do { (res, name, s) \<leftarrow> rd (unat (hd b)) s;
          if res \<noteq> JXTA_SUCCESS then Some (JXTA_IOERR, h, s)
          else (case packet_header_nb name (unat (hd b)) of
            None \<Rightarrow> Some (JXTA_FAILED, h, s)
          | Some i \<Rightarrow>
              if saw h ! i then Some (JXTA_FAILED, h, s)
              else do { (res, vs, s) \<leftarrow> rd 2 s;
                let h = h\<lparr>saw := (saw h)[i := True]\<rparr>;
                let len = be_decode vs;
                if res \<noteq> JXTA_SUCCESS \<or> \<not> can_alloc A (len + 1) then Some (JXTA_FAILED, h, s)
                else do { (res, v, s) \<leftarrow> rd len s;
                  if res \<noteq> JXTA_SUCCESS then Some (JXTA_FAILED, h, s)
                  else let h = h\<lparr>hvalues := (hvalues h)[i := Some (v @ [0])],
                                 src_addr := (if i = SRC_EA_HEADER then Some (cstr v) else src_addr h)\<rparr> in
                    if i + 1 > header_count
                    then (if None \<in> set (take header_count (hvalues h)) then None else Some (JXTA_FAILED, h, s))
                    else header_loop fuel A rd header_count h s } }) } }"

text \<open>The message size is in the first eight bytes of the content length.\<close>

definition message_packet_header_read ::
  "nat \<Rightarrow> allocator \<Rightarrow> 's stream_read \<Rightarrow> bool \<Rightarrow> 's \<Rightarrow> (status \<times> nat \<times> ctext option \<times> 's) option" where
  "message_packet_header_read fuel A rd is_multicast s =
     (let header_count = (if is_multicast then MESSAGE_PACKET_HEADER_COUNT else MESSAGE_PACKET_HEADER_COUNT - 1) in
      do { (res, h, s) \<leftarrow> header_loop fuel A rd header_count no_headers s;
           if res \<noteq> JXTA_SUCCESS then Some (res, 0, src_addr h, s)
           else do { v \<leftarrow> hvalues h ! CONTENT_LENGTH_HEADER;
                     bytes \<leftarrow> mem_load v 0 8;
                     Some (JXTA_SUCCESS, be_decode bytes, src_addr h, s) } })"

definition header_chunks :: "nat \<Rightarrow> ctext \<Rightarrow> u8 list list" where
  "header_chunks i v =
     [[word_of_nat (length (MESSAGE_PACKET_HEADER ! i))], MESSAGE_PACKET_HEADER ! i, be_encode 2 (length v), v]"

text \<open>The statuses of the writes are ignored.\<close>

fun write_ignored :: "'s stream_write \<Rightarrow> u8 list list \<Rightarrow> 's \<Rightarrow> 's option" where
  "write_ignored wr [] s = Some s"
| "write_ignored wr (b # bs) s = do { (_, s1) \<leftarrow> wr b s; write_ignored wr bs s1 }"

definition message_packet_header_write ::
  "allocator \<Rightarrow> 's stream_write \<Rightarrow> nat \<Rightarrow> bool \<Rightarrow> ctext option \<Rightarrow> 's \<Rightarrow> (status \<times> 's) option" where
  "message_packet_header_write A wr msg_size is_multicast src s =
     do { s <- write_ignored wr (header_chunks CONTENT_TYPE_HEADER APP_MSG) s;
          if \<not> can_alloc A 8 then Some (JXTA_NOMEM, s)
          else do {
            s <- write_ignored wr (header_chunks CONTENT_LENGTH_HEADER (be_encode 8 msg_size)) s;
            s <- (if is_multicast then do { a \<leftarrow> src; write_ignored wr (header_chunks SRC_EA_HEADER a) s } else Some s);
            s <- write_ignored wr [[0]] s;
            Some (JXTA_SUCCESS, s) } }"

subsection \<open>The transport\<close>

record tcp_multicast =
  multicast_ipaddr :: ctext
  multicast_port :: nat
  mc_run :: bool
  mc_allow :: bool
  local_ipaddr :: ctext
  local_port :: nat
  input_stream :: STREAM
  output_stream :: STREAM

text \<open>\<open>apr_snprintf\<close> of a text and a number into a block of \<open>n\<close> bytes: what fits, and a zero.\<close>

definition snprintf_text :: "nat \<Rightarrow> ctext \<Rightarrow> ctext" where
  "snprintf_text n s = take (n - 1) s"

text \<open>\<open>outs\<close> are the answers of \<open>sendto\<close>: its status and how much it has sent.\<close>

fun tcp_multicast_write :: "(bool \<times> nat) list \<Rightarrow> bool \<Rightarrow> u8 list \<Rightarrow> (status \<times> u8 list list) option" where
  "tcp_multicast_write outs ok [] = Some (if ok then JXTA_SUCCESS else JXTA_FAILED, [])"
| "tcp_multicast_write [] ok (b # bs) = None"
| "tcp_multicast_write ((st, written) # outs) ok (b # bs) =
     (if written > 0
      then map_option (map_prod id (Cons (take written (b # bs)))) (tcp_multicast_write outs st (drop written (b # bs)))
      else Some (if st then JXTA_SUCCESS else JXTA_FAILED, []))"

text \<open>The addresses that the sender prints: of the group, as the destination, and its own.\<close>

definition multicast_dest :: "tcp_multicast \<Rightarrow> ctext" where
  "multicast_dest self =
     snprintf_text (length (multicast_ipaddr self) + 20)
       (multicast_ipaddr self @ str '':'' @ print10 (int (multicast_port self)))"

definition multicast_src :: "tcp_multicast \<Rightarrow> ctext" where
  "multicast_src self = snprintf_text 128 (str ''tcp://'' @ local_ipaddr self @ str '':'' @ print10 (int (local_port self)))"

text \<open>A message is propagated: the status, the message, the transport and the datagrams.\<close>

definition tcp_multicast_propagate ::
  "((ctext \<rightharpoonup> ctext) \<Rightarrow> (ctext \<times> ctext) list) \<Rightarrow> allocator \<Rightarrow> (bool \<times> nat) list \<Rightarrow> tcp_multicast \<Rightarrow> jxta_message
     \<Rightarrow> ctext option \<Rightarrow> ctext option \<Rightarrow> (status \<times> jxta_message \<times> tcp_multicast \<times> u8 list list) option" where
  "tcp_multicast_propagate iter A outs self msg name params =
     (if \<not> mc_allow self \<or> \<not> mc_run self then Some (JXTA_FAILED, msg, self, [])
      else
        let stream = stream_init (output_stream self);
            len = length (multicast_ipaddr self) + 20;
            fail = (\<lambda>st m s. Some (st, m, self\<lparr>output_stream := s\<rparr>, [])) in
        if \<not> can_alloc A len then fail JXTA_NOMEM msg stream
        else do {
          m_addr \<leftarrow> jxta_endpoint_address_new_2 (Some (str ''tcp'')) (Some (multicast_dest self)) name params;
          (_, msg) \<leftarrow> jxta_message_set_destination A msg m_addr;
          (_, stream) \<leftarrow> tcp_multicast_write_stream (str ''JXTA'') stream;
          (_, msg, msg_size) \<leftarrow> jxta_message_write iter msg_wireformat_size msg (Some APP_MSG) 0;
          if \<not> can_alloc A 128 then fail JXTA_NOMEM msg stream
          else do {
            let src = multicast_src self;
            (res, packet_header_size) \<leftarrow> message_packet_header_write A msg_wireformat_size msg_size True (Some src) 0;
            if res \<noteq> JXTA_SUCCESS then fail JXTA_NOMEM msg stream
            else do {
              (res, stream) \<leftarrow> message_packet_header_write A write_to_tcp_multicast_stream msg_size True (Some src) stream;
              if res \<noteq> JXTA_SUCCESS then fail JXTA_NOMEM msg stream
              else do {
                (res, msg, stream) \<leftarrow> jxta_message_write iter write_to_tcp_multicast_stream msg (Some APP_MSG) stream;
                if res \<noteq> JXTA_SUCCESS then fail JXTA_FAILED msg stream
                else do {
                  packet \<leftarrow> mem_load (data_buf stream) 0 (4 + packet_header_size + msg_size);
                  (res, sent) \<leftarrow> tcp_multicast_write outs True packet;
                  Some (if res \<noteq> JXTA_SUCCESS then JXTA_FAILED else res, msg, self\<lparr>output_stream := stream\<rparr>, sent) } } } } })"

text \<open>
  A datagram is processed; the result is the message that is handed to the endpoint service.
  It is handed over as well when it could not be read.
\<close>

definition tcp_multicast_process ::
  "receiver \<Rightarrow> tcp_multicast \<Rightarrow> STREAM \<Rightarrow> (jxta_message option \<times> STREAM) option" where
  "tcp_multicast_process R self stream =
     (if \<not> mc_allow self \<or> \<not> mc_run self then Some (None, stream)
      else do {
        magic \<leftarrow> mem_load (data_buf stream) 0 4;
        if magic \<noteq> str ''JXTA'' then Some (None, stream)
        else do {
          let stream = stream\<lparr>d_index := d_index stream + 4, d_len := d_len stream - 4\<rparr>;
          (res, msg_size, _, stream) \<leftarrow>
            message_packet_header_read (d_len stream + 1) (rcv_alloc R) read_from_tcp_multicast_stream True stream;
          if res \<noteq> JXTA_SUCCESS \<or> msg_size \<ge> 2 ^ 63 \<or> msg_size = 0 then Some (None, stream)
          else do {
            (_, msg, stream) \<leftarrow>
              jxta_message_read R read_from_tcp_multicast_stream \<lparr>melements = [], mqos = None\<rparr> (Some APP_MSG) stream;
            Some (Some msg, stream) } } })"

text \<open>One round of the receiving thread: \<open>bytes\<close> is the datagram that \<open>recvfrom\<close> stores, or \<open>None\<close>
  when it fails.\<close>

definition tcp_multicast_body_round ::
  "receiver \<Rightarrow> u8 list option \<Rightarrow> tcp_multicast \<Rightarrow> (jxta_message option \<times> tcp_multicast) option" where
  "tcp_multicast_body_round R bytes self =
     (let stream = stream_init (input_stream self) in
      do { stream \<leftarrow> (case bytes of
             None \<Rightarrow> Some (stream\<lparr>d_len := d_size stream\<rparr>)
           | Some bs \<Rightarrow>
               do { b \<leftarrow> mem_store (data_buf stream) 0 (take (d_size stream) bs);
                    Some (stream\<lparr>data_buf := b, d_len := min (d_size stream) (length bs)\<rparr>) });
           (delivered, stream) \<leftarrow> tcp_multicast_process R self stream;
           Some (delivered, self\<lparr>input_stream := stream\<rparr>) })"

subsection \<open>Headers written and read\<close>

lemma header_names:
  "length (MESSAGE_PACKET_HEADER ! 0) = 12" "length (MESSAGE_PACKET_HEADER ! Suc 0) = 14" "length (MESSAGE_PACKET_HEADER ! 2) = 5"
  by (simp_all add: MESSAGE_PACKET_HEADER_def numeral_2_eq_2)

lemma header_number: "i < 3 \<Longrightarrow> packet_header_nb (MESSAGE_PACKET_HEADER ! i) (length (MESSAGE_PACKET_HEADER ! i)) = Some i"
proof -
  have "packet_header_nb (MESSAGE_PACKET_HEADER ! 0) 12 = Some 0" "packet_header_nb (MESSAGE_PACKET_HEADER ! 1) 14 = Some 1"
    "packet_header_nb (MESSAGE_PACKET_HEADER ! 2) 5 = Some 2"
    by code_simp+
  moreover assume "i < 3"
  then have "i = 0 \<or> i = 1 \<or> i = 2"
    by auto
  ultimately show ?thesis
    by (auto simp: header_names)
qed

context byte_source
begin

lemma header_step:
  assumes "ok s" "rest s = concat (header_chunks i v) @ t" "i < 3" "i + 1 \<le> hc" "\<not> saw h ! i" "length v < 65536" "big_alloc A"
  shows "\<exists>s'. ok s' \<and> rest s' = t \<and> header_loop (Suc fuel) A rd hc h s =
    header_loop fuel A rd hc (h\<lparr>saw := (saw h)[i := True], hvalues := (hvalues h)[i := Some (v @ [0])],
      src_addr := (if i = SRC_EA_HEADER then Some (cstr v) else src_addr h)\<rparr>) s'"
proof -
  let ?n = "MESSAGE_PACKET_HEADER ! i"
  have n: "unat (word_of_nat (length ?n) :: u8) = length ?n" "(word_of_nat (length ?n) :: u8) \<noteq> 0"
  proof -
    have "i = 0 \<or> i = 1 \<or> i = 2"
      using assms(3) by auto
    then show "unat (word_of_nat (length ?n) :: u8) = length ?n" "(word_of_nat (length ?n) :: u8) \<noteq> 0"
      using header_names by auto
  qed
  have r: "rest s = [word_of_nat (length ?n)] @ ?n @ be_encode 2 (length v) @ v @ t"
    using assms(2) by (simp add: header_chunks_def)
  obtain s1 where s1: "rd 1 s = Some (JXTA_SUCCESS, [word_of_nat (length ?n)], s1)" "ok s1"
      "rest s1 = ?n @ be_encode 2 (length v) @ v @ t"
    using read_prefix [OF assms(1) r, of 1] by auto
  obtain s2 where s2: "rd (length ?n) s1 = Some (JXTA_SUCCESS, ?n, s2)" "ok s2" "rest s2 = be_encode 2 (length v) @ v @ t"
    using read_prefix [OF s1(2,3)] by auto
  obtain s3 where s3: "rd 2 s2 = Some (JXTA_SUCCESS, be_encode 2 (length v), s3)" "ok s3" "rest s3 = v @ t"
    using read_prefix [OF s2(2,3), of 2] by auto
  obtain s4 where s4: "rd (length v) s3 = Some (JXTA_SUCCESS, v, s4)" "ok s4" "rest s4 = t"
    using read_prefix [OF s3(2,3)] by auto
  have "can_alloc A (length v + 1)"
    using assms(6,7) by (simp add: big_alloc_def)
  then have "header_loop (Suc fuel) A rd hc h s =
    header_loop fuel A rd hc (h\<lparr>saw := (saw h)[i := True], hvalues := (hvalues h)[i := Some (v @ [0])],
      src_addr := (if i = SRC_EA_HEADER then Some (cstr v) else src_addr h)\<rparr>) s4"
    using s1(1) s2(1) s3(1) s4(1) n header_number [OF assms(3)] assms(4-6) by (simp add: Let_def del: be_encode.simps)
  then show ?thesis
    using s4 by blast
qed

end

text \<open>The bytes in front of a multicast message.\<close>

definition header_text :: "nat \<Rightarrow> ctext \<Rightarrow> u8 list" where
  "header_text n src = concat (header_chunks 0 APP_MSG @ header_chunks 1 (be_encode 8 n) @ header_chunks 2 src @ [[0]])"

lemma APP_MSG: "length APP_MSG = 22"
  by (simp add: APP_MSG_def del: str_simps)

context byte_source
begin

lemma packet_header_ok:
  assumes "ok s" "rest s = header_text n src @ t" "length src < 65536" "n < 2 ^ 64" "big_alloc A" "3 < fuel"
  shows "\<exists>s'. message_packet_header_read fuel A rd True s = Some (JXTA_SUCCESS, n, Some (cstr src), s') \<and> ok s' \<and> rest s' = t"
proof -
  obtain f where f: "fuel = Suc (Suc (Suc (Suc f)))"
    using assms(6) by (intro that [of "fuel - 4"]) simp
  let ?h1 = "no_headers\<lparr>saw := [True, False, False], hvalues := [Some (APP_MSG @ [0]), None, None]\<rparr>"
  let ?h2 = "?h1\<lparr>saw := [True, True, False], hvalues := [Some (APP_MSG @ [0]), Some (be_encode 8 n @ [0]), None]\<rparr>"
  let ?h3 = "?h2\<lparr>saw := [True, True, True],
    hvalues := [Some (APP_MSG @ [0]), Some (be_encode 8 n @ [0]), Some (src @ [0])], src_addr := Some (cstr src)\<rparr>"
  have r: "rest s = concat (header_chunks 0 APP_MSG) @ concat (header_chunks 1 (be_encode 8 n)) @ concat (header_chunks 2 src) @ [0] @ t"
    using assms(2) by (simp add: header_text_def)
  have h: "no_headers\<lparr>saw := (saw no_headers)[0 := True], hvalues := (hvalues no_headers)[0 := Some (APP_MSG @ [0])],
      src_addr := (if 0 = SRC_EA_HEADER then Some (cstr APP_MSG) else src_addr no_headers)\<rparr> = ?h1"
    "?h1\<lparr>saw := (saw ?h1)[1 := True], hvalues := (hvalues ?h1)[1 := Some (be_encode 8 n @ [0])],
      src_addr := (if 1 = SRC_EA_HEADER then Some (cstr (be_encode 8 n)) else src_addr ?h1)\<rparr> = ?h2"
    "?h2\<lparr>saw := (saw ?h2)[2 := True], hvalues := (hvalues ?h2)[2 := Some (src @ [0])],
      src_addr := (if 2 = SRC_EA_HEADER then Some (cstr src) else src_addr ?h2)\<rparr> = ?h3"
    by (simp_all add: no_headers_def header_consts numeral_2_eq_2 del: be_encode.simps)
  obtain s1 where s1: "ok s1" "rest s1 = concat (header_chunks 1 (be_encode 8 n)) @ concat (header_chunks 2 src) @ [0] @ t"
      "header_loop fuel A rd 3 no_headers s = header_loop (Suc (Suc (Suc f))) A rd 3 ?h1 s1"
    using header_step [OF assms(1) r, of 3 no_headers A "Suc (Suc (Suc f))"] assms(5) APP_MSG unfolding f h(1)
    by (auto simp: no_headers_def simp del: header_loop.simps)
  obtain s2 where s2: "ok s2" "rest s2 = concat (header_chunks 2 src) @ [0] @ t"
      "header_loop (Suc (Suc (Suc f))) A rd 3 ?h1 s1 = header_loop (Suc (Suc f)) A rd 3 ?h2 s2"
    using header_step [OF s1(1,2), of 3 ?h1 A "Suc (Suc f)"] assms(5) unfolding h(2)
    by (auto simp del: header_loop.simps be_encode.simps)
  obtain s3 where s3: "ok s3" "rest s3 = [0] @ t" "header_loop (Suc (Suc f)) A rd 3 ?h2 s2 = header_loop (Suc f) A rd 3 ?h3 s3"
    using header_step [OF s2(1,2), of 3 ?h2 A "Suc f"] assms(3,5) unfolding h(3)
    by (auto simp: numeral_2_eq_2 simp del: header_loop.simps be_encode.simps)
  obtain s4 where s4: "rd 1 s3 = Some (JXTA_SUCCESS, [0], s4)" "ok s4" "rest s4 = t"
    using read_prefix [OF s3(1,2), of 1] by auto
  have "header_loop fuel A rd 3 no_headers s = Some (JXTA_SUCCESS, ?h3, s4)"
    using s1(3) s2(3) s3(3) s4(1) by (simp add: header_consts numeral_2_eq_2 del: be_encode.simps)
  then show ?thesis
    using s4 assms(4)
    by (simp add: message_packet_header_read_def header_consts mem_load_def del: be_encode.simps)
qed

end

lemma write_ignored_append: "write_ignored wr (as @ bs) s = do { s1 \<leftarrow> write_ignored wr as s; write_ignored wr bs s1 }"
proof (induction as arbitrary: s)
  case (Cons a as)
  then show ?case
    by (cases "wr a s") auto
qed simp

lemma packet_header_write_eq:
  assumes "can_alloc A 8"
  shows "message_packet_header_write A wr n True (Some src) s =
    map_option (Pair JXTA_SUCCESS) (write_ignored wr (header_chunks 0 APP_MSG @ header_chunks 1 (be_encode 8 n) @ header_chunks 2 src @ [[0]]) s)"
  using assms unfolding write_ignored_append message_packet_header_write_def header_consts map_conv_bind_option
  by (simp add: Option.bind_assoc comp_def del: write_ignored.simps)

lemma write_ignored_success: "write_all wr bs s = Some (JXTA_SUCCESS, s') \<Longrightarrow> write_ignored wr bs s = Some s'"
proof (induction bs arbitrary: s)
  case (Cons b bs)
  then show ?case
    by (cases "wr b s") (auto split: if_splits)
qed simp

context byte_sink
begin

lemma packet_header_written:
  assumes "ok s" "length (header_text n src) \<le> room s" "can_alloc A 8"
  shows "\<exists>s'. message_packet_header_write A wr n True (Some src) s = Some (JXTA_SUCCESS, s') \<and> ok s' \<and>
    written s' = written s @ header_text n src \<and> room s - length (header_text n src) \<le> room s'"
proof -
  let ?bs = "header_chunks 0 APP_MSG @ header_chunks 1 (be_encode 8 n) @ header_chunks 2 src @ [[0]]"
  obtain s' where "write_all wr ?bs s = Some (JXTA_SUCCESS, s')" "ok s'" "written s' = written s @ concat ?bs"
      "room s - length (concat ?bs) \<le> room s'"
    using write_all_ok [OF assms(1), of ?bs] assms(2) unfolding header_text_def by blast
  then show ?thesis
    using write_ignored_success packet_header_write_eq [OF assms(3), of wr n src s] unfolding header_text_def by fastforce
qed

end

lemma packet_header_size:
  assumes "can_alloc A 8"
  shows "message_packet_header_write A msg_wireformat_size n True (Some src) m = Some (JXTA_SUCCESS, m + length (header_text n src))"
  unfolding packet_header_write_eq [OF assms] write_ignored_success [OF write_all_size] header_text_def by simp

subsection \<open>From one transport to another\<close>

lemma filter_grouped:
  "distinct names \<Longrightarrow> n0 \<in> set names \<Longrightarrow> (\<And>e. P e \<Longrightarrow> f e = n0) \<Longrightarrow>
   filter P (concat (map (\<lambda>n. filter (\<lambda>e. f e = n) es) names)) = filter P es"
proof (induction names)
  case (Cons n names)
  have none: "filter P (concat (map (\<lambda>n. filter (\<lambda>e. f e = n) es) ns)) = []" if "n0 \<notin> set ns" for ns
    using that Cons.prems(3) by (induction ns) (auto simp: filter_empty_conv)
  have "filter P (filter (\<lambda>e. f e = n) es) = (if n = n0 then filter P es else [])"
    using Cons.prems(3) by (auto simp: filter_empty_conv intro!: filter_cong)
  then show ?case
    using Cons none by auto
qed simp

lemma find_filter: "find P xs = (case filter P xs of [] \<Rightarrow> None | x # _ \<Rightarrow> Some x)"
  by (induction xs) auto

lemma find_map_drop: "(\<And>e. P (drop_sig e) = P e) \<Longrightarrow> find P (map drop_sig xs) = map_option drop_sig (find P xs)"
  by (induction xs) auto

lemma get_element_grouped:
  assumes "jxta_message_get_element_2 m ns name = (JXTA_SUCCESS, Some e)" "ns \<in> set (v1_names_table m)"
  shows "jxta_message_get_element_2 (q\<lparr>melements := map drop_sig (by_namespace m)\<rparr>) ns name = (JXTA_SUCCESS, Some (drop_sig e))"
proof -
  let ?P = "\<lambda>e. el_ns e = ns \<and> el_name e = name"
  obtain t where "distinct (v1_names_table m)"
    by (rule v1_table)
  then have "filter ?P (by_namespace m) = filter ?P (melements m)"
    unfolding by_namespace_def using assms(2) by (intro filter_grouped) auto
  then have f: "find ?P (rev (by_namespace m)) = find ?P (rev (melements m))"
    unfolding find_filter by (simp add: rev_filter [symmetric])
  have "find ?P (map drop_sig (rev (by_namespace m))) = map_option drop_sig (find ?P (rev (melements m)))"
    unfolding f [symmetric] by (rule find_map_drop) (simp add: drop_sig_def)
  then show ?thesis
    using assms(1) by (simp add: jxta_message_get_element_2_def rev_map split: option.splits)
qed

lemma write_v1_plain:
  assumes "mqos m = None"
  shows "jxta_message_write iter wr m (Some APP_MSG) s = map_option (\<lambda>(r, s). (r, m, s)) (write_all wr (v1_chunks m) s)"
proof -
  have "APP_MSG = MESSAGE_JXTABINARYWIRE_MIME"
    by (simp add: APP_MSG_def MESSAGE_JXTABINARYWIRE_MIME_def)
  then show ?thesis
    using assms by (simp add: jxta_message_write_def add_qos_element_def message_write_v1_def map_conv_bind_option comp_def case_prod_beta')
qed

lemma init_stream:
  assumes "0 < d_size s"
  shows "out_stream_ok (stream_init s)" "stream_written (stream_init s) = []" "stream_room (stream_init s) = d_size s - 1"
  using assms by (simp_all add: stream_init_def out_stream_ok_def stream_written_def stream_room_def)

text \<open>The packet of a message, and what the three writes leave in the buffer.\<close>

definition packet_of :: "ctext \<Rightarrow> jxta_message \<Rightarrow> u8 list" where
  "packet_of src m = str ''JXTA'' @ header_text (length (concat (v1_chunks m))) src @ concat (v1_chunks m)"

lemma packet_written:
  assumes "big_alloc A" "mqos m = None" "length (packet_of src m) < d_size s"
  shows "\<exists>s1 s2 s3. tcp_multicast_write_stream (str ''JXTA'') (stream_init s) = Some (JXTA_SUCCESS, s1) \<and>
    message_packet_header_write A write_to_tcp_multicast_stream (length (concat (v1_chunks m))) True (Some src) s1 = Some (JXTA_SUCCESS, s2) \<and>
    jxta_message_write iter write_to_tcp_multicast_stream m (Some APP_MSG) s2 = Some (JXTA_SUCCESS, m, s3) \<and>
    mem_load (data_buf s3) 0 (length (packet_of src m)) = Some (packet_of src m)"
proof -
  let ?n = "length (concat (v1_chunks m))"
  have sz: "4 + length (header_text ?n src) + ?n = length (packet_of src m)"
    by (simp add: packet_of_def del: str_simps)
  have pos: "0 < d_size s"
    using assms(3) by simp
  obtain J where J: "str ''JXTA'' = J" "length J = 4"
    by simp
  have room: "4 \<le> d_size s - 1"
    using assms(3) sz by linarith
  obtain s1 where s1: "write_to_tcp_multicast_stream (J) (stream_init s) = Some (JXTA_SUCCESS, s1)" "out_stream_ok s1"
      "stream_written s1 = J" "d_size s - 1 - 4 \<le> stream_room s1"
    using mcast_out.write_law [OF init_stream(1) [OF pos], of "J"] init_stream [OF pos] room J(2) unfolding J(1) by auto
  have r1: "length (header_text ?n src) \<le> stream_room s1" "can_alloc A 8"
    using s1(4) assms(1,3) sz by (auto simp: big_alloc_def simp del: One_nat_def)
  obtain s2 where s2: "message_packet_header_write A write_to_tcp_multicast_stream ?n True (Some src) s1 = Some (JXTA_SUCCESS, s2)"
      "out_stream_ok s2" "stream_written s2 = J @ header_text ?n src"
      "stream_room s1 - length (header_text ?n src) \<le> stream_room s2"
    using mcast_out.packet_header_written [OF s1(2) r1] s1(3) by auto
  have r2: "length (concat (v1_chunks m)) \<le> stream_room s2"
    using s1(4) s2(4) assms(3) sz by linarith
  obtain s3 where s3: "write_all write_to_tcp_multicast_stream (v1_chunks m) s2 = Some (JXTA_SUCCESS, s3)" "out_stream_ok s3"
      "stream_written s3 = packet_of src m"
    using mcast_out.write_all_ok [OF s2(2) r2] s2(3) by (auto simp: packet_of_def [unfolded J(1)])
  have "d_index s3 = length (packet_of src m)"
    using arg_cong [OF s3(3), of length] s3(2) by (simp add: stream_written_def out_stream_ok_def)
  then have "mem_load (data_buf s3) 0 (length (packet_of src m)) = Some (packet_of src m)"
    using s3(2,3) by (auto simp: mem_load_def stream_written_def out_stream_ok_def)
  then show ?thesis
    using s1(1) s2(1) s3(1) unfolding J(1) write_to_tcp_multicast_stream_def by (auto simp: write_v1_plain [OF assms(2)])
qed

lemma packet_received:
  assumes "big_alloc (rcv_alloc R)" "v1_fits m" "length src < 65536" "length (concat (v1_chunks m)) < 2 ^ 63"
    and st: "mc_allow self" "mc_run self" "length (packet_of src m) \<le> d_size (input_stream self)"
  shows "\<exists>self'. tcp_multicast_body_round R (Some (packet_of src m)) self =
    Some (Some \<lparr>melements = map drop_sig (by_namespace m), mqos = None\<rparr>, self')"
proof -
  let ?n = "length (concat (v1_chunks m))" and ?p = "packet_of src m" and ?sz = "d_size (input_stream self)"
  define pad :: "u8 list" where "pad = replicate (?sz - length ?p) 0"
  let ?s = "(stream_init (input_stream self))\<lparr>data_buf := ?p @ pad, d_len := length ?p\<rparr>"
  let ?s4 = "?s\<lparr>d_index := 4, d_len := length ?p - 4\<rparr>"
  have p: "?p = str ''JXTA'' @ drop 4 ?p" "drop 4 ?p = header_text ?n src @ concat (v1_chunks m)"
    by (simp_all add: packet_of_def)
  have ok: "in_stream_ok ?s4" "stream_unread ?s4 = header_text ?n src @ concat (v1_chunks m)"
    using st(3) p by (auto simp: pad_def in_stream_ok_def stream_unread_def stream_init_def packet_of_def)
  have hd: "take 4 (?p @ xs) = str ''JXTA''" for xs
    by (simp add: packet_of_def)
  obtain s5 where s5: "message_packet_header_read (length ?p - 4 + 1) (rcv_alloc R) read_from_tcp_multicast_stream True ?s4 =
      Some (JXTA_SUCCESS, ?n, Some (cstr src), s5)" "in_stream_ok s5" "stream_unread s5 = concat (v1_chunks m)"
    using mcast_in.packet_header_ok [OF ok assms(3) _ assms(1), of "length ?p - 4 + 1"] assms(4)
    by (auto simp: packet_of_def header_text_def header_chunks_def)
  define n where "n = ?n"
  have n: "n \<noteq> 0" "n < 2 ^ 63"
    using assms(4) by (simp_all add: n_def v1_chunks_def Let_def JXTAMSG_MSGMAGICSIG_def)
  obtain r where "jxta_message_read R read_from_tcp_multicast_stream \<lparr>melements = [], mqos = None\<rparr> (Some APP_MSG) s5 =
      Some (JXTA_SUCCESS, \<lparr>melements = map drop_sig (by_namespace m), mqos = None\<rparr>, r)"
    using read_v1_ok [OF assms(2,1) s5(2,3), of "\<lparr>melements = [], mqos = None\<rparr>"]
    by (auto simp: jxta_message_read_def APP_MSG_def MESSAGE_JXTABINARYWIRE_MIME_def)
  moreover have "mem_load (?p @ pad) 0 4 = Some (str ''JXTA'')"
    using hd by (simp add: mem_load_def packet_of_def)
  moreover have "mem_store (replicate ?sz 0) 0 ?p = Some (?p @ pad)"
    using st(3) by (simp add: pad_def mem_simps)
  ultimately show ?thesis
    using st s5(1) [folded n_def] n
    by (simp add: tcp_multicast_body_round_def tcp_multicast_process_def stream_init_def min_def Let_def del: str_simps)
qed

lemma grouped_destination:
  assumes "big_alloc A" "ea_printable dest" "uri_law parse dest" "length (ea_text dest) < 2 ^ 60"
    and m: "m = msg\<lparr>melements := es @ [Element MESSAGE_DESTINATION_NS MESSAGE_DESTINATION_NAME mime (ea_text dest) None]\<rparr>"
  shows "jxta_message_get_destination A parse \<lparr>melements = map drop_sig (by_namespace m), mqos = None\<rparr> = Some (Some dest)"
proof -
  have "MESSAGE_DESTINATION_NS \<in> set (v1_names_table m)"
    by (rule v1_table [of m]) (simp add: m)
  moreover have "jxta_message_get_element_2 m MESSAGE_DESTINATION_NS MESSAGE_DESTINATION_NAME =
      (JXTA_SUCCESS, Some (Element MESSAGE_DESTINATION_NS MESSAGE_DESTINATION_NAME mime (ea_text dest) None))"
    unfolding m by (rule get_element_last)
  ultimately have "jxta_message_get_element_2 (\<lparr>melements = [], mqos = None\<rparr>\<lparr>melements := map drop_sig (by_namespace m)\<rparr>)
      MESSAGE_DESTINATION_NS MESSAGE_DESTINATION_NAME =
      (JXTA_SUCCESS, Some (drop_sig (Element MESSAGE_DESTINATION_NS MESSAGE_DESTINATION_NAME mime (ea_text dest) None)))"
    by (intro get_element_grouped)
  then show ?thesis
    using element_address_ok [OF assms(1-4)] by (simp add: jxta_message_get_destination_def drop_sig_def)
qed

lemma sent_whole: "bs \<noteq> [] \<Longrightarrow> tcp_multicast_write [(True, length bs)] True bs = Some (JXTA_SUCCESS, [bs])"
  by (cases bs) auto

text \<open>
  C15: A message without QoS settings that fits into a packet is propagated by one multicast
  transport as one datagram, and every transport that receives the datagram hands over a message
  with the same elements, grouped by namespace and without signatures, and with the destination
  that the sender has set.  No buffer is left on the way.
\<close>

theorem multicast_delivers:
  assumes A: "big_alloc A" "big_alloc (rcv_alloc R)"
    and dest: "dest = \<lparr>protocol_name = str ''tcp'', protocol_address = multicast_dest self, service_name = name, service_params = params\<rparr>"
      "ea_printable dest" "uri_law parse dest" "length (ea_text dest) < 2 ^ 60"
    and m: "mqos msg = None" "jxta_message_set_destination A msg dest = Some (JXTA_SUCCESS, m)" "v1_fits m"
    and fit: "length (packet_of (multicast_src self) m) < d_size (output_stream self)" "length (packet_of (multicast_src self) m) \<le> d_size (input_stream peer)"
      "length (packet_of (multicast_src self) m) < 2 ^ 63"
    and on: "mc_allow self" "mc_run self" "mc_allow peer" "mc_run peer"
  shows "\<exists>self' peer' m'. tcp_multicast_propagate iter A [(True, length (packet_of (multicast_src self) m))] self msg name params =
      Some (JXTA_SUCCESS, m, self', [packet_of (multicast_src self) m]) \<and>
    tcp_multicast_body_round R (Some (packet_of (multicast_src self) m)) peer = Some (Some m', peer') \<and>
    melements m' = map drop_sig (by_namespace m) \<and> jxta_message_get_destination A parse m' = Some (Some dest)"
proof -
  let ?src = "multicast_src self"
  let ?n = "length (concat (v1_chunks m))"
  have sz: "4 + length (header_text ?n ?src) + ?n = length (packet_of (multicast_src self) m)"
    by (simp add: packet_of_def del: str_simps)
  have m_eq: "m = msg\<lparr>melements := melements (snd (jxta_message_remove_element_2 msg MESSAGE_DESTINATION_NS MESSAGE_DESTINATION_NAME)) @
      [Element MESSAGE_DESTINATION_NS MESSAGE_DESTINATION_NAME (Some (str ''text/plain'')) (ea_text dest) None]\<rparr>"
    using set_address_ok [OF A(1) dest(2,4), of MESSAGE_DESTINATION_NS MESSAGE_DESTINATION_NAME msg] m(2)
    by (simp add: jxta_message_set_destination_def del: str_simps)
  have q: "mqos m = None"
    using m(1) by (simp add: m_eq)
  obtain s1 s2 s3 where s: "tcp_multicast_write_stream (str ''JXTA'') (stream_init (output_stream self)) = Some (JXTA_SUCCESS, s1)"
    "message_packet_header_write A write_to_tcp_multicast_stream ?n True (Some ?src) s1 = Some (JXTA_SUCCESS, s2)"
    "jxta_message_write iter write_to_tcp_multicast_stream m (Some APP_MSG) s2 = Some (JXTA_SUCCESS, m, s3)"
    "mem_load (data_buf s3) 0 (length (packet_of (multicast_src self) m)) = Some (packet_of (multicast_src self) m)"
    using packet_written [OF A(1) q fit(1)] by blast
  have al: "can_alloc A (length (multicast_ipaddr self) + 20)" "can_alloc A 128" "can_alloc A 8"
    using A(1) dest(4) by (simp_all add: big_alloc_def ea_text_def dest(1) multicast_dest_def snprintf_text_def)
  have w: "jxta_message_write iter msg_wireformat_size m (Some APP_MSG) 0 = Some (JXTA_SUCCESS, m, ?n)"
    by (simp add: write_v1_plain [OF q] write_all_size)
  have addr: "jxta_endpoint_address_new_2 (Some (str ''tcp'')) (Some (multicast_dest self)) name params = Some dest"
    by (simp add: jxta_endpoint_address_new_2_def dest(1) del: str_simps)
  have "packet_of (multicast_src self) m \<noteq> []"
    by (simp add: packet_of_def)
  then have "tcp_multicast_propagate iter A [(True, length (packet_of (multicast_src self) m))] self msg name params =
      Some (JXTA_SUCCESS, m, self\<lparr>output_stream := s3\<rparr>, [packet_of (multicast_src self) m])"
    using on(1,2) al addr m(2) s w packet_header_size [OF al(3), of ?n ?src 0] sent_whole [of "packet_of (multicast_src self) m"] sz
    unfolding tcp_multicast_propagate_def by (simp add: Let_def del: str_simps tcp_multicast_write.simps)
  moreover have "?n < 2 ^ 63" "length ?src < 65536"
    using fit(3) sz by (simp_all add: multicast_src_def snprintf_text_def)
  then obtain peer' where "tcp_multicast_body_round R (Some (packet_of (multicast_src self) m)) peer =
      Some (Some \<lparr>melements = map drop_sig (by_namespace m), mqos = None\<rparr>, peer')"
    using packet_received [OF A(2) m(3) _ _ on(3,4) fit(2)] by blast
  moreover have "jxta_message_get_destination A parse \<lparr>melements = map drop_sig (by_namespace m), mqos = None\<rparr> = Some (Some dest)"
    using grouped_destination [OF A(1) dest(2-4) m_eq] by simp
  ultimately show ?thesis
    by fastforce
qed

definition sample_multicast :: tcp_multicast where
  "sample_multicast = \<lparr>multicast_ipaddr = str ''1.2'', multicast_port = 7, mc_run = True, mc_allow = True,
     local_ipaddr = str ''3.4'', local_port = 8, input_stream = sample_stream, output_stream = sample_stream\<rparr>"

lemma print10_digit: "d < 10 \<Longrightarrow> print10 (int d) = [48 + word_of_nat d]"
proof -
  assume "d < 10"
  then have "digits10 (Suc 19) d = [48 + word_of_nat d]"
    unfolding digits10.simps by simp
  then show ?thesis
    by (simp add: print10_def)
qed

definition sample_dest :: endpoint_address where
  "sample_dest = \<lparr>protocol_name = str ''tcp'', protocol_address = multicast_dest sample_multicast,
     service_name = None, service_params = None\<rparr>"

definition sample_sent :: jxta_message where
  "sample_sent = \<lparr>melements = [Element MESSAGE_DESTINATION_NS MESSAGE_DESTINATION_NAME (Some (str ''text/plain''))
     (str ''tcp://1.2:7'') None], mqos = None\<rparr>"

lemma sample_addresses: "multicast_dest sample_multicast = str ''1.2:7''" "multicast_src sample_multicast = str ''tcp://3.4:8''"
  using print10_digit [of 7] print10_digit [of 8]
  by (simp_all add: multicast_dest_def multicast_src_def sample_multicast_def snprintf_text_def)

lemma sample_dest_law: "ea_text sample_dest = str ''tcp://1.2:7''" "ea_printable sample_dest" "uri_law plain_uri sample_dest"
  by (simp_all add: sample_dest_def sample_addresses ea_text_def ea_rest_def ea_printable_def uri_law_def plain_uri_def uri_host_def Let_def)

lemma sample_sent_fits: "v1_fits sample_sent" "v1_names_table sample_sent = [MESSAGE_EMPTYNS, MESSAGE_JXTANS]"
proof -
  show t: "v1_names_table sample_sent = [MESSAGE_EMPTYNS, MESSAGE_JXTANS]"
    by (simp add: v1_names_table_def sample_sent_def msg_consts MESSAGE_DESTINATION_NS_def)
  show "v1_fits sample_sent"
    unfolding v1_fits_def t by (simp add: sample_sent_def el_fits_def text16_def is_qos_element_def msg_consts
        MESSAGE_DESTINATION_NS_def MESSAGE_DESTINATION_NAME_def MESSAGE_QOS_SETTING_NAME_def)
qed

lemma sample_packet: "length (packet_of (multicast_src sample_multicast) sample_sent) = 156"
  unfolding packet_of_def v1_chunks_def sample_sent_fits(2) sample_addresses
  by (simp add: sample_sent_def msg_magic header_text_def header_chunks_def header_names APP_MSG MESSAGE_DESTINATION_NAME_def
      MESSAGE_DESTINATION_NS_def namespace_elements v1_element_chunks_def msg_consts Let_def del: be_encode.simps)

theorem multicast_delivers_witness:
  "\<exists>self' peer' m'. tcp_multicast_propagate (\<lambda>_. []) all_alloc [(True, 156)] sample_multicast \<lparr>melements = [], mqos = None\<rparr> None None =
      Some (JXTA_SUCCESS, sample_sent, self', [packet_of (multicast_src sample_multicast) sample_sent]) \<and>
    tcp_multicast_body_round sample_receiver (Some (packet_of (multicast_src sample_multicast) sample_sent)) sample_multicast =
      Some (Some m', peer') \<and>
    jxta_message_get_destination all_alloc plain_uri m' = Some (Some sample_dest)"
proof -
  have A: "big_alloc all_alloc" "length (ea_text sample_dest) < 2 ^ 60"
    by (simp_all add: big_alloc_def all_alloc_def sample_dest_law)
  have "jxta_message_set_destination all_alloc \<lparr>melements = [], mqos = None\<rparr> sample_dest = Some (JXTA_SUCCESS, sample_sent)"
    using set_address_ok [OF A(1) sample_dest_law(2) A(2), of MESSAGE_DESTINATION_NS MESSAGE_DESTINATION_NAME "\<lparr>melements = [], mqos = None\<rparr>"]
    by (simp add: jxta_message_set_destination_def sample_sent_def sample_dest_law(1) jxta_message_remove_element_2_def del: str_simps)
  then show ?thesis
    using multicast_delivers [of all_alloc sample_receiver sample_dest sample_multicast None None plain_uri
        "\<lparr>melements = [], mqos = None\<rparr>" sample_sent sample_multicast "\<lambda>_. []"] A sample_dest_law sample_sent_fits(1) sample_env(1)
    unfolding sample_packet by (auto simp: sample_dest_def sample_multicast_def sample_stream_def)
qed

end
