(* ===== verification/Peer.thy ===== *)
theory Peer
  imports EndpointAddress "HOL-Library.List_Lexorder"
begin

section \<open>Peers (src/src/jxta_peer.c)\<close>

text \<open>
  A peer is an endpoint address, an identifier and an advertisement, each optional, and the time
  until which it is considered alive.  The advertisement is given by its text.  The mutex is
  taken and given back by every operation, in \<open>jxta_peer_equals\<close> that of the first peer before
  that of the second.  The last section shows that the identifiers of peers can be told apart by
  their texts, on which the tables and orders of the services rest.
\<close>

record peer =
  peer_address :: "endpoint_address option"
  peer_peerid :: "jxta_id option"
  peer_adv :: "ctext option"
  peer_expires :: int

definition peer_entry_construct :: "bool \<Rightarrow> peer option" where
  "peer_entry_construct mutex_ok =
     (if \<not> mutex_ok then None
      else Some \<lparr>peer_address = None, peer_peerid = None, peer_adv = None, peer_expires = 0\<rparr>)"

definition jxta_peer_new :: "bool \<Rightarrow> peer option" where
  "jxta_peer_new mutex_ok = peer_entry_construct mutex_ok"

text \<open>\<open>ret\<close>: the pointer to the result is not null.\<close>

definition jxta_peer_get_adv :: "'a peer_scheme \<Rightarrow> bool \<Rightarrow> status \<times> ctext option" where
  "jxta_peer_get_adv p ret = (if \<not> ret then (JXTA_INVALID_ARGUMENT, None) else (JXTA_SUCCESS, peer_adv p))"

definition jxta_peer_get_peerid :: "'a peer_scheme \<Rightarrow> bool \<Rightarrow> status \<times> jxta_id option" where
  "jxta_peer_get_peerid p ret = (if \<not> ret then (JXTA_INVALID_ARGUMENT, None) else (JXTA_SUCCESS, peer_peerid p))"

definition jxta_peer_get_address :: "'a peer_scheme \<Rightarrow> bool \<Rightarrow> status \<times> endpoint_address option" where
  "jxta_peer_get_address p ret = (if \<not> ret then (JXTA_INVALID_ARGUMENT, None) else (JXTA_SUCCESS, peer_address p))"

definition jxta_peer_set_adv :: "'a peer_scheme \<Rightarrow> ctext option \<Rightarrow> status \<times> 'a peer_scheme" where
  "jxta_peer_set_adv p v = (if v = None then (JXTA_INVALID_ARGUMENT, p) else (JXTA_SUCCESS, p\<lparr>peer_adv := v\<rparr>))"

definition jxta_peer_set_peerid :: "'a peer_scheme \<Rightarrow> jxta_id option \<Rightarrow> status \<times> 'a peer_scheme" where
  "jxta_peer_set_peerid p v = (if v = None then (JXTA_INVALID_ARGUMENT, p) else (JXTA_SUCCESS, p\<lparr>peer_peerid := v\<rparr>))"

definition jxta_peer_set_address :: "'a peer_scheme \<Rightarrow> endpoint_address option \<Rightarrow> status \<times> 'a peer_scheme" where
  "jxta_peer_set_address p v = (if v = None then (JXTA_INVALID_ARGUMENT, p) else (JXTA_SUCCESS, p\<lparr>peer_address := v\<rparr>))"

definition jxta_peer_get_address_priv :: "'a peer_scheme \<Rightarrow> endpoint_address option" where
  "jxta_peer_get_address_priv p = peer_address p"

definition jxta_peer_get_peerid_priv :: "'a peer_scheme \<Rightarrow> jxta_id option" where
  "jxta_peer_get_peerid_priv p = peer_peerid p"

definition jxta_peer_get_adv_priv :: "'a peer_scheme \<Rightarrow> ctext option" where
  "jxta_peer_get_adv_priv p = peer_adv p"

definition jxta_peer_get_expires :: "'a peer_scheme \<Rightarrow> int" where
  "jxta_peer_get_expires p = peer_expires p"

definition jxta_peer_set_expires :: "'a peer_scheme \<Rightarrow> int \<Rightarrow> 'a peer_scheme" where
  "jxta_peer_set_expires p v = p\<lparr>peer_expires := v\<rparr>"

definition jxta_peer_equals :: "(ctext \<Rightarrow> ctext \<Rightarrow> int) \<Rightarrow> bool \<Rightarrow> 'a peer_scheme \<Rightarrow> 'b peer_scheme \<Rightarrow> bool" where
  "jxta_peer_equals natcmp same a b =
     (case (peer_peerid a, peer_peerid b) of
        (None, None) \<Rightarrow>
          (case (peer_address a, peer_address b) of
             (None, None) \<Rightarrow> True
           | (Some x, Some y) \<Rightarrow> jxta_endpoint_address_equals same natcmp (Some x) (Some y)
           | _ \<Rightarrow> False)
      | (Some i, Some j) \<Rightarrow> jxta_id_equals (Some i) (Some j)
      | _ \<Rightarrow> False)"

subsection \<open>Identifiers and their texts\<close>

text \<open>The text that \<open>jxta_id_to_jstring\<close> gives, and the identifiers that parsers return.\<close>

definition idtext :: "jxta_id \<Rightarrow> ctext" where
  "idtext i = (case snd (jxta_id_to_jstring True (Some i)) of None \<Rightarrow> [] | Some t \<Rightarrow> t)"

definition peer_id :: "jxta_id \<Rightarrow> bool" where
  "peer_id i \<longleftrightarrow> id_ok i \<and> canonical i = i"

lemma idtext_cstr:
  assumes "id_ok i"
  shows "jxta_id_to_cstr True i = (JXTA_SUCCESS, Some (idtext i @ [0]))" "0 \<notin> set (idtext i)"
proof -
  obtain f u where u: "fmt_getUniqueportion (format_of (formatter i)) i = (JXTA_SUCCESS, fmt (format_of f) @ 45 # u)" "0 \<notin> set u"
    using unique_portion [OF assms] by blast
  then show "jxta_id_to_cstr True i = (JXTA_SUCCESS, Some (idtext i @ [0]))"
    by (simp add: jxta_id_to_cstr_def idtext_def jxta_id_to_jstring_def)
  have "0 \<notin> set (fmt (format_of f))"
    by (cases f) (simp_all add: id_formats)
  then show "0 \<notin> set (idtext i)"
    using u by (simp add: idtext_def jxta_id_to_jstring_def jxta_id_PREFIX_def)
qed

lemma idtext_inj:
  assumes "peer_id i" "peer_id j" "idtext i = idtext j"
  shows "i = j"
proof -
  let ?E = "\<lparr>id_alloc = True, id_uuid = []\<rparr>"
  obtain s t where "jxta_id_to_cstr True i = (JXTA_SUCCESS, Some s)" "jxta_id_from_cstr ?E s = Some (JXTA_SUCCESS, Some (canonical i))"
      "jxta_id_to_cstr True j = (JXTA_SUCCESS, Some t)" "jxta_id_from_cstr ?E t = Some (JXTA_SUCCESS, Some (canonical j))"
    using to_cstr_from_cstr [of i ?E] to_cstr_from_cstr [of j ?E] assms(1,2) by (auto simp: peer_id_def)
  then show ?thesis
    using assms idtext_cstr(1) [of i] idtext_cstr(1) [of j] by (simp add: peer_id_def)
qed

text \<open>An identifier that a parser returns equals another exactly if they are the same.\<close>

lemma peer_id_equals:
  assumes "peer_id i" "peer_id j"
  shows "jxta_id_equals (Some i) (Some j) \<longleftrightarrow> i = j"
proof
  assume eq: "jxta_id_equals (Some i) (Some j)"
  show "i = j"
  proof (cases "i = j")
    case False
    then have f: "formatter i = Jxta_format" "formatter j = Jxta_format" "uniquevalue i = uniquevalue j"
      using eq by (auto simp: id_equals_iff)
    then have "fmt_getUniqueportion (format_of (formatter i)) i = fmt_getUniqueportion (format_of (formatter j)) j"
      by (simp add: id_formats jxta_getUniqueportion_def)
    then have "idtext i = idtext j"
      by (simp add: idtext_def jxta_id_to_jstring_def)
    then show ?thesis
      using idtext_inj assms by blast
  qed
qed (simp add: jxta_id_equals_def)

text \<open>\<open>strcmp\<close> on the blocks of two texts orders them as lists of bytes.\<close>

lemma strcmp_texts:
  "0 \<notin> set a \<Longrightarrow> 0 \<notin> set b \<Longrightarrow> \<exists>r. strcmp (a @ [0]) (b @ [0]) = Some r \<and> (r > 0 \<longleftrightarrow> b < a)"
proof (induction a arbitrary: b)
  case Nil
  then show ?case
    by (cases b) (auto simp: word_less_def)
next
  case (Cons x a)
  show ?case
  proof (cases b)
    case Nil
    have "0 < uint x"
      using Cons.prems(1) by (simp add: uint_0_iff order_less_le)
    then show ?thesis
      using Nil Cons.prems(1) by simp
  next
    case (Cons y b')
    then show ?thesis
      using Cons.IH [of b'] Cons.prems by (auto simp: word_less_def)
  qed
qed

end
