(* ===== verification/PeerView.thy ===== *)
theory PeerView
  imports Message Peer
begin

section \<open>The peerview of a rendezvous (src/src/jxta_peerview.c)\<close>

text \<open>
  A rendezvous keeps the other rendezvous it knows in a hash table, by identifier, and in a
  vector that is ordered by the texts of the identifiers; its neighbours in this ring are its
  down and up peers.  Entries are objects that the table, the vector and the neighbours share:
  a heap maps their addresses to them.  The table is a map, as the theory of hash tables shows;
  the vector is a list.  Every operation takes the nested mutex of the peerview.

  What the code asks of its surroundings is in the environment of an operation: the time, the
  own rendezvous advertisement, its printing and parsing, the answers of the endpoint service
  and of the wire pipe to what is sent, random numbers, and whether the peer is a rendezvous.
  What an operation does to its surroundings is appended to a log.  A seed is a peer of which
  only the address is used; a rendezvous advertisement may come without the identifier of its
  peer.  The periodic thread is given by the parts of a round, which a step relation interleaves
  with the operations.  An operation that follows a null pointer has the result \<open>None\<close>.
\<close>

subsection \<open>State\<close>

record rdv_adv =
  ra_peer :: "jxta_id option"
  ra_name :: ctext
  ra_service :: ctext
  ra_route :: "ctext option"

record pve = peer +
  last_refresh :: int
  pve_rdva :: "rdv_adv option"

datatype pv_event_type = JXTA_PEERVIEW_ADD | JXTA_PEERVIEW_REMOVE

datatype pv_action =
    Send jxta_message endpoint_address
  | Propagate jxta_message
  | Publish_rdva rdv_adv
  | Publish_route ctext
  | Notify ptr pv_event_type jxta_id

record peerview =
  pve_at :: "ptr \<Rightarrow> pve"
  next_pve :: ptr
  local_view :: "ctext \<rightharpoonup> ptr"
  view_order :: "ptr list"
  down_pve :: ptr
  self_pve :: ptr
  up_pve :: ptr
  pv_gid :: ctext
  pv_running :: bool
  listener_busy :: nat
  adv_pipe :: bool
  only_seeds :: bool
  happy_size :: nat
  max_probed :: nat
  thread_interval :: int
  pve_expires :: int
  rdva_refresh :: int
  pv_seeds :: "endpoint_address option list"
  active_seeds :: "endpoint_address option list"
  probe_seeds :: "endpoint_address option list option"
  event_listeners :: "(ctext \<times> ptr) list"
  pv_log :: "pv_action list"
  rand_calls :: nat

record pv_env =
  pv_now :: int
  own_rdva :: "rdv_adv option"
  print_rdva :: "rdv_adv \<Rightarrow> ctext"
  parse_rdva :: "ctext \<Rightarrow> rdv_adv option"
  endpoint_send :: "nat \<Rightarrow> status"
  pipe_send :: "nat \<Rightarrow> status"
  pv_rand :: "nat \<Rightarrow> nat"
  have_rdv :: bool
  is_rendezvous :: bool
  have_discovery :: bool
  shuffled :: "endpoint_address option list \<Rightarrow> endpoint_address option list"

definition JPR_INTERVAL_ONE_SECOND :: int where "JPR_INTERVAL_ONE_SECOND = 1000"
definition JPR_ABSOLUTE_TIME_MAX :: int where "JPR_ABSOLUTE_TIME_MAX = 9223372036854775807"
definition JXTA_PEERVIEW_PERIODIC_INTERVAL :: int where "JXTA_PEERVIEW_PERIODIC_INTERVAL = 30 * JPR_INTERVAL_ONE_SECOND"
definition JXTA_PEERVIEW_PVE_EXPIRIRATION :: int where "JXTA_PEERVIEW_PVE_EXPIRIRATION = 20 * 60 * JPR_INTERVAL_ONE_SECOND"
definition RDVA_REFRESH_INTERVAL :: int where "RDVA_REFRESH_INTERVAL = 5 * 60 * JPR_INTERVAL_ONE_SECOND"
definition JXTA_PEERVIEW_MAX_PROBED :: nat where "JXTA_PEERVIEW_MAX_PROBED = 3"
definition JXTA_PEERVIEW_DEFAULT_HAPPY_SIZE :: nat where "JXTA_PEERVIEW_DEFAULT_HAPPY_SIZE = 4"

definition JXTA_RDV_NS_NAME :: ctext where "JXTA_RDV_NS_NAME = str ''jxta''"
definition JXTA_PEERVIEW_NAME :: ctext where "JXTA_PEERVIEW_NAME = str ''PeerView''"
definition JXTA_PEERVIEW_EDGE_ELEMENT_NAME :: ctext where "JXTA_PEERVIEW_EDGE_ELEMENT_NAME = str ''PeerView.EdgePeer''"
definition JXTA_PEERVIEW_RDVADV_ELEMENT_NAME :: ctext where "JXTA_PEERVIEW_RDVADV_ELEMENT_NAME = str ''PeerView.PeerAdv''"
definition JXTA_PEERVIEW_RDVRESP_ELEMENT_NAME :: ctext where
  "JXTA_PEERVIEW_RDVRESP_ELEMENT_NAME = str ''PeerView.PeerAdv.Response''"
definition JXTA_PEERVIEW_FAILURE_ELEMENT_NAME :: ctext where "JXTA_PEERVIEW_FAILURE_ELEMENT_NAME = str ''PeerView.Failure''"
definition JXTA_PEERVIEW_CACHED_ELEMENT_NAME :: ctext where "JXTA_PEERVIEW_CACHED_ELEMENT_NAME = str ''PeerView.Cached''"

lemmas pv_names = JXTA_PEERVIEW_EDGE_ELEMENT_NAME_def JXTA_PEERVIEW_RDVADV_ELEMENT_NAME_def
  JXTA_PEERVIEW_RDVRESP_ELEMENT_NAME_def JXTA_PEERVIEW_FAILURE_ELEMENT_NAME_def JXTA_PEERVIEW_CACHED_ELEMENT_NAME_def

text \<open>The state after creation, before \<open>jxta_peerview_init\<close> fills in the group.\<close>

definition peerview_construct :: "ctext \<Rightarrow> peerview" where
  "peerview_construct gid =
     \<lparr>pve_at = (\<lambda>_. \<lparr>peer_address = None, peer_peerid = None, peer_adv = None, peer_expires = 0, last_refresh = 0, pve_rdva = None\<rparr>),
      next_pve = 1, local_view = Map.empty, view_order = [], down_pve = NULL, self_pve = NULL, up_pve = NULL, pv_gid = gid,
      pv_running = False, listener_busy = 1, adv_pipe = False, only_seeds = False, happy_size = JXTA_PEERVIEW_DEFAULT_HAPPY_SIZE,
      max_probed = JXTA_PEERVIEW_MAX_PROBED, thread_interval = JXTA_PEERVIEW_PERIODIC_INTERVAL,
      pve_expires = JXTA_PEERVIEW_PVE_EXPIRIRATION, rdva_refresh = RDVA_REFRESH_INTERVAL, pv_seeds = [], active_seeds = [],
      probe_seeds = None, event_listeners = [], pv_log = [], rand_calls = 0\<rparr>"

text \<open>An entry always has an identifier; \<open>None\<close> otherwise, as for a null pointer.\<close>

definition pid_of :: "peerview \<Rightarrow> ptr \<Rightarrow> jxta_id option" where
  "pid_of pv p = jxta_peer_get_peerid_priv (pve_at pv p)"

definition pid_text :: "peerview \<Rightarrow> ptr \<Rightarrow> ctext" where
  "pid_text pv p = (case pid_of pv p of None \<Rightarrow> [] | Some i \<Rightarrow> idtext i)"

definition log_action :: "pv_action \<Rightarrow> peerview \<Rightarrow> peerview" where
  "log_action a pv = pv\<lparr>pv_log := pv_log pv @ [a]\<rparr>"

subsection \<open>Neighbours and the order\<close>

text \<open>The neighbours in the ring; alone, or not in the view, the peer has none.\<close>

fun self_position :: "ptr \<Rightarrow> ptr list \<Rightarrow> nat \<Rightarrow> nat option" where
  "self_position s [] i = None"
| "self_position s (x # xs) i = (if s = x then Some i else self_position s xs (i + 1))"

definition addjust_up_down_peers :: "peerview \<Rightarrow> peerview" where
  "addjust_up_down_peers self =
     (let v = view_order self; cleared = self\<lparr>down_pve := NULL, up_pve := NULL\<rparr> in
      case self_position (self_pve self) v 0 of
        None \<Rightarrow> cleared
      | Some MyPos \<Rightarrow>
          (let d = (if MyPos = 0 then length v - 1 else MyPos - 1);
               u = (if MyPos < length v - 1 then MyPos + 1 else 0)
           in cleared\<lparr>down_pve := (if d \<noteq> MyPos then v ! d else NULL), up_pve := (if u \<noteq> MyPos then v ! u else NULL)\<rparr>))"

text \<open>Entries whose time is over leave the order, but not the table.\<close>

definition remove_expired_PVEs :: "int \<Rightarrow> peerview \<Rightarrow> peerview" where
  "remove_expired_PVEs current self =
     (let alive = filter (\<lambda>p. \<not> jxta_peer_get_expires (pve_at self p) < current) (view_order self);
          self' = self\<lparr>view_order := alive\<rparr>
      in if length alive < length (view_order self) then addjust_up_down_peers self' else self')"

text \<open>
  The position of a new entry, looked for from the end; \<open>None\<close> where a text is no C string.
\<close>

fun order_position :: "(ptr \<Rightarrow> ctext) \<Rightarrow> ctext \<Rightarrow> ptr list \<Rightarrow> nat \<Rightarrow> nat option" where
  "order_position name t v 0 = Some 0"
| "order_position name t v (Suc i) =
     do { r \<leftarrow> strcmp (t @ [0]) (name (v ! i) @ [0]);
          if r > 0 then Some (Suc i) else order_position name t v i }"

text \<open>\<open>jxta_peerview_call_event_listeners\<close>: each listener is called with the event.\<close>

definition jxta_peerview_call_event_listeners :: "pv_event_type \<Rightarrow> jxta_id option \<Rightarrow> peerview \<Rightarrow> peerview" where
  "jxta_peerview_call_event_listeners event jid self =
     (case jid of
        None \<Rightarrow> self
      | Some i \<Rightarrow> fold (\<lambda>l. log_action (Notify l event i)) (map snd (event_listeners self)) self)"

definition jxta_peerview_add_pve :: "peerview \<Rightarrow> ptr \<Rightarrow> (status \<times> peerview) option" where
  "jxta_peerview_add_pve self p =
     (let t = pid_text self p in
      case local_view self t of
        Some _ \<Rightarrow> Some (JXTA_FAILED, self)
      | None \<Rightarrow>
          do { i \<leftarrow> order_position (pid_text self) t (view_order self) (length (view_order self));
               let self = self\<lparr>view_order := take i (view_order self) @ p # drop i (view_order self),
                               local_view := (local_view self)(t \<mapsto> p)\<rparr>;
               Some (JXTA_SUCCESS,
                     jxta_peerview_call_event_listeners JXTA_PEERVIEW_ADD (pid_of self p) (addjust_up_down_peers self)) })"

definition jxta_peerview_get_pve :: "peerview \<Rightarrow> jxta_id \<Rightarrow> bool \<Rightarrow> (status \<times> ptr \<times> peerview) option" where
  "jxta_peerview_get_pve self pid addToLocalView =
     (case local_view self (idtext pid) of
        Some p \<Rightarrow> Some (JXTA_SUCCESS, p, self)
      | None \<Rightarrow>
          (let ea = jxta_endpoint_address_new_2 (Some (str ''jxta'')) (snd (jxta_id_get_uniqueportion (Some pid))) None None;
               p = next_pve self;
               e = \<lparr>peer_address = ea, peer_peerid = Some pid, peer_adv = None, peer_expires = JPR_ABSOLUTE_TIME_MAX,
                     last_refresh = 0, pve_rdva = None\<rparr>;
               self = self\<lparr>pve_at := (pve_at self)(p := e), next_pve := p + 1\<rparr>
           in if addToLocalView
              then do { (res, self) \<leftarrow> jxta_peerview_add_pve self p; Some (res, p, self) }
              else Some (JXTA_SUCCESS, p, self)))"

text \<open>The first entry of the order with the identifier leaves the order and the table.\<close>

definition jxta_peerview_remove_pve :: "peerview \<Rightarrow> jxta_id option \<Rightarrow> status \<times> peerview" where
  "jxta_peerview_remove_pve self pid =
     (case find (\<lambda>i. jxta_id_equals pid (pid_of self (view_order self ! i))) [0..<length (view_order self)] of
        None \<Rightarrow> (JXTA_SUCCESS, self)
      | Some i \<Rightarrow>
          (let t = (case pid of None \<Rightarrow> [] | Some j \<Rightarrow> idtext j);
               res = (if local_view self t = None then JXTA_ITEM_NOTFOUND else JXTA_SUCCESS);
               self = self\<lparr>view_order := take i (view_order self) @ drop (Suc i) (view_order self),
                           local_view := (local_view self)(t := None)\<rparr>
           in (res, jxta_peerview_call_event_listeners JXTA_PEERVIEW_REMOVE pid (addjust_up_down_peers self))))"

subsection \<open>Messages\<close>

definition flag_element :: "ctext \<Rightarrow> bool \<Rightarrow> jxta_message_element list" where
  "flag_element name b = (if b then [Element JXTA_RDV_NS_NAME name (Some (str ''text/plain'')) (str ''true'') None] else [])"

definition pv_message :: "ctext \<Rightarrow> bool \<Rightarrow> bool \<Rightarrow> bool \<Rightarrow> bool \<Rightarrow> jxta_message" where
  "pv_message peerdoc response edge cached failure =
     \<lparr>melements =
        [Element JXTA_RDV_NS_NAME (if response then JXTA_PEERVIEW_RDVRESP_ELEMENT_NAME else JXTA_PEERVIEW_RDVADV_ELEMENT_NAME)
           (Some (str ''text/xml'')) peerdoc None] @
        flag_element JXTA_PEERVIEW_EDGE_ELEMENT_NAME edge @ flag_element JXTA_PEERVIEW_CACHED_ELEMENT_NAME cached @
        flag_element JXTA_PEERVIEW_FAILURE_ELEMENT_NAME failure,
      mqos = None\<rparr>"

text \<open>The address of the peerview service of a peer, over the relay of the endpoint service unless it is a JXTA address.\<close>

definition pv_dest :: "peerview \<Rightarrow> endpoint_address \<Rightarrow> endpoint_address" where
  "pv_dest self dest =
     (if protocol_name dest \<noteq> str ''jxta''
      then dest\<lparr>service_name := Some (str ''EndpointService:'' @ pv_gid self),
                service_params := Some (JXTA_PEERVIEW_NAME @ str ''/'' @ pv_gid self)\<rparr>
      else dest\<lparr>service_name := Some JXTA_PEERVIEW_NAME, service_params := Some (pv_gid self)\<rparr>)"

text \<open>The own advertisement is built again when it is missing or old.\<close>

definition refresh_rdva :: "pv_env \<Rightarrow> ptr \<Rightarrow> peerview \<Rightarrow> peerview" where
  "refresh_rdva E p self =
     (let e = pve_at self p in
      if p = self_pve self \<and> (pve_rdva e = None \<or> pv_now E - last_refresh e > rdva_refresh self)
      then self\<lparr>pve_at := (pve_at self)(p := e\<lparr>pve_rdva := own_rdva E, last_refresh := pv_now E\<rparr>)\<rparr>
      else self)"

definition jxta_peerview_send_pvm ::
  "pv_env \<Rightarrow> peerview \<Rightarrow> ptr \<Rightarrow> endpoint_address option \<Rightarrow> bool \<Rightarrow> bool \<Rightarrow> (status \<times> peerview) option" where
  "jxta_peerview_send_pvm E self p dest response failure =
     (let self = refresh_rdva E p self in
      case pve_rdva (pve_at self p) of
        None \<Rightarrow> Some (JXTA_FAILED, self)
      | Some r \<Rightarrow>
          do { d \<leftarrow> dest;
               let msg = pv_message (print_rdva E r) response (\<not> pv_running self) (p \<noteq> self_pve self) failure;
               Some (endpoint_send E (length (pv_log self)), log_action (Send msg (pv_dest self d)) self) })"

definition jxta_peerview_send_rdv_probe :: "pv_env \<Rightarrow> peerview \<Rightarrow> endpoint_address option \<Rightarrow> (status \<times> peerview) option" where
  "jxta_peerview_send_rdv_probe E self dest = jxta_peerview_send_pvm E self (self_pve self) dest False False"

definition jxta_peerview_send_rdv_request :: "pv_env \<Rightarrow> peerview \<Rightarrow> bool \<Rightarrow> bool \<Rightarrow> status \<times> peerview" where
  "jxta_peerview_send_rdv_request E self announce failure =
     (if \<not> adv_pipe self then (JXTA_SUCCESS, self)
      else
        (let s = self_pve self;
             e = pve_at self s;
             e = (if pve_rdva e = None then e\<lparr>pve_rdva := own_rdva E\<rparr> else e);
             self = self\<lparr>pve_at := (pve_at self)(s := e)\<rparr>
         in case pve_rdva e of
              None \<Rightarrow> (JXTA_SUCCESS, self)
            | Some r \<Rightarrow>
                (pipe_send E (length (pv_log self)),
                 log_action (Propagate (pv_message (print_rdva E r) announce (\<not> pv_running self) False failure)) self)))"


text \<open>
  A random entry of the order that is not the peer itself, in so many attempts; the own entry
  where there is no other.
\<close>

fun find_referral :: "pv_env \<Rightarrow> ctext \<Rightarrow> nat \<Rightarrow> peerview \<Rightarrow> ptr option \<times> peerview" where
  "find_referral E pid 0 self = (None, self)"
| "find_referral E pid (Suc i) self =
     (if length (view_order self) > (if pv_running self then 1 else 0)
      then
        (let idx = pv_rand E (rand_calls self) mod length (view_order self);
             aPVE = view_order self ! idx;
             self = self\<lparr>rand_calls := rand_calls self + 1\<rparr>
         in if pid \<noteq> pid_text self aPVE then (Some aPVE, self) else find_referral E pid i self)
      else (Some (self_pve self), self))"

text \<open>The advertisement and its route are published where there is a discovery service.\<close>

definition publish_rdva :: "pv_env \<Rightarrow> rdv_adv \<Rightarrow> bool \<Rightarrow> peerview \<Rightarrow> peerview" where
  "publish_rdva E rdva doit self =
     (if \<not> have_discovery E then self
      else
        (let self = (if doit then log_action (Publish_rdva rdva) self else self)
         in case ra_route rdva of None \<Rightarrow> self | Some r \<Rightarrow> log_action (Publish_route r) self))"

text \<open>The statuses of the messages that are sent are not kept.\<close>

definition answer_peer ::
  "pv_env \<Rightarrow> bool \<Rightarrow> ptr \<Rightarrow> endpoint_address option \<Rightarrow> bool \<Rightarrow> peerview \<Rightarrow> peerview option" where
  "answer_peer E cond pve dest response self =
     (if cond then do { (_, self) \<leftarrow> jxta_peerview_send_pvm E self pve dest response False; Some self } else Some self)"

definition process_peerview_message ::
  "pv_env \<Rightarrow> peerview \<Rightarrow> rdv_adv \<Rightarrow> bool \<Rightarrow> bool \<Rightarrow> bool \<Rightarrow> bool \<Rightarrow> (status \<times> peerview) option" where
  "process_peerview_message E self rdva edge response failure cached =
     do {
       dest \<leftarrow> ra_peer rdva;
       let pid = idtext dest;
       if failure then Some (JXTA_SUCCESS, snd (jxta_peerview_remove_pve self (Some dest)))
       else do {
         let localIsEdge = (\<not> have_rdv E \<or> \<not> is_rendezvous E);
         let self = publish_rdva E rdva (\<not> edge \<and> \<not> cached \<and> localIsEdge) self;
         (res, pve, self) \<leftarrow> jxta_peerview_get_pve self dest (\<not> edge \<and> \<not> cached);
         if res \<noteq> JXTA_SUCCESS then Some (res, self)
         else do {
           let e = pve_at self pve;
           let newbie = (pve_rdva e = None);
           let e = e\<lparr>pve_rdva := Some rdva, last_refresh := pv_now E, peer_expires := pv_now E + pve_expires self\<rparr>;
           let self = self\<lparr>pve_at := (pve_at self)(pve := e)\<rparr>;
           let addr = jxta_peer_get_address_priv e;
           self \<leftarrow> answer_peer E (\<not> response \<and> \<not> cached \<and> \<not> localIsEdge \<and> pv_running self) (self_pve self) addr True self;
           self \<leftarrow> answer_peer E (cached \<and> newbie \<and> \<not> only_seeds self) (self_pve self) addr False self;
           let (referral, self) =
             (if \<not> cached \<and> \<not> response then find_referral E pid (2 * length (view_order self)) self else (None, self));
           self \<leftarrow> (case referral of None \<Rightarrow> Some self | Some aPVE \<Rightarrow> answer_peer E True aPVE addr True self);
           Some (JXTA_SUCCESS, self) } } }"

definition jxta_peerview_probe_cached_rdvadv :: "pv_env \<Rightarrow> peerview \<Rightarrow> rdv_adv \<Rightarrow> (status \<times> peerview) option" where
  "jxta_peerview_probe_cached_rdvadv E self rdva = process_peerview_message E self rdva False False False True"

definition has_element :: "jxta_message \<Rightarrow> ctext \<Rightarrow> bool" where
  "has_element msg name =
     (let (res, el) = jxta_message_get_element_2 msg JXTA_RDV_NS_NAME name in res = JXTA_SUCCESS \<and> el \<noteq> None)"

text \<open>
  The counter of busy listeners is zero while the peerview is shut down; otherwise it is
  incremented and decremented again.  A message without an advertisement is ignored.
\<close>

definition peerview_listener :: "pv_env \<Rightarrow> peerview \<Rightarrow> jxta_message \<Rightarrow> peerview option" where
  "peerview_listener E self msg =
     (if listener_busy self = 0 then Some (self\<lparr>listener_busy := 1\<rparr>)
      else
        (let failure = has_element msg JXTA_PEERVIEW_FAILURE_ELEMENT_NAME;
             edge = has_element msg JXTA_PEERVIEW_EDGE_ELEMENT_NAME;
             cached = has_element msg JXTA_PEERVIEW_CACHED_ELEMENT_NAME;
             response = (\<not> has_element msg JXTA_PEERVIEW_RDVADV_ELEMENT_NAME);
             el = snd (jxta_message_get_element_2 msg JXTA_RDV_NS_NAME
                    (if response then JXTA_PEERVIEW_RDVRESP_ELEMENT_NAME else JXTA_PEERVIEW_RDVADV_ELEMENT_NAME))
         in case el of
              None \<Rightarrow> Some self
            | Some e \<Rightarrow>
                (case parse_rdva E (jxta_message_element_get_value e) of
                   None \<Rightarrow> Some self
                 | Some rdva \<Rightarrow> map_option snd (process_peerview_message E self rdva edge response failure cached))))"

subsection \<open>Life cycle\<close>

record rdv_config =
  cf_seeds :: "endpoint_address option list"
  cf_interval :: int
  cf_pve_expires :: int
  cf_rdva_refresh :: int
  cf_max_probed :: int

text \<open>A setting of \<open>-1\<close> stands for the default.\<close>

definition config_default :: "int \<Rightarrow> int \<Rightarrow> int" where
  "config_default v d = (if v = -1 then d else v)"

definition jxta_peerview_set_thread_interval :: "peerview \<Rightarrow> int \<Rightarrow> status \<times> peerview" where
  "jxta_peerview_set_thread_interval self interval =
     (if interval \<le> 0 then (JXTA_SUCCESS, self\<lparr>thread_interval := JXTA_PEERVIEW_PERIODIC_INTERVAL\<rparr>)
      else (JXTA_SUCCESS, self\<lparr>thread_interval := interval\<rparr>))"

definition jxta_peerview_set_rdva_refresh :: "peerview \<Rightarrow> int \<Rightarrow> status \<times> peerview" where
  "jxta_peerview_set_rdva_refresh self interval = (JXTA_SUCCESS, self\<lparr>rdva_refresh := interval\<rparr>)"

definition jxta_peerview_set_pve_expires :: "peerview \<Rightarrow> int \<Rightarrow> status \<times> peerview" where
  "jxta_peerview_set_pve_expires self expires = (JXTA_SUCCESS, self\<lparr>pve_expires := expires\<rparr>)"

definition jxta_peerview_set_max_probed :: "peerview \<Rightarrow> nat \<Rightarrow> status \<times> peerview" where
  "jxta_peerview_set_max_probed self n = (JXTA_SUCCESS, self\<lparr>max_probed := n\<rparr>)"

definition jxta_peerview_set_happy_size :: "peerview \<Rightarrow> nat \<Rightarrow> status \<times> peerview" where
  "jxta_peerview_set_happy_size self happy_view =
     (if happy_view < 1 then (JXTA_INVALID_ARGUMENT, self) else (JXTA_SUCCESS, self\<lparr>happy_size := happy_view\<rparr>))"

definition init_config :: "rdv_config \<Rightarrow> peerview \<Rightarrow> peerview" where
  "init_config c self =
     (let self = self\<lparr>pv_seeds := pv_seeds self @ cf_seeds c\<rparr>;
          self = snd (jxta_peerview_set_thread_interval self (config_default (cf_interval c) JXTA_PEERVIEW_PERIODIC_INTERVAL));
          self = snd (jxta_peerview_set_rdva_refresh self (config_default (cf_rdva_refresh c) RDVA_REFRESH_INTERVAL));
          self = snd (jxta_peerview_set_pve_expires self (config_default (cf_pve_expires c) JXTA_PEERVIEW_PVE_EXPIRIRATION))
      in snd (jxta_peerview_set_max_probed self
                (nat (config_default (cf_max_probed c) (int JXTA_PEERVIEW_MAX_PROBED) mod 2 ^ 32))))"

text \<open>
  \<open>parent\<close>: the status with which the pipe in the parent group is connected, and whether there
  is one then, where there is a parent group.
\<close>

definition jxta_peerview_init ::
  "pv_env \<Rightarrow> jxta_id \<Rightarrow> rdv_config option \<Rightarrow> (status \<times> bool) option \<Rightarrow> peerview \<Rightarrow> (status \<times> peerview) option" where
  "jxta_peerview_init E pid config parent self =
     do {
       (_, p, self) \<leftarrow> jxta_peerview_get_pve self pid False;
       let self = self\<lparr>self_pve := p,
                       pve_at := (pve_at self)(p := (pve_at self p)\<lparr>pve_rdva := own_rdva E, peer_expires := JPR_ABSOLUTE_TIME_MAX\<rparr>)\<rparr>;
       let self = (case config of None \<Rightarrow> self | Some c \<Rightarrow> init_config c self);
       Some (case parent of
               None \<Rightarrow> (JXTA_SUCCESS, self)
             | Some (res, pipe) \<Rightarrow> (res, self\<lparr>adv_pipe := pipe\<rparr>)) }"

text \<open>The status of the own entry is ignored; the thread that is created marks the peerview as running.\<close>

definition jxta_peerview_start :: "status \<Rightarrow> status \<Rightarrow> peerview \<Rightarrow> (status \<times> bool \<times> peerview) option" where
  "jxta_peerview_start inputpipe add_listener self =
     do {
       (_, self) \<leftarrow> jxta_peerview_add_pve self (self_pve self);
       if adv_pipe self \<and> inputpipe \<noteq> JXTA_SUCCESS then Some (inputpipe, False, self)
       else Some (if adv_pipe self then add_listener else JXTA_SUCCESS, True, self) }"

definition thread_started :: "peerview \<Rightarrow> peerview" where
  "thread_started self = self\<lparr>pv_running := True\<rparr>"

definition jxta_peerview_stop :: "pv_env \<Rightarrow> peerview \<Rightarrow> status \<times> peerview" where
  "jxta_peerview_stop E self =
     (let self = snd (jxta_peerview_send_rdv_request E self True True);
          self = snd (jxta_peerview_remove_pve self (pid_of self (self_pve self)))
      in (JXTA_SUCCESS, self\<lparr>pv_running := False\<rparr>))"


subsection \<open>The periodic thread\<close>

definition jxta_peerview_get_localview :: "pv_env \<Rightarrow> peerview \<Rightarrow> status \<times> ptr list \<times> peerview" where
  "jxta_peerview_get_localview E self =
     (let self = remove_expired_PVEs (pv_now E) self in (JXTA_SUCCESS, view_order self, self))"

text \<open>
  The own entry is sent to a neighbour; a third of the time, while the view is not happy, as a
  probe, which asks for a referral.  A neighbour that cannot be reached is removed.
\<close>

definition refresh_neighbour :: "pv_env \<Rightarrow> ptr \<Rightarrow> peerview \<Rightarrow> peerview option" where
  "refresh_neighbour E current self =
     (if current = NULL then Some self
      else
        (let happy = (happy_size self \<le> length (view_order self));
             response = (happy \<or> pv_rand E (rand_calls self) mod 3 \<noteq> 0);
             self = (if happy then self else self\<lparr>rand_calls := rand_calls self + 1\<rparr>)
         in do {
              (res, self) \<leftarrow> jxta_peerview_send_pvm E self (self_pve self)
                              (jxta_peer_get_address_priv (pve_at self current)) response False;
              Some (if res \<noteq> JXTA_SUCCESS then snd (jxta_peerview_remove_pve self (pid_of self current)) else self) }))"

definition jxta_peerview_get_seeds :: "pv_env \<Rightarrow> peerview \<Rightarrow> endpoint_address option list option \<times> peerview" where
  "jxta_peerview_get_seeds E peerview =
     (if length (pv_seeds peerview) = 0 then (None, peerview)
      else
        (let self = peerview\<lparr>active_seeds := pv_seeds peerview\<rparr>
         in (Some (shuffled E (active_seeds self)), self)))"

fun probe_some :: "pv_env \<Rightarrow> nat \<Rightarrow> peerview \<Rightarrow> peerview option" where
  "probe_some E 0 self = Some self"
| "probe_some E (Suc n) self =
     (case probe_seeds self of
        None \<Rightarrow> Some self
      | Some [] \<Rightarrow> Some self
      | Some (addr # rest) \<Rightarrow>
          do { (_, self) \<leftarrow> jxta_peerview_send_rdv_probe E (self\<lparr>probe_seeds := Some rest\<rparr>) addr;
               probe_some E n self })"

definition kick_seeds :: "pv_env \<Rightarrow> peerview \<Rightarrow> peerview option" where
  "kick_seeds E self =
     (if length (view_order self) < happy_size self
      then
        (let self = (if probe_seeds self = None \<or> probe_seeds self = Some []
                     then (let (seeds, self) = jxta_peerview_get_seeds E self in self\<lparr>probe_seeds := seeds\<rparr>)
                     else self)
         in probe_some E (max_probed self) self)
      else Some (self\<lparr>probe_seeds := None\<rparr>))"

text \<open>One round of the thread, after its interval has passed without a signal.\<close>

definition periodic_round :: "pv_env \<Rightarrow> peerview \<Rightarrow> peerview option" where
  "periodic_round E self =
     (let self = remove_expired_PVEs (pv_now E) self;
          current_down = down_pve self;
          current_up = up_pve self
      in do { self \<leftarrow> refresh_neighbour E current_down self;
              self \<leftarrow> refresh_neighbour E current_up self;
              self \<leftarrow> kick_seeds E self;
              Some (snd (jxta_peerview_send_rdv_request E self True False)) })"

subsection \<open>Queries, seeds and listeners\<close>

text \<open>A null pointer is no peer.\<close>

definition jxta_peerview_get_up_peer :: "peerview \<Rightarrow> status \<times> ptr" where
  "jxta_peerview_get_up_peer self = (JXTA_SUCCESS, if up_pve self \<noteq> NULL then up_pve self else NULL)"

definition jxta_peerview_get_down_peer :: "peerview \<Rightarrow> status \<times> ptr" where
  "jxta_peerview_get_down_peer self = (JXTA_SUCCESS, if down_pve self \<noteq> NULL then down_pve self else NULL)"

definition jxta_peerview_get_self_peer :: "peerview \<Rightarrow> status \<times> ptr" where
  "jxta_peerview_get_self_peer self = (JXTA_SUCCESS, if self_pve self \<noteq> NULL then self_pve self else NULL)"

definition jxta_peerview_get_localview_size :: "peerview \<Rightarrow> nat" where
  "jxta_peerview_get_localview_size self = length (view_order self)"

definition jxta_peerview_get_happy_size :: "peerview \<Rightarrow> nat" where
  "jxta_peerview_get_happy_size self = happy_size self"

definition jxta_peerview_get_max_probed :: "peerview \<Rightarrow> nat" where
  "jxta_peerview_get_max_probed self = max_probed self"

definition jxta_peerview_get_thread_interval :: "peerview \<Rightarrow> int" where
  "jxta_peerview_get_thread_interval self = thread_interval self"

definition jxta_peerview_get_rdva_refresh :: "peerview \<Rightarrow> int" where
  "jxta_peerview_get_rdva_refresh self = rdva_refresh self"

definition jxta_peerview_get_pve_expires :: "peerview \<Rightarrow> int" where
  "jxta_peerview_get_pve_expires self = pve_expires self"

text \<open>Of a seed the address counts, which may be missing.\<close>

definition jxta_peerview_add_seed :: "peerview \<Rightarrow> 'a peer_scheme \<Rightarrow> status \<times> peerview" where
  "jxta_peerview_add_seed self p = (JXTA_SUCCESS, self\<lparr>pv_seeds := pv_seeds self @ [peer_address p]\<rparr>)"

text \<open>The name of a listener is the name of the service followed by its parameter, nothing between them.\<close>

definition jxta_peerview_add_event_listener ::
  "peerview \<Rightarrow> ctext option \<Rightarrow> ctext option \<Rightarrow> ptr \<Rightarrow> status \<times> peerview" where
  "jxta_peerview_add_event_listener pv serviceName serviceParam listener =
     (case (serviceName, serviceParam) of
        (Some n, Some p) \<Rightarrow>
          (if listener = NULL then (JXTA_INVALID_ARGUMENT, pv)
           else if map_of (event_listeners pv) (n @ p) = None
           then (JXTA_SUCCESS, pv\<lparr>event_listeners := event_listeners pv @ [(n @ p, listener)]\<rparr>)
           else (JXTA_BUSY, pv))
      | _ \<Rightarrow> (JXTA_INVALID_ARGUMENT, pv))"

definition jxta_peerview_remove_event_listener ::
  "peerview \<Rightarrow> ctext option \<Rightarrow> ctext option \<Rightarrow> status \<times> ptr option \<times> peerview" where
  "jxta_peerview_remove_event_listener pv serviceName serviceParam =
     (case (serviceName, serviceParam) of
        (Some n, Some p) \<Rightarrow>
          (case map_of (event_listeners pv) (n @ p) of
             None \<Rightarrow> (JXTA_ITEM_NOTFOUND, None, pv)
           | Some l \<Rightarrow> (JXTA_SUCCESS, Some l, pv\<lparr>event_listeners := filter (\<lambda>x. fst x \<noteq> n @ p) (event_listeners pv)\<rparr>))
      | _ \<Rightarrow> (JXTA_INVALID_ARGUMENT, None, pv))"

subsection \<open>Steps\<close>

text \<open>
  What the parser of advertisements returns has identifiers that parsers return.  Every step has
  its own environment: the time, the random numbers and the answers of the services are free.
\<close>

definition rdva_law :: "rdv_adv \<Rightarrow> bool" where
  "rdva_law r = (case ra_peer r of None \<Rightarrow> True | Some i \<Rightarrow> peer_id i)"

definition pv_law :: "pv_env \<Rightarrow> bool" where
  "pv_law E \<longleftrightarrow> (\<forall>t r. parse_rdva E t = Some r \<longrightarrow> rdva_law r)"

text \<open>An entry that has been created; it keeps its identifier and its address.\<close>

definition pve_known :: "peerview \<Rightarrow> ptr \<Rightarrow> bool" where
  "pve_known self p \<longleftrightarrow> NULL < p \<and> p < next_pve self \<and> peer_address (pve_at self p) \<noteq> None \<and>
     (\<exists>i. pid_of self p = Some i \<and> peer_id i)"

inductive pv_step :: "peerview \<Rightarrow> peerview \<Rightarrow> bool" where
  step_message: "pv_law E \<Longrightarrow> peerview_listener E self msg = Some self' \<Longrightarrow> pv_step self self'"
| step_cached: "rdva_law r \<Longrightarrow> jxta_peerview_probe_cached_rdvadv E self r = Some (st, self') \<Longrightarrow> pv_step self self'"
| step_start: "jxta_peerview_start ip ls self = Some (st, thread, self') \<Longrightarrow> pv_step self self'"
| step_thread: "pv_step self (thread_started self)"
| step_stop: "pv_step self (snd (jxta_peerview_stop E self))"
| step_view: "pv_step self (snd (snd (jxta_peerview_get_localview E self)))"
| step_refresh: "pve_known self p \<Longrightarrow> refresh_neighbour E p self = Some self' \<Longrightarrow> pv_step self self'"
| step_kick: "kick_seeds E self = Some self' \<Longrightarrow> pv_step self self'"
| step_probe: "jxta_peerview_send_rdv_probe E self dest = Some (st, self') \<Longrightarrow> pv_step self self'"
| step_request: "pv_step self (snd (jxta_peerview_send_rdv_request E self announce failure))"
| step_interval: "pv_step self (snd (jxta_peerview_set_thread_interval self i))"
| step_rdva_refresh: "pv_step self (snd (jxta_peerview_set_rdva_refresh self i))"
| step_expires: "pv_step self (snd (jxta_peerview_set_pve_expires self i))"
| step_max_probed: "pv_step self (snd (jxta_peerview_set_max_probed self n))"
| step_happy: "pv_step self (snd (jxta_peerview_set_happy_size self n))"
| step_add_seed: "pv_step self (snd (jxta_peerview_add_seed self (q :: peer)))"
| step_add_listener: "pv_step self (snd (jxta_peerview_add_event_listener self n q l))"
| step_remove_listener: "pv_step self (snd (snd (jxta_peerview_remove_event_listener self n q)))"

inductive pv_reachable :: "peerview \<Rightarrow> bool" where
  reach_init: "peer_id pid \<Longrightarrow> jxta_peerview_init E pid config parent (peerview_construct gid) = Some (st, self) \<Longrightarrow>
     pv_reachable self"
| reach_step: "pv_reachable self \<Longrightarrow> pv_step self self' \<Longrightarrow> pv_reachable self'"

end
