(* ===== verification/PeerViewProps.thy ===== *)
theory PeerViewProps
  imports PeerView
begin

section \<open>The ring of a peerview\<close>

text \<open>
  The neighbours of a peer in its view are the first and the last of the others, in cyclic order
  from the peer on.  The invariant of the peerview says that its order is sorted by the texts of
  the identifiers, that the table finds every entry of the order, and that the neighbours are
  those of the ring.  Every step keeps it, keeps the identifiers of entries, and keeps an entry
  that is in the table, but not in the order, in that state.
\<close>

subsection \<open>Neighbours\<close>

definition ring_others :: "'a \<Rightarrow> 'a list \<Rightarrow> 'a list" where
  "ring_others s v = (if s \<in> set v then tl (dropWhile (\<lambda>x. x \<noteq> s) v) @ takeWhile (\<lambda>x. x \<noteq> s) v else [])"

definition ring_up :: "ptr \<Rightarrow> ptr list \<Rightarrow> ptr" where
  "ring_up s v = (case ring_others s v of [] \<Rightarrow> NULL | x # _ \<Rightarrow> x)"

definition ring_down :: "ptr \<Rightarrow> ptr list \<Rightarrow> ptr" where
  "ring_down s v = (if ring_others s v = [] then NULL else last (ring_others s v))"

lemma ring_others_split: "s \<notin> set l \<Longrightarrow> ring_others s (l @ s # r) = r @ l"
  by (auto simp: ring_others_def takeWhile_append dropWhile_append)

lemma ring_others_subset: "set (ring_others s v) \<subseteq> set v"
proof (cases "s \<in> set v")
  case True
  then obtain l r where "v = l @ s # r" "s \<notin> set l"
    using split_list_first by metis
  then show ?thesis
    by (auto simp: ring_others_split)
qed (simp add: ring_others_def)

lemma ring_others_map:
  assumes "inj_on f (set v)" "s \<in> set v"
  shows "ring_others (f s) (map f v) = map f (ring_others s v)"
proof -
  obtain l r where v: "v = l @ s # r" "s \<notin> set l"
    using split_list_first [OF assms(2)] by blast
  then have "f s \<notin> set (map f l)"
    using assms(1) by (auto simp: inj_on_def)
  then show ?thesis
    using v by (simp add: ring_others_split)
qed

text \<open>The next of one element is another exactly if its previous is the first one.\<close>

lemma ring_next:
  assumes "distinct v"
  shows "(\<exists>xs. ring_others a v = b # xs) \<longleftrightarrow> (\<exists>xs. ring_others b v = xs @ [a])"
proof
  assume "\<exists>xs. ring_others a v = b # xs"
  then obtain xs where xs: "ring_others a v = b # xs"
    by blast
  then have "a \<in> set v"
    by (auto simp: ring_others_def split: if_splits)
  then obtain l r where v: "v = l @ a # r" "a \<notin> set l"
    using split_list_first by metis
  then have rl: "r @ l = b # xs"
    using xs by (simp add: ring_others_split)
  show "\<exists>xs. ring_others b v = xs @ [a]"
  proof (cases r)
    case Nil
    then have "v = [] @ b # xs @ [a]"
      using rl v by simp
    then show ?thesis
      using ring_others_split [of b "[]" "xs @ [a]"] by simp
  next
    case (Cons x r')
    then have "v = (l @ [a]) @ b # r'" "b \<notin> set (l @ [a])"
      using rl v assms by auto
    then show ?thesis
      using ring_others_split [of b "l @ [a]" r'] by simp
  qed
next
  assume "\<exists>xs. ring_others b v = xs @ [a]"
  then obtain xs where xs: "ring_others b v = xs @ [a]"
    by blast
  then have "b \<in> set v"
    by (auto simp: ring_others_def split: if_splits)
  then obtain l r where v: "v = l @ b # r" "b \<notin> set l"
    using split_list_first by metis
  then have rl: "r @ l = xs @ [a]"
    using xs by (simp add: ring_others_split)
  show "\<exists>xs. ring_others a v = b # xs"
  proof (cases l rule: rev_cases)
    case Nil
    then have "v = (b # xs) @ a # []" "a \<notin> set (b # xs)"
      using rl v assms by auto
    then show ?thesis
      using ring_others_split [of a "b # xs" "[]"] by simp
  next
    case (snoc l' x)
    then have "v = l' @ a # (b # r)" "a \<notin> set l'"
      using rl v assms by auto
    then show ?thesis
      using ring_others_split [of a l' "b # r"] by simp
  qed
qed

lemma self_position_absent: "s \<notin> set v \<Longrightarrow> self_position s v i = None"
  by (induction v arbitrary: i) auto

lemma self_position_split: "s \<notin> set l \<Longrightarrow> self_position s (l @ s # r) i = Some (i + length l)"
  by (induction l arbitrary: i) auto

lemma adjust_ring:
  "down_pve (addjust_up_down_peers self) = ring_down (self_pve self) (view_order self) \<and>
   up_pve (addjust_up_down_peers self) = ring_up (self_pve self) (view_order self)"
proof (cases "self_pve self \<in> set (view_order self)")
  case True
  then obtain l r where v: "view_order self = l @ self_pve self # r" "self_pve self \<notin> set l"
    using split_list_first by metis
  have p: "self_position (self_pve self) (view_order self) 0 = Some (length l)"
    using self_position_split [OF v(2), of r 0] v(1) by simp
  have o: "ring_others (self_pve self) (view_order self) = r @ l"
    using ring_others_split [OF v(2)] v(1) by simp
  show ?thesis
  proof (cases l rule: rev_cases)
    case Nil
    then show ?thesis
      using p o v(1) by (cases r) (auto simp: addjust_up_down_peers_def Let_def ring_up_def ring_down_def last_conv_nth nth_append nth_Cons')
  next
    case (snoc l' x)
    then show ?thesis
      using p o v(1) by (cases r; cases l') (auto simp: addjust_up_down_peers_def Let_def ring_up_def ring_down_def nth_append)
  qed
qed (simp add: addjust_up_down_peers_def self_position_absent ring_up_def ring_down_def ring_others_def)

lemma adjust_shape:
  "\<exists>d u. addjust_up_down_peers self = self\<lparr>down_pve := d, up_pve := u\<rparr>"
  by (simp add: addjust_up_down_peers_def Let_def split: option.split) blast

lemma listeners_shape: "\<exists>l. jxta_peerview_call_event_listeners e i self = self\<lparr>pv_log := pv_log self @ l\<rparr>"
proof -
  have "\<exists>l. fold (\<lambda>l. log_action (Notify l e j)) ls self = self\<lparr>pv_log := pv_log self @ l\<rparr>" for j ls
  proof (induction ls arbitrary: self)
    case Nil
    then show ?case
      by (intro exI [of _ "[]"]) simp
  next
    case (Cons a ls)
    obtain l where "fold (\<lambda>l. log_action (Notify l e j)) ls (log_action (Notify a e j) self) =
        (log_action (Notify a e j) self)\<lparr>pv_log := pv_log (log_action (Notify a e j) self) @ l\<rparr>"
      using Cons.IH by blast
    then show ?case
      by (intro exI [of _ "Notify a e j # l"]) (simp add: log_action_def [of "Notify a e j"])
  qed
  then show ?thesis
    by (cases i) (auto simp: jxta_peerview_call_event_listeners_def intro: exI [of _ "[]"])
qed

text \<open>The settings, which the operations on the view leave unchanged.\<close>

definition pv_settings where
  "pv_settings self = (pv_running self, only_seeds self, listener_busy self, pve_expires self, happy_size self,
     event_listeners self, rdva_refresh self, pv_gid self)"

lemma adjust_other [simp]:
  "pve_at (addjust_up_down_peers self) = pve_at self" "next_pve (addjust_up_down_peers self) = next_pve self"
  "local_view (addjust_up_down_peers self) = local_view self" "view_order (addjust_up_down_peers self) = view_order self"
  "self_pve (addjust_up_down_peers self) = self_pve self" "pv_log (addjust_up_down_peers self) = pv_log self"
  "pv_settings (addjust_up_down_peers self) = pv_settings self"
  using adjust_shape [of self] by (auto simp: pv_settings_def)

lemma listeners_other [simp]:
  "pve_at (jxta_peerview_call_event_listeners e i self) = pve_at self"
  "next_pve (jxta_peerview_call_event_listeners e i self) = next_pve self"
  "local_view (jxta_peerview_call_event_listeners e i self) = local_view self"
  "view_order (jxta_peerview_call_event_listeners e i self) = view_order self"
  "self_pve (jxta_peerview_call_event_listeners e i self) = self_pve self"
  "down_pve (jxta_peerview_call_event_listeners e i self) = down_pve self"
  "up_pve (jxta_peerview_call_event_listeners e i self) = up_pve self"
  "pv_settings (jxta_peerview_call_event_listeners e i self) = pv_settings self"
  using listeners_shape [of e i self] by (auto simp: pv_settings_def)

lemma listeners_log: "pv_log self = l0 \<Longrightarrow> \<exists>l. pv_log (jxta_peerview_call_event_listeners e i self) = l0 @ l"
  using listeners_shape [of e i self] by auto

subsection \<open>Invariant\<close>

definition pv_ok :: "peerview \<Rightarrow> bool" where
  "pv_ok self \<longleftrightarrow>
     pve_known self (self_pve self) \<and>
     (\<forall>t p. local_view self t = Some p \<longrightarrow> pve_known self p \<and> pid_text self p = t) \<and>
     (\<forall>p\<in>set (view_order self). local_view self (pid_text self p) = Some p) \<and>
     sorted_wrt (<) (map (pid_text self) (view_order self)) \<and>
     down_pve self = ring_down (self_pve self) (view_order self) \<and>
     up_pve self = ring_up (self_pve self) (view_order self)"

text \<open>In the table, but not in the order.\<close>

definition limbo :: "peerview \<Rightarrow> ctext \<Rightarrow> ptr \<Rightarrow> bool" where
  "limbo self t p \<longleftrightarrow> local_view self t = Some p \<and> p \<notin> set (view_order self)"

definition pv_ext :: "peerview \<Rightarrow> peerview \<Rightarrow> bool" where
  "pv_ext a b \<longleftrightarrow> next_pve a \<le> next_pve b \<and> self_pve b = self_pve a \<and>
     (\<forall>p. p < next_pve a \<longrightarrow> pid_of b p = pid_of a p \<and> peer_address (pve_at b p) = peer_address (pve_at a p))"

definition pv_safe :: "peerview \<Rightarrow> peerview \<Rightarrow> bool" where
  "pv_safe a b \<longleftrightarrow> (pv_ok a \<longrightarrow> pv_ok b \<and> pv_ext a b \<and> (\<forall>t p. limbo a t p \<longrightarrow> limbo b t p))"

text \<open>States that differ in nothing of this.\<close>

definition pv_same :: "peerview \<Rightarrow> peerview \<Rightarrow> bool" where
  "pv_same a b \<longleftrightarrow> next_pve b = next_pve a \<and> local_view b = local_view a \<and> view_order b = view_order a \<and>
     down_pve b = down_pve a \<and> self_pve b = self_pve a \<and> up_pve b = up_pve a \<and>
     (\<forall>p. pid_of b p = pid_of a p \<and> peer_address (pve_at b p) = peer_address (pve_at a p))"

lemma same_refl [simp]: "pv_same a a"
  by (simp add: pv_same_def)

lemma same_trans: "pv_same a b \<Longrightarrow> pv_same b c \<Longrightarrow> pv_same a c"
  by (simp add: pv_same_def)

lemma safe_refl [simp]: "pv_safe a a"
  by (simp add: pv_safe_def pv_ext_def)

lemma safe_trans: "pv_safe a b \<Longrightarrow> pv_safe b c \<Longrightarrow> pv_safe a c"
  by (auto simp: pv_safe_def pv_ext_def)

lemma same_eqs:
  assumes "pv_same a b"
  shows "pid_text b = pid_text a" "pve_known b = pve_known a"
  using assms by (auto simp: pv_same_def pid_text_def pve_known_def fun_eq_iff)

lemma same_safe: "pv_same a b \<Longrightarrow> pv_safe a b"
  using same_eqs [of a b] by (simp add: pv_same_def pv_safe_def pv_ok_def pv_ext_def limbo_def)

lemma known_ext: "pv_ext a b \<Longrightarrow> pve_known a p \<Longrightarrow> pve_known b p"
  by (auto simp: pv_ext_def pve_known_def)

lemma pid_text_ext: "pv_ext a b \<Longrightarrow> p < next_pve a \<Longrightarrow> pid_text b p = pid_text a p"
  by (simp add: pv_ext_def pid_text_def)

lemma known_text:
  assumes "pve_known self p"
  shows "0 \<notin> set (pid_text self p)"
  using assms by (auto simp: pve_known_def pid_text_def peer_id_def dest: idtext_cstr(2))


lemma ok_texts:
  assumes "pv_ok self" "p \<in> set (view_order self)"
  shows "local_view self (pid_text self p) = Some p" "pve_known self p" "0 \<notin> set (pid_text self p)"
proof -
  show t: "local_view self (pid_text self p) = Some p"
    using assms by (simp add: pv_ok_def)
  show k: "pve_known self p"
    using assms(1) t unfolding pv_ok_def by blast
  show "0 \<notin> set (pid_text self p)"
    using known_text [OF k] .
qed

text \<open>An entry of the order has the text that the table has for it, and none other.\<close>

lemma ok_distinct:
  assumes "pv_ok self" "p \<in> set (view_order self)" "q \<in> set (view_order self)" "pid_text self p = pid_text self q"
  shows "p = q"
  using ok_texts(1) [OF assms(1,2)] ok_texts(1) [OF assms(1,3)] assms(4) by (metis option.inject)

subsection \<open>Adding, removing, expiring\<close>

lemma order_position_spec:
  assumes "0 \<notin> set t" "\<forall>x\<in>set v. 0 \<notin> set (name x)"
  shows "n \<le> length v \<Longrightarrow>
    \<exists>i\<le>n. order_position name t v n = Some i \<and> (i = 0 \<or> name (v ! (i - 1)) < t) \<and> (\<forall>j. i \<le> j \<and> j < n \<longrightarrow> t \<le> name (v ! j))"
proof (induction n)
  case (Suc n)
  have "0 \<notin> set (name (v ! n))"
    using Suc.prems assms(2) by simp
  then obtain r where r: "strcmp (t @ [0]) (name (v ! n) @ [0]) = Some r" "r > 0 \<longleftrightarrow> name (v ! n) < t"
    using strcmp_texts assms(1) by blast
  show ?case
  proof (cases "r > 0")
    case True
    then show ?thesis
      using r by (intro exI [of _ "Suc n"]) auto
  next
    case False
    then have "t \<le> name (v ! n)"
      using r(2) by simp
    moreover obtain i where "i \<le> n" "order_position name t v n = Some i" "i = 0 \<or> name (v ! (i - 1)) < t"
        "\<forall>j. i \<le> j \<and> j < n \<longrightarrow> t \<le> name (v ! j)"
      using Suc by auto
    ultimately show ?thesis
      using r(1) False by (intro exI [of _ i]) (auto simp: less_Suc_eq)
  qed
qed simp

lemma insert_sorted:
  fixes name :: "'b \<Rightarrow> ctext"
  assumes v: "sorted_wrt (<) (map name v)" and i: "i \<le> length v" "i = 0 \<or> name (v ! (i - 1)) < name p"
    and j: "\<forall>j. i \<le> j \<and> j < length v \<longrightarrow> name p \<le> name (v ! j)" and new: "name p \<notin> name ` set v"
  shows "sorted_wrt (<) (map name (take i v @ p # drop i v))"
proof -
  have "sorted_wrt (<) (map name (take i v @ drop i v))"
    using v by simp
  then have s: "sorted_wrt (<) (map name (take i v))" "sorted_wrt (<) (map name (drop i v))"
      "\<forall>x\<in>set (take i v). \<forall>y\<in>set (drop i v). name x < name y"
    unfolding map_append sorted_wrt_append by auto
  have "name x < name p" if x: "x \<in> set (take i v)" for x
  proof -
    obtain k where k: "k < i" "x = v ! k"
      using x by (auto simp: in_set_conv_nth)
    then have "name (v ! k) \<le> name (v ! (i - 1))"
      using v i(1) by (cases "k = i - 1") (auto simp: sorted_wrt_iff_nth_less intro!: less_imp_le)
    then show ?thesis
      using k i(2) by auto
  qed
  moreover have "name p < name y" if y: "y \<in> set (drop i v)" for y
  proof -
    obtain k where k: "k < length v - i" "y = v ! (i + k)"
      using y by (auto simp: in_set_conv_nth)
    then have "name p \<le> name y" "y \<in> set v"
      using j by auto
    then show ?thesis
      using new by (metis image_eqI order_le_less)
  qed
  ultimately show ?thesis
    using s by (auto simp: sorted_wrt_append)
qed

lemma add_safe:
  assumes ok: "pv_ok self" and p: "pve_known self p"
  shows "\<exists>st self'. jxta_peerview_add_pve self p = Some (st, self') \<and> pv_safe self self' \<and> pve_at self' = pve_at self \<and>
    self_pve self' = self_pve self \<and>
    (if local_view self (pid_text self p) = None
     then st = JXTA_SUCCESS \<and> set (view_order self') = insert p (set (view_order self)) \<and> local_view self' = (local_view self)(pid_text self p \<mapsto> p)
     else st = JXTA_FAILED \<and> self' = self)"
proof (cases "local_view self (pid_text self p)")
  case None
  let ?t = "pid_text self p" and ?v = "view_order self"
  obtain i where i: "i \<le> length ?v" "order_position (pid_text self) ?t ?v (length ?v) = Some i"
      "i = 0 \<or> pid_text self (?v ! (i - 1)) < ?t" "\<forall>j. i \<le> j \<and> j < length ?v \<longrightarrow> ?t \<le> pid_text self (?v ! j)"
    using order_position_spec [of ?t ?v "pid_text self" "length ?v"] ok_texts(3) [OF ok] known_text [OF p] by auto
  have new: "?t \<notin> pid_text self ` set ?v"
    using None ok_texts(1) [OF ok] by fastforce
  obtain self' where self': "jxta_peerview_add_pve self p = Some (JXTA_SUCCESS, self')"
      "view_order self' = take i ?v @ p # drop i ?v" "local_view self' = (local_view self)(?t \<mapsto> p)"
      "pve_at self' = pve_at self" "next_pve self' = next_pve self" "self_pve self' = self_pve self"
      "down_pve self' = ring_down (self_pve self) (take i ?v @ p # drop i ?v)"
      "up_pve self' = ring_up (self_pve self) (take i ?v @ p # drop i ?v)"
    using None i(2) by (simp add: jxta_peerview_add_pve_def Let_def adjust_ring)
  have eqs: "pid_of self' = pid_of self" "pid_text self' = pid_text self" "pve_known self' = pve_known self"
    using self'(4,5) by (auto simp: pid_of_def pid_text_def pve_known_def fun_eq_iff)
  have set': "set (view_order self') = insert p (set ?v)"
    using self'(2) by (metis append_take_drop_id list.set(2) set_append Un_insert_right)
  have sorted: "sorted_wrt (<) (map (pid_text self) (view_order self'))"
    using insert_sorted [OF _ i(1,3,4) new] ok self'(2) by (simp add: pv_ok_def del: map_append)
  have table: "local_view self' t = Some q \<Longrightarrow> pve_known self q \<and> pid_text self q = t" for t q
    using ok p unfolding self'(3) pv_ok_def by (auto split: if_splits)
  have order: "local_view self' (pid_text self q) = Some q" if "q \<in> set (view_order self')" for q
  proof (cases "q = p")
    case False
    then have q: "q \<in> set ?v"
      using that set' by simp
    then have "pid_text self q \<noteq> ?t"
      using new by (metis image_eqI)
    then show ?thesis
      using ok_texts(1) [OF ok q] self'(3) by simp
  qed (simp add: self'(3))
  have "pv_ok self'"
    using ok sorted table order unfolding pv_ok_def eqs self'(6-8) self'(2) [symmetric] by blast
  moreover have "limbo self' t q" if l: "limbo self t q" for t q
  proof -
    have "t \<noteq> ?t" "pid_text self q = t"
      using l None ok by (auto simp: limbo_def pv_ok_def)
    then have "q \<noteq> p"
      by blast
    then show ?thesis
      using l \<open>t \<noteq> ?t\<close> set' self'(3) by (simp add: limbo_def)
  qed
  moreover have "pv_ext self self'"
    using self'(4-6) eqs(1) by (simp add: pv_ext_def)
  ultimately show ?thesis
    using self'(1,3,4,6) None set' by (simp add: pv_safe_def)
qed (simp add: jxta_peerview_add_pve_def)


lemma sorted_sublist:
  assumes "sorted_wrt (<) (map f (a @ b @ c))"
  shows "sorted_wrt (<) (map f (a @ c))"
  using assms by (simp add: sorted_wrt_append)

lemma find_index:
  assumes "find P [0..<n] = Some i"
  shows "P i" "i < n"
  using assms by (auto simp: find_Some_iff)

lemma remove_safe:
  assumes pid: "peer_id j"
  shows "pv_safe self (snd (jxta_peerview_remove_pve self (Some j)))"
proof (cases "find (\<lambda>i. jxta_id_equals (Some j) (pid_of self (view_order self ! i))) [0..<length (view_order self)]")
  case (Some i)
  let ?v = "view_order self" and ?self = "snd (jxta_peerview_remove_pve self (Some j))"
  have i: "jxta_id_equals (Some j) (pid_of self (?v ! i))" "i < length ?v"
    using find_index [OF Some] by auto
  have s: "view_order ?self = take i ?v @ drop (Suc i) ?v" "local_view ?self = (local_view self)(idtext j := None)"
      "next_pve ?self = next_pve self" "pve_at ?self = pve_at self" "self_pve ?self = self_pve self"
      "down_pve ?self = ring_down (self_pve self) (view_order ?self)" "up_pve ?self = ring_up (self_pve self) (view_order ?self)"
    using Some by (simp_all add: jxta_peerview_remove_pve_def Let_def adjust_ring)
  have eqs: "pid_of ?self = pid_of self" "pid_text ?self = pid_text self" "pve_known ?self = pve_known self"
    using s(3,4) by (auto simp: pid_of_def pid_text_def pve_known_def fun_eq_iff)
  have split: "?v = take i ?v @ [?v ! i] @ drop (Suc i) ?v"
    using id_take_nth_drop [OF i(2)] by simp
  have ok': "pv_ok ?self \<and> pv_ext self ?self \<and> (\<forall>t p. limbo self t p \<longrightarrow> limbo ?self t p)" if ok: "pv_ok self"
  proof -
    have v: "?v ! i \<in> set ?v"
      using i(2) by simp
    then obtain k where "pid_of self (?v ! i) = Some k" "peer_id k"
      using ok_texts(2) [OF ok] by (auto simp: pve_known_def)
    then have t: "pid_text self (?v ! i) = idtext j"
      using i(1) pid by (simp add: pid_text_def peer_id_equals)
    have sub: "set (view_order ?self) \<subseteq> set ?v"
      using s(1) set_take_subset [of i ?v] set_drop_subset [of "Suc i" ?v] by auto
    have sorted: "sorted_wrt (<) (map (pid_text self) ?v)"
      using ok by (simp add: pv_ok_def)
    then have "sorted_wrt (<) (map (pid_text self) (view_order ?self))"
      unfolding s(1) by (subst (asm) split) (rule sorted_sublist)
    moreover have other: "pid_text self q \<noteq> idtext j" if q: "q \<in> set (view_order ?self)" for q
    proof
      assume "pid_text self q = idtext j"
      then have "q = ?v ! i"
        using ok_distinct [OF ok _ v] q sub t by auto
      moreover have "?v ! i \<notin> set (view_order ?self)"
        using sorted unfolding s(1) by (subst (asm) split) (auto simp: sorted_wrt_append)
      ultimately show False
        using q by simp
    qed
    moreover have "local_view ?self (pid_text self q) = Some q" if q: "q \<in> set (view_order ?self)" for q
      using ok_texts(1) [OF ok] other [OF q] sub q unfolding s(2) by auto
    moreover have "local_view ?self t = Some p \<Longrightarrow> pve_known self p \<and> pid_text self p = t" for t p
      using ok unfolding s(2) pv_ok_def by (auto split: if_splits)
    ultimately have "pv_ok ?self"
      using ok s(5-7) unfolding pv_ok_def eqs s(5) by blast
    moreover have "limbo ?self t p" if l: "limbo self t p" for t p
    proof -
      have "local_view self (idtext j) = Some (?v ! i)"
        using ok_texts(1) [OF ok v] t by simp
      then have "t \<noteq> idtext j"
        using l v by (auto simp: limbo_def)
      then show ?thesis
        using l sub s(2) by (auto simp: limbo_def)
    qed
    moreover have "pv_ext self ?self"
      using s(3-5) eqs(1) by (simp add: pv_ext_def)
    ultimately show ?thesis
      by blast
  qed
  then show ?thesis
    by (simp add: pv_safe_def)
qed (simp add: jxta_peerview_remove_pve_def)

lemma expire_safe: "pv_safe self (remove_expired_PVEs now self)"
proof -
  let ?self = "remove_expired_PVEs now self"
  let ?v = "filter (\<lambda>p. \<not> jxta_peer_get_expires (pve_at self p) < now) (view_order self)"
  have s: "view_order ?self = ?v" "local_view ?self = local_view self" "pve_at ?self = pve_at self"
      "next_pve ?self = next_pve self" "self_pve ?self = self_pve self"
    by (simp_all add: remove_expired_PVEs_def Let_def)
  have eqs: "pid_of ?self = pid_of self" "pid_text ?self = pid_text self" "pve_known ?self = pve_known self"
    using s(3,4) by (auto simp: pid_of_def pid_text_def pve_known_def fun_eq_iff)
  have "?v = view_order self" if "\<not> length ?v < length (view_order self)"
    using that by (metis filter_id_conv length_filter_less)
  then have ring: "pv_ok self \<Longrightarrow> down_pve ?self = ring_down (self_pve self) ?v \<and> up_pve ?self = ring_up (self_pve self) ?v"
    by (cases "length ?v < length (view_order self)") (auto simp: remove_expired_PVEs_def Let_def adjust_ring pv_ok_def)
  have sorted: "pv_ok self \<Longrightarrow> sorted_wrt (<) (map (pid_text self) ?v)"
    unfolding pv_ok_def sorted_wrt_map by (blast intro: sorted_wrt_filter)
  show ?thesis
    using ring sorted unfolding pv_safe_def pv_ok_def limbo_def pv_ext_def eqs s by simp
qed


text \<open>A new entry has the next address, which nothing refers to.\<close>

lemma alloc_safe: "pv_safe self (self\<lparr>pve_at := (pve_at self)(next_pve self := e), next_pve := next_pve self + 1\<rparr>)"
proof -
  let ?self = "self\<lparr>pve_at := (pve_at self)(next_pve self := e), next_pve := next_pve self + 1\<rparr>"
  have old: "pve_known ?self p \<and> pid_text ?self p = pid_text self p \<and> pid_of ?self p = pid_of self p" if "pve_known self p" for p
    using that by (simp add: pve_known_def pid_text_def pid_of_def)
  have texts: "map (pid_text ?self) (view_order self) = map (pid_text self) (view_order self)" if "pv_ok self"
    using old ok_texts(2) [OF that] by auto
  have "sorted_wrt (<) (map (pid_text ?self) (view_order self))" if "pv_ok self"
    unfolding texts [OF that] using that by (simp add: pv_ok_def)
  then have "pv_ok ?self" if "pv_ok self"
    using that old ok_texts(1,2) [OF that] unfolding pv_ok_def by simp
  then show ?thesis
    by (auto simp: pv_safe_def limbo_def pv_ext_def pid_of_def)
qed

lemma uniqueportion:
  assumes "peer_id pid"
  shows "snd (jxta_id_get_uniqueportion (Some pid)) \<noteq> None"
proof -
  obtain t where "fmt_getUniqueportion (format_of (formatter pid)) pid = (JXTA_SUCCESS, t)"
    using unique_portion assms unfolding peer_id_def by blast
  then show ?thesis
    by (simp add: jxta_id_get_uniqueportion_def)
qed

lemma get_pve_safe:
  assumes ok: "pv_ok self" and pid: "peer_id pid"
  shows "\<exists>p self'. jxta_peerview_get_pve self pid add = Some (JXTA_SUCCESS, p, self') \<and> pv_safe self self' \<and>
    pve_known self' p \<and> pid_of self' p = Some pid \<and> (add \<longrightarrow> local_view self' (idtext pid) = Some p) \<and>
    (add \<and> local_view self (idtext pid) = None \<longrightarrow> set (view_order self') = insert p (set (view_order self)))"
proof (cases "local_view self (idtext pid)")
  case None
  let ?p = "next_pve self"
  obtain u where u: "snd (jxta_id_get_uniqueportion (Some pid)) = Some u"
    using uniqueportion [OF pid] by blast
  let ?e = "\<lparr>peer_address = jxta_endpoint_address_new_2 (Some (str ''jxta'')) (Some u) None None, peer_peerid = Some pid,
    peer_adv = None, peer_expires = JPR_ABSOLUTE_TIME_MAX, last_refresh = 0, pve_rdva = None\<rparr>"
  let ?self = "self\<lparr>pve_at := (pve_at self)(?p := ?e), next_pve := ?p + 1\<rparr>"
  have safe: "pv_safe self ?self"
    by (rule alloc_safe)
  have "NULL < ?p"
    using ok by (auto simp: pv_ok_def pve_known_def)
  then have known: "pve_known ?self ?p" "pid_of ?self ?p = Some pid" "pid_text ?self ?p = idtext pid"
    using pid by (simp_all add: pve_known_def pid_of_def pid_text_def jxta_peer_get_peerid_priv_def jxta_endpoint_address_new_2_def)
  have "pv_ok ?self"
    using safe ok by (simp add: pv_safe_def)
  then obtain self' where "jxta_peerview_add_pve ?self ?p = Some (JXTA_SUCCESS, self')" "pv_safe ?self self'"
      "set (view_order self') = insert ?p (set (view_order self))" "local_view self' (idtext pid) = Some ?p"
    using add_safe [OF _ known(1)] None known(3) by force
  moreover have "pve_known self' ?p" "pid_of self' ?p = Some pid"
    using calculation(2) \<open>pv_ok ?self\<close> known known_ext [of ?self self' ?p] by (auto simp: pv_safe_def pv_ext_def)
  ultimately show ?thesis
    using None safe safe_trans [OF safe] known
    by (cases add) (simp_all add: jxta_peerview_get_pve_def Let_def u)
next
  case (Some p)
  then have "pve_known self p" "pid_text self p = idtext pid"
    using ok by (auto simp: pv_ok_def)
  then have "pid_of self p = Some pid"
    using idtext_inj pid by (auto simp: pve_known_def pid_text_def)
  then show ?thesis
    using Some \<open>pve_known self p\<close> by (simp add: jxta_peerview_get_pve_def)
qed

lemma get_pve_frame:
  assumes "jxta_peerview_get_pve self pid add = Some (st, p, self')" "local_view self (idtext pid) = None"
  shows "p = next_pve self" "pv_settings self' = pv_settings self" "self_pve self' = self_pve self"
    "q < next_pve self \<Longrightarrow> pve_at self' q = pve_at self q" "\<exists>l. pv_log self' = pv_log self @ l"
    "peer_address (pve_at self' p) = jxta_endpoint_address_new_2 (Some (str ''jxta''))
       (snd (jxta_id_get_uniqueportion (Some pid))) None None"
  using assms
  by (auto simp: jxta_peerview_get_pve_def jxta_peerview_add_pve_def Let_def pv_settings_def [of "_\<lparr>view_order := _\<rparr>"]
      pv_settings_def [of "_\<lparr>local_view := _\<rparr>"] pv_settings_def [of "_\<lparr>next_pve := _\<rparr>"] pv_settings_def [of self]
      split: if_splits option.splits bind_splits intro: listeners_log)

subsection \<open>Sending\<close>

text \<open>What sending leaves unchanged: the view, the settings, and what has been sent.\<close>

definition quiet :: "peerview \<Rightarrow> peerview \<Rightarrow> bool" where
  "quiet a b \<longleftrightarrow> pv_same a b \<and> pv_settings b = pv_settings a \<and> (\<exists>l. pv_log b = pv_log a @ l) \<and>
     (\<forall>p. p \<noteq> self_pve a \<longrightarrow> pve_at b p = pve_at a p)"

lemma quiet_refl [simp]: "quiet a a"
  by (simp add: quiet_def)

lemma quiet_trans: "quiet a b \<Longrightarrow> quiet b c \<Longrightarrow> quiet a c"
  by (auto simp: quiet_def pv_same_def)

lemma quiet_safe: "quiet a b \<Longrightarrow> pv_safe a b"
  by (simp add: quiet_def same_safe)

lemma quiet_log [simp]: "quiet self (log_action a self)"
  by (simp add: log_action_def quiet_def pv_settings_def pv_same_def pid_of_def)

lemma entry_same:
  assumes "peer_peerid e = peer_peerid (pve_at self p)" "peer_address e = peer_address (pve_at self p)"
  shows "pv_same self (self\<lparr>pve_at := (pve_at self)(p := e)\<rparr>)"
  using assms by (simp add: pv_same_def pid_of_def jxta_peer_get_peerid_priv_def)

lemma refresh_quiet [simp]: "quiet self (refresh_rdva E p self)"
  using entry_same [of "(pve_at self p)\<lparr>pve_rdva := own_rdva E, last_refresh := pv_now E\<rparr>" self p]
  by (auto simp: refresh_rdva_def quiet_def pv_settings_def Let_def)

lemma refresh_other [simp]:
  "self_pve (refresh_rdva E p self) = self_pve self" "pv_running (refresh_rdva E p self) = pv_running self"
  "pv_log (refresh_rdva E p self) = pv_log self" "pv_gid (refresh_rdva E p self) = pv_gid self"
  by (simp_all add: refresh_rdva_def Let_def)

lemma send_pvm_quiet:
  assumes "jxta_peerview_send_pvm E self p dest response failure = Some (st, self')"
  shows "quiet self self'"
  using assms quiet_trans [OF refresh_quiet quiet_log]
  by (auto simp: jxta_peerview_send_pvm_def Let_def split: option.splits bind_splits)

lemma send_pvm_total: "\<exists>st self'. jxta_peerview_send_pvm E self p (Some d) response failure = Some (st, self')"
  by (auto simp: jxta_peerview_send_pvm_def Let_def split: option.splits)

lemma send_request_quiet: "quiet self (snd (jxta_peerview_send_rdv_request E self announce failure))"
proof -
  let ?s = "self_pve self"
  let ?e = "if pve_rdva (pve_at self ?s) = None then (pve_at self ?s)\<lparr>pve_rdva := own_rdva E\<rparr> else pve_at self ?s"
  have "pv_same self (self\<lparr>pve_at := (pve_at self)(?s := ?e)\<rparr>)"
    by (rule entry_same) simp_all
  then have "quiet self (self\<lparr>pve_at := (pve_at self)(?s := ?e)\<rparr>)"
    by (simp add: quiet_def pv_settings_def)
  then show ?thesis
    using quiet_trans [OF _ quiet_log]
    by (auto simp: jxta_peerview_send_rdv_request_def Let_def simp del: fun_upd_apply split: option.split)
qed

lemma referral_quiet:
  assumes "find_referral E pid n self = (r, self')"
  shows "quiet self self'"
proof -
  have "\<exists>k. self' = self\<lparr>rand_calls := k\<rparr>"
    using assms
  proof (induction n arbitrary: self)
    case 0
    then show ?case
      by (auto intro: exI [of _ "rand_calls self"])
  next
    case (Suc n)
    have same: "\<exists>k. self = self\<lparr>rand_calls := k\<rparr>"
      by (rule exI [of _ "rand_calls self"]) simp
    show ?case
    proof (cases "length (view_order self) > (if pv_running self then 1 else 0)")
      case True
      let ?self = "self\<lparr>rand_calls := rand_calls self + 1\<rparr>"
      have "self' = ?self \<or> find_referral E pid n ?self = (r, self')"
        using Suc.prems True by (simp add: Let_def split: if_splits)
      then show ?thesis
        using Suc.IH [of ?self] by auto
    next
      case False
      then have "self' = self"
        using Suc.prems by simp
      then show ?thesis
        using same by simp
    qed
  qed
  then show ?thesis
    by (auto simp: quiet_def pv_same_def pid_of_def pv_settings_def)
qed

lemma publish_quiet [simp]: "quiet self (publish_rdva E r b self)"
  using quiet_trans [OF quiet_log quiet_log] by (auto simp: publish_rdva_def Let_def split: option.split)

lemma answer_quiet: "answer_peer E c p dest response self = Some self' \<Longrightarrow> quiet self self'"
  by (auto simp: answer_peer_def dest: send_pvm_quiet split: if_splits bind_splits)

lemma answer_total: "\<exists>self'. answer_peer E c p (Some d) response self = Some self' \<and> quiet self self'"
  using send_pvm_total [of E self p d response False] answer_quiet [of E c p "Some d" response self]
  by (auto simp: answer_peer_def)


subsection \<open>Messages and rounds\<close>

definition heard_from :: "pv_env \<Rightarrow> rdv_adv \<Rightarrow> ptr \<Rightarrow> peerview \<Rightarrow> peerview" where
  "heard_from E r p self =
     self\<lparr>pve_at := (pve_at self)(p := (pve_at self p)
       \<lparr>pve_rdva := Some r, last_refresh := pv_now E, peer_expires := pv_now E + pve_expires self\<rparr>)\<rparr>"

lemma heard_same: "pv_same self (heard_from E r p self)"
  unfolding heard_from_def by (rule entry_same) simp_all

text \<open>
  The entry of the sender is found or made and refreshed, a probe is answered, and what follows
  changes nothing but the log, the random numbers and the own advertisement.
\<close>

lemma process_shape:
  assumes ok: "pv_ok self" and i: "ra_peer r = Some i" "peer_id i"
  shows "\<exists>p s1 s3 s4 d. jxta_peerview_get_pve (publish_rdva E r (\<not> edge \<and> \<not> cached \<and> (\<not> have_rdv E \<or> \<not> is_rendezvous E)) self) i
       (\<not> edge \<and> \<not> cached) = Some (JXTA_SUCCESS, p, s1) \<and> pv_safe self s1 \<and> pve_known s1 p \<and> pid_of s1 p = Some i \<and>
     peer_address (pve_at s1 p) = Some d \<and>
     answer_peer E (\<not> response \<and> \<not> cached \<and> have_rdv E \<and> is_rendezvous E \<and> pv_running s1) (self_pve s1) (Some d) True
       (heard_from E r p s1) = Some s3 \<and> quiet (heard_from E r p s1) s3 \<and> quiet s3 s4 \<and>
     process_peerview_message E self r edge response False cached = Some (JXTA_SUCCESS, s4)"
proof -
  let ?s0 = "publish_rdva E r (\<not> edge \<and> \<not> cached \<and> (\<not> have_rdv E \<or> \<not> is_rendezvous E)) self"
  have safe0: "pv_safe self ?s0"
    by (rule quiet_safe) simp
  then have "pv_ok ?s0"
    using ok by (simp add: pv_safe_def)
  then obtain p s1 where g: "jxta_peerview_get_pve ?s0 i (\<not> edge \<and> \<not> cached) = Some (JXTA_SUCCESS, p, s1)" "pv_safe ?s0 s1"
      "pve_known s1 p" "pid_of s1 p = Some i"
    using get_pve_safe [OF _ i(2)] by blast
  obtain d where d: "peer_address (pve_at s1 p) = Some d"
    using g(3) by (auto simp: pve_known_def)
  let ?s2 = "heard_from E r p s1"
  obtain s3 where s3: "answer_peer E (\<not> response \<and> \<not> cached \<and> have_rdv E \<and> is_rendezvous E \<and> pv_running s1) (self_pve s1)
      (Some d) True ?s2 = Some s3" "quiet ?s2 s3"
    using answer_total by blast
  obtain s5 where s5: "answer_peer E (cached \<and> pve_rdva (pve_at s1 p) = None \<and> \<not> only_seeds s3) (self_pve s3) (Some d) False s3 = Some s5"
      "quiet s3 s5"
    using answer_total by blast
  obtain q s6 where q: "(if \<not> cached \<and> \<not> response then find_referral E (idtext i) (2 * length (view_order s5)) s5 else (None, s5)) = (q, s6)"
    by (cases "if \<not> cached \<and> \<not> response then find_referral E (idtext i) (2 * length (view_order s5)) s5 else (None, s5)")
  then have s6: "quiet s5 s6"
    using referral_quiet by (auto split: if_splits)
  obtain s4 where s4: "(case q of None \<Rightarrow> Some s6 | Some a \<Rightarrow> answer_peer E True a (Some d) True s6) = Some s4" "quiet s6 s4"
    using answer_total [of E True _ d True s6] by (cases q) auto
  have "process_peerview_message E self r edge response False cached = Some (JXTA_SUCCESS, s4)"
    using i(1) g(1) d s3(1) s5(1) q s4(1)
    by (simp add: process_peerview_message_def Let_def heard_from_def jxta_peer_get_address_priv_def cong: if_cong option.case_cong)
  moreover have "quiet s3 s4"
    using s5(2) s6 s4(2) quiet_trans by blast
  ultimately show ?thesis
    using g d s3 safe0 safe_trans by blast
qed

lemma process_safe:
  assumes ok: "pv_ok self" and i: "ra_peer r = Some i" "peer_id i"
  shows "\<exists>self'. process_peerview_message E self r edge response failure cached = Some (JXTA_SUCCESS, self') \<and> pv_safe self self'"
proof (cases failure)
  case True
  then show ?thesis
    using remove_safe [OF i(2)] i(1) by (simp add: process_peerview_message_def)
next
  case False
  obtain p s1 s3 s4 where s: "pv_safe self s1" "quiet (heard_from E r p s1) s3" "quiet s3 s4"
      "process_peerview_message E self r edge response False cached = Some (JXTA_SUCCESS, s4)"
    using process_shape [OF assms, of E edge cached response] by blast
  have "pv_safe self s4"
    using safe_trans [OF s(1) safe_trans [OF same_safe [OF heard_same] quiet_safe [OF quiet_trans [OF s(2,3)]]]] .
  then show ?thesis
    using s(4) False by simp
qed

lemma process_law_safe:
  assumes "rdva_law r" "process_peerview_message E self r edge response failure cached = Some (st, self')"
  shows "pv_safe self self'"
proof -
  obtain i where "ra_peer r = Some i" "peer_id i"
    using assms by (cases "ra_peer r") (simp_all add: rdva_law_def process_peerview_message_def)
  then show ?thesis
    using process_safe [of self r i E edge response failure cached] assms(2) by (cases "pv_ok self") (auto simp: pv_safe_def)
qed

lemma listener_safe:
  assumes "pv_law E" "peerview_listener E self msg = Some self'"
  shows "pv_safe self self'"
proof -
  have "pv_same self (self\<lparr>listener_busy := 1\<rparr>)"
    by (simp add: pv_same_def pid_of_def)
  then have "pv_safe self (self\<lparr>listener_busy := 1\<rparr>)"
    by (rule same_safe)
  moreover have "rdva_law r" if "parse_rdva E t = Some r" for t r
    using assms(1) that by (simp add: pv_law_def)
  ultimately show ?thesis
    using assms(2)
    by (auto simp: peerview_listener_def Let_def split: if_splits option.splits intro: process_law_safe)
qed

lemma known_pid:
  assumes "pve_known self p" "pv_ext self self'"
  shows "\<exists>i. pid_of self' p = Some i \<and> peer_id i"
  using assms by (auto simp: pve_known_def pv_ext_def)

lemma refresh_safe:
  assumes "refresh_neighbour E p self = Some self'" "p = NULL \<or> pve_known self p"
  shows "pv_safe self self'"
proof (cases "p = NULL")
  case False
  let ?h = "happy_size self \<le> length (view_order self)"
  let ?self = "if ?h then self else self\<lparr>rand_calls := rand_calls self + 1\<rparr>"
  have q0: "quiet self ?self"
    by (auto simp: quiet_def pv_same_def pid_of_def pv_settings_def)
  obtain st s1 b d where s1: "jxta_peerview_send_pvm E ?self (self_pve ?self) d b False = Some (st, s1)"
      "self' = (if st \<noteq> JXTA_SUCCESS then snd (jxta_peerview_remove_pve s1 (pid_of s1 p)) else s1)"
    using assms(1) False by (auto simp: refresh_neighbour_def Let_def split: bind_splits)
  have "quiet ?self s1"
    using send_pvm_quiet [OF s1(1)] .
  then have q1: "quiet self s1"
    using q0 quiet_trans by blast
  then have "pid_of s1 p = pid_of self p"
    by (simp add: quiet_def pv_same_def)
  then obtain i where "pid_of s1 p = Some i" "peer_id i"
    using assms(2) False by (auto simp: pve_known_def)
  then show ?thesis
    using s1(2) quiet_safe [OF q1] remove_safe safe_trans by (cases "st = JXTA_SUCCESS") fastforce+
qed (use assms(1) in \<open>simp add: refresh_neighbour_def\<close>)


lemma probe_some_quiet: "probe_some E n self = Some self' \<Longrightarrow> quiet self self'"
proof (induction n arbitrary: self)
  case (Suc n)
  show ?case
  proof (cases "probe_seeds self = None \<or> probe_seeds self = Some []")
    case True
    then show ?thesis
      using Suc.prems by auto
  next
    case False
    then obtain a as where seeds: "probe_seeds self = Some (a # as)"
      by (metis list.exhaust not_None_eq)
    let ?self = "self\<lparr>probe_seeds := Some as\<rparr>"
    have "quiet self ?self"
      by (simp add: quiet_def pv_same_def pid_of_def pv_settings_def)
    moreover obtain st s1 where s1: "jxta_peerview_send_rdv_probe E ?self a = Some (st, s1)" "probe_some E n s1 = Some self'"
      using Suc.prems seeds by (auto split: bind_splits)
    moreover have "quiet ?self s1"
      using s1(1) send_pvm_quiet unfolding jxta_peerview_send_rdv_probe_def by blast
    ultimately show ?thesis
      using quiet_trans [OF _ quiet_trans [OF _ Suc.IH [OF s1(2)]]] by blast
  qed
qed simp

lemma kick_safe:
  assumes "kick_seeds E self = Some self'"
  shows "pv_safe self self'"
proof -
  have q: "quiet self (self\<lparr>probe_seeds := x\<rparr>)" "quiet self (self\<lparr>active_seeds := y, probe_seeds := x\<rparr>)" for x y
    by (simp_all add: quiet_def pv_same_def pid_of_def pv_settings_def)
  show ?thesis
  proof (cases "length (view_order self) < happy_size self")
    case True
    define s1 where "s1 = (if probe_seeds self = None \<or> probe_seeds self = Some []
      then (let (seeds, self) = jxta_peerview_get_seeds E self in self\<lparr>probe_seeds := seeds\<rparr>) else self)"
    have "quiet self s1"
      using q by (auto simp: s1_def jxta_peerview_get_seeds_def Let_def)
    moreover have "probe_some E (max_probed s1) s1 = Some self'"
      using assms True by (simp add: kick_seeds_def s1_def [symmetric] Let_def)
    ultimately show ?thesis
      using probe_some_quiet quiet_trans quiet_safe by blast
  next
    case False
    then have "self' = self\<lparr>probe_seeds := None\<rparr>"
      using assms by (simp add: kick_seeds_def)
    then show ?thesis
      using q(1) quiet_safe by blast
  qed
qed

lemma settings_same:
  "pv_same self (snd (jxta_peerview_set_thread_interval self i))" "pv_same self (snd (jxta_peerview_set_rdva_refresh self i))"
  "pv_same self (snd (jxta_peerview_set_pve_expires self i))" "pv_same self (snd (jxta_peerview_set_max_probed self n))"
  "pv_same self (snd (jxta_peerview_set_happy_size self n))" "pv_same self (snd (jxta_peerview_add_seed self q))"
  "pv_same self (snd (jxta_peerview_add_event_listener self name param l))"
  "pv_same self (snd (snd (jxta_peerview_remove_event_listener self name param)))" "pv_same self (thread_started self)"
  "pv_same self (self\<lparr>pv_running := b\<rparr>)" "pv_same self (self\<lparr>adv_pipe := b\<rparr>)" "pv_same self (self\<lparr>pv_seeds := s\<rparr>)"
  by (simp_all add: pv_same_def pid_of_def jxta_peerview_set_thread_interval_def jxta_peerview_set_rdva_refresh_def
      jxta_peerview_set_pve_expires_def jxta_peerview_set_max_probed_def jxta_peerview_set_happy_size_def
      jxta_peerview_add_seed_def jxta_peerview_add_event_listener_def jxta_peerview_remove_event_listener_def
      thread_started_def split: option.split)

lemma start_safe:
  assumes "jxta_peerview_start ip ls self = Some (st, thread, self')"
  shows "pv_safe self self'"
proof (cases "pv_ok self")
  case True
  then have "pve_known self (self_pve self)"
    by (simp add: pv_ok_def)
  then show ?thesis
    using add_safe [OF True] assms by (fastforce simp: jxta_peerview_start_def split: if_splits)
qed (simp add: pv_safe_def)

lemma stop_safe: "pv_safe self (snd (jxta_peerview_stop E self))"
proof (cases "pv_ok self")
  case True
  let ?s = "snd (jxta_peerview_send_rdv_request E self True True)"
  have q: "pv_safe self ?s"
    using quiet_safe send_request_quiet by blast
  then have "pve_known ?s (self_pve ?s)"
    using True by (simp add: pv_safe_def pv_ok_def)
  then obtain i where "pid_of ?s (self_pve ?s) = Some i" "peer_id i"
    by (auto simp: pve_known_def)
  then have "pv_safe self (snd (jxta_peerview_remove_pve ?s (pid_of ?s (self_pve ?s))))"
    using remove_safe q safe_trans by metis
  then show ?thesis
    using safe_trans same_safe settings_same(10) unfolding jxta_peerview_stop_def Let_def by (metis snd_conv)
qed (simp add: pv_safe_def)

text \<open>Every step of the peerview is safe.\<close>

lemma step_safe: "pv_step self self' \<Longrightarrow> pv_safe self self'"
proof (induction rule: pv_step.induct)
  case (step_cached r E self st self')
  then show ?case
    using process_law_safe unfolding jxta_peerview_probe_cached_rdvadv_def by blast
next
  case (step_view self E)
  then show ?case
    using expire_safe by (simp add: jxta_peerview_get_localview_def Let_def)
next
  case (step_probe E self dest st self')
  then show ?case
    using send_pvm_quiet quiet_safe unfolding jxta_peerview_send_rdv_probe_def by blast
next
  case (step_add_seed self q)
  show ?case
    by (rule same_safe [OF settings_same(6)])
qed (use listener_safe start_safe stop_safe refresh_safe kick_safe quiet_safe send_request_quiet same_safe settings_same in \<open>auto\<close>)

lemma steps_safe: "pv_step\<^sup>*\<^sup>* self self' \<Longrightarrow> pv_safe self self'"
proof (induction rule: rtranclp_induct)
  case (step s t)
  then show ?case
    using step_safe safe_trans by blast
qed simp

lemma config_same: "pv_same self (init_config c self)"
proof -
  let ?s1 = "self\<lparr>pv_seeds := pv_seeds self @ cf_seeds c\<rparr>"
  let ?s2 = "snd (jxta_peerview_set_thread_interval ?s1 (config_default (cf_interval c) JXTA_PEERVIEW_PERIODIC_INTERVAL))"
  let ?s3 = "snd (jxta_peerview_set_rdva_refresh ?s2 (config_default (cf_rdva_refresh c) RDVA_REFRESH_INTERVAL))"
  let ?s4 = "snd (jxta_peerview_set_pve_expires ?s3 (config_default (cf_pve_expires c) JXTA_PEERVIEW_PVE_EXPIRIRATION))"
  have "pv_same self ?s4"
    using same_trans [OF same_trans [OF same_trans [OF settings_same(12) settings_same(1)] settings_same(2)] settings_same(3)] .
  then show ?thesis
    using same_trans [OF _ settings_same(4)] by (simp add: init_config_def Let_def)
qed

text \<open>The own entry, made by \<open>jxta_peerview_init\<close>.\<close>

definition own_pve :: "pv_env \<Rightarrow> jxta_id \<Rightarrow> pve" where
  "own_pve E pid =
     \<lparr>peer_address = jxta_endpoint_address_new_2 (Some (str ''jxta'')) (snd (jxta_id_get_uniqueportion (Some pid))) None None,
      peer_peerid = Some pid, peer_adv = None, peer_expires = JPR_ABSOLUTE_TIME_MAX, last_refresh = 0, pve_rdva = own_rdva E\<rparr>"

lemma init_ok:
  assumes pid: "peer_id pid" and init: "jxta_peerview_init E pid config parent (peerview_construct gid) = Some (st, self)"
  shows "pv_ok self"
proof -
  let ?new = "peerview_construct gid"
  define s1 where "s1 = ?new\<lparr>pve_at := (pve_at ?new)(1 := own_pve E pid), next_pve := 2, self_pve := 1\<rparr>"
  define e where "e = (own_pve E pid)\<lparr>pve_rdva := None\<rparr>"
  let ?t = "?new\<lparr>pve_at := (pve_at ?new)(1 := e), next_pve := 2\<rparr>"
  have g: "jxta_peerview_get_pve ?new pid False = Some (JXTA_SUCCESS, 1, ?t)"
    by (simp add: jxta_peerview_get_pve_def Let_def peerview_construct_def e_def own_pve_def)
  have eq: "?t\<lparr>self_pve := 1, pve_at := (pve_at ?t)(1 := (pve_at ?t 1)
      \<lparr>pve_rdva := own_rdva E, peer_expires := JPR_ABSOLUTE_TIME_MAX\<rparr>)\<rparr> = s1"
    by (simp add: s1_def e_def own_pve_def peerview_construct_def)
  have i: "jxta_peerview_init E pid config parent ?new =
      (let s2 = (case config of None \<Rightarrow> s1 | Some c \<Rightarrow> init_config c s1) in
       Some (case parent of None \<Rightarrow> (JXTA_SUCCESS, s2) | Some (res, pipe) \<Rightarrow> (res, s2\<lparr>adv_pipe := pipe\<rparr>)))"
    unfolding jxta_peerview_init_def g by (simp only: bind.simps prod.case Let_def eq)
  obtain u where u: "snd (jxta_id_get_uniqueportion (Some pid)) = Some u"
    using uniqueportion [OF pid] by blast
  have "pve_known s1 1" "self_pve s1 = 1" "local_view s1 = Map.empty" "view_order s1 = []" "down_pve s1 = NULL" "up_pve s1 = NULL"
    using pid u by (simp_all add: s1_def peerview_construct_def pve_known_def pid_of_def
        jxta_peer_get_peerid_priv_def own_pve_def jxta_endpoint_address_new_2_def)
  then have "pv_ok s1"
    by (simp add: pv_ok_def ring_down_def ring_up_def ring_others_def)
  moreover have "pv_same s1 self"
  proof -
    define s2 where "s2 = (case config of None \<Rightarrow> s1 | Some c \<Rightarrow> init_config c s1)"
    have "pv_same s1 s2"
      using config_same by (cases config) (simp_all add: s2_def)
    moreover have "self = s2 \<or> (\<exists>b. self = s2\<lparr>adv_pipe := b\<rparr>)"
      using init unfolding i s2_def [symmetric] Let_def by (cases parent) (auto split: prod.splits)
    ultimately show ?thesis
      using settings_same(11) same_trans by blast
  qed
  ultimately show ?thesis
    using same_safe by (auto simp: pv_safe_def)
qed

lemma reachable_ok: "pv_reachable self \<Longrightarrow> pv_ok self"
proof (induction rule: pv_reachable.induct)
  case (reach_init pid E config parent gid st self)
  then show ?case
    by (rule init_ok)
next
  case (reach_step self self')
  then show ?case
    using step_safe by (auto simp: pv_safe_def)
qed

end
