(* ===== verification/Rendezvous.thy ===== *)
theory Rendezvous
  imports PeerViewProps
begin

section \<open>Rendezvous in a ring (src/src/jxta_peerview.c)\<close>

text \<open>
  What the peerview promises: the invariant of every state that can be reached, the ring that
  peers with the same view form, the fate of an entry that has expired, and the exchange of a
  probe and its answer between two peers.
\<close>

subsection \<open>The view and its ring\<close>

text \<open>The parser gives advertisements that name their peer.\<close>

definition names_peer :: "pv_env \<Rightarrow> bool" where
  "names_peer E \<longleftrightarrow> (\<forall>t r. parse_rdva E t = Some r \<longrightarrow> ra_peer r \<noteq> None)"

lemma listener_total:
  assumes "pv_ok self" "pv_law E" "names_peer E"
  shows "peerview_listener E self msg \<noteq> None"
proof -
  have "\<exists>self'. process_peerview_message E self r edge response failure cached = Some (JXTA_SUCCESS, self')"
    if p: "parse_rdva E t = Some r" for t r edge response failure cached
  proof -
    obtain i where "ra_peer r = Some i"
      using p assms(3) unfolding names_peer_def by blast
    moreover have "rdva_law r"
      using p assms(2) by (auto simp: pv_law_def)
    ultimately show ?thesis
      using process_safe [OF assms(1)] by (fastforce simp: rdva_law_def)
  qed
  then show ?thesis
    by (fastforce simp: peerview_listener_def Let_def split: option.split)
qed

text \<open>Two peers by their identifiers and entries, for the examples.\<close>

definition sample_peer :: "u8 \<Rightarrow> jxta_id" where
  "sample_peer b = IdUuid (replicate 63 b @ [3])"

definition sample_rdva :: "u8 \<Rightarrow> rdv_adv" where
  "sample_rdva b = \<lparr>ra_peer = Some (sample_peer b), ra_name = [], ra_service = [], ra_route = None\<rparr>"

definition sample_pv_env :: "u8 \<Rightarrow> pv_env" where
  "sample_pv_env b =
     \<lparr>pv_now = 1000, own_rdva = Some (sample_rdva b),
      print_rdva = (\<lambda>r. case ra_peer r of None \<Rightarrow> [] | Some i \<Rightarrow> if i = sample_peer 1 then [1] else [2]),
      parse_rdva = (\<lambda>t. if t = [1] then Some (sample_rdva 1) else if t = [2] then Some (sample_rdva 2) else None),
      endpoint_send = (\<lambda>_. JXTA_SUCCESS), pipe_send = (\<lambda>_. JXTA_SUCCESS), pv_rand = id, have_rdv = True,
      is_rendezvous = True, have_discovery = True, shuffled = id\<rparr>"

lemma sample_peer_id: "peer_id (sample_peer 1)" "peer_id (sample_peer 2)"
  by (simp_all add: peer_id_def sample_peer_def id_ok_def canonical_def uuid_layout uuid_translateToWellKnown_def translateTbl_def
      uuid_equals_def numeral_eq_Suc defaultNetPeerGroupID_def worldPeerGroupID_def)

lemma sample_pv_law: "pv_law (sample_pv_env b)" "names_peer (sample_pv_env b)"
  using sample_peer_id by (auto simp: pv_law_def names_peer_def sample_pv_env_def rdva_law_def sample_rdva_def split: if_splits)


text \<open>A peer that has been initialised and started, and whose thread runs.\<close>

definition sample_pv :: "u8 \<Rightarrow> peerview" where
  "sample_pv b =
     (case jxta_peerview_init (sample_pv_env b) (sample_peer b) None None (peerview_construct [7]) of
        None \<Rightarrow> peerview_construct [7]
      | Some (_, s) \<Rightarrow>
          (case jxta_peerview_start JXTA_SUCCESS JXTA_SUCCESS s of
             None \<Rightarrow> s
           | Some (_, _, s) \<Rightarrow> thread_started s))"

lemma sample_pv_eq:
  "sample_pv b = (peerview_construct [7])\<lparr>pve_at := (pve_at (peerview_construct [7]))(1 := own_pve (sample_pv_env b) (sample_peer b)),
     next_pve := 2, self_pve := 1, view_order := [1], local_view := [idtext (sample_peer b) \<mapsto> 1], pv_running := True\<rparr>"
  by (simp add: sample_pv_def jxta_peerview_init_def jxta_peerview_get_pve_def Let_def peerview_construct_def own_pve_def
      jxta_peerview_start_def jxta_peerview_add_pve_def pid_text_def pid_of_def jxta_peer_get_peerid_priv_def
      addjust_up_down_peers_def jxta_peerview_call_event_listeners_def thread_started_def)

lemma sample_reachable: "b = 1 \<or> b = 2 \<Longrightarrow> pv_reachable (sample_pv b)"
proof -
  assume b: "b = 1 \<or> b = 2"
  obtain st s where s: "jxta_peerview_init (sample_pv_env b) (sample_peer b) None None (peerview_construct [7]) = Some (st, s)"
    by (auto simp: jxta_peerview_init_def jxta_peerview_get_pve_def Let_def peerview_construct_def)
  then have r: "pv_reachable s"
    using reach_init sample_peer_id b by blast
  then have ok: "pv_ok s"
    by (rule reachable_ok)
  then obtain st' t s' where s': "jxta_peerview_start JXTA_SUCCESS JXTA_SUCCESS s = Some (st', t, s')"
    using add_safe [OF ok] by (fastforce simp: jxta_peerview_start_def pv_ok_def)
  then have "pv_reachable (thread_started s')"
    using r by (meson reach_step step_start step_thread)
  then show ?thesis
    using s s' by (simp add: sample_pv_def)
qed

subsection \<open>A round of the thread\<close>

text \<open>A round is made of steps, between which other steps may come.\<close>

lemma ring_down_in: "ring_down s v \<noteq> NULL \<Longrightarrow> ring_down s v \<in> set (ring_others s v)"
  by (simp add: ring_down_def split: if_splits)

lemma ring_up_in: "ring_up s v \<noteq> NULL \<Longrightarrow> ring_up s v \<in> set (ring_others s v)"
  by (simp add: ring_up_def split: list.splits)

lemma neighbour_known:
  assumes "pv_ok self" "p = down_pve self \<or> p = up_pve self" "p \<noteq> NULL"
  shows "pve_known self p"
proof -
  have "down_pve self = ring_down (self_pve self) (view_order self)" "up_pve self = ring_up (self_pve self) (view_order self)"
    using assms(1) unfolding pv_ok_def by blast+
  then have "p \<in> set (ring_others (self_pve self) (view_order self))"
    using ring_down_in ring_up_in assms(2,3) by metis
  then show ?thesis
    using ring_others_subset [of "self_pve self" "view_order self"] ok_texts(2) [OF assms(1), of p] by auto
qed

lemma refresh_steps:
  assumes "refresh_neighbour E p self = Some self'" "p = NULL \<or> pve_known self p"
  shows "pv_step\<^sup>*\<^sup>* self self'"
  using assms step_refresh by (cases "p = NULL") (auto simp: refresh_neighbour_def [of _ NULL])

lemma round_steps:
  assumes ok: "pv_ok self" and round: "periodic_round E self = Some self'"
  shows "pv_step\<^sup>*\<^sup>* self self'"
proof -
  let ?gone = "remove_expired_PVEs (pv_now E) self"
  obtain s1 s2 s3 where s: "refresh_neighbour E (down_pve ?gone) ?gone = Some s1" "refresh_neighbour E (up_pve ?gone) s1 = Some s2"
      "kick_seeds E s2 = Some s3" "self' = snd (jxta_peerview_send_rdv_request E s3 True False)"
    using round by (auto simp: periodic_round_def Let_def split: bind_splits)
  have g: "pv_ok ?gone" "pv_step self ?gone"
    using expire_safe ok step_view [of self E] by (auto simp: pv_safe_def jxta_peerview_get_localview_def Let_def)
  have s1: "pv_step\<^sup>*\<^sup>* ?gone s1"
    using refresh_steps [OF s(1)] neighbour_known [OF g(1)] by blast
  then have "pv_ext ?gone s1"
    using steps_safe g(1) by (auto simp: pv_safe_def)
  then have "pv_step\<^sup>*\<^sup>* s1 s2"
    using refresh_steps [OF s(2)] neighbour_known [OF g(1)] known_ext by blast
  moreover have "pv_step s2 s3" "pv_step s3 self'"
    using s(3,4) step_kick step_request by auto
  ultimately show ?thesis
    using g(2) s1 by (meson converse_rtranclp_into_rtranclp rtranclp.rtrancl_into_rtrancl rtranclp_trans)
qed

subsection \<open>Invariant and ring\<close>




lemma ok_inj:
  assumes "pv_ok self"
  shows "inj_on (pid_text self) (set (view_order self))" "distinct (map (pid_text self) (view_order self))"
  using assms ok_distinct [OF assms] by (auto simp: inj_on_def pv_ok_def strict_sorted_iff)

lemma up_text:
  assumes ok: "pv_ok self" and s: "self_pve self \<in> set (view_order self)"
  shows "up_pve self \<noteq> NULL \<and> pid_text self (up_pve self) = t \<longleftrightarrow>
    (\<exists>xs. ring_others (pid_text self (self_pve self)) (map (pid_text self) (view_order self)) = t # xs)"
proof -
  have "\<forall>x\<in>set (view_order self). NULL < x"
    using ok_texts(2) [OF ok] by (auto simp: pve_known_def)
  moreover have "set (ring_others (self_pve self) (view_order self)) \<subseteq> set (view_order self)"
    by (rule ring_others_subset)
  moreover have "up_pve self = ring_up (self_pve self) (view_order self)"
    using ok by (simp add: pv_ok_def)
  ultimately show ?thesis
    unfolding ring_others_map [OF ok_inj(1) [OF ok] s] by (cases "ring_others (self_pve self) (view_order self)") (auto simp: ring_up_def)
qed

lemma down_text:
  assumes ok: "pv_ok self" and s: "self_pve self \<in> set (view_order self)"
  shows "down_pve self \<noteq> NULL \<and> pid_text self (down_pve self) = t \<longleftrightarrow>
    (\<exists>xs. ring_others (pid_text self (self_pve self)) (map (pid_text self) (view_order self)) = xs @ [t])"
proof -
  have "\<forall>x\<in>set (view_order self). NULL < x"
    using ok_texts(2) [OF ok] by (auto simp: pve_known_def)
  moreover have "set (ring_others (self_pve self) (view_order self)) \<subseteq> set (view_order self)"
    by (rule ring_others_subset)
  moreover have "down_pve self = ring_down (self_pve self) (view_order self)"
    using ok by (simp add: pv_ok_def)
  ultimately show ?thesis
    unfolding ring_others_map [OF ok_inj(1) [OF ok] s]
    by (cases "ring_others (self_pve self) (view_order self)" rule: rev_cases) (auto simp: ring_down_def)
qed

text \<open>
  C17: Rendezvous with the same view form a ring: where two peers have the same identifiers in
  their orders, themselves included, the up peer of the first is the second exactly if the down
  peer of the second is the first.
\<close>

theorem peerview_ring_symmetric:
  assumes "pv_reachable A" "pv_reachable B"
    and same: "map (pid_text A) (view_order A) = map (pid_text B) (view_order B)"
    and "self_pve A \<in> set (view_order A)" "self_pve B \<in> set (view_order B)"
  shows "up_pve A \<noteq> NULL \<and> pid_text A (up_pve A) = pid_text B (self_pve B) \<longleftrightarrow>
    down_pve B \<noteq> NULL \<and> pid_text B (down_pve B) = pid_text A (self_pve A)"
  using up_text [OF reachable_ok [OF assms(1)] assms(4)] down_text [OF reachable_ok [OF assms(2)] assms(5)]
    ring_next [OF ok_inj(2) [OF reachable_ok [OF assms(2)]]] by (simp add: same)

text \<open>
  C18: The entry of a peer whose time is over leaves the order, but not the table: whatever happens
  after that, messages of the peer included, the view never has the peer again.
\<close>

theorem expired_peer_stays_out:
  assumes "pv_reachable self" "p \<in> set (view_order self)" "jxta_peer_get_expires (pve_at self p) < now"
    and "pv_step\<^sup>*\<^sup>* (remove_expired_PVEs now self) self'"
  shows "local_view self' (pid_text self p) = Some p \<and> (\<forall>q\<in>set (view_order self'). pid_text self' q \<noteq> pid_text self p)"
proof -
  have ok: "pv_ok self"
    using assms(1) by (rule reachable_ok)
  let ?gone = "remove_expired_PVEs now self"
  have "limbo ?gone (pid_text self p) p"
    using ok_texts(1) [OF ok assms(2)] assms(3) by (simp add: limbo_def remove_expired_PVEs_def Let_def)
  moreover have "pv_ok ?gone" "pv_safe ?gone self'"
    using expire_safe [of self now] ok steps_safe [OF assms(4)] by (simp_all add: pv_safe_def)
  ultimately have "limbo self' (pid_text self p) p" "pv_ok self'"
    by (auto simp: pv_safe_def)
  then show ?thesis
    using ok_texts(1) by (fastforce simp: limbo_def)
qed


subsection \<open>The exchange of a probe\<close>

lemma element_names_differ:
  "distinct [JXTA_PEERVIEW_EDGE_ELEMENT_NAME, JXTA_PEERVIEW_CACHED_ELEMENT_NAME, JXTA_PEERVIEW_FAILURE_ELEMENT_NAME,
     JXTA_PEERVIEW_RDVADV_ELEMENT_NAME, JXTA_PEERVIEW_RDVRESP_ELEMENT_NAME]"
  by (simp add: pv_names)

lemma message_flags:
  "has_element (pv_message doc response edge cached failure) JXTA_PEERVIEW_EDGE_ELEMENT_NAME = edge"
  "has_element (pv_message doc response edge cached failure) JXTA_PEERVIEW_CACHED_ELEMENT_NAME = cached"
  "has_element (pv_message doc response edge cached failure) JXTA_PEERVIEW_FAILURE_ELEMENT_NAME = failure"
  "has_element (pv_message doc response edge cached failure) JXTA_PEERVIEW_RDVADV_ELEMENT_NAME = (\<not> response)"
  "jxta_message_get_element_2 (pv_message doc response edge cached failure) JXTA_RDV_NS_NAME
     (if response then JXTA_PEERVIEW_RDVRESP_ELEMENT_NAME else JXTA_PEERVIEW_RDVADV_ELEMENT_NAME) =
     (JXTA_SUCCESS, Some (Element JXTA_RDV_NS_NAME
       (if response then JXTA_PEERVIEW_RDVRESP_ELEMENT_NAME else JXTA_PEERVIEW_RDVADV_ELEMENT_NAME) (Some (str ''text/xml'')) doc None))"
  using element_names_differ element_names_differ [THEN distinct_rev [THEN iffD2], unfolded rev.simps append.simps]
  by (simp_all add: has_element_def jxta_message_get_element_2_def pv_message_def flag_element_def)

lemma listener_message:
  assumes "parse_rdva E doc = Some r" "listener_busy self \<noteq> 0"
  shows "peerview_listener E self (pv_message doc response edge cached failure) =
    map_option snd (process_peerview_message E self r edge response failure cached)"
  using assms unfolding peerview_listener_def Let_def message_flags not_not by (simp add: message_flags jxta_message_element_get_value_def)

definition in_view :: "peerview \<Rightarrow> jxta_id \<Rightarrow> rdv_adv \<Rightarrow> int \<Rightarrow> bool" where
  "in_view self i r t \<longleftrightarrow>
     (\<exists>p\<in>set (view_order self). pid_of self p = Some i \<and> pve_rdva (pve_at self p) = Some r \<and> peer_expires (pve_at self p) = t)"

text \<open>The address of the peerview service of a peer, and a running peer whose advertisement is current.\<close>

definition peerview_address :: "peerview \<Rightarrow> jxta_id \<Rightarrow> endpoint_address" where
  "peerview_address self i =
     \<lparr>protocol_name = str ''jxta'', protocol_address = the (snd (jxta_id_get_uniqueportion (Some i))),
      service_name = Some JXTA_PEERVIEW_NAME, service_params = Some (pv_gid self)\<rparr>"

definition active :: "pv_env \<Rightarrow> peerview \<Rightarrow> jxta_id \<Rightarrow> rdv_adv \<Rightarrow> bool" where
  "active E self i r \<longleftrightarrow>
     pid_of self (self_pve self) = Some i \<and> pve_rdva (pve_at self (self_pve self)) = Some r \<and> ra_peer r = Some i \<and>
     pv_now E - last_refresh (pve_at self (self_pve self)) \<le> rdva_refresh self \<and> pv_running self \<and> listener_busy self \<noteq> 0"

lemma send_own:
  assumes "pve_rdva (pve_at self (self_pve self)) = Some r" "pv_running self"
    and "pv_now E - last_refresh (pve_at self (self_pve self)) \<le> rdva_refresh self"
  shows "jxta_peerview_send_pvm E self (self_pve self) (Some d) response failure =
    Some (endpoint_send E (length (pv_log self)),
          log_action (Send (pv_message (print_rdva E r) response False False failure) (pv_dest self d)) self)"
  using assms by (simp add: jxta_peerview_send_pvm_def refresh_rdva_def Let_def)

text \<open>A message of a rendezvous that is not known, no edge peer and no referral.\<close>

lemma unknown_heard:
  assumes ok: "pv_ok self" and i: "ra_peer r = Some i" "peer_id i" "local_view self (idtext i) = None"
  shows "\<exists>self'. process_peerview_message E self r False response False False = Some (JXTA_SUCCESS, self') \<and>
    pv_safe self self' \<and> in_view self' i r (pv_now E + pve_expires self) \<and>
    (\<exists>p. pid_of self' p = Some i \<and> set (view_order self') = insert p (set (view_order self))) \<and>
    (\<forall>a rb. active E self a rb \<and> \<not> response \<and> have_rdv E \<and> is_rendezvous E \<longrightarrow>
       Send (pv_message (print_rdva E rb) True False False False) (peerview_address self i)
         \<in> set (drop (length (pv_log self)) (pv_log self')))"
proof -
  let ?pub = "publish_rdva E r (\<not> have_rdv E \<or> \<not> is_rendezvous E) self"
  obtain p s1 s3 s4 d where g: "jxta_peerview_get_pve ?pub i True = Some (JXTA_SUCCESS, p, s1)"
      "pv_safe self s1" "pve_known s1 p" "pid_of s1 p = Some i" "peer_address (pve_at s1 p) = Some d"
      "answer_peer E (\<not> response \<and> have_rdv E \<and> is_rendezvous E \<and> pv_running s1) (self_pve s1) (Some d) True
         (heard_from E r p s1) = Some s3" "quiet (heard_from E r p s1) s3" "quiet s3 s4"
      "process_peerview_message E self r False response False False = Some (JXTA_SUCCESS, s4)"
    using process_shape [OF ok i(1,2), of E False False response] by auto
  have pub: "quiet self ?pub"
    by simp
  then have lv: "local_view ?pub (idtext i) = None" "pv_ok ?pub" "next_pve ?pub = next_pve self" "self_pve ?pub = self_pve self"
    using i(3) quiet_safe [OF pub] ok by (auto simp: quiet_def pv_same_def pv_safe_def)
  note frame = get_pve_frame [OF g(1) lv(1)]
  have "self_pve self < next_pve self"
    using ok by (simp add: pv_ok_def pve_known_def)
  then have own: "pve_at s1 (self_pve s1) = pve_at ?pub (self_pve self)" "self_pve s1 = self_pve self" "p \<noteq> self_pve s1"
    using frame(1,3,4) lv(3,4) by auto
  have "view_order ?pub = view_order self"
    using pub by (simp add: quiet_def pv_same_def)
  then have order: "set (view_order s1) = insert p (set (view_order self))"
    using get_pve_safe [OF lv(2) i(2), of True] g(1) lv(1) by auto
  have q: "quiet (heard_from E r p s1) s4"
    using quiet_trans [OF g(7,8)] .
  then have "pve_at s4 p = pve_at (heard_from E r p s1) p" "view_order s4 = view_order s1"
    using own(3) by (auto simp: quiet_def pv_same_def heard_from_def)
  then have "in_view s4 i r (pv_now E + pve_expires s1)" "pid_of s4 p = Some i"
      "set (view_order s4) = insert p (set (view_order self))"
    using q g(4) order unfolding in_view_def by (auto simp: quiet_def pv_same_def heard_from_def pid_of_def jxta_peer_get_peerid_priv_def)
  moreover have "pv_safe self s4"
    using safe_trans [OF g(2) safe_trans [OF same_safe [OF heard_same] quiet_safe [OF q]]] .
  moreover have set1: "pv_settings s1 = pv_settings self"
    using frame(2) pub by (simp add: quiet_def)
  moreover have "Send (pv_message (print_rdva E rb) True False False False) (peerview_address self i)
      \<in> set (drop (length (pv_log self)) (pv_log s4))"
    if act: "active E self a rb" "\<not> response" "have_rdv E" "is_rendezvous E" for a rb
  proof -
    have "?pub = self \<or> (\<exists>l. ?pub = self\<lparr>pv_log := l\<rparr>)"
      by (auto simp: publish_rdva_def log_action_def Let_def split: option.split)
    then have "pve_at ?pub = pve_at self"
      by auto
    then have "pve_at (heard_from E r p s1) (self_pve s1) = pve_at self (self_pve self)"
      using own by (simp add: heard_from_def)
    moreover have same: "self_pve (heard_from E r p s1) = self_pve s1" "pv_running (heard_from E r p s1)" "pv_running s1"
        "rdva_refresh (heard_from E r p s1) = rdva_refresh self" "pv_log (heard_from E r p s1) = pv_log s1"
        "pv_gid (heard_from E r p s1) = pv_gid self"
      using set1 act(1) by (auto simp: heard_from_def pv_settings_def active_def)
    ultimately have "jxta_peerview_send_pvm E (heard_from E r p s1) (self_pve s1) (Some d) True False =
        Some (endpoint_send E (length (pv_log s1)),
          log_action (Send (pv_message (print_rdva E rb) True False False False) (pv_dest (heard_from E r p s1) d)) (heard_from E r p s1))"
      using send_own [of "heard_from E r p s1" rb E d True False] act(1) own(2) by (simp add: active_def)
    then have s3: "pv_log s3 = pv_log s1 @ [Send (pv_message (print_rdva E rb) True False False False) (pv_dest (heard_from E r p s1) d)]"
      using g(6) act same by (auto simp: answer_peer_def log_action_def)
    obtain u where "snd (jxta_id_get_uniqueportion (Some i)) = Some u"
      using uniqueportion [OF i(2)] by blast
    then have "pv_dest (heard_from E r p s1) d = peerview_address self i"
      using frame(6) g(5) same(6) by (auto simp: pv_dest_def peerview_address_def jxta_endpoint_address_new_2_def)
    moreover obtain l1 l2 l3 where "pv_log ?pub = pv_log self @ l1" "pv_log s1 = pv_log ?pub @ l2" "pv_log s4 = pv_log s3 @ l3"
      using pub frame(5) g(8) by (auto simp: quiet_def)
    ultimately show ?thesis
      using s3 by simp
  qed
  ultimately show ?thesis
    using g(9) by (auto simp: pv_settings_def)
qed

text \<open>
  C19: A running peer probes a running rendezvous that does not know it: the rendezvous takes it
  into its view until the time of expiry and answers with its own advertisement; with this
  answer the peer takes the rendezvous into its view, if it did not know it.
\<close>

theorem probe_exchange:
  assumes A: "pv_reachable A" "active EA A a ra" "local_view A (idtext b) = None" "parse_rdva EA (print_rdva EB rb) = Some rb"
    and B: "pv_reachable B" "active EB B b rb" "local_view B (idtext a) = None" "parse_rdva EB (print_rdva EA ra) = Some ra"
    and "have_rdv EB" "is_rendezvous EB"
  shows "\<exists>st A1 B1 A2 probe answer.
    jxta_peerview_send_rdv_probe EA A (Some dest) = Some (st, A1) \<and> pv_log A1 = pv_log A @ [Send probe (pv_dest A dest)] \<and>
    peerview_listener EB B probe = Some B1 \<and> in_view B1 a ra (pv_now EB + pve_expires B) \<and>
    Send answer (peerview_address B a) \<in> set (drop (length (pv_log B)) (pv_log B1)) \<and>
    peerview_listener EA A1 answer = Some A2 \<and> in_view A2 b rb (pv_now EA + pve_expires A)"
proof -
  let ?probe = "pv_message (print_rdva EA ra) False False False False"
  let ?answer = "pv_message (print_rdva EB rb) True False False False"
  obtain st A1 where A1: "jxta_peerview_send_rdv_probe EA A (Some dest) = Some (st, A1)"
      "A1 = log_action (Send ?probe (pv_dest A dest)) A"
    using send_own [of A ra EA dest False False] A(2) by (auto simp: active_def jxta_peerview_send_rdv_probe_def)
  have ids: "peer_id a" "peer_id b" "ra_peer ra = Some a" "ra_peer rb = Some b" "listener_busy A \<noteq> 0" "listener_busy B \<noteq> 0"
    using A(2) B(2) reachable_ok [OF A(1)] reachable_ok [OF B(1)] by (auto simp: active_def pv_ok_def pve_known_def)
  obtain B1 where B1: "process_peerview_message EB B ra False False False False = Some (JXTA_SUCCESS, B1)"
      "in_view B1 a ra (pv_now EB + pve_expires B)"
      "Send ?answer (peerview_address B a) \<in> set (drop (length (pv_log B)) (pv_log B1))"
    using unknown_heard [OF reachable_ok [OF B(1)] ids(3,1) B(3), of EB False] B(2) assms(9,10) by blast
  have "pv_ok A1" "local_view A1 (idtext b) = None"
    using reachable_ok [OF A(1)] quiet_safe [OF quiet_log] A(3) A1(2) by (auto simp: pv_safe_def log_action_def)
  then obtain A2 where A2: "process_peerview_message EA A1 rb False True False False = Some (JXTA_SUCCESS, A2)"
      "in_view A2 b rb (pv_now EA + pve_expires A1)"
    using unknown_heard [OF _ ids(4,2), of A1 EA True] by blast
  have "peerview_listener EB B ?probe = Some B1" "peerview_listener EA A1 ?answer = Some A2"
    using listener_message [OF B(4) ids(6)] listener_message [OF A(4), of A1] ids(5) B1(1) A2(1) A1(2) by (simp_all add: log_action_def)
  then show ?thesis
    using A1 B1(2,3) A2(2) by (intro exI [of _ st] exI [of _ A1] exI [of _ B1] exI [of _ A2] exI [of _ ?probe] exI [of _ ?answer])
      (auto simp: log_action_def)
qed

text \<open>The two samples: they do not know each other, and their advertisements are current.\<close>

lemma sample_texts: "idtext (sample_peer 1) \<noteq> idtext (sample_peer 2)"
  using idtext_inj [OF sample_peer_id] by (auto simp: sample_peer_def)

lemma sample_active: "b = 1 \<or> b = 2 \<Longrightarrow> active (sample_pv_env b) (sample_pv b) (sample_peer b) (sample_rdva b)"
  by (auto simp: active_def sample_pv_eq pid_of_def own_pve_def sample_pv_env_def sample_rdva_def jxta_peer_get_peerid_priv_def
      peerview_construct_def RDVA_REFRESH_INTERVAL_def JPR_INTERVAL_ONE_SECOND_def)

lemma sample_print:
  "parse_rdva (sample_pv_env c) (print_rdva (sample_pv_env d) (sample_rdva 1)) = Some (sample_rdva 1)"
  "parse_rdva (sample_pv_env c) (print_rdva (sample_pv_env d) (sample_rdva 2)) = Some (sample_rdva 2)"
  using sample_texts by (auto simp: sample_pv_env_def sample_rdva_def)

theorem probe_exchange_witness:
  "\<exists>st A1 B1 A2 probe answer.
    jxta_peerview_send_rdv_probe (sample_pv_env 1) (sample_pv 1) (Some (peerview_address (sample_pv 1) (sample_peer 2))) = Some (st, A1) \<and>
    peerview_listener (sample_pv_env 2) (sample_pv 2) probe = Some B1 \<and> in_view B1 (sample_peer 1) (sample_rdva 1) 1201000 \<and>
    peerview_listener (sample_pv_env 1) A1 answer = Some A2 \<and> in_view A2 (sample_peer 2) (sample_rdva 2) 1201000"
proof -
  have "local_view (sample_pv 1) (idtext (sample_peer 2)) = None" "local_view (sample_pv 2) (idtext (sample_peer 1)) = None"
    using sample_texts by (auto simp: sample_pv_eq)
  moreover have "pv_now (sample_pv_env b) + pve_expires (sample_pv c) = 1201000" "have_rdv (sample_pv_env b)"
      "is_rendezvous (sample_pv_env b)" for b c
    by (simp_all add: sample_pv_env_def sample_pv_eq peerview_construct_def JXTA_PEERVIEW_PVE_EXPIRIRATION_def JPR_INTERVAL_ONE_SECOND_def)
  ultimately show ?thesis
    using probe_exchange [OF sample_reachable sample_active _ sample_print(2) sample_reachable sample_active _ sample_print(1)] by fastforce
qed


text \<open>Each sample after a message of the other one.\<close>

lemma sample_heard:
  assumes bc: "(b = 1 \<and> c = 2) \<or> (b = 2 \<and> c = 1)"
  shows "\<exists>A p. pv_reachable A \<and> self_pve A \<in> set (view_order A) \<and> pid_text A (self_pve A) = idtext (sample_peer b) \<and>
    set (view_order A) = {self_pve A, p} \<and> pid_text A p = idtext (sample_peer c) \<and> peer_expires (pve_at A p) = 1201000"
proof -
  let ?E = "sample_pv_env b" and ?self = "sample_pv b"
  have ids: "ra_peer (sample_rdva c) = Some (sample_peer c)" "peer_id (sample_peer c)" "local_view ?self (idtext (sample_peer c)) = None"
    using bc sample_peer_id sample_texts by (auto simp: sample_rdva_def sample_pv_eq)
  have reach: "pv_reachable ?self"
    using bc sample_reachable by blast
  obtain A q where A: "process_peerview_message ?E ?self (sample_rdva c) False True False False = Some (JXTA_SUCCESS, A)"
      "pv_safe ?self A" "in_view A (sample_peer c) (sample_rdva c) (pv_now ?E + pve_expires ?self)"
      "pid_of A q = Some (sample_peer c)" "set (view_order A) = insert q (set (view_order ?self))"
    using unknown_heard [OF reachable_ok [OF reach] ids, of ?E True] by blast
  have "peerview_listener ?E ?self (pv_message (print_rdva ?E (sample_rdva c)) True False False False) = Some A"
    using listener_message [of ?E _ "sample_rdva c" ?self] sample_print bc A(1) sample_active [of b] by (auto simp: active_def)
  then have "pv_step ?self A"
    using sample_pv_law(1) step_message by blast
  then have "pv_reachable A"
    using reach reach_step by blast
  have one: "view_order ?self = [1]" "self_pve ?self = 1" "next_pve ?self = 2" "pid_text ?self 1 = idtext (sample_peer b)"
    by (simp_all add: sample_pv_eq pid_text_def pid_of_def own_pve_def jxta_peer_get_peerid_priv_def)
  have ext: "self_pve A = 1" "pid_text A 1 = idtext (sample_peer b)"
    using A(2) reachable_ok [OF reach] pid_text_ext [of ?self A 1] one by (auto simp: pv_safe_def pv_ext_def)
  obtain p where p: "p \<in> set (view_order A)" "pid_of A p = Some (sample_peer c)" "peer_expires (pve_at A p) = 1201000"
    using A(3) by (auto simp: in_view_def sample_pv_env_def sample_pv_eq peerview_construct_def
        JXTA_PEERVIEW_PVE_EXPIRIRATION_def JPR_INTERVAL_ONE_SECOND_def)
  have "p = q"
    using p(1,2) A(5) one(1) ext(2) bc sample_texts by (auto simp: pid_text_def)
  then show ?thesis
    using \<open>pv_reachable A\<close> ext p A(5) one(1) by (intro exI [of _ A] exI [of _ p]) (auto simp: pid_text_def)
qed

lemma ring_of_two:
  assumes "distinct v" "set v = {a, b}" "a \<noteq> b"
  shows "ring_others a v = [b]"
proof -
  obtain l r where v: "v = l @ a # r" "a \<notin> set l"
    using split_list_first [of a v] assms(2) by auto
  then have "distinct (r @ l)" "set (r @ l) = {b}"
    using assms by auto
  then have "r @ l = [b]"
    by (metis distinct.simps(2) insert_not_empty list.set(1) list.set(2) neq_Nil_conv set_empty singleton_iff
        empty_iff insert_iff list.set_intros(1))
  then show ?thesis
    using v by (simp add: ring_others_split)
qed

theorem peerview_ring_symmetric_witness:
  "\<exists>A B. pid_text A (self_pve A) = idtext (sample_peer 1) \<and> pid_text B (self_pve B) = idtext (sample_peer 2) \<and>
    up_pve A \<noteq> NULL \<and> pid_text A (up_pve A) = idtext (sample_peer 2) \<and>
    down_pve B \<noteq> NULL \<and> pid_text B (down_pve B) = idtext (sample_peer 1)"
proof -
  obtain A p where A: "pv_reachable A" "self_pve A \<in> set (view_order A)" "pid_text A (self_pve A) = idtext (sample_peer 1)"
      "set (view_order A) = {self_pve A, p}" "pid_text A p = idtext (sample_peer 2)"
    using sample_heard [of 1 2] by auto
  obtain B q where B: "pv_reachable B" "self_pve B \<in> set (view_order B)" "pid_text B (self_pve B) = idtext (sample_peer 2)"
      "set (view_order B) = {self_pve B, q}" "pid_text B q = idtext (sample_peer 1)"
    using sample_heard [of 2 1] by auto
  have "set (map (pid_text A) (view_order A)) = set (map (pid_text B) (view_order B))"
    using A(3-5) B(3-5) by auto
  then have same: "map (pid_text A) (view_order A) = map (pid_text B) (view_order B)"
    using reachable_ok [OF A(1)] reachable_ok [OF B(1)] unfolding pv_ok_def by (metis strict_sorted_equal)
  have "ring_others (idtext (sample_peer 1)) (map (pid_text A) (view_order A)) = [idtext (sample_peer 2)]"
    using ring_of_two [OF ok_inj(2) [OF reachable_ok [OF A(1)]]] A(3-5) sample_texts by simp
  then have "up_pve A \<noteq> NULL \<and> pid_text A (up_pve A) = idtext (sample_peer 2)"
    using up_text [OF reachable_ok [OF A(1)] A(2)] A(3) by simp
  then show ?thesis
    using peerview_ring_symmetric [OF A(1) B(1) same A(2) B(2)] A(3) B(3) by auto
qed

theorem expired_peer_stays_out_witness:
  "\<exists>self p self'. p \<in> set (view_order self) \<and> pid_text self p = idtext (sample_peer 2) \<and>
    peerview_listener (sample_pv_env 1) (remove_expired_PVEs 1201001 self) (pv_message [2] False False False False) = Some self' \<and>
    local_view self' (idtext (sample_peer 2)) = Some p \<and> (\<forall>q\<in>set (view_order self'). pid_text self' q \<noteq> idtext (sample_peer 2))"
proof -
  obtain self p where self: "pv_reachable self" "set (view_order self) = {self_pve self, p}" "pid_text self p = idtext (sample_peer 2)"
      "peer_expires (pve_at self p) = 1201000"
    using sample_heard [of 1 2] by auto
  let ?gone = "remove_expired_PVEs 1201001 self"
  have "pv_ok ?gone"
    using expire_safe reachable_ok [OF self(1)] by (auto simp: pv_safe_def)
  then obtain self' where l: "peerview_listener (sample_pv_env 1) ?gone (pv_message [2] False False False False) = Some self'"
    using listener_total sample_pv_law by blast
  then have "pv_step\<^sup>*\<^sup>* ?gone self'"
    using sample_pv_law(1) step_message by blast
  then show ?thesis
    using expired_peer_stays_out [OF self(1), of p 1201001 self'] self(2-4) l
    by (intro exI [of _ self] exI [of _ p] exI [of _ self']) (auto simp: jxta_peer_get_expires_def)
qed

end
