(* ===== verification/Endpoint.thy ===== *)
theory Endpoint
  imports Message
begin

section \<open>The endpoint service (src/src/jxta_endpoint_service.c)\<close>

text \<open>
  The endpoint service sends messages over messengers and dispatches the messages that come in
  to the recipients and listeners of services.  A peer that cannot be reached is in the negative
  cache, with a ring of messages to be sent again later.  Groups register a recipient of their
  own, whose callback dispatches again (src/src/jxta\_peergroup.c).

  The tables of APR are maps from texts; messengers, transports, callbacks and listeners are
  pointers.  What they do is in the environment of an operation, with the time, the settings and
  the order in which the negative cache is enumerated.  Messages handed to messengers and to
  recipients are logged.  A result \<open>None\<close> stands for an access to a null pointer, to memory
  outside a block, or for a recursion without end.  Memory is never exhausted here.  Sockets, the
  poll set, events and the route advertisement of the peer are not modelled.
\<close>

subsection \<open>State\<close>

text \<open>A slot of the ring that holds no message is \<open>None\<close>; \<open>rq_tail\<close> is \<open>-1\<close> in an empty ring.\<close>

record nc_entry =
  nc_addr :: ctext
  nc_timeout :: int
  nc_expiration :: int
  rq :: "jxta_message option list option"
  rq_head :: nat
  rq_tail :: int
  rq_capacity :: nat

text \<open>A recipient: the callback of a service, or that of a group.\<close>

datatype recipient = Service_callback ptr | Group_callback

record endpoint =
  ep_started :: bool
  ep_groupid :: ctext
  transport_table :: "ctext \<rightharpoonup> ptr"
  router_transport :: "ptr option"
  messengers :: "ctext \<rightharpoonup> ptr"
  nc_table :: "ctext \<rightharpoonup> nc_entry"
  msg_tasks :: "jxta_message list"
  msg_task_cnt :: u32
  review_cnt :: u32
  cb_table :: "ctext \<rightharpoonup> recipient"
  listener_table :: "ctext \<rightharpoonup> ptr"
  filter_list :: "(ptr \<times> ptr) list option"
  relay_addr :: "ctext option"
  relay_proto :: "ctext option"
  ep_sent :: "(ptr \<times> jxta_message \<times> status) list"
  ep_called :: "(ptr \<times> jxta_message) list"

record ep_env =
  ep_now :: int
  ep_seconds :: int
  ep_alloc :: allocator
  ep_parse :: "ctext \<Rightarrow> apr_uri"
  cfg_nc_timeout_init :: int
  cfg_nc_timeout_max :: int
  cfg_ncrq_size :: nat
  cfg_ncrq_retry :: nat
  ep_jxta_send :: "nat \<Rightarrow> ptr \<Rightarrow> status"
  ep_router_messenger :: "nat \<Rightarrow> endpoint_address \<Rightarrow> ptr option"
  ep_callback :: "ptr \<Rightarrow> status"
  ep_filter :: "ptr \<Rightarrow> ptr \<Rightarrow> jxta_message \<Rightarrow> bool"
  ep_nc_order :: "ctext list"

definition endpoint_init :: "ctext \<Rightarrow> endpoint" where
  "endpoint_init gid =
     \<lparr>ep_started = False, ep_groupid = gid, transport_table = Map.empty, router_transport = None, messengers = Map.empty,
      nc_table = Map.empty, msg_tasks = [], msg_task_cnt = 0, review_cnt = 0, cb_table = Map.empty, listener_table = Map.empty,
      filter_list = Some [], relay_addr = None, relay_proto = None, ep_sent = [], ep_called = []\<rparr>"

text \<open>The text of \<open>jxta_endpoint_address_get_transport_addr\<close>.\<close>

definition transport_addr :: "endpoint_address \<Rightarrow> ctext" where
  "transport_addr a = protocol_name a @ str ''://'' @ protocol_address a"

lemma transport_addr_block:
  assumes "can_alloc A (length (transport_addr a) + 1)"
  shows "jxta_endpoint_address_get_transport_addr A a = Some (Some (transport_addr a @ [0]))"
proof -
  have n: "length (transport_addr a) + 1 = length (protocol_name a) + 3 + length (protocol_address a) + 1"
    by (simp add: transport_addr_def)
  show ?thesis
    using assms unfolding jxta_endpoint_address_get_transport_addr_def Let_def n
    by (simp add: copy_all_ok transport_addr_def del: copy_all.simps)
qed

subsection \<open>Messengers\<close>

text \<open>
  A messenger replaces the one before unless that one is preferred: the text of the old entry is
  that of the new one, so that no messenger is.
\<close>

definition tcp_preferred :: "ctext \<Rightarrow> endpoint_address \<Rightarrow> bool" where
  "tcp_preferred ta ea \<longleftrightarrow> map tolower (take 6 ta) = str ''tcp://'' \<and> map tolower (protocol_name ea) \<noteq> str ''tcp''"

definition messenger_add :: "endpoint \<Rightarrow> endpoint_address \<Rightarrow> ptr \<Rightarrow> endpoint" where
  "messenger_add me ea msgr =
     (let ta = transport_addr ea in
      case messengers me ta of
        Some old \<Rightarrow> (if tcp_preferred ta ea then me else me\<lparr>messengers := (messengers me)(ta \<mapsto> msgr)\<rparr>)
      | None \<Rightarrow> me\<lparr>messengers := (messengers me)(ta \<mapsto> msgr)\<rparr>)"

definition messenger_remove :: "endpoint \<Rightarrow> endpoint_address \<Rightarrow> endpoint" where
  "messenger_remove me ea = me\<lparr>messengers := (messengers me)(transport_addr ea := None)\<rparr>"

text \<open>A message is handed to a messenger.\<close>

definition jxta_send :: "ep_env \<Rightarrow> ptr \<Rightarrow> jxta_message \<Rightarrow> endpoint \<Rightarrow> status \<times> endpoint" where
  "jxta_send E messenger msg me =
     (let st = ep_jxta_send E (length (ep_sent me)) messenger in (st, me\<lparr>ep_sent := ep_sent me @ [(messenger, msg, st)]\<rparr>))"

definition try_existing_messenger ::
  "ep_env \<Rightarrow> endpoint \<Rightarrow> jxta_message \<Rightarrow> endpoint_address \<Rightarrow> status \<times> endpoint" where
  "try_existing_messenger E me msg dest =
     (case messengers me (transport_addr dest) of
        None \<Rightarrow> (JXTA_ITEM_NOTFOUND, me)
      | Some messenger \<Rightarrow>
          (let (res, me) = jxta_send E messenger msg me
           in (res, if res \<noteq> JXTA_SUCCESS then messenger_remove me dest else me)))"

definition message_dest :: "ep_env \<Rightarrow> jxta_message \<Rightarrow> endpoint_address option option" where
  "message_dest E msg = jxta_message_get_destination (ep_alloc E) (ep_parse E) msg"

text \<open>A destination without a service name violates an assertion.\<close>

definition send_message ::
  "ep_env \<Rightarrow> endpoint \<Rightarrow> jxta_message \<Rightarrow> endpoint_address option \<Rightarrow> (status \<times> endpoint) option" where
  "send_message E me msg dest =
     do {
       dest \<leftarrow> (case dest of Some d \<Rightarrow> Some (Some d) | None \<Rightarrow> message_dest E msg);
       (case dest of
          None \<Rightarrow> Some (JXTA_FAILED, me)
        | Some d \<Rightarrow>
            if service_name d = None then None
            else
              (let (res, me) = try_existing_messenger E me msg d in
               if res = JXTA_SUCCESS then Some (JXTA_SUCCESS, me)
               else case ep_router_messenger E (length (ep_sent me)) d of
                 Some messenger \<Rightarrow> Some (jxta_send E messenger msg me)
               | None \<Rightarrow> Some (JXTA_UNREACHABLE_DEST, me))) }"

subsection \<open>The negative cache\<close>

definition nc_add_peer :: "ep_env \<Rightarrow> endpoint \<Rightarrow> ctext \<Rightarrow> jxta_message \<Rightarrow> endpoint" where
  "nc_add_peer E me addr msg =
     (let n = cfg_ncrq_size E;
          e = \<lparr>nc_addr = addr, nc_timeout = cfg_nc_timeout_init E, nc_expiration = ep_now E + cfg_nc_timeout_init E,
               rq = (if n \<noteq> 0 then Some ((replicate n None)[0 := Some msg]) else None),
               rq_head = 0, rq_tail = (if n \<noteq> 0 then 1 else 0), rq_capacity = n\<rparr>
      in me\<lparr>nc_table := (nc_table me)(addr \<mapsto> e)\<rparr>)"

text \<open>The peer leaves the cache; a ring that is not empty violates an assertion.\<close>

definition nc_remove_peer :: "endpoint \<Rightarrow> ctext \<Rightarrow> nc_entry \<Rightarrow> endpoint option" where
  "nc_remove_peer me addr e =
     (if rq e = None \<or> rq_tail e = -1 then Some (me\<lparr>nc_table := (nc_table me)(addr := None)\<rparr>) else None)"

definition nc_peer_drop_retransmit_queue :: "nc_entry \<Rightarrow> nc_entry" where
  "nc_peer_drop_retransmit_queue e =
     (if rq e = None then e
      else e\<lparr>rq_head := (if rq_tail e \<noteq> -1 then nat (rq_tail e) else rq_head e), rq := None\<rparr>)"

text \<open>
  The messages of the ring are sent from its head on until one cannot be sent.  The slot of a
  message that was sent is released, so that the loop ends when it meets it again.
\<close>

lemma release_slot_less:
  assumes "h < length q" "q ! h \<noteq> None"
  shows "length (filter (\<lambda>x. x \<noteq> None) (q[h := None])) < length (filter (\<lambda>x. x \<noteq> None) q)"
proof -
  have q: "q = take h q @ q ! h # drop (Suc h) q"
    using assms(1) by (rule id_take_nth_drop)
  have "q[h := None] = take h q @ None # drop (Suc h) q"
    using assms(1) by (rule upd_conv_take_nth_drop)
  then show ?thesis
    using assms(2) by (subst (2) q) simp
qed

function nc_flush ::
  "ep_env \<Rightarrow> endpoint \<Rightarrow> jxta_message option list \<Rightarrow> nat \<Rightarrow> nat \<Rightarrow> int \<Rightarrow> nat
     \<Rightarrow> (status \<times> jxta_message option list \<times> nat \<times> nat \<times> endpoint) option" where
  "nc_flush E me q cap h t sent =
     (if h < length q
      then case q ! h of
        None \<Rightarrow> None
      | Some msg \<Rightarrow>
          (case send_message E me msg None of
             None \<Rightarrow> None
           | Some (res, me) \<Rightarrow>
               if res \<noteq> JXTA_SUCCESS then Some (res, q, h, sent, me)
               else
                 (let h' = (if h + 1 \<ge> cap then 0 else h + 1) in
                  if int h' = t then Some (res, q[h := None], h', sent + 1, me)
                  else nc_flush E me (q[h := None]) cap h' t (sent + 1)))
      else None)"
  by pat_completeness auto
termination
  by (relation "measure (\<lambda>(E, me, q, cap, h, t, sent). length (filter (\<lambda>x. x \<noteq> None) q))") (auto simp: release_slot_less [unfolded not_None_eq])

declare nc_flush.simps [simp del]

definition nc_peer_process_queue :: "ep_env \<Rightarrow> endpoint \<Rightarrow> nc_entry \<Rightarrow> (status \<times> nc_entry \<times> endpoint) option" where
  "nc_peer_process_queue E me e =
     (if ep_now E < nc_expiration e then Some (JXTA_UNREACHABLE_DEST, e, me)
      else case rq e of
        None \<Rightarrow> Some (JXTA_SUCCESS, e, me)
      | Some q \<Rightarrow>
          if rq_tail e = -1 then Some (JXTA_SUCCESS, e, me)
          else do {
            (res, q, h, sent, me) \<leftarrow> nc_flush E me q (rq_capacity e) (rq_head e) (rq_tail e) 0;
            let e = e\<lparr>rq := Some q, rq_head := h\<rparr>;
            let tmax = cfg_nc_timeout_max E;
            if res = JXTA_SUCCESS then Some (res, e\<lparr>rq_tail := -1\<rparr>, me)
            else if sent = 0 \<and> res = JXTA_UNREACHABLE_DEST
            then
              (let e = (if nc_timeout e \<ge> tmax then (nc_peer_drop_retransmit_queue e)\<lparr>nc_timeout := tmax\<rparr>
                        else e\<lparr>nc_timeout := min (nc_timeout e * 2) tmax\<rparr>)
               in Some (res, e\<lparr>nc_expiration := ep_now E + nc_timeout e\<rparr>, me))
            else Some (res, e, me) })"

text \<open>The newest message takes the place of the oldest in a ring that is full.\<close>

definition nc_store :: "nc_entry \<Rightarrow> jxta_message option list \<Rightarrow> jxta_message \<Rightarrow> nc_entry option" where
  "nc_store e q msg =
     (if int (rq_head e) = rq_tail e
      then
        (if rq_head e < length q
         then Some (e\<lparr>rq := Some (q[rq_head e := Some msg]),
                      rq_head := (if rq_head e + 1 \<ge> rq_capacity e then 0 else rq_head e + 1)\<rparr>)
         else None)
      else
        (let t = (if rq_tail e = -1 then rq_head e else nat (rq_tail e)) in
         if t < length q
         then Some (e\<lparr>rq := Some (q[t := Some msg]), rq_tail := (if t + 1 \<ge> rq_capacity e then 0 else int t + 1)\<rparr>)
         else None))"

definition nc_peer_queue_msg ::
  "ep_env \<Rightarrow> endpoint \<Rightarrow> ctext \<Rightarrow> nc_entry \<Rightarrow> jxta_message \<Rightarrow> (status \<times> endpoint) option" where
  "nc_peer_queue_msg E me addr e msg =
     do {
       (res, e, me) \<leftarrow> nc_peer_process_queue E me e;
       let me = me\<lparr>nc_table := (nc_table me)(addr \<mapsto> e)\<rparr>;
       (online, me) \<leftarrow>
         (if res = JXTA_SUCCESS
          then do { (st, me) \<leftarrow> send_message E me msg None; Some (st \<noteq> JXTA_UNREACHABLE_DEST, me) }
          else Some (False, me));
       (if online then do { me \<leftarrow> nc_remove_peer me addr e; Some (res, me) }
        else case rq e of
          None \<Rightarrow> Some (JXTA_UNREACHABLE_DEST, me)
        | Some q \<Rightarrow>
            do { e \<leftarrow> nc_store e q msg;
                 Some (JXTA_UNREACHABLE_DEST, me\<lparr>nc_table := (nc_table me)(addr \<mapsto> e)\<rparr>) }) }"

fun nc_review :: "ep_env \<Rightarrow> ctext list \<Rightarrow> endpoint \<Rightarrow> endpoint option" where
  "nc_review E [] me = Some me"
| "nc_review E (addr # order) me =
     (case nc_table me addr of
        None \<Rightarrow> nc_review E order me
      | Some e \<Rightarrow>
          do { (res, e, me) \<leftarrow> nc_peer_process_queue E me e;
               let me = me\<lparr>nc_table := (nc_table me)(addr \<mapsto> e)\<rparr>;
               me \<leftarrow> (if res = JXTA_SUCCESS \<and> rq e \<noteq> None then nc_remove_peer me addr e else Some me);
               nc_review E order me })"

definition nc_review_all :: "ep_env \<Rightarrow> endpoint \<Rightarrow> endpoint option" where
  "nc_review_all E me = nc_review E (ep_nc_order E) me"

definition check_nc_entry :: "ep_env \<Rightarrow> endpoint \<Rightarrow> ctext \<Rightarrow> endpoint option" where
  "check_nc_entry E me ta =
     (case nc_table me ta of
        None \<Rightarrow> Some me
      | Some e \<Rightarrow>
          do { (status, e, me) \<leftarrow> nc_peer_process_queue E me (e\<lparr>nc_expiration := 0\<rparr>);
               let me = me\<lparr>nc_table := (nc_table me)(ta \<mapsto> e)\<rparr>;
               (if status = JXTA_SUCCESS then nc_remove_peer me ta e else Some me) })"


subsection \<open>Sending\<close>

text \<open>The transport of the name \<open>jxta\<close> is the router; it is looked up when it is needed.\<close>

definition jxta_endpoint_service_lookup_transport :: "endpoint \<Rightarrow> ctext \<Rightarrow> ptr option" where
  "jxta_endpoint_service_lookup_transport me name = transport_table me name"

text \<open>
  The middle of \<open>outgoing_message_process\<close>: a peer of the negative cache gets the message in its
  queue, and one that cannot be reached comes into the cache.  Then the cache is reviewed, now and
  then or when no task waits.
\<close>

definition send_or_queue :: "ep_env \<Rightarrow> endpoint \<Rightarrow> jxta_message \<Rightarrow> endpoint_address \<Rightarrow> (status \<times> endpoint) option" where
  "send_or_queue E me msg dest =
     (case nc_table me (transport_addr dest) of
        Some e \<Rightarrow> nc_peer_queue_msg E me (transport_addr dest) e msg
      | None \<Rightarrow>
          do { (res, me) \<leftarrow> send_message E me msg (Some dest);
               Some (res, if res = JXTA_UNREACHABLE_DEST then nc_add_peer E me (transport_addr dest) msg else me) })"

definition review_now :: "ep_env \<Rightarrow> endpoint \<Rightarrow> endpoint option" where
  "review_now E me =
     (let cnt = review_cnt me in
      if unat cnt \<ge> cfg_ncrq_retry E \<or> msg_task_cnt me = 0
      then nc_review_all E (me\<lparr>review_cnt := 0\<rparr>) else Some (me\<lparr>review_cnt := cnt + 1\<rparr>))"

definition outgoing_message_process :: "ep_env \<Rightarrow> endpoint \<Rightarrow> jxta_message \<Rightarrow> (status \<times> endpoint) option" where
  "outgoing_message_process E me msg =
     (let me = (if router_transport me = None
                then me\<lparr>router_transport := jxta_endpoint_service_lookup_transport me (str ''jxta'')\<rparr> else me) in
      if router_transport me = None then Some (JXTA_BUSY, me)
      else do {
        ttl \<leftarrow> jxta_message_get_ttl msg;
        lifespan \<leftarrow> jxta_message_get_lifespan msg;
        if fst ttl = JXTA_SUCCESS \<and> snd ttl = Some 0 then Some (JXTA_SUCCESS, me)
        else if fst lifespan = JXTA_SUCCESS \<and> (case snd lifespan of None \<Rightarrow> False | Some l \<Rightarrow> ep_seconds E \<ge> l)
        then Some (JXTA_SUCCESS, me)
        else do {
          dest \<leftarrow> message_dest E msg;
          (case dest of
             None \<Rightarrow> Some (JXTA_ITEM_NOTFOUND, me)
           | Some d \<Rightarrow>
               if service_name d = None then None
               else do { (res, me) \<leftarrow> send_or_queue E me msg d; me \<leftarrow> review_now E me; Some (res, me) }) } })"

text \<open>
  The message gets its destination; asynchronously a copy waits for a thread, and the status
  tells whether the peer is in the negative cache.  The result has the message that was changed.
\<close>

definition jxta_endpoint_service_send_ex ::
  "ep_env \<Rightarrow> endpoint \<Rightarrow> jxta_message \<Rightarrow> endpoint_address \<Rightarrow> bool \<Rightarrow> (status \<times> jxta_message \<times> endpoint) option" where
  "jxta_endpoint_service_send_ex E me msg dest_addr sync =
     (if service_name dest_addr = None then Some (JXTA_INVALID_ARGUMENT, msg, me)
      else do {
        (_, msg) \<leftarrow> jxta_message_set_destination (ep_alloc E) msg dest_addr;
        if sync
        then do { (res, me) \<leftarrow> outgoing_message_process E me msg; Some (res, msg, me) }
        else
          (let me = me\<lparr>msg_tasks := msg_tasks me @ [msg], msg_task_cnt := msg_task_cnt me + 1\<rparr>
           in Some (if nc_table me (transport_addr dest_addr) = None then JXTA_SUCCESS else JXTA_UNREACHABLE_DEST, msg, me)) })"

text \<open>
  A thread of the pool takes one of the tasks.  A service that has been stopped leaves the task,
  whose place in the pool is lost.
\<close>

definition outgoing_message_thread :: "ep_env \<Rightarrow> nat \<Rightarrow> endpoint \<Rightarrow> endpoint option" where
  "outgoing_message_thread E i me =
     (let msg = msg_tasks me ! i;
          me = me\<lparr>msg_tasks := take i (msg_tasks me) @ drop (Suc i) (msg_tasks me)\<rparr>
      in if \<not> ep_started me then Some me
         else do { (_, me) \<leftarrow> outgoing_message_process E (me\<lparr>msg_task_cnt := msg_task_cnt me - 1\<rparr>) msg; Some me })"

text \<open>The high byte of the priority of the message, as far as the pool knows it.\<close>

definition task_priority :: "jxta_message \<Rightarrow> int option" where
  "task_priority msg =
     do { (rv, pri) \<leftarrow> jxta_message_get_priority msg;
          (case pri of
             Some p \<Rightarrow> (if rv \<noteq> JXTA_SUCCESS then Some 127 else Some (uint (drop_bit 8 p AND 255)))
           | None \<Rightarrow> Some 127) }"

subsection \<open>Groups and addresses\<close>

definition JXTA_ENDPOINT_SERVICE_NAME :: ctext where "JXTA_ENDPOINT_SERVICE_NAME = str ''EndpointService''"

text \<open>\<open>get_service_key\<close> of src/src/jxta\_util\_priv.c, and \<open>None\<close> for a null pointer.\<close>

definition get_service_key :: "ctext option \<Rightarrow> ctext option \<Rightarrow> ctext option" where
  "get_service_key svc_name svc_param =
     (case svc_name of
        None \<Rightarrow> None
      | Some n \<Rightarrow> Some (case svc_param of None \<Rightarrow> n | Some p \<Rightarrow> n @ str ''/'' @ p))"

text \<open>The name of the recipient of a group; the default net group has a name of its own.\<close>

definition group_ep_name :: "jxta_id \<Rightarrow> ctext" where
  "group_ep_name gid =
     str ''EndpointService:'' @
     (if jxta_id_equals (Some gid) (Some (IdStatic DefaultNetPeerGroupID)) then str ''jxta-NetGroup''
      else case snd (jxta_id_get_uniqueportion (Some gid)) of None \<Rightarrow> [] | Some u \<Rightarrow> u)"

definition jxta_PG_get_recipient_addr ::
  "ctext \<Rightarrow> ctext option \<Rightarrow> ctext option \<Rightarrow> ctext option \<Rightarrow> ctext option \<Rightarrow> status \<times> endpoint_address option" where
  "jxta_PG_get_recipient_addr ep_name proto_name proto_addr name param =
     (let ea = jxta_endpoint_address_new_2 proto_name proto_addr (Some ep_name) (get_service_key name param)
      in (if ea \<noteq> None then JXTA_SUCCESS else JXTA_FAILED, ea))"

definition do_crossgroup_send ::
  "ep_env \<Rightarrow> ctext \<Rightarrow> endpoint \<Rightarrow> jxta_message \<Rightarrow> endpoint_address \<Rightarrow> bool \<Rightarrow> (status \<times> jxta_message \<times> endpoint) option" where
  "do_crossgroup_send E ep_name me msg dest_addr sync =
     do {
       name \<leftarrow> service_name dest_addr;
       if take (length JXTA_ENDPOINT_SERVICE_NAME) name \<noteq> JXTA_ENDPOINT_SERVICE_NAME
       then
         (case jxta_PG_get_recipient_addr ep_name (Some (protocol_name dest_addr)) (Some (protocol_address dest_addr))
                 (Some name) (service_params dest_addr) of
            (res, Some new_addr) \<Rightarrow> jxta_endpoint_service_send_ex E me msg new_addr sync
          | (res, None) \<Rightarrow> Some (JXTA_FAILED, msg, me))
       else jxta_endpoint_service_send_ex E me msg dest_addr sync }"

definition jxta_endpoint_service_send_sync ::
  "ep_env \<Rightarrow> ctext \<Rightarrow> endpoint \<Rightarrow> jxta_message \<Rightarrow> endpoint_address \<Rightarrow> (status \<times> jxta_message \<times> endpoint) option" where
  "jxta_endpoint_service_send_sync E ep_name me msg dest_addr = do_crossgroup_send E ep_name me msg dest_addr True"

definition jxta_endpoint_service_send_async ::
  "ep_env \<Rightarrow> ctext \<Rightarrow> endpoint \<Rightarrow> jxta_message \<Rightarrow> endpoint_address \<Rightarrow> (status \<times> jxta_message \<times> endpoint) option" where
  "jxta_endpoint_service_send_async E ep_name me msg dest_addr = do_crossgroup_send E ep_name me msg dest_addr False"

text \<open>A send to a service of the group at a peer; a peer without an identifier text has no address.\<close>

definition jxta_PG_sync_send ::
  "ep_env \<Rightarrow> ctext \<Rightarrow> endpoint \<Rightarrow> jxta_message \<Rightarrow> jxta_id \<Rightarrow> ctext option \<Rightarrow> ctext option \<Rightarrow> (status \<times> jxta_message \<times> endpoint) option" where
  "jxta_PG_sync_send E ep_name me msg peer_id svc_name svc_param =
     do { dest \<leftarrow> jxta_endpoint_address_new_3 peer_id (Some ep_name) (get_service_key svc_name svc_param);
          jxta_endpoint_service_send_ex E me msg dest True }"

definition jxta_PG_async_send ::
  "ep_env \<Rightarrow> ctext \<Rightarrow> endpoint \<Rightarrow> jxta_message \<Rightarrow> jxta_id \<Rightarrow> ctext option \<Rightarrow> ctext option \<Rightarrow> (status \<times> jxta_message \<times> endpoint) option" where
  "jxta_PG_async_send E ep_name me msg peer_id svc_name svc_param =
     do { dest \<leftarrow> jxta_endpoint_address_new_3 peer_id (Some ep_name) (get_service_key svc_name svc_param);
          jxta_endpoint_service_send_ex E me msg dest False }"


subsection \<open>Dispatch\<close>

text \<open>
  \<open>peergroup_ep_callback\<close> splits the parameter of the service at its first slash.
\<close>

definition split_param :: "ctext \<Rightarrow> ctext \<times> ctext option" where
  "split_param t = (takeWhile (\<lambda>c. c \<noteq> 47) t, if 47 \<in> set t then Some (tl (dropWhile (\<lambda>c. c \<noteq> 47) t)) else None)"

text \<open>
  The recipient of the service with its parameter, or that of the service alone.  The callback of
  a group dispatches again; the number bounds this recursion.
\<close>

fun endpoint_service_demux ::
  "nat \<Rightarrow> ep_env \<Rightarrow> endpoint \<Rightarrow> ctext option \<Rightarrow> ctext option \<Rightarrow> jxta_message \<Rightarrow> (status \<times> endpoint) option" where
  "endpoint_service_demux 0 E me name param msg = None"
| "endpoint_service_demux (Suc depth) E me name param msg =
     do {
       n \<leftarrow> name;
       k \<leftarrow> get_service_key name param;
       let cb = (case cb_table me k of Some cb \<Rightarrow> Some cb | None \<Rightarrow> (if param \<noteq> None then cb_table me n else None));
       (case cb of
          None \<Rightarrow> Some (JXTA_ITEM_NOTFOUND, me)
        | Some (Service_callback f) \<Rightarrow> Some (ep_callback E f, me\<lparr>ep_called := ep_called me @ [(f, msg)]\<rparr>)
        | Some Group_callback \<Rightarrow>
            do { dest \<leftarrow> message_dest E msg;
                 d \<leftarrow> dest;
                 t \<leftarrow> service_params d;
                 endpoint_service_demux depth E me (Some (fst (split_param t))) (snd (split_param t)) msg }) }"

text \<open>
  \<open>lookup_listener\<close>: the listener of the name with its parameter behind it; then that of the
  parameter without its slashes; then that of a text which the code means to be the parameter up
  to its last slash: one byte less is copied over the text before.  The outer \<open>None\<close> is the access
  to a null parameter.
\<close>

fun last_slash :: "ctext \<Rightarrow> nat \<Rightarrow> nat \<Rightarrow> nat" where
  "last_slash [] i pt = pt"
| "last_slash (c # cs) i pt = last_slash cs (i + 1) (if c = 47 then i else pt)"

definition relay_name :: "ctext \<Rightarrow> ctext \<Rightarrow> nat \<Rightarrow> ctext" where
  "relay_name params str1 pt = take (pt - 1) params @ take 1 (drop (pt - 1) str1)"

definition lookup_listener :: "endpoint \<Rightarrow> endpoint_address \<Rightarrow> ptr option option" where
  "lookup_listener service addr =
     (case service_name addr of
        None \<Rightarrow> Some None
      | Some n \<Rightarrow>
          (case listener_table service (n @ (case service_params addr of None \<Rightarrow> [] | Some p \<Rightarrow> p)) of
             Some l \<Rightarrow> Some (Some l)
           | None \<Rightarrow>
               do { params \<leftarrow> service_params addr;
                    let str1 = filter (\<lambda>c. c \<noteq> 47) params;
                    let pt = last_slash params 0 0;
                    (case listener_table service str1 of
                       Some l \<Rightarrow> Some (Some l)
                     | None \<Rightarrow>
                         Some (if pt \<noteq> 0 then listener_table service (relay_name params str1 pt) else None)) }))"

text \<open>
  Filters run on every message, since \<open>jxta_message_get_elements_of_namespace\<close> gives a vector
  for every name.  The name of a filter is not set when it is added; what reading this pointer does
  is not modelled.  \<open>None\<close> is a list whose head was deleted.
\<close>

fun run_filters :: "ep_env \<Rightarrow> jxta_message \<Rightarrow> (ptr \<times> ptr) list \<Rightarrow> bool" where
  "run_filters E msg [] = True"
| "run_filters E msg ((f, arg) # fs) = (if \<not> ep_filter E f arg msg then False else run_filters E msg fs)"

definition jxta_endpoint_service_demux_addr ::
  "nat \<Rightarrow> ep_env \<Rightarrow> endpoint \<Rightarrow> endpoint_address option \<Rightarrow> jxta_message \<Rightarrow> endpoint option" where
  "jxta_endpoint_service_demux_addr depth E service dest msg =
     (if \<not> ep_started service then Some service
      else case dest of
        None \<Rightarrow> Some service
      | Some d \<Rightarrow>
          do {
            filters \<leftarrow> filter_list service;
            if \<not> run_filters E msg filters then Some service
            else do {
              (st, service) \<leftarrow> endpoint_service_demux depth E service (service_name d) (service_params d) msg;
              if st \<noteq> JXTA_ITEM_NOTFOUND then Some service
              else do {
                listener \<leftarrow> lookup_listener service d;
                Some (case listener of
                        None \<Rightarrow> service
                      | Some l \<Rightarrow> service\<lparr>ep_called := ep_called service @ [(l, msg)]\<rparr>) } } })"

definition jxta_endpoint_service_demux :: "nat \<Rightarrow> ep_env \<Rightarrow> endpoint \<Rightarrow> jxta_message \<Rightarrow> endpoint option" where
  "jxta_endpoint_service_demux depth E service msg =
     do { dest \<leftarrow> message_dest E msg;
          (case dest of
             None \<Rightarrow> Some service
           | Some d \<Rightarrow> jxta_endpoint_service_demux_addr depth E service (Some d) msg) }"

text \<open>A filter is removed by its function; without one of this function the head of the list is deleted.\<close>

definition jxta_endpoint_service_add_filter :: "endpoint \<Rightarrow> ptr \<Rightarrow> ptr \<Rightarrow> endpoint option" where
  "jxta_endpoint_service_add_filter service f arg =
     do { fs \<leftarrow> filter_list service; Some (service\<lparr>filter_list := Some (fs @ [(f, arg)])\<rparr>) }"

definition jxta_endpoint_service_remove_filter :: "endpoint \<Rightarrow> ptr \<Rightarrow> endpoint option" where
  "jxta_endpoint_service_remove_filter service f =
     do { fs \<leftarrow> filter_list service;
          Some (service\<lparr>filter_list :=
            (if f \<in> set (map fst fs)
             then Some (takeWhile (\<lambda>x. fst x \<noteq> f) fs @ tl (dropWhile (\<lambda>x. fst x \<noteq> f) fs)) else None)\<rparr>) }"

subsection \<open>Recipients and listeners\<close>

text \<open>The cookie of a recipient is its key; a null name has none and is not looked up.\<close>

definition endpoint_service_add_recipient ::
  "endpoint \<Rightarrow> ctext option \<Rightarrow> ctext option \<Rightarrow> recipient \<Rightarrow> (status \<times> ctext option \<times> endpoint) option" where
  "endpoint_service_add_recipient me name param f =
     do { k \<leftarrow> get_service_key name param;
          (case cb_table me k of
             Some _ \<Rightarrow> Some (JXTA_BUSY, None, me)
           | None \<Rightarrow> Some (JXTA_SUCCESS, Some k, me\<lparr>cb_table := (cb_table me)(k \<mapsto> f)\<rparr>)) }"

definition endpoint_service_remove_recipient :: "endpoint \<Rightarrow> ctext \<Rightarrow> status \<times> endpoint" where
  "endpoint_service_remove_recipient me cookie =
     (case cb_table me cookie of
        None \<Rightarrow> (JXTA_ITEM_NOTFOUND, me)
      | Some _ \<Rightarrow> (JXTA_SUCCESS, me\<lparr>cb_table := (cb_table me)(cookie := None)\<rparr>))"

definition endpoint_service_remove_recipient_by_addr ::
  "endpoint \<Rightarrow> ctext option \<Rightarrow> ctext option \<Rightarrow> (status \<times> endpoint) option" where
  "endpoint_service_remove_recipient_by_addr me name param =
     do { k \<leftarrow> get_service_key name param; Some (endpoint_service_remove_recipient me k) }"

definition peergroup_start :: "jxta_id \<Rightarrow> endpoint \<Rightarrow> (status \<times> ctext option \<times> endpoint) option" where
  "peergroup_start gid ep = endpoint_service_add_recipient ep (Some (group_ep_name gid)) None Group_callback"

definition peergroup_stop :: "ctext \<Rightarrow> endpoint \<Rightarrow> status \<times> endpoint" where
  "peergroup_stop cookie ep = endpoint_service_remove_recipient ep cookie"

definition jxta_PG_add_recipient ::
  "ctext \<Rightarrow> endpoint \<Rightarrow> ctext option \<Rightarrow> ctext option \<Rightarrow> ptr \<Rightarrow> (status \<times> ctext option \<times> endpoint) option" where
  "jxta_PG_add_recipient ep_name ep name param f =
     endpoint_service_add_recipient ep (Some ep_name) (get_service_key name param) (Service_callback f)"

definition jxta_PG_remove_recipient :: "endpoint \<Rightarrow> ctext \<Rightarrow> status \<times> endpoint" where
  "jxta_PG_remove_recipient ep cookie = endpoint_service_remove_recipient ep cookie"

definition listener_key :: "ctext option \<Rightarrow> ctext option \<Rightarrow> ctext" where
  "listener_key n p = (case n of None \<Rightarrow> [] | Some n \<Rightarrow> n) @ (case p of None \<Rightarrow> [] | Some p \<Rightarrow> p)"

definition jxta_endpoint_service_add_listener ::
  "endpoint \<Rightarrow> ctext option \<Rightarrow> ctext option \<Rightarrow> ptr \<Rightarrow> status \<times> endpoint" where
  "jxta_endpoint_service_add_listener service serviceName serviceParam listener =
     (let str = listener_key serviceName serviceParam in
      if listener_table service str \<noteq> None then (JXTA_BUSY, service)
      else (JXTA_SUCCESS, service\<lparr>listener_table := (listener_table service)(str \<mapsto> listener)\<rparr>))"

text \<open>The name is cut to the 255 characters of the buffer.\<close>

definition jxta_endpoint_service_remove_listener ::
  "endpoint \<Rightarrow> ctext option \<Rightarrow> ctext option \<Rightarrow> status \<times> endpoint" where
  "jxta_endpoint_service_remove_listener service serviceName serviceParam =
     (let str = take 255 (listener_key serviceName serviceParam)
      in (JXTA_SUCCESS, service\<lparr>listener_table := (listener_table service)(str := None)\<rparr>))"

subsection \<open>Transports\<close>

datatype transport_event_type =
  JXTA_TRANSPORT_INBOUND_CONNECTED | JXTA_TRANSPORT_OUTBOUND_CONNECTED | JXTA_TRANSPORT_CONNECTION_CLOSED

record transport_event =
  te_type :: transport_event_type
  te_dest :: endpoint_address
  te_peer :: jxta_id
  te_msgr :: ptr

definition jxta_endpoint_service_transport_event :: "ep_env \<Rightarrow> endpoint \<Rightarrow> transport_event \<Rightarrow> endpoint option" where
  "jxta_endpoint_service_transport_event E me e =
     (let ea = jxta_endpoint_address_new_3 (te_peer e) None None;
          added = (let me = messenger_add me (te_dest e) (te_msgr e)
                   in case ea of None \<Rightarrow> me | Some a \<Rightarrow> messenger_add me a (te_msgr e))
      in case te_type e of
           JXTA_TRANSPORT_INBOUND_CONNECTED \<Rightarrow>
             do { me \<leftarrow> check_nc_entry E added (transport_addr (te_dest e));
                  (case ea of None \<Rightarrow> Some me | Some a \<Rightarrow> check_nc_entry E me (transport_addr a)) }
         | JXTA_TRANSPORT_OUTBOUND_CONNECTED \<Rightarrow> Some added
         | JXTA_TRANSPORT_CONNECTION_CLOSED \<Rightarrow>
             (let me = messenger_remove me (te_dest e)
              in Some (case ea of None \<Rightarrow> me | Some a \<Rightarrow> messenger_remove me a)))"

text \<open>The tables of transports; what a transport propagates is in the environment.\<close>

definition jxta_endpoint_service_add_transport :: "endpoint \<Rightarrow> ctext \<Rightarrow> ptr \<Rightarrow> endpoint" where
  "jxta_endpoint_service_add_transport service name transport =
     service\<lparr>transport_table := (transport_table service)(name \<mapsto> transport)\<rparr>"

definition jxta_endpoint_service_remove_transport :: "endpoint \<Rightarrow> ctext \<Rightarrow> endpoint" where
  "jxta_endpoint_service_remove_transport service name =
     service\<lparr>transport_table := (transport_table service)(name := None)\<rparr>"

definition jxta_endpoint_service_propagate ::
  "(ptr \<Rightarrow> ctext \<Rightarrow> ctext \<Rightarrow> 'w \<Rightarrow> 'w) \<Rightarrow> ptr list \<Rightarrow> endpoint \<Rightarrow> ctext option \<Rightarrow> ctext option \<Rightarrow> 'w \<Rightarrow> (status \<times> 'w) option" where
  "jxta_endpoint_service_propagate jxta_transport_propagate tps service name param w =
     (if name = None \<and> param = None then Some (JXTA_INVALID_ARGUMENT, w)
      else do {
        n \<leftarrow> name; p \<leftarrow> param;
        Some (JXTA_SUCCESS,
              fold (\<lambda>t. jxta_transport_propagate t (JXTA_ENDPOINT_SERVICE_NAME @ str '':'' @ ep_groupid service) (n @ str ''/'' @ p)) tps w) })"

definition jxta_endpoint_service_set_relay :: "endpoint \<Rightarrow> ctext option \<Rightarrow> ctext option \<Rightarrow> endpoint option" where
  "jxta_endpoint_service_set_relay service proto host =
     (case host of
        Some h \<Rightarrow> do { p \<leftarrow> proto; Some (service\<lparr>relay_addr := Some h, relay_proto := Some p\<rparr>) }
      | None \<Rightarrow> Some (service\<lparr>relay_addr := None, relay_proto := None\<rparr>))"

definition jxta_endpoint_service_get_relay_addr :: "endpoint \<Rightarrow> ctext option" where
  "jxta_endpoint_service_get_relay_addr service = relay_addr service"

definition jxta_endpoint_service_get_relay_proto :: "endpoint \<Rightarrow> ctext option" where
  "jxta_endpoint_service_get_relay_proto service = relay_proto service"

definition endpoint_start :: "endpoint \<Rightarrow> endpoint" where
  "endpoint_start me = me\<lparr>ep_started := True\<rparr>"

text \<open>The tasks of the service are cancelled; the counter of tasks is not.\<close>

definition endpoint_stop :: "endpoint \<Rightarrow> endpoint" where
  "endpoint_stop me = me\<lparr>ep_started := False, msg_tasks := [], router_transport := None\<rparr>"

end
