(* ===== verification/EndpointQueue.thy ===== *)
theory EndpointQueue
  imports Endpoint "HOL-Library.Sublist"
begin

section \<open>The queues of the negative cache\<close>

text \<open>
  A ring of the negative cache holds a list of messages.  Sending the ring again sends this list
  from its front; storing a message appends it, but in a ring that is full it drops the oldest and
  loses the new one.
  Over any run of the service the messages that were handed over to a peer, together with those
  that wait for it, are a subsequence of those that were submitted: none is reordered or repeated.
\<close>

subsection \<open>Rings\<close>

definition ring_holds :: "jxta_message option list \<Rightarrow> nat \<Rightarrow> nat \<Rightarrow> jxta_message list \<Rightarrow> bool" where
  "ring_holds q cap h xs \<longleftrightarrow>
     length q = cap \<and> h < cap \<and> length xs \<le> cap \<and> (\<forall>k<length xs. q ! ((h + k) mod cap) = Some (xs ! k))"

definition entry_holds :: "nc_entry \<Rightarrow> jxta_message list \<Rightarrow> bool" where
  "entry_holds e xs \<longleftrightarrow>
     (case rq e of
        None \<Rightarrow> xs = []
      | Some q \<Rightarrow> 2 \<le> rq_capacity e \<and> ring_holds q (rq_capacity e) (rq_head e) xs \<and>
          rq_tail e = (if xs = [] then -1 else int ((rq_head e + length xs) mod rq_capacity e)))"

lemma mod_next: "h < cap \<Longrightarrow> (if h + 1 \<ge> cap then 0 else h + 1) = (h + 1) mod (cap :: nat)"
  by (auto simp: le_Suc_eq)

lemma ring_slots_differ:
  assumes "h < (cap :: nat)" "k < cap" "l < cap" "(h + k) mod cap = (h + l) mod cap"
  shows "k = l"
proof -
  have m: "x mod cap = (if x < cap then x else x - cap)" if "x < 2 * cap" for x
    using that by (auto simp: le_mod_geq)
  show ?thesis
    using assms m [of "h + k"] m [of "h + l"] by (auto split: if_splits)
qed

lemma ring_pop:
  assumes "ring_holds q cap h (x # xs)"
  shows "h < length q" "q ! h = Some x" "ring_holds (q[h := None]) cap ((h + 1) mod cap) xs"
proof -
  have c: "length q = cap" "h < cap" "length xs < cap" and
      n: "\<And>k. k < Suc (length xs) \<Longrightarrow> q ! ((h + k) mod cap) = Some ((x # xs) ! k)"
    using assms by (auto simp: ring_holds_def)
  show "h < length q" "q ! h = Some x"
    using c n [of 0] by simp_all
  have "(q[h := None]) ! (((h + 1) mod cap + k) mod cap) = Some (xs ! k)" if k: "k < length xs" for k
  proof -
    have eq: "((h + 1) mod cap + k) mod cap = (h + Suc k) mod cap"
      by (metis add.assoc mod_add_left_eq plus_1_eq_Suc)
    moreover have "(h + Suc k) mod cap \<noteq> h"
      using ring_slots_differ [of h cap "Suc k" 0] c k by auto
    ultimately show ?thesis
      using n [of "Suc k"] k by simp
  qed
  then show "ring_holds (q[h := None]) cap ((h + 1) mod cap) xs"
    using c by (auto simp: ring_holds_def)
qed


lemma ring_push:
  assumes r: "ring_holds q cap h xs" and n: "length xs < cap"
  shows "(h + length xs) mod cap < length q" "ring_holds (q[(h + length xs) mod cap := Some m]) cap h (xs @ [m])"
proof -
  have c: "length q = cap" "h < cap" and x: "\<And>k. k < length xs \<Longrightarrow> q ! ((h + k) mod cap) = Some (xs ! k)"
    using r by (auto simp: ring_holds_def)
  show l: "(h + length xs) mod cap < length q"
    using c by simp
  have "q[(h + length xs) mod cap := Some m] ! ((h + k) mod cap) = Some ((xs @ [m]) ! k)" if k: "k < Suc (length xs)" for k
  proof (cases "k = length xs")
    case True
    then show ?thesis
      using l by simp
  next
    case False
    then have "(h + k) mod cap \<noteq> (h + length xs) mod cap"
      using ring_slots_differ [of h cap k "length xs"] c k n by auto
    then show ?thesis
      using False k x by (simp add: nth_append)
  qed
  then show "ring_holds (q[(h + length xs) mod cap := Some m]) cap h (xs @ [m])"
    using c n by (simp add: ring_holds_def)
qed

subsection \<open>Sending\<close>

text \<open>What has been handed over, and what a message to a peer is.\<close>

definition delivered :: "endpoint \<Rightarrow> jxta_message list" where
  "delivered me = map (\<lambda>x. fst (snd x)) (filter (\<lambda>x. snd (snd x) = JXTA_SUCCESS) (ep_sent me))"

definition bound_to :: "(jxta_message \<Rightarrow> endpoint_address option option) \<Rightarrow> ctext \<Rightarrow> jxta_message \<Rightarrow> bool" where
  "bound_to D ta msg \<longleftrightarrow> (\<exists>d. D msg = Some (Some d) \<and> service_name d \<noteq> None \<and> transport_addr d = ta)"

abbreviation bound_for :: "ep_env \<Rightarrow> jxta_message \<Rightarrow> ctext \<Rightarrow> bool" where
  "bound_for E msg ta \<equiv> bound_to (message_dest E) ta msg"

text \<open>Sending changes the messengers and the log, not the negative cache.\<close>

definition same_cache :: "endpoint \<Rightarrow> endpoint \<Rightarrow> bool" where
  "same_cache a b \<longleftrightarrow> nc_table b = nc_table a \<and> msg_task_cnt b = msg_task_cnt a \<and> msg_tasks b = msg_tasks a \<and>
     ep_started b = ep_started a"

lemma send_message_ok:
  assumes "bound_for E msg ta" "dest = None \<or> message_dest E msg = Some dest"
  shows "\<exists>res b. send_message E a msg dest = Some (res, b) \<and> same_cache a b \<and>
    delivered b = delivered a @ (if res = JXTA_SUCCESS then [msg] else [])"
proof -
  obtain d where d: "message_dest E msg = Some (Some d)" "service_name d \<noteq> None"
    using assms(1) by (auto simp: bound_to_def)
  then have dest: "(case dest of Some d \<Rightarrow> Some (Some d) | None \<Rightarrow> message_dest E msg) = Some (Some d)"
    using assms(2) by auto
  obtain res b where t: "try_existing_messenger E a msg d = (res, b)"
    by fastforce
  then have b: "same_cache a b \<and> delivered b = delivered a @ (if res = JXTA_SUCCESS then [msg] else [])"
    by (auto simp: try_existing_messenger_def jxta_send_def messenger_remove_def Let_def same_cache_def delivered_def
        split: option.splits if_splits)
  have send: "same_cache b (snd (jxta_send E m msg b)) \<and>
      delivered (snd (jxta_send E m msg b)) = delivered b @ (if fst (jxta_send E m msg b) = JXTA_SUCCESS then [msg] else [])" for m
    by (simp add: jxta_send_def Let_def same_cache_def delivered_def)
  show ?thesis
  proof (cases "res = JXTA_SUCCESS")
    case True
    then show ?thesis
      using dest d(2) t b by (auto simp: send_message_def)
  next
    case False
    show ?thesis
    proof (cases "ep_router_messenger E (length (ep_sent b)) d")
      case None
      then show ?thesis
        using dest d(2) t b False by (auto simp: send_message_def)
    next
      case (Some m)
      then have "send_message E a msg dest = Some (jxta_send E m msg b)"
        using dest d(2) t False by (auto simp: send_message_def)
      then show ?thesis
        using send [of m] b False by (cases "jxta_send E m msg b") (auto simp: same_cache_def)
    qed
  qed
qed

text \<open>A ring is sent from its front: the loop ends, and what was not sent stays in the ring.\<close>

lemma flush_ok:
  assumes "ring_holds q cap h xs" "xs \<noteq> []" "2 \<le> cap" "t = int ((h + length xs) mod cap)" "\<forall>m\<in>set xs. bound_for E m ta"
  shows "\<exists>res q' h' n b. nc_flush E a q cap h t sent = Some (res, q', h', sent + n, b) \<and> n \<le> length xs \<and>
    (res = JXTA_SUCCESS \<longleftrightarrow> n = length xs) \<and> ring_holds q' cap h' (drop n xs) \<and>
    t = int ((h' + length (drop n xs)) mod cap) \<and> same_cache a b \<and> delivered b = delivered a @ take n xs"
  using assms
proof (induction xs arbitrary: q h a sent)
  case (Cons x xs)
  note pop = ring_pop [OF Cons.prems(1)]
  have h: "h < cap" "length xs < cap"
    using Cons.prems(1) by (auto simp: ring_holds_def)
  obtain res b where b: "send_message E a x None = Some (res, b)" "same_cache a b"
      "delivered b = delivered a @ (if res = JXTA_SUCCESS then [x] else [])"
    using send_message_ok [of E ta x None] Cons.prems(5) by fastforce
  show ?case
  proof (cases "res = JXTA_SUCCESS")
    case False
    then have "nc_flush E a q cap h t sent = Some (res, q, h, sent + 0, b)"
      using pop(1,2) b(1) by (simp add: nc_flush.simps [of E a q])
    then show ?thesis
      using Cons.prems(1,4) b(2,3) False by (intro exI [of _ res] exI [of _ q] exI [of _ h] exI [of _ 0] exI [of _ b]) simp
  next
    case True
    let ?h = "(h + 1) mod cap"
    have t: "t = int ((?h + length xs) mod cap)"
      using Cons.prems(4) by (metis add.assoc length_Cons mod_add_left_eq plus_1_eq_Suc)
    have step: "nc_flush E a q cap h t sent =
        (if int ?h = t then Some (JXTA_SUCCESS, q[h := None], ?h, sent + 1, b)
         else nc_flush E b (q[h := None]) cap ?h t (sent + 1))"
      using pop(1,2) b(1) True mod_next [OF h(1)] by (subst nc_flush.simps) (simp add: Let_def)
    have "int ?h = t \<longleftrightarrow> xs = []"
      using t ring_slots_differ [of ?h cap 0 "length xs"] h by (cases xs) auto
    show ?thesis
    proof (cases "xs = []")
      case True
      then show ?thesis
        using step \<open>int ?h = t \<longleftrightarrow> xs = []\<close> pop(3) b(2,3) \<open>res = JXTA_SUCCESS\<close> t
        by (intro exI [of _ JXTA_SUCCESS] exI [of _ "q[h := None]"] exI [of _ ?h] exI [of _ 1] exI [of _ b]) simp
    next
      case False
      have bound: "\<forall>m\<in>set xs. bound_for E m ta"
        using Cons.prems(5) by simp
      obtain res' q' h' n b' where "nc_flush E b (q[h := None]) cap ?h t (sent + 1) = Some (res', q', h', sent + 1 + n, b')"
          "n \<le> length xs" "res' = JXTA_SUCCESS \<longleftrightarrow> n = length xs" "ring_holds q' cap h' (drop n xs)"
          "t = int ((h' + length (drop n xs)) mod cap)" "same_cache b b'" "delivered b' = delivered b @ take n xs"
        using Cons.IH [OF pop(3) False Cons.prems(3) t bound, of b "sent + 1"] by blast
      moreover have "nc_flush E a q cap h t sent = nc_flush E b (q[h := None]) cap ?h t (sent + 1)"
        using step False \<open>int ?h = t \<longleftrightarrow> xs = []\<close> by simp
      moreover have "same_cache a b'"
        using \<open>same_cache b b'\<close> b(2) by (simp add: same_cache_def)
      ultimately show ?thesis
        using b(3) \<open>res = JXTA_SUCCESS\<close>
        by (intro exI [of _ res'] exI [of _ q'] exI [of _ h'] exI [of _ "Suc n"] exI [of _ b']) simp
    qed
  qed
qed simp


subsection \<open>Entries\<close>

text \<open>
  What is left of a ring after it was worked off; a queue that is dropped loses all its messages.
\<close>

lemma process_queue_ok:
  assumes e: "entry_holds e xs" and bound: "\<forall>m\<in>set xs. bound_for E m ta"
  shows "\<exists>res e' n ys b. nc_peer_process_queue E a e = Some (res, e', b) \<and> same_cache a b \<and> entry_holds e' ys \<and>
    delivered b = delivered a @ take n xs \<and> (ys = drop n xs \<or> ys = []) \<and> (res = JXTA_SUCCESS \<longrightarrow> ys = [] \<and> n \<ge> length xs) \<and>
    rq_capacity e' = rq_capacity e"
proof (cases "ep_now E < nc_expiration e \<or> rq e = None \<or> rq_tail e = -1")
  case True
  then show ?thesis
  proof (cases "ep_now E < nc_expiration e")
    case late: False
    then have "xs = []"
      using True e by (auto simp: entry_holds_def split: option.splits if_splits)
    then show ?thesis
      using True late e by (intro exI [of _ JXTA_SUCCESS] exI [of _ e] exI [of _ 0] exI [of _ "[]"] exI [of _ a])
        (auto simp: nc_peer_process_queue_def same_cache_def split: option.split)
  next
    case True
    then show ?thesis
      using e by (intro exI [of _ JXTA_UNREACHABLE_DEST] exI [of _ e] exI [of _ 0] exI [of _ xs] exI [of _ a])
        (simp add: nc_peer_process_queue_def same_cache_def)
  qed
next
  case False
  then obtain q where q: "rq e = Some q" "rq_tail e \<noteq> -1" "\<not> ep_now E < nc_expiration e"
    by auto
  then have r: "ring_holds q (rq_capacity e) (rq_head e) xs" "xs \<noteq> []" "2 \<le> rq_capacity e"
      "rq_tail e = int ((rq_head e + length xs) mod rq_capacity e)"
    using e by (auto simp: entry_holds_def split: if_splits)
  obtain res q' h' n b where f: "nc_flush E a q (rq_capacity e) (rq_head e) (rq_tail e) 0 = Some (res, q', h', n, b)"
      "n \<le> length xs" "res = JXTA_SUCCESS \<longleftrightarrow> n = length xs" "ring_holds q' (rq_capacity e) h' (drop n xs)"
      "rq_tail e = int ((h' + length (drop n xs)) mod rq_capacity e)" "same_cache a b" "delivered b = delivered a @ take n xs"
    using flush_ok [OF r bound, of a 0] unfolding add_0 by blast
  consider "res = JXTA_SUCCESS" | "res = JXTA_UNREACHABLE_DEST" "n = 0" "nc_timeout e \<ge> cfg_nc_timeout_max E"
    | "res \<noteq> JXTA_SUCCESS" "\<not> (res = JXTA_UNREACHABLE_DEST \<and> n = 0 \<and> nc_timeout e \<ge> cfg_nc_timeout_max E)"
    by blast
  then show ?thesis
  proof cases
    case 1
    let ?e = "e\<lparr>rq := Some q', rq_head := h', rq_tail := -1\<rparr>"
    have "entry_holds ?e []"
      using f(2-4) r(3) 1 by (auto simp: entry_holds_def ring_holds_def)
    then show ?thesis
      using 1 q f by (intro exI [of _ JXTA_SUCCESS] exI [of _ ?e] exI [of _ n] exI [of _ "[]"] exI [of _ b])
        (simp add: nc_peer_process_queue_def)
  next
    case 2
    let ?e = "(nc_peer_drop_retransmit_queue (e\<lparr>rq := Some q', rq_head := h'\<rparr>))
      \<lparr>nc_timeout := cfg_nc_timeout_max E, nc_expiration := ep_now E + cfg_nc_timeout_max E\<rparr>"
    have "entry_holds ?e []"
      by (simp add: entry_holds_def nc_peer_drop_retransmit_queue_def)
    then show ?thesis
      using 2 q f by (intro exI [of _ res] exI [of _ ?e] exI [of _ n] exI [of _ "[]"] exI [of _ b])
        (simp add: nc_peer_process_queue_def nc_peer_drop_retransmit_queue_def Let_def)
  next
    case 3
    then have ne: "drop n xs \<noteq> []"
      using f(2,3) by simp
    obtain e' where e': "nc_peer_process_queue E a e = Some (res, e', b)" "rq e' = Some q'" "rq_head e' = h'"
        "rq_tail e' = rq_tail e" "rq_capacity e' = rq_capacity e"
      using 3 q f(1) by (cases "n = 0 \<and> res = JXTA_UNREACHABLE_DEST") (auto simp: nc_peer_process_queue_def Let_def cong: if_cong)
    then have "entry_holds e' (drop n xs)"
      using f(4,5) r(3) ne by (simp add: entry_holds_def)
    then show ?thesis
      using e'(1,5) f(6,7) 3(1) by blast
  qed
qed

text \<open>
  In a ring that is full the slot of the oldest message gets the new one and the head advances,
  but not the tail: the new message is in no position that is sent, and both messages are lost.
\<close>

lemma store_ok:
  assumes e: "entry_holds e xs" and q: "rq e = Some q"
  shows "\<exists>e'. nc_store e q m = Some e' \<and> entry_holds e' (if length xs = rq_capacity e then tl xs else xs @ [m]) \<and>
    rq_capacity e' = rq_capacity e"
proof -
  let ?c = "rq_capacity e" and ?h = "rq_head e"
  have r: "ring_holds q ?c ?h xs" "2 \<le> ?c" "rq_tail e = (if xs = [] then -1 else int ((?h + length xs) mod ?c))"
    using e q by (auto simp: entry_holds_def)
  then have h: "?h < ?c" "length xs \<le> ?c"
    by (auto simp: ring_holds_def)
  show ?thesis
  proof (cases "length xs = ?c")
    case True
    then obtain x ys where xs: "xs = x # ys" "ys \<noteq> []"
      using r(2) True by (cases xs; cases "tl xs") auto
    have "(?h + length xs) mod ?c = ?h"
      using True h by simp
    then have full: "rq_tail e = int ?h"
      using r(3) xs by (simp del: length_Cons)
    have pop: "?h < length q" "ring_holds (q[?h := None]) ?c ((?h + 1) mod ?c) ys"
      using ring_pop [of q ?c ?h x ys] r(1) xs by auto
    have "((?h + 1) mod ?c + length ys) mod ?c = (?h + length xs) mod ?c"
      using xs(1) by (metis add.assoc length_Cons mod_add_left_eq plus_1_eq_Suc)
    then have wrap: "((?h + 1) mod ?c + length ys) mod ?c = ?h"
      using \<open>(?h + length xs) mod ?c = ?h\<close> by simp
    have "q[?h := Some m] ! (((?h + 1) mod ?c + k) mod ?c) = Some (ys ! k)" if k: "k < length ys" for k
    proof -
      have "((?h + 1) mod ?c + k) mod ?c \<noteq> ?h"
        using ring_slots_differ [of "(?h + 1) mod ?c" ?c k "length ys"] wrap k h xs True by auto
      then show ?thesis
        using pop(2) k by (auto simp: ring_holds_def)
    qed
    then have "ring_holds (q[?h := Some m]) ?c ((?h + 1) mod ?c) ys"
      using pop(2) by (simp add: ring_holds_def)
    then show ?thesis
      using full pop(1) xs True r(2) wrap mod_next [OF h(1)] by (simp add: nc_store_def entry_holds_def)
  next
    case False
    then have n: "length xs < ?c"
      using h by simp
    have free: "int ?h \<noteq> rq_tail e"
      using r(3) ring_slots_differ [of ?h ?c 0 "length xs"] n h by auto
    let ?t = "if rq_tail e = -1 then ?h else nat (rq_tail e)"
    have t: "?t = (?h + length xs) mod ?c"
      using r(3) h by auto
    have "(?t + 1) mod ?c = (?h + length (xs @ [m])) mod ?c"
      using t by (simp add: mod_Suc_eq)
    then have nxt: "(if ?t + 1 \<ge> ?c then 0 else int ?t + 1) = int ((?h + length (xs @ [m])) mod ?c)"
      using mod_next [of ?t ?c] h(1) t by auto
    have e': "nc_store e q m = Some (e\<lparr>rq := Some (q[?t := Some m]), rq_tail := int ((?h + length (xs @ [m])) mod ?c)\<rparr>)"
      using free ring_push(1) [OF r(1) n] t nxt unfolding nc_store_def Let_def by simp
    then show ?thesis
      using ring_push(2) [OF r(1) n, of m] False r(2) t by (simp add: entry_holds_def)
  qed
qed


subsection \<open>Runs\<close>

text \<open>The messages for a peer that were delivered or wait, against those that were submitted.\<close>

definition queue_at :: "endpoint \<Rightarrow> ctext \<Rightarrow> jxta_message list \<Rightarrow> bool" where
  "queue_at s ta xs \<longleftrightarrow> (case nc_table s ta of None \<Rightarrow> xs = [] | Some e \<Rightarrow> entry_holds e xs)"

definition in_order ::
  "(jxta_message \<Rightarrow> endpoint_address option option) \<Rightarrow> endpoint \<Rightarrow> jxta_message list \<Rightarrow> ctext \<Rightarrow> bool" where
  "in_order D s subs ta \<longleftrightarrow>
     (\<exists>xs. queue_at s ta xs \<and> (\<forall>m\<in>set xs. bound_to D ta m) \<and>
        subseq (filter (bound_to D ta) (delivered s) @ xs) (filter (bound_to D ta) subs))"

lemma bound_unique: "bound_to D ta m \<Longrightarrow> bound_to D tb m \<Longrightarrow> ta = tb"
  by (auto simp: bound_to_def)

lemma filter_bound: "\<forall>m\<in>set xs. bound_to D ta m \<Longrightarrow> filter (bound_to D tb) xs = (if tb = ta then xs else [])"
  using bound_unique by (auto simp: filter_id_conv filter_empty_conv)

lemma entry_bound:
  assumes "in_order D s subs ta" "nc_table s ta = Some e"
  obtains xs where "entry_holds e xs" "\<forall>m\<in>set xs. bound_to D ta m"
    "subseq (filter (bound_to D ta) (delivered s) @ xs) (filter (bound_to D ta) subs)"
  using assms by (auto simp: in_order_def queue_at_def)

text \<open>Messages for one peer do not concern the others.\<close>

lemma other_peer:
  assumes "in_order D a subs tb" "nc_table b tb = nc_table a tb" "delivered b = delivered a @ ys" "\<forall>m\<in>set ys. bound_to D ta m"
    "tb \<noteq> ta" "\<forall>m\<in>set zs. bound_to D ta m"
  shows "in_order D b (subs @ zs) tb"
  using assms filter_bound [OF assms(4), of tb] filter_bound [OF assms(6), of tb] by (auto simp: in_order_def queue_at_def)

text \<open>The part of the list that is left over, or nothing of it.\<close>

lemma subseq_left:
  assumes "subseq (d @ xs) l" "ys = drop n xs \<or> ys = []"
  shows "subseq ((d @ take n xs) @ ys) l"
proof -
  have "subseq (take n xs @ ys) xs"
    using assms(2) subseq_rev_drop_many [of "take n xs" "take n xs" "drop n xs"] by auto
  then have "subseq (d @ take n xs @ ys) (d @ xs)"
    by (simp only: subseq_append')
  then show ?thesis
    using assms(1) subseq_order.trans by (metis append_assoc)
qed

lemma subseq_front: "subseq (d @ xs) l \<Longrightarrow> subseq d l"
  using subseq_rev_drop_many [of d d xs] subseq_order.trans by blast

lemma process_in_order:
  assumes all: "\<forall>tb. in_order D a subs tb" and e: "nc_table a ta = Some e" and D: "message_dest E = D"
    and same: "rq e' = rq e" "rq_head e' = rq_head e" "rq_tail e' = rq_tail e" "rq_capacity e' = rq_capacity e"
  shows "\<exists>res f b. nc_peer_process_queue E a e' = Some (res, f, b) \<and> same_cache a b \<and>
    (\<forall>tb. in_order D (b\<lparr>nc_table := (nc_table b)(ta \<mapsto> f)\<rparr>) subs tb) \<and>
    (res = JXTA_SUCCESS \<longrightarrow> entry_holds f [])"
proof -
  have "in_order D a subs ta"
    using all by blast
  then obtain xs where xs: "entry_holds e xs" "\<forall>m\<in>set xs. bound_to D ta m"
      "subseq (filter (bound_to D ta) (delivered a) @ xs) (filter (bound_to D ta) subs)"
    using entry_bound e by blast
  have e': "entry_holds e' xs"
    using xs(1) unfolding entry_holds_def same .
  have bound: "\<forall>m\<in>set xs. bound_for E m ta"
    using xs(2) D by simp
  obtain res f n ys b where p: "nc_peer_process_queue E a e' = Some (res, f, b)" "same_cache a b" "entry_holds f ys"
      "delivered b = delivered a @ take n xs" "ys = drop n xs \<or> ys = []" "res = JXTA_SUCCESS \<longrightarrow> ys = [] \<and> n \<ge> length xs"
    using process_queue_ok [OF e' bound, of a] by blast
  let ?b = "b\<lparr>nc_table := (nc_table b)(ta \<mapsto> f)\<rparr>"
  have taken: "\<forall>m\<in>set (take n xs). bound_to D ta m" "\<forall>m\<in>set ys. bound_to D ta m"
    using xs(2) p(5) by (auto dest: in_set_takeD in_set_dropD)
  have db: "delivered ?b = delivered a @ take n xs"
    using p(4) by (simp add: delivered_def)
  have "in_order D ?b subs ta"
    using subseq_left [OF xs(3) p(5)] p(3) taken filter_bound [OF taken(1), of ta]
    unfolding in_order_def queue_at_def db by auto
  moreover have "in_order D ?b subs tb" if "tb \<noteq> ta" for tb
    using other_peer [OF all [rule_format] _ db taken(1) that, of "[]"] p(2) that by (simp add: same_cache_def)
  ultimately have "\<forall>tb. in_order D ?b subs tb"
    by metis
  then show ?thesis
    using p(1,2,3,6) by blast
qed

lemma remove_in_order:
  assumes "\<forall>tb. in_order D b subs tb" "entry_holds f []"
  shows "\<exists>c. nc_remove_peer b ta f = Some c \<and> c = b\<lparr>nc_table := (nc_table b)(ta := None)\<rparr> \<and> (\<forall>tb. in_order D c subs tb)"
proof -
  let ?c = "b\<lparr>nc_table := (nc_table b)(ta := None)\<rparr>"
  have "in_order D ?c subs tb" for tb
  proof -
    obtain xs where xs: "queue_at b tb xs" "\<forall>m\<in>set xs. bound_to D tb m"
        "subseq (filter (bound_to D tb) (delivered b) @ xs) (filter (bound_to D tb) subs)"
      using assms(1) unfolding in_order_def by blast
    then have "subseq (filter (bound_to D tb) (delivered b)) (filter (bound_to D tb) subs)"
      using subseq_front by blast
    then show ?thesis
      using xs by (cases "tb = ta") (auto simp: in_order_def queue_at_def delivered_def)
  qed
  moreover have "rq f = None \<or> rq_tail f = -1"
    using assms(2) by (auto simp: entry_holds_def split: option.splits)
  ultimately show ?thesis
    unfolding nc_remove_peer_def by auto
qed


text \<open>A message for the peer that is submitted: it is delivered, waits, or is lost.\<close>

lemma deliver_in_order:
  assumes all: "\<forall>tb. in_order D a subs tb" and m: "bound_to D ta m" and D: "message_dest E = D"
    and q: "queue_at a ta []" and dest: "dest = None \<or> D m = Some dest"
  shows "\<exists>res b. send_message E a m dest = Some (res, b) \<and> same_cache a b \<and> (\<forall>tb. in_order D b (subs @ [m]) tb) \<and>
    (res \<noteq> JXTA_SUCCESS \<longrightarrow> delivered b = delivered a)"
proof -
  obtain res b where b: "send_message E a m dest = Some (res, b)" "same_cache a b"
      "delivered b = delivered a @ (if res = JXTA_SUCCESS then [m] else [])"
    using send_message_ok [of E ta m dest a] m D dest by auto
  have "in_order D b (subs @ [m]) tb" for tb
  proof (cases "tb = ta")
    case True
    have "subseq (filter (bound_to D ta) (delivered a)) (filter (bound_to D ta) subs)"
      using all subseq_front unfolding in_order_def by blast
    then have "subseq (filter (bound_to D ta) (delivered b)) (filter (bound_to D ta) (subs @ [m]))"
      using b(3) m by (auto intro: subseq_rev_drop_many)
    moreover have "queue_at b ta []"
      using q b(2) by (simp add: queue_at_def same_cache_def)
    ultimately show ?thesis
      using True by (auto simp: in_order_def)
  next
    case False
    then show ?thesis
      using other_peer [OF all [rule_format] _ b(3), where ta = ta and zs = "[m]"] b(2) m by (simp add: same_cache_def)
  qed
  then show ?thesis
    using b by auto
qed

lemma queued_in_order:
  assumes all: "\<forall>tb. in_order D (b\<lparr>nc_table := (nc_table b)(ta \<mapsto> e)\<rparr>) subs tb" and m: "bound_to D ta m"
    and f: "\<And>xs. entry_holds e xs \<Longrightarrow> entry_holds f (if length xs = c then tl xs else xs @ [m])"
  shows "\<forall>tb. in_order D (b\<lparr>nc_table := (nc_table b)(ta \<mapsto> f)\<rparr>) (subs @ [m]) tb"
proof
  fix tb
  let ?a = "b\<lparr>nc_table := (nc_table b)(ta \<mapsto> e)\<rparr>" and ?b = "b\<lparr>nc_table := (nc_table b)(ta \<mapsto> f)\<rparr>"
  show "in_order D ?b (subs @ [m]) tb"
  proof (cases "tb = ta")
    case True
    obtain xs where xs: "entry_holds e xs" "\<forall>m\<in>set xs. bound_to D ta m"
        "subseq (filter (bound_to D ta) (delivered b) @ xs) (filter (bound_to D ta) subs)"
      using entry_bound [of D ?a subs ta e] all by (auto simp: delivered_def)
    let ?ys = "if length xs = c then tl xs else xs @ [m]"
    have "subseq (filter (bound_to D ta) (delivered b) @ ?ys) (filter (bound_to D ta) (subs @ [m]))"
    proof (cases "length xs = c")
      case True
      have "subseq (tl xs) xs"
        by (cases xs) auto
      then have "subseq (filter (bound_to D ta) (delivered b) @ tl xs) (filter (bound_to D ta) subs)"
        using xs(3) subseq_order.trans by (metis subseq_append')
      then show ?thesis
        using True by (auto intro: subseq_rev_drop_many)
    next
      case False
      then show ?thesis
        using xs(3) m by simp (metis append_assoc subseq_append)
    qed
    moreover have "\<forall>m\<in>set ?ys. bound_to D ta m"
      using xs(2) m by (cases xs) auto
    moreover have "delivered ?b = delivered b"
      by (simp add: delivered_def)
    ultimately show ?thesis
      using True f [OF xs(1)] unfolding in_order_def queue_at_def by auto
  next
    case False
    have "delivered ?b = delivered ?a @ []"
      by (simp add: delivered_def)
    then show ?thesis
      using other_peer [OF all [rule_format], where tb = tb and b = ?b and ys = "[]" and ta = ta and zs = "[m]"] False m by simp
  qed
qed

lemma in_order_more:
  assumes "in_order D s subs ta"
  shows "in_order D s (subs @ zs) ta"
proof -
  obtain xs where xs: "queue_at s ta xs" "\<forall>m\<in>set xs. bound_to D ta m"
      "subseq (filter (bound_to D ta) (delivered s) @ xs) (filter (bound_to D ta) subs)"
    using assms by (auto simp: in_order_def)
  then have "subseq (filter (bound_to D ta) (delivered s) @ xs) (filter (bound_to D ta) (subs @ zs))"
    by (simp add: subseq_rev_drop_many)
  then show ?thesis
    using xs(1,2) unfolding in_order_def by blast
qed

lemma in_order_same:
  assumes "in_order D a subs ta" "same_cache a b" "delivered b = delivered a"
  shows "in_order D b subs ta"
  using assms by (simp add: in_order_def queue_at_def same_cache_def)

definition queue_last :: "endpoint \<Rightarrow> ctext \<Rightarrow> nc_entry \<Rightarrow> jxta_message \<Rightarrow> (status \<times> endpoint) option" where
  "queue_last s ta e msg =
     (case rq e of
        None \<Rightarrow> Some (JXTA_UNREACHABLE_DEST, s)
      | Some q \<Rightarrow> do { e \<leftarrow> nc_store e q msg; Some (JXTA_UNREACHABLE_DEST, s\<lparr>nc_table := (nc_table s)(ta \<mapsto> e)\<rparr>) })"

lemma queue_last_in_order:
  assumes all: "\<forall>tb. in_order D s subs tb" and f: "nc_table s ta = Some f" and m: "bound_to D ta m"
  shows "\<exists>b. queue_last s ta f m = Some (JXTA_UNREACHABLE_DEST, b) \<and> (\<forall>tb. in_order D b (subs @ [m]) tb)"
proof (cases "rq f")
  case None
  then show ?thesis
    using all in_order_more by (auto simp: queue_last_def)
next
  case (Some q)
  have same: "s\<lparr>nc_table := (nc_table s)(ta \<mapsto> f)\<rparr> = s"
    using f by (simp add: map_upd_triv)
  obtain xs where "entry_holds f xs"
    using entry_bound [of D s subs ta f] all f by blast
  then obtain g where g: "nc_store f q m = Some g"
    using store_ok [OF _ Some] by blast
  then have "entry_holds f xs \<Longrightarrow> entry_holds g (if length xs = rq_capacity f then tl xs else xs @ [m])" for xs
    using store_ok [OF _ Some, of xs m] by auto
  then have "\<forall>tb. in_order D (s\<lparr>nc_table := (nc_table s)(ta \<mapsto> g)\<rparr>) (subs @ [m]) tb"
    using queued_in_order [of D s ta f subs m g] all m unfolding same by blast
  then show ?thesis
    using Some g by (simp add: queue_last_def)
qed

lemma queue_msg_in_order:
  assumes all: "\<forall>tb. in_order D a subs tb" and e: "nc_table a ta = Some e" and m: "bound_to D ta m" and D: "message_dest E = D"
  shows "\<exists>res b. nc_peer_queue_msg E a ta e m = Some (res, b) \<and> (\<forall>tb. in_order D b (subs @ [m]) tb)"
proof -
  obtain res f b where p: "nc_peer_process_queue E a e = Some (res, f, b)" "same_cache a b"
      "\<forall>tb. in_order D (b\<lparr>nc_table := (nc_table b)(ta \<mapsto> f)\<rparr>) subs tb" "res = JXTA_SUCCESS \<longrightarrow> entry_holds f []"
    using process_in_order [OF all e D refl refl refl refl] by blast
  let ?b = "b\<lparr>nc_table := (nc_table b)(ta \<mapsto> f)\<rparr>"
  show ?thesis
  proof (cases "res = JXTA_SUCCESS")
    case True
    have "queue_at ?b ta []"
      using True p(4) by (simp add: queue_at_def)
    then obtain st c where c: "send_message E ?b m None = Some (st, c)" "same_cache ?b c" "\<forall>tb. in_order D c (subs @ [m]) tb"
        "st \<noteq> JXTA_SUCCESS \<longrightarrow> delivered c = delivered ?b"
      using deliver_in_order [OF p(3) m D] by blast
    show ?thesis
    proof (cases "st = JXTA_UNREACHABLE_DEST")
      case False
      then show ?thesis
        using remove_in_order [OF c(3), of f ta] p(1,4) c(1) True by (auto simp: nc_peer_queue_msg_def Let_def)
    next
      case unreachable: True
      then have "nc_peer_queue_msg E a ta e m = queue_last c ta f m"
        using p(1) c(1) True by (simp add: nc_peer_queue_msg_def queue_last_def Let_def)
      moreover have "\<forall>tb. in_order D c subs tb"
        using in_order_same [OF _ c(2)] c(4) p(3) unreachable by simp
      moreover have "nc_table c ta = Some f"
        using c(2) by (simp add: same_cache_def)
      ultimately show ?thesis
        using queue_last_in_order m by metis
    qed
  next
    case False
    then have "nc_peer_queue_msg E a ta e m = queue_last ?b ta f m"
      using p(1) by (simp add: nc_peer_queue_msg_def queue_last_def Let_def)
    then show ?thesis
      using queue_last_in_order [OF p(3) _ m, of f] by auto
  qed
qed

lemma review_in_order:
  assumes "\<forall>tb. in_order D s subs tb" "message_dest E = D"
  shows "\<exists>b. nc_review E order s = Some b \<and> (\<forall>tb. in_order D b subs tb)"
  using assms(1)
proof (induction order arbitrary: s)
  case (Cons ta order)
  show ?case
  proof (cases "nc_table s ta")
    case None
    then show ?thesis
      using Cons by simp
  next
    case (Some e)
    obtain res f b where p: "nc_peer_process_queue E s e = Some (res, f, b)"
        "\<forall>tb. in_order D (b\<lparr>nc_table := (nc_table b)(ta \<mapsto> f)\<rparr>) subs tb" "res = JXTA_SUCCESS \<longrightarrow> entry_holds f []"
      using process_in_order [OF Cons.prems Some assms(2) refl refl refl refl] by blast
    let ?b = "b\<lparr>nc_table := (nc_table b)(ta \<mapsto> f)\<rparr>"
    obtain c where c: "(if res = JXTA_SUCCESS \<and> rq f \<noteq> None then nc_remove_peer ?b ta f else Some ?b) = Some c"
        "\<forall>tb. in_order D c subs tb"
    proof (cases "res = JXTA_SUCCESS \<and> rq f \<noteq> None")
      case True
      then obtain c where "nc_remove_peer ?b ta f = Some c" "\<forall>tb. in_order D c subs tb"
        using remove_in_order [OF p(2)] p(3) by blast
      then show ?thesis
        using that True by simp
    qed (use that p(2) in auto)
    then show ?thesis
      using Some p(1) Cons.IH [OF c(2)] by (simp add: Let_def)
  qed
qed simp

lemma check_in_order:
  assumes "\<forall>tb. in_order D s subs tb" "message_dest E = D"
  shows "\<exists>b. check_nc_entry E s ta = Some b \<and> (\<forall>tb. in_order D b subs tb)"
proof (cases "nc_table s ta")
  case None
  then show ?thesis
    using assms by (simp add: check_nc_entry_def)
next
  case (Some e)
  obtain res f b where p: "nc_peer_process_queue E s (e\<lparr>nc_expiration := 0\<rparr>) = Some (res, f, b)"
      "\<forall>tb. in_order D (b\<lparr>nc_table := (nc_table b)(ta \<mapsto> f)\<rparr>) subs tb" "res = JXTA_SUCCESS \<longrightarrow> entry_holds f []"
    using process_in_order [OF assms(1) Some assms(2), of "e\<lparr>nc_expiration := 0\<rparr>"] by auto
  let ?b = "b\<lparr>nc_table := (nc_table b)(ta \<mapsto> f)\<rparr>"
  show ?thesis
  proof (cases "res = JXTA_SUCCESS")
    case True
    then obtain c where "nc_remove_peer ?b ta f = Some c" "\<forall>tb. in_order D c subs tb"
      using remove_in_order [OF p(2)] p(3) by blast
    then show ?thesis
      using Some p(1) True by (simp add: check_nc_entry_def Let_def)
  next
    case False
    then show ?thesis
      using Some p(1,2) by (simp add: check_nc_entry_def Let_def)
  qed
qed


subsection \<open>Operations\<close>

lemma new_entry_in_order:
  assumes all: "\<forall>tb. in_order D s subs tb" and m: "bound_to D ta m" and new: "nc_table s ta = None" and n: "cfg_ncrq_size E \<noteq> 1"
  shows "\<forall>tb. in_order D (nc_add_peer E s ta m) (subs @ [m]) tb"
proof
  fix tb
  let ?b = "nc_add_peer E s ta m" and ?n = "cfg_ncrq_size E"
  have b: "delivered ?b = delivered s" "tb \<noteq> ta \<Longrightarrow> nc_table ?b tb = nc_table s tb"
    by (simp_all add: nc_add_peer_def Let_def delivered_def)
  show "in_order D ?b (subs @ [m]) tb"
  proof (cases "tb = ta")
    case True
    have "subseq (filter (bound_to D ta) (delivered s)) (filter (bound_to D ta) subs)"
      using all subseq_front unfolding in_order_def by blast
    then have "subseq (filter (bound_to D ta) (delivered ?b) @ (if ?n = 0 then [] else [m])) (filter (bound_to D ta) (subs @ [m]))"
      using b(1) m by (auto intro: subseq_rev_drop_many)
    moreover have "queue_at ?b ta (if ?n = 0 then [] else [m])"
      using n by (auto simp: queue_at_def nc_add_peer_def Let_def entry_holds_def ring_holds_def)
    moreover have "\<forall>x\<in>set (if ?n = 0 then [] else [m]). bound_to D ta x"
      using m by simp
    ultimately show ?thesis
      using True unfolding in_order_def
      by (intro exI [of _ "if ?n = 0 then [] else [m]"]) simp
  next
    case False
    then show ?thesis
      using other_peer [OF all [rule_format], where tb = tb and b = ?b and ys = "[]" and ta = ta and zs = "[m]"] b m by simp
  qed
qed

text \<open>A message that has a destination with a service, and quality of service settings that can be read.\<close>

definition sendable :: "(jxta_message \<Rightarrow> endpoint_address option option) \<Rightarrow> jxta_message \<Rightarrow> bool" where
  "sendable D m \<longleftrightarrow> (\<exists>ta. bound_to D ta m) \<and> jxta_message_get_ttl m \<noteq> None \<and> jxta_message_get_lifespan m \<noteq> None"

definition sane_env :: "(jxta_message \<Rightarrow> endpoint_address option option) \<Rightarrow> ep_env \<Rightarrow> bool" where
  "sane_env D E \<longleftrightarrow> message_dest E = D \<and> cfg_ncrq_size E \<noteq> 1"

lemma in_order_cong:
  "nc_table b = nc_table a \<Longrightarrow> ep_sent b = ep_sent a \<Longrightarrow> in_order D b subs ta = in_order D a subs ta"
  by (simp add: in_order_def queue_at_def delivered_def)

lemma outgoing_in_order:
  assumes all: "\<forall>tb. in_order D s subs tb" and E: "sane_env D E" and m: "sendable D m"
  shows "\<exists>res b. outgoing_message_process E s m = Some (res, b) \<and> (\<forall>tb. in_order D b (subs @ [m]) tb)"
proof -
  obtain d where d: "D m = Some (Some d)" "service_name d \<noteq> None" "bound_to D (transport_addr d) m"
    using m by (auto simp: sendable_def bound_to_def)
  obtain ttl life where q: "jxta_message_get_ttl m = Some ttl" "jxta_message_get_lifespan m = Some life"
    using m by (auto simp: sendable_def)
  have D: "message_dest E = D" "cfg_ncrq_size E \<noteq> 1"
    using E by (auto simp: sane_env_def)
  let ?ta = "transport_addr d"
  define a where "a = (if router_transport s = None
    then s\<lparr>router_transport := jxta_endpoint_service_lookup_transport s (str ''jxta'')\<rparr> else s)"
  have a: "\<forall>tb. in_order D a subs tb"
    using all by (simp add: a_def in_order_cong [of "s\<lparr>router_transport := x\<rparr>" s for x])
  show ?thesis
  proof (cases "router_transport a = None \<or> fst ttl = JXTA_SUCCESS \<and> snd ttl = Some 0 \<or>
      fst life = JXTA_SUCCESS \<and> (case snd life of None \<Rightarrow> False | Some l \<Rightarrow> ep_seconds E \<ge> l)")
    case True
    then have "\<exists>res. outgoing_message_process E s m = Some (res, a)"
      using q by (cases "router_transport a = None"; cases "fst ttl = JXTA_SUCCESS \<and> snd ttl = Some 0")
        (simp_all add: outgoing_message_process_def a_def [symmetric])
    then show ?thesis
      using a in_order_more by blast
  next
    case False
    obtain res b where b: "send_or_queue E a m d = Some (res, b)" "\<forall>tb. in_order D b (subs @ [m]) tb"
    proof (cases "nc_table a ?ta")
      case (Some e)
      then show ?thesis
        using that queue_msg_in_order [OF a Some d(3) D(1)] by (auto simp: send_or_queue_def)
    next
      case None
      then obtain st c where c: "send_message E a m (Some d) = Some (st, c)" "same_cache a c" "\<forall>tb. in_order D c (subs @ [m]) tb"
          "st \<noteq> JXTA_SUCCESS \<longrightarrow> delivered c = delivered a"
        using deliver_in_order [OF a d(3) D(1), of "Some d"] d(1) by (auto simp: queue_at_def)
      show ?thesis
      proof (cases "st = JXTA_UNREACHABLE_DEST")
        case True
        have "nc_table c ?ta = None"
          using None c(2) by (simp add: same_cache_def)
        moreover have "\<forall>tb. in_order D c subs tb"
          using in_order_same [OF _ c(2)] c(4) a True by simp
        ultimately have "\<forall>tb. in_order D (nc_add_peer E c ?ta m) (subs @ [m]) tb"
          using new_entry_in_order [OF _ d(3) _ D(2)] by blast
        moreover have "send_or_queue E a m d = Some (st, nc_add_peer E c ?ta m)"
          using None c(1) True by (simp add: send_or_queue_def)
        ultimately show ?thesis
          using that by blast
      qed (use that None c(1,3) in \<open>auto simp: send_or_queue_def\<close>)
    qed
    have "\<forall>tb. in_order D (b\<lparr>review_cnt := x\<rparr>) (subs @ [m]) tb" for x
      using b(2) by (simp add: in_order_cong [of "b\<lparr>review_cnt := x\<rparr>" b])
    then obtain c where c: "review_now E b = Some c" "\<forall>tb. in_order D c (subs @ [m]) tb"
      using review_in_order [OF _ D(1)] unfolding review_now_def nc_review_all_def Let_def by (metis (full_types))
    have "outgoing_message_process E s m = Some (res, c)"
      using False q d(1,2) D(1) b(1) c(1) unfolding outgoing_message_process_def Let_def a_def [symmetric] by auto
    then show ?thesis
      using c(2) by blast
  qed
qed

lemma event_in_order:
  assumes all: "\<forall>tb. in_order D s subs tb" and E: "sane_env D E"
  shows "\<exists>b. jxta_endpoint_service_transport_event E s e = Some b \<and> (\<forall>tb. in_order D b subs tb)"
proof -
  have add: "\<forall>tb. in_order D (messenger_add s' a p) subs tb" if "\<forall>tb. in_order D s' subs tb" for s' a p
    using that by (auto simp: messenger_add_def Let_def in_order_cong [of "s'\<lparr>messengers := x\<rparr>" s' for x] split: option.split)
  have remove: "\<forall>tb. in_order D (messenger_remove s' a) subs tb" if "\<forall>tb. in_order D s' subs tb" for s' a
    using that by (simp add: messenger_remove_def in_order_cong [of "s'\<lparr>messengers := x\<rparr>" s' for x])
  have D: "message_dest E = D"
    using E by (simp add: sane_env_def)
  let ?ea = "jxta_endpoint_address_new_3 (te_peer e) None None"
  define added where "added = (let me = messenger_add s (te_dest e) (te_msgr e)
    in case ?ea of None \<Rightarrow> me | Some a \<Rightarrow> messenger_add me a (te_msgr e))"
  have a: "\<forall>tb. in_order D added subs tb"
    using add [OF add [OF all]] add [OF all] by (cases ?ea) (simp_all add: added_def Let_def)
  obtain b where b: "check_nc_entry E added (transport_addr (te_dest e)) = Some b" "\<forall>tb. in_order D b subs tb"
    using check_in_order [OF a D] by blast
  have start: "jxta_endpoint_service_transport_event E s e =
      (case te_type e of
         JXTA_TRANSPORT_INBOUND_CONNECTED \<Rightarrow>
           do { me \<leftarrow> check_nc_entry E added (transport_addr (te_dest e));
                (case ?ea of None \<Rightarrow> Some me | Some a \<Rightarrow> check_nc_entry E me (transport_addr a)) }
       | JXTA_TRANSPORT_OUTBOUND_CONNECTED \<Rightarrow> Some added
       | JXTA_TRANSPORT_CONNECTION_CLOSED \<Rightarrow>
           (let me = messenger_remove s (te_dest e) in Some (case ?ea of None \<Rightarrow> me | Some a \<Rightarrow> messenger_remove me a)))"
    unfolding jxta_endpoint_service_transport_event_def added_def Let_def ..
  show ?thesis
  proof (cases "te_type e")
    case JXTA_TRANSPORT_INBOUND_CONNECTED
    then show ?thesis
      using b check_in_order [OF b(2) D]
      by (cases ?ea) (simp_all add: start)
  next
    case JXTA_TRANSPORT_OUTBOUND_CONNECTED
    then show ?thesis
      using a by (simp add: start)
  next
    case JXTA_TRANSPORT_CONNECTION_CLOSED
    then show ?thesis
      using remove [OF all] remove [OF remove [OF all]] by (cases ?ea) (simp_all add: start Let_def)
  qed
qed

end
