(* ===== verification/EndpointProps.thy ===== *)
theory EndpointProps
  imports EndpointQueue PeerView
begin

section \<open>Properties of the endpoint service\<close>

text \<open>
  Runs of the service keep the messages of a peer in the order in which they were processed.
  A message that is addressed to a service of a group is dispatched over the callback of the
  group to the callback of the service.  A peer can send messages whose destination makes the
  dispatch fail.
\<close>

subsection \<open>Runs\<close>

text \<open>The tasks of the service are changed by the asynchronous sends and the threads only.\<close>

lemma send_message_tasks: "send_message E me m d = Some (res, b) \<Longrightarrow> msg_tasks b = msg_tasks me"
  by (auto simp: send_message_def try_existing_messenger_def jxta_send_def messenger_remove_def Let_def
      split: option.splits if_splits bind_splits prod.splits)

lemma flush_tasks: "nc_flush E me q cap h t sent = Some (res, q', h', n, b) \<Longrightarrow> msg_tasks b = msg_tasks me"
proof (induction E me q cap h t sent rule: nc_flush.induct)
  case (1 E me q cap h t sent)
  then obtain msg r c where c: "h < length q" "q ! h = Some msg" "send_message E me msg None = Some (r, c)"
    by (auto simp: nc_flush.simps [of E me q cap h t sent] split: if_splits option.splits)
  have "nc_flush E me q cap h t sent =
      (if r \<noteq> JXTA_SUCCESS then Some (r, q, h, sent, c)
       else (let h' = if h + 1 \<ge> cap then 0 else h + 1 in
         if int h' = t then Some (r, q[h := None], h', sent + 1, c) else nc_flush E c (q[h := None]) cap h' t (sent + 1)))"
    using c by (subst nc_flush.simps) simp
  then show ?case
    using 1(2) send_message_tasks [OF c(3)] 1(1) [OF c(1,2,3) refl] by (auto simp: Let_def split: if_splits)
qed

lemma process_queue_tasks: "nc_peer_process_queue E me e = Some (res, f, b) \<Longrightarrow> msg_tasks b = msg_tasks me"
  by (auto simp: nc_peer_process_queue_def Let_def dest: flush_tasks split: option.splits if_splits bind_splits)

lemma remove_peer_tasks: "nc_remove_peer me ta e = Some b \<Longrightarrow> msg_tasks b = msg_tasks me"
  by (auto simp: nc_remove_peer_def split: if_splits)

lemma queue_msg_tasks: "nc_peer_queue_msg E me ta e m = Some (res, b) \<Longrightarrow> msg_tasks b = msg_tasks me"
  by (auto simp: nc_peer_queue_msg_def Let_def dest!: process_queue_tasks send_message_tasks remove_peer_tasks
      split: option.splits if_splits bind_splits)

lemma review_tasks: "nc_review E order me = Some b \<Longrightarrow> msg_tasks b = msg_tasks me"
proof (induction order arbitrary: me)
  case (Cons ta order)
  then show ?case
    by (auto simp: Let_def dest!: process_queue_tasks remove_peer_tasks split: option.splits if_splits bind_splits)
qed simp

lemma check_tasks: "check_nc_entry E me ta = Some b \<Longrightarrow> msg_tasks b = msg_tasks me"
  by (auto simp: check_nc_entry_def Let_def dest!: process_queue_tasks remove_peer_tasks split: option.splits if_splits bind_splits)

lemma send_or_queue_tasks: "send_or_queue E me m d = Some (res, b) \<Longrightarrow> msg_tasks b = msg_tasks me"
  by (auto simp: send_or_queue_def nc_add_peer_def Let_def dest!: queue_msg_tasks send_message_tasks
      split: option.splits if_splits bind_splits)

lemma review_now_tasks: "review_now E me = Some b \<Longrightarrow> msg_tasks b = msg_tasks me"
  by (auto simp: review_now_def nc_review_all_def Let_def dest!: review_tasks split: if_splits)

lemma outgoing_tasks: "outgoing_message_process E me m = Some (res, b) \<Longrightarrow> msg_tasks b = msg_tasks me"
  by (auto simp: outgoing_message_process_def Let_def dest!: send_or_queue_tasks review_now_tasks
      split: option.splits if_splits bind_splits)

lemma messenger_tasks: "msg_tasks (messenger_add me a p) = msg_tasks me" "msg_tasks (messenger_remove me a) = msg_tasks me"
  by (auto simp: messenger_add_def messenger_remove_def Let_def split: option.split)

lemma event_tasks: "jxta_endpoint_service_transport_event E me e = Some b \<Longrightarrow> msg_tasks b = msg_tasks me"
  by (auto simp: jxta_endpoint_service_transport_event_def Let_def messenger_tasks dest!: check_tasks
      split: option.splits transport_event_type.splits bind_splits)

text \<open>
  The operations that send: a send, at once or by a thread of the pool later, such a thread with
  the task it takes, events of the transports, and the life cycle.  A step gives the messages that
  it processed.
\<close>

datatype ep_op =
  Submit jxta_message endpoint_address bool
| Run_task nat
| Happen transport_event
| Plug ctext ptr
| Go
| Halt

fun ep_step :: "ep_env \<Rightarrow> ep_op \<Rightarrow> endpoint \<Rightarrow> (jxta_message list \<times> endpoint) option" where
  "ep_step E (Submit msg dest sync) me =
     do { (res, msg, me) \<leftarrow> jxta_endpoint_service_send_ex E me msg dest sync;
          Some (if sync \<and> service_name dest \<noteq> None then [msg] else [], me) }"
| "ep_step E (Run_task i) me =
     (if i < length (msg_tasks me)
      then do { b \<leftarrow> outgoing_message_thread E i me; Some (if ep_started me then [msg_tasks me ! i] else [], b) }
      else Some ([], me))"
| "ep_step E (Happen e) me = do { me \<leftarrow> jxta_endpoint_service_transport_event E me e; Some ([], me) }"
| "ep_step E (Plug name t) me = Some ([], jxta_endpoint_service_add_transport me name t)"
| "ep_step E Go me = Some ([], endpoint_start me)"
| "ep_step E Halt me = Some ([], endpoint_stop me)"

fun ep_run :: "(ep_env \<times> ep_op) list \<Rightarrow> endpoint \<Rightarrow> (jxta_message list \<times> endpoint) option" where
  "ep_run [] me = Some ([], me)"
| "ep_run ((E, op) # ops) me =
     do { (xs, me) \<leftarrow> ep_step E op me; (ys, me) \<leftarrow> ep_run ops me; Some (xs @ ys, me) }"

text \<open>A message that is sent can be sent once it has its destination.\<close>

definition submit_ok :: "(jxta_message \<Rightarrow> endpoint_address option option) \<Rightarrow> ep_env \<Rightarrow> ep_op \<Rightarrow> bool" where
  "submit_ok D E op =
     (case op of
        Submit msg dest sync \<Rightarrow> service_name dest = None \<or>
          (\<exists>st m. jxta_message_set_destination (ep_alloc E) msg dest = Some (st, m) \<and> sendable D m)
      | _ \<Rightarrow> True)"

definition ep_inv :: "(jxta_message \<Rightarrow> endpoint_address option option) \<Rightarrow> endpoint \<Rightarrow> jxta_message list \<Rightarrow> bool" where
  "ep_inv D s subs \<longleftrightarrow> (\<forall>ta. in_order D s subs ta) \<and> (\<forall>m\<in>set (msg_tasks s). sendable D m)"

lemma outgoing_inv:
  assumes "ep_inv D s subs" "sane_env D E" "sendable D m"
  shows "\<exists>res b. outgoing_message_process E s m = Some (res, b) \<and> ep_inv D b (subs @ [m])"
  using outgoing_in_order [OF _ assms(2,3), of s subs] assms(1) outgoing_tasks unfolding ep_inv_def by metis

lemma ep_inv_cong:
  assumes "ep_inv D a subs" "nc_table b = nc_table a" "ep_sent b = ep_sent a" "set (msg_tasks b) \<subseteq> set (msg_tasks a)"
  shows "ep_inv D b subs"
  using assms in_order_cong [of b a] unfolding ep_inv_def by blast

lemma submit_inv:
  assumes inv: "ep_inv D s subs" and E: "sane_env D E" and ok: "submit_ok D E (Submit msg dest sync)"
  shows "\<exists>xs b. ep_step E (Submit msg dest sync) s = Some (xs, b) \<and> ep_inv D b (subs @ xs)"
proof (cases "service_name dest = None")
  case True
  then show ?thesis
    using inv by (simp add: jxta_endpoint_service_send_ex_def)
next
  case False
  then obtain st m where m: "jxta_message_set_destination (ep_alloc E) msg dest = Some (st, m)" "sendable D m"
    using ok by (auto simp: submit_ok_def)
  show ?thesis
  proof (cases sync)
    case True
    then show ?thesis
      using outgoing_inv [OF inv E m(2)] False m(1) by (auto simp: jxta_endpoint_service_send_ex_def)
  next
    case async: False
    let ?b = "s\<lparr>msg_tasks := msg_tasks s @ [m], msg_task_cnt := msg_task_cnt s + 1\<rparr>"
    have "ep_inv D ?b subs"
      using inv m(2) in_order_cong [of ?b s] by (simp add: ep_inv_def)
    then show ?thesis
      using False m(1) async by (auto simp: jxta_endpoint_service_send_ex_def Let_def)
  qed
qed

lemma task_inv:
  assumes inv: "ep_inv D s subs" and E: "sane_env D E"
  shows "\<exists>xs b. ep_step E (Run_task i) s = Some (xs, b) \<and> ep_inv D b (subs @ xs)"
proof (cases "i < length (msg_tasks s)")
  case False
  then show ?thesis
    using inv by simp
next
  case i: True
  let ?m = "msg_tasks s ! i" and ?a = "s\<lparr>msg_tasks := take i (msg_tasks s) @ drop (Suc i) (msg_tasks s)\<rparr>"
  have m: "sendable D ?m"
    using inv i by (simp add: ep_inv_def)
  have a: "ep_inv D ?a subs"
    by (rule ep_inv_cong [OF inv]) (auto dest: in_set_takeD in_set_dropD)
  show ?thesis
  proof (cases "ep_started s")
    case True
    obtain res b where "outgoing_message_process E (?a\<lparr>msg_task_cnt := msg_task_cnt s - 1\<rparr>) ?m = Some (res, b)"
        "ep_inv D b (subs @ [?m])"
      using outgoing_inv [OF ep_inv_cong [OF a, of "?a\<lparr>msg_task_cnt := msg_task_cnt s - 1\<rparr>"] E m] by auto
    then show ?thesis
      using i True by (simp add: outgoing_message_thread_def Let_def)
  qed (use i a in \<open>simp add: outgoing_message_thread_def Let_def\<close>)
qed

lemma step_inv:
  assumes inv: "ep_inv D s subs" and E: "sane_env D E" and ok: "submit_ok D E op"
  shows "\<exists>xs b. ep_step E op s = Some (xs, b) \<and> ep_inv D b (subs @ xs)"
proof (cases op)
  case (Happen e)
  then show ?thesis
    using event_in_order [OF _ E, of s subs e] inv event_tasks unfolding ep_inv_def by fastforce
next
  case (Plug name t)
  then show ?thesis
    using ep_inv_cong [OF inv] by (simp add: jxta_endpoint_service_add_transport_def)
next
  case Go
  then show ?thesis
    using ep_inv_cong [OF inv] by (simp add: endpoint_start_def)
next
  case Halt
  then show ?thesis
    using ep_inv_cong [OF inv] by (simp add: endpoint_stop_def)
qed (use submit_inv [OF inv E] task_inv [OF inv E] ok in auto)

lemma run_inv:
  assumes "ep_inv D s subs" "\<forall>(E, op) \<in> set ops. sane_env D E \<and> submit_ok D E op"
  shows "\<exists>xs b. ep_run ops s = Some (xs, b) \<and> ep_inv D b (subs @ xs)"
  using assms
proof (induction ops arbitrary: s subs)
  case (Cons x ops)
  obtain E op where x: "x = (E, op)"
    by fastforce
  then obtain xs b where b: "ep_step E op s = Some (xs, b)" "ep_inv D b (subs @ xs)"
    using step_inv [OF Cons.prems(1)] Cons.prems(2) by fastforce
  then obtain ys c where "ep_run ops b = Some (ys, c)" "ep_inv D c ((subs @ xs) @ ys)"
    using Cons.IH [OF b(2)] Cons.prems(2) by auto
  then show ?case
    using x b(1) by simp
qed simp


text \<open>
  A sample: a peer cannot be reached for two messages, which wait, and can be when the third is
  sent.
\<close>

lemma destination_set:
  assumes "big_alloc A" "ea_printable b" "uri_law parse b" "length (ea_text b) < 2 ^ 60"
  shows "\<exists>m. jxta_message_set_destination A msg b = Some (JXTA_SUCCESS, m) \<and>
    jxta_message_get_destination A parse m = Some (Some b) \<and> mqos m = mqos msg"
  using set_address_ok [OF assms(1,2,4), of MESSAGE_DESTINATION_NS MESSAGE_DESTINATION_NAME msg] element_address_ok [OF assms]
  by (simp add: jxta_message_set_destination_def jxta_message_get_destination_def get_element_last)

definition sample_ep_env :: "bool \<Rightarrow> int \<Rightarrow> ep_env" where
  "sample_ep_env reach now =
     \<lparr>ep_now = now, ep_seconds = 0, ep_alloc = all_alloc, ep_parse = plain_uri, cfg_nc_timeout_init = 10,
      cfg_nc_timeout_max = 100, cfg_ncrq_size = 4, cfg_ncrq_retry = 20, ep_jxta_send = \<lambda>_ _. JXTA_SUCCESS,
      ep_router_messenger = \<lambda>_ _. (if reach then Some 7 else None), ep_callback = \<lambda>_. JXTA_SUCCESS,
      ep_filter = \<lambda>_ _ _. True, ep_nc_order = []\<rparr>"

definition sample_text_message :: "u8 \<Rightarrow> jxta_message" where
  "sample_text_message c = \<lparr>melements = [Element [] (str ''text'') None [c] None], mqos = None\<rparr>"

definition sample_ops :: "(ep_env \<times> ep_op) list" where
  "sample_ops =
     [(sample_ep_env False 0, Plug (str ''jxta'') 5),
      (sample_ep_env False 1, Submit (sample_text_message 1) sample_address True),
      (sample_ep_env False 2, Submit (sample_text_message 2) sample_address True),
      (sample_ep_env True 30, Submit (sample_text_message 3) sample_address True)]"

lemma sample_destination:
  obtains m where "jxta_message_set_destination all_alloc (sample_text_message c) sample_address = Some (JXTA_SUCCESS, m)"
    "jxta_message_get_destination all_alloc plain_uri m = Some (Some sample_address)" "mqos m = None"
proof -
  have "big_alloc all_alloc" "length (ea_text sample_address) < 2 ^ 60"
    using sample_address_law(4) by (simp_all add: big_alloc_def all_alloc_def size_text)
  then show ?thesis
    using that destination_set [of all_alloc sample_address plain_uri "sample_text_message c"] sample_address_law(2,3)
    by (auto simp: sample_text_message_def)
qed

definition sample_D :: "jxta_message \<Rightarrow> endpoint_address option option" where
  "sample_D = jxta_message_get_destination all_alloc plain_uri"

lemma sample_ops_ok: "\<forall>(E, op) \<in> set sample_ops. sane_env sample_D E \<and> submit_ok sample_D E op"
proof -
  have env: "sane_env sample_D (sample_ep_env r t)" for r t
    by (simp add: sane_env_def message_dest_def [abs_def] sample_D_def [abs_def] sample_ep_env_def)
  have "submit_ok sample_D (sample_ep_env r t) (Submit (sample_text_message c) sample_address b)" for r t c b
  proof -
    obtain m where m: "jxta_message_set_destination all_alloc (sample_text_message c) sample_address = Some (JXTA_SUCCESS, m)"
        "jxta_message_get_destination all_alloc plain_uri m = Some (Some sample_address)" "mqos m = None"
      by (rule sample_destination)
    have "bound_to sample_D (transport_addr sample_address) m"
      using m(2) by (simp add: bound_to_def sample_D_def sample_address_def)
    then show ?thesis
      using m(1,3) by (auto simp: submit_ok_def sample_ep_env_def sendable_def jxta_message_get_ttl_def
          jxta_message_get_lifespan_def qos_number_def)
  qed
  then show ?thesis
    using env by (simp add: sample_ops_def submit_ok_def)
qed

text \<open>All three messages of the sample are delivered.\<close>

lemma sample_delivered:
  "\<exists>a b c me. ep_run sample_ops (endpoint_init []) = Some ([a, b, c], me) \<and> delivered me = [a, b, c]"
proof -
  have D: "message_dest (sample_ep_env r t) m = jxta_message_get_destination all_alloc plain_uri m" for r t m
    by (simp add: message_dest_def sample_ep_env_def)
  obtain a where a: "jxta_message_set_destination all_alloc (sample_text_message 1) sample_address = Some (JXTA_SUCCESS, a)"
      "jxta_message_get_destination all_alloc plain_uri a = Some (Some sample_address)" "mqos a = None"
    by (rule sample_destination)
  obtain b where b: "jxta_message_set_destination all_alloc (sample_text_message 2) sample_address = Some (JXTA_SUCCESS, b)"
      "jxta_message_get_destination all_alloc plain_uri b = Some (Some sample_address)" "mqos b = None"
    by (rule sample_destination)
  obtain c where c: "jxta_message_set_destination all_alloc (sample_text_message 3) sample_address = Some (JXTA_SUCCESS, c)"
      "jxta_message_get_destination all_alloc plain_uri c = Some (Some sample_address)" "mqos c = None"
    by (rule sample_destination)
  obtain s where s: "service_name sample_address = Some s"
    by (simp add: sample_address_def)
  have q: "jxta_message_get_ttl m = Some (JXTA_ITEM_NOTFOUND, None)" "jxta_message_get_lifespan m = Some (JXTA_ITEM_NOTFOUND, None)"
    if "mqos m = None" for m
    using that by (simp_all add: jxta_message_get_ttl_def jxta_message_get_lifespan_def qos_number_def)
  note q = q [OF a(3)] q [OF b(3)] q [OF c(3)]
  have env: "ep_alloc (sample_ep_env r t) = all_alloc" "ep_now (sample_ep_env r t) = t" "cfg_nc_timeout_init (sample_ep_env r t) = 10"
      "cfg_nc_timeout_max (sample_ep_env r t) = 100" "cfg_ncrq_size (sample_ep_env r t) = 4" "cfg_ncrq_retry (sample_ep_env r t) = 20"
      "ep_nc_order (sample_ep_env r t) = []" "ep_jxta_send (sample_ep_env r t) = (\<lambda>_ _. JXTA_SUCCESS)"
      "ep_router_messenger (sample_ep_env r t) = (\<lambda>_ _. if r then Some 7 else None)" for r t
    by (simp_all add: sample_ep_env_def)
  show ?thesis
    by (rule exI [of _ a], rule exI [of _ b], rule exI [of _ c])
      (simp add: sample_ops_def jxta_endpoint_service_send_ex_def a b c q s D endpoint_init_def outgoing_message_process_def
        send_or_queue_def send_message_def try_existing_messenger_def jxta_send_def jxta_endpoint_service_add_transport_def
        jxta_endpoint_service_lookup_transport_def nc_add_peer_def review_now_def nc_review_all_def nc_peer_queue_msg_def
        nc_peer_process_queue_def nc_store_def nc_remove_peer_def nc_flush.simps delivered_def Let_def env)
qed


subsection \<open>Dispatch over groups\<close>

text \<open>A sent message carries its destination to every peer that parses addresses as documented.\<close>

definition addressable :: "ep_env \<Rightarrow> endpoint_address \<Rightarrow> bool" where
  "addressable E a \<longleftrightarrow> big_alloc (ep_alloc E) \<and> ea_printable a \<and> uri_law (ep_parse E) a \<and> length (ea_text a) < 2 ^ 60"

lemma sent_destination:
  assumes "addressable A a" "addressable B a" "service_name a \<noteq> None"
  shows "\<exists>st m S'. jxta_endpoint_service_send_ex A S msg a False = Some (st, m, S') \<and> msg_tasks S' = msg_tasks S @ [m] \<and>
    message_dest B m = Some (Some a)"
proof -
  obtain m where m: "jxta_message_set_destination (ep_alloc A) msg a = Some (JXTA_SUCCESS, m)"
      "m = msg\<lparr>melements := melements (snd (jxta_message_remove_element_2 msg MESSAGE_DESTINATION_NS MESSAGE_DESTINATION_NAME)) @
        [Element MESSAGE_DESTINATION_NS MESSAGE_DESTINATION_NAME (Some (str ''text/plain'')) (ea_text a) None]\<rparr>"
    using set_address_ok [of "ep_alloc A" a] assms(1) by (simp add: addressable_def jxta_message_set_destination_def)
  have "message_dest B m = Some (Some a)"
    using element_address_ok assms(2) m(2)
    by (simp add: message_dest_def jxta_message_get_destination_def get_element_last addressable_def del: str_simps)
  then show ?thesis
    using m(1) assms(3) by (auto simp: jxta_endpoint_service_send_ex_def Let_def)
qed

definition unfiltered :: "ep_env \<Rightarrow> endpoint \<Rightarrow> bool" where
  "unfiltered E R \<longleftrightarrow> (\<exists>fs. filter_list R = Some fs \<and> (\<forall>(f, arg) \<in> set fs. \<forall>m. ep_filter E f arg m))"

lemma run_filters_pass: "\<forall>(f, arg) \<in> set fs. \<forall>m. ep_filter E f arg m \<Longrightarrow> run_filters E m fs"
  by (induction fs) auto

lemma demux_unfiltered:
  assumes "unfiltered E R" "ep_started R" "message_dest E m = Some (Some d)"
  shows "jxta_endpoint_service_demux depth E R m =
    do { (st, s) \<leftarrow> endpoint_service_demux depth E R (service_name d) (service_params d) m;
         if st \<noteq> JXTA_ITEM_NOTFOUND then Some s
         else do { listener \<leftarrow> lookup_listener s d;
                   Some (case listener of None \<Rightarrow> s | Some l \<Rightarrow> s\<lparr>ep_called := ep_called s @ [(l, m)]\<rparr>) } }"
  using assms run_filters_pass [of _ E m]
  by (auto simp: jxta_endpoint_service_demux_def jxta_endpoint_service_demux_addr_def unfiltered_def)

text \<open>
  C21: A message that a peer sends to a service of a group with \<open>jxta_PG_async_send\<close> waits for a
  thread with its destination, and at the other peer, which has registered a recipient for this
  service with \<open>jxta_PG_add_recipient\<close> and has not removed it, the callback of this recipient gets
  the message.  (Both peers print and parse the address as documented.)
\<close>

theorem group_recipient_reached:
  assumes "jxta_endpoint_address_new_3 peer (Some ep_name) (get_service_key (Some name) param) = Some a"
    and "addressable A a" "addressable B a"
    and "jxta_PG_add_recipient ep_name R0 (Some name) param f = Some (JXTA_SUCCESS, Some cookie, R1)" "cb_table R cookie = cb_table R1 cookie"
    and "ep_callback B f \<noteq> JXTA_ITEM_NOTFOUND" "ep_started R" "unfiltered B R"
  shows "\<exists>st m S'. jxta_PG_async_send A ep_name S msg peer (Some name) param = Some (st, m, S') \<and>
    msg_tasks S' = msg_tasks S @ [m] \<and>
    jxta_endpoint_service_demux (Suc depth) B R m = Some (R\<lparr>ep_called := ep_called R @ [(f, m)]\<rparr>)"
proof -
  have a: "service_name a = Some ep_name" "service_params a = get_service_key (Some name) param"
    using assms(1) by (auto simp: jxta_endpoint_address_new_3_def jxta_endpoint_address_new_2_def split: option.splits)
  obtain st m S' where m: "jxta_endpoint_service_send_ex A S msg a False = Some (st, m, S')" "msg_tasks S' = msg_tasks S @ [m]"
      "message_dest B m = Some (Some a)"
    using sent_destination [OF assms(2,3), of S msg] a(1) by auto
  obtain k where k: "get_service_key (Some ep_name) (get_service_key (Some name) param) = Some k" "cb_table R k = Some (Service_callback f)"
    using assms(4,5) by (auto simp: jxta_PG_add_recipient_def endpoint_service_add_recipient_def split: option.splits bind_splits)
  have "endpoint_service_demux (Suc depth) B R (service_name a) (service_params a) m =
      Some (ep_callback B f, R\<lparr>ep_called := ep_called R @ [(f, m)]\<rparr>)"
    using k a by simp
  then show ?thesis
    using demux_unfiltered [OF assms(8,7) m(3), of "Suc depth"] assms(1,6) m(1,2) by (simp add: jxta_PG_async_send_def)
qed

text \<open>The name of a group at the endpoint service has the text that its peerview uses.\<close>

lemma group_ep_name_unique:
  assumes "snd (jxta_id_get_uniqueportion (Some gid)) = Some u"
  shows "group_ep_name gid = str ''EndpointService:'' @ u"
proof (cases "jxta_id_equals (Some gid) (Some (IdStatic DefaultNetPeerGroupID))")
  case True
  then have "u = str ''jxta-NetGroup''"
    using assms by (cases gid) (auto simp: id_equals_iff formatter_def jxta_id_get_uniqueportion_def id_formats uniquevalue_def
        jxta_getUniqueportion_def well_known_value_def split: well_known.splits)
  then show ?thesis
    using True by (simp add: group_ep_name_def)
qed (use assms in \<open>simp add: group_ep_name_def\<close>)

text \<open>
  An endpoint service where the group is started and a peerview listens, with no recipient that
  hides the listener.
\<close>

definition listens :: "endpoint \<Rightarrow> ctext \<Rightarrow> ctext \<Rightarrow> ptr \<Rightarrow> bool" where
  "listens R ep_name u l \<longleftrightarrow>
     cb_table R ep_name = Some Group_callback \<and> listener_table R (JXTA_PEERVIEW_NAME @ u) = Some l \<and>
     (let p = JXTA_PEERVIEW_NAME @ str ''/'' @ u in
      cb_table R (ep_name @ str ''/'' @ p) = None \<and> cb_table R p = None \<and> cb_table R JXTA_PEERVIEW_NAME = None \<and>
      listener_table R (ep_name @ p) = None)"

lemma listens_started:
  assumes "peergroup_start gid (endpoint_init g) = Some (st, c, R0)"
    and "jxta_endpoint_service_add_listener R0 (Some JXTA_PEERVIEW_NAME) (Some u) l = (st', R1)"
  shows "listens (endpoint_start R1) (group_ep_name gid) u l" "ep_started (endpoint_start R1)" "unfiltered E (endpoint_start R1)"
proof -
  have R0: "R0 = (endpoint_init g)\<lparr>cb_table := [group_ep_name gid \<mapsto> Group_callback]\<rparr>"
    using assms(1) by (auto simp: peergroup_start_def endpoint_service_add_recipient_def get_service_key_def endpoint_init_def)
  then have R1: "R1 = R0\<lparr>listener_table := [JXTA_PEERVIEW_NAME @ u \<mapsto> l]\<rparr>"
    using assms(2) by (auto simp: jxta_endpoint_service_add_listener_def listener_key_def endpoint_init_def)
  show "listens (endpoint_start R1) (group_ep_name gid) u l"
    by (auto simp: R0 R1 listens_def endpoint_start_def endpoint_init_def group_ep_name_def JXTA_PEERVIEW_NAME_def Let_def)
  show "ep_started (endpoint_start R1)" "unfiltered E (endpoint_start R1)"
    by (simp_all add: R0 R1 endpoint_start_def endpoint_init_def unfiltered_def)
qed

lemma peerview_param:
  assumes "47 \<notin> set u"
  shows "split_param (JXTA_PEERVIEW_NAME @ str ''/'' @ u) = (JXTA_PEERVIEW_NAME, Some u)"
    "filter (\<lambda>c. c \<noteq> 47) (JXTA_PEERVIEW_NAME @ str ''/'' @ u) = JXTA_PEERVIEW_NAME @ u"
proof -
  have "filter (\<lambda>c. c \<noteq> 47) u = u"
    using assms by (auto simp: filter_id_conv)
  then show "split_param (JXTA_PEERVIEW_NAME @ str ''/'' @ u) = (JXTA_PEERVIEW_NAME, Some u)"
      "filter (\<lambda>c. c \<noteq> 47) (JXTA_PEERVIEW_NAME @ str ''/'' @ u) = JXTA_PEERVIEW_NAME @ u"
    by (simp_all add: split_param_def JXTA_PEERVIEW_NAME_def)
qed

text \<open>The address of the peerview of a group at a peer, with the name of the group.\<close>

definition group_peerview :: "ctext \<Rightarrow> ctext \<Rightarrow> endpoint_address \<Rightarrow> endpoint_address" where
  "group_peerview ep_name u d =
     d\<lparr>service_name := Some ep_name, service_params := Some (JXTA_PEERVIEW_NAME @ str ''/'' @ u)\<rparr>"

lemma peerview_dispatch:
  assumes "listens R ep_name u l" "ep_started R" "unfiltered B R" "47 \<notin> set u" "message_dest B m = Some (Some (group_peerview ep_name u d))"
  shows "jxta_endpoint_service_demux (Suc (Suc depth)) B R m = Some (R\<lparr>ep_called := ep_called R @ [(l, m)]\<rparr>)"
proof -
  let ?p = "JXTA_PEERVIEW_NAME @ str ''/'' @ u"
  have R: "cb_table R ep_name = Some Group_callback" "listener_table R (JXTA_PEERVIEW_NAME @ u) = Some l"
      "cb_table R (ep_name @ str ''/'' @ ?p) = None" "cb_table R ?p = None" "cb_table R JXTA_PEERVIEW_NAME = None"
      "listener_table R (ep_name @ ?p) = None"
    using assms(1) by (simp_all only: listens_def Let_def)
  have "endpoint_service_demux (Suc (Suc depth)) B R (Some ep_name) (Some ?p) m = Some (JXTA_ITEM_NOTFOUND, R)"
    using R assms(5) by (simp add: get_service_key_def peerview_param(1) [OF assms(4)] group_peerview_def del: str_simps append_assoc)
  moreover have "lookup_listener R (group_peerview ep_name u d) = Some (Some l)"
    using R by (simp add: lookup_listener_def group_peerview_def peerview_param(2) [OF assms(4)] Let_def del: str_simps append_assoc filter_append)
  ultimately show ?thesis
    using demux_unfiltered [OF assms(3,2,5), of "Suc (Suc depth)"] by (simp add: group_peerview_def del: endpoint_service_demux.simps)
qed

text \<open>
  C22: Whatever the protocol of the address to which a peerview sends a message, the endpoint
  service sends it to the name of the group with the peerview as parameter, and at a peer that has
  started the group and whose peerview has registered its listener, the dispatch over the callback
  of the group and the table of listeners ends at this listener.  (Both peers print and parse the
  address as documented; with \<open>probe_exchange\<close> the two peers come into each other's view.)
\<close>

theorem peerview_listener_reached:
  assumes "snd (jxta_id_get_uniqueportion (Some gid)) = Some (pv_gid self)" "47 \<notin> set (pv_gid self)"
    and "addressable A (group_peerview (group_ep_name gid) (pv_gid self) d)" "addressable B (group_peerview (group_ep_name gid) (pv_gid self) d)"
    and "peergroup_start gid (endpoint_init g) = Some (st0, c, R0)"
    and "jxta_endpoint_service_add_listener R0 (Some JXTA_PEERVIEW_NAME) (Some (pv_gid self)) l = (st1, R1)"
  shows "\<exists>st m S'. jxta_endpoint_service_send_async A (group_ep_name gid) S msg (pv_dest self d) = Some (st, m, S') \<and>
    msg_tasks S' = msg_tasks S @ [m] \<and>
    jxta_endpoint_service_demux (Suc (Suc depth)) B (endpoint_start R1) m =
      Some ((endpoint_start R1)\<lparr>ep_called := ep_called (endpoint_start R1) @ [(l, m)]\<rparr>)"
proof -
  let ?a = "group_peerview (group_ep_name gid) (pv_gid self) d"
  note name = group_ep_name_unique [OF assms(1)]
  have "jxta_endpoint_service_send_async A (group_ep_name gid) S msg (pv_dest self d) = jxta_endpoint_service_send_ex A S msg ?a False"
  proof (cases "protocol_name d = str ''jxta''")
    case True
    then show ?thesis
      by (cases d) (simp add: jxta_endpoint_service_send_async_def do_crossgroup_send_def pv_dest_def JXTA_PEERVIEW_NAME_def
          JXTA_ENDPOINT_SERVICE_NAME_def jxta_PG_get_recipient_addr_def jxta_endpoint_address_new_2_def group_peerview_def get_service_key_def)
  next
    case False
    then show ?thesis
      by (simp add: jxta_endpoint_service_send_async_def do_crossgroup_send_def pv_dest_def JXTA_ENDPOINT_SERVICE_NAME_def
          group_peerview_def name)
  qed
  moreover obtain st m S' where "jxta_endpoint_service_send_ex A S msg ?a False = Some (st, m, S')" "msg_tasks S' = msg_tasks S @ [m]"
      "message_dest B m = Some (Some ?a)"
    using sent_destination [OF assms(3,4), of S msg] by (auto simp: group_peerview_def)
  ultimately show ?thesis
    using peerview_dispatch [OF listens_started [OF assms(5,6)] assms(2), of B m d depth] by auto
qed

text \<open>Samples: a group with one recipient, and a group with a peerview.\<close>

lemma sample_env_law: "big_alloc (ep_alloc (sample_ep_env r t))" "ep_parse (sample_ep_env r t) = plain_uri"
  by (simp_all add: sample_ep_env_def big_alloc_def all_alloc_def)

theorem group_recipient_reached_witness:
  "\<exists>c R1 st m S'. let E = sample_ep_env True 0; R = endpoint_start R1 in
    jxta_PG_add_recipient (str ''EndpointService:Net'') (endpoint_init []) (Some (str ''Svc'')) (Some (str ''x'')) 9 = Some (JXTA_SUCCESS, Some c, R1) \<and>
    jxta_PG_async_send E (str ''EndpointService:Net'') (endpoint_init []) (sample_text_message 1) (IdJxta (str ''A''))
      (Some (str ''Svc'')) (Some (str ''x'')) = Some (st, m, S') \<and>
    jxta_endpoint_service_demux 1 E R m = Some (R\<lparr>ep_called := [(9, m)]\<rparr>)"
proof -
  let ?E = "sample_ep_env True 0" and ?ep = "str ''EndpointService:Net''" and ?n = "Some (str ''Svc'')" and ?p = "Some (str ''x'')"
  obtain c R1 where R1: "jxta_PG_add_recipient ?ep (endpoint_init []) ?n ?p 9 = Some (JXTA_SUCCESS, Some c, R1)" "ep_called R1 = []"
      "filter_list R1 = Some []"
    by (simp add: jxta_PG_add_recipient_def endpoint_service_add_recipient_def get_service_key_def endpoint_init_def)
  define a where "a = \<lparr>protocol_name = str ''jxta'', protocol_address = str ''jxta-A'', service_name = Some ?ep,
    service_params = Some (str ''Svc/x'')\<rparr>"
  have "addressable ?E a"
    using sample_env_law by (simp add: addressable_def a_def ea_printable_def uri_law_def plain_uri_def ea_text_def ea_rest_def Let_def uri_host_def)
  moreover have "jxta_endpoint_address_new_3 (IdJxta (str ''A'')) (Some ?ep) (get_service_key ?n ?p) = Some a"
    by (simp add: a_def jxta_endpoint_address_new_3_def jxta_endpoint_address_new_2_def get_service_key_def
        jxta_id_get_uniqueportion_def formatter_def id_formats jxta_getUniqueportion_def uniquevalue_def)
  moreover have "unfiltered ?E (endpoint_start R1)" "ep_started (endpoint_start R1)" "cb_table (endpoint_start R1) c = cb_table R1 c"
      "ep_called (endpoint_start R1) = []" "ep_callback ?E 9 \<noteq> JXTA_ITEM_NOTFOUND"
    using R1 by (simp_all add: endpoint_start_def unfiltered_def sample_ep_env_def)
  ultimately show ?thesis
    using group_recipient_reached [of "IdJxta (str ''A'')" ?ep "str ''Svc''" ?p a ?E ?E "endpoint_init []" 9 c R1 "endpoint_start R1"
        "endpoint_init []" "sample_text_message 1" 0] R1(1) unfolding Let_def by fastforce
qed

theorem peerview_listener_reached_witness:
  "\<exists>c R0 R1 st m S'. let E = sample_ep_env True 0; R = endpoint_start R1; g = IdStatic DefaultNetPeerGroupID in
    peergroup_start g (endpoint_init []) = Some (JXTA_SUCCESS, c, R0) \<and>
    jxta_endpoint_service_send_async E (group_ep_name g) (endpoint_init []) (sample_text_message 1)
      (pv_dest (peerview_construct (str ''jxta-NetGroup'')) sample_address) = Some (st, m, S') \<and>
    jxta_endpoint_service_demux 2 E R m = Some (R\<lparr>ep_called := [(9, m)]\<rparr>)"
proof -
  let ?E = "sample_ep_env True 0" and ?g = "IdStatic DefaultNetPeerGroupID" and ?pv = "peerview_construct (str ''jxta-NetGroup'')"
  have u: "snd (jxta_id_get_uniqueportion (Some ?g)) = Some (pv_gid ?pv)" "47 \<notin> set (pv_gid ?pv)" "pv_gid ?pv = str ''jxta-NetGroup''"
    by (simp_all add: peerview_construct_def jxta_id_get_uniqueportion_def formatter_def id_formats jxta_getUniqueportion_def
        uniquevalue_def well_known_value_def)
  obtain c R0 where R0: "peergroup_start ?g (endpoint_init []) = Some (JXTA_SUCCESS, c, R0)" "ep_called R0 = []"
    by (simp add: peergroup_start_def endpoint_service_add_recipient_def get_service_key_def endpoint_init_def)
  obtain st R1 where R1: "jxta_endpoint_service_add_listener R0 (Some JXTA_PEERVIEW_NAME) (Some (pv_gid ?pv)) 9 = (st, R1)"
    by fastforce
  then have "ep_called (endpoint_start R1) = []"
    using R0(2) by (auto simp: jxta_endpoint_service_add_listener_def endpoint_start_def Let_def split: if_splits)
  moreover have "addressable ?E (group_peerview (group_ep_name ?g) (pv_gid ?pv) sample_address)"
    using sample_env_law group_ep_name_unique [OF u(1)] u(3)
    by (simp add: addressable_def group_peerview_def sample_address_def JXTA_PEERVIEW_NAME_def ea_printable_def uri_law_def
        plain_uri_def ea_text_def ea_rest_def Let_def uri_host_def)
  ultimately show ?thesis
    using peerview_listener_reached [OF u(1,2) _ _ R0(1) R1, of ?E sample_address ?E "endpoint_init []" "sample_text_message 1" 0] R0(1)
    unfolding Let_def numeral_2_eq_2 by fastforce
qed

subsection \<open>Hostile destinations\<close>

text \<open>The callback of a group that is sent to the group itself dispatches for ever.\<close>

lemma group_loop:
  assumes "message_dest E m = Some (Some d)" "service_params d = Some t" "cb_table R n = Some Group_callback"
    and "split_param t = (n, q)" "q = None \<or> (\<exists>x. q = Some x \<and> cb_table R (n @ str ''/'' @ x) = None)"
  shows "endpoint_service_demux depth E R (Some n) q m = None"
proof (induction depth)
  case (Suc depth)
  then show ?case
    using assms by (cases q) (auto simp: get_service_key_def)
qed simp

lemma split_param_self: "47 \<notin> set n \<Longrightarrow> split_param n = (n, None)" "47 \<notin> set n \<Longrightarrow> split_param (n @ str ''/'' @ x) = (n, Some x)"
  by (induction n) (auto simp: split_param_def)

text \<open>
  C23: Four kinds of destination, which any peer can write into a message, make the dispatch of a
  running service fail, and with it the peer: no name of a service; the name of a group without a
  parameter; a name that nobody has registered without a parameter; and the name of a group with
  this name as the parameter, for which the callback of the group calls itself without end.
\<close>

theorem hostile_destination:
  assumes "ep_started R" "unfiltered E R" "message_dest E m = Some (Some d)"
    and "service_name d = None \<or>
      (\<exists>n. service_name d = Some n \<and> service_params d = None \<and>
         (cb_table R n = Some Group_callback \<or> cb_table R n = None \<and> listener_table R n = None)) \<or>
      (\<exists>n t. service_name d = Some n \<and> service_params d = Some t \<and> cb_table R n = Some Group_callback \<and> 47 \<notin> set n \<and>
         cb_table R (n @ str ''/'' @ t) = None \<and> (t = n \<or> (\<exists>x. t = n @ str ''/'' @ x \<and> cb_table R (n @ str ''/'' @ x) = None)))"
  shows "jxta_endpoint_service_demux depth E R m = None"
proof -
  have loop: "endpoint_service_demux depth E R (Some n) (Some t) m = None"
    if n: "service_params d = Some t" "cb_table R n = Some Group_callback" "47 \<notin> set n" "cb_table R (n @ str ''/'' @ t) = None"
      and t: "t = n \<or> (\<exists>x. t = n @ str ''/'' @ x \<and> cb_table R (n @ str ''/'' @ x) = None)" for n t
  proof (cases depth)
    case (Suc k)
    obtain q where "split_param t = (n, q)" "q = None \<or> (\<exists>x. q = Some x \<and> cb_table R (n @ str ''/'' @ x) = None)"
      using t split_param_self [OF n(3)] by blast
    then show ?thesis
      using n(2,4) assms(3) n(1) group_loop [OF assms(3) n(1,2)] Suc by (simp add: get_service_key_def)
  qed simp
  consider "service_name d = None"
    | n where "service_name d = Some n" "service_params d = None"
        "cb_table R n = Some Group_callback \<or> cb_table R n = None \<and> listener_table R n = None"
    | n t where "service_name d = Some n" "service_params d = Some t" "cb_table R n = Some Group_callback" "47 \<notin> set n"
        "cb_table R (n @ str ''/'' @ t) = None" "t = n \<or> (\<exists>x. t = n @ str ''/'' @ x \<and> cb_table R (n @ str ''/'' @ x) = None)"
    using assms(4) by metis
  then show ?thesis
  proof cases
    case 2
    then show ?thesis
      using assms(3) by (cases depth) (auto simp: demux_unfiltered [OF assms(2,1,3)] get_service_key_def lookup_listener_def)
  next
    case 3
    then show ?thesis
      using loop [OF 3(2-6)] by (simp add: demux_unfiltered [OF assms(2,1,3)] del: endpoint_service_demux.simps)
  qed (cases depth; simp add: demux_unfiltered [OF assms(2,1,3)])
qed

text \<open>A group that is started, and a destination of each kind.\<close>

definition hostile_destinations :: "endpoint_address list" where
  "hostile_destinations =
     map (\<lambda>(n, p). \<lparr>protocol_name = str ''tcp'', protocol_address = str ''127.0.0.1:9701'', service_name = n, service_params = p\<rparr>)
       [(None, None), (Some (str ''EndpointService:jxta-NetGroup''), None), (Some (str ''x''), None),
        (Some (str ''EndpointService:jxta-NetGroup''), Some (str ''EndpointService:jxta-NetGroup''))]"

lemma hostile_destinations_law:
  "\<forall>d \<in> set hostile_destinations. ea_printable d" "\<forall>d \<in> set hostile_destinations. uri_law plain_uri d"
  "\<forall>d \<in> set hostile_destinations. length (ea_text d) < 2 ^ 60"
  by (simp_all add: hostile_destinations_def ea_printable_def uri_law_def plain_uri_def ea_text_def ea_rest_def Let_def uri_host_def)

lemma hostile_kinds:
  assumes "d \<in> set hostile_destinations" "cb_table R = [str ''EndpointService:jxta-NetGroup'' \<mapsto> Group_callback]"
    "listener_table R = Map.empty"
  shows "service_name d = None \<or>
      (\<exists>n. service_name d = Some n \<and> service_params d = None \<and>
         (cb_table R n = Some Group_callback \<or> cb_table R n = None \<and> listener_table R n = None)) \<or>
      (\<exists>n t. service_name d = Some n \<and> service_params d = Some t \<and> cb_table R n = Some Group_callback \<and> 47 \<notin> set n \<and>
         cb_table R (n @ str ''/'' @ t) = None \<and> (t = n \<or> (\<exists>x. t = n @ str ''/'' @ x \<and> cb_table R (n @ str ''/'' @ x) = None)))"
proof -
  define g where "g = str ''EndpointService:jxta-NetGroup''"
  have g: "47 \<notin> set g" "g \<noteq> []" "str ''x'' \<noteq> g"
    by (simp_all add: g_def)
  have t: "cb_table R = [g \<mapsto> Group_callback]"
    using assms(2) by (simp add: g_def)
  have "service_name d = None \<or> service_params d = None \<and> (service_name d = Some g \<or> service_name d = Some (str ''x'')) \<or>
      service_name d = Some g \<and> service_params d = Some g"
    using assms(1) by (auto simp: hostile_destinations_def g_def [symmetric] simp del: str_simps)
  then consider "service_name d = None" | "service_params d = None" "service_name d = Some g"
    | "service_params d = None" "service_name d = Some (str ''x'')" | "service_name d = Some g" "service_params d = Some g"
    by metis
  then show ?thesis
    using g t assms(3) by cases (simp_all del: str_simps)
qed

lemma group_started:
  "\<exists>c R. peergroup_start (IdStatic DefaultNetPeerGroupID) (endpoint_init []) = Some (JXTA_SUCCESS, c, R) \<and>
     cb_table R = [str ''EndpointService:jxta-NetGroup'' \<mapsto> Group_callback] \<and> listener_table R = Map.empty \<and> filter_list R = Some []"
  by (simp add: peergroup_start_def endpoint_service_add_recipient_def get_service_key_def endpoint_init_def group_ep_name_def
      id_equals_refl)

theorem hostile_destination_witness:
  "\<exists>c R. peergroup_start (IdStatic DefaultNetPeerGroupID) (endpoint_init []) = Some (JXTA_SUCCESS, c, R) \<and>
    (\<forall>d \<in> set hostile_destinations. \<exists>m. jxta_message_set_destination all_alloc (sample_text_message 1) d = Some (JXTA_SUCCESS, m) \<and>
       jxta_endpoint_service_demux 100 (sample_ep_env True 0) (endpoint_start R) m = None)"
proof -
  let ?E = "sample_ep_env True 0"
  obtain c R where R: "peergroup_start (IdStatic DefaultNetPeerGroupID) (endpoint_init []) = Some (JXTA_SUCCESS, c, R)"
      "cb_table R = [str ''EndpointService:jxta-NetGroup'' \<mapsto> Group_callback]" "listener_table R = Map.empty" "filter_list R = Some []"
    using group_started by blast
  have R': "ep_started (endpoint_start R)" "unfiltered ?E (endpoint_start R)"
    using R(4) by (simp_all add: endpoint_start_def unfiltered_def)
  have "\<exists>m. jxta_message_set_destination all_alloc (sample_text_message 1) d = Some (JXTA_SUCCESS, m) \<and>
      jxta_endpoint_service_demux 100 ?E (endpoint_start R) m = None" if d: "d \<in> set hostile_destinations" for d
  proof -
    have "ea_printable d" "uri_law plain_uri d" "length (ea_text d) < 2 ^ 60"
      using d hostile_destinations_law by blast+
    then obtain m where m: "jxta_message_set_destination all_alloc (sample_text_message 1) d = Some (JXTA_SUCCESS, m)"
        "message_dest ?E m = Some (Some d)"
      using destination_set [of all_alloc d plain_uri "sample_text_message 1"]
      by (auto simp: message_dest_def sample_ep_env_def big_alloc_def all_alloc_def)
    have "jxta_endpoint_service_demux 100 ?E (endpoint_start R) m = None"
      by (rule hostile_destination [OF R' m(2)]) (rule hostile_kinds [OF d], use R(2,3) in \<open>simp_all add: endpoint_start_def\<close>)
    then show ?thesis
      using m(1) by blast
  qed
  then show ?thesis
    using R(1) by blast
qed

end
