(* ===== verification/JRange.thy ===== *)
theory JRange
  imports CString Complex_Main
begin

section \<open>Ranges (src/src/jxta_range.c)\<close>

text \<open>
  A range tells over which interval the numbers of an indexed attribute are spread, and which of a
  number of segments a value belongs to.  The names are texts, a null pointer is \<open>None\<close>; the
  outer \<open>None\<close> of a result is an access outside a block.  Memory is never exhausted.

  A \<open>double\<close> is a real number, an infinity or no number; the rounding of a result is a parameter.
  The conversion of a text by libxml2 is a parameter too.  The global table of ranges is a map from
  full names to the addresses of ranges (\<open>jxta_hashtable_putnoreplace\<close> keeps an entry).
\<close>

subsection \<open>Floating point numbers\<close>

datatype double = NaN | MInf | Fin real | PInf

fun dless :: "double \<Rightarrow> double \<Rightarrow> bool" where
  "dless (Fin a) (Fin b) = (a < b)"
| "dless MInf (Fin b) = True"
| "dless MInf PInf = True"
| "dless (Fin a) PInf = True"
| "dless _ _ = False"

fun dneg :: "double \<Rightarrow> double" where
  "dneg (Fin a) = Fin (- a)"
| "dneg PInf = MInf"
| "dneg MInf = PInf"
| "dneg NaN = NaN"

fun dadd :: "(real \<Rightarrow> double) \<Rightarrow> double \<Rightarrow> double \<Rightarrow> double" where
  "dadd rnd (Fin a) (Fin b) = rnd (a + b)"
| "dadd rnd NaN _ = NaN"
| "dadd rnd _ NaN = NaN"
| "dadd rnd PInf MInf = NaN"
| "dadd rnd MInf PInf = NaN"
| "dadd rnd PInf _ = PInf"
| "dadd rnd _ PInf = PInf"
| "dadd rnd MInf _ = MInf"
| "dadd rnd _ MInf = MInf"

definition dsub :: "(real \<Rightarrow> double) \<Rightarrow> double \<Rightarrow> double \<Rightarrow> double" where
  "dsub rnd a b = dadd rnd a (dneg b)"

text \<open>The quotient by a positive number.\<close>

fun ddiv :: "(real \<Rightarrow> double) \<Rightarrow> double \<Rightarrow> nat \<Rightarrow> double" where
  "ddiv rnd (Fin a) n = rnd (a / real n)"
| "ddiv rnd x n = x"

text \<open>The order of the numbers.\<close>

definition dle :: "double \<Rightarrow> double \<Rightarrow> bool" where
  "dle a b \<longleftrightarrow> a \<noteq> NaN \<and> b \<noteq> NaN \<and> \<not> dless b a"

lemma dless_dle: "dless a b \<Longrightarrow> dle c a \<Longrightarrow> dless c b"
  by (cases a; cases b; cases c) (auto simp: dle_def)

lemma dle_dless: "dless b c \<Longrightarrow> dle c d \<Longrightarrow> dless b d"
  by (cases b; cases c; cases d) (auto simp: dle_def)

subsection \<open>Ranges\<close>

record jxta_range =
  rge_nspace :: "ctext option"
  rge_element :: "ctext option"
  rge_attribute :: "ctext option"
  rge_range :: "ctext option"
  rge_high :: double
  rge_low :: double

definition jxta_range_new :: jxta_range where
  "jxta_range_new =
     \<lparr>rge_nspace = None, rge_element = None, rge_attribute = None, rge_range = None, rge_high = Fin 0, rge_low = Fin 0\<rparr>"

text \<open>
  \<open>range_get_elem_attr\<close>: the text before the first space and the text behind the last one.  Every
  piece is written into a block of 128 bytes, which keeps a zero for its end.
\<close>

definition piece_size :: nat where "piece_size = 128"

fun elem_attr_loop :: "ctext \<Rightarrow> ctext \<Rightarrow> ctext option \<Rightarrow> (ctext \<times> ctext option) option" where
  "elem_attr_loop [] elem attr =
     (if length (case attr of None \<Rightarrow> elem | Some a \<Rightarrow> a) < piece_size then Some (elem, attr) else None)"
| "elem_attr_loop (c # cs) elem attr =
     (if length (case attr of None \<Rightarrow> elem | Some a \<Rightarrow> a) < piece_size
      then (if c = 32 then elem_attr_loop cs elem (Some [])
            else (case attr of
                    None \<Rightarrow> elem_attr_loop cs (elem @ [c]) None
                  | Some a \<Rightarrow> elem_attr_loop cs elem (Some (a @ [c]))))
      else None)"

definition range_get_elem_attr :: "ctext \<Rightarrow> (ctext \<times> ctext option) option" where
  "range_get_elem_attr elemAttr = elem_attr_loop elemAttr [] None"

text \<open>
  A range is written \<open>(low :: high)\<close>; each number is collected in a buffer of 32 bytes up to a
  character.  In a result of \<open>range_parse\<close> the inner \<open>None\<close> is a bad range.
\<close>

definition number_size :: nat where "number_size = 32"

fun range_field :: "u8 \<Rightarrow> ctext \<Rightarrow> ctext \<Rightarrow> (ctext \<times> ctext) option" where
  "range_field stop buf [] = Some (buf, [])"
| "range_field stop buf (c # cs) =
     (if c = stop then Some (buf, c # cs)
      else if length buf < number_size then range_field stop (buf @ [c]) cs else None)"

definition range_parse :: "ctext \<Rightarrow> (ctext \<times> ctext) option option" where
  "range_parse rtext =
     (case rtext of
        [] \<Rightarrow> Some None
      | c # cs \<Rightarrow>
          if c \<noteq> 40 then Some None
          else do {
            (low, rest) \<leftarrow> range_field 58 [] cs;
            (case rest of
               _ # d # r \<Rightarrow>
                 if d \<noteq> 58 then Some None
                 else do {
                   (high, rest) \<leftarrow> range_field 41 [] r;
                   if rest = [] then Some None
                   else if length low < number_size \<and> length high < number_size then Some (Some (low, high)) else None }
             | _ \<Rightarrow> Some None) })"

definition jxta_range_add ::
  "(ctext option \<Rightarrow> double) \<Rightarrow> (ctext \<rightharpoonup> ptr) \<Rightarrow> ptr \<Rightarrow> jxta_range \<Rightarrow> ctext \<Rightarrow> ctext \<Rightarrow> ctext option \<Rightarrow> ctext
     \<Rightarrow> (status \<times> jxta_range \<times> (ctext \<rightharpoonup> ptr)) option" where
  "jxta_range_add to_number table p rge nspace element attribute rtext =
     (let full = nspace @ str '' '' @ element @ (case attribute of None \<Rightarrow> [] | Some a \<Rightarrow> str '' '' @ a) in
      do {
        r \<leftarrow> range_parse rtext;
        Some (case r of
          None \<Rightarrow> (JXTA_INVALID_ARGUMENT, rge, table)
        | Some (low, high) \<Rightarrow>
            (JXTA_SUCCESS,
             rge\<lparr>rge_nspace := Some nspace, rge_element := Some element, rge_attribute := attribute, rge_range := Some rtext,
                 rge_low := to_number (Some low), rge_high := to_number (Some high)\<rparr>,
             if table full = None then table(full \<mapsto> p) else table)) })"

definition jxta_range_set_range ::
  "(ctext option \<Rightarrow> double) \<Rightarrow> (ctext \<rightharpoonup> ptr) \<Rightarrow> ptr \<Rightarrow> jxta_range \<Rightarrow> ctext \<Rightarrow> ctext \<Rightarrow> ctext option
     \<Rightarrow> (jxta_range \<times> (ctext \<rightharpoonup> ptr)) option" where
  "jxta_range_set_range to_number table p rge nSpace elemAttr rtext =
     do {
       (element, attribute) \<leftarrow> range_get_elem_attr elemAttr;
       (case rtext of
          None \<Rightarrow> Some (rge, table)
        | Some r \<Rightarrow> do { (_, rge, table) \<leftarrow> jxta_range_add to_number table p rge nSpace element attribute r; Some (rge, table) }) }"

text \<open>A range is never removed.\<close>

definition jxta_range_remove :: "jxta_range \<Rightarrow> status" where
  "jxta_range_remove rge = JXTA_SUCCESS"

definition jxta_range_set_name_space :: "jxta_range \<Rightarrow> ctext \<Rightarrow> jxta_range" where
  "jxta_range_set_name_space rge nspace = rge\<lparr>rge_nspace := Some nspace\<rparr>"

definition jxta_range_get_name_space :: "jxta_range \<Rightarrow> ctext option" where
  "jxta_range_get_name_space rge = rge_nspace rge"

definition jxta_range_set_element_attr :: "jxta_range \<Rightarrow> ctext \<Rightarrow> jxta_range option" where
  "jxta_range_set_element_attr rge elementAttr =
     do { (element, attribute) \<leftarrow> range_get_elem_attr elementAttr;
          Some (rge\<lparr>rge_element := Some element, rge_attribute := attribute\<rparr>) }"

definition jxta_range_set_element :: "jxta_range \<Rightarrow> ctext \<Rightarrow> jxta_range" where
  "jxta_range_set_element rge element = rge\<lparr>rge_element := Some element\<rparr>"

definition jxta_range_get_element :: "jxta_range \<Rightarrow> ctext option" where
  "jxta_range_get_element rge = rge_element rge"

definition jxta_range_set_attribute :: "jxta_range \<Rightarrow> ctext \<Rightarrow> jxta_range" where
  "jxta_range_set_attribute rge attribute = rge\<lparr>rge_attribute := Some attribute\<rparr>"

definition jxta_range_get_attribute :: "jxta_range \<Rightarrow> ctext option" where
  "jxta_range_get_attribute rge = rge_attribute rge"

definition jxta_range_get_high :: "jxta_range \<Rightarrow> double" where
  "jxta_range_get_high rge = rge_high rge"

definition jxta_range_get_low :: "jxta_range \<Rightarrow> double" where
  "jxta_range_get_low rge = rge_low rge"

definition jxta_range_get_range_string :: "jxta_range \<Rightarrow> ctext option" where
  "jxta_range_get_range_string rge = rge_range rge"

definition jxta_range_new_1 :: "ctext \<Rightarrow> ctext \<Rightarrow> jxta_range option" where
  "jxta_range_new_1 nameSpace elemAttr =
     jxta_range_set_element_attr (jxta_range_set_name_space jxta_range_new nameSpace) elemAttr"

text \<open>The segment of a value: the ends of the segments are summed up until one is above the value.\<close>

function segment_loop :: "(real \<Rightarrow> double) \<Rightarrow> double \<Rightarrow> double \<Rightarrow> double \<Rightarrow> nat \<Rightarrow> nat \<Rightarrow> nat" where
  "segment_loop rnd dValue segment_length segment_work i n =
     (if i < n
      then if dless dValue segment_work then i
           else segment_loop rnd dValue segment_length (dadd rnd segment_work segment_length) (i + 1) n
      else i)"
  by auto
termination
  by (relation "measure (\<lambda>(rnd, v, l, w, i, n). n - i)") auto

declare segment_loop.simps [simp del]

definition jxta_range_get_position ::
  "(real \<Rightarrow> double) \<Rightarrow> (ctext option \<Rightarrow> double) \<Rightarrow> jxta_range \<Rightarrow> ctext option \<Rightarrow> int \<Rightarrow> int" where
  "jxta_range_get_position rnd to_number rge value segments =
     (if segments < 2 then -2
      else if rge_range rge = None then -1
      else
        (let dValue = to_number value; high = jxta_range_get_high rge; low = jxta_range_get_low rge in
         if dless dValue low then 0
         else if dless high dValue then segments - 1
         else
           (let segment_length = ddiv rnd (dsub rnd high low) (nat segments)
            in int (segment_loop rnd dValue segment_length (dadd rnd low segment_length) 0 (nat segments - 1)))))"

subsection \<open>Segments\<close>

lemma segment_loop_le: "i \<le> n \<Longrightarrow> segment_loop rnd v l w i n \<le> n \<and> i \<le> segment_loop rnd v l w i n"
proof (induction rnd v l w i n rule: segment_loop.induct)
  case (1 rnd v l w i n)
  then show ?case
    by (subst (1 2) segment_loop.simps) (auto dest: Suc_leD)
qed

lemma segment_loop_mono: "dle v v' \<Longrightarrow> i \<le> n \<Longrightarrow> segment_loop rnd v l w i n \<le> segment_loop rnd v' l w i n"
proof (induction rnd v l w i n rule: segment_loop.induct)
  case (1 rnd v l w i n)
  show ?case
  proof (cases "i < n \<and> dless v w")
    case True
    then show ?thesis
      using segment_loop_le [of i n rnd v' l w] by (simp add: segment_loop.simps [of rnd v])
  next
    case False
    then have "\<not> (i < n \<and> dless v' w)"
      using 1(2) dless_dle by blast
    then show ?thesis
    proof (cases "i < n")
      case True
      then show ?thesis
        using False \<open>\<not> (i < n \<and> dless v' w)\<close> 1 by (simp add: segment_loop.simps [of rnd _ l w i n])
    next
      case False
      then show ?thesis
        by (subst (1 2) segment_loop.simps) simp
    qed
  qed
qed

text \<open>With exact arithmetic the loop finds the segment that holds the value.\<close>

lemma segment_loop_exact:
  assumes "0 < l" "low + real i * l \<le> v" "i \<le> n"
  shows "segment_loop Fin (Fin v) (Fin l) (Fin (low + real (i + 1) * l)) i n = min n (nat \<lfloor>(v - low) / l\<rfloor>)"
  using assms(2,3)
proof (induction "n - i" arbitrary: i)
  case 0
  then have "real n \<le> (v - low) / l"
    using assms(1) by (simp add: field_simps)
  then show ?case
    using 0 by (simp add: segment_loop.simps le_nat_floor min_def)
next
  case (Suc k)
  then have i: "i < n" "real i \<le> (v - low) / l"
    using assms(1) by (simp_all add: field_simps)
  show ?case
  proof (cases "v < low + real (i + 1) * l")
    case True
    then have "(v - low) / l < real (i + 1)"
      using assms(1) by (simp add: field_simps)
    then have "nat \<lfloor>(v - low) / l\<rfloor> = i"
      using i(2) by linarith
    then show ?thesis
      using True i(1) by (simp add: segment_loop.simps)
  next
    case False
    have e: "low + real (i + 1) * l + l = low + real (i + 1 + 1) * l"
      by (simp add: algebra_simps)
    have "segment_loop Fin (Fin v) (Fin l) (Fin (low + real (i + 1) * l)) i n =
        segment_loop Fin (Fin v) (Fin l) (Fin (low + real (i + 1 + 1) * l)) (i + 1) n"
      using False i(1) unfolding e [symmetric] by (subst segment_loop.simps) simp
    then show ?thesis
      using Suc.hyps(1) [of "i + 1"] Suc.hyps(2) False i(1) by simp
  qed
qed

end
