(* ===== verification/Srdi.thy ===== *)
theory Srdi
  imports JRange PeerView
begin

section \<open>The SRDI service (src/src/jxta_srdi_service_ref.c)\<close>

text \<open>
  The shared resource distributed index: a rendezvous that gets an index entry copies it to the
  peer of its view that the hash of the entry, or the position of its value in a range, selects;
  a query is sent to the peer that the same rule selects.  The second part is
  \<open>discovery_service_send_to_replica\<close> of src/src/jxta\_discovery\_service\_ref.c, the client of
  this rule.

  Strings are their texts, a null pointer is \<open>None\<close>; the outer \<open>None\<close> of a result is the use of a
  null pointer or an access outside a block.  SHA-1, the number of bits of a big number (OpenSSL),
  the cache manager, the resolver and the order in which a hash table is enumerated are parameters;
  the other operations of OpenSSL on big numbers are those of natural numbers.  The time does not
  advance during an operation.  Memory is never exhausted.
\<close>

subsection \<open>State\<close>

record srdi_entry =
  se_expiration :: int
  se_key :: "ctext option"
  se_value :: "ctext option"
  se_nspace :: "ctext option"
  se_advid :: "ctext option"
  se_range :: "ctext option"
  se_seq :: int

record srdi_message =
  sm_ttl :: int
  sm_peerid :: "jxta_id option"
  sm_pkey :: "ctext option"
  sm_entries :: "srdi_entry list option"

record resolver_query =
  rq_hopcount :: int
  rq_body :: ctext

record srdi =
  sr_pid :: jxta_id
  sr_view :: peerview
  sr_ranges :: "ctext \<rightharpoonup> ptr"
  sr_next :: ptr
  sr_sent :: "(jxta_id option \<times> srdi_message) list"
  sr_queries :: "(jxta_id \<times> resolver_query) list"

record srdi_env =
  sha1 :: "ctext \<Rightarrow> nat"
  num_bits :: "nat \<Rightarrow> nat"
  fp_round :: "real \<Rightarrow> double"
  to_number :: "ctext option \<Rightarrow> double"
  sr_now :: pv_env
  cfg_no_range :: bool
  cfg_threshold :: int
  cfg_delta :: bool
  cm_srdi_with_seq :: "ctext option \<Rightarrow> int \<Rightarrow> srdi_entry \<Rightarrow> status \<times> srdi_entry"
  cm_save_delta :: "ctext \<Rightarrow> ctext \<Rightarrow> srdi_entry \<Rightarrow> status \<times> ctext option \<times> int"
  key_order :: "ctext list \<Rightarrow> ctext list"
  send_srdi :: "nat \<Rightarrow> status"
  send_query :: "nat \<Rightarrow> status"

subsection \<open>Replicas\<close>

definition local_view_now :: "srdi_env \<Rightarrow> srdi \<Rightarrow> ptr list \<times> srdi" where
  "local_view_now E me =
     (let (_, v, pv) = jxta_peerview_get_localview (sr_now E) (sr_view me) in (v, me\<lparr>sr_view := pv\<rparr>))"

text \<open>
  The position of an expression: the part of the view that its hash makes of the smallest power of
  two above this hash.
\<close>

definition replica_position :: "srdi_env \<Rightarrow> nat \<Rightarrow> ctext \<Rightarrow> nat" where
  "replica_position E rpv_size expression =
     (let bnHash = sha1 E expression; significantBits = num_bits E bnHash
      in (bnHash * rpv_size) div 2 ^ significantBits)"

definition getReplicaPeer :: "srdi_env \<Rightarrow> srdi \<Rightarrow> ctext \<Rightarrow> ptr option \<times> srdi" where
  "getReplicaPeer E me expression =
     (let (localView, me) = local_view_now E me;
          pos = replica_position E (length localView) expression
      in (if pos < length localView then Some (localView ! pos) else None, me))"

definition getNumericReplica :: "srdi_env \<Rightarrow> srdi \<Rightarrow> jxta_range \<Rightarrow> ctext option \<Rightarrow> (ptr option \<times> srdi) option" where
  "getNumericReplica E me rge value =
     (let (localView, me) = local_view_now E me;
          pos = jxta_range_get_position (fp_round E) (to_number E) rge value (int (length localView)) in
      if pos < 0
      then
        (if pos = -1 \<and> \<not> (value = None \<and> cfg_no_range E)
         then do {
           element \<leftarrow> jxta_range_get_element rge;
           v \<leftarrow> (if cfg_no_range E then value else Some []);
           Some (getReplicaPeer E me (element @ (case jxta_range_get_attribute rge of None \<Rightarrow> [] | Some a \<Rightarrow> a) @ v)) }
         else Some (None, me))
      else Some (if nat pos < length localView then Some (localView ! nat pos) else None, me))"

subsection \<open>Replication\<close>

text \<open>The advertisement identifier of a new element is its value when there is none.\<close>

definition jxta_srdi_new_element_3 :: "srdi_entry \<Rightarrow> srdi_entry" where
  "jxta_srdi_new_element_3 e = e\<lparr>se_advid := (case se_advid e of None \<Rightarrow> se_value e | Some a \<Rightarrow> Some a)\<rparr>"

text \<open>An entry without a value is completed from the cache by its sequence number, or left out.\<close>

definition complete_entry :: "srdi_env \<Rightarrow> ctext option \<Rightarrow> srdi_entry \<Rightarrow> srdi_entry option" where
  "complete_entry E jPeerId e =
     (if se_value e \<noteq> None then Some e
      else if se_seq e > 0
      then (case cm_srdi_with_seq E jPeerId (se_seq e) e of (st, e') \<Rightarrow> if st = JXTA_ITEM_NOTFOUND then None else Some e')
      else None)"

text \<open>A number in a value starts with \<open>#\<close>.  The hash of a numeric value is that of its key, unless ranges are not used.\<close>

definition replicaExpression :: "srdi_env \<Rightarrow> ctext \<Rightarrow> ctext \<Rightarrow> ctext" where
  "replicaExpression E skey value = (if take 1 value \<noteq> str ''#'' \<or> cfg_no_range E then skey @ value else skey)"

definition entry_replica :: "srdi_env \<Rightarrow> srdi \<Rightarrow> srdi_entry \<Rightarrow> (ptr option \<times> srdi) option" where
  "entry_replica E me e =
     do {
       skey \<leftarrow> se_key e;
       value \<leftarrow> se_value e;
       (case se_range e of
          Some (c # cs) \<Rightarrow>
            do {
              ns \<leftarrow> se_nspace e;
              (rge, ranges) \<leftarrow> jxta_range_set_range (to_number E) (sr_ranges me) (sr_next me) jxta_range_new ns skey (Some (c # cs));
              let me = me\<lparr>sr_ranges := ranges, sr_next := sr_next me + 1\<rparr>;
              (if take 1 value = str ''#'' then getNumericReplica E me rge (Some (tl value)) else Some (None, me)) }
        | _ \<Rightarrow> Some (getReplicaPeer E me (replicaExpression E skey value))) }"

text \<open>The entries of one replica are collected under the text of its identifier.\<close>

fun add_to_peer :: "ctext \<Rightarrow> ptr \<Rightarrow> srdi_entry \<Rightarrow> (ctext \<times> ptr \<times> srdi_entry list) list \<Rightarrow> (ctext \<times> ptr \<times> srdi_entry list) list" where
  "add_to_peer t p e [] = [(t, p, [e])]"
| "add_to_peer t p e ((t', q, es) # gs) = (if t' = t then (t', q, es @ [e]) # gs else (t', q, es) # add_to_peer t p e gs)"

fun group_entries ::
  "srdi_env \<Rightarrow> ctext option \<Rightarrow> srdi_entry list \<Rightarrow> srdi \<Rightarrow> (ctext \<times> ptr \<times> srdi_entry list) list
     \<Rightarrow> ((ctext \<times> ptr \<times> srdi_entry list) list \<times> srdi) option" where
  "group_entries E jPeerId [] me peersHash = Some (peersHash, me)"
| "group_entries E jPeerId (entry # ents) me peersHash =
     (case complete_entry E jPeerId (jxta_srdi_new_element_3 entry) of
        None \<Rightarrow> group_entries E jPeerId ents me peersHash
      | Some e \<Rightarrow>
          do { (rep, me) \<leftarrow> entry_replica E me e;
               (case rep of
                  None \<Rightarrow> group_entries E jPeerId ents me peersHash
                | Some p \<Rightarrow>
                    do { i \<leftarrow> pid_of (sr_view me) p;
                         group_entries E jPeerId ents me (add_to_peer (idtext i) p (e\<lparr>se_seq := 0\<rparr>) peersHash) }) })"

text \<open>
  The delta cache: an entry that is in the cache is sent without its texts; of those with the same
  sequence number the first is sent.  An entry that is left out makes the loop pass over the next.
\<close>

function delta_loop ::
  "srdi_env \<Rightarrow> ctext \<Rightarrow> ctext \<Rightarrow> srdi_entry list \<Rightarrow> nat \<Rightarrow> int set \<Rightarrow> status \<Rightarrow> (status \<times> srdi_entry list) option" where
  "delta_loop E jPeer inst ents i seq_hash res =
     (if i < length ents
      then
        (case cm_save_delta E jPeer inst (ents ! i) of
           (res, jNewValue, newSeqNumber) \<Rightarrow>
             (let e = (if newSeqNumber > 0 then (ents ! i)\<lparr>se_seq := newSeqNumber\<rparr> else ents ! i) in
              if se_seq e \<notin> seq_hash
              then
                (if res = JXTA_SUCCESS \<and> jNewValue \<noteq> None \<and> se_value e = None then None
                 else
                   (let e = (if res = JXTA_SUCCESS
                             then e\<lparr>se_value := jNewValue, se_key := None, se_advid := None, se_nspace := None\<rparr> else e)
                    in delta_loop E jPeer inst (ents[i := e]) (i + 1) (insert (se_seq e) seq_hash) res))
              else delta_loop E jPeer inst (take i ents @ drop (i + 1) ents) (i + 1) seq_hash res))
      else Some (res, ents))"
  by pat_completeness auto
termination
  by (relation "measure (\<lambda>(E, p, q, ents, i, s, r). length ents - i)") auto

declare delta_loop.simps [simp del]

definition record_delta_entry ::
  "srdi_env \<Rightarrow> jxta_id option \<Rightarrow> ctext \<Rightarrow> srdi_message \<Rightarrow> (status \<times> srdi_message) option" where
  "record_delta_entry E peer inst msg =
     (if peer = None \<and> is_rendezvous (sr_now E) then Some (JXTA_SUCCESS, msg)
      else do {
        ents \<leftarrow> sm_entries msg;
        (res, ents) \<leftarrow> delta_loop E (case peer of None \<Rightarrow> str ''NoPeer'' | Some i \<Rightarrow> idtext i) inst ents 0 {} JXTA_SUCCESS;
        Some (res, msg\<lparr>sm_entries := Some ents\<rparr>) })"

definition srdi_send :: "srdi_env \<Rightarrow> srdi \<Rightarrow> jxta_id option \<Rightarrow> srdi_message \<Rightarrow> status \<times> srdi" where
  "srdi_send E me peer msg = (send_srdi E (length (sr_sent me)), me\<lparr>sr_sent := sr_sent me @ [(peer, msg)]\<rparr>)"

definition pushSrdi_msg :: "srdi_env \<Rightarrow> srdi \<Rightarrow> ctext \<Rightarrow> srdi_message \<Rightarrow> jxta_id option \<Rightarrow> (status \<times> srdi) option" where
  "pushSrdi_msg E me inst msg peer =
     do { msg \<leftarrow> (if cfg_delta E then map_option snd (record_delta_entry E peer inst msg) else Some msg);
          Some (srdi_send E me peer msg) }"

text \<open>The message of a replica has a time to live of 1 and the own peer as its source.\<close>

definition trim_text :: "ctext \<Rightarrow> ctext" where
  "trim_text t = rev (dropWhile isspace (rev (dropWhile isspace t)))"

definition forwardSrdiEntries ::
  "srdi_env \<Rightarrow> srdi \<Rightarrow> ptr \<Rightarrow> srdi_entry list \<Rightarrow> ctext \<Rightarrow> ctext option \<Rightarrow> (status \<times> srdi) option" where
  "forwardSrdiEntries E me peer ents queueName jKey =
     (case pid_of (sr_view me) peer of
        None \<Rightarrow> Some (JXTA_FAILED, me)
      | Some pid \<Rightarrow>
          if idtext pid = idtext (sr_pid me) then Some (JXTA_FAILED, me)
          else do {
            skey \<leftarrow> jKey;
            let msg = \<lparr>sm_ttl = 1, sm_peerid = Some (sr_pid me), sm_pkey = Some (trim_text skey), sm_entries = Some ents\<rparr>;
            msg \<leftarrow> (if cfg_delta E then map_option snd (record_delta_entry E (Some pid) queueName msg) else Some msg);
            Some (srdi_send E me (Some pid) msg) })"

definition forwardSrdiEntry :: "srdi_env \<Rightarrow> srdi \<Rightarrow> ptr \<Rightarrow> srdi_entry \<Rightarrow> ctext \<Rightarrow> (status \<times> srdi) option" where
  "forwardSrdiEntry E me peer entry queueName = forwardSrdiEntries E me peer [entry] queueName (se_key entry)"

fun forward_groups ::
  "srdi_env \<Rightarrow> ctext \<Rightarrow> ctext option \<Rightarrow> (ctext \<times> ptr \<times> srdi_entry list) list \<Rightarrow> ctext list \<Rightarrow> srdi \<Rightarrow> srdi option" where
  "forward_groups E queueName jPkey peersHash [] me = Some me"
| "forward_groups E queueName jPkey peersHash (t # ts) me =
     (case map_of peersHash t of
        None \<Rightarrow> forward_groups E queueName jPkey peersHash ts me
      | Some (p, es) \<Rightarrow>
          do { (_, me) \<leftarrow> forwardSrdiEntries E me p es queueName jPkey;
               forward_groups E queueName jPkey peersHash ts me })"

definition replicateEntries :: "srdi_env \<Rightarrow> srdi \<Rightarrow> srdi_message \<Rightarrow> ctext \<Rightarrow> (status \<times> srdi) option" where
  "replicateEntries E me srdiMsg queueName =
     (let (localView, me) = local_view_now E me;
          jPeerId = map_option idtext (sm_peerid srdiMsg) in
      if sm_ttl srdiMsg < 1 \<or> \<not> is_rendezvous (sr_now E) \<or>
         length localView < unat (word_of_int (cfg_threshold E) :: u32) \<or> sm_entries srdiMsg = None
      then Some (JXTA_SUCCESS, me)
      else do {
        ents \<leftarrow> sm_entries srdiMsg;
        (peersHash, me) \<leftarrow> group_entries E jPeerId ents me [];
        me \<leftarrow> forward_groups E queueName (sm_pkey srdiMsg) peersHash (key_order E (map fst peersHash)) me;
        Some (JXTA_SUCCESS, me) })"

subsection \<open>Queries\<close>

text \<open>The hop count is passed as an \<open>int\<close>.\<close>

definition hopcount_ok :: "resolver_query \<Rightarrow> int \<Rightarrow> bool" where
  "hopcount_ok query cnt \<longleftrightarrow> rq_hopcount query < cnt"

definition jxta_resolver_query_set_hopcount :: "resolver_query \<Rightarrow> int \<Rightarrow> resolver_query" where
  "jxta_resolver_query_set_hopcount q n = q\<lparr>rq_hopcount := signed_take_bit 31 n\<rparr>"

definition increment_hop_count :: "resolver_query \<Rightarrow> resolver_query" where
  "increment_hop_count query =
     (let cnt = rq_hopcount query; cnt = (if cnt < 0 then 0 else cnt)
      in jxta_resolver_query_set_hopcount query (cnt + 1))"

definition srdi_sendQuery :: "srdi_env \<Rightarrow> srdi \<Rightarrow> resolver_query \<Rightarrow> jxta_id \<Rightarrow> status \<times> srdi" where
  "srdi_sendQuery E me query peer = (send_query E (length (sr_queries me)), me\<lparr>sr_queries := sr_queries me @ [(peer, query)]\<rparr>)"

definition forwardQuery_peer ::
  "srdi_env \<Rightarrow> srdi \<Rightarrow> jxta_id option \<Rightarrow> resolver_query \<Rightarrow> status \<times> resolver_query \<times> srdi" where
  "forwardQuery_peer E me peer query =
     (case peer of
        None \<Rightarrow> (JXTA_INVALID_ARGUMENT, query, me)
      | Some p \<Rightarrow>
          (let query = increment_hop_count query in
           if hopcount_ok query 3
           then (if jxta_id_equals (Some (sr_pid me)) (Some p) then (JXTA_SUCCESS, query, me)
                 else (let (st, me) = srdi_sendQuery E me query p in (st, query, me)))
           else (JXTA_FAILED, query, me)))"

fun send_to_peers :: "srdi_env \<Rightarrow> srdi \<Rightarrow> jxta_id list \<Rightarrow> resolver_query \<Rightarrow> status \<Rightarrow> status \<times> srdi" where
  "send_to_peers E me [] query st = (st, me)"
| "send_to_peers E me (p # ps) query st =
     (let (st, me) = (if jxta_id_equals (Some (sr_pid me)) (Some p) then (JXTA_SUCCESS, me) else srdi_sendQuery E me query p)
      in send_to_peers E me ps query st)"

definition forwardQuery_peers ::
  "srdi_env \<Rightarrow> srdi \<Rightarrow> jxta_id list option \<Rightarrow> resolver_query \<Rightarrow> status \<times> resolver_query \<times> srdi" where
  "forwardQuery_peers E me peers query =
     (let query = increment_hop_count query in
      if \<not> hopcount_ok query 3 then (JXTA_SUCCESS, query, me)
      else (let (st, me) = send_to_peers E me (case peers of None \<Rightarrow> [] | Some ps \<Rightarrow> ps) query JXTA_SUCCESS in (st, query, me)))"

text \<open>A new vector, which stays empty.\<close>

definition randomResult :: "jxta_id list \<Rightarrow> int \<Rightarrow> jxta_id list option" where
  "randomResult result threshold = (if threshold < int (length result) then Some [] else None)"

definition forwardQuery_threshold ::
  "srdi_env \<Rightarrow> srdi \<Rightarrow> jxta_id list \<Rightarrow> resolver_query \<Rightarrow> int \<Rightarrow> status \<times> resolver_query \<times> srdi" where
  "forwardQuery_threshold E me peers query threshold =
     (let (_, query, me) =
            (if int (length peers) \<le> threshold then forwardQuery_peers E me (Some peers) query
             else forwardQuery_peers E me (randomResult peers threshold) query)
      in (JXTA_SUCCESS, query, me))"

text \<open>What the listener of rendezvous events does with the index in the cache.\<close>

datatype rdv_event_type =
  JXTA_RDV_CONNECTED | JXTA_RDV_RECONNECTED | JXTA_RDV_FAILED | JXTA_RDV_DISCONNECTED | JXTA_RDV_CLIENT_CONNECTED
| JXTA_RDV_CLIENT_RECONNECTED | JXTA_RDV_CLIENT_DISCONNECTED | JXTA_RDV_BECAME_EDGE | JXTA_RDV_BECAME_RDV
| JXTA_RDV_LEASE_REQUEST | JXTA_RDV_LEASE_GRANTED

datatype cm_action = Remove_srdi_entries ctext | Update_srdi_times ctext int

definition jxta_srdi_rdv_listener :: "bool \<Rightarrow> rdv_event_type \<Rightarrow> jxta_id option \<Rightarrow> int option \<Rightarrow> cm_action list" where
  "jxta_srdi_rdv_listener have_cm type pid expires =
     (case pid of
        None \<Rightarrow> []
      | Some i \<Rightarrow>
          if \<not> have_cm then []
          else if type \<in> {JXTA_RDV_CLIENT_DISCONNECTED, JXTA_RDV_FAILED, JXTA_RDV_DISCONNECTED} then [Remove_srdi_entries (idtext i)]
          else if type \<in> {JXTA_RDV_CLIENT_CONNECTED, JXTA_RDV_CLIENT_RECONNECTED, JXTA_RDV_CONNECTED}
          then (case expires of Some t \<Rightarrow> if t > 0 then [Update_srdi_times (idtext i) t] else [] | None \<Rightarrow> [])
          else [])"

subsection \<open>Queries to replicas (src/src/jxta\_discovery\_service\_ref.c)\<close>

record query_element =
  qe_name :: ctext
  qe_value :: ctext
  qe_numeric :: bool
  qe_wildcard :: bool

text \<open>The range of a numeric query has no limits, and its value is not passed on.\<close>

definition query_replica :: "srdi_env \<Rightarrow> srdi \<Rightarrow> ctext \<Rightarrow> query_element \<Rightarrow> (ptr option \<times> srdi) option" where
  "query_replica E me queryNameSpace elem =
     (if qe_numeric elem
      then do { rge \<leftarrow> jxta_range_new_1 queryNameSpace (qe_name elem); getNumericReplica E me rge None }
      else if \<not> qe_wildcard elem then Some (getReplicaPeer E me (qe_name elem @ qe_value elem))
      else Some (None, me))"

text \<open>The identifiers of the replicas that are not the own peer, each once.\<close>

fun collect_replicas ::
  "srdi_env \<Rightarrow> ctext \<Rightarrow> query_element list \<Rightarrow> srdi \<Rightarrow> (ctext \<times> jxta_id) list \<Rightarrow> ((ctext \<times> jxta_id) list \<times> srdi) option" where
  "collect_replicas E ns [] me peerHash = Some (peerHash, me)"
| "collect_replicas E ns (elem # elems) me peerHash =
     do {
       (rep, me) \<leftarrow> query_replica E me ns elem;
       (case rep of
          None \<Rightarrow> collect_replicas E ns elems me peerHash
        | Some p \<Rightarrow>
            do {
              i \<leftarrow> pid_of (sr_view me) p;
              collect_replicas E ns elems me
                (if idtext i \<noteq> idtext (sr_pid me) \<and> map_of peerHash (idtext i) = None
                 then peerHash @ [(idtext i, i)] else peerHash) }) }"

fun forward_all :: "srdi_env \<Rightarrow> srdi \<Rightarrow> (ctext \<times> jxta_id) list \<Rightarrow> ctext list \<Rightarrow> resolver_query \<Rightarrow> resolver_query \<times> srdi" where
  "forward_all E me peerHash [] query = (query, me)"
| "forward_all E me peerHash (t # ts) query =
     (let (_, query, me) = forwardQuery_peer E me (map_of peerHash t) query in forward_all E me peerHash ts query)"

definition discovery_service_send_to_replica ::
  "srdi_env \<Rightarrow> srdi \<Rightarrow> resolver_query \<Rightarrow> (ctext \<times> query_element list) option \<Rightarrow> (status \<times> resolver_query \<times> srdi) option" where
  "discovery_service_send_to_replica E me rq jContext =
     (let hc = rq_hopcount rq in
      if hc = 0
      then do {
        (peerHash, me) \<leftarrow> (case jContext of None \<Rightarrow> Some ([], me) | Some (ns, queries) \<Rightarrow> collect_replicas E ns queries me []);
        (if peerHash \<noteq> []
         then (let (rq, me) = forward_all E me peerHash (key_order E (map fst peerHash)) rq in Some (JXTA_SUCCESS, rq, me))
         else Some (JXTA_ITEM_NOTFOUND, jxta_resolver_query_set_hopcount rq 1, me)) }
      else
        (let hc = hc + 1; rq = jxta_resolver_query_set_hopcount rq hc
         in Some (if hc < 3 then JXTA_ITEM_NOTFOUND else JXTA_SUCCESS, rq, me)))"

end
