(* ===== verification/SrdiProps.thy ===== *)
theory SrdiProps
  imports Srdi Rendezvous "HOL-Library.Log_Nat"
begin

section \<open>Properties of the index\<close>

text \<open>
  Rendezvous that see the same peers select the same replica for an expression, so that a query
  for a name and a value finds the peer to which the entry was copied.  The replica is always in
  the upper half of the view.  The queries for numbers with a range, those for many replicas and
  those with many peers do not reach the peers they are meant for.
\<close>

subsection \<open>Ranges\<close>

text \<open>
  The segment of a value in a range of at least two segments is one of the segments and grows
  with the value, whatever the rounding of the arithmetic; with exact arithmetic the segments of an
  interval have equal lengths, values outside belong to the first and the last one.
\<close>

theorem range_position:
  assumes "rge_range rge \<noteq> None" "2 \<le> n"
  shows "0 \<le> jxta_range_get_position rnd num rge v n \<and> jxta_range_get_position rnd num rge v n < n \<and>
    (dle (num v) (num w) \<longrightarrow> jxta_range_get_position rnd num rge v n \<le> jxta_range_get_position rnd num rge w n) \<and>
    (rnd = Fin \<and> rge_low rge = Fin low \<and> rge_high rge = Fin high \<and> low < high \<and> num v = Fin x \<longrightarrow>
       jxta_range_get_position rnd num rge v n =
         (if x < low then 0 else min (n - 1) \<lfloor>(x - low) * real_of_int n / (high - low)\<rfloor>))"
proof -
  let ?pos = "\<lambda>v. jxta_range_get_position rnd num rge v n"
  let ?l = "ddiv rnd (dsub rnd (rge_high rge) (rge_low rge)) (nat n)"
  let ?k = "\<lambda>v. segment_loop rnd (num v) ?l (dadd rnd (rge_low rge) ?l) 0 (nat n - 1)"
  have pos: "?pos v = (if dless (num v) (rge_low rge) then 0 else if dless (rge_high rge) (num v) then n - 1 else int (?k v))" for v
    using assms by (auto simp: jxta_range_get_position_def jxta_range_get_low_def jxta_range_get_high_def Let_def)
  have k: "int (?k v) \<le> n - 1" for v
  proof -
    have "?k v \<le> nat n - 1"
      using segment_loop_le [of 0 "nat n - 1"] by blast
    then show ?thesis
      using assms(2) by linarith
  qed
  have bounds: "0 \<le> ?pos v \<and> ?pos v < n" for v
    using k [of v] assms(2) by (simp add: pos)
  have "?pos v \<le> ?pos w" if "dle (num v) (num w)"
    using bounds [of w] bounds [of v] k dless_dle [OF _ that] dle_dless [OF _ that] segment_loop_mono [OF that, of 0 "nat n - 1"]
    by (auto simp: pos)
  moreover have "?pos v = (if x < low then 0 else min (n - 1) \<lfloor>(x - low) * real_of_int n / (high - low)\<rfloor>)"
    if r: "rnd = Fin" "rge_low rge = Fin low" "rge_high rge = Fin high" "low < high" "num v = Fin x"
  proof -
    let ?s = "(high - low) / real (nat n)"
    have n: "real (nat n) = real_of_int n" "0 < real_of_int n"
      using assms(2) by simp_all
    have s: "0 < ?s" "(x - low) / ?s = (x - low) * real_of_int n / (high - low)"
      using r(4) n assms(2) by simp_all
    define f where "f = \<lfloor>(x - low) * real_of_int n / (high - low)\<rfloor>"
    have k': "?k v = min (nat n - 1) (nat f)" if "low \<le> x"
      using segment_loop_exact [OF s(1), of low 0 x "nat n - 1"] that r by (simp add: dsub_def s(2) f_def n(1))
    consider "x < low" | "low \<le> x" "high < x" | "low \<le> x" "x \<le> high"
      by linarith
    then have "(if dless (num v) (rge_low rge) then 0 else if dless (rge_high rge) (num v) then n - 1 else int (?k v)) =
        (if x < low then 0 else min (n - 1) f)"
    proof cases
      case 2
      then have "real_of_int n \<le> (x - low) * real_of_int n / (high - low)"
        using r(4) n(2) by (simp add: pos_le_divide_eq mult.commute)
      then have "n - 1 \<le> f"
        unfolding f_def by linarith
      then show ?thesis
        using 2 r by simp
    next
      case 3
      then have "0 \<le> f"
        using r(4) n(2) by (simp add: f_def)
      then have "int (min (nat n - 1) (nat f)) = min (n - 1) f"
        using assms(2) by linarith
      then show ?thesis
        using 3 r(2,3,5) unfolding k' [OF 3(1)] by simp
    qed (use r in simp)
    then show ?thesis
      unfolding pos f_def .
  qed
  ultimately show ?thesis
    using bounds by blast
qed

text \<open>A range that is read from its text, and a value in the third of four segments.\<close>

definition sample_number :: "ctext option \<Rightarrow> double" where
  "sample_number t = (if t = Some (str ''0 '') then Fin 0 else if t = Some (str '' 100'') then Fin 100
     else if t = Some (str ''-5'') then Fin (-5) else if t = Some (str ''200'') then Fin 200 else Fin 55)"

lemma sample_range:
  "\<exists>rge table. jxta_range_set_range sample_number Map.empty 1 jxta_range_new (str ''jxta:PA'') (str ''Load'') (Some (str ''(0 :: 100)'')) =
      Some (rge, table) \<and> rge_range rge = Some (str ''(0 :: 100)'') \<and> rge_low rge = Fin 0 \<and> rge_high rge = Fin 100"
  by (simp add: jxta_range_set_range_def range_get_elem_attr_def piece_size_def jxta_range_add_def range_parse_def number_size_def
      sample_number_def Let_def)

theorem range_position_witness:
  "\<exists>rge table. jxta_range_set_range sample_number Map.empty 1 jxta_range_new (str ''jxta:PA'') (str ''Load'') (Some (str ''(0 :: 100)'')) =
      Some (rge, table) \<and> jxta_range_get_position Fin sample_number rge (Some (str ''55'')) 4 = 2"
proof -
  obtain rge table where r: "jxta_range_set_range sample_number Map.empty 1 jxta_range_new (str ''jxta:PA'') (str ''Load'')
        (Some (str ''(0 :: 100)'')) = Some (rge, table)"
      "rge_range rge = Some (str ''(0 :: 100)'')" "rge_low rge = Fin 0" "rge_high rge = Fin 100"
    using sample_range by blast
  have "sample_number (Some (str ''55'')) = Fin 55"
    by (simp add: sample_number_def)
  then show ?thesis
    using range_position [of rge 4 Fin sample_number "Some (str ''55'')" _ 0 100 55] r by auto
qed

subsection \<open>Replicas\<close>

text \<open>The number of bits of a big number, as documented.\<close>

definition bits_law :: "srdi_env \<Rightarrow> bool" where
  "bits_law E \<longleftrightarrow> (\<forall>n. n < 2 ^ num_bits E n \<and> (0 < n \<longrightarrow> 0 < num_bits E n \<and> 2 ^ (num_bits E n - 1) \<le> n))"

text \<open>
  C25: The replica of an expression is a peer of the view, but always one of its upper half: the
  hash is divided by the power of two above itself and not by the number of all hashes, so that
  the peers of the lower half never get an entry or a query by a hash other than 0.
\<close>

theorem replica_upper_half:
  assumes "bits_law E" "0 < sha1 E expression" "0 < n"
  shows "n div 2 \<le> replica_position E n expression \<and> replica_position E n expression < n"
proof -
  define h b where "h = sha1 E expression" and "b = num_bits E h"
  have h: "h < 2 ^ b" "0 < b" "2 ^ (b - 1) \<le> h"
    using assms(1,2) by (auto simp: bits_law_def h_def b_def)
  have p: "replica_position E n expression = h * n div 2 ^ b"
    by (simp add: replica_position_def h_def b_def Let_def)
  have b: "2 ^ b = 2 * (2::nat) ^ (b - 1)"
    using h(2) by (metis Suc_diff_1 power_Suc)
  have "n div 2 = 2 ^ (b - 1) * n div 2 ^ b"
    by (simp add: b)
  also have "\<dots> \<le> h * n div 2 ^ b"
    using h(3) by (simp add: div_le_mono)
  finally show ?thesis
    using h(1) assms(3) by (simp add: p less_mult_imp_div_less mult.commute)
qed


definition sample_srdi_env :: "u8 \<Rightarrow> srdi_env" where
  "sample_srdi_env b =
     \<lparr>sha1 = (\<lambda>t. length t + 4), num_bits = floorlog 2, fp_round = Fin, to_number = sample_number, sr_now = sample_pv_env b,
      cfg_no_range = False, cfg_threshold = 1, cfg_delta = False, cm_srdi_with_seq = (\<lambda>_ _ e. (JXTA_ITEM_NOTFOUND, e)),
      cm_save_delta = (\<lambda>_ _ _. (JXTA_FAILED, None, 0)), key_order = id, send_srdi = (\<lambda>_. JXTA_SUCCESS), send_query = (\<lambda>_. JXTA_SUCCESS)\<rparr>"

lemma sample_bits: "bits_law (sample_srdi_env b)"
proof -
  have "0 < floorlog 2 n" if "0 < n" for n
    using floorlog_bounds [of n 2] that by (metis gr0I less_one not_less numeral_nat(7) one_less_numeral_iff power_0 semiring_norm(76))
  then show ?thesis
    using floorlog_bounds [of _ 2] by (auto simp: bits_law_def sample_srdi_env_def floorlog_def)
qed

theorem replica_upper_half_witness:
  "4 \<le> replica_position (sample_srdi_env 1) 8 (str ''NameA'') \<and> replica_position (sample_srdi_env 1) 8 (str ''NameA'') < 8"
  using replica_upper_half [OF sample_bits, of 1 "str ''NameA''" 8] by (simp add: sample_srdi_env_def)

subsection \<open>Views\<close>

text \<open>The peers of the view whose time is not over; looking at the view drops the others.\<close>

definition now_view :: "srdi_env \<Rightarrow> srdi \<Rightarrow> ptr list" where
  "now_view E me =
     filter (\<lambda>p. \<not> jxta_peer_get_expires (pve_at (sr_view me) p) < pv_now (sr_now E)) (view_order (sr_view me))"

abbreviation text_at :: "srdi \<Rightarrow> ptr \<Rightarrow> ctext" where
  "text_at me \<equiv> pid_text (sr_view me)"

definition viewed :: "srdi_env \<Rightarrow> srdi \<Rightarrow> srdi \<Rightarrow> bool" where
  "viewed E a b \<longleftrightarrow> now_view E b = now_view E a \<and> pid_of (sr_view b) = pid_of (sr_view a) \<and> sr_pid b = sr_pid a \<and>
     sr_sent b = sr_sent a \<and> sr_queries b = sr_queries a"

lemma viewed_refl [simp]: "viewed E a a"
  by (simp add: viewed_def)

lemma viewed_trans: "viewed E a b \<Longrightarrow> viewed E b c \<Longrightarrow> viewed E a c"
  by (simp add: viewed_def)

lemma local_view_now_ok: "\<exists>b. local_view_now E me = (now_view E me, b) \<and> viewed E me b"
  by (simp add: local_view_now_def jxta_peerview_get_localview_def Let_def viewed_def now_view_def remove_expired_PVEs_def
      pid_of_def fun_eq_iff)

definition select :: "srdi_env \<Rightarrow> ptr list \<Rightarrow> ctext \<Rightarrow> ptr option" where
  "select E v x = (let pos = replica_position E (length v) x in if pos < length v then Some (v ! pos) else None)"

lemma getReplicaPeer_ok: "\<exists>b. getReplicaPeer E me x = (select E (now_view E me) x, b) \<and> viewed E me b"
  using local_view_now_ok [of E me] by (auto simp: getReplicaPeer_def select_def Let_def)

lemma now_view_ok:
  assumes "pv_ok (sr_view me)"
  shows "set (now_view E me) \<subseteq> set (view_order (sr_view me))" "sorted_wrt (<) (map (text_at me) (now_view E me))"
proof -
  have "sorted_wrt (<) (map (text_at me) (view_order (sr_view me)))"
    using assms by (simp add: pv_ok_def)
  then show "sorted_wrt (<) (map (text_at me) (now_view E me))"
    by (simp add: now_view_def sorted_wrt_map sorted_wrt_filter)
  show "set (now_view E me) \<subseteq> set (view_order (sr_view me))"
    by (auto simp: now_view_def)
qed

definition same_index :: "srdi_env \<Rightarrow> srdi_env \<Rightarrow> bool" where
  "same_index E F \<longleftrightarrow> sha1 E = sha1 F \<and> num_bits E = num_bits F \<and> cfg_no_range E = cfg_no_range F"

lemma position_in_view: "bits_law E \<Longrightarrow> 0 < n \<Longrightarrow> replica_position E n x < n"
  by (auto simp: replica_position_def bits_law_def Let_def less_mult_imp_div_less mult.commute)

text \<open>Two rendezvous with the same peers in their views select the same peer.\<close>

lemma same_replica:
  assumes ok: "pv_ok (sr_view A)" "pv_ok (sr_view B)" and E: "same_index EA EB" "bits_law EA"
    and same: "set (map (text_at A) (now_view EA A)) = set (map (text_at B) (now_view EB B))" and v: "now_view EA A \<noteq> []"
  shows "\<exists>p q i. select EA (now_view EA A) x = Some p \<and> select EB (now_view EB B) x = Some q \<and>
    pid_of (sr_view A) p = Some i \<and> pid_of (sr_view B) q = Some i"
proof -
  let ?v = "now_view EA A" and ?w = "now_view EB B"
  have texts: "map (text_at A) ?v = map (text_at B) ?w"
    using now_view_ok(2) [OF ok(1)] now_view_ok(2) [OF ok(2)] same by (metis strict_sorted_equal)
  then have n: "length ?w = length ?v"
    by (metis length_map)
  let ?pos = "replica_position EA (length ?v) x"
  have pos: "?pos < length ?v" "replica_position EB (length ?w) x = ?pos"
    using position_in_view [OF E(2), of "length ?v" x] v E(1) n by (simp_all add: replica_position_def same_index_def Let_def)
  have eq: "text_at A (?v ! ?pos) = text_at B (?w ! ?pos)"
    using texts pos(1) n by (metis nth_map)
  have "?v ! ?pos \<in> set (view_order (sr_view A))" "?w ! ?pos \<in> set (view_order (sr_view B))"
    using now_view_ok(1) [OF ok(1)] now_view_ok(1) [OF ok(2)] pos(1) n by (metis nth_mem subsetD)+
  then obtain i j where "pid_of (sr_view A) (?v ! ?pos) = Some i" "peer_id i" "pid_of (sr_view B) (?w ! ?pos) = Some j" "peer_id j"
    using ok_texts(2) [OF ok(1)] ok_texts(2) [OF ok(2)] unfolding pve_known_def by metis
  then show ?thesis
    using eq idtext_inj [of i j] pos n by (auto simp: select_def pid_text_def)
qed

subsection \<open>Entries and queries\<close>

lemma id_equals_text: "jxta_id_equals (Some i) (Some j) \<Longrightarrow> idtext i = idtext j"
  by (cases i; cases j) (auto simp: id_equals_iff idtext_def jxta_id_to_jstring_def formatter_def id_formats jxta_getUniqueportion_def)

text \<open>An entry, and the element of a query that asks for it: a text, or a number without a range.\<close>

definition index_pair :: "srdi_env \<Rightarrow> nat \<Rightarrow> srdi_entry \<Rightarrow> query_element \<Rightarrow> bool" where
  "index_pair E n e q \<longleftrightarrow>
     (\<exists>k v. se_key e = Some k \<and> se_value e = Some v \<and> se_range e = None \<and> qe_name q = k \<and>
        (if qe_numeric q then take 1 v = str ''#'' \<and> \<not> cfg_no_range E \<and> 32 \<notin> set k \<and> length k < piece_size \<and> 2 \<le> n
         else take 1 v \<noteq> str ''#'' \<and> \<not> qe_wildcard q \<and> qe_value q = v))"

lemma plain_name: "32 \<notin> set k \<Longrightarrow> length (e @ k) < piece_size \<Longrightarrow> elem_attr_loop k e None = Some (e @ k, None)"
  by (induction k arbitrary: e) auto

lemma numeric_without_range:
  assumes "2 \<le> length (now_view E me)" "rge_range rge = None" "rge_element rge = Some k" "rge_attribute rge = None" "\<not> cfg_no_range E"
  shows "\<exists>b. getNumericReplica E me rge None = Some (select E (now_view E me) k, b) \<and> viewed E me b"
proof -
  obtain b where b: "local_view_now E me = (now_view E me, b)" "viewed E me b"
    using local_view_now_ok by blast
  obtain c where "getReplicaPeer E b k = (select E (now_view E b) k, c)" "viewed E b c"
    using getReplicaPeer_ok by blast
  then show ?thesis
    using assms b viewed_trans [OF b(2)] by (auto simp: getNumericReplica_def jxta_range_get_position_def jxta_range_get_element_def
        jxta_range_get_attribute_def viewed_def)
qed

lemma pair_selects:
  assumes "index_pair EA n e q" "same_index EA EB" "n = length (now_view EB B)"
  shows "\<exists>x A' B'. entry_replica EA A (jxta_srdi_new_element_3 e) = Some (select EA (now_view EA A) x, A') \<and> viewed EA A A' \<and>
    query_replica EB B ns q = Some (select EB (now_view EB B) x, B') \<and> viewed EB B B'"
proof -
  obtain k v where e: "se_key e = Some k" "se_value e = Some v" "se_range e = None" "qe_name q = k"
      and q: "if qe_numeric q then take 1 v = str ''#'' \<and> \<not> cfg_no_range EA \<and> 32 \<notin> set k \<and> length k < piece_size \<and> 2 \<le> n
         else take 1 v \<noteq> str ''#'' \<and> \<not> qe_wildcard q \<and> qe_value q = v"
    using assms(1) by (auto simp: index_pair_def)
  have entry: "entry_replica EA A (jxta_srdi_new_element_3 e) = Some (getReplicaPeer EA A (replicaExpression EA k v))"
    using e by (simp add: entry_replica_def jxta_srdi_new_element_3_def)
  show ?thesis
  proof (cases "qe_numeric q")
    case True
    obtain rge where rge: "jxta_range_new_1 ns k = Some rge" "rge_range rge = None" "rge_element rge = Some k" "rge_attribute rge = None"
      using q True plain_name [of k "[]"]
      by (auto simp: jxta_range_new_1_def jxta_range_set_element_attr_def range_get_elem_attr_def jxta_range_set_name_space_def
          jxta_range_new_def)
    then show ?thesis
      using entry getReplicaPeer_ok [of EA A k] numeric_without_range [of EB B rge k] q True assms(2,3) e(4)
      by (auto simp: replicaExpression_def query_replica_def same_index_def)
  next
    case False
    then show ?thesis
      using entry getReplicaPeer_ok [of EA A "k @ v"] getReplicaPeer_ok [of EB B "k @ v"] q e(4)
      by (auto simp: replicaExpression_def query_replica_def)
  qed
qed

text \<open>The copies that a message with one entry makes, and the queries that a query with one element makes.\<close>

lemma replicate_one:
  assumes "entry_replica EA A1 (jxta_srdi_new_element_3 e) = Some (Some p, A2)" "viewed EA A1 A2" "local_view_now EA A = (now_view EA A, A1)"
    and "viewed EA A A1" "pid_of (sr_view A) p = Some i" "se_value e \<noteq> None"
    and m: "sm_ttl msg \<ge> 1" "is_rendezvous (sr_now EA)" "unat (word_of_int (cfg_threshold EA) :: u32) \<le> length (now_view EA A)"
      "sm_entries msg = Some [e]" "sm_pkey msg = Some pk" "\<not> cfg_delta EA" "key_order EA [idtext i] = [idtext i]"
  shows "\<exists>A'. replicateEntries EA A msg queue = Some (JXTA_SUCCESS, A') \<and>
    sr_sent A' = sr_sent A @ (if idtext i = idtext (sr_pid A) then []
      else [(Some i, \<lparr>sm_ttl = 1, sm_peerid = Some (sr_pid A), sm_pkey = Some (trim_text pk),
                      sm_entries = Some [(jxta_srdi_new_element_3 e)\<lparr>se_seq := 0\<rparr>]\<rparr>)])"
proof -
  have "complete_entry EA j (jxta_srdi_new_element_3 e) = Some (jxta_srdi_new_element_3 e)" for j
    using assms(6) by (simp add: complete_entry_def jxta_srdi_new_element_3_def)
  then have group: "group_entries EA (map_option idtext (sm_peerid msg)) [e] A1 [] =
      Some ([(idtext i, p, [(jxta_srdi_new_element_3 e)\<lparr>se_seq := 0\<rparr>])], A2)"
    using assms(1,2,4,5) by (simp add: viewed_def)
  have i: "pid_of (sr_view A2) p = Some i" "sr_pid A2 = sr_pid A" "sr_sent A2 = sr_sent A"
    using assms(2,4,5) by (simp_all add: viewed_def)
  show ?thesis
    using assms(3) m group i
    by (cases "idtext i = idtext (sr_pid A)")
      (simp_all add: replicateEntries_def forwardSrdiEntries_def srdi_send_def del: group_entries.simps)
qed

lemma query_one:
  assumes "query_replica EB B ns q = Some (Some p, B1)" "viewed EB B B1" "pid_of (sr_view B) p = Some i"
    and "rq_hopcount rq = 0" "key_order EB [idtext i] = [idtext i]"
  shows "\<exists>st rq' B'. discovery_service_send_to_replica EB B rq (Some (ns, [q])) = Some (st, rq', B') \<and>
    sr_queries B' = sr_queries B @ (if idtext i = idtext (sr_pid B) then [] else [(i, rq\<lparr>rq_hopcount := 1\<rparr>)]) \<and>
    (idtext i = idtext (sr_pid B) \<longleftrightarrow> st = JXTA_ITEM_NOTFOUND)"
proof -
  have b: "pid_of (sr_view B1) p = Some i" "sr_pid B1 = sr_pid B" "sr_queries B1 = sr_queries B"
    using assms(2,3) by (simp_all add: viewed_def)
  show ?thesis
  proof (cases "idtext i = idtext (sr_pid B)")
    case True
    then show ?thesis
      using assms(1,4) b by (simp add: discovery_service_send_to_replica_def)
  next
    case False
    then have "\<not> jxta_id_equals (Some (sr_pid B)) (Some i)"
      using id_equals_text by metis
    then show ?thesis
      using False assms(1,4,5) b
      by (simp add: discovery_service_send_to_replica_def forwardQuery_peer_def increment_hop_count_def hopcount_ok_def
          jxta_resolver_query_set_hopcount_def srdi_sendQuery_def Let_def)
  qed
qed


definition sample_entry :: srdi_entry where
  "sample_entry = \<lparr>se_expiration = 0, se_key = Some (str ''Name''), se_value = Some (str ''A''), se_nspace = Some (str ''jxta:PA''),
     se_advid = None, se_range = None, se_seq = 3\<rparr>"

definition sample_srdi :: srdi where
  "sample_srdi = \<lparr>sr_pid = sample_peer 2, sr_view = sample_pv 1, sr_ranges = Map.empty, sr_next = 1, sr_sent = [], sr_queries = []\<rparr>"

lemma sample_now_view: "now_view (sample_srdi_env 1) sample_srdi = [1]"
  by (simp add: now_view_def sample_srdi_def sample_pv_eq sample_srdi_env_def sample_pv_env_def own_pve_def jxta_peer_get_expires_def
      JPR_ABSOLUTE_TIME_MAX_def)


subsection \<open>Numbers with a range\<close>

definition ranged_entry :: "ctext \<Rightarrow> ctext \<Rightarrow> ctext \<Rightarrow> ctext \<Rightarrow> srdi_entry" where
  "ranged_entry ns k r t = \<lparr>se_expiration = 0, se_key = Some k, se_value = Some (str ''#'' @ t), se_nspace = Some ns, se_advid = None,
     se_range = Some r, se_seq = 0\<rparr>"

lemma ranged_replica:
  assumes k: "32 \<notin> set k" "length k < piece_size" and r: "range_parse r = Some (Some (low, high))"
    and pos: "\<And>rge. rge_range rge = Some r \<Longrightarrow> rge_low rge = to_number E (Some low) \<Longrightarrow> rge_high rge = to_number E (Some high) \<Longrightarrow>
      jxta_range_get_position (fp_round E) (to_number E) rge (Some t) (int (length (now_view E A))) = int pos"
      "pos < length (now_view E A)"
  shows "\<exists>A'. entry_replica E A (ranged_entry ns k r t) = Some (Some (now_view E A ! pos), A')"
proof -
  obtain c cs where c: "r = c # cs"
    using r by (cases r) (auto simp: range_parse_def)
  obtain rge table where rge: "jxta_range_set_range (to_number E) (sr_ranges A) (sr_next A) jxta_range_new ns k (Some r) = Some (rge, table)"
      "rge_range rge = Some r" "rge_low rge = to_number E (Some low)" "rge_high rge = to_number E (Some high)"
    using r plain_name [of k "[]"] k
    by (simp add: jxta_range_set_range_def range_get_elem_attr_def jxta_range_add_def Let_def)
  let ?A = "A\<lparr>sr_ranges := table, sr_next := sr_next A + 1\<rparr>"
  have v: "now_view E ?A = now_view E A"
    by (simp add: now_view_def)
  obtain b where "local_view_now E ?A = (now_view E A, b)"
    using local_view_now_ok [of E ?A] v by auto
  then show ?thesis
    using rge(1) pos(1) [OF rge(2-4)] pos(2) c
    by (simp add: entry_replica_def ranged_entry_def getNumericReplica_def)
qed

text \<open>
  C26: The entries of numbers with a range are copied to the segment of their value, but a query
  for this name is sent to the one peer that the hash of the name selects, since the discovery
  service gives the range no limits and passes no value on: of two entries with values below and
  above the limits at least one is at another peer.
\<close>

theorem ranged_query_misses:
  assumes "pv_reachable (sr_view A)" "2 \<le> length (now_view E A)" "bits_law E" "\<not> cfg_no_range E" "32 \<notin> set k" "length k < piece_size"
    and "range_parse r = Some (Some (low, high))"
    and "dless (to_number E (Some x)) (to_number E (Some low))" "dless (to_number E (Some high)) (to_number E (Some y))"
      "\<not> dless (to_number E (Some y)) (to_number E (Some low))"
  shows "\<exists>p A1 q A2 s A3. entry_replica E A (ranged_entry ns k r x) = Some (Some p, A1) \<and>
    entry_replica E A (ranged_entry ns k r y) = Some (Some q, A2) \<and>
    query_replica E A ns \<lparr>qe_name = k, qe_value = v, qe_numeric = True, qe_wildcard = w\<rparr> = Some (Some s, A3) \<and>
    (text_at A p \<noteq> text_at A s \<or> text_at A q \<noteq> text_at A s)"
proof -
  let ?v = "now_view E A" and ?n = "length (now_view E A)"
  have p: "\<exists>A'. entry_replica E A (ranged_entry ns k r x) = Some (Some (?v ! 0), A')"
    using assms(2,8) by (intro ranged_replica [OF assms(5-7)])
      (auto simp: jxta_range_get_position_def jxta_range_get_low_def jxta_range_get_high_def Let_def)
  have q: "\<exists>A'. entry_replica E A (ranged_entry ns k r y) = Some (Some (?v ! (?n - 1)), A')"
    using assms(2,9,10) by (intro ranged_replica [OF assms(5-7)])
      (auto simp: jxta_range_get_position_def jxta_range_get_low_def jxta_range_get_high_def Let_def of_nat_diff)
  obtain rge where "jxta_range_new_1 ns k = Some rge" "rge_range rge = None" "rge_element rge = Some k" "rge_attribute rge = None"
    using plain_name [of k "[]"] assms(5,6)
    by (auto simp: jxta_range_new_1_def jxta_range_set_element_attr_def range_get_elem_attr_def jxta_range_set_name_space_def
        jxta_range_new_def)
  moreover have "replica_position E ?n k < ?n"
    by (rule position_in_view [OF assms(3)]) (use assms(2) in linarith)
  ultimately have s: "\<exists>s A'. query_replica E A ns \<lparr>qe_name = k, qe_value = v, qe_numeric = True, qe_wildcard = w\<rparr> = Some (Some s, A')"
    using numeric_without_range [OF assms(2), of rge k] assms(4)
    by (auto simp: query_replica_def select_def Let_def)
  have distinct: "distinct (map (text_at A) ?v)"
    using now_view_ok(2) [OF reachable_ok [OF assms(1)], of E] by (simp add: strict_sorted_iff)
  have n: "0 < ?n" "?n - 1 < ?n" "0 \<noteq> ?n - 1"
    using assms(2) by linarith+
  then have "text_at A (?v ! 0) \<noteq> text_at A (?v ! (?n - 1))"
    using nth_eq_iff_index_eq [OF distinct, of 0 "?n - 1"] by (simp add: nth_map [OF n(1)] nth_map [OF n(2)] del: One_nat_def)
  then show ?thesis
    using p q s by metis
qed

theorem ranged_query_misses_witness:
  "\<exists>A t p A1 q A2 s A3. let E = (sample_srdi_env 1)\<lparr>sr_now := (sample_pv_env 1)\<lparr>pv_now := t\<rparr>\<rparr> in
    entry_replica E A (ranged_entry (str ''jxta:PA'') (str ''Load'') (str ''(0 :: 100)'') (str ''-5'')) = Some (Some p, A1) \<and>
    entry_replica E A (ranged_entry (str ''jxta:PA'') (str ''Load'') (str ''(0 :: 100)'') (str ''200'')) = Some (Some q, A2) \<and>
    query_replica E A (str ''jxta:PA'') \<lparr>qe_name = str ''Load'', qe_value = [], qe_numeric = True, qe_wildcard = False\<rparr> = Some (Some s, A3) \<and>
    (text_at A p \<noteq> text_at A s \<or> text_at A q \<noteq> text_at A s)"
proof -
  obtain V p where V: "pv_reachable V" "set (view_order V) = {self_pve V, p}" "pid_text V (self_pve V) \<noteq> pid_text V p"
    using sample_heard [of 1 2] sample_texts by metis
  define t where "t = min (peer_expires (pve_at V (self_pve V))) (peer_expires (pve_at V p))"
  let ?E = "(sample_srdi_env 1)\<lparr>sr_now := (sample_pv_env 1)\<lparr>pv_now := t\<rparr>\<rparr>" and ?A = "sample_srdi\<lparr>sr_view := V\<rparr>"
  have "now_view ?E ?A = view_order V"
    using V(2) by (auto simp: now_view_def filter_id_conv t_def jxta_peer_get_expires_def)
  moreover have "card (set (view_order V)) = 2"
    using V(2,3) by (auto simp: card_insert_if)
  ultimately have n: "2 \<le> length (now_view ?E ?A)"
    using card_length [of "view_order V"] by simp
  have E: "bits_law ?E" "\<not> cfg_no_range ?E" "pv_reachable (sr_view ?A)"
    using sample_bits [of 1] V(1) by (simp_all add: bits_law_def sample_srdi_env_def)
  have k: "32 \<notin> set (str ''Load'')" "length (str ''Load'') < piece_size"
    by (simp_all add: piece_size_def)
  have r: "range_parse (str ''(0 :: 100)'') = Some (Some (str ''0 '', str '' 100''))"
    by (simp add: range_parse_def number_size_def)
  have x: "dless (to_number ?E (Some (str ''-5''))) (to_number ?E (Some (str ''0 '')))"
      "dless (to_number ?E (Some (str '' 100''))) (to_number ?E (Some (str ''200'')))"
      "\<not> dless (to_number ?E (Some (str ''200''))) (to_number ?E (Some (str ''0 '')))"
    by (simp_all add: sample_srdi_env_def sample_number_def)
  show ?thesis
    using ranged_query_misses [OF E(3) n E(1,2) k r x, of "str ''jxta:PA''" "[]" False] unfolding Let_def by blast
qed

subsection \<open>Queries to many peers\<close>

lemma numeric_viewed: "getNumericReplica E me rge t = Some (r, b) \<Longrightarrow> viewed E me b"
proof -
  assume a: "getNumericReplica E me rge t = Some (r, b)"
  obtain c where c: "local_view_now E me = (now_view E me, c)" "viewed E me c"
    using local_view_now_ok by blast
  have "viewed E c (snd (getReplicaPeer E c x))" for x
    using getReplicaPeer_ok [of E c x] by auto
  then have "viewed E c b"
    using a c(1) by (auto simp: getNumericReplica_def Let_def split: if_splits option.splits bind_splits) (metis snd_conv)+
  then show ?thesis
    using viewed_trans [OF c(2)] by blast
qed

lemma query_viewed: "query_replica E me ns q = Some (r, b) \<Longrightarrow> viewed E me b"
  using getReplicaPeer_ok [of E me "qe_name q @ qe_value q"] numeric_viewed
  by (auto simp: query_replica_def split: if_splits bind_splits)

lemma srdi_collect_ok:
  "collect_replicas E ns qs me ph = Some (ph', b) \<Longrightarrow> sr_queries b = sr_queries me \<and> length ph' \<le> length ph + length qs"
proof (induction qs arbitrary: me ph)
  case (Cons q qs)
  obtain rep c where c: "query_replica E me ns q = Some (rep, c)"
    using Cons.prems by (auto split: bind_splits)
  have "sr_queries c = sr_queries me"
    using query_viewed [OF c] by (simp add: viewed_def)
  moreover obtain ph1 where "collect_replicas E ns qs c ph1 = Some (ph', b)" "length ph1 \<le> length ph + 1"
  proof (cases rep)
    case None
    then show ?thesis
      using that Cons.prems c by simp
  next
    case (Some p)
    then show ?thesis
      using that Cons.prems c by (auto split: bind_splits if_splits)
  qed
  ultimately show ?case
    using Cons.IH by fastforce
qed simp

lemma forward_peer_bound:
  assumes "forwardQuery_peer E me p q = (st, q', b)" "0 \<le> rq_hopcount q" "rq_hopcount q + 1 < 2 ^ 31"
  shows "0 \<le> rq_hopcount q' \<and> rq_hopcount q' \<le> rq_hopcount q + 1 \<and>
    length (sr_queries b) + nat (2 - rq_hopcount q') \<le> length (sr_queries me) + nat (2 - rq_hopcount q)"
proof (cases p)
  case None
  then show ?thesis
    using assms by (simp add: forwardQuery_peer_def)
next
  case (Some i)
  have "rq_hopcount (increment_hop_count q) = rq_hopcount q + 1"
    using assms(2,3) by (simp add: increment_hop_count_def jxta_resolver_query_set_hopcount_def signed_take_bit_int_eq_self Let_def)
  then show ?thesis
    using assms(1,2) Some by (auto simp: forwardQuery_peer_def hopcount_ok_def srdi_sendQuery_def Let_def split: if_splits)
qed

lemma forward_all_bound:
  assumes "forward_all E me ph ts q = (q', b)" "0 \<le> rq_hopcount q" "rq_hopcount q + int (length ts) < 2 ^ 31"
  shows "length (sr_queries b) \<le> length (sr_queries me) + nat (2 - rq_hopcount q)"
  using assms
proof (induction ts arbitrary: me q)
  case (Cons t ts)
  obtain st q1 c where f: "forwardQuery_peer E me (map_of ph t) q = (st, q1, c)"
    by (metis prod_cases3)
  then show ?case
    using Cons.IH [of c q1] forward_peer_bound [OF f] Cons.prems by fastforce
qed simp

text \<open>
  C27: Limits of the forwarding of queries.  A query from the own peer is sent to at most two
  replicas, however many its elements select, since each send counts as a hop; a query for more
  peers than the threshold is sent to none of them and reported as a success; and a hop count of
  \<open>INT_MAX\<close> that comes with a query overflows and passes the check.
\<close>

theorem query_fan_out:
  assumes "\<forall>ts. length (key_order E ts) = length ts"
  shows "(rq_hopcount q = 0 \<and> length elems < 2 ^ 31 - 1 \<and> discovery_service_send_to_replica E me q (Some (ns, elems)) = Some (st, q', b) \<longrightarrow>
      length (sr_queries b) \<le> length (sr_queries me) + 2) \<and>
    (threshold < int (length peers) \<longrightarrow>
      (\<exists>q1 b1. forwardQuery_threshold E me peers q threshold = (JXTA_SUCCESS, q1, b1) \<and> sr_queries b1 = sr_queries me)) \<and>
    (rq_hopcount q = 2 ^ 31 - 1 \<and> \<not> jxta_id_equals (Some (sr_pid me)) (Some p) \<longrightarrow>
      (\<exists>st1 b2. forwardQuery_peer E me (Some p) q = (st1, q\<lparr>rq_hopcount := - (2 ^ 31)\<rparr>, b2) \<and>
        sr_queries b2 = sr_queries me @ [(p, q\<lparr>rq_hopcount := - (2 ^ 31)\<rparr>)]))"
proof -
  have "length (sr_queries b) \<le> length (sr_queries me) + 2"
    if a: "rq_hopcount q = 0" "length elems < 2 ^ 31 - 1" "discovery_service_send_to_replica E me q (Some (ns, elems)) = Some (st, q', b)"
  proof -
    obtain ph c where c: "collect_replicas E ns elems me [] = Some (ph, c)"
      using a by (auto simp: discovery_service_send_to_replica_def split: bind_splits)
    have l: "sr_queries c = sr_queries me" "length (key_order E (map fst ph)) < 2 ^ 31 - 1"
      using srdi_collect_ok [OF c] a(2) assms by auto
    obtain q2 d where d: "forward_all E c ph (key_order E (map fst ph)) q = (q2, d)"
      by fastforce
    have "length (sr_queries d) \<le> length (sr_queries c) + 2"
      using forward_all_bound [OF d] a(1) l(2) by simp
    then show ?thesis
      using a(1,3) c d l(1) by (auto simp: discovery_service_send_to_replica_def split: if_splits)
  qed
  moreover have "\<exists>q1 b1. forwardQuery_threshold E me peers q threshold = (JXTA_SUCCESS, q1, b1) \<and> sr_queries b1 = sr_queries me"
    if "threshold < int (length peers)"
    using that by (simp add: forwardQuery_threshold_def randomResult_def forwardQuery_peers_def Let_def split: prod.split)
  moreover have "\<exists>st1 b2. forwardQuery_peer E me (Some p) q = (st1, q\<lparr>rq_hopcount := - (2 ^ 31)\<rparr>, b2) \<and>
      sr_queries b2 = sr_queries me @ [(p, q\<lparr>rq_hopcount := - (2 ^ 31)\<rparr>)]"
    if "rq_hopcount q = 2 ^ 31 - 1" "\<not> jxta_id_equals (Some (sr_pid me)) (Some p)"
  proof -
    have "increment_hop_count q = q\<lparr>rq_hopcount := - (2 ^ 31)\<rparr>"
      using that(1) by (simp add: increment_hop_count_def jxta_resolver_query_set_hopcount_def)
    then show ?thesis
      using that(2) by (simp add: forwardQuery_peer_def hopcount_ok_def srdi_sendQuery_def Let_def)
  qed
  ultimately show ?thesis
    by blast
qed

theorem query_fan_out_witness:
  "\<exists>q1 b1 st1 b2. forwardQuery_threshold (sample_srdi_env 1) sample_srdi [sample_peer 1, sample_peer 2]
      \<lparr>rq_hopcount = 0, rq_body = []\<rparr> 1 = (JXTA_SUCCESS, q1, b1) \<and> sr_queries b1 = [] \<and>
    forwardQuery_peer (sample_srdi_env 1) sample_srdi (Some (sample_peer 1)) \<lparr>rq_hopcount = 2147483647, rq_body = []\<rparr> =
      (st1, \<lparr>rq_hopcount = -2147483648, rq_body = []\<rparr>, b2) \<and> sr_queries b2 = [(sample_peer 1, \<lparr>rq_hopcount = -2147483648, rq_body = []\<rparr>)]"
proof -
  have "\<forall>ts. length (key_order (sample_srdi_env 1) ts) = length ts"
    by (simp add: sample_srdi_env_def)
  note fan = query_fan_out [OF this, of _ _ sample_srdi _ _ _ _ 1 "[sample_peer 1, sample_peer 2]" "sample_peer 1"]
  have "\<not> jxta_id_equals (Some (sr_pid sample_srdi)) (Some (sample_peer 1))"
    using id_equals_text [of "sample_peer 2" "sample_peer 1"] sample_texts by (auto simp: sample_srdi_def)
  then show ?thesis
    using fan [of "\<lparr>rq_hopcount = 0, rq_body = []\<rparr>"] fan [of "\<lparr>rq_hopcount = 2147483647, rq_body = []\<rparr>"]
    by (auto simp: sample_srdi_def)
qed

end
