(* ===== verification/JDList.thy ===== *)
theory JDList
  imports JObject
begin

section \<open>Doubly linked lists (src/src/jdlist.c)\<close>

text \<open>
  A list is a ring of nodes with a sentinel, whose address stands for the list.  The
  nodes live in a store from addresses to nodes; a block that is not allocated is
  undefined there, and an access to it, which is undefined behaviour of the program, is
  \<open>None\<close>.  An operation that allocates gets the block that \<open>malloc\<close> returns as an
  argument, its address and its indeterminate contents; the null address stands for an
  allocation that failed, through which the code writes.

  The contents of a list are the values along the links.  The lemmas show that each
  operation changes exactly the links that it should: the ring stays a ring in both
  directions, and the contents are those of a list with the same operation on it.
\<close>

record dnode =
  flink :: ptr
  blink :: ptr
  dval :: ptr

type_synonym store = "ptr \<rightharpoonup> dnode"

definition set_flink :: "ptr \<Rightarrow> ptr \<Rightarrow> store \<Rightarrow> store option" where
  "set_flink a x s = (case s a of None \<Rightarrow> None | Some n \<Rightarrow> Some (s(a \<mapsto> n\<lparr>flink := x\<rparr>)))"

definition set_blink :: "ptr \<Rightarrow> ptr \<Rightarrow> store \<Rightarrow> store option" where
  "set_blink a x s = (case s a of None \<Rightarrow> None | Some n \<Rightarrow> Some (s(a \<mapsto> n\<lparr>blink := x\<rparr>)))"

definition set_dval :: "ptr \<Rightarrow> ptr \<Rightarrow> store \<Rightarrow> store option" where
  "set_dval a x s = (case s a of None \<Rightarrow> None | Some n \<Rightarrow> Some (s(a \<mapsto> n\<lparr>dval := x\<rparr>)))"

text \<open>The block that \<open>malloc\<close> returns: its address and what it happens to contain.\<close>

type_synonym block = "ptr \<times> dnode"

definition malloc_node :: "block \<Rightarrow> store \<Rightarrow> store" where
  "malloc_node b s = (if fst b = NULL then s else s(fst b \<mapsto> snd b))"

subsection \<open>Operations\<close>

definition dl_make :: "block \<Rightarrow> store \<Rightarrow> (ptr \<times> store) option" where
  "dl_make b s = do {
     let d = fst b;
     let s1 = malloc_node b s;
     s2 \<leftarrow> set_flink d d s1;
     s3 \<leftarrow> set_blink d d s2;
     s4 \<leftarrow> set_dval d NULL s3;
     Some (d, s4) }"

definition dl_insert_b :: "block \<Rightarrow> ptr \<Rightarrow> ptr \<Rightarrow> store \<Rightarrow> store option" where
  "dl_insert_b b node v s = do {
     let new_node = fst b;
     let s1 = malloc_node b s;
     s2 \<leftarrow> set_dval new_node v s1;
     n \<leftarrow> s2 node;
     let last_node = blink n;
     s3 \<leftarrow> set_blink node new_node s2;
     s4 \<leftarrow> set_flink last_node new_node s3;
     s5 \<leftarrow> set_blink new_node last_node s4;
     set_flink new_node node s5 }"

definition dl_insert_a :: "block \<Rightarrow> ptr \<Rightarrow> ptr \<Rightarrow> store \<Rightarrow> store option" where
  "dl_insert_a b node v s = do { n \<leftarrow> s node; dl_insert_b b (flink n) v s }"

definition dl_empty :: "ptr \<Rightarrow> store \<Rightarrow> bool option" where
  "dl_empty l s = do { n \<leftarrow> s l; Some (flink n = l) }"

definition dl_first :: "ptr \<Rightarrow> store \<Rightarrow> ptr option" where
  "dl_first l s = do { n \<leftarrow> s l; Some (flink n) }"

definition dl_val :: "ptr \<Rightarrow> store \<Rightarrow> ptr option" where
  "dl_val l s = do { n \<leftarrow> s l; Some (dval n) }"

definition dl_insert_list_b :: "ptr \<Rightarrow> ptr \<Rightarrow> store \<Rightarrow> store option" where
  "dl_insert_list_b node lst s = do {
     e \<leftarrow> dl_empty lst s;
     if e then Some (s(lst := None))
     else do {
       n \<leftarrow> s lst;
       let f = flink n;
       let l = blink n;
       m \<leftarrow> s node;
       let last_node = blink m;
       s1 \<leftarrow> set_blink node l s;
       s2 \<leftarrow> set_flink last_node f s1;
       s3 \<leftarrow> set_blink f last_node s2;
       s4 \<leftarrow> set_flink l node s3;
       Some (s4(lst := None)) } }"

definition dl_delete_node :: "ptr \<Rightarrow> store \<Rightarrow> store option" where
  "dl_delete_node item s = do {
     n \<leftarrow> s item;
     s1 \<leftarrow> set_blink (flink n) (blink n) s;
     n1 \<leftarrow> s1 item;
     s2 \<leftarrow> set_flink (blink n1) (flink n1) s1;
     Some (s2(item := None)) }"

text \<open>
  The loops follow the links until they are back at the sentinel; in a ring that was
  broken they may never be, so they are partial.  \<open>None\<close> is both an access to a block
  that is not allocated and a loop without end.
\<close>

partial_function (option) dl_size_loop :: "ptr \<Rightarrow> store \<Rightarrow> nat \<Rightarrow> ptr \<Rightarrow> nat option" where
  "dl_size_loop l s i d =
     (if d = l then Some i
      else do { n \<leftarrow> s d; dl_size_loop l s (i + 1) (flink n) })"

definition dl_size :: "ptr \<Rightarrow> store \<Rightarrow> nat option" where
  "dl_size l s = do { n \<leftarrow> s l; dl_size_loop l s 0 (flink n) }"

partial_function (option) dl_delete_loop :: "ptr \<Rightarrow> ptr \<Rightarrow> store \<Rightarrow> store option" where
  "dl_delete_loop l d s =
     (if d = l then Some (s(d := None))
      else do { n \<leftarrow> s d; dl_delete_loop l (flink n) (s(d := None)) })"

definition dl_delete_list :: "ptr \<Rightarrow> store \<Rightarrow> store option" where
  "dl_delete_list l s = do { n \<leftarrow> s l; dl_delete_loop l (flink n) s }"

text \<open>
  \<open>dl_free\<close> calls the function it is given on each value, or releases the value when there
  is none; the heap of objects is threaded through.
\<close>

definition free_value :: "(ptr \<Rightarrow> heap \<Rightarrow> heap) option \<Rightarrow> ptr \<Rightarrow> heap \<Rightarrow> heap" where
  "free_value f v h = (case f of Some g \<Rightarrow> g v h | None \<Rightarrow> if v \<noteq> NULL then release v h else h)"

partial_function (option) dl_free_loop ::
  "(ptr \<Rightarrow> heap \<Rightarrow> heap) option \<Rightarrow> ptr \<Rightarrow> ptr \<Rightarrow> store \<Rightarrow> heap \<Rightarrow> (store \<times> heap) option" where
  "dl_free_loop f l d s h =
     (if d = l then Some (s(d := None), h)
      else do {
        n \<leftarrow> s d;
        dl_free_loop f l (flink n) (s(d := None)) (free_value f (dval n) h) })"

definition dl_free :: "(ptr \<Rightarrow> heap \<Rightarrow> heap) option \<Rightarrow> ptr \<Rightarrow> store \<Rightarrow> heap \<Rightarrow> (store \<times> heap) option" where
  "dl_free f l s h = do { n \<leftarrow> s l; dl_free_loop f l (flink n) s h }"

partial_function (option) dl_print_loop ::
  "(ptr \<Rightarrow> 'u \<Rightarrow> 'u) \<Rightarrow> ptr \<Rightarrow> store \<Rightarrow> ptr \<Rightarrow> 'u \<Rightarrow> 'u option" where
  "dl_print_loop f l s d u =
     (if d = l then Some u
      else do { n \<leftarrow> s d; dl_print_loop f l s (flink n) (f (dval n) u) })"

definition dl_print :: "(ptr \<Rightarrow> 'u \<Rightarrow> 'u) \<Rightarrow> ptr \<Rightarrow> store \<Rightarrow> 'u \<Rightarrow> 'u option" where
  "dl_print f l s u = do { n \<leftarrow> s l; dl_print_loop f l s (flink n) u }"

declare dl_size_loop.simps [code] dl_delete_loop.simps [code] dl_free_loop.simps [code] dl_print_loop.simps [code]

subsection \<open>Rings and their contents\<close>

definition fl :: "store \<Rightarrow> ptr \<Rightarrow> ptr" where "fl s a = flink (the (s a))"
definition bl :: "store \<Rightarrow> ptr \<Rightarrow> ptr" where "bl s a = blink (the (s a))"
definition vl :: "store \<Rightarrow> ptr \<Rightarrow> ptr" where "vl s a = dval (the (s a))"

text \<open>From \<open>a\<close> over the nodes \<open>ns\<close> to \<open>z\<close>, linked forwards and backwards.\<close>

fun chain :: "store \<Rightarrow> ptr \<Rightarrow> ptr list \<Rightarrow> ptr \<Rightarrow> bool" where
  "chain s a [] z \<longleftrightarrow> fl s a = z \<and> bl s z = a"
| "chain s a (b # ns) z \<longleftrightarrow> fl s a = b \<and> bl s b = a \<and> chain s b ns z"

definition ring :: "store \<Rightarrow> ptr \<Rightarrow> ptr list \<Rightarrow> bool" where
  "ring s l ns \<longleftrightarrow> distinct (l # ns) \<and> NULL \<notin> set (l # ns) \<and> set (l # ns) \<subseteq> dom s \<and> chain s l ns l"

definition contents :: "store \<Rightarrow> ptr list \<Rightarrow> ptr list" where
  "contents s ns = map (vl s) ns"

text \<open>The list at \<open>l\<close> holds the values \<open>vs\<close>, and its nodes are not in \<open>other\<close>.\<close>

definition dlist :: "store \<Rightarrow> ptr \<Rightarrow> ptr list \<Rightarrow> bool" where
  "dlist s l vs \<longleftrightarrow> (\<exists>ns. ring s l ns \<and> contents s ns = vs)"

named_theorems dl_simps \<open>effect of the link updates\<close>

lemma set_flink_eq [dl_simps]: "a \<in> dom s \<Longrightarrow> set_flink a x s = Some (s(a \<mapsto> (the (s a))\<lparr>flink := x\<rparr>))"
  by (auto simp: set_flink_def)

lemma set_blink_eq [dl_simps]: "a \<in> dom s \<Longrightarrow> set_blink a x s = Some (s(a \<mapsto> (the (s a))\<lparr>blink := x\<rparr>))"
  by (auto simp: set_blink_def)

lemma set_dval_eq [dl_simps]: "a \<in> dom s \<Longrightarrow> set_dval a x s = Some (s(a \<mapsto> (the (s a))\<lparr>dval := x\<rparr>))"
  by (auto simp: set_dval_def)

lemma set_flink_links:
  assumes "a \<in> dom s"
  shows "\<exists>s'. set_flink a x s = Some s' \<and> fl s' = (fl s)(a := x) \<and> bl s' = bl s \<and> vl s' = vl s \<and>
    dom s' = dom s"
  using assms by (intro exI [of _ "s(a \<mapsto> (the (s a))\<lparr>flink := x\<rparr>)"])
    (auto simp: set_flink_def fl_def bl_def vl_def fun_eq_iff)

lemma set_blink_links:
  assumes "a \<in> dom s"
  shows "\<exists>s'. set_blink a x s = Some s' \<and> fl s' = fl s \<and> bl s' = (bl s)(a := x) \<and> vl s' = vl s \<and>
    dom s' = dom s"
  using assms by (intro exI [of _ "s(a \<mapsto> (the (s a))\<lparr>blink := x\<rparr>)"])
    (auto simp: set_blink_def fl_def bl_def vl_def fun_eq_iff)

lemma chain_append:
  "chain s a (xs @ y # ys) z \<longleftrightarrow> chain s a xs y \<and> chain s y ys z"
  by (induction xs arbitrary: a) auto

lemma chain_cong:
  assumes "\<And>x. x \<in> set (a # ns) \<Longrightarrow> fl s' x = fl s x"
    and "\<And>x. x \<in> set (ns @ [z]) \<Longrightarrow> bl s' x = bl s x"
  shows "chain s' a ns z \<longleftrightarrow> chain s a ns z"
  using assms by (induction ns arbitrary: a) auto

lemma chain_last: "chain s a ns z \<Longrightarrow> bl s z = last (a # ns)"
  by (induction ns arbitrary: a) auto

lemma chain_first: "chain s a ns z \<Longrightarrow> fl s a = hd (ns @ [z])"
  by (cases ns) auto

lemma ring_alloc: "ring s l ns \<Longrightarrow> a \<in> set (l # ns) \<Longrightarrow> a \<in> dom s"
  unfolding ring_def by blast

lemma chain_snoc: "chain s a (xs @ [y]) z \<longleftrightarrow> chain s a xs y \<and> fl s y = z \<and> bl s z = y"
  using chain_append [of s a xs y "[]" z] by simp

lemma in_butlast:
  assumes "x \<in> set (butlast xs)" "distinct xs"
  shows "x \<in> set xs" "x \<noteq> last xs"
proof -
  have "xs \<noteq> []" using assms(1) by auto
  then have "distinct (butlast xs @ [last xs])" using assms(2) by simp
  then show "x \<in> set xs" "x \<noteq> last xs" using assms(1) in_set_butlastD [OF assms(1)] by auto
qed

text \<open>The two ends of a chain: the last link or the first link is turned elsewhere.\<close>

lemma chain_turn_last:
  assumes "chain s a xs z" "distinct (a # xs)"
    and "\<And>x. x \<in> set (butlast (a # xs)) \<Longrightarrow> fl s' x = fl s x"
    and "\<And>x. x \<in> set xs \<Longrightarrow> bl s' x = bl s x"
    and "fl s' (last (a # xs)) = w" "bl s' w = last (a # xs)"
  shows "chain s' a xs w"
  using assms by (induction xs arbitrary: a) auto

lemma chain_turn_first:
  assumes "chain s a ys z" "distinct (ys @ [z])"
    and "\<And>x. x \<in> set ys \<Longrightarrow> fl s' x = fl s x"
    and "\<And>x. x \<in> set (tl (ys @ [z])) \<Longrightarrow> bl s' x = bl s x"
    and "fl s' b = hd (ys @ [z])" "bl s' (hd (ys @ [z])) = b"
  shows "chain s' b ys z"
proof (cases ys)
  case Nil
  with assms show ?thesis by simp
next
  case (Cons y zs)
  have "chain s' y zs z \<longleftrightarrow> chain s y zs z"
    by (rule chain_cong) (use assms Cons in auto)
  with assms Cons show ?thesis by simp
qed

lemma chain_join:
  assumes "chain s a as (hd (bs @ [z]))" "chain s (last (a # as)) bs z"
  shows "chain s a (as @ bs) z"
proof (cases bs)
  case Nil
  then show ?thesis using assms(1) by simp
next
  case (Cons b bt)
  have "chain s a as b" "chain s b bt z" using assms unfolding Cons by simp_all
  then show ?thesis unfolding Cons by (simp add: chain_append)
qed

lemma ring_split:
  assumes "ring s l (as @ bs)"
  shows "bl s (hd (bs @ [l])) = last (l # as)" "fl s (last (l # as)) = hd (bs @ [l])"
    "chain s l as (hd (bs @ [l]))" "chain s (last (l # as)) bs l"
proof -
  have c: "chain s l (as @ bs) l" using assms by (simp add: ring_def)
  have both: "chain s l as (hd (bs @ [l])) \<and> chain s (last (l # as)) bs l"
  proof (cases bs)
    case Nil
    have "fl s (last (l # as)) = l \<and> bl s l = last (l # as)"
      using c unfolding Nil by (cases as rule: rev_cases) (simp_all add: chain_snoc)
    then show ?thesis using c unfolding Nil by simp
  next
    case (Cons b bt)
    have 1: "chain s l as b" and 2: "chain s b bt l" using c unfolding Cons by (simp_all add: chain_append)
    have "fl s (last (l # as)) = b \<and> bl s b = last (l # as)"
      using 1 by (cases as rule: rev_cases) (simp_all add: chain_snoc)
    then show ?thesis unfolding Cons using 1 2 by simp
  qed
  from both show c1: "chain s l as (hd (bs @ [l]))" and c2: "chain s (last (l # as)) bs l" by simp_all
  show "bl s (hd (bs @ [l])) = last (l # as)" by (rule chain_last [OF c1])
  show "fl s (last (l # as)) = hd (bs @ [l])" by (rule chain_first [OF c2])
qed

subsection \<open>What the operations do to a ring\<close>

lemma ring_make:
  assumes "d \<noteq> NULL"
  shows "\<exists>s'. dl_make (d, g) s = Some (d, s') \<and> ring s' d [] \<and> (\<forall>x. x \<noteq> d \<longrightarrow> s' x = s x)"
  using assms by (auto simp: dl_make_def malloc_node_def dl_simps ring_def fl_def bl_def)

lemma dl_insert_b_links:
  assumes "node \<in> dom s" "bl s node \<in> dom s" "a \<noteq> NULL" "a \<notin> dom s"
  shows "\<exists>s'. dl_insert_b (a, g) node v s = Some s' \<and> fl s' = (fl s)(bl s node := a, a := node) \<and>
    bl s' = (bl s)(node := a, a := bl s node) \<and> vl s' = (vl s)(a := v) \<and> dom s' = insert a (dom s) \<and>
    (\<forall>x. x \<noteq> a \<longrightarrow> x \<noteq> node \<longrightarrow> x \<noteq> bl s node \<longrightarrow> s' x = s x)"
proof -
  obtain n m where n: "s node = Some n" and m: "s (blink n) = Some m"
    using assms(1,2) by (auto simp: bl_def)
  have ne: "a \<noteq> node" "a \<noteq> blink n" using assms n m by auto
  have b: "bl s node = blink n" using n by (simp add: bl_def)
  show ?thesis
    using ne n m assms(3) unfolding b
    by (cases "blink n = node"; simp add: dl_insert_b_def malloc_node_def set_flink_def set_blink_def
          set_dval_def Let_def)
       (auto simp: fl_def bl_def vl_def fun_eq_iff)
qed

lemma ring_insert_b:
  assumes r: "ring s l (as @ bs)" and n: "node = hd (bs @ [l])" and a: "a \<noteq> NULL" "a \<notin> dom s"
  shows "\<exists>s'. dl_insert_b (a, g) node v s = Some s' \<and> ring s' l (as @ a # bs) \<and>
    contents s' (as @ a # bs) = contents s as @ v # contents s bs \<and>
    (\<forall>x. x \<notin> set (l # a # as @ bs) \<longrightarrow> s' x = s x)"
proof -
  have nodes: "node \<in> set (l # bs)" "last (l # as) \<in> set (l # as)" using n by (cases bs; simp)+
  have d: "distinct (l # as @ bs)" "set (l # as @ bs) \<subseteq> dom s" using r by (auto simp: ring_def)
  have p: "bl s node = last (l # as)" using ring_split(1) [OF r] n by simp
  have "node \<in> dom s" "bl s node \<in> dom s" using nodes d(2) p by auto
  from dl_insert_b_links [OF this a, of g v] obtain s' where
    s': "dl_insert_b (a, g) node v s = Some s'"
    and f: "fl s' = (fl s)(last (l # as) := a, a := node)"
    and b: "bl s' = (bl s)(node := a, a := last (l # as))"
    and v: "vl s' = (vl s)(a := v)" "dom s' = insert a (dom s)"
    and o: "\<forall>x. x \<noteq> a \<longrightarrow> x \<noteq> node \<longrightarrow> x \<noteq> last (l # as) \<longrightarrow> s' x = s x"
    unfolding p by blast
  have fresh: "a \<notin> set (l # as @ bs)" using a(2) d(2) by auto
  have inb: "x \<in> set (butlast (l # as)) \<Longrightarrow> x \<in> set (l # as) \<and> x \<noteq> last (l # as)" for x
    using in_butlast [of x "l # as"] d(1) by auto
  have na: "node \<notin> set as" using d(1) n by (cases bs) auto
  have "chain s' l as a"
  proof (rule chain_turn_last [OF ring_split(3) [OF r]])
    show "distinct (l # as)" using d(1) by simp
    show "fl s' x = fl s x" if "x \<in> set (butlast (l # as))" for x
      using inb [OF that] fresh nodes d(1) n unfolding f by (cases bs) auto
    show "bl s' x = bl s x" if "x \<in> set as" for x
      using that fresh na unfolding b by auto
    show "fl s' (last (l # as)) = a" "bl s' a = last (l # as)"
      using fresh nodes unfolding f b by auto
  qed
  moreover have "chain s' a bs l"
  proof (rule chain_turn_first [OF ring_split(4) [OF r]])
    show "distinct (bs @ [l])" using d(1) by auto
    show "fl s' x = fl s x" if "x \<in> set bs" for x
      using that fresh nodes(2) d(1) unfolding f by auto
    show "bl s' x = bl s x" if "x \<in> set (tl (bs @ [l]))" for x
      using that fresh d(1) n unfolding b by (cases bs) auto
    show "fl s' a = hd (bs @ [l])" using fresh n unfolding f by auto
    show "bl s' (hd (bs @ [l])) = a" using fresh n unfolding b by (cases bs) auto
  qed
  ultimately have "ring s' l (as @ a # bs)"
    using r fresh a(1) v(2) by (auto simp: ring_def chain_append)
  moreover have "contents s' (as @ a # bs) = contents s as @ v # contents s bs"
    using fresh v(1) by (auto simp: contents_def)
  moreover have "\<forall>x. x \<notin> set (l # a # as @ bs) \<longrightarrow> s' x = s x"
    using o nodes by auto
  ultimately show ?thesis using s' by blast
qed

lemma dl_delete_node_links:
  assumes "item \<in> dom s" "fl s item \<in> dom s" "bl s item \<in> dom s" "fl s item \<noteq> item" "bl s item \<noteq> item"
  shows "\<exists>s'. dl_delete_node item s = Some s' \<and>
    (\<forall>x. x \<noteq> item \<longrightarrow> fl s' x = ((fl s)(bl s item := fl s item)) x) \<and>
    (\<forall>x. x \<noteq> item \<longrightarrow> bl s' x = ((bl s)(fl s item := bl s item)) x) \<and>
    (\<forall>x. x \<noteq> item \<longrightarrow> vl s' x = vl s x) \<and> dom s' = dom s - {item} \<and>
    (\<forall>x. x \<noteq> item \<longrightarrow> x \<noteq> fl s item \<longrightarrow> x \<noteq> bl s item \<longrightarrow> s' x = s x)"
proof -
  obtain n p q where n: "s item = Some n" and p: "s (flink n) = Some p" and q: "s (blink n) = Some q"
    using assms(1,2,3) by (auto simp: fl_def bl_def)
  have ne: "flink n \<noteq> item" "blink n \<noteq> item" using assms(4,5) n by (simp_all add: fl_def bl_def)
  have b: "bl s item = blink n" "fl s item = flink n" using n by (simp_all add: bl_def fl_def)
  show ?thesis
    using ne n p q unfolding b
    by (cases "blink n = flink n"; simp add: dl_delete_node_def set_flink_def set_blink_def)
       (auto simp: fl_def bl_def vl_def)
qed

lemma ring_delete_node:
  assumes r: "ring s l (as @ item # bs)"
  shows "\<exists>s'. dl_delete_node item s = Some s' \<and> ring s' l (as @ bs) \<and>
    contents s' (as @ bs) = contents s (as @ bs) \<and> dom s' = dom s - {item} \<and>
    (\<forall>x. x \<notin> set (l # as @ item # bs) \<longrightarrow> s' x = s x)"
proof -
  define p q where "p = last (l # as)" and "q = hd (bs @ [l])"
  have r2: "ring s l ((as @ [item]) @ bs)" using r by simp
  have p: "bl s item = p" using ring_split(1) [OF r] by (simp add: p_def)
  have q: "fl s item = q" using ring_split(2) [OF r2] by (simp add: q_def)
  have d: "distinct (l # as @ item # bs)" "set (l # as @ item # bs) \<subseteq> dom s" using r by (auto simp: ring_def)
  have pin: "p \<in> set (l # as)" unfolding p_def by (rule last_in_set) simp
  have qin: "q \<in> set (l # bs)" unfolding q_def by (cases bs) simp_all
  have ne: "p \<noteq> item" "q \<noteq> item" using pin qin d(1) by auto
  have alloc: "item \<in> dom s" "q \<in> dom s" "p \<in> dom s" using pin qin d(2) by auto
  have links: "\<exists>s'. dl_delete_node item s = Some s' \<and>
    (\<forall>x. x \<noteq> item \<longrightarrow> fl s' x = ((fl s)(p := q)) x) \<and>
    (\<forall>x. x \<noteq> item \<longrightarrow> bl s' x = ((bl s)(q := p)) x) \<and>
    (\<forall>x. x \<noteq> item \<longrightarrow> vl s' x = vl s x) \<and> dom s' = dom s - {item} \<and>
    (\<forall>x. x \<noteq> item \<longrightarrow> x \<noteq> q \<longrightarrow> x \<noteq> p \<longrightarrow> s' x = s x)"
    using dl_delete_node_links [of item s] alloc ne unfolding p q by simp
  from links obtain s' where s'all: "dl_delete_node item s = Some s' \<and>
    (\<forall>x. x \<noteq> item \<longrightarrow> fl s' x = ((fl s)(p := q)) x) \<and>
    (\<forall>x. x \<noteq> item \<longrightarrow> bl s' x = ((bl s)(q := p)) x) \<and>
    (\<forall>x. x \<noteq> item \<longrightarrow> vl s' x = vl s x) \<and> dom s' = dom s - {item} \<and>
    (\<forall>x. x \<noteq> item \<longrightarrow> x \<noteq> q \<longrightarrow> x \<noteq> p \<longrightarrow> s' x = s x)" ..
  then have s': "dl_delete_node item s = Some s'"
    and f: "x \<noteq> item \<Longrightarrow> fl s' x = ((fl s)(p := q)) x"
    and b: "x \<noteq> item \<Longrightarrow> bl s' x = ((bl s)(q := p)) x"
    and v: "x \<noteq> item \<Longrightarrow> vl s' x = vl s x" "dom s' = dom s - {item}"
    and o: "x \<noteq> item \<Longrightarrow> x \<noteq> q \<Longrightarrow> x \<noteq> p \<Longrightarrow> s' x = s x" for x
    by simp_all
  have "chain s l as item" using ring_split(3) [OF r] by simp
  then have c1: "chain s' l as q"
  proof (rule chain_turn_last)
    show "distinct (l # as)" using d(1) by auto
    show "fl s' x = fl s x" if "x \<in> set (butlast (l # as))" for x
    proof -
      have "x \<in> set (l # as)" "x \<noteq> p" using in_butlast [OF that] d(1) by (auto simp: p_def)
      moreover from this(1) have "x \<noteq> item" using d(1) by auto
      ultimately show ?thesis using f by simp
    qed
    show "bl s' x = bl s x" if "x \<in> set as" for x
    proof -
      have "x \<noteq> item" "x \<noteq> q" using that qin d(1) by auto
      then show ?thesis using b by simp
    qed
    show "fl s' (last (l # as)) = q" unfolding p_def [symmetric] using f ne(1) by simp
    show "bl s' q = last (l # as)" unfolding p_def [symmetric] using b ne(2) by simp
  qed
  have "chain s item bs l" using ring_split(4) [OF r2] by simp
  then have c2: "chain s' p bs l"
  proof (rule chain_turn_first)
    show "distinct (bs @ [l])" using d(1) by auto
    show "fl s' x = fl s x" if "x \<in> set bs" for x
    proof -
      have "x \<noteq> item" "x \<noteq> p" using that pin d(1) by auto
      then show ?thesis using f by simp
    qed
    show "bl s' x = bl s x" if "x \<in> set (tl (bs @ [l]))" for x
    proof -
      have "x \<noteq> item" "x \<noteq> q" using that d(1) by (cases bs; auto simp: q_def)+
      then show ?thesis using b by simp
    qed
    show "fl s' p = hd (bs @ [l])" unfolding q_def [symmetric] using f ne(1) by simp
    show "bl s' (hd (bs @ [l])) = p" unfolding q_def [symmetric] using b ne(2) by simp
  qed
  have "chain s' l (as @ bs) l"
    using c1 c2 unfolding p_def q_def by (rule chain_join)
  then have "ring s' l (as @ bs)" using r v(2) by (auto simp: ring_def)
  moreover have "contents s' (as @ bs) = contents s (as @ bs)"
  proof -
    have "x \<noteq> item" if "x \<in> set (as @ bs)" for x using that d(1) by auto
    then have "vl s' x = vl s x" if "x \<in> set (as @ bs)" for x using that v(1) by blast
    then show ?thesis by (simp add: contents_def)
  qed
  moreover have "s' x = s x" if "x \<notin> set (l # as @ item # bs)" for x
  proof -
    have "x \<noteq> item" "x \<noteq> q" "x \<noteq> p" using that pin qin by auto
    then show ?thesis by (rule o)
  qed
  ultimately show ?thesis using s' v(2) by blast
qed

text \<open>
  Deleting the sentinel of an empty list succeeds: the block of the list itself is freed,
  and every later operation on the list accesses a block that is not allocated.
\<close>

lemma delete_sentinel:
  assumes "ring s l []"
  shows "dl_delete_node l s = Some (s(l := None))"
proof -
  obtain n where n: "s l = Some n" using assms by (auto simp: ring_def)
  then have "flink n = l" "blink n = l" using assms by (auto simp: ring_def fl_def bl_def)
  then show ?thesis using n
    by (auto simp: dl_delete_node_def set_blink_def set_flink_def)
qed

text \<open>Splicing a second list in before the sentinel, and the loops.\<close>

lemma dl_insert_list_links:
  assumes "ring s l as" "ring s k (b # bs)" "set (l # as) \<inter> set (k # b # bs) = {}"
  shows "\<exists>s'. dl_insert_list_b l k s = Some s' \<and> dom s' = dom s - {k} \<and>
    (\<forall>x. x \<noteq> k \<longrightarrow> fl s' x = ((fl s)(last (l # as) := b, last (b # bs) := l)) x) \<and>
    (\<forall>x. x \<noteq> k \<longrightarrow> bl s' x = ((bl s)(l := last (b # bs), b := last (l # as))) x) \<and>
    (\<forall>x. x \<noteq> k \<longrightarrow> vl s' x = vl s x)"
proof -
  have p: "bl s l = last (l # as)" using ring_split(1) [of s l as "[]"] assms(1) by simp
  have q: "bl s k = last (b # bs)" "fl s k = b"
    using ring_split(1) [of s k "b # bs" "[]"] ring_split(2) [of s k "[]" "b # bs"] assms(2) by simp_all
  define x y where "x = last (l # as)" and "y = last (b # bs)"
  have xin: "x \<in> set (l # as)" and yin: "y \<in> set (b # bs)" unfolding x_def y_def by (rule last_in_set, simp)+
  have alloc: "l \<in> dom s" "k \<in> dom s" "x \<in> dom s" "y \<in> dom s" "b \<in> dom s"
    using xin yin assms(1,2) by (auto simp: ring_def)
  have ne: "b \<noteq> k" using assms(2) by (auto simp: ring_def)
  obtain n m where n: "s l = Some n" "blink n = x" and m: "s k = Some m" "flink m = b" "blink m = y"
    using alloc p q by (auto simp: fl_def bl_def x_def y_def)
  obtain s1 where s1: "set_blink l y s = Some s1" "fl s1 = fl s" "bl s1 = (bl s)(l := y)" "vl s1 = vl s" "dom s1 = dom s"
    using set_blink_links [OF alloc(1)] by blast
  obtain s2 where s2: "set_flink x b s1 = Some s2" "fl s2 = (fl s)(x := b)" "bl s2 = bl s1" "vl s2 = vl s" "dom s2 = dom s"
    using set_flink_links [of x s1 b] alloc s1 by auto
  obtain s3 where s3: "set_blink b x s2 = Some s3" "fl s3 = fl s2" "bl s3 = (bl s1)(b := x)" "vl s3 = vl s" "dom s3 = dom s"
    using set_blink_links [of b s2 x] alloc s2 by auto
  obtain s4 where s4: "set_flink y l s3 = Some s4" "fl s4 = (fl s2)(y := l)" "bl s4 = bl s3" "vl s4 = vl s" "dom s4 = dom s"
    using set_flink_links [of y s3 l] alloc s3 by auto
  have "dl_insert_list_b l k s = Some (s4(k := None))"
    using n m ne s1(1) s2(1) s3(1) s4(1) by (simp add: dl_insert_list_b_def dl_empty_def Let_def)
  moreover have "fl (s4(k := None)) z = fl s4 z \<and> bl (s4(k := None)) z = bl s4 z \<and> vl (s4(k := None)) z = vl s4 z"
    if "z \<noteq> k" for z
    using that by (simp add: fl_def bl_def vl_def)
  moreover have "dom (s4(k := None)) = dom s - {k}" using s4(5) by simp
  ultimately show ?thesis
    using s1 s2 s3 s4 unfolding x_def [symmetric] y_def [symmetric] by (intro exI [of _ "s4(k := None)"]) simp
qed

lemma ring_insert_list_b:
  assumes "ring s l as" "ring s k bs" "set (l # as) \<inter> set (k # bs) = {}"
  shows "\<exists>s'. dl_insert_list_b l k s = Some s' \<and> ring s' l (as @ bs) \<and>
    contents s' (as @ bs) = contents s as @ contents s bs \<and> s' k = None"
proof (cases bs)
  case Nil
  have "fl s k = k" using assms(2) Nil by (simp add: ring_def)
  moreover have "k \<in> dom s" using assms(2) by (simp add: ring_def)
  ultimately have e: "dl_insert_list_b l k s = Some (s(k := None))"
    by (auto simp: dl_insert_list_b_def dl_empty_def fl_def)
  have c: "chain (s(k := None)) l as l"
    using assms(1,3) by (subst chain_cong [of _ _ _ s]) (auto simp: ring_def fl_def bl_def)
  have "ring (s(k := None)) l as" using assms(1,3) c by (auto simp: ring_def)
  moreover have "contents (s(k := None)) as = contents s as"
    using assms(3) by (auto simp: contents_def vl_def)
  ultimately show ?thesis using e Nil by (simp add: contents_def)
next
  case (Cons b bt)
  note r1 = assms(1) and r2 = assms(2) [unfolded Cons] and dj = assms(3) [unfolded Cons]
  define x y where "x = last (l # as)" and "y = last (b # bt)"
  from dl_insert_list_links [OF r1 r2 dj] obtain s' where
    s': "dl_insert_list_b l k s = Some s'" "dom s' = dom s - {k}"
    and f: "\<And>z. z \<noteq> k \<Longrightarrow> fl s' z = ((fl s)(x := b, y := l)) z"
    and g: "\<And>z. z \<noteq> k \<Longrightarrow> bl s' z = ((bl s)(l := y, b := x)) z"
    and v: "\<And>z. z \<noteq> k \<Longrightarrow> vl s' z = vl s z" unfolding x_def y_def by blast
  have d: "distinct (l # as)" "distinct (k # b # bt)" using r1 r2 by (auto simp: ring_def)
  have ends: "x \<in> set (l # as)" "y \<in> set (b # bt)" unfolding x_def y_def by (rule last_in_set, simp)+
  have ne: "x \<noteq> k" "x \<noteq> y" "y \<noteq> k" "b \<noteq> k" "l \<noteq> k" "l \<noteq> b" using ends d dj by auto
  have "chain s l as l" using r1 by (simp add: ring_def)
  then have c1: "chain s' l as b"
  proof (rule chain_turn_last)
    show "distinct (l # as)" by (rule d(1))
    show "fl s' z = fl s z" if "z \<in> set (butlast (l # as))" for z
    proof -
      have z: "z \<in> set (l # as)" "z \<noteq> x" using in_butlast [OF that d(1)] by (simp_all add: x_def)
      have "z \<noteq> k" "z \<noteq> y" using z(1) ends dj by auto
      then show ?thesis using z(2) f by simp
    qed
    show "bl s' z = bl s z" if "z \<in> set as" for z
    proof -
      have "z \<noteq> k" "z \<noteq> l" "z \<noteq> b" using that d dj by auto
      then show ?thesis using g by simp
    qed
    show "fl s' (last (l # as)) = b" unfolding x_def [symmetric] using f ne by simp
    show "bl s' b = last (l # as)" unfolding x_def [symmetric] using g ne by simp
  qed
  have "chain s b bt k" using r2 by (simp add: ring_def)
  then have c2: "chain s' b bt l"
  proof (rule chain_turn_last)
    show "distinct (b # bt)" using d(2) by simp
    show "fl s' z = fl s z" if "z \<in> set (butlast (b # bt))" for z
    proof -
      have z: "z \<in> set (b # bt)" "z \<noteq> y" using in_butlast [OF that] d(2) by (simp_all add: y_def)
      have "z \<noteq> k" "z \<noteq> x" using z(1) ends d(2) dj by auto
      then show ?thesis using z(2) f by simp
    qed
    show "bl s' z = bl s z" if "z \<in> set bt" for z
    proof -
      have "z \<noteq> k" "z \<noteq> l" "z \<noteq> b" using that d dj by auto
      then show ?thesis using g by simp
    qed
    show "fl s' (last (b # bt)) = l" unfolding y_def [symmetric] using f ne by simp
    show "bl s' l = last (b # bt)" unfolding y_def [symmetric] using g ne by simp
  qed
  have "chain s' l (as @ b # bt) l" using c1 c2 g [of b] ne by (simp add: chain_append)
  then have "ring s' l (as @ b # bt)" using r1 r2 dj s'(2) by (auto simp: ring_def)
  moreover have "contents s' (as @ b # bt) = contents s as @ contents s (b # bt)"
  proof -
    have "z \<noteq> k" if "z \<in> set (as @ b # bt)" for z using that d dj by auto
    then have "vl s' z = vl s z" if "z \<in> set (as @ b # bt)" for z using that v by blast
    then show ?thesis by (simp add: contents_def)
  qed
  moreover have "s' k = None" using s'(2) by auto
  ultimately show ?thesis using s'(1) Cons by auto
qed

text \<open>The loops visit the nodes in order; they end because the ring is finite.\<close>

lemma chain_step:
  assumes "chain s a (b # ns) l" "set (b # ns) \<subseteq> dom s"
  shows "\<exists>n. s b = Some n \<and> flink n = hd (ns @ [l]) \<and> dval n = vl s b"
proof -
  obtain n where n: "s b = Some n" using assms(2) by auto
  have "chain s b ns l" using assms(1) by simp
  from chain_first [OF this] show ?thesis using n by (simp add: fl_def vl_def)
qed

lemma dl_size_loop_ring:
  assumes "chain s a ns l" "l \<notin> set ns" "set ns \<subseteq> dom s"
  shows "dl_size_loop l s i (hd (ns @ [l])) = Some (i + length ns)"
  using assms
proof (induction ns arbitrary: a i)
  case Nil
  then show ?case by (simp add: dl_size_loop.simps)
next
  case (Cons b ns)
  from chain_step [OF Cons.prems(1,3)] obtain n where n: "s b = Some n" "flink n = hd (ns @ [l])" by blast
  have "dl_size_loop l s (i + 1) (hd (ns @ [l])) = Some (i + 1 + length ns)"
    using Cons.prems by (intro Cons.IH [of b]) auto
  then show ?case using n Cons.prems(2) by (subst dl_size_loop.simps) simp
qed

lemma dl_print_loop_ring:
  assumes "chain s a ns l" "l \<notin> set ns" "set ns \<subseteq> dom s"
  shows "dl_print_loop f l s (hd (ns @ [l])) u = Some (fold f (contents s ns) u)"
  using assms
proof (induction ns arbitrary: a u)
  case Nil
  then show ?case by (simp add: dl_print_loop.simps contents_def)
next
  case (Cons b ns)
  from chain_step [OF Cons.prems(1,3)] obtain n where
    n: "s b = Some n" "flink n = hd (ns @ [l])" "dval n = vl s b" by blast
  have "dl_print_loop f l s (hd (ns @ [l])) (f (vl s b) u) = Some (fold f (contents s ns) (f (vl s b) u))"
    using Cons.prems by (intro Cons.IH [of b]) auto
  then show ?case using n Cons.prems(2) by (subst dl_print_loop.simps) (simp add: contents_def)
qed

text \<open>The links forwards alone, which are all that the freeing loops follow.\<close>

fun forward :: "store \<Rightarrow> ptr list \<Rightarrow> ptr \<Rightarrow> bool" where
  "forward s [] z \<longleftrightarrow> True"
| "forward s (b # ns) z \<longleftrightarrow> fl s b = hd (ns @ [z]) \<and> forward s ns z"

lemma forward_chain: "chain s a ns z \<Longrightarrow> forward s ns z"
proof (induction ns arbitrary: a)
  case (Cons b ns)
  then have "chain s b ns z" by simp
  then show ?case using chain_first Cons.IH by simp
qed simp

lemma forward_free: "forward s ns z \<Longrightarrow> b \<notin> set ns \<Longrightarrow> forward (s(b := None)) ns z"
  by (induction ns) (auto simp: fl_def)

primrec free_nodes :: "store \<Rightarrow> ptr list \<Rightarrow> store" where
  "free_nodes s [] = s"
| "free_nodes s (b # ns) = free_nodes (s(b := None)) ns"

lemma free_nodes_keep: "s x = None \<Longrightarrow> free_nodes s ns x = None"
  by (induction ns arbitrary: s) auto

lemma free_nodes_None: "x \<in> set ns \<Longrightarrow> free_nodes s ns x = None"
  by (induction ns arbitrary: s) (auto intro: free_nodes_keep)

lemma free_nodes_other: "x \<notin> set ns \<Longrightarrow> free_nodes s ns x = s x"
  by (induction ns arbitrary: s) auto

lemma dl_delete_loop_ring:
  assumes "forward s ns l" "distinct (ns @ [l])" "set ns \<subseteq> dom s"
  shows "dl_delete_loop l (hd (ns @ [l])) s = Some (free_nodes s (ns @ [l]))"
  using assms
proof (induction ns arbitrary: s)
  case Nil
  then show ?case by (simp add: dl_delete_loop.simps fun_upd_def)
next
  case (Cons b ns)
  obtain n where n: "s b = Some n" "flink n = hd (ns @ [l])"
    using Cons.prems(1,3) by (auto simp: fl_def)
  have "dl_delete_loop l (hd (ns @ [l])) (s(b := None)) =
      Some (free_nodes (s(b := None)) (ns @ [l]))"
    using Cons.prems by (intro Cons.IH forward_free) auto
  then show ?case using n Cons.prems(2) by (subst dl_delete_loop.simps) (simp add: fun_upd_def)
qed

lemma dl_free_loop_ring:
  assumes "forward s ns l" "distinct (ns @ [l])" "set ns \<subseteq> dom s"
  shows "dl_free_loop f l (hd (ns @ [l])) s h =
    Some (free_nodes s (ns @ [l]), fold (free_value f) (contents s ns) h)"
  using assms
proof (induction ns arbitrary: s h)
  case Nil
  then show ?case by (simp add: dl_free_loop.simps contents_def fun_upd_def)
next
  case (Cons b ns)
  obtain n where n: "s b = Some n" "flink n = hd (ns @ [l])" "dval n = vl s b"
    using Cons.prems(1,3) by (auto simp: fl_def vl_def)
  have "b \<notin> set ns" using Cons.prems(2) by simp
  then have c: "contents (s(b := None)) ns = contents s ns" by (auto simp: contents_def vl_def)
  have "dl_free_loop f l (hd (ns @ [l])) (s(b := None)) (free_value f (vl s b) h) =
      Some (free_nodes (s(b := None)) (ns @ [l]),
        fold (free_value f) (contents s ns) (free_value f (vl s b) h))"
    unfolding c [symmetric] using Cons.prems by (intro Cons.IH forward_free) auto
  then show ?case using n Cons.prems(2)
    by (subst dl_free_loop.simps) (simp add: contents_def fun_upd_def)
qed

lemma ring_size: "ring s l ns \<Longrightarrow> dl_size l s = Some (length ns)"
proof -
  assume r: "ring s l ns"
  then obtain n where n: "s l = Some n" by (auto simp: ring_def)
  have "flink n = hd (ns @ [l])" using chain_first [of s l ns l] r n by (simp add: ring_def fl_def)
  then show ?thesis using n r dl_size_loop_ring [of s l ns l 0] by (simp add: dl_size_def ring_def)
qed

lemma ring_print: "ring s l ns \<Longrightarrow> dl_print f l s u = Some (fold f (contents s ns) u)"
proof -
  assume r: "ring s l ns"
  then obtain n where n: "s l = Some n" by (auto simp: ring_def)
  have "flink n = hd (ns @ [l])" using chain_first [of s l ns l] r n by (simp add: ring_def fl_def)
  then show ?thesis using n r dl_print_loop_ring [of s l ns l f u] by (simp add: dl_print_def ring_def)
qed

lemma ring_free:
  assumes r: "ring s l ns"
  shows "\<exists>s'. dl_free f l s h = Some (s', fold (free_value f) (contents s ns) h) \<and>
    (\<forall>x\<in>set (l # ns). s' x = None) \<and> (\<forall>x. x \<notin> set (l # ns) \<longrightarrow> s' x = s x)"
proof -
  obtain n where n: "s l = Some n" using r by (auto simp: ring_def)
  have "flink n = hd (ns @ [l])" using chain_first [of s l ns l] r n by (simp add: ring_def fl_def)
  moreover have "forward s ns l" "distinct (ns @ [l])" "set ns \<subseteq> dom s"
    using r forward_chain by (auto simp: ring_def)
  ultimately have "dl_free f l s h =
      Some (free_nodes s (ns @ [l]), fold (free_value f) (contents s ns) h)"
    using n dl_free_loop_ring [of s ns l f h] by (simp add: dl_free_def)
  then show ?thesis
    by (intro exI [of _ "free_nodes s (ns @ [l])"])
       (auto intro!: free_nodes_None free_nodes_other)
qed

lemma ring_delete_list:
  assumes r: "ring s l ns"
  shows "\<exists>s'. dl_delete_list l s = Some s' \<and> (\<forall>x\<in>set (l # ns). s' x = None)"
proof -
  obtain n where n: "s l = Some n" using r by (auto simp: ring_def)
  have "flink n = hd (ns @ [l])" using chain_first [of s l ns l] r n by (simp add: ring_def fl_def)
  moreover have "forward s ns l" "distinct (ns @ [l])" "set ns \<subseteq> dom s"
    using r forward_chain by (auto simp: ring_def)
  ultimately have "dl_delete_list l s = Some (free_nodes s (ns @ [l]))"
    using n dl_delete_loop_ring [of s ns l] by (simp add: dl_delete_list_def)
  then show ?thesis
    by (intro exI [of _ "free_nodes s (ns @ [l])"])
       (auto intro!: free_nodes_None)
qed
end
