(* ===== verification/WorkQueue.thy ===== *)
theory WorkQueue
  imports JDList
begin

section \<open>Blocking queues (src/src/queue.c)\<close>

text \<open>
  A queue is a list with a counter, a mutex and a condition variable.  Every operation
  holds the mutex from its beginning to its end, except while \<open>queue_dequeue_1\<close> waits, so
  an operation is one step on the state, and the waiting one is a step per wake-up.  The
  store of the list nodes is part of the state, so that the blocks of other lists in it
  are kept.
\<close>

record wqueue =
  qstore :: store
  qlist :: ptr
  qsize :: int

definition queue_new :: "block \<Rightarrow> store \<Rightarrow> wqueue option" where
  "queue_new b s = do {
     (l, s1) \<leftarrow> dl_make b s;
     Some \<lparr>qstore = s1, qlist = l, qsize = 0\<rparr> }"

definition queue_free :: "wqueue \<Rightarrow> heap \<Rightarrow> (store \<times> heap) option" where
  "queue_free q h = dl_free None (qlist q) (qstore q) h"

definition queue_size :: "wqueue \<Rightarrow> int" where
  "queue_size q = qsize q"

definition queue_enqueue :: "block \<Rightarrow> ptr \<Rightarrow> wqueue \<Rightarrow> (int \<times> wqueue) option" where
  "queue_enqueue b item q = do {
     s \<leftarrow> dl_insert_b b (qlist q) item (qstore q);
     Some (qsize q + 1, q\<lparr>qstore := s, qsize := qsize q + 1\<rparr>) }"

text \<open>The end of \<open>queue_dequeue_1\<close>: the first node is taken out, whatever it is.\<close>

definition queue_take :: "wqueue \<Rightarrow> (ptr \<times> wqueue) option" where
  "queue_take q = do {
     head \<leftarrow> dl_first (qlist q) (qstore q);
     v \<leftarrow> dl_val head (qstore q);
     s \<leftarrow> dl_delete_node head (qstore q);
     Some (v, q\<lparr>qstore := s, qsize := qsize q - 1\<rparr>) }"

datatype deq = Waits | Took ptr wqueue

text \<open>
  The condition of the loop, with the time that is left: the thread waits when the list
  is empty and there is time left; otherwise it takes the first node.
\<close>

definition dequeue_test :: "wqueue \<Rightarrow> int \<Rightarrow> deq option" where
  "dequeue_test q max_timeout = do {
     head \<leftarrow> dl_first (qlist q) (qstore q);
     if max_timeout > 0 \<and> head = qlist q then Some Waits
     else do { (v, q1) \<leftarrow> queue_take q; Some (Took v q1) } }"

text \<open>
  A whole call.  Each wake-up brings the status of the wait (\<open>True\<close> for 0), the state that
  the queue has then (other threads used it in between) and the time.  Without further
  wake-ups the call is still blocked.
\<close>

datatype deq_result = Blocked | Returns status ptr wqueue

fun dequeue_loop :: "wqueue \<Rightarrow> int \<Rightarrow> int \<Rightarrow> (bool \<times> wqueue \<times> int) list \<Rightarrow> deq_result option" where
  "dequeue_loop q wakeup_time max_timeout ws = do {
     t \<leftarrow> dequeue_test q max_timeout;
     (case t of
        Took v q1 \<Rightarrow> Some (Returns JXTA_SUCCESS v q1)
      | Waits \<Rightarrow> (case ws of
          [] \<Rightarrow> Some Blocked
        | (st, q1, now) # ws1 \<Rightarrow>
            if st then dequeue_loop q1 wakeup_time (wakeup_time - now) ws1
            else Some (Returns JXTA_TIMEOUT NULL q1))) }"

definition queue_dequeue_1 :: "wqueue \<Rightarrow> int \<Rightarrow> int \<Rightarrow> (bool \<times> wqueue \<times> int) list \<Rightarrow> deq_result option" where
  "queue_dequeue_1 q now max_timeout ws = dequeue_loop q (now + max_timeout) max_timeout ws"

definition queue_dequeue :: "wqueue \<Rightarrow> int \<Rightarrow> int \<Rightarrow> (bool \<times> wqueue \<times> int) list \<Rightarrow> (ptr \<times> wqueue) option option" where
  "queue_dequeue q now max_timeout ws = do {
     r \<leftarrow> queue_dequeue_1 q now max_timeout ws;
     (case r of Blocked \<Rightarrow> Some None | Returns _ v q1 \<Rightarrow> Some (Some (v, q1))) }"

subsection \<open>The interface of a queue\<close>

text \<open>
  What users of a queue rely on: an invariant, the items in order, and a block that an
  allocation may return.  Over any sequence of operations, what was taken and what is
  left are what was there and what was put, in the same order.
\<close>

datatype ('b, 'v) qop = QPut 'b 'v | QTake

locale fifo =
  fixes good :: "'q \<Rightarrow> bool"
    and items :: "'q \<Rightarrow> 'v list"
    and usable :: "'q \<Rightarrow> 'b \<Rightarrow> bool"
    and put :: "'b \<Rightarrow> 'v \<Rightarrow> 'q \<Rightarrow> 'q option"
    and take_first :: "'q \<Rightarrow> ('v \<times> 'q) option"
  assumes put_ok: "good q \<Longrightarrow> usable q b \<Longrightarrow> \<exists>q'. put b v q = Some q' \<and> good q' \<and> items q' = items q @ [v]"
    and take_ok: "good q \<Longrightarrow> items q = v # vs \<Longrightarrow> \<exists>q'. take_first q = Some (v, q') \<and> good q' \<and> items q' = vs"
    and block: "good q \<Longrightarrow> \<exists>b. usable q b"
begin

text \<open>Operations in sequence; a take from an empty queue is left out.\<close>

fun qrun :: "('b, 'v) qop list \<Rightarrow> 'q \<Rightarrow> 'v list \<Rightarrow> 'v list \<Rightarrow> ('q \<times> 'v list \<times> 'v list) option" where
  "qrun [] q ps ts = Some (q, ps, ts)"
| "qrun (QPut b v # ops) q ps ts =
     (if usable q b then do { q1 \<leftarrow> put b v q; qrun ops q1 (ps @ [v]) ts } else None)"
| "qrun (QTake # ops) q ps ts =
     (if items q = [] then qrun ops q ps ts
      else do { (v, q1) \<leftarrow> take_first q; qrun ops q1 ps (ts @ [v]) })"

lemma put_items: "good q \<Longrightarrow> usable q b \<Longrightarrow> put b v q = Some q' \<Longrightarrow> good q' \<and> items q' = items q @ [v]"
  using put_ok [of q b v] by auto

lemma take_items: "good q \<Longrightarrow> take_first q = Some (v, q') \<Longrightarrow> items q \<noteq> [] \<Longrightarrow>
    good q' \<and> items q = v # items q'"
  using take_ok [of q "hd (items q)" "tl (items q)"] by (cases "items q") auto

lemma qrun_fifo:
  assumes "good q" "qrun ops q ps ts = Some (q', ps', ts')" "ts @ items q = xs @ ps"
  shows "good q' \<and> ts' @ items q' = xs @ ps'"
  using assms
proof (induction ops arbitrary: q ps ts)
  case Nil
  then show ?case by simp
next
  case (Cons op ops)
  show ?case
  proof (cases op)
    case (QPut b v)
    with Cons.prems obtain q1 where q1: "usable q b" "put b v q = Some q1" "qrun ops q1 (ps @ [v]) ts = Some (q', ps', ts')"
      by (auto split: if_splits bind_splits)
    with Cons.prems put_items show ?thesis by (intro Cons.IH [OF _ q1(3)]) auto
  next
    case QTake
    show ?thesis
    proof (cases "items q = []")
      case True
      with QTake Cons show ?thesis by auto
    next
      case False
      with QTake Cons.prems obtain v q1 where q1: "take_first q = Some (v, q1)" "qrun ops q1 ps (ts @ [v]) = Some (q', ps', ts')"
        by (auto split: bind_splits)
      with Cons.prems take_items False show ?thesis by (intro Cons.IH [OF _ q1(2)]) auto
    qed
  qed
qed

end

subsection \<open>The queue implements it\<close>

definition queue_good :: "wqueue \<Rightarrow> bool" where
  "queue_good q \<longleftrightarrow> finite (dom (qstore q)) \<and>
     (\<exists>ns. ring (qstore q) (qlist q) ns \<and> qsize q = int (length ns))"

definition queue_items :: "wqueue \<Rightarrow> ptr list" where
  "queue_items q = the (dl_print (\<lambda>v vs. vs @ [v]) (qlist q) (qstore q) [])"

definition usable_block :: "wqueue \<Rightarrow> block \<Rightarrow> bool" where
  "usable_block q b \<longleftrightarrow> fst b \<noteq> NULL \<and> qstore q (fst b) = None"

definition enqueue_only :: "block \<Rightarrow> ptr \<Rightarrow> wqueue \<Rightarrow> wqueue option" where
  "enqueue_only b v q = map_option snd (queue_enqueue b v q)"

lemma fold_snoc: "fold (\<lambda>v vs. vs @ [v]) xs ys = ys @ xs"
  by (induction xs arbitrary: ys) auto

lemma queue_items_ring: "ring (qstore q) (qlist q) ns \<Longrightarrow> queue_items q = contents (qstore q) ns"
  by (simp add: queue_items_def ring_print fold_snoc)

lemma ring_nodes:
  assumes "ring (qstore q) (qlist q) ns" "queue_items q = v # vs"
  shows "\<exists>n nt. ns = n # nt \<and> vl (qstore q) n = v \<and> contents (qstore q) nt = vs \<and>
    dl_first (qlist q) (qstore q) = Some n \<and> n \<noteq> qlist q \<and> dl_val n (qstore q) = Some v"
proof -
  obtain n nt where ns: "ns = n # nt"
    using assms queue_items_ring [OF assms(1)] by (cases ns) (auto simp: contents_def)
  have "queue_items q = contents (qstore q) (n # nt)" using queue_items_ring [OF assms(1)] ns by simp
  then have v: "vl (qstore q) n = v" "contents (qstore q) nt = vs" using assms(2) by (simp_all add: contents_def)
  obtain m k where m: "qstore q (qlist q) = Some m" and k: "qstore q n = Some k"
    using assms(1) ns by (auto simp: ring_def)
  have "fl (qstore q) (qlist q) = n" "n \<noteq> qlist q" using assms(1) ns by (auto simp: ring_def)
  with ns v m k show ?thesis by (auto simp: dl_first_def dl_val_def fl_def vl_def)
qed

lemma queue_new_empty:
  assumes "fst b \<noteq> NULL" "finite (dom s)"
  shows "\<exists>q. queue_new b s = Some q \<and> queue_good q \<and> queue_items q = [] \<and> queue_size q = 0"
proof -
  obtain s' where s': "dl_make b s = Some (fst b, s')" "ring s' (fst b) []" "\<forall>x. x \<noteq> fst b \<longrightarrow> s' x = s x"
    using ring_make [OF assms(1), of "snd b" s] by auto
  let ?q = "\<lparr>qstore = s', qlist = fst b, qsize = 0\<rparr>"
  have "dom s' \<subseteq> insert (fst b) (dom s)"
  proof
    fix x assume "x \<in> dom s'"
    then show "x \<in> insert (fst b) (dom s)" using s'(3) by (cases "x = fst b") auto
  qed
  then have "finite (dom s')" using assms(2) finite_subset by blast
  then have "queue_good ?q" using s'(2) by (auto simp: queue_good_def)
  moreover have "queue_items ?q = []" using queue_items_ring [of ?q "[]"] s'(2) by (simp add: contents_def)
  ultimately show ?thesis using s'(1) by (auto simp: queue_new_def queue_size_def)
qed

lemma enqueue_ok:
  assumes "queue_good q" "usable_block q b"
  shows "\<exists>q'. queue_enqueue b v q = Some (qsize q + 1, q') \<and> queue_good q' \<and> queue_items q' = queue_items q @ [v]"
proof -
  obtain ns where ns: "ring (qstore q) (qlist q) ns" "qsize q = int (length ns)"
    using assms(1) by (auto simp: queue_good_def)
  have u: "fst b \<noteq> NULL" "fst b \<notin> dom (qstore q)" using assms(2) by (auto simp: usable_block_def)
  obtain s' where s': "dl_insert_b b (qlist q) v (qstore q) = Some s'" "ring s' (qlist q) (ns @ [fst b])"
    "contents s' (ns @ [fst b]) = contents (qstore q) ns @ [v]"
    "\<forall>x. x \<notin> set (qlist q # fst b # ns) \<longrightarrow> s' x = qstore q x"
    using ring_insert_b [of "qstore q" "qlist q" ns "[]" "qlist q" "fst b" "snd b" v] ns(1) u
    by (auto simp: contents_def)
  let ?q = "q\<lparr>qstore := s', qsize := qsize q + 1\<rparr>"
  have "dom s' \<subseteq> dom (qstore q) \<union> set (qlist q # fst b # ns)"
  proof
    fix x assume "x \<in> dom s'"
    then show "x \<in> dom (qstore q) \<union> set (qlist q # fst b # ns)"
      using s'(4) by (cases "x \<in> set (qlist q # fst b # ns)") auto
  qed
  moreover have "finite (dom (qstore q) \<union> set (qlist q # fst b # ns))"
    using assms(1) by (simp add: queue_good_def)
  ultimately have "finite (dom s')" by (rule finite_subset)
  then have "queue_good ?q" using s'(2) ns(2) unfolding queue_good_def by (intro conjI exI [of _ "ns @ [fst b]"]) auto
  moreover have "queue_items ?q = queue_items q @ [v]"
    using queue_items_ring [of ?q "ns @ [fst b]"] queue_items_ring [OF ns(1)] s'(2,3) by simp
  ultimately show ?thesis using s'(1) by (auto simp: queue_enqueue_def)
qed

lemma take_ok:
  assumes "queue_good q" "queue_items q = v # vs"
  shows "\<exists>q'. queue_take q = Some (v, q') \<and> queue_good q' \<and> queue_items q' = vs"
proof -
  obtain ns where ns: "ring (qstore q) (qlist q) ns" "qsize q = int (length ns)"
    using assms(1) by (auto simp: queue_good_def)
  from ring_nodes [OF ns(1) assms(2)] obtain n nt where n: "ns = n # nt" "contents (qstore q) nt = vs"
    "dl_first (qlist q) (qstore q) = Some n" "dl_val n (qstore q) = Some v" by blast
  obtain s' where s': "dl_delete_node n (qstore q) = Some s'" "ring s' (qlist q) nt"
    "contents s' nt = contents (qstore q) nt" "dom s' = dom (qstore q) - {n}"
    using ring_delete_node [of "qstore q" "qlist q" "[]" n nt] ns(1) n(1) by auto
  let ?q = "q\<lparr>qstore := s', qsize := qsize q - 1\<rparr>"
  have "finite (dom s')" using assms(1) s'(4) by (simp add: queue_good_def)
  then have "queue_good ?q" using s'(2) ns(2) n(1) unfolding queue_good_def
    by (intro conjI exI [of _ nt]) auto
  moreover have "queue_items ?q = vs" using queue_items_ring [of ?q nt] s' n by simp
  ultimately show ?thesis using n s'(1) by (auto simp: queue_take_def)
qed

lemma block_ok: "queue_good q \<Longrightarrow> \<exists>b. usable_block q b"
proof -
  assume "queue_good q"
  then have "finite (insert 0 (dom (qstore q)))" by (simp add: queue_good_def)
  from ex_new_if_finite [OF infinite_UNIV_nat this] obtain a where "a \<notin> insert 0 (dom (qstore q))" ..
  then show ?thesis by (intro exI [of _ "(a, undefined)"]) (auto simp: usable_block_def)
qed

interpretation wq: fifo queue_good queue_items usable_block enqueue_only queue_take
proof
  show "\<exists>q'. enqueue_only b v q = Some q' \<and> queue_good q' \<and> queue_items q' = queue_items q @ [v]"
    if "queue_good q" "usable_block q b" for q b v
    using enqueue_ok [OF that, of v] by (auto simp: enqueue_only_def)
  show "\<exists>b. usable_block q b" if "queue_good q" for q
    using block_ok [OF that] .
qed (rule take_ok)

lemma queue_size_items: "queue_good q \<Longrightarrow> qsize q = int (length (queue_items q))"
  by (auto simp: queue_good_def queue_items_ring contents_def)

lemma dequeue_test_good:
  assumes "queue_good q"
  shows "queue_items q = [] \<Longrightarrow> mt > 0 \<Longrightarrow> dequeue_test q mt = Some Waits"
    "queue_items q = v # vs \<Longrightarrow> \<exists>q'. dequeue_test q mt = Some (Took v q') \<and> queue_take q = Some (v, q') \<and>
       queue_good q' \<and> queue_items q' = vs"
proof -
  obtain ns where ns: "ring (qstore q) (qlist q) ns" using assms by (auto simp: queue_good_def)
  show "dequeue_test q mt = Some Waits" if "queue_items q = []" "mt > 0"
  proof -
    have "ns = []" using queue_items_ring [OF ns] that(1) by (simp add: contents_def)
    then have "dl_first (qlist q) (qstore q) = Some (qlist q)"
      using ns by (auto simp: ring_def dl_first_def fl_def)
    then show ?thesis using that(2) by (simp add: dequeue_test_def)
  qed
  show "\<exists>q'. dequeue_test q mt = Some (Took v q') \<and> queue_take q = Some (v, q') \<and>
       queue_good q' \<and> queue_items q' = vs" if i: "queue_items q = v # vs"
  proof -
    obtain n where n: "dl_first (qlist q) (qstore q) = Some n" "n \<noteq> qlist q"
      using ring_nodes [OF ns i] by blast
    obtain q' where "queue_take q = Some (v, q')" "queue_good q'" "queue_items q' = vs"
      using take_ok [OF assms i] by blast
    then show ?thesis using n by (simp add: dequeue_test_def)
  qed
qed

text \<open>
  With no time left an empty queue is not waited on: the sentinel is taken for the first
  item and freed.  The call says success, without an item, the counter is \<open>-1\<close>, and the next
  operation accesses the freed block.
\<close>

lemma dequeue_sentinel:
  assumes "queue_good q" "queue_items q = []" "mt \<le> 0"
  shows "\<exists>v. dequeue_test q mt = Some (Took v (q\<lparr>qstore := (qstore q)(qlist q := None), qsize := -1\<rparr>))"
proof -
  obtain ns where ns: "ring (qstore q) (qlist q) ns" "qsize q = int (length ns)"
    using assms(1) by (auto simp: queue_good_def)
  have nil: "ns = []" using queue_items_ring [OF ns(1)] assms(2) by (simp add: contents_def)
  then have r: "ring (qstore q) (qlist q) []" using ns(1) by simp
  obtain n where n: "qstore q (qlist q) = Some n" using r by (auto simp: ring_def)
  have "dl_first (qlist q) (qstore q) = Some (qlist q)"
    using r by (auto simp: ring_def dl_first_def fl_def)
  then show ?thesis
    using n ns(2) nil assms(3) delete_sentinel [OF r]
    by (simp add: dequeue_test_def queue_take_def dl_val_def)
qed

lemma enqueue_freed:
  assumes "qstore q (qlist q) = None" "fst b \<noteq> qlist q"
  shows "queue_enqueue b v q = None" "dequeue_test q mt = None"
  using assms
  by (auto simp: queue_enqueue_def dl_insert_b_def malloc_node_def set_dval_def dequeue_test_def dl_first_def
      Let_def split: option.splits bind_splits)

text \<open>
  C28: A blocking queue is a list of items in order.  From a new queue on, whatever items are
  put and taken, what was taken and what is left is what was put, in the same order.  A call
  of dequeue with time to wait gives the first item at once; on an empty queue it blocks, says
  \<open>JXTA_TIMEOUT\<close> when the wait times out, and after a signal gives the item that is there.
\<close>

theorem queue_refines_list:
  assumes "fst b0 \<noteq> NULL" "finite (dom s)" "0 < timeout"
  shows "\<exists>q0. queue_new b0 s = Some q0 \<and>
    (\<forall>ops q ps ts. wq.qrun ops q0 [] [] = Some (q, ps, ts) \<longrightarrow>
       ts @ queue_items q = ps \<and> queue_size q = int (length ps) - int (length ts) \<and>
       (\<forall>b v. usable_block q b \<longrightarrow> (\<exists>q1. queue_enqueue b v q = Some (queue_size q + 1, q1) \<and>
          queue_items q1 = queue_items q @ [v])) \<and>
       (\<forall>x xs now ws. queue_items q = x # xs \<longrightarrow>
          (\<exists>q1. queue_dequeue_1 q now timeout ws = Some (Returns JXTA_SUCCESS x q1) \<and> queue_items q1 = xs)) \<and>
       (queue_items q = [] \<longrightarrow>
          queue_dequeue_1 q now timeout [] = Some Blocked \<and>
          queue_dequeue_1 q now timeout ((False, q, t) # ws) = Some (Returns JXTA_TIMEOUT NULL q) \<and>
          (\<forall>b v. usable_block q b \<longrightarrow> (\<exists>q1 q2. queue_enqueue b v q = Some (1, q1) \<and>
             queue_dequeue_1 q now timeout ((True, q1, t) # ws) = Some (Returns JXTA_SUCCESS v q2) \<and> queue_items q2 = []))))"
proof -
  obtain q0 where q0: "queue_new b0 s = Some q0" "queue_good q0" "queue_items q0 = []"
    using queue_new_empty [OF assms(1,2)] by blast
  show ?thesis
  proof (rule exI [of _ q0], intro conjI q0(1) allI impI)
    fix ops q ps ts assume "wq.qrun ops q0 [] [] = Some (q, ps, ts)"
    from wq.qrun_fifo [OF q0(2) this, of "[]"] q0(3) have g: "queue_good q" and i: "ts @ queue_items q = ps" by simp_all
    show "ts @ queue_items q = ps" by (rule i)
    show "queue_size q = int (length ps) - int (length ts)"
      using queue_size_items [OF g] i by (auto simp: queue_size_def)
    show "\<exists>q1. queue_enqueue b v q = Some (queue_size q + 1, q1) \<and> queue_items q1 = queue_items q @ [v]"
      if "usable_block q b" for b v
      using enqueue_ok [OF g that, of v] by (auto simp: queue_size_def)
    show "\<exists>q1. queue_dequeue_1 q now timeout ws = Some (Returns JXTA_SUCCESS x q1) \<and> queue_items q1 = xs"
      if "queue_items q = x # xs" for x xs now ws
      using dequeue_test_good(2) [OF g that, of timeout] by (auto simp: queue_dequeue_1_def)
    assume e: "queue_items q = []"
    note w = dequeue_test_good(1) [OF g e assms(3)]
    show "queue_dequeue_1 q now timeout [] = Some Blocked"
      "queue_dequeue_1 q now timeout ((False, q, t) # ws) = Some (Returns JXTA_TIMEOUT NULL q)"
      using w by (simp_all add: queue_dequeue_1_def)
    show "\<exists>q1 q2. queue_enqueue b v q = Some (1, q1) \<and>
        queue_dequeue_1 q now timeout ((True, q1, t) # ws) = Some (Returns JXTA_SUCCESS v q2) \<and> queue_items q2 = []"
      if u: "usable_block q b" for b v
    proof -
      obtain q1 where q1: "queue_enqueue b v q = Some (qsize q + 1, q1)" "queue_good q1" "queue_items q1 = [v]"
        using enqueue_ok [OF g u, of v] e by auto
      moreover have "qsize q = 0" using queue_size_items [OF g] e by simp
      moreover obtain q2 where "dequeue_test q1 (now + timeout - t) = Some (Took v q2)" "queue_items q2 = []"
        using dequeue_test_good(2) [OF q1(2,3)] by blast
      ultimately show ?thesis using w by (simp add: queue_dequeue_1_def)
    qed
  qed
qed

definition demo_block :: "ptr \<Rightarrow> block" where
  "demo_block a = (a, \<lparr>flink = 0, blink = 0, dval = 0\<rparr>)"

lemma queue_refines_list_witness:
  "\<exists>q0 q b1 b2. queue_new (demo_block 1) Map.empty = Some q0 \<and>
    wq.qrun [QPut b1 5, QPut b2 6, QTake] q0 [] [] = Some (q, [5, 6], [5]) \<and>
    queue_items q = [6] \<and> queue_size q = 1"
proof -
  have n: "fst (demo_block 1) \<noteq> NULL" by (simp add: demo_block_def)
  then obtain q0 where q0: "queue_new (demo_block 1) Map.empty = Some q0" "queue_good q0" "queue_items q0 = []"
    using queue_new_empty [of "demo_block 1" Map.empty] by auto
  obtain b1 where b1: "usable_block q0 b1" using block_ok [OF q0(2)] ..
  then obtain q1 where q1: "enqueue_only b1 5 q0 = Some q1" "queue_good q1" "queue_items q1 = [5]"
    using enqueue_ok [OF q0(2) b1, of 5] q0(3) by (auto simp: enqueue_only_def)
  obtain b2 where b2: "usable_block q1 b2" using block_ok [OF q1(2)] ..
  then obtain q2 where q2: "enqueue_only b2 6 q1 = Some q2" "queue_good q2" "queue_items q2 = [5, 6]"
    using enqueue_ok [OF q1(2) b2, of 6] q1(3) by (auto simp: enqueue_only_def)
  obtain q where q: "queue_take q2 = Some (5, q)" using take_ok [OF q2(2,3)] by blast
  have r: "wq.qrun [QPut b1 5, QPut b2 6, QTake] q0 [] [] = Some (q, [5, 6], [5])"
    using b1 b2 q1 q2 q by simp
  obtain q0' where "queue_new (demo_block 1) Map.empty = Some q0'"
    "\<forall>ops q ps ts. wq.qrun ops q0' [] [] = Some (q, ps, ts) \<longrightarrow>
       ts @ queue_items q = ps \<and> queue_size q = int (length ps) - int (length ts)"
    using queue_refines_list [OF n, of Map.empty 1 0 0 "[]"] by (auto simp del: split_paired_All)
  then have "[5] @ queue_items q = [5, 6] \<and> queue_size q = int (length [5, 6 :: ptr]) - int (length [5 :: ptr])"
    using q0(1) r by (metis option.inject)
  then have "queue_items q = [6]" "queue_size q = 1" by simp_all
  with q0(1) r show ?thesis by blast
qed

end
