(* ===== verification/Listener.thy ===== *)
theory Listener
  imports WorkQueue
begin

section \<open>Event listeners (src/src/jxta_listener.c)\<close>

text \<open>
  A listener has a queue of events and a number of threads that take the events and call
  its function with them.  The state is the structure itself together with the threads,
  each at one of the places where others can act, the tasks that were given to a thread
  pool, and the heap of objects.  A thread does what is between two such places in one
  step: the sections under the mutex of the listener, the calls of the queue (under its
  own mutex), and the test of \<open>started\<close>, which is read without a lock.

  Steps are functions, so that a run can be evaluated; the choice of the scheduler, the
  blocks that \<open>malloc\<close> returns and the time that is left after a wake-up are arguments.
  The status of a call, \<open>JXTA_SUCCESS\<close> unless a block is missing, is left out.  A step yields what happened: items put into and taken from the queue, calls of the
  function, objects that were dropped, objects processed by the caller itself (\<open>Direct\<close>)
  or given to a pool of threads (\<open>Given\<close>).
\<close>

datatype pc =
    AtTest            \<comment> \<open>before the test of \<open>started\<close>\<close>
  | Entering          \<comment> \<open>started was read, before \<open>queue_dequeue_1\<close>\<close>
  | Waiting           \<comment> \<open>in the wait on the condition variable\<close>
  | Woken             \<comment> \<open>signalled, before it holds the mutex of the queue again\<close>
  | Holding ptr       \<comment> \<open>has an item, before the section under the mutex\<close>
  | Invoking ptr      \<comment> \<open>in the function\<close>
  | Leaving           \<comment> \<open>after the loop, before the last section\<close>

record listener =
  func :: bool
  maxNbOfInvoke :: int
  maxQueueSize :: int
  started :: bool
  nbOfThreads :: int
  nbOfBusyThreads :: int
  queue :: wqueue
  recycles :: "ptr list"
  threads :: "pc list"
  tasks :: "(ptr \<times> ptr) list"
  lheap :: heap

datatype lev = Put ptr | Take ptr | Call ptr | Drop ptr | Direct ptr | Given ptr | Late | Back

text \<open>A step that is not enabled, one that is undefined behaviour, and one that is done.\<close>

datatype 'a outcome = Disabled | Fault | Done 'a

definition jxta_listener_new :: "bool \<Rightarrow> int \<Rightarrow> int \<Rightarrow> block \<Rightarrow> store \<Rightarrow> heap \<Rightarrow> listener option" where
  "jxta_listener_new f maxInvoke maxSize b s h = do {
     q \<leftarrow> queue_new b s;
     Some \<lparr>func = f, maxNbOfInvoke = maxInvoke, maxQueueSize = maxSize, started = False,
           nbOfThreads = 0, nbOfBusyThreads = 0, queue = q, recycles = [], threads = [],
           tasks = [], lheap = h\<rparr> }"

text \<open>A signal of the condition variable wakes a waiting thread, when there is one.\<close>

definition move :: "pc \<Rightarrow> pc \<Rightarrow> pc list \<Rightarrow> pc list" where
  "move p p' ts = p' # remove1 p ts"

definition signal :: "pc list \<Rightarrow> pc list" where
  "signal ts = (if Waiting \<in> set ts then move Waiting Woken ts else ts)"

definition listener_enqueue :: "block \<Rightarrow> ptr \<Rightarrow> listener \<Rightarrow> listener option" where
  "listener_enqueue b v self = do {
     (size, q) \<leftarrow> queue_enqueue b v (queue self);
     Some (self\<lparr>queue := q, threads := signal (threads self)\<rparr>) }"

definition put :: "block \<Rightarrow> ptr \<Rightarrow> listener \<Rightarrow> (lev list \<times> listener) outcome" where
  "put b v self =
     (case listener_enqueue b v self of None \<Rightarrow> Fault | Some self1 \<Rightarrow> Done ([Put v], self1))"

subsection \<open>Calls from outside\<close>

definition jxta_listener_start :: "listener \<Rightarrow> (lev list \<times> listener) outcome" where
  "jxta_listener_start self = Done ([], self\<lparr>started := True\<rparr>)"

text \<open>
  The section of a stop under the mutex; after it the caller waits until
  \<open>stop_returns\<close> holds.
\<close>

definition listener_stop :: "block \<Rightarrow> listener \<Rightarrow> (lev list \<times> listener) outcome" where
  "listener_stop b self =
     (let self1 = self\<lparr>started := False\<rparr> in
      if nbOfThreads self > nbOfBusyThreads self then put b NULL self1 else Done ([], self1))"

definition stop_returns :: "listener \<Rightarrow> bool" where
  "stop_returns self \<longleftrightarrow> \<not> nbOfThreads self > nbOfBusyThreads self"

definition jxta_listener_process_object :: "block \<Rightarrow> ptr \<Rightarrow> listener \<Rightarrow> (lev list \<times> listener) outcome" where
  "jxta_listener_process_object b object self =
     (if \<not> started self then Done ([], self)
      else if func self then Done ([Direct object], self)
      else put b object (self\<lparr>lheap := share object (lheap self)\<rparr>))"

definition create_listener_thread :: "listener \<Rightarrow> listener" where
  "create_listener_thread self =
     self\<lparr>nbOfThreads := nbOfThreads self + 1, threads := AtTest # threads self\<rparr>"

definition jxta_listener_schedule_object :: "block \<Rightarrow> ptr \<Rightarrow> listener \<Rightarrow> (lev list \<times> listener) outcome" where
  "jxta_listener_schedule_object b object self =
     (if 0 \<ge> maxQueueSize self then jxta_listener_process_object b object self
      else if \<not> started self then Done ([], self)
      else
        (let self1 = (if func self \<and> nbOfBusyThreads self = nbOfThreads self \<and>
                         nbOfThreads self < maxNbOfInvoke self
                      then create_listener_thread self else self) in
         put b object (if object \<noteq> NULL then self1\<lparr>lheap := share object (lheap self1)\<rparr> else self1)))"

definition jxta_listener_pool_object :: "block \<Rightarrow> ptr \<Rightarrow> ptr \<Rightarrow> listener \<Rightarrow> (lev list \<times> listener) outcome" where
  "jxta_listener_pool_object b fresh object me =
     (if \<not> func me then put b object (me\<lparr>lheap := share object (lheap me)\<rparr>)
      else
        (let (la, rs) = (case recycles me of r # rs \<Rightarrow> (r, rs) | [] \<Rightarrow> (fresh, [])) in
         if la = NULL then Done ([], me)
         else Done ([Given object], me\<lparr>recycles := rs, tasks := tasks me @ [(la, object)],
                lheap := if object \<noteq> NULL then share object (lheap me) else lheap me\<rparr>)))"

definition jxta_listener_queue_size :: "listener \<Rightarrow> int" where
  "jxta_listener_queue_size self = queue_size (queue self)"

text \<open>
  Waiting for an event, for a listener without a function; the arguments are the time, the
  timeout and the wake-ups of the wait.
\<close>

definition jxta_listener_wait_for_event ::
  "int \<Rightarrow> int \<Rightarrow> (bool \<times> wqueue \<times> int) list \<Rightarrow> listener \<Rightarrow> (status \<times> ptr \<times> listener) option option" where
  "jxta_listener_wait_for_event now timeout ws self =
     (if func self then Some (Some (JXTA_BUSY, NULL, self))
      else do {
        r \<leftarrow> queue_dequeue_1 (queue self) now timeout ws;
        (case r of
           Blocked \<Rightarrow> Some None
         | Returns rv obj q \<Rightarrow>
             Some (Some (if obj = NULL then JXTA_TIMEOUT else JXTA_SUCCESS, obj, self\<lparr>queue := q\<rparr>))) })"

text \<open>The end of \<open>jxta_listener_free\<close>, once all threads are gone.\<close>

definition jxta_listener_free_queue :: "listener \<Rightarrow> (store \<times> heap) option" where
  "jxta_listener_free_queue self = queue_free (queue self) (lheap self)"

subsection \<open>Steps of the threads\<close>

definition drop_object :: "ptr \<Rightarrow> heap \<Rightarrow> heap" where
  "drop_object obj h = (if obj \<noteq> NULL then release obj h else h)"

definition thread_test :: "listener \<Rightarrow> (lev list \<times> listener) outcome" where
  "thread_test self =
     (if AtTest \<in> set (threads self)
      then Done ([], self\<lparr>threads := move AtTest (if started self then Entering else Leaving) (threads self)\<rparr>)
      else Disabled)"

text \<open>The thread has the mutex of the queue, and \<open>mt\<close> of its time is left.\<close>

definition thread_dequeue :: "pc \<Rightarrow> int \<Rightarrow> listener \<Rightarrow> (lev list \<times> listener) outcome" where
  "thread_dequeue p mt self =
     (case dequeue_test (queue self) mt of
        None \<Rightarrow> Fault
      | Some Waits \<Rightarrow> Done ([], self\<lparr>threads := move p Waiting (threads self)\<rparr>)
      | Some (Took v q) \<Rightarrow>
          Done (if queue_size (queue self) > 0 then [Take v] else [Late],
                self\<lparr>queue := q, threads := move p (Holding v) (threads self)\<rparr>))"

definition WAITING_DELAY :: int where
  "WAITING_DELAY = 5 * 60 * 1000 * 1000"

definition thread_enter :: "listener \<Rightarrow> (lev list \<times> listener) outcome" where
  "thread_enter self =
     (if Entering \<in> set (threads self) then thread_dequeue Entering WAITING_DELAY self else Disabled)"

definition thread_woken :: "int \<Rightarrow> listener \<Rightarrow> (lev list \<times> listener) outcome" where
  "thread_woken mt self =
     (if Woken \<in> set (threads self) then thread_dequeue Woken mt self else Disabled)"

text \<open>The wait times out: the status of the queue is \<open>JXTA_TIMEOUT\<close> and the loop is left.\<close>

definition thread_timeout :: "listener \<Rightarrow> (lev list \<times> listener) outcome" where
  "thread_timeout self =
     (if Waiting \<in> set (threads self)
      then Done ([], self\<lparr>threads := move Waiting Leaving (threads self)\<rparr>) else Disabled)"

definition thread_section :: "ptr \<Rightarrow> listener \<Rightarrow> (lev list \<times> listener) outcome" where
  "thread_section obj self =
     (if Holding obj \<notin> set (threads self) then Disabled
      else if \<not> started self then
        Done ([Drop obj], self\<lparr>threads := move (Holding obj) Leaving (threads self),
                lheap := drop_object obj (lheap self)\<rparr>)
      else
        Done ([Call obj], self\<lparr>nbOfBusyThreads := nbOfBusyThreads self + 1,
                threads := move (Holding obj) (Invoking obj) (threads self)\<rparr>))"

definition thread_back :: "ptr \<Rightarrow> listener \<Rightarrow> (lev list \<times> listener) outcome" where
  "thread_back obj self =
     (if Invoking obj \<in> set (threads self)
      then Done ([Back], self\<lparr>nbOfBusyThreads := nbOfBusyThreads self - 1,
                   threads := move (Invoking obj) AtTest (threads self),
                   lheap := drop_object obj (lheap self)\<rparr>)
      else Disabled)"

definition thread_leave :: "block \<Rightarrow> listener \<Rightarrow> (lev list \<times> listener) outcome" where
  "thread_leave b self =
     (if Leaving \<notin> set (threads self) then Disabled
      else
        (let self1 = self\<lparr>nbOfThreads := nbOfThreads self - 1, threads := remove1 Leaving (threads self)\<rparr> in
         if \<not> started self1 \<and> nbOfThreads self1 > nbOfBusyThreads self1 then put b NULL self1
         else Done ([], self1)))"

text \<open>A thread of the pool runs a task and gives its block back for the next one.\<close>

definition listener_thd_func :: "ptr \<Rightarrow> ptr \<Rightarrow> listener \<Rightarrow> (lev list \<times> listener) outcome" where
  "listener_thd_func la obj me =
     (if (la, obj) \<in> set (tasks me)
      then Done ([Call obj], me\<lparr>tasks := remove1 (la, obj) (tasks me), recycles := la # recycles me,
                   lheap := drop_object obj (lheap me)\<rparr>)
      else Disabled)"

subsection \<open>Runs\<close>

datatype tact = Test | Enter | Wake int | Timeout | Section ptr | Return ptr | Leave block

fun thread_step :: "tact \<Rightarrow> listener \<Rightarrow> (lev list \<times> listener) outcome" where
  "thread_step Test self = thread_test self"
| "thread_step Enter self = thread_enter self"
| "thread_step (Wake mt) self = thread_woken mt self"
| "thread_step Timeout self = thread_timeout self"
| "thread_step (Section v) self = thread_section v self"
| "thread_step (Return v) self = thread_back v self"
| "thread_step (Leave b) self = thread_leave b self"

datatype act =
    Thread tact
  | Start
  | Stop block
  | Schedule block ptr
  | Process block ptr
  | Pool block ptr ptr
  | Task ptr ptr

fun step :: "act \<Rightarrow> listener \<Rightarrow> (lev list \<times> listener) outcome" where
  "step (Thread t) self = thread_step t self"
| "step Start self = jxta_listener_start self"
| "step (Stop b) self = listener_stop b self"
| "step (Schedule b v) self = jxta_listener_schedule_object b v self"
| "step (Process b v) self = jxta_listener_process_object b v self"
| "step (Pool b la v) self = jxta_listener_pool_object b la v self"
| "step (Task la v) self = listener_thd_func la v self"

text \<open>What the environment keeps to: blocks are fresh, and objects handed over are alive.\<close>

fun fits :: "act \<Rightarrow> listener \<Rightarrow> bool" where
  "fits (Thread (Leave b)) self \<longleftrightarrow> usable_block (queue self) b"
| "fits (Thread _) self \<longleftrightarrow> True"
| "fits Start self \<longleftrightarrow> True"
| "fits (Stop b) self \<longleftrightarrow> usable_block (queue self) b"
| "fits (Schedule b v) self \<longleftrightarrow> usable_block (queue self) b \<and> (v = NULL \<or> live (lheap self) v)"
| "fits (Process b v) self \<longleftrightarrow> usable_block (queue self) b \<and> live (lheap self) v"
| "fits (Pool b la v) self \<longleftrightarrow> usable_block (queue self) b \<and> la \<noteq> NULL \<and> (v = NULL \<or> live (lheap self) v)"
| "fits (Task la v) self \<longleftrightarrow> True"

inductive runs :: "listener \<Rightarrow> lev list \<Rightarrow> listener \<Rightarrow> bool" where
  runs_refl: "runs s [] s"
| runs_step: "runs s es t \<Longrightarrow> fits a t \<Longrightarrow> step a t = Done (fs, u) \<Longrightarrow> runs s (es @ fs) u"

text \<open>The run for a list of choices, evaluated.\<close>

fun run :: "act list \<Rightarrow> listener \<Rightarrow> (lev list \<times> listener) outcome" where
  "run [] s = Done ([], s)"
| "run (a # as) s =
     (if \<not> fits a s then Disabled
      else case step a s of Disabled \<Rightarrow> Disabled | Fault \<Rightarrow> Fault
      | Done (es, t) \<Rightarrow> (case run as t of Disabled \<Rightarrow> Disabled | Fault \<Rightarrow> Fault
          | Done (fs, u) \<Rightarrow> Done (es @ fs, u)))"

end
