(* ===== verification/ListenerProps.thy ===== *)
theory ListenerProps
  imports Listener
begin

section \<open>Properties of listeners\<close>

text \<open>
  The counters of a listener against its threads, the order and the number of the events,
  the references that it holds, and how it stops.  All of them are invariants over runs of
  the steps of \<open>Listener\<close>; they are stated for runs in which no thread is woken with no
  time left and nothing to take (\<open>Late\<close>), and the last properties show what happens then,
  and what else goes wrong.
\<close>

definition is_invoking :: "pc \<Rightarrow> bool" where
  "is_invoking p \<longleftrightarrow> (case p of Invoking _ \<Rightarrow> True | _ \<Rightarrow> False)"

definition is_holding :: "pc \<Rightarrow> bool" where
  "is_holding p \<longleftrightarrow> (case p of Holding _ \<Rightarrow> True | _ \<Rightarrow> False)"

lemma is_pc [simp]:
  "is_invoking (Invoking v)" "\<not> is_invoking (Holding v)" "\<not> is_invoking AtTest" "\<not> is_invoking Entering"
  "\<not> is_invoking Waiting" "\<not> is_invoking Woken" "\<not> is_invoking Leaving"
  "is_holding (Holding v)" "\<not> is_holding (Invoking v)" "\<not> is_holding AtTest" "\<not> is_holding Entering"
  "\<not> is_holding Waiting" "\<not> is_holding Woken" "\<not> is_holding Leaving"
  by (simp_all add: is_invoking_def is_holding_def)

text \<open>How many threads are at a place.\<close>

definition num :: "(pc \<Rightarrow> bool) \<Rightarrow> pc list \<Rightarrow> nat" where
  "num P ts = length (filter P ts)"

lemma num_simps [simp]: "num P [] = 0" "num P (p # ts) = (if P p then 1 else 0) + num P ts"
  by (simp_all add: num_def)

lemma num_remove1: "p \<in> set ts \<Longrightarrow> num P ts = num P (remove1 p ts) + (if P p then 1 else 0)"
  by (induction ts) auto

lemma num_in: "p \<in> set ts \<Longrightarrow> P p \<Longrightarrow> num P ts > 0"
  by (induction ts) auto

lemma num_pos: "num P ts > 0 \<longleftrightarrow> (\<exists>p\<in>set ts. P p)"
  by (induction ts) auto

lemma num_move: "p \<in> set ts \<Longrightarrow> num P (move p p' ts) + (if P p then 1 else 0) = num P ts + (if P p' then 1 else 0)"
  using num_remove1 [of p ts P] by (simp add: move_def)

lemma length_move: "p \<in> set ts \<Longrightarrow> length (move p p' ts) = length ts"
  using length_pos_if_in_set [of p ts] by (simp add: move_def length_remove1)

lemma num_places:
  "num ((=) Waiting) ts + num ((=) Woken) ts + num ((=) Entering) ts + num is_holding ts
   + num ((=) Leaving) ts + num is_invoking ts + num ((=) AtTest) ts = length ts"
proof (induction ts)
  case (Cons p ts)
  then show ?case by (cases p) auto
qed simp

definition listener_inv :: "listener \<Rightarrow> bool" where
  "listener_inv s \<longleftrightarrow> queue_good (queue s) \<and>
     nbOfThreads s = int (length (threads s)) \<and>
     nbOfBusyThreads s = int (num is_invoking (threads s)) \<and>
     nbOfThreads s \<le> max 0 (maxNbOfInvoke s) \<and>
     (num ((=) Waiting) (threads s) > 0 \<longrightarrow>
        length (queue_items (queue s)) \<le> num ((=) Woken) (threads s)) \<and>
     (\<not> started s \<and> num ((=) Waiting) (threads s) + num ((=) Woken) (threads s) + num ((=) Entering) (threads s) > 0 \<longrightarrow>
        queue_items (queue s) \<noteq> [] \<or> num is_holding (threads s) + num ((=) Leaving) (threads s) > 0)"

lemma num_signal:
  "num P (signal ts) + (if Waiting \<in> set ts \<and> P Waiting then 1 else 0) =
   num P ts + (if Waiting \<in> set ts \<and> P Woken then 1 else 0)"
  using num_move [of Waiting ts P Woken] by (cases "Waiting \<in> set ts") (simp_all add: signal_def)

lemma length_signal: "length (signal ts) = length ts"
  by (simp add: signal_def length_move)

text \<open>
  A put keeps what is said of the queue and its waiting threads, and leaves an item for
  a thread that stops.
\<close>

lemma put_step:
  assumes g: "queue_good (queue s)" and u: "usable_block (queue s) b"
  shows "\<exists>q. queue_good q \<and> queue_items q = queue_items (queue s) @ [v] \<and>
    put b v s = Done ([Put v], s\<lparr>queue := q, threads := signal (threads s)\<rparr>)"
  using enqueue_ok [OF g u, of v] by (auto simp: put_def listener_enqueue_def)

lemma put_inv:
  assumes "queue_good (queue s)" "usable_block (queue s) b" "put b v s = Done (es, t)"
    and "nbOfThreads s = int (length (threads s))" "nbOfBusyThreads s = int (num is_invoking (threads s))"
    and "nbOfThreads s \<le> max 0 (maxNbOfInvoke s)"
    and "num ((=) Waiting) (threads s) > 0 \<longrightarrow> length (queue_items (queue s)) \<le> num ((=) Woken) (threads s)"
  shows "listener_inv t"
proof -
  from put_step [OF assms(1,2), of v] obtain q where q: "queue_good q" "queue_items q = queue_items (queue s) @ [v]"
    "t = s\<lparr>queue := q, threads := signal (threads s)\<rparr>" using assms(3) by auto
  have "num is_invoking (signal (threads s)) = num is_invoking (threads s)"
    using num_signal [of is_invoking "threads s"] by simp
  moreover have "num ((=) Waiting) (signal (threads s)) > 0 \<longrightarrow>
      length (queue_items (queue s)) + 1 \<le> num ((=) Woken) (signal (threads s))"
    using num_signal [of "(=) Waiting" "threads s"] num_signal [of "(=) Woken" "threads s"] assms(7)
      num_pos [of "(=) Waiting" "threads s"]
    by (auto split: if_splits)
  ultimately show ?thesis using q assms(4,5,6) by (simp add: listener_inv_def length_signal)
qed

lemmas step_defs = jxta_listener_start_def listener_stop_def jxta_listener_schedule_object_def
  jxta_listener_process_object_def jxta_listener_pool_object_def listener_thd_func_def
  thread_test_def thread_enter_def thread_woken_def thread_timeout_def thread_section_def thread_back_def
  thread_leave_def

text \<open>Without the late wake-up a dequeue waits on an empty queue and takes the first item of another.\<close>

lemma dequeue_cases:
  assumes "queue_good (queue s)" "thread_dequeue p mt s = Done (es, t)" "Late \<notin> set es"
  obtains (waits) "queue_items (queue s) = []" "es = []" "t = s\<lparr>threads := move p Waiting (threads s)\<rparr>"
  | (takes) v q where "queue_items (queue s) = v # queue_items q" "queue_good q" "es = [Take v]"
      "t = s\<lparr>queue := q, threads := move p (Holding v) (threads s)\<rparr>"
proof (cases "queue_items (queue s)")
  case Nil
  have "queue_size (queue s) = 0" using queue_size_items [OF assms(1)] Nil by (simp add: queue_size_def)
  have "mt > 0"
  proof (rule ccontr)
    assume "\<not> mt > 0"
    with dequeue_sentinel [OF assms(1) Nil, of mt] assms(2,3) \<open>queue_size (queue s) = 0\<close> show False
      by (auto simp: thread_dequeue_def)
  qed
  then show ?thesis using waits assms(2) dequeue_test_good(1) [OF assms(1) Nil] Nil
    by (simp add: thread_dequeue_def)
next
  case (Cons v vs)
  have "queue_size (queue s) > 0" using queue_size_items [OF assms(1)] Cons by (simp add: queue_size_def)
  then show ?thesis
    using takes assms(2) dequeue_test_good(2) [OF assms(1) Cons, of mt] Cons
    by (auto simp: thread_dequeue_def)
qed

lemma thread_step_inv:
  assumes i: "listener_inv s" and st: "thread_step a s = Done (es, t)" and f: "fits (Thread a) s" and l: "Late \<notin> set es"
  shows "listener_inv t"
proof -
  have g: "queue_good (queue s)" using i by (simp add: listener_inv_def)
  note nm = num_move [where ts = "threads s"] num_places [of "threads s"] num_in [where ts = "threads s"]
  have deq: "listener_inv t" if "p \<in> set (threads s)" "p = Entering \<or> p = Woken" "thread_dequeue p mt s = Done (es, t)" for p mt
    using g that(3) l
  proof (cases rule: dequeue_cases)
    case waits
    then show ?thesis using i that(1,2) nm(1) [of p "(=) Waiting" Waiting] nm(1) [of p "(=) Woken" Waiting]
        nm(1) [of p "(=) Entering" Waiting] nm(1) [of p is_holding Waiting] nm(1) [of p is_invoking Waiting]
        nm(1) [of p "(=) Leaving" Waiting] nm(3) [of p "(=) Entering"] nm(3) [of p "(=) Woken"]
      by (auto simp: listener_inv_def length_move)
  next
    case (takes v q)
    then show ?thesis using i that(1,2) nm(1) [of p "(=) Waiting" "Holding v"] nm(1) [of p "(=) Woken" "Holding v"]
        nm(1) [of p is_holding "Holding v"] nm(1) [of p is_invoking "Holding v"]
      by (auto simp: listener_inv_def length_move)
  qed
  show ?thesis
  proof (cases a)
    case Test
    let ?p = "if started s then Entering else Leaving"
    have "AtTest \<in> set (threads s)" "t = s\<lparr>threads := move AtTest ?p (threads s)\<rparr>"
      using st Test by (auto simp: thread_test_def split: if_splits)
    then show ?thesis using i nm(1) [of AtTest "(=) Waiting" ?p] nm(1) [of AtTest "(=) Woken" ?p]
        nm(1) [of AtTest "(=) Entering" ?p] nm(1) [of AtTest is_holding ?p] nm(1) [of AtTest is_invoking ?p]
        nm(1) [of AtTest "(=) Leaving" ?p]
      by (auto simp: listener_inv_def length_move)
  next
    case Enter
    then show ?thesis using deq [of Entering WAITING_DELAY] st by (auto simp: thread_enter_def split: if_splits)
  next
    case (Wake mt)
    then show ?thesis using deq [of Woken mt] st by (auto simp: thread_woken_def split: if_splits)
  next
    case Timeout
    have "Waiting \<in> set (threads s)" "t = s\<lparr>threads := move Waiting Leaving (threads s)\<rparr>"
      using st Timeout by (auto simp: thread_timeout_def split: if_splits)
    then show ?thesis using i nm(1) [of Waiting "(=) Waiting" Leaving] nm(1) [of Waiting "(=) Woken" Leaving]
        nm(1) [of Waiting is_invoking Leaving] nm(1) [of Waiting "(=) Leaving" Leaving]
      by (auto simp: listener_inv_def length_move)
  next
    case (Section v)
    show ?thesis
    proof (cases "started s")
      case True
      then have "Holding v \<in> set (threads s)" "t = s\<lparr>nbOfBusyThreads := nbOfBusyThreads s + 1,
          threads := move (Holding v) (Invoking v) (threads s)\<rparr>"
        using st Section by (auto simp: thread_section_def split: if_splits)
      then show ?thesis using i True nm(1) [of "Holding v" "(=) Waiting" "Invoking v"]
          nm(1) [of "Holding v" "(=) Woken" "Invoking v"] nm(1) [of "Holding v" is_invoking "Invoking v"]
        by (auto simp: listener_inv_def length_move)
    next
      case False
      then have "Holding v \<in> set (threads s)" "t = s\<lparr>threads := move (Holding v) Leaving (threads s),
          lheap := drop_object v (lheap s)\<rparr>"
        using st Section by (auto simp: thread_section_def split: if_splits)
      then show ?thesis using i nm(1) [of "Holding v" "(=) Waiting" Leaving]
          nm(1) [of "Holding v" "(=) Woken" Leaving] nm(1) [of "Holding v" is_invoking Leaving]
          nm(1) [of "Holding v" "(=) Leaving" Leaving]
        by (auto simp: listener_inv_def length_move)
    qed
  next
    case (Return v)
    have "Invoking v \<in> set (threads s)" "t = s\<lparr>nbOfBusyThreads := nbOfBusyThreads s - 1,
        threads := move (Invoking v) AtTest (threads s), lheap := drop_object v (lheap s)\<rparr>"
      using st Return by (auto simp: thread_back_def split: if_splits)
    then show ?thesis using i nm(1) [of "Invoking v" "(=) Waiting" AtTest] nm(1) [of "Invoking v" "(=) Woken" AtTest]
        nm(1) [of "Invoking v" "(=) Entering" AtTest] nm(1) [of "Invoking v" is_holding AtTest]
        nm(1) [of "Invoking v" is_invoking AtTest] nm(1) [of "Invoking v" "(=) Leaving" AtTest]
      by (auto simp: listener_inv_def length_move)
  next
    case (Leave b)
    let ?s = "s\<lparr>nbOfThreads := nbOfThreads s - 1, threads := remove1 Leaving (threads s)\<rparr>"
    have lv: "Leaving \<in> set (threads s)" using st Leave by (auto simp: thread_leave_def split: if_splits)
    note rm = num_remove1 [OF lv]
    have len: "length (threads s) = length (threads ?s) + 1" using lv length_pos_if_in_set [OF lv] by (simp add: length_remove1)
    show ?thesis
    proof (cases "\<not> started ?s \<and> nbOfThreads ?s > nbOfBusyThreads ?s")
      case True
      then have "put b NULL ?s = Done (es, t)" using st Leave lv by (auto simp: thread_leave_def)
      then show ?thesis
        using g f Leave i len rm [of "(=) Waiting"] rm [of "(=) Woken"] rm [of is_invoking]
        by (intro put_inv [of ?s b NULL es t]) (auto simp: listener_inv_def)
    next
      case False
      then have "t = ?s" using st Leave lv by (auto simp: thread_leave_def)
      have n: "num is_invoking (threads ?s) = num is_invoking (threads s)"
        "num ((=) Waiting) (threads ?s) = num ((=) Waiting) (threads s)"
        "num ((=) Woken) (threads ?s) = num ((=) Woken) (threads s)"
        using rm [of is_invoking] rm [of "(=) Waiting"] rm [of "(=) Woken"] by simp_all
      have "num ((=) Waiting) (threads ?s) + num ((=) Woken) (threads ?s) + num ((=) Entering) (threads ?s) = 0" if "\<not> started s"
      proof -
        have "int (length (threads ?s)) \<le> int (num is_invoking (threads ?s))"
          using False that i len unfolding n(1) by (simp add: listener_inv_def)
        then show ?thesis using num_places [of "threads ?s"] by linarith
      qed
      then have st0: "\<not> started s \<Longrightarrow> \<not> num ((=) Waiting) (threads ?s) + num ((=) Woken) (threads ?s) + num ((=) Entering) (threads ?s) > 0"
        by linarith
      have "listener_inv ?s" unfolding listener_inv_def
      proof (intro conjI)
        show "num ((=) Waiting) (threads ?s) > 0 \<longrightarrow> length (queue_items (queue ?s)) \<le> num ((=) Woken) (threads ?s)"
          using i unfolding n(2,3) by (simp add: listener_inv_def)
        show "nbOfBusyThreads ?s = int (num is_invoking (threads ?s))" using i unfolding n(1) by (simp add: listener_inv_def)
      qed (use i len st0 in \<open>auto simp: listener_inv_def\<close>)
      then show ?thesis using \<open>t = ?s\<close> by simp
    qed
  qed
qed

lemma process_inv:
  assumes "listener_inv s" "jxta_listener_process_object b v s = Done (es, t)" "usable_block (queue s) b"
  shows "listener_inv t"
  using assms put_inv [of "s\<lparr>lheap := share v (lheap s)\<rparr>" b v es t]
  by (auto simp: jxta_listener_process_object_def listener_inv_def split: if_splits)

text \<open>The state in which a schedule puts the event: perhaps with another thread, and the event shared.\<close>

definition before_put :: "ptr \<Rightarrow> listener \<Rightarrow> listener" where
  "before_put v s =
     (let s1 = (if func s \<and> nbOfBusyThreads s = nbOfThreads s \<and> nbOfThreads s < maxNbOfInvoke s
                then create_listener_thread s else s) in
      if v \<noteq> NULL then s1\<lparr>lheap := share v (lheap s1)\<rparr> else s1)"

lemma schedule_cases:
  "jxta_listener_schedule_object b v s =
     (if 0 \<ge> maxQueueSize s then jxta_listener_process_object b v s
      else if \<not> started s then Done ([], s) else put b v (before_put v s))"
  by (simp add: jxta_listener_schedule_object_def before_put_def Let_def)

lemma before_put_simps [simp]:
  "queue (before_put v s) = queue s" "started (before_put v s) = started s" "tasks (before_put v s) = tasks s"
  "lheap (before_put v s) = (if v \<noteq> NULL then share v (lheap s) else lheap s)"
  "maxNbOfInvoke (before_put v s) = maxNbOfInvoke s"
  "threads (before_put v s) = (if func s \<and> nbOfBusyThreads s = nbOfThreads s \<and> nbOfThreads s < maxNbOfInvoke s
     then AtTest # threads s else threads s)"
  "nbOfThreads (before_put v s) = (if func s \<and> nbOfBusyThreads s = nbOfThreads s \<and> nbOfThreads s < maxNbOfInvoke s
     then nbOfThreads s + 1 else nbOfThreads s)"
  "nbOfBusyThreads (before_put v s) = nbOfBusyThreads s"
  by (simp_all add: before_put_def create_listener_thread_def Let_def)

lemma listener_step_inv:
  assumes i: "listener_inv s" and st: "step a s = Done (es, t)" and f: "fits a s" and l: "Late \<notin> set es"
  shows "listener_inv t"
proof (cases a)
  case (Thread x)
  then show ?thesis using thread_step_inv [OF i _ _ l, of x] st f by simp
next
  case Start
  then show ?thesis using i st by (auto simp: jxta_listener_start_def listener_inv_def)
next
  case (Stop b)
  show ?thesis
  proof (cases "nbOfThreads s > nbOfBusyThreads s")
    case True
    then show ?thesis using st Stop f i put_inv [of "s\<lparr>started := False\<rparr>" b NULL es t]
      by (simp add: listener_stop_def listener_inv_def)
  next
    case False
    then show ?thesis using st Stop i num_places [of "threads s"] by (auto simp: listener_stop_def listener_inv_def)
  qed
next
  case (Schedule b v)
  show ?thesis
  proof (cases "0 \<ge> maxQueueSize s \<or> \<not> started s")
    case True
    then show ?thesis using process_inv [OF i, of b v es t] st f Schedule i by (auto simp: schedule_cases split: if_splits)
  next
    case False
    then have "put b v (before_put v s) = Done (es, t)" using st Schedule by (simp add: schedule_cases)
    then show ?thesis
    proof (rule put_inv [rotated 2])
      let ?new = "func s \<and> nbOfBusyThreads s = nbOfThreads s \<and> nbOfThreads s < maxNbOfInvoke s"
      show "queue_good (queue (before_put v s))" "usable_block (queue (before_put v s)) b"
        using i f Schedule by (simp_all add: listener_inv_def)
      show "nbOfThreads (before_put v s) = int (length (threads (before_put v s)))"
        "nbOfBusyThreads (before_put v s) = int (num is_invoking (threads (before_put v s)))"
        "nbOfThreads (before_put v s) \<le> max 0 (maxNbOfInvoke (before_put v s))"
        "num ((=) Waiting) (threads (before_put v s)) > 0 \<longrightarrow>
           length (queue_items (queue (before_put v s))) \<le> num ((=) Woken) (threads (before_put v s))"
        using i by (cases ?new; simp add: listener_inv_def)+
    qed
  qed
next
  case (Process b v)
  then show ?thesis using process_inv [OF i, of b v es t] st f by simp
next
  case (Pool b la v)
  show ?thesis
  proof (cases "func s")
    case True
    have "queue t = queue s \<and> nbOfThreads t = nbOfThreads s \<and> nbOfBusyThreads t = nbOfBusyThreads s \<and>
        threads t = threads s \<and> started t = started s \<and> maxNbOfInvoke t = maxNbOfInvoke s"
      using True st Pool by (cases "recycles s") (auto simp: jxta_listener_pool_object_def split: if_splits)
    then show ?thesis using i by (simp add: listener_inv_def)
  next
    case False
    then show ?thesis using i st f Pool put_inv [of "s\<lparr>lheap := share v (lheap s)\<rparr>" b v es t]
      by (auto simp: jxta_listener_pool_object_def listener_inv_def)
  qed
next
  case (Task la v)
  then show ?thesis using i st by (auto simp: listener_thd_func_def listener_inv_def split: if_splits)
qed

text \<open>No step is undefined behaviour.\<close>

lemma put_no_fault:
  "queue_good (queue s) \<Longrightarrow> usable_block (queue s) b \<Longrightarrow> put b v s \<noteq> Fault"
  using put_step [of s b v] by auto

lemma dequeue_no_fault: "queue_good (queue s) \<Longrightarrow> thread_dequeue p mt s \<noteq> Fault"
proof -
  assume g: "queue_good (queue s)"
  show ?thesis
  proof (cases "queue_items (queue s)")
    case Nil
    then show ?thesis using dequeue_test_good(1) [OF g Nil, of mt] dequeue_sentinel [OF g Nil, of mt]
      by (cases "mt > 0") (auto simp: thread_dequeue_def)
  next
    case (Cons v vs)
    then show ?thesis using dequeue_test_good(2) [OF g Cons, of mt] by (auto simp: thread_dequeue_def)
  qed
qed

lemma step_no_fault:
  assumes "listener_inv s" "fits a s"
  shows "step a s \<noteq> Fault"
proof -
  have g: "queue_good (queue s)" using assms(1) by (simp add: listener_inv_def)
  have p: "jxta_listener_process_object b v s \<noteq> Fault" if "usable_block (queue s) b" for b v
    using put_no_fault [of "s\<lparr>lheap := share v (lheap s)\<rparr>" b v] g that
    by (simp add: jxta_listener_process_object_def)
  show ?thesis
  proof (cases a)
    case (Thread x)
    then show ?thesis using g assms(2) dequeue_no_fault
        put_no_fault [of "s\<lparr>nbOfThreads := nbOfThreads s - 1, threads := remove1 Leaving (threads s)\<rparr>"]
      by (cases x) (auto simp: thread_test_def thread_enter_def thread_woken_def thread_timeout_def
          thread_section_def thread_back_def thread_leave_def Let_def)
  next
    case (Stop b)
    then show ?thesis using g assms(2) put_no_fault [of "s\<lparr>started := False\<rparr>" b] by (auto simp: listener_stop_def Let_def)
  next
    case (Schedule b v)
    then show ?thesis using g p assms(2) put_no_fault [of "before_put v s" b] by (auto simp: schedule_cases)
  next
    case (Pool b la v)
    then show ?thesis using g assms(2) put_no_fault [of "s\<lparr>lheap := share v (lheap s)\<rparr>" b]
      by (auto simp: jxta_listener_pool_object_def Let_def split: list.splits)
  qed (use p assms(2) in \<open>auto simp: jxta_listener_start_def listener_thd_func_def\<close>)
qed

lemma new_inv:
  assumes "jxta_listener_new f m z b st h = Some s" "fst b \<noteq> NULL" "finite (dom st)"
  shows "listener_inv s" "queue_items (queue s) = []" "threads s = []" "tasks s = []" "lheap s = h"
  using assms queue_new_empty [OF assms(2,3)]
  by (auto simp: jxta_listener_new_def listener_inv_def split: bind_splits)

lemma runs_inv:
  assumes "runs s es t" "listener_inv s" "Late \<notin> set es"
  shows "listener_inv t"
  using assms by (induction rule: runs.induct) (auto intro: listener_step_inv)

subsection \<open>Order and number of events\<close>

definition puts :: "lev list \<Rightarrow> ptr list" where
  "puts es = concat (map (\<lambda>e. case e of Put v \<Rightarrow> [v] | _ \<Rightarrow> []) es)"

definition takes :: "lev list \<Rightarrow> ptr list" where
  "takes es = concat (map (\<lambda>e. case e of Take v \<Rightarrow> [v] | _ \<Rightarrow> []) es)"

lemma puts_takes_simps [simp]:
  "puts [] = []" "puts (xs @ ys) = puts xs @ puts ys" "puts (Put v # xs) = v # puts xs"
  "puts (Take v # xs) = puts xs" "puts (Call v # xs) = puts xs" "puts (Drop v # xs) = puts xs"
  "puts (Direct v # xs) = puts xs" "puts (Given v # xs) = puts xs" "takes (Direct v # xs) = takes xs"
  "takes (Given v # xs) = takes xs" "puts (Late # xs) = puts xs" "puts (Back # xs) = puts xs"
  "takes [] = []" "takes (xs @ ys) = takes xs @ takes ys" "takes (Put v # xs) = takes xs"
  "takes (Take v # xs) = v # takes xs" "takes (Call v # xs) = takes xs" "takes (Drop v # xs) = takes xs"
  "takes (Late # xs) = takes xs" "takes (Back # xs) = takes xs"
  by (simp_all add: puts_def takes_def)

lemma put_done:
  assumes "queue_good (queue s)" "usable_block (queue s) b" "put b v s = Done (es, t)"
  shows "es = [Put v]" "queue_items (queue t) = queue_items (queue s) @ [v]"
    "\<exists>q. t = s\<lparr>queue := q, threads := signal (threads s)\<rparr>"
  using put_step [OF assms(1,2), of v] assms(3) by auto

definition hold1 :: "pc \<Rightarrow> ptr multiset" where
  "hold1 p = (case p of Holding v \<Rightarrow> {#v#} | _ \<Rightarrow> {#})"

definition invoke1 :: "pc \<Rightarrow> ptr multiset" where
  "invoke1 p = (case p of Invoking v \<Rightarrow> {#v#} | _ \<Rightarrow> {#})"

lemma one_simps [simp]:
  "hold1 (Holding v) = {#v#}" "hold1 (Invoking v) = {#}" "hold1 AtTest = {#}" "hold1 Entering = {#}"
  "hold1 Waiting = {#}" "hold1 Woken = {#}" "hold1 Leaving = {#}"
  "invoke1 (Invoking v) = {#v#}" "invoke1 (Holding v) = {#}" "invoke1 AtTest = {#}" "invoke1 Entering = {#}"
  "invoke1 Waiting = {#}" "invoke1 Woken = {#}" "invoke1 Leaving = {#}"
  by (simp_all add: hold1_def invoke1_def)

definition sum_pcs :: "(pc \<Rightarrow> ptr multiset) \<Rightarrow> pc list \<Rightarrow> ptr multiset" where
  "sum_pcs f ts = sum_list (map f ts)"

lemma sum_pcs_simps [simp]: "sum_pcs f [] = {#}" "sum_pcs f (p # ts) = f p + sum_pcs f ts"
  by (simp_all add: sum_pcs_def)

lemma sum_pcs_remove1: "p \<in> set ts \<Longrightarrow> sum_pcs f ts = f p + sum_pcs f (remove1 p ts)"
  by (induction ts) (auto simp: ac_simps)

lemma sum_pcs_move: "p \<in> set ts \<Longrightarrow> f p + sum_pcs f (move p p' ts) = f p' + sum_pcs f ts"
  using sum_pcs_remove1 [of p ts f] by (simp add: move_def ac_simps)

lemma sum_pcs_signal: "f Waiting = f Woken \<Longrightarrow> sum_pcs f (signal ts) = sum_pcs f ts"
  using sum_pcs_move [of Waiting ts f Woken] by (simp add: signal_def)

text \<open>Events that wait for their call, and those whose call is running as well.\<close>

definition pending :: "listener \<Rightarrow> ptr multiset" where
  "pending s = mset (queue_items (queue s)) + sum_pcs hold1 (threads s) + mset (map snd (tasks s))"

definition held :: "listener \<Rightarrow> ptr multiset" where
  "held s = pending s + sum_pcs invoke1 (threads s)"

text \<open>Events that were accepted, and events that were done with.\<close>

definition accepted :: "lev list \<Rightarrow> ptr multiset" where
  "accepted es = sum_list (map (\<lambda>e. case e of Put v \<Rightarrow> {#v#} | Given v \<Rightarrow> {#v#} | _ \<Rightarrow> {#}) es)"

definition finished :: "lev list \<Rightarrow> ptr multiset" where
  "finished es = sum_list (map (\<lambda>e. case e of Call v \<Rightarrow> {#v#} | Drop v \<Rightarrow> {#v#} | _ \<Rightarrow> {#}) es)"

lemma accepted_simps [simp]:
  "accepted [] = {#}" "accepted (xs @ ys) = accepted xs + accepted ys"
  "accepted (e # xs) = (case e of Put v \<Rightarrow> {#v#} | Given v \<Rightarrow> {#v#} | _ \<Rightarrow> {#}) + accepted xs"
  "finished [] = {#}" "finished (xs @ ys) = finished xs + finished ys"
  "finished (e # xs) = (case e of Call v \<Rightarrow> {#v#} | Drop v \<Rightarrow> {#v#} | _ \<Rightarrow> {#}) + finished xs"
  by (simp_all add: accepted_def finished_def)

text \<open>One step: the order of the queue, the events, and the references to objects.\<close>

definition refs :: "listener \<Rightarrow> ptr \<Rightarrow> int" where
  "refs s p = refCount (objs (lheap s) p) - int (count (held s) p)"

definition effect :: "listener \<Rightarrow> lev list \<Rightarrow> listener \<Rightarrow> bool" where
  "effect s es t \<longleftrightarrow>
     queue_items (queue s) @ puts es = takes es @ queue_items (queue t) \<and>
     pending s + accepted es = finished es + pending t \<and>
     (\<forall>p. is_mutable (lheap s) p \<longrightarrow> is_mutable (lheap t) p \<and> refs t p = refs s p)"

lemma effect_put:
  assumes "queue_good (queue s)" "usable_block (queue s) b" "put b v s1 = Done (es, t)"
    and "queue s1 = queue s" "tasks s1 = tasks s" "sum_pcs hold1 (threads s1) = sum_pcs hold1 (threads s)"
    and "sum_pcs invoke1 (threads s1) = sum_pcs invoke1 (threads s)"
    and "lheap s1 = (if v \<noteq> NULL then share v (lheap s) else lheap s)" "v = NULL \<or> live (lheap s) v"
  shows "effect s es t"
proof -
  have p: "es = [Put v]" "queue_items (queue t) = queue_items (queue s) @ [v]"
    "\<exists>q. t = s1\<lparr>queue := q, threads := signal (threads s1)\<rparr>"
    using put_done [of s1 b v es t] assms(1-4) by auto
  then obtain q where t: "t = s1\<lparr>queue := q, threads := signal (threads s1)\<rparr>" by blast
  have pend: "pending t = add_mset v (pending s)"
    using p(2) assms(5,6) sum_pcs_signal [of hold1 "threads s1"] unfolding t by (simp add: pending_def)
  have held: "held t = add_mset v (held s)"
    using pend assms(7) sum_pcs_signal [of invoke1 "threads s1"] unfolding t by (simp add: held_def pending_def)
  have "is_mutable (lheap t) x \<and> refs t x = refs s x" if "is_mutable (lheap s) x" for x
  proof -
    have x0: "x \<noteq> NULL" using that by (simp add: is_mutable_def)
    show ?thesis
    proof (cases "v = NULL")
      case True
      then show ?thesis using that x0 held assms(8) unfolding t by (simp add: refs_def)
    next
      case False
      then have "live (lheap s) v" using assms(9) by simp
      then show ?thesis using False that held assms(8) unfolding t
        by (simp add: refs_def heap_simps live_def)
    qed
  qed
  then show ?thesis using p pend by (simp add: effect_def)
qed

text \<open>A step that only moves a thread or a task, and drops at most one reference.\<close>

lemma effect_move:
  assumes "queue t = queue s" "puts es = []" "takes es = []" "accepted es = {#}"
    and "pending s = finished es + pending t"
    and "held s = d + held t" "d = {#} \<and> lheap t = lheap s \<or> (\<exists>v. d = {#v#} \<and> lheap t = drop_object v (lheap s))"
  shows "effect s es t"
proof -
  have "is_mutable (lheap t) x \<and> refs t x = refs s x" if x: "is_mutable (lheap s) x" for x
    using assms(7)
  proof
    assume "d = {#} \<and> lheap t = lheap s"
    then show ?thesis using x assms(6) by (simp add: refs_def)
  next
    assume "\<exists>v. d = {#v#} \<and> lheap t = drop_object v (lheap s)"
    then obtain v where v: "d = {#v#}" "lheap t = drop_object v (lheap s)" by blast
    have "x \<noteq> NULL" using x by (simp add: is_mutable_def)
    then show ?thesis using v x assms(6) by (auto simp: refs_def drop_object_def heap_simps)
  qed
  then show ?thesis using assms(1-5) by (simp add: effect_def)
qed

lemma effect_dequeue:
  assumes "queue_good (queue s)" "thread_dequeue p mt s = Done (es, t)" "Late \<notin> set es" "p \<in> set (threads s)"
    and "p = Entering \<or> p = Woken"
  shows "effect s es t"
  using assms(1-3)
proof (cases rule: dequeue_cases)
  case waits
  then show ?thesis using assms(4,5) sum_pcs_move [of p "threads s" hold1 Waiting] sum_pcs_move [of p "threads s" invoke1 Waiting]
    by (intro effect_move [where d = "{#}"]) (auto simp: pending_def held_def)
next
  case (takes v q)
  have h: "sum_pcs hold1 (threads t) = add_mset v (sum_pcs hold1 (threads s))"
    "sum_pcs invoke1 (threads t) = sum_pcs invoke1 (threads s)"
    using takes(4) assms(4,5) sum_pcs_move [of p "threads s" hold1 "Holding v"]
      sum_pcs_move [of p "threads s" invoke1 "Holding v"] by auto
  have pt: "pending t = pending s" using takes h by (simp add: pending_def)
  then have "held t = held s" using h by (simp add: held_def)
  then show ?thesis using takes pt by (simp add: effect_def refs_def)
qed

lemma mset_remove_task:
  "(la, v) \<in> set xs \<Longrightarrow> mset (map snd xs) = add_mset v (mset (map snd (remove1 (la, v) xs)))"
  by (induction xs) auto

lemma effect_process:
  assumes "queue_good (queue s)" "usable_block (queue s) b" "jxta_listener_process_object b v s = Done (es, t)"
    and "v = NULL \<or> live (lheap s) v"
  shows "effect s es t"
proof (cases "started s \<and> \<not> func s")
  case True
  have "share NULL (lheap s) = lheap s" by (simp add: share_def jxta_object_share_def)
  then show ?thesis using True assms effect_put [of s b v "s\<lparr>lheap := share v (lheap s)\<rparr>" es t]
    by (auto simp: jxta_listener_process_object_def)
next
  case False
  then have "t = s \<and> (es = [] \<or> es = [Direct v])"
    using assms(3) by (auto simp: jxta_listener_process_object_def split: if_splits)
  then show ?thesis by (auto simp: effect_def)
qed

lemma thread_step_effect:
  assumes i: "listener_inv s" and st: "thread_step a s = Done (es, t)" and f: "fits (Thread a) s" and l: "Late \<notin> set es"
  shows "effect s es t"
proof -
  have g: "queue_good (queue s)" using i by (simp add: listener_inv_def)
  note mv = sum_pcs_move [where ts = "threads s"]
  show ?thesis
  proof (cases a)
    case Test
    let ?p = "if started s then Entering else Leaving"
    have "AtTest \<in> set (threads s)" "t = s\<lparr>threads := move AtTest ?p (threads s)\<rparr>" "es = []"
      using st Test by (auto simp: thread_test_def split: if_splits)
    then show ?thesis using mv [of AtTest hold1 ?p] mv [of AtTest invoke1 ?p]
      by (intro effect_move [where d = "{#}"]) (auto simp: pending_def held_def)
  next
    case Enter
    then show ?thesis using st g l by (auto simp: thread_enter_def split: if_splits intro: effect_dequeue)
  next
    case (Wake mt)
    then show ?thesis using st g l by (auto simp: thread_woken_def split: if_splits intro: effect_dequeue)
  next
    case Timeout
    have "Waiting \<in> set (threads s)" "t = s\<lparr>threads := move Waiting Leaving (threads s)\<rparr>" "es = []"
      using st Timeout by (auto simp: thread_timeout_def split: if_splits)
    then show ?thesis using mv [of Waiting hold1 Leaving] mv [of Waiting invoke1 Leaving]
      by (intro effect_move [where d = "{#}"]) (auto simp: pending_def held_def)
  next
    case (Section v)
    have h: "Holding v \<in> set (threads s)" using st Section by (auto simp: thread_section_def split: if_splits)
    show ?thesis
    proof (cases "started s")
      case True
      then have "es = [Call v]" "t = s\<lparr>nbOfBusyThreads := nbOfBusyThreads s + 1,
          threads := move (Holding v) (Invoking v) (threads s)\<rparr>"
        using st Section h by (auto simp: thread_section_def)
      then show ?thesis using mv [OF h, of hold1 "Invoking v"] mv [OF h, of invoke1 "Invoking v"]
        by (intro effect_move [where d = "{#}"]) (auto simp: pending_def held_def)
    next
      case False
      then have "es = [Drop v]" "t = s\<lparr>threads := move (Holding v) Leaving (threads s),
          lheap := drop_object v (lheap s)\<rparr>"
        using st Section h by (auto simp: thread_section_def)
      then show ?thesis using mv [OF h, of hold1 Leaving] mv [OF h, of invoke1 Leaving]
        by (intro effect_move [where d = "{#v#}"]) (auto simp: pending_def held_def)
    qed
  next
    case (Return v)
    have h: "Invoking v \<in> set (threads s)" and "es = [Back]" "t = s\<lparr>nbOfBusyThreads := nbOfBusyThreads s - 1,
        threads := move (Invoking v) AtTest (threads s), lheap := drop_object v (lheap s)\<rparr>"
      using st Return by (auto simp: thread_back_def split: if_splits)
    then show ?thesis using mv [OF h, of hold1 AtTest] mv [OF h, of invoke1 AtTest]
      by (intro effect_move [where d = "{#v#}"]) (auto simp: pending_def held_def)
  next
    case (Leave b)
    let ?s = "s\<lparr>nbOfThreads := nbOfThreads s - 1, threads := remove1 Leaving (threads s)\<rparr>"
    have lv: "Leaving \<in> set (threads s)" using st Leave by (auto simp: thread_leave_def split: if_splits)
    note rm = sum_pcs_remove1 [OF lv, of hold1] sum_pcs_remove1 [OF lv, of invoke1]
    show ?thesis
    proof (cases "\<not> started ?s \<and> nbOfThreads ?s > nbOfBusyThreads ?s")
      case True
      then have "put b NULL ?s = Done (es, t)" using st Leave lv by (auto simp: thread_leave_def)
      then show ?thesis using rm g f Leave by (intro effect_put [of s b NULL ?s es t]) auto
    next
      case False
      then have "t = ?s" "es = []" using st Leave lv by (auto simp: thread_leave_def)
      then show ?thesis using rm by (intro effect_move [where d = "{#}"]) (auto simp: pending_def held_def)
    qed
  qed
qed

lemma step_effect:
  assumes i: "listener_inv s" and st: "step a s = Done (es, t)" and f: "fits a s" and l: "Late \<notin> set es"
  shows "effect s es t"
proof -
  have g: "queue_good (queue s)" using i by (simp add: listener_inv_def)
  have same: "effect s [] (s\<lparr>started := x\<rparr>)" for x
    by (simp add: effect_def pending_def held_def refs_def)
  have share0: "share NULL (lheap s) = lheap s" by (simp add: share_def jxta_object_share_def)
  show ?thesis
  proof (cases a)
    case (Thread x)
    then show ?thesis using thread_step_effect [OF i _ _ l, of x] st f by simp
  next
    case Start
    then show ?thesis using st same by (auto simp: jxta_listener_start_def)
  next
    case (Stop b)
    show ?thesis
    proof (cases "nbOfThreads s > nbOfBusyThreads s")
      case True
      then show ?thesis using st Stop g f effect_put [of s b NULL "s\<lparr>started := False\<rparr>" es t]
        by (simp add: listener_stop_def)
    next
      case False
      then show ?thesis using st Stop same [of False] by (auto simp: listener_stop_def)
    qed
  next
    case (Schedule b v)
    show ?thesis
    proof (cases "0 \<ge> maxQueueSize s \<or> \<not> started s")
      case True
      then show ?thesis using effect_process [OF g, of b v es t] same [of "started s"] st f Schedule
        by (auto simp: schedule_cases split: if_splits)
    next
      case False
      then have "put b v (before_put v s) = Done (es, t)" using st Schedule by (simp add: schedule_cases)
      then show ?thesis using f Schedule
        by (intro effect_put [OF g, of b v "before_put v s"]) (auto split: if_splits)
    qed
  next
    case (Process b v)
    then show ?thesis using effect_process [OF g, of b v es t] st f by simp
  next
    case (Pool b la v)
    show ?thesis
    proof (cases "func s")
      case False
      then show ?thesis using st Pool g f share0 effect_put [of s b v "s\<lparr>lheap := share v (lheap s)\<rparr>" es t]
        by (auto simp: jxta_listener_pool_object_def)
    next
      case True
      obtain r rs where r: "(case recycles s of r # rs \<Rightarrow> (r, rs) | [] \<Rightarrow> (la, [])) = (r, rs)" by (cases "recycles s") auto
      show ?thesis
      proof (cases "r = NULL")
        case True
        then have "t = s" "es = []" using st Pool r \<open>func s\<close> by (auto simp: jxta_listener_pool_object_def)
        then show ?thesis by (simp add: effect_def)
      next
        case False
        then have t: "es = [Given v]" "t = s\<lparr>recycles := rs, tasks := tasks s @ [(r, v)],
            lheap := if v \<noteq> NULL then share v (lheap s) else lheap s\<rparr>"
          using st Pool r \<open>func s\<close> by (auto simp: jxta_listener_pool_object_def)
        have "is_mutable (lheap t) x \<and> refs t x = refs s x" if "is_mutable (lheap s) x" for x
        proof -
          have "x \<noteq> NULL" using that by (simp add: is_mutable_def)
          then show ?thesis
            using that f Pool unfolding t by (cases "v = NULL") (auto simp: refs_def held_def pending_def heap_simps live_def)
        qed
        then show ?thesis unfolding effect_def t by (simp add: pending_def)
      qed
    qed
  next
    case (Task la v)
    then have t: "(la, v) \<in> set (tasks s)" "es = [Call v]" "t = s\<lparr>tasks := remove1 (la, v) (tasks s),
        recycles := la # recycles s, lheap := drop_object v (lheap s)\<rparr>"
      using st by (auto simp: listener_thd_func_def split: if_splits)
    then show ?thesis using mset_remove_task [OF t(1)]
      by (intro effect_move [where d = "{#v#}"]) (auto simp: pending_def held_def)
  qed
qed

lemma runs_effect:
  assumes "runs s es t" "listener_inv s" "Late \<notin> set es"
  shows "effect s es t"
  using assms
proof (induction rule: runs.induct)
  case (runs_refl s)
  then show ?case by (simp add: effect_def)
next
  case (runs_step s es t a fs u)
  then have "listener_inv t" "effect s es t" using runs_inv by auto
  moreover from this runs_step have "effect t fs u" using step_effect by auto
  ultimately show ?case
    by (auto simp: effect_def) (metis append.assoc, metis union_assoc union_commute)
qed

lemma run_runs: "run as s = Done (es, t) \<Longrightarrow> runs r ds s \<Longrightarrow> runs r (ds @ es) t"
proof (induction as arbitrary: s ds es)
  case Nil
  then show ?case by simp
next
  case (Cons a as)
  then obtain fs gs u where "fits a s" "step a s = Done (fs, u)" "run as u = Done (gs, t)" "es = fs @ gs"
    by (auto split: if_splits outcome.splits prod.splits)
  with Cons show ?case using runs_step [of r ds s a fs u] by (metis append.assoc)
qed

lemma run_runs0: "run as s = Done (es, t) \<Longrightarrow> runs s es t"
  using run_runs [of as s es t s "[]"] runs_refl by simp


text \<open>
  C30: In every such run the items are taken from the queue in the order in which they were
  put; every event that was accepted, by the queue or for a thread pool, either had its
  call or was dropped, once, or is still pending; and the listener owns exactly one
  reference to an object for each time that it holds it.
\<close>

theorem listener_events:
  assumes "jxta_listener_new f m z b st h = Some s0" "fst b \<noteq> NULL" "finite (dom st)"
    and "runs s0 es s" "Late \<notin> set es"
  shows "puts es = takes es @ queue_items (queue s) \<and>
    accepted es = finished es + pending s \<and>
    (\<forall>p. is_mutable h p \<longrightarrow> refCount (objs (lheap s) p) = refCount (objs h p) + int (count (held s) p))"
proof (intro conjI allI impI)
  note new = new_inv [OF assms(1-3)]
  have e: "effect s0 es s" using runs_effect [OF assms(4) new(1) assms(5)] .
  have p0: "pending s0 = {#}" "held s0 = {#}" using new by (simp_all add: pending_def held_def)
  show "puts es = takes es @ queue_items (queue s)" "accepted es = finished es + pending s"
    using e new p0 by (simp_all add: effect_def)
  show "refCount (objs (lheap s) p) = refCount (objs h p) + int (count (held s) p)" if "is_mutable h p" for p
  proof -
    have "refs s p = refs s0 p" using e that new(5) by (simp add: effect_def)
    then show ?thesis using p0 new(5) by (simp add: refs_def)
  qed
qed

subsection \<open>Stopping\<close>

text \<open>Steps of the threads alone, counted, without a late wake-up.\<close>

inductive thread_runs :: "listener \<Rightarrow> nat \<Rightarrow> listener \<Rightarrow> bool" where
  thread_runs_0: "thread_runs s 0 s"
| thread_runs_Suc: "thread_runs s n t \<Longrightarrow> fits (Thread a) t \<Longrightarrow> thread_step a t = Done (fs, u) \<Longrightarrow>
    Late \<notin> set fs \<Longrightarrow> thread_runs s (Suc n) u"

definition weight :: "pc \<Rightarrow> nat" where
  "weight p = (case p of Leaving \<Rightarrow> 2 | AtTest \<Rightarrow> 3 | Holding _ \<Rightarrow> 3 | Invoking _ \<Rightarrow> 4 | Waiting \<Rightarrow> 4
     | Woken \<Rightarrow> 5 | Entering \<Rightarrow> 6)"

definition total :: "pc list \<Rightarrow> nat" where
  "total ts = sum_list (map weight ts)"

lemma total_remove1: "p \<in> set ts \<Longrightarrow> total ts = weight p + total (remove1 p ts)"
  by (induction ts) (auto simp: total_def)

lemma total_move: "p \<in> set ts \<Longrightarrow> weight p + total (move p p' ts) = weight p' + total ts"
  using total_remove1 [of p ts] by (simp add: move_def total_def)

lemma total_less: "p \<in> set ts \<Longrightarrow> weight p' < weight p \<Longrightarrow> total (move p p' ts) < total ts"
  using total_move [of p ts p'] by simp

lemma total_signal: "total (signal ts) \<le> total ts + 1"
  using total_move [of Waiting ts Woken] by (simp add: signal_def weight_def)

lemma total_bound: "total ts \<le> 6 * length ts"
proof (induction ts)
  case (Cons p ts)
  then show ?case by (cases p) (auto simp: total_def weight_def)
qed (simp add: total_def)

lemma thread_step_started: "thread_step a s = Done (es, t) \<Longrightarrow> started t = started s"
  by (cases a)
     (auto simp: thread_test_def thread_enter_def thread_woken_def thread_timeout_def thread_section_def
        thread_back_def thread_leave_def thread_dequeue_def put_def listener_enqueue_def Let_def
        split: if_splits option.splits deq.splits bind_splits)

lemma thread_step_total:
  assumes "thread_step a s = Done (es, t)" "\<not> started s" "queue_good (queue s)" "fits (Thread a) s"
  shows "total (threads t) < total (threads s)"
proof -
  have deq: "total (threads t) < total (threads s)"
    if "p \<in> set (threads s)" "p = Entering \<or> p = Woken" "thread_dequeue p mt s = Done (es, t)" for p mt
    using that
    by (auto simp: thread_dequeue_def split: option.splits deq.splits intro!: total_less) (simp_all add: weight_def)
  show ?thesis
  proof (cases a)
    case (Leave b)
    let ?s = "s\<lparr>nbOfThreads := nbOfThreads s - 1, threads := remove1 Leaving (threads s)\<rparr>"
    have lv: "Leaving \<in> set (threads s)" using assms(1) Leave by (auto simp: thread_leave_def split: if_splits)
    have "total (threads t) \<le> total (threads ?s) + 1"
      using assms lv Leave put_step [of ?s b NULL] total_signal [of "threads ?s"]
      by (auto simp: thread_leave_def Let_def split: if_splits)
    then show ?thesis using total_remove1 [OF lv] by (simp add: weight_def)
  next
    case Enter
    then show ?thesis using assms deq [of Entering] by (auto simp: thread_enter_def split: if_splits)
  next
    case (Wake mt)
    then show ?thesis using assms deq [of Woken] by (auto simp: thread_woken_def split: if_splits)
  qed (use assms in \<open>auto simp: thread_test_def thread_timeout_def thread_section_def thread_back_def weight_def
      split: if_splits intro!: total_less\<close>)
qed

lemma thread_runs_stopped:
  assumes "thread_runs s n t" "listener_inv s" "\<not> started s"
  shows "listener_inv t \<and> \<not> started t \<and> n + total (threads t) \<le> total (threads s)"
  using assms
proof (induction rule: thread_runs.induct)
  case (thread_runs_0 s)
  then show ?case by simp
next
  case (thread_runs_Suc s n t a fs u)
  then have i: "listener_inv t" "\<not> started t" "n + total (threads t) \<le> total (threads s)" by auto
  have "listener_inv u" using thread_step_inv [OF i(1) thread_runs_Suc(3,2,4)] .
  moreover have "\<not> started u" using thread_step_started [OF thread_runs_Suc(3)] i(2) by simp
  moreover have "total (threads u) < total (threads t)"
    using thread_step_total [OF thread_runs_Suc(3) i(2) _ thread_runs_Suc(2)] i(1) by (simp add: listener_inv_def)
  ultimately show ?case using i by simp
qed

text \<open>When no thread outside of the function can go on, none is left outside of it.\<close>

definition settled :: "listener \<Rightarrow> bool" where
  "settled t \<longleftrightarrow> (\<forall>a es u. fits (Thread a) t \<longrightarrow> thread_step a t = Done (es, u) \<longrightarrow>
     Late \<in> set es \<or> (\<exists>v. a = Return v))"

lemma enter_enabled:
  assumes "queue_good (queue s)" "mt > 0"
  shows "\<exists>es t. thread_dequeue p mt s = Done (es, t) \<and> Late \<notin> set es"
proof (cases "queue_items (queue s)")
  case Nil
  then show ?thesis using dequeue_test_good(1) [OF assms(1) Nil assms(2)] by (simp add: thread_dequeue_def)
next
  case (Cons v vs)
  have "queue_size (queue s) > 0" using queue_size_items [OF assms(1)] Cons by (simp add: queue_size_def)
  then show ?thesis using dequeue_test_good(2) [OF assms(1) Cons, of mt] by (auto simp: thread_dequeue_def)
qed

lemma settled_invoking:
  assumes i: "listener_inv t" and n: "\<not> started t" and s: "settled t"
  shows "\<forall>p\<in>set (threads t). is_invoking p"
proof -
  have g: "queue_good (queue t)" using i by (simp add: listener_inv_def)
  obtain b where b: "usable_block (queue t) b" using block_ok [OF g] by blast
  have none: "fits (Thread a) t \<Longrightarrow> (\<And>v. a \<noteq> Return v) \<Longrightarrow> \<exists>es u. thread_step a t = Done (es, u) \<and> Late \<notin> set es \<Longrightarrow> False" for a
    using s unfolding settled_def by metis
  have 1: "AtTest \<notin> set (threads t)"
    using none [of Test] by (auto simp: thread_test_def)
  have 2: "Entering \<notin> set (threads t)"
    using none [of Enter] enter_enabled [OF g, of WAITING_DELAY Entering] by (auto simp: thread_enter_def WAITING_DELAY_def)
  have 3: "Woken \<notin> set (threads t)"
    using none [of "Wake 1"] enter_enabled [OF g, of 1 Woken] by (auto simp: thread_woken_def)
  have 4: "Holding v \<notin> set (threads t)" for v
    using none [of "Section v"] n by (auto simp: thread_section_def)
  have 5: "Leaving \<notin> set (threads t)"
  proof
    assume l: "Leaving \<in> set (threads t)"
    let ?s = "t\<lparr>nbOfThreads := nbOfThreads t - 1, threads := remove1 Leaving (threads t)\<rparr>"
    have "\<exists>es u. thread_leave b t = Done (es, u) \<and> Late \<notin> set es"
      using l put_step [of ?s b NULL] g b by (auto simp: thread_leave_def Let_def)
    then show False using none [of "Leave b"] b by simp
  qed
  have "num ((=) Woken) (threads t) = 0" using 3 num_pos [of "(=) Woken" "threads t"] by auto
  moreover have "num ((=) Leaving) (threads t) = 0" using 5 num_pos [of "(=) Leaving" "threads t"] by auto
  moreover have "num is_holding (threads t) = 0"
  proof -
    have "\<not> is_holding p" if "p \<in> set (threads t)" for p
    proof
      assume "is_holding p"
      then obtain v where "p = Holding v" by (cases p) simp_all
      then show False using 4 that by blast
    qed
    then show ?thesis using num_pos [of is_holding "threads t"] by auto
  qed
  ultimately have "num ((=) Waiting) (threads t) = 0" using i n unfolding listener_inv_def by auto
  then have 6: "Waiting \<notin> set (threads t)" using num_pos [of "(=) Waiting" "threads t"] by auto
  show ?thesis
  proof
    fix p assume "p \<in> set (threads t)"
    then have "p \<noteq> AtTest" "p \<noteq> Entering" "p \<noteq> Woken" "p \<noteq> Leaving" "p \<noteq> Waiting" "\<And>v. p \<noteq> Holding v"
      using 1 2 3 4 5 6 by blast+
    then show "is_invoking p" by (metis is_pc(1) pc.exhaust)
  qed
qed

text \<open>
  C31: A stop ends.  Once a listener is stopped, its threads make at most six steps each
  before the last of them is gone; and whenever no thread outside of the function can go
  on, all that are left are in the function, so that the wait of \<open>jxta_listener_stop\<close> is
  over, and the one of \<open>jxta_listener_free\<close> as well as soon as none of them can go on.
  (No thread is left waiting on the queue: each that leaves wakes the next one.)
\<close>

theorem listener_stop_ends:
  assumes "jxta_listener_new f m z b st h = Some s0" "fst b \<noteq> NULL" "finite (dom st)"
    and "runs s0 es s" "Late \<notin> set es" "\<not> started s" "thread_runs s n t"
  shows "int n \<le> 6 * nbOfThreads s \<and>
    (settled t \<longrightarrow> stop_returns t) \<and>
    (settled t \<longrightarrow> (\<forall>v. thread_step (Return v) t = Disabled) \<longrightarrow> nbOfThreads t = 0)"
proof (intro conjI impI)
  have i: "listener_inv s" using runs_inv [OF assms(4) new_inv(1) [OF assms(1-3)] assms(5)] .
  from thread_runs_stopped [OF assms(7) i assms(6)]
  have t: "listener_inv t" "\<not> started t" "n + total (threads t) \<le> total (threads s)" by auto
  have "n \<le> 6 * length (threads s)" using t(3) total_bound [of "threads s"] by simp
  then show "int n \<le> 6 * nbOfThreads s" using i by (simp add: listener_inv_def)
  show "stop_returns t" if "settled t"
  proof -
    have "filter is_invoking (threads t) = threads t" using settled_invoking [OF t(1,2) that] by simp
    then show ?thesis using t(1) by (simp add: stop_returns_def listener_inv_def num_def)
  qed
  show "nbOfThreads t = 0" if st: "settled t" and nr: "\<forall>v. thread_step (Return v) t = Disabled"
  proof -
    have "p \<notin> set (threads t)" for p
    proof
      assume p: "p \<in> set (threads t)"
      then have "is_invoking p" using settled_invoking [OF t(1,2) st] by blast
      then obtain v where "p = Invoking v" by (cases p) simp_all
      then show False using p nr [rule_format, of v] by (simp add: thread_back_def)
    qed
    then have "threads t = []" by (cases "threads t") auto
    then show ?thesis using t(1) by (simp add: listener_inv_def)
  qed
qed

subsection \<open>A listener in use\<close>

definition blank :: dnode where
  "blank = \<lparr>flink = 0, blink = 0, dval = 0\<rparr>"

definition demo_heap :: heap where
  "demo_heap = jxta_object_init \<lparr>objs = (\<lambda>_. \<lparr>bitset = 0, has_free = False, initialized = 0, refCount = 0\<rparr>),
     freed = []\<rparr> 7 0 True"

definition demo_listener :: listener where
  "demo_listener = the (jxta_listener_new True 2 10 (1, blank) Map.empty demo_heap)"

definition demo_run :: "act list \<Rightarrow> lev list \<times> listener" where
  "demo_run as = (case run as demo_listener of Done x \<Rightarrow> x | _ \<Rightarrow> ([], demo_listener))"

lemma demo_new: "jxta_listener_new True 2 10 (1, blank) Map.empty demo_heap = Some demo_listener"
  by (simp add: demo_listener_def jxta_listener_new_def queue_new_def dl_make_def malloc_node_def set_flink_def
      set_blink_def set_dval_def)

text \<open>An event is scheduled and taken by a thread, which is in the function with it.\<close>

definition busy_acts :: "act list" where
  "busy_acts = [Start, Schedule (2, blank) 7, Thread Test, Thread Enter, Thread (Section 7)]"

lemma demo_busy:
  "(case run busy_acts demo_listener of Done (es, s) \<Rightarrow> es = [Put 7, Take 7, Call 7] \<and> started s \<and>
     threads s = [Invoking 7] \<and> nbOfThreads s = 1 | _ \<Rightarrow> False)"
  by code_simp


lemma listener_events_witness:
  "accepted (fst (demo_run busy_acts)) = {#7#} \<and> pending (snd (demo_run busy_acts)) = {#} \<and>
   refCount (objs (lheap (snd (demo_run busy_acts))) 7) = 2"
proof -
  obtain es s where r: "run busy_acts demo_listener = Done (es, s)" "es = [Put 7, Take 7, Call 7]"
    "threads s = [Invoking 7]"
    using demo_busy by (auto split: outcome.splits prod.splits)
  have l: "Late \<notin> set es" using r by simp
  have m: "is_mutable demo_heap 7" "refCount (objs demo_heap 7) = 1"
    by code_simp+
  note ev = listener_events [OF demo_new _ _ run_runs0 [OF r(1)] l]
  have "pending s = {#}" using r(2) ev by simp
  moreover from this have "held s = {#7#}" using r(3) by (simp add: held_def)
  ultimately show ?thesis using r m ev by (simp add: demo_run_def)
qed

text \<open>The listener is stopped while the thread is in the function; the thread comes back and leaves.\<close>

definition stop_acts :: "act list" where
  "stop_acts = busy_acts @ [Stop (3, blank)]"

lemma demo_stop:
  "(case run stop_acts demo_listener of Done (es, s) \<Rightarrow> Late \<notin> set es \<and> \<not> started s \<and> threads s = [Invoking 7]
     | _ \<Rightarrow> False)"
  by code_simp

lemma listener_stop_ends_witness:
  "\<exists>s t. thread_runs s 3 t \<and> \<not> started s \<and> threads s = [Invoking 7] \<and> stop_returns t \<and> nbOfThreads t = 0"
proof -
  obtain es s where r: "run stop_acts demo_listener = Done (es, s)" "Late \<notin> set es" "\<not> started s" "threads s = [Invoking 7]"
    using demo_stop by (auto split: outcome.splits prod.splits)
  have i: "listener_inv s" using runs_inv [OF run_runs0 [OF r(1)] new_inv(1) [OF demo_new] r(2)] by simp
  then have "queue_good (queue s)" by (simp add: listener_inv_def)
  then obtain b where b: "usable_block (queue s) b" using block_ok by blast
  have n: "nbOfThreads s = 1" "nbOfBusyThreads s = 1" using i r(4) by (simp_all add: listener_inv_def)
  define s1 where "s1 = s\<lparr>nbOfBusyThreads := 0, threads := [AtTest], lheap := drop_object 7 (lheap s)\<rparr>"
  define s2 where "s2 = s1\<lparr>threads := [Leaving]\<rparr>"
  define s3 where "s3 = s2\<lparr>nbOfThreads := 0, threads := []\<rparr>"
  have 1: "thread_runs s 1 s1"
    using thread_runs_Suc [OF thread_runs_0, of "Return 7" s "[Back]" s1] n r(4)
    by (simp add: thread_back_def s1_def move_def)
  have 2: "thread_runs s 2 s2"
    using thread_runs_Suc [OF 1, of Test "[]" s2] r(3)
    by (simp add: thread_test_def s1_def s2_def move_def numeral_2_eq_2)
  have 3: "thread_runs s 3 s3"
    using thread_runs_Suc [OF 2, of "Leave b" "[]" s3] b n
    by (simp add: thread_leave_def s1_def s2_def s3_def numeral_3_eq_3 numeral_2_eq_2)
  have none: "thread_step a s3 = Disabled" for a
    by (cases a) (simp_all add: s3_def thread_test_def thread_enter_def thread_woken_def thread_timeout_def
        thread_section_def thread_back_def thread_leave_def)
  then have "settled s3" by (simp add: settled_def)
  with none have "stop_returns s3" "nbOfThreads s3 = 0"
    using listener_stop_ends [OF demo_new _ _ run_runs0 [OF r(1)] r(2,3) 3] by auto
  then show ?thesis using 3 r(3,4) by blast
qed

subsection \<open>What goes wrong\<close>

fun is_fault :: "'a outcome \<Rightarrow> bool" where
  "is_fault Fault \<longleftrightarrow> True"
| "is_fault _ \<longleftrightarrow> False"

text \<open>
  After the event above its thread waits for another until the wait times out; while it
  leaves, an event is scheduled: the thread still counts as idle, so none is created.
\<close>

definition strand_acts :: "act list" where
  "strand_acts = busy_acts @ [Thread (Return 7), Thread Test, Thread Enter, Thread Timeout,
     Schedule (3, blank) 7, Thread (Leave (4, blank))]"

text \<open>
  A stop puts an item without an object into the queue for a thread that is not waiting and
  leaves by itself; after a restart the item is still there, before the next event.
\<close>

definition stale_acts :: "act list" where
  "stale_acts = busy_acts @ [Thread (Return 7), Stop (3, blank), Thread Test, Thread (Leave (4, blank)),
     Start, Schedule (4, blank) 7, Thread Test, Thread Enter, Thread (Section NULL)]"

text \<open>The capacity is 10, but an eleventh event is queued, and none is removed.\<close>

definition full_acts :: "act list" where
  "full_acts = Start # map (\<lambda>k. Schedule (k, blank) 7) [2..<13]"

text \<open>A waiting thread is woken for an event that another takes first, when its time is over.\<close>

definition late_acts :: "act list" where
  "late_acts = [Start, Schedule (2, blank) 7, Thread Test, Schedule (3, blank) 7, Thread Enter,
     Thread (Section 7), Schedule (4, blank) 7, Thread Test, Thread Enter, Thread (Section 7), Thread (Return 7),
     Thread Test, Thread Enter, Thread (Section 7), Thread (Return 7), Thread Test, Thread Enter,
     Thread (Return 7), Thread Test, Schedule (5, blank) 7, Thread Enter, Thread (Wake 0)]"


text \<open>
  C33: Polling a listener without a function, with a timeout of zero on an empty queue:
  the call says that it timed out, but it has taken the sentinel of the list for an item and
  freed it, and the next event that is scheduled, or the next wait, is undefined behaviour.
\<close>

theorem listener_poll_frees_queue:
  assumes "queue_good (queue s)" "queue_items (queue s) = []" "\<not> func s" "timeout \<le> 0"
    and "fst b \<noteq> qlist (queue s)"
  shows "\<exists>t v. jxta_listener_wait_for_event now timeout ws s =
      Some (Some (if v = NULL then JXTA_TIMEOUT else JXTA_SUCCESS, v, t)) \<and>
    jxta_listener_queue_size t = -1 \<and> listener_enqueue b e t = None \<and>
    jxta_listener_wait_for_event later timeout2 ws2 t = None"
proof -
  obtain v where d: "dequeue_test (queue s) timeout =
      Some (Took v ((queue s)\<lparr>qstore := (qstore (queue s))(qlist (queue s) := None), qsize := -1\<rparr>))"
    using dequeue_sentinel [OF assms(1,2,4)] by blast
  define q where "q = (queue s)\<lparr>qstore := (qstore (queue s))(qlist (queue s) := None), qsize := -1\<rparr>"
  have q: "qstore q (qlist q) = None" "qsize q = -1" "qlist q = qlist (queue s)" by (simp_all add: q_def)
  have "dequeue_loop (queue s) (now + timeout) timeout ws = Some (Returns JXTA_SUCCESS v q)"
    using d by (subst dequeue_loop.simps) (simp add: q_def)
  then have "jxta_listener_wait_for_event now timeout ws s =
      Some (Some (if v = NULL then JXTA_TIMEOUT else JXTA_SUCCESS, v, s\<lparr>queue := q\<rparr>))"
    using assms(3) by (simp add: jxta_listener_wait_for_event_def queue_dequeue_1_def)
  moreover have "listener_enqueue b e (s\<lparr>queue := q\<rparr>) = None"
    using enqueue_freed(1) [of q b e] q assms(5) by (simp add: listener_enqueue_def)
  moreover have "dequeue_loop q (later + timeout2) timeout2 ws2 = None"
    using enqueue_freed(2) [of q "(Suc (qlist q), blank)" timeout2] q
    by (subst dequeue_loop.simps) simp
  then have "jxta_listener_wait_for_event later timeout2 ws2 (s\<lparr>queue := q\<rparr>) = None"
    using assms(3) by (simp add: jxta_listener_wait_for_event_def queue_dequeue_1_def)
  moreover have "jxta_listener_queue_size (s\<lparr>queue := q\<rparr>) = -1"
    using q by (simp add: jxta_listener_queue_size_def queue_size_def)
  ultimately show ?thesis by blast
qed

definition poll_listener :: listener where
  "poll_listener = the (jxta_listener_new False 1 10 (1, blank) Map.empty demo_heap)"

lemma listener_poll_frees_queue_witness:
  "\<exists>t v. jxta_listener_wait_for_event 0 0 [] poll_listener =
      Some (Some (if v = NULL then JXTA_TIMEOUT else JXTA_SUCCESS, v, t)) \<and> jxta_listener_queue_size t = -1"
proof -
  have n: "jxta_listener_new False 1 10 (1, blank) Map.empty demo_heap = Some poll_listener"
    by (simp add: poll_listener_def jxta_listener_new_def queue_new_def dl_make_def malloc_node_def set_flink_def
        set_blink_def set_dval_def)
  have "queue_good (queue poll_listener)" "queue_items (queue poll_listener) = []"
    using new_inv(1,2) [OF n] by (simp_all add: listener_inv_def)
  moreover have "\<not> func poll_listener" by code_simp
  moreover have "fst (2, blank) \<noteq> qlist (queue poll_listener)" by code_simp
  ultimately show ?thesis
    using listener_poll_frees_queue [of poll_listener 0 "(2, blank)" 0 "[]" 7 0 0 "[]"] by (metis order_refl)
qed
end
