(* ===== verification/Lease.thy ===== *)
theory Lease
  imports Srdi
begin

section \<open>Leases of rendezvous (src/src/jxta_rdv_service_server.c, jxta_rdv_service_client.c)\<close>

text \<open>
  An edge peer is connected to a rendezvous for the time of a lease, which it asks for and
  renews.  The server keeps an entry per client in a hash table by the unique portion of the
  identifier, the client an entry per rendezvous; the tables are association lists here (the
  theory of hash tables shows that they are maps), which hold the entries themselves.  The
  handlers of messages and the rounds of the periodic threads are operations.

  The environment of an operation gives the time, the answers of the endpoint service to what
  is sent, the parsed identifier of a peer advertisement (the null identifier where it has
  none), the own advertisement, and what the peerview and the discovery service return.  What an
  operation does to its surroundings is appended to a log.
\<close>

subsection \<open>What both sides use\<close>

datatype rdv_action =
    Rdv_send jxta_message endpoint_address
  | Rdv_event rdv_event_type jxta_id
  | Rdv_publish ctext
  | Rdv_probe "endpoint_address option"
  | Rdv_request
  | Rdv_probe_adv ctext
  | Rdv_discover

record lease_env =
  le_now :: int
  le_send :: "nat \<Rightarrow> status"
  le_pid :: "ctext \<Rightarrow> jxta_id"
  le_own_pa :: ctext
  le_discovery :: bool
  le_view :: "peer list"
  le_seeds :: "endpoint_address option list option"
  le_advs :: "ctext list option"

definition JXTA_RDV_SERVICE_NAME :: ctext where
  "JXTA_RDV_SERVICE_NAME = str ''urn:jxta:uuid-DEADBEEFDEAFBABAFEEDBABE0000000605''"

definition JXTA_RDV_CONNECT_REQUEST_ELEMENT_NAME :: ctext where
  "JXTA_RDV_CONNECT_REQUEST_ELEMENT_NAME = str ''Connect''"

definition JXTA_RDV_CONNECTED_REPLY_ELEMENT_NAME :: ctext where
  "JXTA_RDV_CONNECTED_REPLY_ELEMENT_NAME = str ''ConnectedPeer''"

definition JXTA_RDV_LEASE_REPLY_ELEMENT_NAME :: ctext where
  "JXTA_RDV_LEASE_REPLY_ELEMENT_NAME = str ''ConnectedLease''"

definition JXTA_RDV_RDVADV_REPLY_ELEMENT_NAME :: ctext where
  "JXTA_RDV_RDVADV_REPLY_ELEMENT_NAME = str ''RdvAdvReply''"

definition uniq_portion :: "jxta_id \<Rightarrow> ctext" where
  "uniq_portion i = (case snd (jxta_id_get_uniqueportion (Some i)) of None \<Rightarrow> [] | Some u \<Rightarrow> u)"

text \<open>Tables by unique portion; a new entry goes to the end.\<close>

definition tbl_put :: "ctext \<Rightarrow> 'e \<Rightarrow> (ctext \<times> 'e) list \<Rightarrow> (ctext \<times> 'e) list" where
  "tbl_put k e t = (if map_of t k = None then t @ [(k, e)] else map (\<lambda>(k', e'). (k', if k' = k then e else e')) t)"

definition tbl_del :: "ctext \<Rightarrow> (ctext \<times> 'e) list \<Rightarrow> (ctext \<times> 'e) list" where
  "tbl_del k t = filter (\<lambda>(k', _). k' \<noteq> k) t"

text \<open>The address of a peer that is reached over the router.\<close>

definition jxta_peer_addr :: "ctext \<Rightarrow> endpoint_address option" where
  "jxta_peer_addr uniq = jxta_endpoint_address_new_2 (Some (str ''jxta'')) (Some uniq) None None"

definition service_addr :: "endpoint_address \<Rightarrow> ctext \<Rightarrow> ctext \<Rightarrow> endpoint_address option" where
  "service_addr a name param =
     jxta_endpoint_address_new_2 (Some (protocol_name a)) (Some (protocol_address a)) (Some name) (Some param)"

definition elem_value :: "jxta_message \<Rightarrow> ctext \<Rightarrow> ctext option" where
  "elem_value msg name = map_option el_value (snd (jxta_message_get_element_2 msg JXTA_RDV_NS_NAME name))"

definition rdv_element :: "ctext \<Rightarrow> ctext \<Rightarrow> ctext \<Rightarrow> jxta_message_element" where
  "rdv_element name mime v = Element JXTA_RDV_NS_NAME name (Some mime) v None"

subsection \<open>The server\<close>

record client_entry = peer +
  connectTime :: int

record rdv_server =
  srv_clients :: "(ctext \<times> client_entry) list"
  MAX_CLIENTS :: u32
  OFFERED_LEASE_DURATION :: int
  srv_cycle :: int
  srv_group :: ctext
  srv_pid :: ctext
  srv_running :: bool
  srv_log :: "rdv_action list"

definition DEFAULT_MAX_CLIENTS :: int where "DEFAULT_MAX_CLIENTS = 200"
definition DEFAULT_LEASE_DURATION :: int where "DEFAULT_LEASE_DURATION = 20 * 60 * 1000"
definition PERIODIC_THREAD_NAP_TIME_NORMAL :: int where "PERIODIC_THREAD_NAP_TIME_NORMAL = 60 * 1000"

text \<open>The settings, each \<open>-1\<close> where the configuration does not have it.\<close>

definition or_default :: "int \<Rightarrow> int \<Rightarrow> int" where
  "or_default v d = (if v \<noteq> -1 then v else d)"

definition server_init :: "int \<Rightarrow> int \<Rightarrow> int \<Rightarrow> ctext \<Rightarrow> ctext \<Rightarrow> rdv_server" where
  "server_init max_clients lease cycle gid pid =
     \<lparr>srv_clients = [], MAX_CLIENTS = word_of_int (or_default max_clients DEFAULT_MAX_CLIENTS),
      OFFERED_LEASE_DURATION = or_default lease DEFAULT_LEASE_DURATION,
      srv_cycle = or_default cycle PERIODIC_THREAD_NAP_TIME_NORMAL,
      srv_group = gid, srv_pid = pid, srv_running = False, srv_log = []\<rparr>"

definition client_entry_new :: client_entry where
  "client_entry_new = \<lparr>peer_address = None, peer_peerid = None, peer_adv = None, peer_expires = 0, connectTime = 0\<rparr>"

text \<open>The key of the entry that is returned, which is in the table.\<close>

definition server_get_peer_entry :: "rdv_server \<Rightarrow> jxta_id \<Rightarrow> bool \<Rightarrow> ctext option \<times> rdv_server" where
  "server_get_peer_entry self peerid create =
     (let uniq = uniq_portion peerid;
          found = (map_of (srv_clients self) uniq \<noteq> None);
          currentPeers = length (srv_clients self)
      in if \<not> found \<and> create \<and> unat (MAX_CLIENTS self) > currentPeers then
           (let p = snd (jxta_peer_set_address client_entry_new (jxta_peer_addr uniq));
                p = snd (jxta_peer_set_peerid p (Some peerid));
                p = jxta_peer_set_expires p JPR_ABSOLUTE_TIME_MAX
            in (Some uniq, self\<lparr>srv_clients := tbl_put uniq p (srv_clients self)\<rparr>))
         else (if found then Some uniq else None, self))"

definition server_get_peer :: "rdv_server \<Rightarrow> jxta_id option \<Rightarrow> status \<times> client_entry option" where
  "server_get_peer self peerid =
     (case peerid of
        None \<Rightarrow> (JXTA_INVALID_ARGUMENT, None)
      | Some i \<Rightarrow>
          (case fst (server_get_peer_entry self i False) of
             None \<Rightarrow> (JXTA_ITEM_NOTFOUND, None)
           | Some k \<Rightarrow> (JXTA_SUCCESS, map_of (srv_clients self) k)))"

definition server_get_peers :: "rdv_server \<Rightarrow> status \<times> client_entry list" where
  "server_get_peers self = (JXTA_SUCCESS, map snd (srv_clients self))"

definition srv_act :: "rdv_action \<Rightarrow> rdv_server \<Rightarrow> rdv_server" where
  "srv_act a self = self\<lparr>srv_log := srv_log self @ [a]\<rparr>"

definition connect_reply :: "lease_env \<Rightarrow> rdv_server \<Rightarrow> jxta_message" where
  "connect_reply E self =
     \<lparr>melements =
        [rdv_element JXTA_RDV_RDVADV_REPLY_ELEMENT_NAME (str ''text/xml'') (le_own_pa E),
         rdv_element JXTA_RDV_CONNECTED_REPLY_ELEMENT_NAME (str ''text/plain'') (srv_pid self),
         rdv_element JXTA_RDV_LEASE_REPLY_ELEMENT_NAME (str ''text/plain'') (print10 (OFFERED_LEASE_DURATION self))],
      mqos = None\<rparr>"

definition send_connect_reply :: "lease_env \<Rightarrow> rdv_server \<Rightarrow> client_entry \<Rightarrow> (status \<times> rdv_server) option" where
  "send_connect_reply E self client =
     do { a \<leftarrow> peer_address client;
          dest \<leftarrow> service_addr a JXTA_RDV_SERVICE_NAME (srv_group self);
          Some (le_send E (length (srv_log self)), srv_act (Rdv_send (connect_reply E self) dest) self) }"

text \<open>A message without a request is not looked at; its status is that of the search.\<close>

definition server_cb :: "lease_env \<Rightarrow> rdv_server \<Rightarrow> jxta_message \<Rightarrow> (status \<times> rdv_server) option" where
  "server_cb E self msg =
     (case elem_value msg JXTA_RDV_CONNECT_REQUEST_ELEMENT_NAME of
        None \<Rightarrow> Some (JXTA_ITEM_NOTFOUND, self)
      | Some pa \<Rightarrow>
          (let self = (if le_discovery E then srv_act (Rdv_publish pa) self else self);
               pid = le_pid E pa;
               (client, self) = server_get_peer_entry self pid True
           in case client of
                None \<Rightarrow> Some (JXTA_SUCCESS, self)
              | Some k \<Rightarrow>
                  do { c \<leftarrow> map_of (srv_clients self) k;
                       let event = (if jxta_peer_get_expires c \<noteq> JPR_ABSOLUTE_TIME_MAX
                                    then JXTA_RDV_CLIENT_RECONNECTED else JXTA_RDV_CLIENT_CONNECTED);
                       let c = snd (jxta_peer_set_adv c (Some pa));
                       let c = jxta_peer_set_expires c (le_now E + OFFERED_LEASE_DURATION self);
                       let self = self\<lparr>srv_clients := tbl_put k c (srv_clients self)\<rparr>;
                       (res, self) \<leftarrow> send_connect_reply E self c;
                       Some (res, srv_act (Rdv_event event pid) self) }))"

definition server_check_peer_lease :: "int \<Rightarrow> client_entry \<Rightarrow> bool" where
  "server_check_peer_lease now peer = (jxta_peer_get_expires peer - now > 0)"

text \<open>A round of the periodic thread, over the entries that the table has at its beginning.\<close>

fun server_expire :: "int \<Rightarrow> client_entry list \<Rightarrow> rdv_server \<Rightarrow> rdv_server option" where
  "server_expire now [] self = Some self"
| "server_expire now (p # ps) self =
     (if server_check_peer_lease now p then server_expire now ps self
      else do {
        pid \<leftarrow> jxta_peer_get_peerid_priv p;
        server_expire now ps
          (srv_act (Rdv_event JXTA_RDV_CLIENT_DISCONNECTED pid)
             (self\<lparr>srv_clients := tbl_del (uniq_portion pid) (srv_clients self)\<rparr>)) })"

definition server_round :: "lease_env \<Rightarrow> rdv_server \<Rightarrow> rdv_server option" where
  "server_round E self = server_expire (le_now E) (map snd (srv_clients self)) self"

definition server_start :: "jxta_id \<Rightarrow> rdv_server \<Rightarrow> rdv_server" where
  "server_start pid self = srv_act (Rdv_event JXTA_RDV_BECAME_RDV pid) (self\<lparr>srv_running := True\<rparr>)"

definition server_stop :: "rdv_server \<Rightarrow> rdv_server" where
  "server_stop self = (if \<not> srv_running self then self else self\<lparr>srv_running := False\<rparr>)"

subsection \<open>The client\<close>

record rdv_entry = peer +
  lastConnectTry :: int
  connectInterval :: int

record rdv_client =
  cl_rdvs :: "(ctext \<times> rdv_entry) list"
  cl_candidates :: "peer list option"
  cl_candidate :: "rdv_entry option"
  cl_seeds :: "endpoint_address option list option"
  cl_advs :: "ctext list option"
  delay_count :: int
  min_connected :: int
  connect_cycle_fast :: int
  connect_cycle_normal :: int
  lease_renewal_delay :: int
  min_retry_delay :: int
  max_retry_delay :: int
  cl_service :: ctext
  cl_group :: ctext
  cl_running :: bool
  cl_log :: "rdv_action list"

definition CONNECT_THREAD_NAP_TIME_NORMAL :: int where "CONNECT_THREAD_NAP_TIME_NORMAL = 60 * 1000"
definition CONNECT_THREAD_NAP_TIME_FAST :: int where "CONNECT_THREAD_NAP_TIME_FAST = 2 * 1000"
definition MIN_NB_OF_CONNECTED_RDVS :: int where "MIN_NB_OF_CONNECTED_RDVS = 1"
definition MIN_RETRY_DELAY :: int where "MIN_RETRY_DELAY = 15 * 1000"
definition MAX_RETRY_DELAY :: int where "MAX_RETRY_DELAY = 45 * 1000"
definition LEASE_RENEWAL_DELAY :: int where "LEASE_RENEWAL_DELAY = 5 * 60 * 1000"

definition client_init :: "int \<Rightarrow> int \<Rightarrow> int \<Rightarrow> int \<Rightarrow> int \<Rightarrow> int \<Rightarrow> ctext \<Rightarrow> ctext \<Rightarrow> rdv_client" where
  "client_init minc fast normal renewal minr maxr service gid =
     \<lparr>cl_rdvs = [], cl_candidates = None, cl_candidate = None, cl_seeds = None, cl_advs = None, delay_count = 1,
      min_connected = or_default minc MIN_NB_OF_CONNECTED_RDVS,
      connect_cycle_fast = or_default fast CONNECT_THREAD_NAP_TIME_FAST,
      connect_cycle_normal = or_default normal CONNECT_THREAD_NAP_TIME_NORMAL,
      lease_renewal_delay = or_default renewal LEASE_RENEWAL_DELAY,
      min_retry_delay = or_default minr MIN_RETRY_DELAY,
      max_retry_delay = or_default maxr MAX_RETRY_DELAY,
      cl_service = service, cl_group = gid, cl_running = False, cl_log = []\<rparr>"

definition rdv_entry_new :: rdv_entry where
  "rdv_entry_new = \<lparr>peer_address = None, peer_peerid = None, peer_adv = None, peer_expires = 0,
     lastConnectTry = 0, connectInterval = 0\<rparr>"

definition cl_act :: "rdv_action \<Rightarrow> rdv_client \<Rightarrow> rdv_client" where
  "cl_act a self = self\<lparr>cl_log := cl_log self @ [a]\<rparr>"

definition client_get_peer_entry :: "rdv_client \<Rightarrow> jxta_id \<Rightarrow> bool \<Rightarrow> ctext option \<times> rdv_client" where
  "client_get_peer_entry self peerid create =
     (let uniq = uniq_portion peerid;
          found = (map_of (cl_rdvs self) uniq \<noteq> None);
          currentPeers = length (cl_rdvs self)
      in if \<not> found \<and> create \<and> unat (word_of_int (min_connected self) :: u32) > currentPeers then
           (let p = snd (jxta_peer_set_address rdv_entry_new (jxta_peer_addr uniq));
                p = snd (jxta_peer_set_peerid p (Some peerid));
                p = jxta_peer_set_expires p JPR_ABSOLUTE_TIME_MAX
            in (Some uniq, self\<lparr>cl_rdvs := tbl_put uniq p (cl_rdvs self)\<rparr>))
         else (if found then Some uniq else None, self))"

definition connect_request :: "lease_env \<Rightarrow> jxta_message" where
  "connect_request E =
     \<lparr>melements = [rdv_element JXTA_RDV_CONNECT_REQUEST_ELEMENT_NAME (str ''text/xml'') (le_own_pa E)], mqos = None\<rparr>"

text \<open>
  The entry is returned changed; it is in the table or the candidate.  Its address is read
  for a line of the log before anything else.
\<close>

definition connect_to_peer :: "lease_env \<Rightarrow> rdv_client \<Rightarrow> rdv_entry \<Rightarrow> (rdv_entry \<times> rdv_client) option" where
  "connect_to_peer E self peer =
     do { _ \<leftarrow> peer_address peer;
          if lastConnectTry peer + connectInterval peer > le_now E then Some (peer, self)
          else do {
            let i = connectInterval peer + min_retry_delay self;
            let peer = peer\<lparr>lastConnectTry := le_now E,
                            connectInterval := (if i > max_retry_delay self then max_retry_delay self else i)\<rparr>;
            address \<leftarrow> jxta_peer_get_address_priv peer;
            dest \<leftarrow> service_addr address (cl_service self) (cl_group self);
            let res = le_send E (length (cl_log self));
            Some (if res \<noteq> JXTA_SUCCESS then jxta_peer_set_expires peer (le_now E) else peer,
                  cl_act (Rdv_send (connect_request E) dest) self) } }"

definition client_check_peer_lease :: "int \<Rightarrow> rdv_entry \<Rightarrow> bool" where
  "client_check_peer_lease now peer = (jxta_peer_get_expires peer - now > 0)"

definition check_peer_connect :: "lease_env \<Rightarrow> rdv_client \<Rightarrow> rdv_entry \<Rightarrow> (rdv_entry \<times> rdv_client) option" where
  "check_peer_connect E self peer =
     do { _ \<leftarrow> peer_address peer;
          if jxta_peer_get_expires peer - le_now E < lease_renewal_delay self then connect_to_peer E self peer
          else Some (peer, self) }"

text \<open>\<open>sscanf\<close> leaves the lease at 0 when there is no number.\<close>

definition lease_of :: "jxta_message \<Rightarrow> int" where
  "lease_of msg = (case elem_value msg JXTA_RDV_LEASE_REPLY_ELEMENT_NAME of None \<Rightarrow> 0 | Some t \<Rightarrow> fst (strtol10 t))"

definition granted :: "lease_env \<Rightarrow> rdv_client \<Rightarrow> ctext \<Rightarrow> jxta_id \<Rightarrow> ctext \<Rightarrow> int \<Rightarrow> rdv_client option" where
  "granted E self k pid pa lease =
     do { p \<leftarrow> map_of (cl_rdvs self) k;
          let (event, p) =
            (if lease > 0 then
               (if jxta_peer_get_expires p \<noteq> JPR_ABSOLUTE_TIME_MAX then JXTA_RDV_RECONNECTED else JXTA_RDV_CONNECTED,
                (snd (jxta_peer_set_adv (jxta_peer_set_expires p (le_now E + lease)) (Some pa)))
                  \<lparr>connectInterval := 0, lastConnectTry := le_now E\<rparr>)
             else
               (JXTA_RDV_DISCONNECTED, jxta_peer_set_expires (p\<lparr>connectInterval := min_retry_delay self\<rparr>) 0));
          Some (cl_act (Rdv_event event pid) (self\<lparr>cl_rdvs := tbl_put k p (cl_rdvs self)\<rparr>)) }"

text \<open>\<open>parse_id\<close> reads an identifier from a text; the message is kept only if it has one and an advertisement.\<close>

definition parse_id :: "ctext \<Rightarrow> jxta_id option" where
  "parse_id t = (case jxta_id_from_jstring \<lparr>id_alloc = True, id_uuid = []\<rparr> (Some t) of Some (_, i) \<Rightarrow> i | None \<Rightarrow> None)"

definition process_connected_reply :: "lease_env \<Rightarrow> rdv_client \<Rightarrow> jxta_message \<Rightarrow> (status \<times> rdv_client) option" where
  "process_connected_reply E self msg =
     (case elem_value msg JXTA_RDV_CONNECTED_REPLY_ELEMENT_NAME \<bind> parse_id of
        None \<Rightarrow> Some (JXTA_FAILED, self)
      | Some pid \<Rightarrow>
          (case elem_value msg JXTA_RDV_RDVADV_REPLY_ELEMENT_NAME of
             None \<Rightarrow> Some (JXTA_FAILED, self)
           | Some pa \<Rightarrow>
               (let self = (if le_discovery E then cl_act (Rdv_publish pa) self else self);
                    res = fst (jxta_message_get_element_2 msg JXTA_RDV_NS_NAME JXTA_RDV_LEASE_REPLY_ELEMENT_NAME);
                    lease = lease_of msg;
                    (peer, self) = client_get_peer_entry self pid (lease > 0)
                in case peer of
                     None \<Rightarrow> Some (res, self)
                   | Some k \<Rightarrow> do { self \<leftarrow> granted E self k pid pa lease; Some (res, self) })))"

text \<open>The status of the handler is that of the search for the reply.\<close>

definition client_cb :: "lease_env \<Rightarrow> rdv_client \<Rightarrow> jxta_message \<Rightarrow> (status \<times> rdv_client) option" where
  "client_cb E self msg =
     (case elem_value msg JXTA_RDV_CONNECTED_REPLY_ELEMENT_NAME of
        None \<Rightarrow> Some (JXTA_ITEM_NOTFOUND, self)
      | Some _ \<Rightarrow> do { (_, self) \<leftarrow> process_connected_reply E self msg; Some (JXTA_SUCCESS, self) })"

definition client_get_peer :: "rdv_client \<Rightarrow> jxta_id option \<Rightarrow> status \<times> rdv_entry option" where
  "client_get_peer self peerid =
     (case peerid of
        None \<Rightarrow> (JXTA_INVALID_ARGUMENT, None)
      | Some i \<Rightarrow>
          (case fst (client_get_peer_entry self i False) of
             None \<Rightarrow> (JXTA_ITEM_NOTFOUND, None)
           | Some k \<Rightarrow> (JXTA_SUCCESS, map_of (cl_rdvs self) k)))"

definition client_get_peers :: "rdv_client \<Rightarrow> status \<times> rdv_entry list" where
  "client_get_peers self = (JXTA_SUCCESS, map snd (cl_rdvs self))"

text \<open>
  The round of the periodic thread.  The first pass counts the rendezvous with a lease and
  removes the others, the second one renews leases, the third one looks for rendezvous when
  there are too few, and the last one asks the next candidate for a lease.
\<close>

fun client_expire :: "int \<Rightarrow> rdv_entry list \<Rightarrow> nat \<Rightarrow> rdv_client \<Rightarrow> (nat \<times> rdv_client) option" where
  "client_expire now [] n self = Some (n, self)"
| "client_expire now (p # ps) n self =
     (if client_check_peer_lease now p then client_expire now ps (n + 1) self
      else do {
        pid \<leftarrow> jxta_peer_get_peerid_priv p;
        client_expire now ps n
          (cl_act (Rdv_event JXTA_RDV_FAILED pid) (self\<lparr>cl_rdvs := tbl_del (uniq_portion pid) (cl_rdvs self)\<rparr>)) })"

fun client_renew :: "lease_env \<Rightarrow> (ctext \<times> rdv_entry) list \<Rightarrow> rdv_client \<Rightarrow> rdv_client option" where
  "client_renew E [] self = Some self"
| "client_renew E ((k, p) # ps) self =
     do { (p, self) \<leftarrow> check_peer_connect E self p;
          client_renew E ps (self\<lparr>cl_rdvs := tbl_put k p (cl_rdvs self)\<rparr>) }"

definition client_few :: "rdv_client \<Rightarrow> nat \<Rightarrow> bool" where
  "client_few self n \<longleftrightarrow> n < unat (word_of_int (min_connected self) :: u32)"

text \<open>\<open>jxta_vector_clear\<close> of a vector that is not there is an access to a null pointer.\<close>

definition client_look :: "lease_env \<Rightarrow> nat \<Rightarrow> rdv_client \<Rightarrow> rdv_client option" where
  "client_look E n self =
     (if client_few self n then
        (let self =
           (case cl_seeds self of
              Some (a # as) \<Rightarrow> cl_act (Rdv_probe a) (self\<lparr>cl_seeds := Some as\<rparr>)
            | Some [] \<Rightarrow> self\<lparr>cl_seeds := None\<rparr>
            | None \<Rightarrow> (cl_act Rdv_request self)\<lparr>cl_seeds := le_seeds E, delay_count := delay_count self + 1\<rparr>)
         in Some (case cl_advs self of
              Some (a # as) \<Rightarrow> cl_act (Rdv_probe_adv a) (self\<lparr>cl_advs := Some as\<rparr>)
            | Some [] \<Rightarrow> self\<lparr>cl_advs := None\<rparr>
            | None \<Rightarrow> if le_discovery E then (cl_act Rdv_discover self)\<lparr>cl_advs := le_advs E\<rparr> else self))
      else
        do { _ \<leftarrow> cl_candidates self;
             Some (self\<lparr>cl_seeds := None, cl_advs := None, cl_candidates := Some []\<rparr>) })"

definition client_try :: "lease_env \<Rightarrow> rdv_client \<Rightarrow> rdv_client option" where
  "client_try E self =
     (let self = (case cl_candidates self of
                    Some (c # cs) \<Rightarrow> self
                  | _ \<Rightarrow> self\<lparr>cl_candidates := Some (le_view E)\<rparr>);
          self = (case cl_candidate self of
                    None \<Rightarrow> self
                  | Some c \<Rightarrow> if lastConnectTry c + connectInterval c < le_now E
                              then self\<lparr>cl_candidate := None\<rparr> else self)
      in case (cl_candidate self, cl_candidates self) of
           (None, Some (p # ps)) \<Rightarrow>
             do { let c = snd (jxta_peer_set_peerid rdv_entry_new (jxta_peer_get_peerid_priv p));
                  let c = snd (jxta_peer_set_address c (jxta_peer_get_address_priv p));
                  (c, self) \<leftarrow> connect_to_peer E (self\<lparr>cl_candidates := Some ps\<rparr>) c;
                  Some (self\<lparr>cl_candidate := Some c\<rparr>) }
         | _ \<Rightarrow> Some self)"

text \<open>How long the thread waits for the next round, in microseconds.\<close>

definition client_wait :: "nat \<Rightarrow> rdv_client \<Rightarrow> int \<times> rdv_client" where
  "client_wait n self =
     (if client_few self n
      then (let w = connect_cycle_fast self * delay_count self in
            ((if w < connect_cycle_normal self then w else connect_cycle_normal self) * 1000, self))
      else (connect_cycle_normal self * 1000, self\<lparr>delay_count := 0\<rparr>))"

definition client_round :: "lease_env \<Rightarrow> rdv_client \<Rightarrow> (int \<times> rdv_client) option" where
  "client_round E self =
     do { (n, self) \<leftarrow> client_expire (le_now E) (map snd (cl_rdvs self)) 0 self;
          self \<leftarrow> client_renew E (cl_rdvs self) self;
          self \<leftarrow> client_look E n self;
          self \<leftarrow> client_try E self;
          Some (client_wait n self) }"

definition client_start :: "jxta_id \<Rightarrow> rdv_client \<Rightarrow> rdv_client" where
  "client_start pid self = cl_act (Rdv_event JXTA_RDV_BECAME_EDGE pid) (self\<lparr>cl_running := True\<rparr>)"

definition client_stop :: "rdv_client \<Rightarrow> rdv_client" where
  "client_stop self = (if \<not> cl_running self then self else self\<lparr>cl_running := False\<rparr>)"

end
