(* ===== verification/LeaseProps.thy ===== *)
theory LeaseProps
  imports Lease
begin

section \<open>Properties of leases\<close>

text \<open>
  The tables of both sides stay within their bounds and consistent, whatever messages come;
  a lease that was granted is kept by renewals as long as the round trip is short against the
  settings; and what happens at a full server and with a client that has all its connections.
\<close>

subsection \<open>Tables\<close>

lemma tbl_put_keys: "map fst (tbl_put k e t) = (if k \<in> set (map fst t) then map fst t else map fst t @ [k])"
  by (simp add: tbl_put_def map_of_eq_None_iff comp_def case_prod_beta)

lemma tbl_put_get: "map_of (tbl_put k e t) k' = (if k' = k then Some e else map_of t k')"
proof -
  have "map_of (map (\<lambda>(k', e'). (k', if k' = k then e else e')) t) k' =
      (if k' = k \<and> map_of t k \<noteq> None then Some e else map_of t k')"
    by (induction t) auto
  then show ?thesis by (auto simp: tbl_put_def map_add_def split: option.splits)
qed

lemma tbl_put_set: "x \<in> set (tbl_put k e t) \<Longrightarrow> x = (k, e) \<or> x \<in> set t"
  by (auto simp: tbl_put_def split: if_splits)

lemma tbl_del_keys: "set (map fst (tbl_del k t)) = set (map fst t) - {k}"
  by (auto simp: tbl_del_def)

lemma tbl_del_distinct: "distinct (map fst t) \<Longrightarrow> distinct (map fst (tbl_del k t))"
  by (induction t) (auto simp: tbl_del_def)

lemma tbl_del_length: "length (tbl_del k t) \<le> length t"
  by (simp add: tbl_del_def)

lemma tbl_put_length: "length (tbl_put k e t) = (if map_of t k = None then length t + 1 else length t)"
  by (simp add: tbl_put_def)

text \<open>An entry is that of the peer of its key, and is reached over the router.\<close>

definition entry_of :: "ctext \<Rightarrow> 'a peer_scheme \<Rightarrow> bool" where
  "entry_of k p \<longleftrightarrow> (\<exists>i. peer_peerid p = Some i \<and> uniq_portion i = k) \<and> peer_address p = jxta_peer_addr k"

definition table_ok :: "nat \<Rightarrow> (ctext \<times> 'a peer_scheme) list \<Rightarrow> bool" where
  "table_ok n t \<longleftrightarrow> distinct (map fst t) \<and> length t \<le> n \<and> (\<forall>(k, p)\<in>set t. entry_of k p)"

lemma table_put:
  assumes "table_ok n t" "map_of t k \<noteq> None \<or> length t < n" "entry_of k p"
  shows "table_ok n (tbl_put k p t)"
proof -
  have "case x of (k, p) \<Rightarrow> entry_of k p" if "x \<in> set (tbl_put k p t)" for x
    using tbl_put_set [OF that] assms(1,3) by (auto simp: table_ok_def)
  moreover have "distinct (map fst (tbl_put k p t))" "length (tbl_put k p t) \<le> n"
    using assms(1,2) by (auto simp: table_ok_def tbl_put_keys tbl_put_length)
  ultimately show ?thesis by (simp add: table_ok_def)
qed

lemma table_del: "table_ok n t \<Longrightarrow> table_ok n (tbl_del k t)"
  using tbl_del_length [of k t] by (auto simp: table_ok_def tbl_del_distinct) (auto simp: tbl_del_def)

lemma table_get: "table_ok n t \<Longrightarrow> map_of t k = Some p \<Longrightarrow> entry_of k p"
  by (auto simp: table_ok_def dest: map_of_SomeD)

lemma jxta_peer_addr_some: "\<exists>a. jxta_peer_addr u = Some a"
  by (simp add: jxta_peer_addr_def jxta_endpoint_address_new_2_def)

lemma service_addr_some: "\<exists>d. service_addr a n p = Some d"
  by (simp add: service_addr_def jxta_endpoint_address_new_2_def)

definition srv_ok :: "rdv_server \<Rightarrow> bool" where
  "srv_ok s \<longleftrightarrow> table_ok (unat (MAX_CLIENTS s)) (srv_clients s)"

definition cl_ok :: "rdv_client \<Rightarrow> bool" where
  "cl_ok c \<longleftrightarrow> table_ok (unat (word_of_int (min_connected c) :: u32)) (cl_rdvs c)"

lemmas peer_defs = jxta_peer_set_address_def jxta_peer_set_peerid_def jxta_peer_set_expires_def
  jxta_peer_set_adv_def jxta_peer_get_expires_def jxta_peer_get_peerid_priv_def jxta_peer_get_address_priv_def

lemma new_entry_of:
  "entry_of (uniq_portion i) (jxta_peer_set_expires (snd (jxta_peer_set_peerid (snd (jxta_peer_set_address p
      (jxta_peer_addr (uniq_portion i)))) (Some i))) x)"
  using jxta_peer_addr_some [of "uniq_portion i"] by (auto simp: entry_of_def peer_defs)

lemma server_get_peer_entry_ok:
  assumes "srv_ok s" "server_get_peer_entry s i cr = (r, s')"
  shows "srv_ok s'" "r = Some k \<Longrightarrow> k = uniq_portion i \<and> map_of (srv_clients s') k \<noteq> None"
    "OFFERED_LEASE_DURATION s' = OFFERED_LEASE_DURATION s" "MAX_CLIENTS s' = MAX_CLIENTS s"
proof -
  have "table_ok (unat (MAX_CLIENTS s)) (tbl_put (uniq_portion i) (jxta_peer_set_expires (snd (jxta_peer_set_peerid
      (snd (jxta_peer_set_address client_entry_new (jxta_peer_addr (uniq_portion i)))) (Some i))) x) (srv_clients s))"
    if "unat (MAX_CLIENTS s) > length (srv_clients s)" for x
    by (rule table_put) (use assms(1) that new_entry_of in \<open>auto simp: srv_ok_def\<close>)
  then show "srv_ok s'" "r = Some k \<Longrightarrow> k = uniq_portion i \<and> map_of (srv_clients s') k \<noteq> None"
    "OFFERED_LEASE_DURATION s' = OFFERED_LEASE_DURATION s" "MAX_CLIENTS s' = MAX_CLIENTS s"
    using assms by (auto simp: server_get_peer_entry_def Let_def srv_ok_def tbl_put_get split: if_splits)
qed

lemma entry_of_update:
  "entry_of k (jxta_peer_set_expires p x) = entry_of k p" "entry_of k (snd (jxta_peer_set_adv p v)) = entry_of k p"
  by (auto simp: entry_of_def peer_defs)

lemma send_connect_reply_some:
  assumes "entry_of k c"
  shows "\<exists>d. service_addr (the (peer_address c)) JXTA_RDV_SERVICE_NAME (srv_group s) = Some d \<and>
    send_connect_reply E s c = Some (le_send E (length (srv_log s)), srv_act (Rdv_send (connect_reply E s) d) s)"
proof -
  obtain a where a: "peer_address c = Some a" using assms jxta_peer_addr_some [of k] by (auto simp: entry_of_def)
  obtain d where "service_addr a JXTA_RDV_SERVICE_NAME (srv_group s) = Some d" using service_addr_some by blast
  then show ?thesis using a by (simp add: send_connect_reply_def)
qed

text \<open>A request: without room nothing but the publication happens; otherwise there is an entry with the lease and a reply.\<close>

lemma server_cb_cases:
  fixes E :: lease_env
  assumes "srv_ok s" and pa: "elem_value msg JXTA_RDV_CONNECT_REQUEST_ELEMENT_NAME = Some pa"
  defines "u \<equiv> uniq_portion (le_pid E pa)"
  defines "s0 \<equiv> (if le_discovery E then srv_act (Rdv_publish pa) s else s)"
  shows "map_of (srv_clients s) u = None \<Longrightarrow> \<not> unat (MAX_CLIENTS s) > length (srv_clients s) \<Longrightarrow>
      server_cb E s msg = Some (JXTA_SUCCESS, s0)"
    and "map_of (srv_clients s) u \<noteq> None \<or> unat (MAX_CLIENTS s) > length (srv_clients s) \<Longrightarrow>
      \<exists>c ev res a d. server_cb E s msg = Some (res, s0\<lparr>srv_clients := tbl_put u c (srv_clients s),
            srv_log := srv_log s0 @ [Rdv_send (connect_reply E s) d, Rdv_event ev (le_pid E pa)]\<rparr>) \<and>
        entry_of u c \<and> peer_expires c = le_now E + OFFERED_LEASE_DURATION s \<and> peer_adv c = Some pa \<and>
        jxta_peer_addr u = Some a \<and> service_addr a JXTA_RDV_SERVICE_NAME (srv_group s) = Some d"
proof -
  have s0: "srv_clients s0 = srv_clients s" "MAX_CLIENTS s0 = MAX_CLIENTS s" "srv_group s0 = srv_group s"
    "OFFERED_LEASE_DURATION s0 = OFFERED_LEASE_DURATION s" "srv_pid s0 = srv_pid s"
    by (simp_all add: s0_def srv_act_def)
  show "server_cb E s msg = Some (JXTA_SUCCESS, s0)"
    if "map_of (srv_clients s) u = None" "\<not> unat (MAX_CLIENTS s) > length (srv_clients s)"
    using that s0 pa unfolding u_def
    by (simp add: server_cb_def Let_def s0_def [symmetric] server_get_peer_entry_def)
  show "\<exists>c ev res a d. server_cb E s msg = Some (res, s0\<lparr>srv_clients := tbl_put u c (srv_clients s),
            srv_log := srv_log s0 @ [Rdv_send (connect_reply E s) d, Rdv_event ev (le_pid E pa)]\<rparr>) \<and>
        entry_of u c \<and> peer_expires c = le_now E + OFFERED_LEASE_DURATION s \<and> peer_adv c = Some pa \<and>
        jxta_peer_addr u = Some a \<and> service_addr a JXTA_RDV_SERVICE_NAME (srv_group s) = Some d"
    if room: "map_of (srv_clients s) u \<noteq> None \<or> unat (MAX_CLIENTS s) > length (srv_clients s)"
  proof -
    have "fst (server_get_peer_entry s0 (le_pid E pa) True) = Some u"
      using room s0 unfolding u_def server_get_peer_entry_def Let_def by (simp split: if_splits) auto
    then obtain s1 where g: "server_get_peer_entry s0 (le_pid E pa) True = (Some u, s1)"
      by (cases "server_get_peer_entry s0 (le_pid E pa) True") auto
    have ok0: "srv_ok s0" using assms(1) s0 by (simp add: srv_ok_def)
    note ok1 = server_get_peer_entry_ok [OF ok0 g]
    obtain c0 where c0: "map_of (srv_clients s1) u = Some c0" using ok1(2) by auto
    have e0: "entry_of u c0" using table_get ok1(1) c0 by (auto simp: srv_ok_def)
    define c where "c = jxta_peer_set_expires (snd (jxta_peer_set_adv c0 (Some pa))) (le_now E + OFFERED_LEASE_DURATION s)"
    have c: "entry_of u c" "peer_expires c = le_now E + OFFERED_LEASE_DURATION s" "peer_adv c = Some pa"
      using e0 by (simp_all add: c_def entry_of_update) (simp_all add: peer_defs)
    have same: "s1\<lparr>srv_clients := x\<rparr> = s0\<lparr>srv_clients := x\<rparr>" for x
      using g by (auto simp: server_get_peer_entry_def Let_def split: if_splits)
    have put: "tbl_put u c (srv_clients s1) = tbl_put u c (srv_clients s)"
    proof (cases "map_of (srv_clients s) u")
      case None
      then have "fst ` set (srv_clients s) \<inter> {u} = {}" by (auto simp: map_of_eq_None_iff)
      then have m: "map (\<lambda>(k', e'). (k', if k' = u then c else e')) (srv_clients s) = srv_clients s"
        by (intro map_idI) force
      show ?thesis using None g s0 m unfolding u_def
        by (auto simp: server_get_peer_entry_def Let_def tbl_put_def split: if_splits)
    next
      case (Some x)
      then show ?thesis using g s0 unfolding u_def by (auto simp: server_get_peer_entry_def Let_def split: if_splits)
    qed
    obtain a where a: "jxta_peer_addr u = Some a" using jxta_peer_addr_some by blast
    let ?s2 = "s0\<lparr>srv_clients := tbl_put u c (srv_clients s)\<rparr>"
    obtain d where d: "service_addr a JXTA_RDV_SERVICE_NAME (srv_group s) = Some d"
      "send_connect_reply E ?s2 c = Some (le_send E (length (srv_log s0)), srv_act (Rdv_send (connect_reply E ?s2) d) ?s2)"
      using send_connect_reply_some [OF c(1), of ?s2 E] c(1) a s0 by (auto simp: entry_of_def)
    have rep: "connect_reply E ?s2 = connect_reply E s" using s0 by (simp add: connect_reply_def)
    have "\<exists>ev. server_cb E s msg = Some (le_send E (length (srv_log s0)),
        srv_act (Rdv_event ev (le_pid E pa)) (srv_act (Rdv_send (connect_reply E s) d) ?s2))"
      using pa g c0 d(2) put same ok1(3) s0 rep unfolding c_def
      by (auto simp: server_cb_def Let_def s0_def [symmetric])
    then show ?thesis using c a d(1) by (auto simp: srv_act_def)
  qed
qed

subsection \<open>Bounds\<close>

lemma server_cb_ok:
  assumes "srv_ok s"
  shows "\<exists>r s'. server_cb E s msg = Some (r, s') \<and> srv_ok s' \<and> MAX_CLIENTS s' = MAX_CLIENTS s"
proof (cases "elem_value msg JXTA_RDV_CONNECT_REQUEST_ELEMENT_NAME")
  case None
  then show ?thesis using assms by (simp add: server_cb_def)
next
  case (Some pa)
  let ?u = "uniq_portion (le_pid E pa)" and ?s0 = "if le_discovery E then srv_act (Rdv_publish pa) s else s"
  have s0: "srv_clients ?s0 = srv_clients s" "MAX_CLIENTS ?s0 = MAX_CLIENTS s" by (simp_all add: srv_act_def)
  show ?thesis
  proof (cases "map_of (srv_clients s) ?u \<noteq> None \<or> unat (MAX_CLIENTS s) > length (srv_clients s)")
    case True
    from server_cb_cases(2) [OF assms Some True] obtain c ev res d where
      r: "server_cb E s msg = Some (res, ?s0\<lparr>srv_clients := tbl_put ?u c (srv_clients s),
            srv_log := srv_log ?s0 @ [Rdv_send (connect_reply E s) d, Rdv_event ev (le_pid E pa)]\<rparr>)" and c: "entry_of ?u c"
      by blast
    have "table_ok (unat (MAX_CLIENTS s)) (tbl_put ?u c (srv_clients s))"
      by (rule table_put) (use assms True c in \<open>auto simp: srv_ok_def\<close>)
    then show ?thesis using r s0 by (simp add: srv_ok_def)
  next
    case False
    then show ?thesis using server_cb_cases(1) [OF assms Some] assms s0 by (simp add: srv_ok_def)
  qed
qed

lemma table_in: "table_ok n t \<Longrightarrow> (k, p) \<in> set t \<Longrightarrow> entry_of k p"
  by (auto simp: table_ok_def)

lemma entry_of_unique: "entry_of k p \<Longrightarrow> entry_of k' p \<Longrightarrow> k = k'"
  unfolding entry_of_def by (elim conjE exE) simp

text \<open>The round removes those entries whose lease is over, and no others.\<close>

lemma server_expire_ok:
  assumes "srv_ok s" "\<forall>p\<in>set ps. \<exists>k. entry_of k p"
  shows "\<exists>s'. server_expire now ps s = Some s' \<and> srv_ok s' \<and> MAX_CLIENTS s' = MAX_CLIENTS s \<and>
    srv_clients s' = filter (\<lambda>(k, _). \<forall>p\<in>set ps. entry_of k p \<longrightarrow> server_check_peer_lease now p) (srv_clients s)"
  using assms
proof (induction ps arbitrary: s)
  case Nil
  then show ?case by (simp add: case_prod_beta)
next
  case (Cons p ps)
  obtain i where i: "peer_peerid p = Some i" "entry_of (uniq_portion i) p"
    using Cons.prems(2) by (auto simp: entry_of_def)
  have e: "entry_of k p \<longleftrightarrow> k = uniq_portion i" for k using i by (auto simp: entry_of_def)
  show ?case
  proof (cases "server_check_peer_lease now p")
    case True
    then show ?thesis using Cons.IH [OF Cons.prems(1)] Cons.prems(2) by simp
  next
    case False
    let ?s = "srv_act (Rdv_event JXTA_RDV_CLIENT_DISCONNECTED i) (s\<lparr>srv_clients := tbl_del (uniq_portion i) (srv_clients s)\<rparr>)"
    have "srv_ok ?s" using Cons.prems(1) table_del by (simp add: srv_ok_def srv_act_def)
    from Cons.IH [OF this] Cons.prems(2) obtain s' where s': "server_expire now ps ?s = Some s'" "srv_ok s'"
      "MAX_CLIENTS s' = MAX_CLIENTS ?s"
      "srv_clients s' = filter (\<lambda>(k, _). \<forall>p\<in>set ps. entry_of k p \<longrightarrow> server_check_peer_lease now p) (srv_clients ?s)"
      by auto
    have "srv_clients s' = filter (\<lambda>(k, _). \<forall>p\<in>set (p # ps). entry_of k p \<longrightarrow> server_check_peer_lease now p) (srv_clients s)"
      unfolding s'(4) using False by (auto simp: srv_act_def tbl_del_def e intro!: filter_cong)
    then show ?thesis using s' False i by (auto simp: jxta_peer_get_peerid_priv_def srv_act_def)
  qed
qed

lemma server_round_ok:
  assumes "srv_ok s"
  shows "\<exists>s'. server_round E s = Some s' \<and> srv_ok s' \<and> MAX_CLIENTS s' = MAX_CLIENTS s \<and>
    srv_clients s' = filter (\<lambda>(_, p). peer_expires p > le_now E) (srv_clients s)"
proof -
  have t: "table_ok (unat (MAX_CLIENTS s)) (srv_clients s)" using assms by (simp add: srv_ok_def)
  then have d: "distinct (map fst (srv_clients s))" by (simp add: table_ok_def)
  have "\<forall>p\<in>set (map snd (srv_clients s)). \<exists>k. entry_of k p" using table_in [OF t] by fastforce
  from server_expire_ok [OF assms this, of "le_now E"] obtain s' where s': "server_round E s = Some s'" "srv_ok s'"
    "MAX_CLIENTS s' = MAX_CLIENTS s" "srv_clients s' = filter (\<lambda>(k, _). \<forall>p\<in>set (map snd (srv_clients s)).
       entry_of k p \<longrightarrow> server_check_peer_lease (le_now E) p) (srv_clients s)"
    by (auto simp: server_round_def)
  have "(\<forall>q\<in>set (map snd (srv_clients s)). entry_of k q \<longrightarrow> server_check_peer_lease (le_now E) q) \<longleftrightarrow>
      peer_expires p > le_now E" if kp: "(k, p) \<in> set (srv_clients s)" for k p
  proof -
    have "q = p" if "entry_of k q" "(k', q) \<in> set (srv_clients s)" for q k'
    proof -
      have "k' = k" using entry_of_unique [OF table_in [OF t that(2)] that(1)] .
      then show ?thesis using kp that(2) d eq_key_imp_eq_value [of "srv_clients s" k p q] by simp
    qed
    then have 1: "entry_of k q \<Longrightarrow> q \<in> snd ` set (srv_clients s) \<Longrightarrow> q = p" for q by force
    have 2: "p \<in> set (map snd (srv_clients s))" "entry_of k p" using kp table_in [OF t kp] by force+
    have "(\<forall>q\<in>set (map snd (srv_clients s)). entry_of k q \<longrightarrow> server_check_peer_lease (le_now E) q) \<longleftrightarrow>
        server_check_peer_lease (le_now E) p"
    proof
      show "server_check_peer_lease (le_now E) p"
        if "\<forall>q\<in>set (map snd (srv_clients s)). entry_of k q \<longrightarrow> server_check_peer_lease (le_now E) q"
        by (rule that [rule_format, OF 2])
      show "\<forall>q\<in>set (map snd (srv_clients s)). entry_of k q \<longrightarrow> server_check_peer_lease (le_now E) q"
        if "server_check_peer_lease (le_now E) p"
      proof (intro ballI impI)
        fix q assume "q \<in> set (map snd (srv_clients s))" "entry_of k q"
        then have "q = p" using 1 [of q] by simp
        then show "server_check_peer_lease (le_now E) q" using that by simp
      qed
    qed
    then show ?thesis by (simp add: server_check_peer_lease_def jxta_peer_get_expires_def)
  qed
  then have "srv_clients s' = filter (\<lambda>(_, p). peer_expires p > le_now E) (srv_clients s)"
    unfolding s'(4) by (intro filter_cong) auto
  then show ?thesis using s' by blast
qed

lemma client_get_peer_entry_ok:
  assumes "cl_ok c" "client_get_peer_entry c i cr = (r, c')"
  shows "cl_ok c'" "r = Some k \<Longrightarrow> k = uniq_portion i \<and> map_of (cl_rdvs c') k \<noteq> None"
    "min_connected c' = min_connected c" "r = None \<Longrightarrow> c' = c"
    "cl_rdvs c' = cl_rdvs c \<or> length (cl_rdvs c) < unat (word_of_int (min_connected c) :: u32)"
proof -
  have "table_ok (unat (word_of_int (min_connected c) :: u32)) (tbl_put (uniq_portion i) (jxta_peer_set_expires
      (snd (jxta_peer_set_peerid (snd (jxta_peer_set_address rdv_entry_new (jxta_peer_addr (uniq_portion i)))) (Some i))) x)
      (cl_rdvs c))"
    if "unat (word_of_int (min_connected c) :: u32) > length (cl_rdvs c)" for x
    by (rule table_put) (use assms(1) that new_entry_of in \<open>auto simp: cl_ok_def\<close>)
  then show "cl_ok c'" "r = Some k \<Longrightarrow> k = uniq_portion i \<and> map_of (cl_rdvs c') k \<noteq> None"
    "min_connected c' = min_connected c" "r = None \<Longrightarrow> c' = c"
    "cl_rdvs c' = cl_rdvs c \<or> length (cl_rdvs c) < unat (word_of_int (min_connected c) :: u32)"
    using assms by (auto simp: client_get_peer_entry_def Let_def cl_ok_def tbl_put_get split: if_splits)
qed

lemma entry_of_rdv:
  "entry_of k (p\<lparr>connectInterval := a\<rparr>) = entry_of k p" "entry_of k (p\<lparr>lastConnectTry := a\<rparr>) = entry_of k p"
  by (simp_all add: entry_of_def)

lemma granted_ok:
  assumes "cl_ok c" "map_of (cl_rdvs c) k = Some p0"
  shows "\<exists>p ev. granted E c k pid pa lease = Some (cl_act (Rdv_event ev pid) (c\<lparr>cl_rdvs := tbl_put k p (cl_rdvs c)\<rparr>)) \<and>
    entry_of k p \<and>
    (lease > 0 \<longrightarrow> peer_expires p = le_now E + lease \<and> lastConnectTry p = le_now E \<and> connectInterval p = 0) \<and>
    (lease \<le> 0 \<longrightarrow> peer_expires p = 0)"
proof -
  have "entry_of k p0" using assms table_get by (auto simp: cl_ok_def)
  then show ?thesis using assms(2)
    by (cases "lease > 0") (auto simp: granted_def entry_of_update entry_of_rdv peer_defs entry_of_def)
qed

lemma client_cb_ok:
  assumes "cl_ok c"
  shows "\<exists>r c'. client_cb E c msg = Some (r, c') \<and> cl_ok c' \<and> min_connected c' = min_connected c"
proof -
  have "\<exists>r c'. process_connected_reply E c msg = Some (r, c') \<and> cl_ok c' \<and> min_connected c' = min_connected c"
  proof (cases "elem_value msg JXTA_RDV_CONNECTED_REPLY_ELEMENT_NAME \<bind> parse_id")
    case None
    then show ?thesis using assms by (simp add: process_connected_reply_def)
  next
    case (Some pid)
    show ?thesis
    proof (cases "elem_value msg JXTA_RDV_RDVADV_REPLY_ELEMENT_NAME")
      case None
      then show ?thesis using assms Some by (simp add: process_connected_reply_def)
    next
      case (Some pa)
      let ?c = "if le_discovery E then cl_act (Rdv_publish pa) c else c"
      have ok: "cl_ok ?c" "min_connected ?c = min_connected c" using assms by (simp_all add: cl_ok_def cl_act_def)
      obtain r c1 where g: "client_get_peer_entry ?c pid (lease_of msg > 0) = (r, c1)" by fastforce
      note g1 = client_get_peer_entry_ok [OF ok(1) g]
      show ?thesis
      proof (cases r)
        case None
        then show ?thesis using g g1 ok Some \<open>_ = Some pid\<close> by (simp add: process_connected_reply_def Let_def)
      next
        case (Some k)
        then obtain p0 where p0: "map_of (cl_rdvs c1) k = Some p0" using g1(2) by auto
        from granted_ok [OF g1(1) p0, of E pid pa "lease_of msg"] obtain p ev where
          gr: "granted E c1 k pid pa (lease_of msg) = Some (cl_act (Rdv_event ev pid) (c1\<lparr>cl_rdvs := tbl_put k p (cl_rdvs c1)\<rparr>))"
          "entry_of k p" by blast
        have "table_ok (unat (word_of_int (min_connected c1) :: u32)) (tbl_put k p (cl_rdvs c1))"
          by (rule table_put) (use g1(1) p0 gr(2) in \<open>auto simp: cl_ok_def\<close>)
        then show ?thesis using g g1(3) gr(1) ok Some \<open>elem_value msg JXTA_RDV_RDVADV_REPLY_ELEMENT_NAME = Some pa\<close>
            \<open>_ = Some pid\<close>
          by (simp add: process_connected_reply_def Let_def cl_ok_def cl_act_def)
      qed
    qed
  qed
  then show ?thesis using assms by (auto simp: client_cb_def split: option.splits)
qed

text \<open>What can happen to a server, and to a client between its rounds.\<close>

datatype srv_op = Srv_message lease_env jxta_message | Srv_round lease_env

fun srv_ops :: "srv_op list \<Rightarrow> rdv_server \<Rightarrow> rdv_server option" where
  "srv_ops [] s = Some s"
| "srv_ops (Srv_message E m # ops) s = do { (_, s) \<leftarrow> server_cb E s m; srv_ops ops s }"
| "srv_ops (Srv_round E # ops) s = do { s \<leftarrow> server_round E s; srv_ops ops s }"

lemma srv_ops_ok:
  assumes "srv_ok s"
  shows "\<exists>s'. srv_ops ops s = Some s' \<and> srv_ok s' \<and> MAX_CLIENTS s' = MAX_CLIENTS s"
  using assms
proof (induction ops arbitrary: s)
  case (Cons op ops)
  show ?case
  proof (cases op)
    case (Srv_message E m)
    then show ?thesis using server_cb_ok [OF Cons.prems, of E m] Cons.IH by fastforce
  next
    case (Srv_round E)
    then show ?thesis using server_round_ok [OF Cons.prems, of E] Cons.IH by fastforce
  qed
qed simp

fun cl_msgs :: "(lease_env \<times> jxta_message) list \<Rightarrow> rdv_client \<Rightarrow> rdv_client option" where
  "cl_msgs [] c = Some c"
| "cl_msgs ((E, m) # ms) c = do { (_, c) \<leftarrow> client_cb E c m; cl_msgs ms c }"

lemma cl_msgs_ok:
  assumes "cl_ok c"
  shows "\<exists>c'. cl_msgs ms c = Some c' \<and> cl_ok c' \<and> min_connected c' = min_connected c"
  using assms
proof (induction ms arbitrary: c)
  case (Cons a ms)
  obtain E m where "a = (E, m)" by fastforce
  then show ?case using client_cb_ok [OF Cons.prems, of E m] Cons.IH by fastforce
qed simp


subsection \<open>Renewal\<close>

text \<open>The messages of a log that go to the peer with a unique portion.\<close>

definition to_peer :: "ctext \<Rightarrow> endpoint_address \<Rightarrow> bool" where
  "to_peer u d \<longleftrightarrow> protocol_name d = str ''jxta'' \<and> protocol_address d = u"

definition sent_to :: "ctext \<Rightarrow> rdv_action list \<Rightarrow> jxta_message list" where
  "sent_to u acts = concat (map (\<lambda>a. case a of
     Rdv_send m d \<Rightarrow> if to_peer u d then [m] else [] | _ \<Rightarrow> []) acts)"

lemma sent_to_simps [simp]:
  "sent_to u [] = []" "sent_to u (xs @ ys) = sent_to u xs @ sent_to u ys"
  "sent_to u (Rdv_send m d # xs) =
     (if to_peer u d then m # sent_to u xs else sent_to u xs)"
  "sent_to u (Rdv_event ev i # xs) = sent_to u xs" "sent_to u (Rdv_publish a # xs) = sent_to u xs"
  "sent_to u (Rdv_probe x # xs) = sent_to u xs" "sent_to u (Rdv_request # xs) = sent_to u xs"
  "sent_to u (Rdv_probe_adv a # xs) = sent_to u xs" "sent_to u (Rdv_discover # xs) = sent_to u xs"
  by (simp_all add: sent_to_def)

text \<open>The messages are handled one after the other at the other side.\<close>

fun serve :: "lease_env \<Rightarrow> jxta_message list \<Rightarrow> rdv_server \<Rightarrow> rdv_server option" where
  "serve E [] s = Some s"
| "serve E (m # ms) s = do { (_, s) \<leftarrow> server_cb E s m; serve E ms s }"

fun server_rounds :: "lease_env list \<Rightarrow> rdv_server \<Rightarrow> rdv_server option" where
  "server_rounds [] s = Some s"
| "server_rounds (E # Es) s = do { s \<leftarrow> server_round E s; server_rounds Es s }"

text \<open>
  A cycle: a round of the client at the time of \<open>Ec\<close>, any rounds of the server, its handler at
  the time of \<open>Es\<close>, and the handler of the replies at the client at the time of \<open>Er\<close>.
\<close>

record cycle =
  cy_client :: lease_env
  cy_rounds :: "lease_env list"
  cy_server :: lease_env
  cy_reply :: lease_env

definition lease_cycle :: "jxta_id \<Rightarrow> jxta_id \<Rightarrow> cycle \<Rightarrow> rdv_client \<times> rdv_server \<Rightarrow> (rdv_client \<times> rdv_server) option" where
  "lease_cycle cid sid y cs =
     do { (_, c) \<leftarrow> client_round (cy_client y) ((fst cs)\<lparr>cl_log := []\<rparr>);
          s \<leftarrow> server_rounds (cy_rounds y) (snd cs);
          s \<leftarrow> serve (cy_server y) (sent_to (uniq_portion sid) (cl_log c)) (s\<lparr>srv_log := []\<rparr>);
          c \<leftarrow> cl_msgs (map (Pair (cy_reply y)) (sent_to (uniq_portion cid) (srv_log s))) c;
          Some (c, s) }"

fun lease_cycles :: "jxta_id \<Rightarrow> jxta_id \<Rightarrow> cycle list \<Rightarrow> rdv_client \<times> rdv_server \<Rightarrow> (rdv_client \<times> rdv_server) option" where
  "lease_cycles cid sid [] cs = Some cs"
| "lease_cycles cid sid (y # ys) cs = do { cs \<leftarrow> lease_cycle cid sid y cs; lease_cycles cid sid ys cs }"

text \<open>Every peer of the view has an address.\<close>

definition with_address :: "peer list \<Rightarrow> bool" where
  "with_address ps \<longleftrightarrow> (\<forall>p\<in>set ps. peer_address p \<noteq> None)"

text \<open>What the surroundings keep to in a cycle, with a round trip of at most \<open>D\<close>.\<close>

definition cycle_fair :: "jxta_id \<Rightarrow> int \<Rightarrow> cycle \<Rightarrow> bool" where
  "cycle_fair cid D y \<longleftrightarrow>
     (\<forall>n. le_send (cy_client y) n = JXTA_SUCCESS) \<and>
     le_pid (cy_server y) (le_own_pa (cy_client y)) = cid \<and>
     with_address (le_view (cy_client y)) \<and>
     le_now (cy_client y) \<le> le_now (cy_server y) \<and> le_now (cy_server y) \<le> le_now (cy_reply y) \<and>
     le_now (cy_reply y) \<le> le_now (cy_client y) + D \<and>
     (\<forall>E\<in>set (cy_rounds y). le_now E \<le> le_now (cy_server y))"

text \<open>
  A client and a server with a lease between them, after a round of the client at \<open>t\<close> whose
  replies have been handled by \<open>r\<close>: good for at least \<open>m\<close> from \<open>t\<close> on to the client, and
  to the server for at most \<open>D\<close> less.
\<close>

definition leased :: "jxta_id \<Rightarrow> jxta_id \<Rightarrow> int \<Rightarrow> int \<Rightarrow> int \<Rightarrow> int \<Rightarrow> rdv_client \<times> rdv_server \<Rightarrow> bool" where
  "leased cid sid D m t r cs \<longleftrightarrow>
     (\<exists>p q. cl_rdvs (fst cs) = [(uniq_portion sid, p)] \<and> entry_of (uniq_portion sid) p \<and>
        min_connected (fst cs) = 1 \<and> lastConnectTry p + connectInterval p \<le> r \<and>
        cl_candidates (fst cs) \<noteq> None \<and>
        srv_ok (snd cs) \<and> map_of (srv_clients (snd cs)) (uniq_portion cid) = Some q \<and>
        parse_id (srv_pid (snd cs)) = Some sid \<and>
        peer_expires p \<ge> t + m \<and> peer_expires q \<ge> peer_expires p - D)"

text \<open>The client begins a cycle at most \<open>N\<close> after the last one, and after the replies to it.\<close>

fun paced :: "jxta_id \<Rightarrow> int \<Rightarrow> int \<Rightarrow> int \<Rightarrow> int \<Rightarrow> cycle list \<Rightarrow> bool" where
  "paced cid D N t r [] = True"
| "paced cid D N t r (y # ys) =
     (r \<le> le_now (cy_client y) \<and> le_now (cy_client y) \<le> t + N \<and> cycle_fair cid D y \<and>
      paced cid D N (le_now (cy_client y)) (le_now (cy_reply y)) ys)"

lemma request_elem: "elem_value (connect_request E) JXTA_RDV_CONNECT_REQUEST_ELEMENT_NAME = Some (le_own_pa E)"
  by (simp add: elem_value_def connect_request_def rdv_element_def jxta_message_get_element_2_def)

lemma reply_elems:
  assumes "- (2 ^ 63) \<le> OFFERED_LEASE_DURATION s" "OFFERED_LEASE_DURATION s < 2 ^ 63"
  shows "elem_value (connect_reply E s) JXTA_RDV_CONNECTED_REPLY_ELEMENT_NAME = Some (srv_pid s)"
    "elem_value (connect_reply E s) JXTA_RDV_RDVADV_REPLY_ELEMENT_NAME = Some (le_own_pa E)"
    "lease_of (connect_reply E s) = OFFERED_LEASE_DURATION s"
proof -
  have "strtol10 (print10 (OFFERED_LEASE_DURATION s)) = (OFFERED_LEASE_DURATION s, [])"
    using print10_law assms by (simp add: ltoa_law_def)
  then show "elem_value (connect_reply E s) JXTA_RDV_CONNECTED_REPLY_ELEMENT_NAME = Some (srv_pid s)"
    "elem_value (connect_reply E s) JXTA_RDV_RDVADV_REPLY_ELEMENT_NAME = Some (le_own_pa E)"
    "lease_of (connect_reply E s) = OFFERED_LEASE_DURATION s"
    by (simp_all add: lease_of_def elem_value_def connect_reply_def rdv_element_def jxta_message_get_element_2_def
        JXTA_RDV_CONNECTED_REPLY_ELEMENT_NAME_def JXTA_RDV_RDVADV_REPLY_ELEMENT_NAME_def
        JXTA_RDV_LEASE_REPLY_ELEMENT_NAME_def str_def)
qed

text \<open>A request to a peer is sent unless the last one is too recent.\<close>

lemma connect_to_peer_some:
  assumes "peer_address p = Some a" "\<forall>n. le_send E n = JXTA_SUCCESS"
  shows "\<exists>p' acts n. connect_to_peer E c p = Some (p', c\<lparr>cl_log := cl_log c @ acts\<rparr>) \<and>
    sent_to u acts = replicate n (connect_request E) \<and> peer_expires p' = peer_expires p \<and>
    peer_address p' = peer_address p \<and> peer_peerid p' = peer_peerid p \<and>
    (jxta_peer_addr u = Some a \<longrightarrow> lastConnectTry p + connectInterval p \<le> le_now E \<longrightarrow> n > 0) \<and>
    (jxta_peer_addr u = Some a \<longrightarrow> n = 0 \<longrightarrow> p' = p)"
proof (cases "lastConnectTry p + connectInterval p > le_now E")
  case True
  then show ?thesis using assms(1) by (intro exI [of _ p] exI [of _ "[]"] exI [of _ 0]) (simp add: connect_to_peer_def)
next
  case False
  obtain d where d: "service_addr a (cl_service c) (cl_group c) = Some d" using service_addr_some by blast
  have dd: "protocol_name d = protocol_name a" "protocol_address d = protocol_address a"
    using d by (auto simp: service_addr_def jxta_endpoint_address_new_2_def)
  let ?i = "connectInterval p + min_retry_delay c"
  let ?p = "p\<lparr>lastConnectTry := le_now E, connectInterval := (if ?i > max_retry_delay c then max_retry_delay c else ?i)\<rparr>"
  have "connect_to_peer E c p = Some (?p, c\<lparr>cl_log := cl_log c @ [Rdv_send (connect_request E) d]\<rparr>)"
    using False assms d by (simp add: connect_to_peer_def jxta_peer_get_address_priv_def cl_act_def Let_def)
  moreover have "sent_to u [Rdv_send (connect_request E) d] =
      replicate (if to_peer u d then 1 else 0) (connect_request E)"
    by simp
  moreover have "to_peer u d" if "jxta_peer_addr u = Some a"
    using that dd by (auto simp: to_peer_def jxta_peer_addr_def jxta_endpoint_address_new_2_def)
  ultimately show ?thesis
    by (intro exI [of _ ?p] exI [of _ "[Rdv_send (connect_request E) d]"]
        exI [of _ "if to_peer u d then 1 else 0"]) auto
qed

lemma client_try_some:
  assumes "\<forall>n. le_send E n = JXTA_SUCCESS" "with_address (le_view E)" "cl_candidates c = Some []"
  shows "\<exists>c' acts n. client_try E c = Some c' \<and> cl_rdvs c' = cl_rdvs c \<and> cl_log c' = cl_log c @ acts \<and>
    sent_to u acts = replicate n (connect_request E) \<and> min_connected c' = min_connected c \<and>
    lease_renewal_delay c' = lease_renewal_delay c \<and>
    (\<exists>ps. cl_candidates c' = Some ps \<and> with_address ps)"
proof -
  define c1 where "c1 = c\<lparr>cl_candidates := Some (le_view E)\<rparr>"
  define c2 where "c2 = (case cl_candidate c1 of None \<Rightarrow> c1
      | Some x \<Rightarrow> if lastConnectTry x + connectInterval x < le_now E then c1\<lparr>cl_candidate := None\<rparr> else c1)"
  have c2: "cl_rdvs c2 = cl_rdvs c" "cl_log c2 = cl_log c" "min_connected c2 = min_connected c"
    "lease_renewal_delay c2 = lease_renewal_delay c" "cl_candidates c2 = Some (le_view E)"
    by (simp_all add: c2_def c1_def split: option.splits)
  have t: "client_try E c = (case (cl_candidate c2, cl_candidates c2) of
           (None, Some (p # ps)) \<Rightarrow>
             do { let x = snd (jxta_peer_set_peerid rdv_entry_new (jxta_peer_get_peerid_priv p));
                  let x = snd (jxta_peer_set_address x (jxta_peer_get_address_priv p));
                  (x, self) \<leftarrow> connect_to_peer E (c2\<lparr>cl_candidates := Some ps\<rparr>) x;
                  Some (self\<lparr>cl_candidate := Some x\<rparr>) }
         | _ \<Rightarrow> Some c2)"
    using assms(3) unfolding c2_def c1_def by (cases "cl_candidate c") (simp_all add: client_try_def Let_def)
  show ?thesis
  proof (cases "cl_candidate c2 = None \<and> le_view E \<noteq> []")
    case False
    then have "client_try E c = Some c2" using t c2(5) by (auto split: option.splits list.splits)
    then show ?thesis using c2 assms(2) by (intro exI [of _ c2] exI [of _ "[]"] exI [of _ 0]) simp
  next
    case True
    then obtain p ps where v: "le_view E = p # ps" by (cases "le_view E") auto
    then obtain a where a: "peer_address p = Some a" using assms(2) by (auto simp: with_address_def)
    define x where "x = snd (jxta_peer_set_address (snd (jxta_peer_set_peerid rdv_entry_new (jxta_peer_get_peerid_priv p)))
        (jxta_peer_get_address_priv p))"
    have "peer_address x = Some a" using a by (simp add: x_def peer_defs)
    from connect_to_peer_some [OF this assms(1), of "c2\<lparr>cl_candidates := Some ps\<rparr>" u] obtain x' acts n where
      x: "connect_to_peer E (c2\<lparr>cl_candidates := Some ps\<rparr>) x =
        Some (x', c2\<lparr>cl_candidates := Some ps, cl_log := cl_log c2 @ acts\<rparr>)"
      "sent_to u acts = replicate n (connect_request E)" by auto
    have "client_try E c = Some (c2\<lparr>cl_candidates := Some ps, cl_log := cl_log c2 @ acts, cl_candidate := Some x'\<rparr>)"
      using t c2(5) True v x(1) unfolding x_def by simp
    then show ?thesis using c2 x(2) v assms(2)
      by (intro exI [of _ "c2\<lparr>cl_candidates := Some ps, cl_log := cl_log c2 @ acts, cl_candidate := Some x'\<rparr>"]
          exI [of _ acts] exI [of _ n]) (simp add: with_address_def)
  qed
qed

lemma client_round_leased:
  assumes c: "cl_rdvs c = [(u, p)]" "entry_of u p" "min_connected c = 1" "cl_candidates c \<noteq> None" "cl_log c = []"
    and "lastConnectTry p + connectInterval p \<le> le_now E" "peer_expires p > le_now E"
    and E: "\<forall>n. le_send E n = JXTA_SUCCESS" "with_address (le_view E)"
  shows "\<exists>w c' p' n. client_round E c = Some (w, c') \<and> cl_rdvs c' = [(u, p')] \<and> entry_of u p' \<and>
    peer_expires p' = peer_expires p \<and> min_connected c' = 1 \<and> lease_renewal_delay c' = lease_renewal_delay c \<and>
    (\<exists>ps. cl_candidates c' = Some ps \<and> with_address ps) \<and>
    sent_to u (cl_log c') = replicate n (connect_request E) \<and>
    (peer_expires p - le_now E < lease_renewal_delay c \<longrightarrow> n > 0) \<and> (n = 0 \<longrightarrow> p' = p)"
proof -
  obtain a where a: "peer_address p = Some a" "jxta_peer_addr u = Some a"
    using c(2) jxta_peer_addr_some [of u] by (auto simp: entry_of_def)
  have e: "client_expire (le_now E) (map snd (cl_rdvs c)) 0 c = Some (1, c)"
    using c(1) assms(7) by (simp add: client_check_peer_lease_def jxta_peer_get_expires_def)
  obtain p1 acts1 n1 where p1: "check_peer_connect E c p = Some (p1, c\<lparr>cl_log := cl_log c @ acts1\<rparr>)"
    "sent_to u acts1 = replicate n1 (connect_request E)" "peer_expires p1 = peer_expires p" "entry_of u p1"
    "peer_expires p - le_now E < lease_renewal_delay c \<longrightarrow> n1 > 0" "n1 = 0 \<longrightarrow> p1 = p"
  proof (cases "peer_expires p - le_now E < lease_renewal_delay c")
    case True
    from connect_to_peer_some [OF a(1) E(1), of c u] obtain p' acts n where
      x: "connect_to_peer E c p = Some (p', c\<lparr>cl_log := cl_log c @ acts\<rparr>)" "sent_to u acts = replicate n (connect_request E)"
      "peer_expires p' = peer_expires p" "peer_address p' = peer_address p" "peer_peerid p' = peer_peerid p"
      "n > 0" using a(2) assms(6) by blast
    have "check_peer_connect E c p = Some (p', c\<lparr>cl_log := cl_log c @ acts\<rparr>)"
      using True a(1) x(1) by (simp add: check_peer_connect_def jxta_peer_get_expires_def)
    moreover have "entry_of u p'" using x(4,5) c(2) by (simp add: entry_of_def)
    ultimately show thesis using that [of p' acts n] x by blast
  next
    case False
    show thesis
      by (rule that [of p "[]" 0]) (use False c(2) a(1) in \<open>auto simp: check_peer_connect_def jxta_peer_get_expires_def\<close>)
  qed
  define c1 where "c1 = c\<lparr>cl_rdvs := [(u, p1)], cl_log := acts1\<rparr>"
  have r: "client_renew E (cl_rdvs c) c = Some c1"
    using p1(1) c(1,5) by (simp add: tbl_put_def c1_def)
  have nf: "\<not> client_few x 1" if "min_connected x = 1" for x using that by (simp add: client_few_def)
  define c2 where "c2 = c1\<lparr>cl_seeds := None, cl_advs := None, cl_candidates := Some []\<rparr>"
  have l: "client_look E 1 c1 = Some c2"
    using nf [of c1] c(3,4) by (auto simp: client_look_def c1_def c2_def)
  have "cl_candidates c2 = Some []" by (simp add: c2_def)
  from client_try_some [OF E this, of u] obtain c3 acts n where c3: "client_try E c2 = Some c3" "cl_rdvs c3 = cl_rdvs c2"
    "cl_log c3 = cl_log c2 @ acts" "sent_to u acts = replicate n (connect_request E)" "min_connected c3 = min_connected c2"
    "lease_renewal_delay c3 = lease_renewal_delay c2" "\<exists>ps. cl_candidates c3 = Some ps \<and> with_address ps" by blast
  have w: "client_wait 1 c3 = (connect_cycle_normal c3 * 1000, c3\<lparr>delay_count := 0\<rparr>)"
    using nf [of c3] c3(5) c(3) by (simp add: client_wait_def c2_def c1_def)
  have "client_round E c = Some (connect_cycle_normal c3 * 1000, c3\<lparr>delay_count := 0\<rparr>)"
    unfolding client_round_def using e r l c3(1) w by simp
  then show ?thesis
    using c3 p1 c(3)
    by (intro exI [of _ "connect_cycle_normal c3 * 1000"] exI [of _ "c3\<lparr>delay_count := 0\<rparr>"] exI [of _ p1] exI [of _ "n1 + n"])
       (auto simp: c2_def c1_def replicate_add)
qed

text \<open>The rounds of the server keep a client whose lease is not over, and the settings.\<close>

definition same_settings :: "rdv_server \<Rightarrow> rdv_server \<Rightarrow> bool" where
  "same_settings s' s \<longleftrightarrow> MAX_CLIENTS s' = MAX_CLIENTS s \<and> OFFERED_LEASE_DURATION s' = OFFERED_LEASE_DURATION s \<and>
     srv_group s' = srv_group s \<and> srv_pid s' = srv_pid s"

lemma same_settings_reply: "same_settings s' s \<Longrightarrow> connect_reply E s' = connect_reply E s"
  by (simp add: same_settings_def connect_reply_def)

lemma same_settings_trans: "same_settings a b \<Longrightarrow> same_settings b c \<Longrightarrow> same_settings a c"
  by (simp add: same_settings_def)

lemma server_expire_settings: "server_expire now ps s = Some s' \<Longrightarrow> same_settings s' s"
proof (induction ps arbitrary: s)
  case (Cons p ps)
  show ?case
  proof (cases "server_check_peer_lease now p")
    case True
    then show ?thesis using Cons by simp
  next
    case False
    then obtain i where "server_expire now ps (srv_act (Rdv_event JXTA_RDV_CLIENT_DISCONNECTED i)
        (s\<lparr>srv_clients := tbl_del (uniq_portion i) (srv_clients s)\<rparr>)) = Some s'"
      using Cons.prems by (auto split: Option.bind_splits)
    from Cons.IH [OF this] show ?thesis by (simp add: same_settings_def srv_act_def)
  qed
qed (simp add: same_settings_def)

lemma filter_get: "map_of t k = Some p \<Longrightarrow> distinct (map fst t) \<Longrightarrow> P p \<Longrightarrow> map_of (filter (\<lambda>(_, p). P p) t) k = Some p"
  by (induction t) (auto split: if_splits)

lemma server_rounds_keep:
  assumes "srv_ok s" "map_of (srv_clients s) u = Some q" "\<forall>E\<in>set Es. le_now E < peer_expires q"
  shows "\<exists>s'. server_rounds Es s = Some s' \<and> srv_ok s' \<and> same_settings s' s \<and> map_of (srv_clients s') u = Some q"
  using assms
proof (induction Es arbitrary: s)
  case (Cons E Es)
  from server_round_ok [OF Cons.prems(1), of E] obtain s1 where s1: "server_round E s = Some s1" "srv_ok s1"
    "srv_clients s1 = filter (\<lambda>(_, p). peer_expires p > le_now E) (srv_clients s)" by blast
  have ss: "same_settings s1 s" using s1(1) server_expire_settings by (auto simp: server_round_def)
  have "map_of (srv_clients s1) u = Some q"
    unfolding s1(3) by (rule filter_get) (use Cons.prems in \<open>auto simp: srv_ok_def table_ok_def\<close>)
  from Cons.IH [OF s1(2) this] Cons.prems(3) obtain s' where "server_rounds Es s1 = Some s'" "srv_ok s'"
    "same_settings s' s1" "map_of (srv_clients s') u = Some q" by auto
  then show ?case using s1(1) same_settings_trans [OF _ ss] by auto
qed (simp add: same_settings_def)

text \<open>Requests of a known client: each renews the lease and is replied to.\<close>

lemma serve_requests:
  assumes "srv_ok s" "map_of (srv_clients s) (uniq_portion cid) = Some q" "le_pid E (le_own_pa Ec) = cid"
  shows "\<exists>s' q'. serve E (replicate n (connect_request Ec)) s = Some s' \<and> srv_ok s' \<and> same_settings s' s \<and>
    map_of (srv_clients s') (uniq_portion cid) = Some q' \<and>
    peer_expires q' = (if n = 0 then peer_expires q else le_now E + OFFERED_LEASE_DURATION s) \<and>
    sent_to (uniq_portion cid) (srv_log s') = sent_to (uniq_portion cid) (srv_log s) @ replicate n (connect_reply E s)"
  using assms(1,2)
proof (induction n arbitrary: s q)
  case 0
  then show ?case by (auto simp: same_settings_def)
next
  case (Suc n)
  let ?u = "uniq_portion cid"
  define s0 where "s0 = (if le_discovery E then srv_act (Rdv_publish (le_own_pa Ec)) s else s)"
  from server_cb_cases(2) [OF Suc.prems(1) request_elem [of Ec], of E] Suc.prems(2) assms(3)
  obtain c ev res a d where
    cb: "server_cb E s (connect_request Ec) = Some (res, s0\<lparr>srv_clients := tbl_put ?u c (srv_clients s),
            srv_log := srv_log s0 @ [Rdv_send (connect_reply E s) d, Rdv_event ev cid]\<rparr>)"
    and c: "entry_of ?u c" "peer_expires c = le_now E + OFFERED_LEASE_DURATION s"
    and d: "jxta_peer_addr ?u = Some a" "service_addr a JXTA_RDV_SERVICE_NAME (srv_group s) = Some d"
    unfolding s0_def by auto
  define s1 where "s1 = s0\<lparr>srv_clients := tbl_put ?u c (srv_clients s),
            srv_log := srv_log s0 @ [Rdv_send (connect_reply E s) d, Rdv_event ev cid]\<rparr>"
  have ss: "same_settings s1 s" by (simp add: same_settings_def s1_def s0_def srv_act_def)
  have "srv_ok s1" using Suc.prems c(1) table_put [of _ "srv_clients s" ?u c]
    by (simp add: srv_ok_def s1_def s0_def srv_act_def)
  moreover have g: "map_of (srv_clients s1) ?u = Some c" by (simp add: s1_def tbl_put_get)
  ultimately obtain s' q' where s': "serve E (replicate n (connect_request Ec)) s1 = Some s'" "srv_ok s'" "same_settings s' s1"
    "map_of (srv_clients s') ?u = Some q'"
    "peer_expires q' = (if n = 0 then peer_expires c else le_now E + OFFERED_LEASE_DURATION s1)"
    "sent_to ?u (srv_log s') = sent_to ?u (srv_log s1) @ replicate n (connect_reply E s1)"
    using Suc.IH by blast
  have "to_peer ?u d" using d by (auto simp: to_peer_def jxta_peer_addr_def service_addr_def jxta_endpoint_address_new_2_def)
  then have "sent_to ?u (srv_log s1) = sent_to ?u (srv_log s) @ [connect_reply E s]"
    by (simp add: s1_def s0_def srv_act_def)
  then show ?case
    using cb s' c(2) same_settings_trans [OF s'(3) ss] same_settings_reply [OF ss] ss
    by (auto simp: s1_def [symmetric] same_settings_def)
qed

text \<open>Replies to a client that has the rendezvous: each extends the lease.\<close>

lemma client_reply:
  assumes c: "cl_rdvs c = [(uniq_portion sid, p)]" "entry_of (uniq_portion sid) p" "min_connected c = 1"
    and s: "parse_id (srv_pid s) = Some sid" "0 < OFFERED_LEASE_DURATION s" "OFFERED_LEASE_DURATION s < 2 ^ 63"
  shows "\<exists>res c' p'. client_cb E c (connect_reply Es s) = Some (res, c') \<and> cl_rdvs c' = [(uniq_portion sid, p')] \<and>
    entry_of (uniq_portion sid) p' \<and> min_connected c' = 1 \<and> lease_renewal_delay c' = lease_renewal_delay c \<and>
    cl_candidates c' = cl_candidates c \<and> peer_expires p' = le_now E + OFFERED_LEASE_DURATION s \<and>
    lastConnectTry p' = le_now E \<and> connectInterval p' = 0"
proof -
  let ?u = "uniq_portion sid"
  define c0 where "c0 = (if le_discovery E then cl_act (Rdv_publish (le_own_pa Es)) c else c)"
  have c0: "cl_rdvs c0 = cl_rdvs c" "min_connected c0 = min_connected c" "lease_renewal_delay c0 = lease_renewal_delay c"
    "cl_candidates c0 = cl_candidates c" by (simp_all add: c0_def cl_act_def)
  have e: "elem_value (connect_reply Es s) JXTA_RDV_CONNECTED_REPLY_ELEMENT_NAME = Some (srv_pid s)"
    "elem_value (connect_reply Es s) JXTA_RDV_RDVADV_REPLY_ELEMENT_NAME = Some (le_own_pa Es)"
    "lease_of (connect_reply Es s) = OFFERED_LEASE_DURATION s"
    using reply_elems [of s Es] s(2,3) by simp_all
  have g: "client_get_peer_entry c0 sid True = (Some ?u, c0)"
    using c(1) c0 by (simp add: client_get_peer_entry_def Let_def)
  have "cl_ok c0" using c c0 by (simp add: cl_ok_def table_ok_def)
  moreover have "map_of (cl_rdvs c0) ?u = Some p" using c(1) c0 by simp
  ultimately obtain p' ev where gr: "granted E c0 ?u sid (le_own_pa Es) (OFFERED_LEASE_DURATION s) =
      Some (cl_act (Rdv_event ev sid) (c0\<lparr>cl_rdvs := tbl_put ?u p' (cl_rdvs c0)\<rparr>))" and p': "entry_of ?u p'"
    "peer_expires p' = le_now E + OFFERED_LEASE_DURATION s" "lastConnectTry p' = le_now E" "connectInterval p' = 0"
    using granted_ok [of c0 ?u p E sid "le_own_pa Es" "OFFERED_LEASE_DURATION s"] s(2) by blast
  have t: "tbl_put ?u p' (cl_rdvs c0) = [(?u, p')]" using c(1) c0 by (simp add: tbl_put_def)
  obtain res where "client_cb E c (connect_reply Es s) =
      Some (res, cl_act (Rdv_event ev sid) (c0\<lparr>cl_rdvs := [(?u, p')]\<rparr>))"
    using gr g e s(1,2) t by (simp add: client_cb_def process_connected_reply_def Let_def c0_def [symmetric])
  then show ?thesis using p' c0 c(3) by (auto simp: cl_act_def)
qed

lemma client_replies:
  assumes c: "cl_rdvs c = [(uniq_portion sid, p)]" "entry_of (uniq_portion sid) p" "min_connected c = 1"
    and s: "parse_id (srv_pid s) = Some sid" "0 < OFFERED_LEASE_DURATION s" "OFFERED_LEASE_DURATION s < 2 ^ 63"
  shows "\<exists>c' p'. cl_msgs (map (Pair E) (replicate n (connect_reply Es s))) c = Some c' \<and>
    cl_rdvs c' = [(uniq_portion sid, p')] \<and> entry_of (uniq_portion sid) p' \<and> min_connected c' = 1 \<and>
    lease_renewal_delay c' = lease_renewal_delay c \<and> cl_candidates c' = cl_candidates c \<and>
    (n = 0 \<longrightarrow> p' = p) \<and> (n > 0 \<longrightarrow> peer_expires p' = le_now E + OFFERED_LEASE_DURATION s \<and>
      lastConnectTry p' = le_now E \<and> connectInterval p' = 0)"
  using c
proof (induction n arbitrary: c p)
  case (Suc n)
  from client_reply [OF Suc.prems s, of E Es] obtain res c1 p1 where
    c1: "client_cb E c (connect_reply Es s) = Some (res, c1)" "cl_rdvs c1 = [(uniq_portion sid, p1)]"
    "entry_of (uniq_portion sid) p1" "min_connected c1 = 1" "lease_renewal_delay c1 = lease_renewal_delay c"
    "cl_candidates c1 = cl_candidates c" "peer_expires p1 = le_now E + OFFERED_LEASE_DURATION s"
    "lastConnectTry p1 = le_now E" "connectInterval p1 = 0" by blast
  from Suc.IH [OF c1(2-4)] obtain c' p' where
    c': "cl_msgs (map (Pair E) (replicate n (connect_reply Es s))) c1 = Some c'"
    "cl_rdvs c' = [(uniq_portion sid, p')]" "entry_of (uniq_portion sid) p'" "min_connected c' = 1"
    "lease_renewal_delay c' = lease_renewal_delay c1" "cl_candidates c' = cl_candidates c1"
    "n = 0 \<longrightarrow> p' = p1" "n > 0 \<longrightarrow> peer_expires p' = le_now E + OFFERED_LEASE_DURATION s \<and>
      lastConnectTry p' = le_now E \<and> connectInterval p' = 0" by blast
  have "cl_msgs (map (Pair E) (replicate (Suc n) (connect_reply Es s))) c = Some c'" using c1(1) c'(1) by simp
  moreover have "peer_expires p' = le_now E + OFFERED_LEASE_DURATION s \<and> lastConnectTry p' = le_now E \<and> connectInterval p' = 0"
    using c'(7,8) c1(7-9) by (cases "n = 0") simp_all
  ultimately show ?case using c' c1 by auto
qed auto

text \<open>One cycle.\<close>

lemma lease_cycle_leased:
  assumes l: "leased cid sid D m t r (c, s)" and y: "paced cid D N t r [y]" and D: "0 \<le> D" "N + 2 * D < m"
    and L: "0 < OFFERED_LEASE_DURATION s" "OFFERED_LEASE_DURATION s < 2 ^ 63"
    and m: "m \<le> OFFERED_LEASE_DURATION s" "m \<le> lease_renewal_delay c"
  shows "\<exists>c' s'. lease_cycle cid sid y (c, s) = Some (c', s') \<and>
    leased cid sid D m (le_now (cy_client y)) (le_now (cy_reply y)) (c', s') \<and> same_settings s' s \<and>
    lease_renewal_delay c' = lease_renewal_delay c"
proof -
  let ?u = "uniq_portion sid" and ?v = "uniq_portion cid"
  obtain p q where p: "cl_rdvs c = [(?u, p)]" "entry_of ?u p" "min_connected c = 1" "lastConnectTry p + connectInterval p \<le> r"
    "cl_candidates c \<noteq> None" "srv_ok s" "map_of (srv_clients s) ?v = Some q" "parse_id (srv_pid s) = Some sid"
    "peer_expires p \<ge> t + m" "peer_expires q \<ge> peer_expires p - D"
    using l by (auto simp: leased_def)
  have f: "\<forall>n. le_send (cy_client y) n = JXTA_SUCCESS" "le_pid (cy_server y) (le_own_pa (cy_client y)) = cid"
    "with_address (le_view (cy_client y))" "le_now (cy_client y) \<le> le_now (cy_server y)"
    "le_now (cy_server y) \<le> le_now (cy_reply y)" "le_now (cy_reply y) \<le> le_now (cy_client y) + D"
    "\<forall>E\<in>set (cy_rounds y). le_now E \<le> le_now (cy_server y)" "r \<le> le_now (cy_client y)" "le_now (cy_client y) \<le> t + N"
    using y by (auto simp: cycle_fair_def)
  have early: "lastConnectTry p + connectInterval p \<le> le_now (cy_client y)" "peer_expires p > le_now (cy_client y)"
    using p(4,9) f(8,9) D by linarith+
  from client_round_leased [of "c\<lparr>cl_log := []\<rparr>" ?u p "cy_client y"] p(1-3,5) early f(1,3)
  obtain w c1 p1 n where c1: "client_round (cy_client y) (c\<lparr>cl_log := []\<rparr>) = Some (w, c1)" "cl_rdvs c1 = [(?u, p1)]"
    "entry_of ?u p1" "peer_expires p1 = peer_expires p" "min_connected c1 = 1" "lease_renewal_delay c1 = lease_renewal_delay c"
    "cl_candidates c1 \<noteq> None" "sent_to ?u (cl_log c1) = replicate n (connect_request (cy_client y))"
    "peer_expires p - le_now (cy_client y) < lease_renewal_delay c \<longrightarrow> n > 0" "n = 0 \<longrightarrow> p1 = p"
    by auto
  have "\<forall>E\<in>set (cy_rounds y). le_now E < peer_expires q"
  proof
    fix E assume "E \<in> set (cy_rounds y)"
    then have "le_now E \<le> le_now (cy_server y)" using f(7) by blast
    then show "le_now E < peer_expires q" using f(5,6,9) p(9,10) D by linarith
  qed
  from server_rounds_keep [OF p(6,7) this] obtain s1 where s1: "server_rounds (cy_rounds y) s = Some s1" "srv_ok s1"
    "same_settings s1 s" "map_of (srv_clients s1) ?v = Some q" by blast
  have s1': "srv_ok (s1\<lparr>srv_log := []\<rparr>)" "map_of (srv_clients (s1\<lparr>srv_log := []\<rparr>)) ?v = Some q"
    "same_settings (s1\<lparr>srv_log := []\<rparr>) s" using s1 by (simp_all add: srv_ok_def same_settings_def)
  from serve_requests [OF s1'(1,2) f(2), of n] obtain s2 q2 where
    s2: "serve (cy_server y) (replicate n (connect_request (cy_client y))) (s1\<lparr>srv_log := []\<rparr>) = Some s2" "srv_ok s2"
    "same_settings s2 (s1\<lparr>srv_log := []\<rparr>)" "map_of (srv_clients s2) ?v = Some q2"
    "peer_expires q2 = (if n = 0 then peer_expires q else le_now (cy_server y) + OFFERED_LEASE_DURATION (s1\<lparr>srv_log := []\<rparr>))"
    "sent_to ?v (srv_log s2) = replicate n (connect_reply (cy_server y) (s1\<lparr>srv_log := []\<rparr>))"
    by auto
  note same2 = same_settings_trans [OF s2(3) s1'(3)]
  have rep: "sent_to ?v (srv_log s2) = replicate n (connect_reply (cy_server y) s)"
    using s2(6) same_settings_reply [OF s1'(3)] by simp
  from client_replies [OF c1(2,3,5) p(8) L, of "cy_reply y" n "cy_server y"] obtain c2 p2 where
    c2: "cl_msgs (map (Pair (cy_reply y)) (replicate n (connect_reply (cy_server y) s))) c1 = Some c2"
    "cl_rdvs c2 = [(?u, p2)]" "entry_of ?u p2" "min_connected c2 = 1" "lease_renewal_delay c2 = lease_renewal_delay c1"
    "cl_candidates c2 = cl_candidates c1" "n = 0 \<longrightarrow> p2 = p1"
    "n > 0 \<longrightarrow> peer_expires p2 = le_now (cy_reply y) + OFFERED_LEASE_DURATION s \<and>
      lastConnectTry p2 = le_now (cy_reply y) \<and> connectInterval p2 = 0" by blast
  have off: "OFFERED_LEASE_DURATION (s1\<lparr>srv_log := []\<rparr>) = OFFERED_LEASE_DURATION s" using s1'(3) by (simp add: same_settings_def)
  have k: "lastConnectTry p2 + connectInterval p2 \<le> le_now (cy_reply y) \<and>
    peer_expires p2 \<ge> le_now (cy_client y) + m \<and> peer_expires q2 \<ge> peer_expires p2 - D"
  proof (cases "n = 0")
    case True
    then show ?thesis using c1(9,10) c2(7) s2(5) p(4,10) m(2) f(4,5,8) by simp
  next
    case False
    then show ?thesis using c2(8) s2(5) off m(1) f(4-6) by simp
  qed
  have "lease_cycle cid sid y (c, s) = Some (c2, s2)"
    unfolding lease_cycle_def using c1(1,8) s1(1) s2(1) rep c2(1) by simp
  moreover have "leased cid sid D m (le_now (cy_client y)) (le_now (cy_reply y)) (c2, s2)"
    unfolding leased_def using c2(2-4,6) c1(7) s2(2,4) same2 p(8) k by (simp add: same_settings_def)
  ultimately show ?thesis using same2 c2(5) c1(6) by auto
qed

definition last_round :: "int \<Rightarrow> cycle list \<Rightarrow> int" where
  "last_round t ys = last (t # map (\<lambda>y. le_now (cy_client y)) ys)"

definition last_reply :: "int \<Rightarrow> cycle list \<Rightarrow> int" where
  "last_reply r ys = last (r # map (\<lambda>y. le_now (cy_reply y)) ys)"

text \<open>
  C35: A lease is kept.  When the client's rounds are at most \<open>N\<close> apart, its messages arrive,
  and a request is answered within \<open>D\<close>, then a lease that both sides have lives for ever, if
  the offered duration and the renewal delay are both longer than \<open>N + 2 * D\<close>: after any
  number of cycles, with any rounds of the server's thread between them, the client still has
  the rendezvous, the server the client, and neither lease has run out by the next cycle.
\<close>

theorem lease_kept:
  assumes "leased cid sid D m t r (c, s)" "paced cid D N t r ys" "0 \<le> D" "N + 2 * D < m"
    and "0 < OFFERED_LEASE_DURATION s" "OFFERED_LEASE_DURATION s < 2 ^ 63"
    and "m \<le> OFFERED_LEASE_DURATION s" "m \<le> lease_renewal_delay c"
  shows "\<exists>cs. lease_cycles cid sid ys (c, s) = Some cs \<and> leased cid sid D m (last_round t ys) (last_reply r ys) cs"
  using assms
proof (induction ys arbitrary: c s t r)
  case Nil
  then show ?case by (simp add: last_round_def last_reply_def)
next
  case (Cons y ys)
  have "paced cid D N t r [y]" using Cons.prems(2) by simp
  from lease_cycle_leased [OF Cons.prems(1) this Cons.prems(3-8)] obtain c1 s1 where
    c1: "lease_cycle cid sid y (c, s) = Some (c1, s1)"
    "leased cid sid D m (le_now (cy_client y)) (le_now (cy_reply y)) (c1, s1)" "same_settings s1 s"
    "lease_renewal_delay c1 = lease_renewal_delay c" by blast
  have "\<exists>cs. lease_cycles cid sid ys (c1, s1) = Some cs \<and>
      leased cid sid D m (last_round (le_now (cy_client y)) ys) (last_reply (le_now (cy_reply y)) ys) cs"
    by (rule Cons.IH [OF c1(2)]) (use Cons.prems c1(3,4) in \<open>simp_all add: same_settings_def\<close>)
  then show ?case using c1(1) by (auto simp: last_round_def last_reply_def)
qed

text \<open>A concrete pair: the settings of both sides are the defaults, rounds are a minute apart.\<close>

definition demo_env :: "int \<Rightarrow> lease_env" where
  "demo_env now = \<lparr>le_now = now, le_send = \<lambda>_. JXTA_SUCCESS, le_pid = \<lambda>_. IdJxta [98], le_own_pa = str ''pa'',
     le_discovery = False, le_view = [], le_seeds = None, le_advs = None\<rparr>"

definition demo_cycle :: "nat \<Rightarrow> cycle" where
  "demo_cycle n = (let t = 60000 * int n in
     \<lparr>cy_client = demo_env t, cy_rounds = [demo_env t], cy_server = demo_env (t + 1000), cy_reply = demo_env (t + 2000)\<rparr>)"

definition demo_server :: rdv_server where
  "demo_server = server_init (-1) (-1) (-1) (str ''group'') (str ''urn:jxta:jxta-a'')"

definition demo_client :: rdv_client where
  "demo_client = client_init (-1) (-1) (-1) (-1) (-1) (-1) JXTA_RDV_SERVICE_NAME (str ''group'')"

definition demo_leased :: "rdv_client \<times> rdv_server" where
  "demo_leased =
     (demo_client\<lparr>cl_candidates := Some [], cl_rdvs := [(str ''jxta-a'',
        \<lparr>peer_address = jxta_peer_addr (str ''jxta-a''), peer_peerid = Some (IdJxta [97]), peer_adv = None,
         peer_expires = 1200000, lastConnectTry = 0, connectInterval = 0\<rparr>)]\<rparr>,
      demo_server\<lparr>srv_clients := [(str ''jxta-b'',
        \<lparr>peer_address = jxta_peer_addr (str ''jxta-b''), peer_peerid = Some (IdJxta [98]), peer_adv = None,
         peer_expires = 1199000, connectTime = 0\<rparr>)]\<rparr>)"

lemma demo_ids:
  "uniq_portion (IdJxta [97]) = str ''jxta-a''" "uniq_portion (IdJxta [98]) = str ''jxta-b''"
  "parse_id (str ''urn:jxta:jxta-a'') = Some (IdJxta [97])"
  by code_simp+

lemma demo_server_id: "parse_id (srv_pid demo_server) = Some (IdJxta [97])"
  using demo_ids(3) by (simp only: demo_server_def server_init_def rdv_server.select_convs)

lemma demo_leased_ok: "leased (IdJxta [98]) (IdJxta [97]) 2000 300000 0 0 demo_leased"
  using demo_server_id demo_ids(1,2)
  by (simp add: leased_def demo_leased_def entry_of_def demo_client_def client_init_def or_default_def
      MIN_NB_OF_CONNECTED_RDVS_def srv_ok_def table_ok_def)
     (simp add: demo_server_def server_init_def or_default_def DEFAULT_MAX_CLIENTS_def)

lemma demo_times:
  "le_now (cy_client (demo_cycle n)) = 60000 * int n" "le_now (cy_reply (demo_cycle n)) = 60000 * int n + 2000"
  by (simp_all add: demo_cycle_def demo_env_def Let_def)

lemma demo_paced: "r \<le> 60000 * int a \<Longrightarrow> 60000 * int a \<le> t + 60000 \<Longrightarrow>
  paced (IdJxta [98]) 2000 60000 t r (map demo_cycle [a..<a + n])"
proof (induction n arbitrary: a t r)
  case (Suc n)
  have l: "[a..<a + Suc n] = a # [Suc a..<Suc a + n]" using upt_conv_Cons [of a "a + Suc n"] by simp
  have "cycle_fair (IdJxta [98]) 2000 (demo_cycle a)"
    by (simp add: cycle_fair_def demo_cycle_def demo_env_def with_address_def Let_def)
  moreover have "paced (IdJxta [98]) 2000 60000 (60000 * int a) (60000 * int a + 2000) (map demo_cycle [Suc a..<Suc a + n])"
    by (rule Suc.IH) simp_all
  ultimately show ?case unfolding l using Suc.prems
    by (simp add: demo_times del: upt_Suc)
qed simp

lemma lease_kept_witness:
  "\<exists>cs. lease_cycles (IdJxta [98]) (IdJxta [97]) (map demo_cycle [1..<1 + 1000]) demo_leased = Some cs \<and>
     leased (IdJxta [98]) (IdJxta [97]) 2000 300000 (last_round 0 (map demo_cycle [1..<1 + 1000]))
       (last_reply 0 (map demo_cycle [1..<1 + 1000])) cs"
proof -
  have "leased (IdJxta [98]) (IdJxta [97]) 2000 300000 0 0 (fst demo_leased, snd demo_leased)"
    using demo_leased_ok by simp
  from lease_kept [OF this demo_paced [of 0 1 0 1000]] show ?thesis
    by (simp add: demo_leased_def demo_client_def client_init_def demo_server_def server_init_def or_default_def
        LEASE_RENEWAL_DELAY_def DEFAULT_LEASE_DURATION_def del: upt_Suc)
qed

text \<open>A message with a grant to a client that has all its rendezvous: it is not looked at further.\<close>

lemma client_reply_full:
  assumes "map_of (cl_rdvs c) (uniq_portion sid) = None" "\<not> unat (word_of_int (min_connected c) :: u32) > length (cl_rdvs c)"
    and s: "parse_id (srv_pid s) = Some sid" "0 < OFFERED_LEASE_DURATION s" "OFFERED_LEASE_DURATION s < 2 ^ 63"
  shows "\<exists>res c'. client_cb E c (connect_reply Es s) = Some (res, c') \<and> cl_rdvs c' = cl_rdvs c"
proof -
  define c0 where "c0 = (if le_discovery E then cl_act (Rdv_publish (le_own_pa Es)) c else c)"
  have c0: "cl_rdvs c0 = cl_rdvs c" "min_connected c0 = min_connected c" by (simp_all add: c0_def cl_act_def)
  have "client_get_peer_entry c0 sid True = (None, c0)"
    using assms(1,2) c0 by (simp add: client_get_peer_entry_def Let_def)
  then show ?thesis using reply_elems [of s Es] s c0
    by (simp add: client_cb_def process_connected_reply_def Let_def c0_def [symmetric])
qed

text \<open>
  C36: A client with all its connections still asks for more.  In the round of a client whose
  only rendezvous has a lease that need not be renewed yet, the first peer of the peerview is
  nevertheless sent a request for a lease; that server gives it one of its places for the
  whole duration and replies, and the client throws the grant away.
\<close>

theorem lease_overbooked:
  assumes c: "cl_rdvs c = [(u, p)]" "min_connected c = 1" "cl_candidates c = Some cs" "cl_candidate c = None" "cl_log c = []"
    and p: "peer_expires p > le_now E" "peer_expires p - le_now E \<ge> lease_renewal_delay c" "peer_address p \<noteq> None"
    and v: "le_view E = v # vs" "peer_address v = jxta_peer_addr (uniq_portion vid)" "uniq_portion vid \<noteq> u"
      "0 \<le> le_now E" "le_send E 0 = JXTA_SUCCESS"
    and s: "srv_ok s" "srv_log s = []" "parse_id (srv_pid s) = Some vid" "map_of (srv_clients s) (uniq_portion cid) = None"
      "length (srv_clients s) < unat (MAX_CLIENTS s)" "le_pid Es (le_own_pa E) = cid"
      "0 < OFFERED_LEASE_DURATION s" "OFFERED_LEASE_DURATION s < 2 ^ 63"
  shows "\<exists>w c1 s1 c2 q. client_round E c = Some (w, c1) \<and> cl_rdvs c1 = cl_rdvs c \<and>
    serve Es (sent_to (uniq_portion vid) (cl_log c1)) s = Some s1 \<and>
    length (srv_clients s1) = length (srv_clients s) + 1 \<and>
    map_of (srv_clients s1) (uniq_portion cid) = Some q \<and> peer_expires q = le_now Es + OFFERED_LEASE_DURATION s \<and>
    sent_to (uniq_portion cid) (srv_log s1) = [connect_reply Es s] \<and>
    cl_msgs (map (Pair Er) (sent_to (uniq_portion cid) (srv_log s1))) c1 = Some c2 \<and> cl_rdvs c2 = [(u, p)]"
proof -
  let ?v = "uniq_portion vid" and ?k = "uniq_portion cid"
  obtain a where a: "jxta_peer_addr ?v = Some a" using jxta_peer_addr_some by blast
  obtain d where d: "service_addr a (cl_service c) (cl_group c) = Some d" using service_addr_some by blast
  have tv: "to_peer ?v d" using a d by (auto simp: to_peer_def jxta_peer_addr_def service_addr_def jxta_endpoint_address_new_2_def)
  have e: "client_expire (le_now E) (map snd (cl_rdvs c)) 0 c = Some (1, c)"
    using c(1) p(1) by (simp add: client_check_peer_lease_def jxta_peer_get_expires_def)
  have r: "client_renew E (cl_rdvs c) c = Some c"
    using c(1) p(2,3) by (auto simp: check_peer_connect_def jxta_peer_get_expires_def tbl_put_def)
  have nf: "\<not> client_few x 1" if "min_connected x = 1" for x using that by (simp add: client_few_def)
  define c0 where "c0 = c\<lparr>cl_seeds := None, cl_advs := None, cl_candidates := Some []\<rparr>"
  have l: "client_look E 1 c = Some c0" using nf [of c] c(2,3) by (simp add: client_look_def c0_def)
  define x0 where "x0 = snd (jxta_peer_set_address (snd (jxta_peer_set_peerid rdv_entry_new (jxta_peer_get_peerid_priv v)))
      (jxta_peer_get_address_priv v))"
  have x0: "peer_address x0 = Some a" "lastConnectTry x0 = 0" "connectInterval x0 = 0"
    using v(2) a by (simp_all add: x0_def peer_defs rdv_entry_new_def)
  obtain x where x: "connect_to_peer E (c0\<lparr>cl_candidates := Some vs\<rparr>) x0 =
      Some (x, c0\<lparr>cl_candidates := Some vs, cl_log := [Rdv_send (connect_request E) d]\<rparr>)"
    using x0 v(4,5) d c(5)
    by (simp add: connect_to_peer_def Let_def jxta_peer_get_address_priv_def cl_act_def c0_def)
  have t: "client_try E c0 = Some (c0\<lparr>cl_candidates := Some vs, cl_log := [Rdv_send (connect_request E) d], cl_candidate := Some x\<rparr>)"
    using x v(1) c(4) unfolding x0_def by (simp add: client_try_def c0_def)
  define c1 where "c1 = c0\<lparr>cl_candidates := Some vs, cl_log := [Rdv_send (connect_request E) d], cl_candidate := Some x, delay_count := 0\<rparr>"
  have c1: "client_round E c = Some (connect_cycle_normal c * 1000, c1)" "cl_rdvs c1 = cl_rdvs c" "min_connected c1 = 1"
    "sent_to ?v (cl_log c1) = [connect_request E]"
    unfolding client_round_def using e r l t nf c(2) tv by (simp_all add: client_wait_def c0_def c1_def)
  define s0 where "s0 = (if le_discovery Es then srv_act (Rdv_publish (le_own_pa E)) s else s)"
  from server_cb_cases(2) [OF s(1) request_elem [of E], of Es] s(5,6)
  obtain q ev res b d' where
    cb: "server_cb Es s (connect_request E) = Some (res, s0\<lparr>srv_clients := tbl_put ?k q (srv_clients s),
            srv_log := srv_log s0 @ [Rdv_send (connect_reply Es s) d', Rdv_event ev cid]\<rparr>)"
    and q: "peer_expires q = le_now Es + OFFERED_LEASE_DURATION s"
    and d': "jxta_peer_addr ?k = Some b" "service_addr b JXTA_RDV_SERVICE_NAME (srv_group s) = Some d'"
    unfolding s0_def by auto
  define s1 where "s1 = s0\<lparr>srv_clients := tbl_put ?k q (srv_clients s),
            srv_log := srv_log s0 @ [Rdv_send (connect_reply Es s) d', Rdv_event ev cid]\<rparr>"
  have "to_peer ?k d'" using d' by (auto simp: to_peer_def jxta_peer_addr_def service_addr_def jxta_endpoint_address_new_2_def)
  then have rs: "sent_to ?k (srv_log s1) = [connect_reply Es s]"
    using s(2) by (simp add: s1_def s0_def srv_act_def)
  have s1: "serve Es (sent_to ?v (cl_log c1)) s = Some s1" "map_of (srv_clients s1) ?k = Some q"
    "length (srv_clients s1) = length (srv_clients s) + 1"
    using cb c1(4) s(4) by (simp_all add: s1_def tbl_put_get tbl_put_length)
  from client_reply_full [of c1 vid s Er Es] c(1) c1(2,3) s(3,7,8) v(3) obtain res' c2 where
    "client_cb Er c1 (connect_reply Es s) = Some (res', c2)" "cl_rdvs c2 = cl_rdvs c" by auto
  then show ?thesis using c1(1,2) s1 q rs c(1) by auto
qed

definition demo_other :: peer where
  "demo_other = \<lparr>peer_address = jxta_peer_addr (str ''jxta-c''), peer_peerid = Some (IdJxta [99]), peer_adv = None, peer_expires = 0\<rparr>"

definition demo_other_server :: rdv_server where
  "demo_other_server = server_init (-1) (-1) (-1) (str ''group'') (str ''urn:jxta:jxta-c'')"

lemma demo_other_id: "uniq_portion (IdJxta [99]) = str ''jxta-c''" "parse_id (str ''urn:jxta:jxta-c'') = Some (IdJxta [99])"
  by code_simp+

lemma lease_overbooked_witness:
  "\<exists>w c1 s1 c2 q. client_round (demo_env 0\<lparr>le_view := [demo_other]\<rparr>) (fst demo_leased) = Some (w, c1) \<and>
    cl_rdvs c1 = cl_rdvs (fst demo_leased) \<and>
    serve (demo_env 1000) (sent_to (uniq_portion (IdJxta [99])) (cl_log c1)) demo_other_server = Some s1 \<and>
    length (srv_clients s1) = length (srv_clients demo_other_server) + 1 \<and>
    map_of (srv_clients s1) (uniq_portion (IdJxta [98])) = Some q \<and>
    peer_expires q = le_now (demo_env 1000) + OFFERED_LEASE_DURATION demo_other_server \<and>
    sent_to (uniq_portion (IdJxta [98])) (srv_log s1) = [connect_reply (demo_env 1000) demo_other_server] \<and>
    cl_msgs (map (Pair (demo_env 2000)) (sent_to (uniq_portion (IdJxta [98])) (srv_log s1))) c1 = Some c2 \<and>
    cl_rdvs c2 = [(str ''jxta-a'', snd (hd (cl_rdvs (fst demo_leased))))]"
proof (rule lease_overbooked [of _ _ _ "[]"])
  have "parse_id (srv_pid demo_other_server) = Some (IdJxta [99])"
    using demo_other_id(2) by (simp only: demo_other_server_def server_init_def rdv_server.select_convs)
  then show "parse_id (srv_pid demo_other_server) = Some (IdJxta [99])" .
  show "uniq_portion (IdJxta [99]) \<noteq> str ''jxta-a''" by code_simp
  show "peer_address demo_other = jxta_peer_addr (uniq_portion (IdJxta [99]))"
    unfolding demo_other_id(1) by (simp only: demo_other_def peer.select_convs)
qed (simp_all add: demo_leased_def demo_client_def client_init_def demo_other_server_def server_init_def or_default_def
    LEASE_RENEWAL_DELAY_def DEFAULT_LEASE_DURATION_def MIN_NB_OF_CONNECTED_RDVS_def DEFAULT_MAX_CLIENTS_def
    demo_env_def demo_other_def srv_ok_def table_ok_def jxta_peer_addr_def jxta_endpoint_address_new_2_def)

end
