(* ===== verification/AdvParser.thy ===== *)
theory AdvParser
  imports CString
begin

section \<open>Documents (src/src/jxta_advertisement.c)\<close>

text \<open>
  The protocols exchange XML documents.  A document type has a table of keywords with a handler
  for each, and the engine here turns the events of expat into calls of the handlers.  A
  handler changes the contents of the document, of type \<open>'c\<close>; it is called with the empty text at
  the start of its element and with the text of the element at its end.  \<open>None\<close> is an access to
  a null pointer, in a handler or in the engine, or one behind the stack of handlers.

  Expat is a parameter: what the engine sees is a list of events and how the parse ended.
  Everything that is not an element (text, declarations, comments) goes to the same function and is
  one kind of event; an element event carries the text of its tag, which the default handler is
  given when the engine asks for it.
\<close>

subsection \<open>Data\<close>

type_synonym 'c handler = "'c \<Rightarrow> ctext \<Rightarrow> 'c option"

record 'c kwdtab =
  kwd :: ctext
  nodeparse :: "'c handler option"
  kget :: "('c \<Rightarrow> ctext option) option"
  kget_parm :: "('c \<Rightarrow> ctext \<Rightarrow> ctext option) option"

text \<open>A document; one without a table holds a batch of unknown documents.\<close>

datatype 'c adv =
  Adv (document_name: ctext) (dispatch_table: "'c kwdtab list option") (adv_content: 'c) (adv_list: "'c adv list")

datatype sax = Start ctext "(ctext \<times> ctext) list" ctext | End ctext ctext | Chars ctext

text \<open>How expat left off; junk behind the document begins at a position of the text.\<close>

datatype xml_status = XML_STATUS_OK | XML_STATUS_ERROR | XML_JUNK nat

definition MAX_ADV_DEPTH :: nat where "MAX_ADV_DEPTH = 32"

text \<open>The part of a document that is only used while it is parsed.\<close>

record 'c frame =
  fadv :: "'c adv"
  handler_stk :: "'c handler option list"
  adv_depth :: nat
  curr_handler :: "'c handler option"
  accum :: ctext

definition set_content :: "'c \<Rightarrow> 'c frame \<Rightarrow> 'c frame" where
  "set_content c f = f\<lparr>fadv := (case fadv f of Adv d t _ l \<Rightarrow> Adv d t c l)\<rparr>"

definition add_adv :: "'c adv \<Rightarrow> 'c frame \<Rightarrow> 'c frame" where
  "add_adv a f = f\<lparr>fadv := (case fadv f of Adv d t c l \<Rightarrow> Adv d t c (l @ [a]))\<rparr>"

text \<open>
  The user data of the parser: the document that is being parsed with those it is in, innermost
  first, or nothing once the outermost one has ended.
\<close>

datatype 'c parsing = Parsing "'c frame list" | Ended "'c adv"

subsection \<open>Accessors\<close>

fun find_kwd :: "ctext \<Rightarrow> 'c kwdtab list \<Rightarrow> 'c kwdtab option" where
  "find_kwd n [] = None"
| "find_kwd n (k # ks) = (if kwd k = n then Some k else find_kwd n ks)"

text \<open>The exact name of element and attribute, otherwise the last entry of the element before it.\<close>

definition jxta_advertisement_get_string :: "'c adv \<Rightarrow> ctext \<Rightarrow> ctext option \<Rightarrow> ctext \<Rightarrow> ctext option" where
  "jxta_advertisement_get_string ad element attribute parm =
     (case dispatch_table ad of
        None \<Rightarrow> None
      | Some tab \<Rightarrow>
          (let full = (case attribute of None \<Rightarrow> element | Some a \<Rightarrow> element @ [32] @ a);
               k = (case find_kwd full tab of Some k \<Rightarrow> Some k | None \<Rightarrow> find_kwd element (rev tab))
           in case k of
                None \<Rightarrow> None
              | Some k \<Rightarrow>
                  (case kget k of
                     Some g \<Rightarrow> g (adv_content ad)
                   | None \<Rightarrow> (case kget_parm k of Some g \<Rightarrow> g (adv_content ad) parm | None \<Rightarrow> None))))"

definition jxta_advertisement_get_tagnames :: "'c adv \<Rightarrow> ctext list option" where
  "jxta_advertisement_get_tagnames ad =
     map_option (\<lambda>tab. map kwd (filter (\<lambda>k. kget k \<noteq> None \<or> kget_parm k \<noteq> None) (tl tab))) (dispatch_table ad)"

definition jxta_advertisement_get_advs :: "'c adv \<Rightarrow> 'c adv list" where
  "jxta_advertisement_get_advs ad = adv_list ad"

definition jxta_advertisement_clear_advs :: "'c adv \<Rightarrow> 'c adv" where
  "jxta_advertisement_clear_advs ad = (case ad of Adv d t c _ \<Rightarrow> Adv d t c [])"

subsection \<open>The global table of document types\<close>

type_synonym 'c registry = "ctext \<rightharpoonup> 'c adv"

definition jxta_advertisement_register_global_handler :: "ctext \<Rightarrow> 'c adv \<Rightarrow> 'c registry \<Rightarrow> 'c registry" where
  "jxta_advertisement_register_global_handler doc_type new_ad R = R(doc_type \<mapsto> new_ad)"

text \<open>The type attribute is tried before the name of the element.\<close>

definition jxta_advertisement_global_handler :: "'c registry \<Rightarrow> ctext option \<Rightarrow> ctext \<Rightarrow> 'c adv option" where
  "jxta_advertisement_global_handler R typeAttr ename =
     (case typeAttr \<bind> R of Some a \<Rightarrow> Some a | None \<Rightarrow> R ename)"

subsection \<open>Elements\<close>

fun attribute_handlers :: "ctext \<Rightarrow> 'c kwdtab list \<Rightarrow> (ctext \<times> ctext) list \<Rightarrow> 'c \<Rightarrow> 'c option" where
  "attribute_handlers ename tab [] c = Some c"
| "attribute_handlers ename tab ((a, v) # atts) c =
     (case find_kwd (ename @ [32] @ a) tab \<bind> nodeparse of
        None \<Rightarrow> attribute_handlers ename tab atts c
      | Some h \<Rightarrow> do { c \<leftarrow> h c v; attribute_handlers ename tab atts c })"

text \<open>The entry of an element: by the type attribute, then by the name.\<close>

definition element_kwd :: "ctext option \<Rightarrow> ctext \<Rightarrow> 'c kwdtab list \<Rightarrow> 'c kwdtab option" where
  "element_kwd typeAttr ename tab =
     (case typeAttr \<bind> (\<lambda>t. find_kwd t tab) of Some k \<Rightarrow> Some k | None \<Rightarrow> find_kwd ename tab)"

definition new_frame :: "'c adv \<Rightarrow> 'c frame" where
  "new_frame a = \<lparr>fadv = a, handler_stk = replicate MAX_ADV_DEPTH None, adv_depth = 0, curr_handler = None, accum = []\<rparr>"

text \<open>
  A document inside of another gets the start of its own element, under its own name, at once
  (\<open>jxta_advertisement_set_handlers\<close>).  A type whose table lacks its name would ask for a new
  document again, without end.
\<close>

partial_function (option) advertisement_start_element ::
  "'c registry \<Rightarrow> ctext \<Rightarrow> (ctext \<times> ctext) list \<Rightarrow> ctext \<Rightarrow> 'c frame \<Rightarrow> 'c frame list \<Rightarrow> 'c frame list option" where
  "advertisement_start_element R ename atts raw f fs =
     (if adv_depth f \<ge> MAX_ADV_DEPTH then Some (f\<lparr>adv_depth := adv_depth f + 1\<rparr> # fs)
      else do {
         stk \<leftarrow> mem_write (handler_stk f) (adv_depth f) (curr_handler f);
         (let f = f\<lparr>handler_stk := stk, adv_depth := adv_depth f + 1\<rparr>;
             typeAttr = map_of atts (str ''type'');
             sub = jxta_advertisement_global_handler R typeAttr ename
          in case dispatch_table (fadv f) of
              None \<Rightarrow>
                (case sub of
                   Some a \<Rightarrow> advertisement_start_element R (document_name a) atts raw (new_frame a) (f # fs)
                 | None \<Rightarrow> Some (f # fs))
            | Some tab \<Rightarrow>
                do { c \<leftarrow> attribute_handlers ename tab atts (adv_content (fadv f));
                     let f = set_content c f;
                     (case element_kwd typeAttr ename tab of
                        Some k \<Rightarrow>
                          do { h \<leftarrow> nodeparse k;
                               c \<leftarrow> h (adv_content (fadv f)) [];
                               Some (set_content c (f\<lparr>curr_handler := Some h, accum := []\<rparr>) # fs) }
                      | None \<Rightarrow>
                          (case sub of
                             Some a \<Rightarrow> advertisement_start_element R (document_name a) atts raw (new_frame a) (f # fs)
                           | None \<Rightarrow> Some (f\<lparr>curr_handler := None, accum := accum f @ raw\<rparr> # fs))) }) })"

declare advertisement_start_element.simps [code]

text \<open>The text of an element that has none is a space.\<close>

definition end_handler :: "ctext \<Rightarrow> 'c frame \<Rightarrow> 'c frame option" where
  "end_handler raw f =
     (case curr_handler f of
        Some h \<Rightarrow>
          do { c \<leftarrow> h (adv_content (fadv f)) (if accum f = [] then [32] else accum f);
               Some (set_content c (f\<lparr>accum := []\<rparr>)) }
      | None \<Rightarrow> Some (f\<lparr>accum := accum f @ raw\<rparr>))"

text \<open>At the end of a document the one that it is in handles the end as well.\<close>

fun advertisement_end_element :: "ctext \<Rightarrow> 'c frame list \<Rightarrow> 'c parsing option" where
  "advertisement_end_element raw [] = None"
| "advertisement_end_element raw (f # fs) =
     (if adv_depth f = 0 then None
      else
        (let d = adv_depth f - 1 in
         if d \<ge> MAX_ADV_DEPTH then Some (Parsing (f\<lparr>adv_depth := d\<rparr> # fs))
         else
           do { f \<leftarrow> end_handler raw (f\<lparr>adv_depth := d\<rparr>);
                h \<leftarrow> mem_read (handler_stk f) d;
                let f = f\<lparr>curr_handler := h\<rparr>;
                if d \<noteq> 0 then Some (Parsing (f # fs))
                else (case fs of
                        [] \<Rightarrow> Some (Ended (fadv f))
                      | p # ps \<Rightarrow> advertisement_end_element raw (add_adv (fadv f) p # ps)) }))"

fun sax_step :: "'c registry \<Rightarrow> sax \<Rightarrow> 'c parsing \<Rightarrow> 'c parsing option" where
  "sax_step R (Start n atts raw) (Parsing (f # fs)) = map_option Parsing (advertisement_start_element R n atts raw f fs)"
| "sax_step R (End n raw) (Parsing fs) = advertisement_end_element raw fs"
| "sax_step R (Chars t) (Parsing (f # fs)) = Some (Parsing (f\<lparr>accum := accum f @ t\<rparr> # fs))"
| "sax_step R (Chars t) (Ended a) = Some (Ended a)"
| "sax_step R _ _ = None"

fun sax_run :: "'c registry \<Rightarrow> sax list \<Rightarrow> 'c parsing \<Rightarrow> 'c parsing option" where
  "sax_run R [] s = Some s"
| "sax_run R (e # es) s = do { s \<leftarrow> sax_step R e s; sax_run R es s }"

text \<open>The documents as they are when the parser stops; those that have not ended hang in their parents.\<close>

fun unwind :: "'c frame list \<Rightarrow> 'c adv option" where
  "unwind [] = None"
| "unwind [f] = Some (fadv f)"
| "unwind (f # p # ps) = unwind (add_adv (fadv f) p # ps)"

definition parsed :: "'c parsing \<Rightarrow> 'c adv option" where
  "parsed s = (case s of Ended a \<Rightarrow> Some a | Parsing fs \<Rightarrow> unwind fs)"

text \<open>
  Junk behind the document, such as a second document: the parser is reset, which clears its
  handlers, and goes on without them.
\<close>

partial_function (option) parse_rest :: "(ctext \<Rightarrow> sax list \<times> xml_status) \<Rightarrow> ctext \<Rightarrow> status option" where
  "parse_rest expat buf =
     (case snd (expat buf) of
        XML_STATUS_OK \<Rightarrow> Some JXTA_SUCCESS
      | XML_STATUS_ERROR \<Rightarrow> Some JXTA_INVALID_ARGUMENT
      | XML_JUNK n \<Rightarrow> parse_rest expat (drop n buf))"

declare parse_rest.simps [code]

definition jxta_advertisement_parse_charbuffer ::
  "'c registry \<Rightarrow> (ctext \<Rightarrow> sax list \<times> xml_status) \<Rightarrow> 'c adv \<Rightarrow> ctext \<Rightarrow> (status \<times> 'c adv) option" where
  "jxta_advertisement_parse_charbuffer R expat ad buf =
     (if buf = [] then Some (JXTA_INVALID_ARGUMENT, ad)
      else do {
        s \<leftarrow> sax_run R (fst (expat buf)) (Parsing [new_frame ad]);
        a \<leftarrow> parsed s;
        st \<leftarrow> (case snd (expat buf) of
                XML_STATUS_OK \<Rightarrow> Some JXTA_SUCCESS
              | XML_STATUS_ERROR \<Rightarrow> Some JXTA_INVALID_ARGUMENT
              | XML_JUNK n \<Rightarrow> parse_rest expat (drop n buf));
        Some (st, a) })"

end
