(* ===== verification/AdvProps.thy ===== *)
theory AdvProps
  imports AdvParser
begin

section \<open>Properties of the document parser\<close>

text \<open>
  How a document is read that has one level of elements, whatever the pieces are in which expat
  delivers its text; that no event leads out of the stack of handlers; and the keyword without a
  handler that every table begins with.
\<close>

subsection \<open>Pieces of text\<close>

fun coalesce :: "sax list \<Rightarrow> sax list" where
  "coalesce [] = []"
| "coalesce (Chars t # es) =
     (case coalesce es of
        Chars u # fs \<Rightarrow> Chars (t @ u) # fs
      | fs \<Rightarrow> if t = [] then fs else Chars t # fs)"
| "coalesce (e # es) = e # coalesce es"

fun no_frames :: "'c parsing \<Rightarrow> bool" where
  "no_frames (Parsing fs) \<longleftrightarrow> fs = []"
| "no_frames (Ended a) \<longleftrightarrow> False"

lemma chars_split: "sax_run R (Chars (t @ u) # es) s = sax_run R (Chars t # Chars u # es) s"
  by (cases "(R, Chars t, s)" rule: sax_step.cases) auto

lemma chars_none: "\<not> no_frames s \<Longrightarrow> sax_run R (Chars [] # es) s = sax_run R es s"
  by (cases "(R, Chars [], s)" rule: sax_step.cases) auto

lemma start_some:
  assumes "advertisement_start_element R n atts raw f fs = Some gs"
  shows "gs \<noteq> []"
proof (rule advertisement_start_element.raw_induct [where P = "\<lambda>_ _ _ _ _ _ gs. gs \<noteq> []", OF _ assms], goal_cases)
  case (1 rec R n atts raw f fs gs)
  from 1(2) show ?case
    by (auto simp: Let_def dest!: 1(1) split: if_splits option.splits bind_splits)
qed

lemma end_some: "advertisement_end_element raw fs = Some s \<Longrightarrow> \<not> no_frames s"
  by (induction raw fs arbitrary: s rule: advertisement_end_element.induct)
     (auto simp: Let_def split: if_splits list.splits bind_splits)

lemma step_some: "sax_step R e s = Some s' \<Longrightarrow> \<not> no_frames s'"
  by (cases "(R, e, s)" rule: sax_step.cases) (auto dest: start_some end_some)

text \<open>Only the text as a whole counts.\<close>

lemma coalesce_run: "\<not> no_frames s \<Longrightarrow> sax_run R (coalesce es) s = sax_run R es s"
proof (induction es arbitrary: s)
  case (Cons e es)
  have step: "sax_run R (e # coalesce es) s = sax_run R (e # es) s"
    using Cons.IH step_some [of R e s] by (cases "sax_step R e s") auto
  show ?case
  proof (cases e)
    case (Chars t)
    have "sax_run R (coalesce (Chars t # es)) s = sax_run R (Chars t # coalesce es) s"
      using chars_split [of R t _ _ s] chars_none [OF Cons.prems] by (auto split: list.splits sax.splits)
    then show ?thesis using step Chars by simp
  qed (use step in simp_all)
qed simp

subsection \<open>Documents of one level\<close>

definition tag_open :: "ctext \<Rightarrow> ctext" where
  "tag_open n = str ''<'' @ n @ str ''>''"

definition tag_close :: "ctext \<Rightarrow> ctext" where
  "tag_close n = str ''</'' @ n @ str ''>''"

text \<open>A document as it is printed, and the events of it.\<close>

definition flat_xml :: "ctext \<Rightarrow> (ctext \<times> ctext) list \<Rightarrow> ctext" where
  "flat_xml dn kids =
     str ''<?xml version=\"1.0\"?>'' @ [10] @ str ''<!DOCTYPE '' @ dn @ str ''>'' @ tag_open dn @ [10] @
     concat (map (\<lambda>(n, t). tag_open n @ t @ tag_close n @ [10]) kids) @ tag_close dn @ [10]"

definition flat_sax :: "ctext \<Rightarrow> (ctext \<times> ctext) list \<Rightarrow> sax list" where
  "flat_sax dn kids =
     Chars (str ''<?xml version=\"1.0\"?>'' @ [10] @ str ''<!DOCTYPE '' @ dn @ str ''>'') #
     Start dn [] (tag_open dn) # Chars [10] #
     concat (map (\<lambda>(n, t). [Start n [] (tag_open n), Chars t, End n (tag_close n), Chars [10]]) kids) @
     [End dn (tag_close dn), Chars [10]]"

text \<open>What is documented of expat, for one document: it succeeds with these events, its text in any pieces.\<close>

definition expat_law :: "(ctext \<Rightarrow> sax list \<times> xml_status) \<Rightarrow> ctext \<Rightarrow> (ctext \<times> ctext) list \<Rightarrow> bool" where
  "expat_law expat dn kids \<longleftrightarrow>
     coalesce (fst (expat (flat_xml dn kids))) = coalesce (flat_sax dn kids) \<and>
     snd (expat (flat_xml dn kids)) = XML_STATUS_OK"

text \<open>Each element calls its handler twice.\<close>

fun read_kids :: "'c kwdtab list \<Rightarrow> (ctext \<times> ctext) list \<Rightarrow> 'c \<Rightarrow> 'c option" where
  "read_kids tab [] c = Some c"
| "read_kids tab ((n, t) # ks) c =
     do { k \<leftarrow> find_kwd n tab; h \<leftarrow> nodeparse k;
          c \<leftarrow> h c []; c \<leftarrow> h c (if t = [] then [32] else t);
          read_kids tab ks c }"

lemma set_content_simps [simp]:
  "adv_depth (set_content c f) = adv_depth f" "handler_stk (set_content c f) = handler_stk f"
  "curr_handler (set_content c f) = curr_handler f" "accum (set_content c f) = accum f"
  "adv_content (fadv (set_content c f)) = c" "dispatch_table (fadv (set_content c f)) = dispatch_table (fadv f)"
  "document_name (fadv (set_content c f)) = document_name (fadv f)" "adv_list (fadv (set_content c f)) = adv_list (fadv f)"
  by (simp_all add: set_content_def split: adv.splits)

text \<open>A frame inside the element of its document, between children.\<close>

definition between :: "'c adv \<Rightarrow> 'c handler \<Rightarrow> 'c \<Rightarrow> ctext \<Rightarrow> 'c frame \<Rightarrow> bool" where
  "between a h0 c t f \<longleftrightarrow> fadv f = Adv (document_name a) (dispatch_table a) c (adv_list a) \<and> adv_depth f = 1 \<and>
     length (handler_stk f) = MAX_ADV_DEPTH \<and> curr_handler f = Some h0 \<and> accum f = t"

lemma kid_run:
  assumes f: "between a h0 c w f" and tab: "dispatch_table a = Some tab"
    and k: "find_kwd n tab = Some k" "nodeparse k = Some h" "h c [] = Some c1" "h c1 (if t = [] then [32] else t) = Some c2"
  shows "\<exists>f'. sax_run R [Start n [] x, Chars t, End n y, Chars [10]] (Parsing [f]) = Some (Parsing [f']) \<and>
    between a h0 c2 [10] f'"
  using assms
  by (cases "t = []") (simp_all add: between_def advertisement_start_element.simps [of R n] element_kwd_def
      MAX_ADV_DEPTH_def Let_def end_handler_def set_content_def mem_simps)

lemma sax_run_append: "sax_run R (es @ fs) s = do { s \<leftarrow> sax_run R es s; sax_run R fs s }"
  by (induction es arbitrary: s) (auto split: option.splits bind_splits simp: bind_assoc)

lemma kids_run:
  assumes "between a h0 c w f" "dispatch_table a = Some tab" "read_kids tab kids c = Some c'" "kids = [] \<longrightarrow> w = [10]"
  shows "\<exists>f'. sax_run R (concat (map (\<lambda>(n, t). [Start n [] (tag_open n), Chars t, End n (tag_close n), Chars [10]]) kids))
      (Parsing [f]) = Some (Parsing [f']) \<and> between a h0 c' [10] f'"
  using assms
proof (induction kids arbitrary: c w f)
  case Nil
  then show ?case by auto
next
  case (Cons kid kids)
  obtain n t where kid: "kid = (n, t)" by fastforce
  from Cons.prems(3) kid obtain k h c1 c2 where k: "find_kwd n tab = Some k" "nodeparse k = Some h" "h c [] = Some c1"
    "h c1 (if t = [] then [32] else t) = Some c2" "read_kids tab kids c2 = Some c'"
    by (auto split: bind_splits)
  from kid_run [OF Cons.prems(1,2) k(1-4), of R "tag_open n" "tag_close n"] obtain f1 where
    f1: "sax_run R [Start n [] (tag_open n), Chars t, End n (tag_close n), Chars [10]] (Parsing [f]) = Some (Parsing [f1])"
    "between a h0 c2 [10] f1" by blast
  from Cons.IH [OF f1(2) Cons.prems(2) k(5)] obtain f' where
    "sax_run R (concat (map (\<lambda>(n, t). [Start n [] (tag_open n), Chars t, End n (tag_close n), Chars [10]]) kids))
      (Parsing [f1]) = Some (Parsing [f'])" "between a h0 c' [10] f'" by blast
  then show ?case using f1(1) kid by (simp only: list.map concat.simps sax_run_append split_conv bind.bind_lunit) auto
qed

text \<open>Reading what was printed calls the handlers on the elements in order, those of the document itself around them.\<close>

lemma flat_parse:
  assumes law: "expat_law expat dn kids"
    and a: "dispatch_table a = Some tab" "find_kwd dn tab = Some k0" "nodeparse k0 = Some h0"
    and c: "h0 (adv_content a) [] = Some c0" "read_kids tab kids c0 = Some c1" "h0 c1 [10] = Some c2"
  shows "jxta_advertisement_parse_charbuffer R expat a (flat_xml dn kids) =
    Some (JXTA_SUCCESS, Adv (document_name a) (dispatch_table a) c2 (adv_list a))"
proof -
  let ?pre = "str ''<?xml version=\"1.0\"?>'' @ [10] @ str ''<!DOCTYPE '' @ dn @ str ''>''"
  define f0 where "f0 = (new_frame a)\<lparr>accum := ?pre\<rparr>"
  have "\<exists>f. sax_run R [Start dn [] (tag_open dn), Chars [10]] (Parsing [f0]) = Some (Parsing [f]) \<and> between a h0 c0 [10] f"
    using a c(1)
    by (cases a) (simp add: f0_def new_frame_def between_def advertisement_start_element.simps [of R dn] element_kwd_def
        MAX_ADV_DEPTH_def Let_def set_content_def mem_simps)
  then obtain f where f: "sax_run R [Start dn [] (tag_open dn), Chars [10]] (Parsing [f0]) = Some (Parsing [f])"
    "between a h0 c0 [10] f" by blast
  from kids_run [OF f(2) a(1) c(2)] obtain f' where
    f': "sax_run R (concat (map (\<lambda>(n, t). [Start n [] (tag_open n), Chars t, End n (tag_close n), Chars [10]]) kids))
      (Parsing [f]) = Some (Parsing [f'])" "between a h0 c1 [10] f'" by blast
  have e: "sax_run R [End dn (tag_close dn), Chars [10]] (Parsing [f']) =
      Some (Ended (Adv (document_name a) (dispatch_table a) c2 (adv_list a)))"
    using f'(2) c(3) by (simp add: between_def end_handler_def MAX_ADV_DEPTH_def Let_def set_content_def mem_simps)
  have "sax_run R (flat_sax dn kids) (Parsing [new_frame a]) =
      sax_run R ([Start dn [] (tag_open dn), Chars [10]] @
        concat (map (\<lambda>(n, t). [Start n [] (tag_open n), Chars t, End n (tag_close n), Chars [10]]) kids) @
        [End dn (tag_close dn), Chars [10]]) (Parsing [f0])"
    by (simp add: flat_sax_def f0_def new_frame_def)
  also have "\<dots> = Some (Ended (Adv (document_name a) (dispatch_table a) c2 (adv_list a)))"
    using f(1) f'(1) e by (simp only: sax_run_append bind.bind_lunit)
  finally have "sax_run R (fst (expat (flat_xml dn kids))) (Parsing [new_frame a]) =
      Some (Ended (Adv (document_name a) (dispatch_table a) c2 (adv_list a)))"
    using law coalesce_run [of "Parsing [new_frame a]" R] by (metis expat_law_def list.distinct(1) no_frames.simps(1))
  then show ?thesis using law
    by (simp add: jxta_advertisement_parse_charbuffer_def expat_law_def parsed_def) (simp add: flat_xml_def)
qed

subsection \<open>Every document can be parsed\<close>

text \<open>Events as expat delivers them: elements nest, and nothing but text follows the document.\<close>

fun nested :: "nat \<Rightarrow> bool \<Rightarrow> sax list \<Rightarrow> bool" where
  "nested n b [] = True"
| "nested n b (Chars _ # es) = nested n b es"
| "nested n b (Start _ _ _ # es) = ((n > 0 \<or> \<not> b) \<and> nested (n + 1) True es)"
| "nested n b (End _ _ # es) = (n > 0 \<and> nested (n - 1) b es)"

definition null_name :: ctext where
  "null_name = str ''Null''"

fun names_ok :: "sax \<Rightarrow> bool" where
  "names_ok (Start n atts _) \<longleftrightarrow> n \<noteq> null_name \<and> map_of atts (str ''type'') \<noteq> Some null_name"
| "names_ok _ \<longleftrightarrow> True"

text \<open>A handler that is safe for the contents \<open>V\<close> that its type of document can have.\<close>

definition total_handler :: "'c set \<Rightarrow> 'c handler option \<Rightarrow> bool" where
  "total_handler V h \<longleftrightarrow> (case h of None \<Rightarrow> True | Some g \<Rightarrow> \<forall>c\<in>V. \<forall>t. \<exists>c'\<in>V. g c t = Some c')"

text \<open>The only keyword without a handler is the first one of every table.\<close>

definition table_total :: "'c set \<Rightarrow> 'c kwdtab list \<Rightarrow> bool" where
  "table_total V tab \<longleftrightarrow> (\<forall>k\<in>set tab. total_handler V (nodeparse k) \<and> (nodeparse k = None \<longrightarrow> kwd k = null_name))"

definition adv_on :: "'c set \<Rightarrow> 'c adv \<Rightarrow> bool" where
  "adv_on V a \<longleftrightarrow> adv_content a \<in> V \<and> (\<forall>tab. dispatch_table a = Some tab \<longrightarrow> table_total V tab)"

definition adv_total :: "'c adv \<Rightarrow> bool" where
  "adv_total a \<longleftrightarrow> (\<exists>V. adv_on V a)"

definition registry_total :: "'c registry \<Rightarrow> bool" where
  "registry_total R \<longleftrightarrow> (\<forall>n a. R n = Some a \<longrightarrow> adv_total a \<and>
     (\<exists>tab. dispatch_table a = Some tab \<and> find_kwd (document_name a) tab \<noteq> None \<and> document_name a \<noteq> null_name))"

definition frame_on :: "'c set \<Rightarrow> 'c frame \<Rightarrow> bool" where
  "frame_on V f \<longleftrightarrow> length (handler_stk f) = MAX_ADV_DEPTH \<and> total_handler V (curr_handler f) \<and>
     (\<forall>h\<in>set (handler_stk f). total_handler V h) \<and> adv_on V (fadv f)"

definition frame_ok :: "'c frame \<Rightarrow> bool" where
  "frame_ok f \<longleftrightarrow> (\<exists>V. frame_on V f)"

text \<open>The elements that are open: an inner document and the one around it share one.\<close>

fun open_elements :: "'c frame list \<Rightarrow> nat" where
  "open_elements [] = 0"
| "open_elements [f] = adv_depth f"
| "open_elements (f # fs) = adv_depth f - 1 + open_elements fs"

definition frames_ok :: "'c frame list \<Rightarrow> bool" where
  "frames_ok fs \<longleftrightarrow> fs \<noteq> [] \<and> (\<forall>f\<in>set fs. frame_ok f \<and> adv_depth f \<ge> 1) \<and> (\<forall>f\<in>set (tl fs). adv_depth f \<le> MAX_ADV_DEPTH)"

fun parsing_ok :: "nat \<Rightarrow> bool \<Rightarrow> 'c parsing \<Rightarrow> bool" where
  "parsing_ok n b (Parsing fs) \<longleftrightarrow> open_elements fs = n \<and>
     (if b then frames_ok fs else (\<exists>f. fs = [f] \<and> frame_ok f \<and> adv_depth f = 0))"
| "parsing_ok n b (Ended a) \<longleftrightarrow> n = 0 \<and> b"

lemma find_kwd_in: "find_kwd n tab = Some k \<Longrightarrow> k \<in> set tab \<and> kwd k = n"
  by (induction tab) (auto split: if_splits)

lemma handlers_total: "total_handler V (Some h) \<Longrightarrow> c \<in> V \<Longrightarrow> \<exists>c'\<in>V. h c t = Some c'"
  by (auto simp: total_handler_def)

lemma attributes_total:
  "table_total V tab \<Longrightarrow> c \<in> V \<Longrightarrow> \<exists>c'\<in>V. attribute_handlers n tab atts c = Some c'"
proof (induction n tab atts c rule: attribute_handlers.induct)
  case (2 ename tab a v atts c)
  show ?case
  proof (cases "find_kwd (ename @ [32] @ a) tab \<bind> nodeparse")
    case None
    then show ?thesis using 2 by simp
  next
    case (Some h)
    then obtain k where "k \<in> set tab" "nodeparse k = Some h" using find_kwd_in by (auto split: bind_splits)
    then have "total_handler V (Some h)" using "2.prems" unfolding table_total_def by metis
    from handlers_total [OF this "2.prems"(2)] obtain c1 where "h c v = Some c1" "c1 \<in> V" by blast
    then show ?thesis using 2 Some by auto
  qed
qed simp

lemma element_handler:
  assumes "table_total V tab" "element_kwd ty n tab = Some k" "n \<noteq> null_name" "ty \<noteq> Some null_name"
  shows "\<exists>h. nodeparse k = Some h \<and> total_handler V (Some h)"
proof -
  have "k \<in> set tab" "kwd k \<noteq> null_name"
    using assms(2-4) find_kwd_in by (fastforce simp: element_kwd_def split: option.splits bind_splits)+
  then show ?thesis using assms(1) by (cases "nodeparse k") (auto simp: table_total_def)
qed

lemma adv_on_content [simp]: "c \<in> V \<Longrightarrow> adv_on V (fadv f) \<Longrightarrow> adv_on V (fadv (set_content c f))"
  by (simp add: adv_on_def)

lemma start_frame_on:
  "frame_on V f \<Longrightarrow> frame_on V (f\<lparr>handler_stk := (handler_stk f)[d := curr_handler f], adv_depth := e\<rparr>)"
  using set_update_subset_insert [of "handler_stk f" d "curr_handler f"] by (auto simp: frame_on_def)

lemma frame_on_simps:
  "frame_on V (f\<lparr>accum := t\<rparr>) = frame_on V f" "frame_on V (f\<lparr>adv_depth := d\<rparr>) = frame_on V f"
  "frame_on V (add_adv a f) = frame_on V f"
  by (auto simp: frame_on_def add_adv_def adv_on_def split: adv.splits)

lemma frame_on_content: "frame_on V f \<Longrightarrow> c \<in> V \<Longrightarrow> frame_on V (set_content c f)"
  by (simp add: frame_on_def)

lemma frame_on_curr: "frame_on V f \<Longrightarrow> total_handler V h \<Longrightarrow> frame_on V (f\<lparr>curr_handler := h\<rparr>)"
  by (simp add: frame_on_def)

lemma frame_ok_simps:
  "frame_ok (f\<lparr>accum := t\<rparr>) = frame_ok f" "frame_ok (f\<lparr>adv_depth := d\<rparr>) = frame_ok f" "frame_ok (add_adv a f) = frame_ok f"
  by (simp_all add: frame_ok_def frame_on_simps)

lemma frame_on_stk: "frame_on V f \<Longrightarrow> length (handler_stk f) = MAX_ADV_DEPTH"
  by (simp add: frame_on_def)

text \<open>The start in a document whose table has a handler: no further document is made.\<close>

lemma start_own:
  assumes f: "frame_ok f" "adv_depth f < MAX_ADV_DEPTH" "dispatch_table (fadv f) = Some tab" "element_kwd (map_of atts (str ''type'')) n tab \<noteq> None"
    and n: "n \<noteq> null_name" "map_of atts (str ''type'') \<noteq> Some null_name"
  shows "\<exists>g. advertisement_start_element R n atts raw f fs = Some (g # fs) \<and> frame_ok g \<and> adv_depth g = adv_depth f + 1"
proof -
  from f(1) obtain V where V: "frame_on V f" by (auto simp: frame_ok_def)
  then have t: "table_total V tab" "adv_content (fadv f) \<in> V" using f(3) by (simp_all add: frame_on_def adv_on_def)
  obtain k where k: "element_kwd (map_of atts (str ''type'')) n tab = Some k" using f(4) by blast
  obtain h where h: "nodeparse k = Some h" "total_handler V (Some h)" using element_handler [OF t(1) k n] by blast
  obtain c where c: "attribute_handlers n tab atts (adv_content (fadv f)) = Some c" "c \<in> V"
    using attributes_total [OF t] by blast
  obtain c' where c': "h c [] = Some c'" "c' \<in> V" using handlers_total [OF h(2) c(2)] by blast
  let ?f = "f\<lparr>handler_stk := (handler_stk f)[adv_depth f := curr_handler f], adv_depth := adv_depth f + 1\<rparr>"
  let ?g = "set_content c' ((set_content c ?f)\<lparr>curr_handler := Some h, accum := []\<rparr>)"
  have "advertisement_start_element R n atts raw f fs = Some (?g # fs)"
    using f(2,3) c k h(1) c' frame_on_stk [OF V] by (subst advertisement_start_element.simps) (simp add: Let_def mem_simps)
  moreover have "frame_on V ?g"
  proof -
    have "frame_on V (set_content c ?f)" by (rule frame_on_content [OF start_frame_on [OF V] c(2)])
    from frame_on_curr [OF this h(2)] show ?thesis using c'(2) by (intro frame_on_content) (simp_all add: frame_on_simps)
  qed
  ultimately show ?thesis by (intro exI [of _ ?g]) (auto simp: frame_ok_def)
qed

lemma new_frame_ok: "adv_total a \<Longrightarrow> frame_ok (new_frame a)"
  by (auto simp: frame_ok_def frame_on_def adv_total_def new_frame_def total_handler_def)

lemma start_total:
  assumes R: "registry_total R" and f: "frame_ok f" and n: "n \<noteq> null_name" "map_of atts (str ''type'') \<noteq> Some null_name"
  shows "\<exists>gs. advertisement_start_element R n atts raw f fs = Some (gs @ fs) \<and>
    ((\<exists>g. gs = [g] \<and> frame_ok g \<and> adv_depth g = adv_depth f + 1) \<or>
     (\<exists>g h. gs = [h, g] \<and> frame_ok g \<and> frame_ok h \<and> adv_depth g = adv_depth f + 1 \<and> adv_depth g \<le> MAX_ADV_DEPTH \<and> adv_depth h = 1))"
proof (cases "adv_depth f \<ge> MAX_ADV_DEPTH")
  case True
  then have "advertisement_start_element R n atts raw f fs = Some ([f\<lparr>adv_depth := adv_depth f + 1\<rparr>] @ fs)"
    by (subst advertisement_start_element.simps) simp
  then show ?thesis using f by (intro exI [of _ "[f\<lparr>adv_depth := adv_depth f + 1\<rparr>]"]) (simp add: frame_ok_simps)
next
  case False
  let ?ty = "map_of atts (str ''type'')"
  let ?g = "f\<lparr>handler_stk := (handler_stk f)[adv_depth f := curr_handler f], adv_depth := adv_depth f + 1\<rparr>"
  from f obtain V where V: "frame_on V f" by (auto simp: frame_ok_def)
  have gV: "frame_on V ?g" using start_frame_on [OF V] .
  then have g: "frame_ok ?g" by (auto simp: frame_ok_def)
  have sub: "\<exists>h. advertisement_start_element R (document_name a) atts raw (new_frame a) (p # fs) = Some ([h, p] @ fs) \<and>
      frame_ok h \<and> adv_depth h = 1"
    if "jxta_advertisement_global_handler R ?ty n = Some a" for a p
  proof -
    have "\<exists>m. R m = Some a" using that
      by (auto simp: jxta_advertisement_global_handler_def split: option.splits bind_splits)
    then obtain tab where a: "adv_total a" "dispatch_table a = Some tab" "find_kwd (document_name a) tab \<noteq> None"
      "document_name a \<noteq> null_name" using R unfolding registry_total_def by blast
    have "element_kwd ?ty (document_name a) tab \<noteq> None" using a(3) by (auto simp: element_kwd_def split: option.splits)
    from start_own [OF new_frame_ok [OF a(1)] _ _ this a(4) n(2), of R raw "p # fs"] a(2) show ?thesis
      by (simp add: new_frame_def MAX_ADV_DEPTH_def)
  qed
  show ?thesis
  proof (cases "dispatch_table (fadv f)")
    case None
    show ?thesis
    proof (cases "jxta_advertisement_global_handler R ?ty n")
      case None
      then have "advertisement_start_element R n atts raw f fs = Some ([?g] @ fs)"
        using False \<open>dispatch_table (fadv f) = None\<close> frame_on_stk [OF V] by (subst advertisement_start_element.simps) (simp add: Let_def mem_simps)
      then show ?thesis using g by (intro exI [of _ "[?g]"]) simp
    next
      case (Some a)
      then have e: "advertisement_start_element R n atts raw f fs =
          advertisement_start_element R (document_name a) atts raw (new_frame a) (?g # fs)"
        using False \<open>dispatch_table (fadv f) = None\<close> frame_on_stk [OF V] by (subst advertisement_start_element.simps) (simp add: Let_def mem_simps)
      obtain h where "advertisement_start_element R (document_name a) atts raw (new_frame a) (?g # fs) = Some ([h, ?g] @ fs)"
        "frame_ok h" "adv_depth h = 1" using sub [OF Some] by blast
      then show ?thesis using e g False by (intro exI [of _ "[h, ?g]"]) simp
    qed
  next
    case (Some tab)
    show ?thesis
    proof (cases "element_kwd ?ty n tab")
      case e: (Some k)
      then show ?thesis using start_own [OF f _ Some _ n, of R raw fs] False
        by (metis append_Cons append_Nil not_le option.distinct(1))
    next
      case e: None
      have "table_total V tab" "adv_content (fadv f) \<in> V" using V Some by (simp_all add: frame_on_def adv_on_def)
      from attributes_total [OF this] obtain c where
        c: "attribute_handlers n tab atts (adv_content (fadv f)) = Some c" "c \<in> V" by blast
      let ?g1 = "set_content c ?g"
      have g1: "frame_on V ?g1" using frame_on_content [OF gV c(2)] .
      show ?thesis
      proof (cases "jxta_advertisement_global_handler R ?ty n")
        case None
        let ?g2 = "?g1\<lparr>curr_handler := None, accum := accum ?g1 @ raw\<rparr>"
        have "advertisement_start_element R n atts raw f fs = Some ([?g2] @ fs)"
          using False Some e c None frame_on_stk [OF V] by (subst advertisement_start_element.simps) (simp add: Let_def mem_simps)
        moreover have "frame_ok ?g2"
          using frame_on_curr [OF g1, of None] by (auto simp: frame_ok_def frame_on_simps total_handler_def)
        ultimately show ?thesis by (intro exI [of _ "[?g2]"]) simp
      next
        case a: (Some a)
        then have "advertisement_start_element R n atts raw f fs =
            advertisement_start_element R (document_name a) atts raw (new_frame a) (?g1 # fs)"
          using False Some e c frame_on_stk [OF V] by (subst advertisement_start_element.simps) (simp add: Let_def mem_simps)
        moreover obtain h where "advertisement_start_element R (document_name a) atts raw (new_frame a) (?g1 # fs) = Some ([h, ?g1] @ fs)"
          "frame_ok h" "adv_depth h = 1" using sub [OF a] by blast
        ultimately show ?thesis using g1 False by (intro exI [of _ "[h, ?g1]"]) (auto simp: frame_ok_def)
      qed
    qed
  qed
qed

lemma end_handler_total:
  assumes "frame_on V f"
  shows "\<exists>g. end_handler raw f = Some g \<and> frame_on V g \<and> adv_depth g = adv_depth f"
proof (cases "curr_handler f")
  case None
  then show ?thesis using assms by (simp add: end_handler_def frame_on_simps)
next
  case (Some h)
  then have "total_handler V (Some h)" "adv_content (fadv f) \<in> V" using assms by (simp_all add: frame_on_def adv_on_def)
  from handlers_total [OF this, of "if accum f = [] then [32] else accum f"] obtain c where
    c: "h (adv_content (fadv f)) (if accum f = [] then [32] else accum f) = Some c" "c \<in> V" by blast
  have "frame_on V (set_content c (f\<lparr>accum := []\<rparr>))" using assms c(2) by (simp add: frame_on_content frame_on_simps)
  moreover have "end_handler raw f = Some (set_content c (f\<lparr>accum := []\<rparr>))"
    using Some c(1) by (simp add: end_handler_def split: if_splits)
  ultimately show ?thesis by simp
qed

lemma open_Cons: "fs \<noteq> [] \<Longrightarrow> open_elements (f # fs) = adv_depth f - 1 + open_elements fs"
  by (cases fs) simp_all

lemma open_pos: "fs \<noteq> [] \<Longrightarrow> \<forall>f\<in>set fs. adv_depth f \<ge> 1 \<Longrightarrow> open_elements fs \<ge> 1"
  by (induction fs rule: open_elements.induct) auto

lemma end_total:
  assumes "frames_ok fs"
  shows "\<exists>s. advertisement_end_element raw fs = Some s \<and> parsing_ok (open_elements fs - 1) True s"
  using assms
proof (induction fs rule: length_induct)
  case (1 fs)
  then obtain f ps where fs: "fs = f # ps" by (cases fs) (auto simp: frames_ok_def)
  have f: "frame_ok f" "adv_depth f \<ge> 1" and ps: "\<forall>p\<in>set ps. frame_ok p \<and> adv_depth p \<ge> 1 \<and> adv_depth p \<le> MAX_ADV_DEPTH"
    using "1.prems" fs by (auto simp: frames_ok_def)
  show ?case
  proof (cases "adv_depth f - 1 \<ge> MAX_ADV_DEPTH")
    case True
    let ?f = "f\<lparr>adv_depth := adv_depth f - 1\<rparr>"
    have "advertisement_end_element raw fs = Some (Parsing (?f # ps))" using fs f True by (simp add: Let_def)
    moreover have "frames_ok (?f # ps)" using f ps True by (auto simp: frames_ok_def frame_ok_simps MAX_ADV_DEPTH_def)
    moreover have "open_elements (?f # ps) = open_elements fs - 1"
      using fs True by (cases ps) (auto simp: MAX_ADV_DEPTH_def)
    ultimately show ?thesis by simp
  next
    case False
    from f(1) obtain V where "frame_on V (f\<lparr>adv_depth := adv_depth f - 1\<rparr>)" by (auto simp: frame_ok_def frame_on_simps)
    from end_handler_total [OF this, of raw] obtain g where g: "end_handler raw (f\<lparr>adv_depth := adv_depth f - 1\<rparr>) = Some g"
      "frame_on V g" "adv_depth g = adv_depth f - 1" by auto
    define g1 where "g1 = g\<lparr>curr_handler := handler_stk g ! (adv_depth f - 1)\<rparr>"
    have "handler_stk g ! (adv_depth f - 1) \<in> set (handler_stk g)" using g(2) False by (auto simp: frame_on_def)
    then have "total_handler V (handler_stk g ! (adv_depth f - 1))" using g(2) by (simp add: frame_on_def)
    from frame_on_curr [OF g(2) this] have g1: "frame_ok g1" "adv_depth g1 = adv_depth f - 1"
      using g(3) by (auto simp: g1_def frame_ok_def)
    have e: "advertisement_end_element raw fs = (if adv_depth f - 1 \<noteq> 0 then Some (Parsing (g1 # ps))
        else case ps of [] \<Rightarrow> Some (Ended (fadv g1)) | p # qs \<Rightarrow> advertisement_end_element raw (add_adv (fadv g1) p # qs))"
      using fs f(2) False g(1) frame_on_stk [OF g(2)] by (cases ps) (auto simp: Let_def g1_def mem_simps)
    show ?thesis
    proof (cases "adv_depth f - 1 = 0")
      case False
      have "frames_ok (g1 # ps)" using g1 ps False by (auto simp: frames_ok_def)
      moreover have "open_elements (g1 # ps) = open_elements fs - 1"
        using fs g1(2) False by (cases ps) auto
      ultimately show ?thesis using e False by simp
    next
      case True
      show ?thesis
      proof (cases ps)
        case Nil
        then show ?thesis using e True fs f(2) by simp
      next
        case (Cons p qs)
        let ?p = "add_adv (fadv g1) p"
        have d: "adv_depth ?p = adv_depth p" by (simp add: add_adv_def)
        have "frames_ok (?p # qs)" using ps Cons d by (auto simp: frames_ok_def frame_ok_simps)
        moreover have "length (?p # qs) < length fs" using fs Cons by simp
        ultimately obtain s where s: "advertisement_end_element raw (?p # qs) = Some s"
          "parsing_ok (open_elements (?p # qs) - 1) True s" using "1.IH" by blast
        have "open_elements fs = open_elements (?p # qs)"
          using fs Cons True f(2) d by (cases qs) auto
        then show ?thesis using e True Cons s by simp
      qed
    qed
  qed
qed

lemma accum_ok:
  assumes "parsing_ok n b (Parsing (f # ps))"
  shows "parsing_ok n b (Parsing (f\<lparr>accum := t\<rparr> # ps))"
proof -
  have o: "open_elements (f\<lparr>accum := t\<rparr> # ps) = open_elements (f # ps)" by (cases ps) simp_all
  have k: "frames_ok (f\<lparr>accum := t\<rparr> # ps) = frames_ok (f # ps)" by (simp add: frames_ok_def frame_ok_simps)
  show ?thesis
  proof (cases b)
    case True
    then show ?thesis using assms o k by (simp del: open_elements.simps)
  next
    case False
    then show ?thesis using assms by (auto simp: frame_ok_simps)
  qed
qed

lemma step_total:
  assumes R: "registry_total R" and s: "parsing_ok n b s" and e: "nested n b (e # es)" "names_ok e"
  shows "\<exists>s' n' b'. sax_step R e s = Some s' \<and> parsing_ok n' b' s' \<and> nested n' b' es"
proof (cases s)
  case (Ended a)
  then show ?thesis using s e by (cases e) auto
next
  case (Parsing fs)
  then obtain f ps where fs: "fs = f # ps" using s by (cases b) (auto simp: frames_ok_def neq_Nil_conv)
  have f: "frame_ok f" using s Parsing fs by (cases b) (auto simp: frames_ok_def)
  show ?thesis
  proof (cases e)
    case (Chars t)
    have "parsing_ok n b (Parsing (f\<lparr>accum := accum f @ t\<rparr> # ps))"
      using accum_ok s unfolding Parsing fs by blast
    moreover have "sax_step R e s = Some (Parsing (f\<lparr>accum := accum f @ t\<rparr> # ps))" "nested n b es"
      using Parsing fs Chars e(1) by simp_all
    ultimately show ?thesis by blast
  next
    case (End m raw)
    then have b: "b" using e(1) s Parsing by (cases b) auto
    then have ok: "frames_ok fs" and n: "open_elements fs = n" using s Parsing by simp_all
    obtain s' where "advertisement_end_element raw fs = Some s'" "parsing_ok (n - 1) True s'"
      using end_total [OF ok, of raw] n by blast
    moreover have "sax_step R e s = advertisement_end_element raw fs" "nested (n - 1) True es"
      using Parsing End e(1) b by simp_all
    ultimately show ?thesis by metis
  next
    case (Start m atts raw)
    have m: "m \<noteq> null_name" "map_of atts (str ''type'') \<noteq> Some null_name" using e(2) Start by simp_all
    have ok: "\<forall>p\<in>set ps. frame_ok p \<and> adv_depth p \<ge> 1 \<and> adv_depth p \<le> MAX_ADV_DEPTH"
      using s Parsing fs by (cases b) (auto simp: frames_ok_def)
    have d: "ps = [] \<or> adv_depth f \<ge> 1" using s Parsing fs by (cases b) (auto simp: frames_ok_def)
    from start_total [OF R f m, of raw ps] obtain gs where gs: "advertisement_start_element R m atts raw f ps = Some (gs @ ps)"
      "(\<exists>g. gs = [g] \<and> frame_ok g \<and> adv_depth g = adv_depth f + 1) \<or>
       (\<exists>g h. gs = [h, g] \<and> frame_ok g \<and> frame_ok h \<and> adv_depth g = adv_depth f + 1 \<and> adv_depth g \<le> MAX_ADV_DEPTH \<and> adv_depth h = 1)"
      by blast
    have n: "n = open_elements (f # ps)" using s Parsing fs by simp
    have "frames_ok (gs @ ps)" using gs(2) ok by (auto simp: frames_ok_def)
    moreover have "open_elements (gs @ ps) = n + 1"
      using gs(2) n d by (elim disjE exE conjE; cases ps) auto
    ultimately have "parsing_ok (n + 1) True (Parsing (gs @ ps))" by simp
    moreover have "sax_step R e s = Some (Parsing (gs @ ps))" "nested (n + 1) True es"
      using gs(1) Parsing fs Start e(1) by simp_all
    ultimately show ?thesis by blast
  qed
qed

lemma run_total:
  assumes "registry_total R" "parsing_ok n b s" "nested n b es" "list_all names_ok es"
  shows "\<exists>s'. sax_run R es s = Some s' \<and> parsed s' \<noteq> None"
  using assms(2-4)
proof (induction es arbitrary: n b s)
  case Nil
  have "unwind fs \<noteq> None" if "fs \<noteq> []" for fs :: "'a frame list" using that by (induction fs rule: unwind.induct) auto
  then have "parsed s \<noteq> None" using Nil(1) by (cases s; cases b) (auto simp: parsed_def frames_ok_def)
  then show ?case by simp
next
  case (Cons e es)
  from step_total [OF assms(1) Cons.prems(1,2)] Cons.prems(3) obtain s' n' b' where
    "sax_step R e s = Some s'" "parsing_ok n' b' s'" "nested n' b' es" by auto
  then show ?case using Cons.IH Cons.prems(3) by simp
qed

lemma null_element:
  assumes "dispatch_table (fadv f) = Some tab" "find_kwd null_name tab = Some k" "nodeparse k = None" "adv_depth f < MAX_ADV_DEPTH"
  shows "advertisement_start_element R null_name [] raw f fs = None"
  using assms by (subst advertisement_start_element.simps) (simp add: Let_def element_kwd_def)

end
