(* ===== verification/WalkMsg.thy ===== *)
theory WalkMsg
  imports AdvProps Srdi
begin

section \<open>Headers of walked and propagated messages (src/src/jxta_walk_msg.c, jxta_pm.c)\<close>

text \<open>
  Two types of documents: the header that a walk carries, and the header of a propagated
  message.  Each is a record with a handler per element, a printer and its table of
  keywords.  Both are read by the engine of documents; as any other type of document can be
  inside of a document, the contents are of a type with a place for those that are not
  modelled.
\<close>

subsection \<open>Contents\<close>

record LimitedRangeRdvMessage =
  lr_ttl :: u32
  lr_dir :: u32
  lr_src_peer_id :: "ctext option"
  lr_svc_name :: "ctext option"
  lr_svc_params :: "ctext option"

record RendezVousPropagateMessage =
  destSName :: "ctext option"
  destSParam :: "ctext option"
  messageId :: "ctext option"
  pm_path :: "ctext list"
  pm_ttl :: u32

datatype 'o doc = Walk_doc LimitedRangeRdvMessage | Prop_doc RendezVousPropagateMessage | Other_doc 'o

definition WALK_UP :: u32 where "WALK_UP = 1"
definition WALK_DOWN :: u32 where "WALK_DOWN = 2"
definition WALK_BOTH :: u32 where "WALK_BOTH = 3"

subsection \<open>Characters (src/src/jxta_xml_util.c)\<close>

text \<open>The first word of a text.\<close>

definition extract_char_data :: "ctext \<Rightarrow> ctext" where
  "extract_char_data t = takeWhile (\<lambda>c. \<not> isspace c \<and> c \<noteq> 0) (dropWhile isspace t)"

definition atoi :: "ctext \<Rightarrow> u32" where
  "atoi t = word_of_int (fst (strtol10 t))"

definition opt_text :: "ctext option \<Rightarrow> ctext" where
  "opt_text t = (case t of None \<Rightarrow> [] | Some s \<Rightarrow> s)"

text \<open>What the handlers of texts have in common: the text is appended and the whole is trimmed.\<close>

definition append_trim :: "ctext option \<Rightarrow> ctext \<Rightarrow> ctext option" where
  "append_trim old cd = Some (trim_text (opt_text old @ cd))"

subsection \<open>The header of a walk\<close>

definition LimitedRangeRdvMessage_new :: LimitedRangeRdvMessage where
  "LimitedRangeRdvMessage_new =
     \<lparr>lr_ttl = 0, lr_dir = WALK_BOTH, lr_src_peer_id = None, lr_svc_name = None, lr_svc_params = None\<rparr>"

definition walk_handleTTL :: "LimitedRangeRdvMessage \<Rightarrow> ctext \<Rightarrow> LimitedRangeRdvMessage" where
  "walk_handleTTL ad cd =
     (if cd = [] then ad
      else let tok = extract_char_data cd in if tok \<noteq> [] then ad\<lparr>lr_ttl := atoi tok\<rparr> else ad)"

definition handleDir :: "LimitedRangeRdvMessage \<Rightarrow> ctext \<Rightarrow> LimitedRangeRdvMessage" where
  "handleDir ad cd =
     (if cd = [] then ad
      else let tok = extract_char_data cd in if tok \<noteq> [] then ad\<lparr>lr_dir := atoi tok\<rparr> else ad)"

definition handleSrcPeerID :: "LimitedRangeRdvMessage \<Rightarrow> ctext \<Rightarrow> LimitedRangeRdvMessage" where
  "handleSrcPeerID ad cd = (if cd = [] then ad else ad\<lparr>lr_src_peer_id := append_trim (lr_src_peer_id ad) cd\<rparr>)"

definition handleSrcSvcName :: "LimitedRangeRdvMessage \<Rightarrow> ctext \<Rightarrow> LimitedRangeRdvMessage" where
  "handleSrcSvcName ad cd = (if cd = [] then ad else ad\<lparr>lr_svc_name := append_trim (lr_svc_name ad) cd\<rparr>)"

definition handleSrcSvcParams :: "LimitedRangeRdvMessage \<Rightarrow> ctext \<Rightarrow> LimitedRangeRdvMessage" where
  "handleSrcSvcParams ad cd = (if cd = [] then ad else ad\<lparr>lr_svc_params := append_trim (lr_svc_params ad) cd\<rparr>)"

definition on_walk :: "(LimitedRangeRdvMessage \<Rightarrow> ctext \<Rightarrow> LimitedRangeRdvMessage) \<Rightarrow> 'o doc handler" where
  "on_walk h d cd = (case d of Walk_doc m \<Rightarrow> Some (Walk_doc (h m cd)) | _ \<Rightarrow> None)"

definition tag :: "string \<Rightarrow> 'c handler option \<Rightarrow> 'c kwdtab" where
  "tag n h = \<lparr>kwd = str n, nodeparse = h, kget = None, kget_parm = None\<rparr>"

definition LimitedRangeRdvMessage_tags :: "'o doc kwdtab list" where
  "LimitedRangeRdvMessage_tags =
     [tag ''Null'' None,
      tag ''jxta:LimitedRangeRdvMessage'' (Some (on_walk (\<lambda>m _. m))),
      tag ''TTL'' (Some (on_walk walk_handleTTL)),
      tag ''Dir'' (Some (on_walk handleDir)),
      tag ''SrcPeerID'' (Some (on_walk handleSrcPeerID)),
      tag ''SrcSvcName'' (Some (on_walk handleSrcSvcName)),
      tag ''SrcSvcParams'' (Some (on_walk handleSrcSvcParams))]"

definition LimitedRangeRdvMessage_adv :: "LimitedRangeRdvMessage \<Rightarrow> 'o doc adv" where
  "LimitedRangeRdvMessage_adv m =
     Adv (str ''jxta:LimitedRangeRdvMessage'') (Some LimitedRangeRdvMessage_tags) (Walk_doc m) []"

text \<open>Texts go into the document as they are; one that is missing is left out.\<close>

definition LimitedRangeRdvMessage_get_xml :: "LimitedRangeRdvMessage \<Rightarrow> ctext" where
  "LimitedRangeRdvMessage_get_xml ad =
     str ''<?xml version=\"1.0\"?>'' @ [10] @
     str ''<!DOCTYPE jxta:LimitedRangeRdvMessage>'' @
     str ''<jxta:LimitedRangeRdvMessage>'' @ [10] @
     str ''<TTL>'' @ print10 (sint (lr_ttl ad)) @ str ''</TTL>'' @ [10] @
     str ''<Dir>'' @ print10 (sint (lr_dir ad)) @ str ''</Dir>'' @ [10] @
     str ''<SrcPeerID>'' @ opt_text (lr_src_peer_id ad) @ str ''</SrcPeerID>'' @ [10] @
     str ''<SrcSvcName>'' @ opt_text (lr_svc_name ad) @ str ''</SrcSvcName>'' @ [10] @
     str ''<SrcSvcParams>'' @ opt_text (lr_svc_params ad) @ str ''</SrcSvcParams>'' @ [10] @
     str ''</jxta:LimitedRangeRdvMessage>'' @ [10]"

type_synonym expat = "ctext \<Rightarrow> sax list \<times> xml_status"

definition LimitedRangeRdvMessage_parse_charbuffer ::
  "'o doc registry \<Rightarrow> expat \<Rightarrow> LimitedRangeRdvMessage \<Rightarrow> ctext \<Rightarrow> (status \<times> LimitedRangeRdvMessage) option" where
  "LimitedRangeRdvMessage_parse_charbuffer R expat ad buf =
     do { (st, a) \<leftarrow> jxta_advertisement_parse_charbuffer R expat (LimitedRangeRdvMessage_adv ad) buf;
          (case adv_content a of Walk_doc m \<Rightarrow> Some (st, m) | _ \<Rightarrow> None) }"

subsection \<open>The header of a propagated message\<close>

definition RendezVousPropagateMessage_new :: RendezVousPropagateMessage where
  "RendezVousPropagateMessage_new = \<lparr>destSName = None, destSParam = None, messageId = None, pm_path = [], pm_ttl = 0\<rparr>"

definition handleDestSName :: "RendezVousPropagateMessage \<Rightarrow> ctext \<Rightarrow> RendezVousPropagateMessage" where
  "handleDestSName ad cd = (if cd = [] then ad else ad\<lparr>destSName := append_trim (destSName ad) cd\<rparr>)"

definition handleDestSParam :: "RendezVousPropagateMessage \<Rightarrow> ctext \<Rightarrow> RendezVousPropagateMessage" where
  "handleDestSParam ad cd = (if cd = [] then ad else ad\<lparr>destSParam := append_trim (destSParam ad) cd\<rparr>)"

definition handleMessageId :: "RendezVousPropagateMessage \<Rightarrow> ctext \<Rightarrow> RendezVousPropagateMessage" where
  "handleMessageId ad cd = (if cd = [] then ad else ad\<lparr>messageId := append_trim (messageId ad) cd\<rparr>)"

definition prop_handleTTL :: "RendezVousPropagateMessage \<Rightarrow> ctext \<Rightarrow> RendezVousPropagateMessage" where
  "prop_handleTTL ad cd = (let tok = extract_char_data cd in if tok \<noteq> [] then ad\<lparr>pm_ttl := atoi tok\<rparr> else ad)"

definition handlePath :: "RendezVousPropagateMessage \<Rightarrow> ctext \<Rightarrow> RendezVousPropagateMessage" where
  "handlePath ad cd = (let tok = extract_char_data cd in if tok \<noteq> [] then ad\<lparr>pm_path := pm_path ad @ [tok]\<rparr> else ad)"

definition on_prop :: "(RendezVousPropagateMessage \<Rightarrow> ctext \<Rightarrow> RendezVousPropagateMessage) \<Rightarrow> 'o doc handler" where
  "on_prop h d cd = (case d of Prop_doc m \<Rightarrow> Some (Prop_doc (h m cd)) | _ \<Rightarrow> None)"

definition RendezVousPropagateMessage_tags :: "'o doc kwdtab list" where
  "RendezVousPropagateMessage_tags =
     [tag ''Null'' None,
      tag ''jxta:RendezVousPropagateMessage'' (Some (on_prop (\<lambda>m _. m))),
      tag ''DestSName'' (Some (on_prop handleDestSName)),
      tag ''DestSParam'' (Some (on_prop handleDestSParam)),
      tag ''MessageId'' (Some (on_prop handleMessageId)),
      tag ''Path'' (Some (on_prop handlePath)),
      tag ''TTL'' (Some (on_prop prop_handleTTL))]"

definition RendezVousPropagateMessage_adv :: "RendezVousPropagateMessage \<Rightarrow> 'o doc adv" where
  "RendezVousPropagateMessage_adv m =
     Adv (str ''jxta:RendezVousPropagateMessage'') (Some RendezVousPropagateMessage_tags) (Prop_doc m) []"

definition RendezVousPropagateMessage_get_xml :: "RendezVousPropagateMessage \<Rightarrow> ctext" where
  "RendezVousPropagateMessage_get_xml ad =
     str ''<?xml version=\"1.0\"?>'' @ [10] @
     str ''<!DOCTYPE jxta:RendezVousPropagateMessage>'' @
     str ''<jxta:RendezVousPropagateMessage>'' @ [10] @
     str ''<DestSName>'' @ opt_text (destSName ad) @ str ''</DestSName>'' @ [10] @
     str ''<DestSParam>'' @ opt_text (destSParam ad) @ str ''</DestSParam>'' @ [10] @
     str ''<MessageId>'' @ opt_text (messageId ad) @ str ''</MessageId>'' @ [10] @
     str ''<TTL>'' @ print10 (sint (pm_ttl ad)) @ str ''</TTL>'' @ [10] @
     concat (map (\<lambda>p. str ''<Path>'' @ p @ str ''</Path>'' @ [10]) (pm_path ad)) @
     str ''</jxta:RendezVousPropagateMessage>'' @ [10]"

definition RendezVousPropagateMessage_parse_charbuffer ::
  "'o doc registry \<Rightarrow> expat \<Rightarrow> RendezVousPropagateMessage \<Rightarrow> ctext \<Rightarrow> (status \<times> RendezVousPropagateMessage) option" where
  "RendezVousPropagateMessage_parse_charbuffer R expat ad buf =
     do { (st, a) \<leftarrow> jxta_advertisement_parse_charbuffer R expat (RendezVousPropagateMessage_adv ad) buf;
          (case adv_content a of Prop_doc m \<Rightarrow> Some (st, m) | _ \<Rightarrow> None) }"

end
