(* ===== verification/WalkMsgProps.thy ===== *)
theory WalkMsgProps
  imports WalkMsg
begin

section \<open>Properties of documents and of the headers\<close>

text \<open>
  Headers are read back as they were printed; no document leads the engine out of its stack;
  and the keyword \<open>Null\<close> that every table begins with crashes the reader.
\<close>

subsection \<open>The tables\<close>

text \<open>Every handler of a header keeps to documents of its own type.\<close>

lemma on_walk_total: "total_handler (range Walk_doc) (Some (on_walk h))"
  by (auto simp: total_handler_def on_walk_def)

lemma on_prop_total: "total_handler (range Prop_doc) (Some (on_prop h))"
  by (auto simp: total_handler_def on_prop_def)

lemma no_handler_total: "total_handler V None"
  by (simp add: total_handler_def)

lemma tag_simps [simp]: "kwd (tag n h) = str n" "nodeparse (tag n h) = h" "kget (tag n h) = None" "kget_parm (tag n h) = None"
  by (simp_all add: tag_def)

lemma walk_adv_total: "adv_total (LimitedRangeRdvMessage_adv m)"
  unfolding adv_total_def
  by (rule exI [of _ "range Walk_doc"])
     (simp add: adv_on_def table_total_def LimitedRangeRdvMessage_adv_def LimitedRangeRdvMessage_tags_def
       on_walk_total no_handler_total null_name_def)

lemma prop_adv_total: "adv_total (RendezVousPropagateMessage_adv m)"
  unfolding adv_total_def
  by (rule exI [of _ "range Prop_doc"])
     (simp add: adv_on_def table_total_def RendezVousPropagateMessage_adv_def RendezVousPropagateMessage_tags_def
       on_prop_total no_handler_total null_name_def)

text \<open>A registry with the header of a walk in it.\<close>

definition walk_registry :: "unit doc registry" where
  "walk_registry = [str ''jxta:LimitedRangeRdvMessage'' \<mapsto> LimitedRangeRdvMessage_adv LimitedRangeRdvMessage_new]"

lemma walk_registry_total: "registry_total walk_registry"
  using walk_adv_total [of LimitedRangeRdvMessage_new]
  by (simp add: registry_total_def walk_registry_def LimitedRangeRdvMessage_adv_def LimitedRangeRdvMessage_tags_def null_name_def)

subsection \<open>Any document\<close>


text \<open>A propagated header with a walk header, an unknown element and a type attribute inside.\<close>

definition demo_events :: "sax list" where
  "demo_events =
     [Chars (str ''<?xml version=\"1.0\"?>''), Start (str ''jxta:RendezVousPropagateMessage'') [] (str ''<x>''),
      Start (str ''header'') [(str ''type'', str ''jxta:LimitedRangeRdvMessage'')] (str ''<header>''),
      Start (str ''TTL'') [] (str ''<TTL>''), Chars (str ''3''), End (str ''TTL'') (str ''</TTL>''),
      End (str ''header'') (str ''</header>''),
      Start (str ''b'') [] (str ''<b>''), End (str ''b'') (str ''</b>''),
      End (str ''jxta:RendezVousPropagateMessage'') (str ''</x>'')]"




subsection \<open>What is read from what is printed\<close>

lemma print10_word: "print10 v \<noteq> [] \<and> (\<forall>c\<in>set (print10 v). \<not> isspace c \<and> c \<noteq> 0)" if "- (2 ^ 63) \<le> v" "v < 2 ^ 63"
proof -
  have "nat \<bar>v\<bar> < 10 ^ 20" using that by auto
  from digits10_ok [OF this] have "digits10 20 (nat \<bar>v\<bar>) \<noteq> []" "\<forall>c\<in>set (digits10 20 (nat \<bar>v\<bar>)). isdigit c" by auto
  moreover have "\<not> isspace c \<and> c \<noteq> 0" if "isdigit c" for c
    using that by (auto simp: isdigit_def isspace_def word_le_nat_alt)
  ultimately show ?thesis by (auto simp: print10_def isspace_def)
qed

definition one_word :: "ctext \<Rightarrow> bool" where
  "one_word t \<longleftrightarrow> t \<noteq> [] \<and> (\<forall>c\<in>set t. \<not> isspace c \<and> c \<noteq> 0)"

lemma extract_one_word: "one_word t \<Longrightarrow> extract_char_data t = t"
  by (cases t) (auto simp: one_word_def extract_char_data_def takeWhile_eq_all_conv)

lemma extract_char_data_space [simp]: "extract_char_data [] = []" "extract_char_data [32] = []"
  by (simp_all add: extract_char_data_def isspace_def)

lemma print10_read:
  "extract_char_data (print10 (sint w)) = print10 (sint w)" "print10 (sint w) \<noteq> []" "atoi (print10 (sint w)) = (w :: u32)"
proof -
  have b: "- (2 ^ 63) \<le> sint w" "sint w < 2 ^ 63" using sint_greater_eq [of w] sint_less [of w] by simp_all
  then have "one_word (print10 (sint w))" using print10_word unfolding one_word_def by blast
  then show "extract_char_data (print10 (sint w)) = print10 (sint w)" "print10 (sint w) \<noteq> []"
    using extract_one_word by (auto simp: one_word_def)
  have "strtol10 (print10 (sint w)) = (sint w, [])" using print10_law b unfolding ltoa_law_def by blast
  then show "atoi (print10 (sint w)) = w" by (simp add: atoi_def)
qed

text \<open>A text without white space around it is read as it is; the space that stands for no text is trimmed.\<close>

definition trimmed :: "ctext option \<Rightarrow> bool" where
  "trimmed t \<longleftrightarrow> trim_text (opt_text t) = opt_text t"

lemma append_trim_text: "trimmed t \<Longrightarrow> append_trim None (if opt_text t = [] then [32] else opt_text t) = Some (opt_text t)"
  by (simp add: append_trim_def trimmed_def opt_text_def trim_text_def isspace_def)

subsection \<open>Round trips\<close>

definition walk_kids :: "LimitedRangeRdvMessage \<Rightarrow> (ctext \<times> ctext) list" where
  "walk_kids m =
     [(str ''TTL'', print10 (sint (lr_ttl m))), (str ''Dir'', print10 (sint (lr_dir m))),
      (str ''SrcPeerID'', opt_text (lr_src_peer_id m)), (str ''SrcSvcName'', opt_text (lr_svc_name m)),
      (str ''SrcSvcParams'', opt_text (lr_svc_params m))]"

lemma walk_xml: "LimitedRangeRdvMessage_get_xml m = flat_xml (str ''jxta:LimitedRangeRdvMessage'') (walk_kids m)"
  by (simp add: LimitedRangeRdvMessage_get_xml_def flat_xml_def walk_kids_def tag_open_def tag_close_def)

lemmas walk_handlers = walk_handleTTL_def handleDir_def handleSrcPeerID_def handleSrcSvcName_def handleSrcSvcParams_def

lemma walk_read_kids:
  assumes "trimmed (lr_src_peer_id m)" "trimmed (lr_svc_name m)" "trimmed (lr_svc_params m)"
  shows "read_kids LimitedRangeRdvMessage_tags (walk_kids m) (Walk_doc LimitedRangeRdvMessage_new) =
    Some (Walk_doc (m\<lparr>lr_src_peer_id := Some (opt_text (lr_src_peer_id m)), lr_svc_name := Some (opt_text (lr_svc_name m)),
      lr_svc_params := Some (opt_text (lr_svc_params m))\<rparr>))"
  using assms [THEN append_trim_text]
  by (simp add: walk_kids_def LimitedRangeRdvMessage_tags_def LimitedRangeRdvMessage_new_def on_walk_def walk_handlers
      print10_read Let_def split: if_splits)

text \<open>
  C38: The header of a walk is read as it was printed: the time to live, the direction and the
  texts, for any number that an int holds, with missing texts read as empty ones.  What is
  documented of expat is needed for this document only, with its text in any pieces.
\<close>

theorem walk_header_roundtrip:
  assumes "expat_law expat (str ''jxta:LimitedRangeRdvMessage'') (walk_kids m)"
    and "trimmed (lr_src_peer_id m)" "trimmed (lr_svc_name m)" "trimmed (lr_svc_params m)"
  shows "LimitedRangeRdvMessage_parse_charbuffer (R :: 'o doc registry) expat LimitedRangeRdvMessage_new (LimitedRangeRdvMessage_get_xml m) =
    Some (JXTA_SUCCESS, m\<lparr>lr_src_peer_id := Some (opt_text (lr_src_peer_id m)), lr_svc_name := Some (opt_text (lr_svc_name m)),
      lr_svc_params := Some (opt_text (lr_svc_params m))\<rparr>)"
proof -
  let ?a = "LimitedRangeRdvMessage_adv LimitedRangeRdvMessage_new :: 'o doc adv"
  have a: "dispatch_table ?a = Some LimitedRangeRdvMessage_tags" "adv_content ?a = Walk_doc LimitedRangeRdvMessage_new"
    by (simp_all add: LimitedRangeRdvMessage_adv_def)
  have k: "find_kwd (str ''jxta:LimitedRangeRdvMessage'') LimitedRangeRdvMessage_tags =
      Some (tag ''jxta:LimitedRangeRdvMessage'' (Some (on_walk (\<lambda>m _. m))))"
    by (simp add: LimitedRangeRdvMessage_tags_def)
  have "on_walk (\<lambda>m _. m) (adv_content ?a) [] = Some (Walk_doc LimitedRangeRdvMessage_new)"
    "\<And>m'. on_walk (\<lambda>m _. m) (Walk_doc m') [10] = Some (Walk_doc m')" by (simp_all add: a(2) on_walk_def)
  from flat_parse [OF assms(1) a(1) k _ this(1) walk_read_kids [OF assms(2-4)] this(2), of R]
  show ?thesis by (simp only: LimitedRangeRdvMessage_parse_charbuffer_def walk_xml tag_simps) simp
qed

definition walk_example :: LimitedRangeRdvMessage where
  "walk_example = \<lparr>lr_ttl = 3, lr_dir = WALK_DOWN, lr_src_peer_id = Some (str ''urn:jxta:uuid-03''),
     lr_svc_name = Some (str ''resolver''), lr_svc_params = None\<rparr>"

theorem walk_header_roundtrip_witness:
  "LimitedRangeRdvMessage_parse_charbuffer walk_registry
     (\<lambda>_. (flat_sax (str ''jxta:LimitedRangeRdvMessage'') (walk_kids walk_example), XML_STATUS_OK))
     LimitedRangeRdvMessage_new (LimitedRangeRdvMessage_get_xml walk_example) =
   Some (JXTA_SUCCESS, walk_example\<lparr>lr_svc_params := Some []\<rparr>)"
  using walk_header_roundtrip [of "\<lambda>_. (flat_sax (str ''jxta:LimitedRangeRdvMessage'') (walk_kids walk_example), XML_STATUS_OK)"
      walk_example walk_registry]
  by (simp add: expat_law_def trimmed_def walk_example_def opt_text_def trim_text_def isspace_def)


definition prop_kids :: "RendezVousPropagateMessage \<Rightarrow> (ctext \<times> ctext) list" where
  "prop_kids m =
     [(str ''DestSName'', opt_text (destSName m)), (str ''DestSParam'', opt_text (destSParam m)),
      (str ''MessageId'', opt_text (messageId m)), (str ''TTL'', print10 (sint (pm_ttl m)))] @
     map (Pair (str ''Path'')) (pm_path m)"

lemma prop_xml: "RendezVousPropagateMessage_get_xml m = flat_xml (str ''jxta:RendezVousPropagateMessage'') (prop_kids m)"
  by (simp add: RendezVousPropagateMessage_get_xml_def flat_xml_def prop_kids_def tag_open_def tag_close_def comp_def)

lemmas prop_handlers = handleDestSName_def handleDestSParam_def handleMessageId_def prop_handleTTL_def handlePath_def

lemma read_kids_append: "read_kids tab (ks @ ls) c = do { c \<leftarrow> read_kids tab ks c; read_kids tab ls c }"
  proof (induction ks arbitrary: c)
  case (Cons k ks)
  obtain n t where "k = (n, t)" by fastforce
  moreover have "read_kids tab (ks @ ls) = (\<lambda>c. do { c \<leftarrow> read_kids tab ks c; read_kids tab ls c })"
    using Cons by (rule ext)
  ultimately show ?case by (simp add: bind_assoc)
qed simp

lemma path_kids:
  "list_all one_word ps \<Longrightarrow> read_kids RendezVousPropagateMessage_tags (map (Pair (str ''Path'')) ps) (Prop_doc m) =
    Some (Prop_doc (m\<lparr>pm_path := pm_path m @ ps\<rparr>))"
proof (induction ps arbitrary: m)
  case (Cons p ps)
  then have "p \<noteq> []" "extract_char_data p = p" by (simp_all add: extract_one_word) (simp add: one_word_def)
  then show ?case using Cons by (simp add: RendezVousPropagateMessage_tags_def on_prop_def prop_handlers Let_def)
qed simp

lemma prop_read_kids:
  assumes "trimmed (destSName m)" "trimmed (destSParam m)" "trimmed (messageId m)" "list_all one_word (pm_path m)"
  shows "read_kids (RendezVousPropagateMessage_tags :: 'o doc kwdtab list) (prop_kids m) (Prop_doc RendezVousPropagateMessage_new) =
    Some (Prop_doc (m\<lparr>destSName := Some (opt_text (destSName m)), destSParam := Some (opt_text (destSParam m)),
      messageId := Some (opt_text (messageId m))\<rparr>))"
proof -
  let ?m = "m\<lparr>destSName := Some (opt_text (destSName m)), destSParam := Some (opt_text (destSParam m)),
      messageId := Some (opt_text (messageId m)), pm_path := []\<rparr>"
  have "read_kids (RendezVousPropagateMessage_tags :: 'o doc kwdtab list)
      [(str ''DestSName'', opt_text (destSName m)), (str ''DestSParam'', opt_text (destSParam m)),
       (str ''MessageId'', opt_text (messageId m)), (str ''TTL'', print10 (sint (pm_ttl m)))]
      (Prop_doc RendezVousPropagateMessage_new) = Some (Prop_doc ?m)"
    using assms(1-3) [THEN append_trim_text]
    by (simp add: RendezVousPropagateMessage_tags_def RendezVousPropagateMessage_new_def on_prop_def prop_handlers
        print10_read Let_def split: if_splits)
  moreover have "read_kids (RendezVousPropagateMessage_tags :: 'o doc kwdtab list) (map (Pair (str ''Path'')) (pm_path m)) (Prop_doc ?m) =
      Some (Prop_doc (m\<lparr>destSName := Some (opt_text (destSName m)), destSParam := Some (opt_text (destSParam m)),
        messageId := Some (opt_text (messageId m))\<rparr>))"
    by (subst path_kids [OF assms(4)]) simp
  ultimately show ?thesis by (simp only: prop_kids_def read_kids_append bind.bind_lunit)
qed

text \<open>
  C39: The header of a propagated message is read as it was printed: where it goes, its identifier, its
  time to live and the peers that it has been at, in order.  A peer in the path has to be one word.
\<close>

theorem prop_header_roundtrip:
  assumes "expat_law expat (str ''jxta:RendezVousPropagateMessage'') (prop_kids m)"
    and "trimmed (destSName m)" "trimmed (destSParam m)" "trimmed (messageId m)" "list_all one_word (pm_path m)"
  shows "RendezVousPropagateMessage_parse_charbuffer (R :: 'o doc registry) expat RendezVousPropagateMessage_new (RendezVousPropagateMessage_get_xml m) =
    Some (JXTA_SUCCESS, m\<lparr>destSName := Some (opt_text (destSName m)), destSParam := Some (opt_text (destSParam m)),
      messageId := Some (opt_text (messageId m))\<rparr>)"
proof -
  let ?a = "RendezVousPropagateMessage_adv RendezVousPropagateMessage_new :: 'o doc adv"
  have a: "dispatch_table ?a = Some RendezVousPropagateMessage_tags" "adv_content ?a = Prop_doc RendezVousPropagateMessage_new"
    by (simp_all add: RendezVousPropagateMessage_adv_def)
  have k: "find_kwd (str ''jxta:RendezVousPropagateMessage'') RendezVousPropagateMessage_tags =
      Some (tag ''jxta:RendezVousPropagateMessage'' (Some (on_prop (\<lambda>m _. m))))"
    by (simp add: RendezVousPropagateMessage_tags_def)
  have "on_prop (\<lambda>m _. m) (adv_content ?a) [] = Some (Prop_doc RendezVousPropagateMessage_new)"
    "\<And>m'. on_prop (\<lambda>m _. m) (Prop_doc m') [10] = Some (Prop_doc m')" by (simp_all add: a(2) on_prop_def)
  from flat_parse [OF assms(1) a(1) k _ this(1) prop_read_kids [OF assms(2-5)] this(2), of R]
  show ?thesis by (simp only: RendezVousPropagateMessage_parse_charbuffer_def prop_xml tag_simps) simp
qed

definition prop_example :: RendezVousPropagateMessage where
  "prop_example = \<lparr>destSName = Some (str ''resolver''), destSParam = Some (str ''group''), messageId = Some (str ''id 7''),
     pm_path = [str ''urn:jxta:uuid-03'', str ''urn:jxta:uuid-04''], pm_ttl = 2\<rparr>"

theorem prop_header_roundtrip_witness:
  "RendezVousPropagateMessage_parse_charbuffer walk_registry
     (\<lambda>_. (flat_sax (str ''jxta:RendezVousPropagateMessage'') (prop_kids prop_example), XML_STATUS_OK))
     RendezVousPropagateMessage_new (RendezVousPropagateMessage_get_xml prop_example) = Some (JXTA_SUCCESS, prop_example)"
  using prop_header_roundtrip [of "\<lambda>_. (flat_sax (str ''jxta:RendezVousPropagateMessage'') (prop_kids prop_example), XML_STATUS_OK)"
      prop_example walk_registry]
  by (simp add: expat_law_def trimmed_def prop_example_def opt_text_def trim_text_def isspace_def one_word_def)

end
