(* ===== verification/Spec2Isabelle.thy ===== *)
theory Spec2Isabelle
  imports HashTable JVector JStringBuf GroupRegistry Multicast Rendezvous EndpointProps SrdiProps ListenerProps LeaseProps WalkMsgProps
begin

text \<open>
  A verification library for the core of JXTA-C, the C implementation of the JXTA peer-to-peer
  protocols (directory src/src of the repository).  It imports all the theories and holds
  nothing else.

  \<^bold>\<open>The program.\<close>  A peer has peer groups, each with services.  Messages go over transports to the
  endpoint service of a peer, which finds the callback of the service that they are for.
  Rendezvous peers keep a view of each other (the peerview) and leases with edge peers; the
  shared resource distributed index (srdi) puts an index entry on the rendezvous that a hash of
  its key selects, and sends queries there.  Under these services is a library of
  reference-counted objects: vectors, hash tables, byte vectors, strings, identifiers,
  messages, addresses, queues and listeners.

  \<^bold>\<open>Foundations.\<close>
  Prelude: status codes, machine integers, blocks of memory.
  JObject (jxta_object.c): the header of an object, share and release; the free function runs
  exactly once, when the last reference goes.
  JVector (jxta_vector.c): growing arrays of objects refine lists, with the balance of references.
  ProbeTable, TableStore, HashTable (jxta_hashtable.c) and ObjectHashTable
  (jxta_objecthashtable.c): open addressing with double hashing.  The locales key_hashing and
  object_keys state what the tables need of the keys, object_map what a table promises; both
  tables refine maps, whatever collisions and growths happen, and keep the reference counts.
  ByteVector (jxta_bytevector.c), CString and JStringBuf (jstring.c): growing buffers, with
  every failure of an allocation a branch.
  JxtaId (jxta_id.c, jxta_id_uuid.c, jxta_id_jxta.c): identifiers of the two formats and their texts.
  QoS (jxta_qos.c): quality of service settings and their XML text.
  JDList (jdlist.c, jdlist.h): doubly linked lists on an explicit store of nodes; each
  operation keeps the ring and does to the contents what it says.
  WorkQueue (queue.c): the blocking queue over such a list; the locale fifo is the interface its
  users rely on, interpreted as wq.
  JRange (jxta_range.c): ranges of numbers and their segments.

  \<^bold>\<open>Messages and addresses.\<close>
  ByteStream: big-endian fields and the streams that they go over.
  Message, MessageWire, MessageRead, MessageProps (jxta_message.c): messages and both wire formats,
  written and read back, and what a reader does with malformed input.
  EndpointAddress (jxta_endpoint_address.c) and Multicast (jxta_tcp_multicast.c,
  jxta_tcp_message_packet_header.c): addresses, packet headers, and a message from one peer to another.
  AdvParser, AdvProps (jxta_advertisement.c): the engine that turns the events of expat into calls of
  the handlers of a document, with documents inside of documents; expat is a parameter.
  WalkMsg, WalkMsgProps (jxta_walk_msg.c, jxta_pm.c): the headers of walked and propagated messages,
  printed and read back.

  \<^bold>\<open>Services.\<close>
  GroupRegistry (jxta_peergroup.c): the global table of groups refines a map.
  Endpoint, EndpointQueue, EndpointProps (jxta_endpoint_service.c, jxta_util_priv.c): the lookup of
  callbacks and the queue of outgoing messages per peer.
  Peer, PeerView, PeerViewProps, Rendezvous (jxta_peer.c, jxta_peerview.c): the ordered view of
  rendezvous with its neighbours, timers and messages as a step relation, with its invariant.
  Srdi, SrdiProps (jxta_srdi_service_ref.c, jxta_discovery_service_ref.c): which rendezvous gets an
  entry and which gets a query.
  Listener, ListenerProps (jxta_listener.c): the queue of events with its threads, every
  interleaving of which is a run of the inductive relation runs.
  Lease, LeaseProps (jxta_rdv_service_server.c, jxta_rdv_service_client.c): lease requests, grants,
  renewals and expiry on both sides.

  \<^bold>\<open>Conventions.\<close>  A structure is a record, a C integer a word or an int with its conversions
  written out, a hash table of a higher component a map or an association list (the tables are
  proved to be maps in their own theories).  Access to memory that is not there and a failed
  assertion are None; error codes are values of the type status.  Random numbers, time, the contents
  and addresses of fresh blocks, the choices of the scheduler, and the answers of libraries
  (libxml2, APR, the SHA-1 and big number functions, the XML documents of advertisements) are
  arguments of the definitions or fields of an environment record, with the documented
  behaviour that a theorem relies on as a named hypothesis.

  \<^bold>\<open>Bounds and fuel.\<close>  The growth of a table is modelled up to 2^28 keys and 2^30 entries, beyond
  which the C sizes wrap.  The loop that rounds a size up to a power of two runs with 65 steps of
  fuel, one more than a size has bits; a probe sequence has modmask + 1 steps, after which it would
  repeat; the loop over a header of a packet runs at most its length; the recursion over signatures
  and demultiplexed addresses is bounded by the depth of what is read.  The loops over
  linked lists are partial functions and shown to end on rings.  The fuel is never what a
  theorem rests on: each theorem states that a result is returned.

  \<^bold>\<open>What is shown.\<close>  The properties are the theorems with a claim id.  Beside refinement and round
  trips they are: references are balanced; the wire formats are read back as they were
  written; a message reaches its callback, in order; the peerview keeps its order, bounds and
  neighbours and forgets peers that have gone; documents never lead their parser astray; entries and queries meet at the same
  rendezvous; listeners call their function for each event in order and can be stopped; leases
  are kept.  Some show what the code does wrong: they carry the kind error and are listed as findings.

  \<^bold>\<open>Not modelled.\<close>  The cache manager and the translation of queries are SQL and libxml2 trees, whose
  meaning is that of third-party engines.  Transports and connections, relay, pipes and socket tunnels
  are input and output over sockets.  The other advertisements are further tables for the engine of
  documents.  Start-up, module
  loading, configuration and logging are glue; the shell, the daemon, the bindings, tutorials and tests
  call the library.  Of the modelled services the following is left out: propagation and
  walking of messages and the automatic choice of a rendezvous, local discovery, the SQL search of the
  srdi service, and the thread pool.
\<close>

end
